(* ===== verification/Go_Prelude.thy ===== *)
theory Go_Prelude
  imports Main "HOL-Library.Word" "HOL-Library.Finite_Map" "HOL-Library.Multiset"
begin

text \<open>
  Shared vocabulary of the development: Go's fixed-width integers and byte slices, Go maps as
  finite maps, the big-endian encoding of \<open>encoding/binary\<close>, the array copy used for block
  identifiers, hexadecimal encoding, and the generic lemmas the component theories share.

  A Go \<open>uint64\<close> is a 64-bit word, with wrap-around arithmetic and the unsigned order; an
  \<open>int64\<close> is the same word read with \<open>sint\<close>.  A byte slice is a list of 8-bit words, and a
  nil slice is identified with the empty one (the code tests \<open>len(x) == 0\<close>, and a decoded or
  copied empty slice is nil).  A Go map is a finite map: it has a length and no order, and where
  the code iterates over a map the model either computes an order-independent value or takes the
  iteration order as an argument.
\<close>

type_synonym u8 = "8 word"
type_synonym u64 = "64 word"
type_synonym i64 = "64 word"
type_synonym bytes = "u8 list"

named_theorems gomap_simps \<open>length and lookup of Go maps\<close>
named_theorems framing \<open>fields an operation leaves unchanged\<close>

section \<open>Go maps\<close>

definition gm_len :: "('k, 'v) fmap \<Rightarrow> nat" where
  "gm_len m = fcard (fmdom m)"

definition gm_keys :: "('k::linorder, 'v) fmap \<Rightarrow> 'k list" where
  "gm_keys m = sorted_list_of_fset (fmdom m)"

lemma gm_len_empty [gomap_simps]: "gm_len fmempty = 0"
  by (simp add: gm_len_def)

lemma gm_len_upd [gomap_simps]:
  "gm_len (fmupd k v m) = (if k |\<in>| fmdom m then gm_len m else Suc (gm_len m))"
  by (simp add: gm_len_def fcard_finsert_if)

lemma gm_len_card: "gm_len m = card (fset (fmdom m))"
  by (simp add: gm_len_def fcard.rep_eq)

lemma gm_len_zero [gomap_simps]: "gm_len m = 0 \<longleftrightarrow> m = fmempty"
proof
  assume "gm_len m = 0"
  then have "fmlookup m k = None" for k
    by (simp add: gm_len_card fmdom_notD)
  then show "m = fmempty"
    by (intro fmap_ext) simp
qed (simp add: gm_len_def)

lemma gm_len_drop: "k |\<in>| fmdom m \<Longrightarrow> gm_len (fmdrop k m) = gm_len m - 1"
  by (simp add: gm_len_card card_Diff_singleton)

lemma gm_len_drop_less: "k |\<in>| fmdom m \<Longrightarrow> gm_len (fmdrop k m) < gm_len m"
  by (simp add: gm_len_card) (metis card_gt_0_iff diff_less empty_iff finite_fset zero_less_Suc)

lemma gm_len_drop_notin: "k |\<notin>| fmdom m \<Longrightarrow> gm_len (fmdrop k m) = gm_len m"
  by (simp add: gm_len_def)

lemma set_gm_keys [gomap_simps]: "set (gm_keys m) = fset (fmdom m)"
  by (simp add: gm_keys_def)

lemma sorted_gm_keys: "sorted (gm_keys m)"
  by (simp add: gm_keys_def sorted_list_of_fset.rep_eq)

lemma distinct_gm_keys: "distinct (gm_keys m)"
  by (simp add: gm_keys_def sorted_list_of_fset.rep_eq)

lemma length_gm_keys: "length (gm_keys m) = gm_len m"
  by (metis distinct_card distinct_gm_keys gm_len_card set_gm_keys)

lemma fmdomI': "fmlookup m k = Some v \<Longrightarrow> k |\<in>| fmdom m"
  by (rule fmdomI)

lemma fmdom_lookup_None: "k |\<notin>| fmdom m \<longleftrightarrow> fmlookup m k = None"
  by (auto simp: fmdom_notI fmdom_notD)

section \<open>Fixed-width integers\<close>

abbreviation u64_max :: u64 where
  "u64_max \<equiv> - 1"

lemma unat_succ: "v < u64_max \<Longrightarrow> unat ((v :: u64) + 1) = unat v + 1"
proof -
  assume "v < u64_max"
  then have "1 + v \<noteq> 0"
    by (metis add.inverse_unique less_irrefl)
  then show ?thesis
    by (simp add: unatSuc add.commute)
qed

lemma u64_less_succ_iff: "b < u64_max \<Longrightarrow> (a :: u64) < b + 1 \<longleftrightarrow> a \<le> b"
  by (simp add: word_less_nat_alt [of a] word_le_nat_alt unat_succ less_Suc_eq_le)

lemma u64_succ_less: "v < u64_max \<Longrightarrow> (v :: u64) < v + 1"
  by (simp add: u64_less_succ_iff)

lemma u64_le_succ: "a \<le> b \<Longrightarrow> b < u64_max \<Longrightarrow> (a :: u64) < b + 1"
  by (simp add: u64_less_succ_iff)

lemma unat_of_nat_small: "n < 2 ^ 64 \<Longrightarrow> unat (of_nat n :: u64) = n"
  by (simp add: unat_of_nat take_bit_nat_eq_self)

lemma unat_of_nat_below:
  assumes "i < unat (w :: u64)"
  shows "unat (of_nat i :: u64) = i"
proof -
  have "unat w < 2 ^ LENGTH(64)" by (rule unsigned_less)
  with assms show ?thesis by (intro unat_of_nat_small) simp
qed

text \<open>Indices into a ring of \<open>n\<close> slots: a shift by less than \<open>n\<close> reaches another slot.\<close>

lemma shift_mod_inj:
  assumes "(s + i) mod n = (s + j) mod (n :: nat)" and "i < n" and "j < n"
  shows "i = j"
  using assms
proof (induction i j rule: linorder_wlog)
  case (le i j)
  then have "n dvd j - i"
    using mod_eq_dvd_iff_nat [of "s + i" "s + j" n] by simp
  with le show ?case
    using dvd_imp_le [of n "j - i"] by (cases "i = j") auto
qed auto

text \<open>A \<open>uint64\<close> sum is the sum of the summands while that stays below \<open>2 ^ 64\<close>.\<close>

lemma unat_sum_mod: "finite A \<Longrightarrow> unat (\<Sum>i\<in>A. f i :: u64) = (\<Sum>i\<in>A. unat (f i)) mod 2 ^ 64"
  by (induction A rule: finite_induct) (auto simp: unat_word_ariths mod_simps)

lemma unat_sum:
  "finite A \<Longrightarrow> (\<Sum>i\<in>A. unat (f i)) < 2 ^ 64 \<Longrightarrow> unat (\<Sum>i\<in>A. f i :: u64) = (\<Sum>i\<in>A. unat (f i))"
  by (simp add: unat_sum_mod)

lemma sint_small:
  assumes "unat (w :: u64) < 2 ^ 63"
  shows "sint w = int (unat w)"
proof -
  have eq: "int (unat w) = uint w" by simp
  from assms have "int (unat w) < int (2 ^ 63)" by (simp only: of_nat_less_iff)
  then have "uint w < 2 ^ 63" unfolding eq by simp
  then have "signed_take_bit 63 (uint w) = uint w"
    by (intro signed_take_bit_int_eq_self) (auto intro: order_trans [OF _ uint_ge_0])
  then show ?thesis
    unfolding eq by (simp add: sint_uint)
qed

section \<open>Byte encodings\<close>

text \<open>\<open>binary.BigEndian.PutUint64\<close>: eight bytes, most significant first.\<close>

definition be64 :: "u64 \<Rightarrow> bytes" where
  "be64 w = map (\<lambda>i. ucast (drop_bit (8 * i) w)) [7, 6, 5, 4, 3, 2, 1, 0]"

lemma length_be64 [simp]: "length (be64 w) = 8"
  by (simp add: be64_def)

lemma be64_byte:
  assumes "be64 a = be64 b" and "i < 8"
  shows "(ucast (drop_bit (8 * i) a) :: u8) = ucast (drop_bit (8 * i) b)"
proof -
  from assms(2) have "i \<in> set [7, 6, 5, 4, 3, 2, 1, 0]"
    by (simp, presburger)
  with assms(1) show ?thesis
    by (auto simp: be64_def)
qed

lemma be64_inject [simp]: "be64 a = be64 b \<longleftrightarrow> a = b"
proof
  assume eq: "be64 a = be64 b"
  show "a = b"
  proof (rule bit_word_eqI)
    fix n assume n: "n < LENGTH(64)"
    let ?i = "n div 8" and ?k = "n mod 8"
    from n have "?i < 8" by simp
    from be64_byte [OF eq this]
    have "bit (ucast (drop_bit (8 * ?i) a) :: u8) ?k = bit (ucast (drop_bit (8 * ?i) b) :: u8) ?k"
      by simp
    then show "bit a n = bit b n"
      by (simp add: bit_ucast_iff bit_drop_bit_eq)
  qed
qed simp

text \<open>Two encodings of the same length followed by anything split at the same place.\<close>

lemma be64_append_inject [simp]: "be64 a @ xs = be64 b @ ys \<longleftrightarrow> a = b \<and> xs = ys"
  by (simp add: append_eq_append_conv)

text \<open>\<open>copy(id[:], bh)\<close> into a zeroed 32-byte array: truncates a longer slice and leaves the
  rest of the array zero after a shorter one.\<close>

definition copy32 :: "bytes \<Rightarrow> bytes" where
  "copy32 bh = take 32 (bh @ replicate 32 0)"

lemma length_copy32 [simp]: "length (copy32 bh) = 32"
  by (simp add: copy32_def)

lemma copy32_exact [simp]: "length bh = 32 \<Longrightarrow> copy32 bh = bh"
  by (simp add: copy32_def)

section \<open>Hexadecimal text\<close>

definition hex_digit :: "nat \<Rightarrow> char" where
  "hex_digit n = ''0123456789abcdef'' ! n"

definition hex_byte :: "u8 \<Rightarrow> string" where
  "hex_byte b = [hex_digit (unat b div 16), hex_digit (unat b mod 16)]"

fun hex_encode :: "bytes \<Rightarrow> string" where
  "hex_encode [] = []"
| "hex_encode (b # bs) = hex_byte b @ hex_encode bs"


lemma hex_digit_inject: "a < 16 \<Longrightarrow> b < 16 \<Longrightarrow> hex_digit a = hex_digit b \<longleftrightarrow> a = b"
  unfolding hex_digit_def by (subst nth_eq_iff_index_eq) simp_all

lemma hex_byte_inject [simp]: "hex_byte a = hex_byte b \<longleftrightarrow> a = b"
proof
  assume eq: "hex_byte a = hex_byte b"
  have "unat x < 2 ^ LENGTH(8)" for x :: u8
    by (rule unsigned_less)
  then have "unat x < 16 * 16" for x :: u8 by simp
  then have "unat a div 16 < 16" "unat b div 16 < 16"
    by (simp_all add: less_mult_imp_div_less)
  then have "unat a div 16 = unat b div 16" "unat a mod 16 = unat b mod 16"
    using eq by (simp_all add: hex_byte_def hex_digit_inject)
  then have "unat a = unat b"
    by (metis div_mult_mod_eq)
  then show "a = b" by (simp only: word_unat_eq_iff)
qed simp

lemma length_hex_encode [simp]: "length (hex_encode bs) = 2 * length bs"
  by (induction bs) (simp_all add: hex_byte_def)

lemma hex_encode_inject [simp]: "hex_encode xs = hex_encode ys \<longleftrightarrow> xs = ys"
proof
  assume eq: "hex_encode xs = hex_encode ys"
  then have "length xs = length ys"
    by (metis length_hex_encode mult_cancel1 zero_neq_numeral)
  then show "xs = ys"
    using eq
  proof (induction xs ys rule: list_induct2)
    case (Cons x xs y ys)
    then have "hex_byte x = hex_byte y \<and> hex_encode xs = hex_encode ys"
      by (simp add: hex_byte_def)
    with Cons show ?case by simp
  qed simp
qed simp

end
