(* ===== verification/Quorum_System.thy ===== *)
theory Quorum_System
  imports Go_Prelude
begin

text \<open>
  The interface between every component that collects signatures and the components that size
  a quorum: a set of members with weights, a threshold above two thirds of the total weight, and
  what follows for two groups of members that both reach the threshold.  The argument \<open>s\<close> of
  every operation is the configuration (a validator set, a membership configuration, a member
  count), and \<open>ok s\<close> says for which configurations the laws hold.
\<close>

locale weighted_quorum =
  fixes members :: "'s \<Rightarrow> 'v set"
    and weight :: "'s \<Rightarrow> 'v \<Rightarrow> nat"
    and threshold :: "'s \<Rightarrow> nat"
    and ok :: "'s \<Rightarrow> bool"
  assumes finite_members: "ok s \<Longrightarrow> finite (members s)"
    and above_two_thirds: "ok s \<Longrightarrow> 2 * sum (weight s) (members s) < 3 * threshold s"
begin

lemma overlap_weight:
  assumes ok: "ok s" and A: "A \<subseteq> members s" and B: "B \<subseteq> members s"
    and qA: "threshold s \<le> sum (weight s) A" and qB: "threshold s \<le> sum (weight s) B"
  shows "sum (weight s) (members s) < 3 * sum (weight s) (A \<inter> B)"
proof -
  have fin: "finite A" "finite B"
    using finite_subset [OF A] finite_subset [OF B] finite_members [OF ok] by auto
  have "sum (weight s) A + sum (weight s) B = sum (weight s) (A \<union> B) + sum (weight s) (A \<inter> B)"
    using sum.union_inter [OF fin, of "weight s"] by simp
  moreover have "sum (weight s) (A \<union> B) \<le> sum (weight s) (members s)"
    using A B by (intro sum_mono2 finite_members [OF ok]) auto
  ultimately show ?thesis
    using above_two_thirds [OF ok] qA qB by linarith
qed

lemma overlap_nonempty:
  assumes "ok s" "A \<subseteq> members s" "B \<subseteq> members s"
    and "threshold s \<le> sum (weight s) A" "threshold s \<le> sum (weight s) B"
  shows "A \<inter> B \<noteq> {}"
  using overlap_weight [OF assms] by force

text \<open>Less than a third of the weight faulty: two quorums share a member that is not faulty.\<close>

lemma overlap_honest:
  assumes "ok s" "A \<subseteq> members s" "B \<subseteq> members s"
    and "threshold s \<le> sum (weight s) A" "threshold s \<le> sum (weight s) B"
    and faulty: "3 * sum (weight s) (F \<inter> members s) \<le> sum (weight s) (members s)"
  shows "\<exists>v \<in> A \<inter> B. v \<notin> F"
proof (rule ccontr)
  assume "\<not> ?thesis"
  then have "A \<inter> B \<subseteq> F \<inter> members s"
    using assms(2) by blast
  then have "sum (weight s) (A \<inter> B) \<le> sum (weight s) (F \<inter> members s)"
    by (intro sum_mono2) (auto simp: finite_members [OF assms(1)])
  with overlap_weight [OF assms(1-5)] faulty show False by linarith
qed

lemma quorum_has_honest:
  assumes "ok s" "A \<subseteq> members s" "threshold s \<le> sum (weight s) A"
    and "3 * sum (weight s) (F \<inter> members s) \<le> sum (weight s) (members s)"
  shows "\<exists>v \<in> A. v \<notin> F"
  using overlap_honest [OF assms(1,2,2,3,3,4)] by simp

end

text \<open>When the threshold is the least such number, the members that are not faulty reach it.\<close>

locale tight_quorum = weighted_quorum +
  assumes tight: "ok s \<Longrightarrow> threshold s = 2 * sum (weight s) (members s) div 3 + 1"
begin

lemma honest_reach_quorum:
  assumes "ok s" and "3 * sum (weight s) (F \<inter> members s) < sum (weight s) (members s)"
  shows "threshold s \<le> sum (weight s) (members s - F)"
proof -
  have "sum (weight s) (members s) = sum (weight s) (members s - F) + sum (weight s) (F \<inter> members s)"
    using sum.Int_Diff [OF finite_members [OF assms(1)], of "weight s" F]
    by (simp add: Int_commute)
  then show ?thesis
    using assms(2) tight [OF assms(1)] by linarith
qed

end

section \<open>Collecting signatures\<close>

text \<open>
  A signature collector adds a signer's signature once.  The laws say which signers it holds
  after an insertion and that its counter is their number; the lemmas say what that gives for
  any sequence of insertions.
\<close>

locale signature_collector =
  fixes add :: "'c \<Rightarrow> u64 \<Rightarrow> bytes \<Rightarrow> 'c"
    and sigs :: "'c \<Rightarrow> (u64, bytes) fmap"
    and count :: "'c \<Rightarrow> int"
    and fits :: "'c \<Rightarrow> bool"
  assumes sigs_add: "sigs (add c i s) =
      (if i |\<in>| fmdom (sigs c) then sigs c else fmupd i s (sigs c))"
    and count_add: "fits c \<Longrightarrow> fits (add c i s)"
    and fits_count: "fits c \<Longrightarrow> count c = int (gm_len (sigs c))"
begin

lemma add_again: "sigs (add (add c i s) i t) = sigs (add c i s)"
  by (simp add: sigs_add)

lemma first_signature_kept:
  "fmlookup (sigs c) i = Some s \<Longrightarrow> fmlookup (sigs (add c j t)) i = Some s"
  by (auto simp: sigs_add dest: fmdomI)

lemma dom_add: "fmdom (sigs (add c i s)) = finsert i (fmdom (sigs c))"
  by (auto simp: sigs_add)

lemma dom_fold:
  "fset (fmdom (sigs (fold (\<lambda>(i, s) c. add c i s) xs c))) = fset (fmdom (sigs c)) \<union> fst ` set xs"
  by (induction xs arbitrary: c) (auto simp: dom_add)

lemma fits_fold: "fits c \<Longrightarrow> fits (fold (\<lambda>(i, s) c. add c i s) xs c)"
  by (induction xs arbitrary: c) (auto simp: count_add)

lemma count_fold:
  assumes "fits c" and "sigs c = fmempty"
  shows "count (fold (\<lambda>(i, s) c. add c i s) xs c) = int (card (fst ` set xs))"
  using fits_count [OF fits_fold [OF assms(1), of xs]] dom_fold [of xs c] assms(2)
  by (simp add: gm_len_card)

end

end
