(* ===== verification/Consensus_Types.thy ===== *)
theory Consensus_Types
  imports Quorum_System
begin

text \<open>
  The shared data of \<open>evolvbft/types\<close> (types.go, vote.go, dag.go): blocks, votes, certificates,
  messages, validators and validator sets, with the operations the package defines on them.
  A Go pointer that may be nil is an \<open>option\<close>; the mutexes are left out, every operation being
  one atomic step.  SHA-256, Ed25519 and the JSON encoder are arguments of the definitions that
  use them.  An enumeration read from the wire can hold any integer, so each one whose unknown
  values the code treats has a constructor for them.
\<close>

section \<open>Enumerations\<close>

datatype Phase = PhasePrepare | PhasePrecommit | PhaseCommit | PhaseDecide

datatype TxType = TxTypeNormal | TxTypeReconfig | TxTypeOther

datatype ReconfigType = ReconfigJoin | ReconfigLeave | ReconfigAutoLeave | ReconfigOther

datatype MessageType = MsgProposal | MsgVote | MsgNewView | MsgTimeout | MsgJoin | MsgLeave
  | MsgSync | MsgOther

section \<open>Reconfiguration payloads\<close>

record hydra_auto_vote =
  hav_SenderID :: u64
  hav_Signature :: bytes
  hav_Digest :: bytes

record hydra_transition_proof =
  htp_View :: u64
  htp_NewConfigID :: u64
  htp_Leaves :: "u64 list"
  htp_BlockHash :: bytes
  htp_AutoVotes :: "(u64, hydra_auto_vote option) fmap"

record reconfig_data =
  rd_Type :: ReconfigType
  rd_NodeID :: u64
  rd_PublicKey :: bytes
  rd_VRFPublicKey :: bytes
  rd_Power :: u64
  rd_Epoch :: u64
  rd_TargetEpoch :: u64
  rd_Signature :: bytes
  rd_AutoLeaveProof :: "hydra_transition_proof option"

record transaction =
  tx_Type :: TxType
  tx_Payload :: bytes

section \<open>Certificates, blocks and votes\<close>

record quorum_certificate =
  qc_BlockHash :: bytes
  qc_View :: u64
  qc_Epoch :: u64
  qc_ConfigID :: u64
  qc_Lane :: u64
  qc_Phase :: Phase
  qc_Signatures :: "(u64, bytes) fmap"
  qc_AggregatedSig :: bytes
  qc_NumSignatures :: int

record timeout_certificate =
  tc_View :: u64
  tc_Epoch :: u64
  tc_ConfigID :: u64
  tc_Lane :: u64
  tc_HighestQC :: "quorum_certificate option"
  tc_Signatures :: "(u64, bytes) fmap"
  tc_NumVoters :: int

record timeout_vote =
  tv_View :: u64
  tv_Epoch :: u64
  tv_ConfigID :: u64
  tv_Lane :: u64
  tv_VoterID :: u64
  tv_HighestQC :: "quorum_certificate option"
  tv_Signature :: bytes

record vertex_certificate =
  vc_VertexHash :: bytes
  vc_Epoch :: u64
  vc_Round :: u64
  vc_Signatures :: "(u64, bytes) fmap"

record vertex =
  vx_Epoch :: u64
  vx_Round :: u64
  vx_Author :: u64
  vx_Txs :: "transaction option list"
  vx_Parents :: "bytes list"
  vx_Signature :: bytes
  vx_Hash :: bytes

record block =
  b_Height :: u64
  b_Hash :: bytes
  b_Parent :: bytes
  b_Data :: bytes
  b_JoinRequests :: "bytes list"
  b_LeaveRequests :: "bytes list"
  b_Payload :: "vertex_certificate option list"
  b_View :: u64
  b_Phase :: Phase
  b_Epoch :: u64
  b_LeaderID :: u64
  b_Rank :: i64
  b_LaneID :: u64
  b_ConfigID :: u64
  b_Justify :: "quorum_certificate option"
  b_TimeoutCert :: "timeout_certificate option"
  b_Timestamp :: i64
  b_Randomness :: bytes

record vote =
  vt_BlockID :: bytes
  vt_View :: u64
  vt_Epoch :: u64
  vt_ConfigID :: u64
  vt_Lane :: u64
  vt_Author :: bytes
  vt_Signature :: bytes
  vt_VRFProof :: bytes

record message =
  m_Type :: MessageType
  m_SenderID :: u64
  m_View :: u64
  m_Epoch :: u64
  m_ConfigID :: u64
  m_Lane :: u64
  m_LeaderSetHash :: bytes
  m_BarrierView :: u64
  m_Instance :: u64
  m_Height :: u64
  m_Data :: bytes
  m_Block :: "block option"
  m_Vote :: "vote option"
  m_QC :: "quorum_certificate option"
  m_TC :: "timeout_certificate option"
  m_TimeoutVote :: "timeout_vote option"
  m_Signature :: bytes

section \<open>Validators and configurations\<close>

text \<open>A validator map is a Go \<open>map[uint64]*Validator\<close>: an entry may be a nil pointer.\<close>

record validator =
  v_ID :: u64
  v_PublicKey :: bytes
  v_VRFPublicKey :: bytes
  v_Power :: u64
  v_IsActive :: bool

type_synonym validators = "(u64, validator option) fmap"

record configuration =
  cfg_ID :: u64
  cfg_Validators :: validators
  cfg_QuorumSize :: u64

record epoch_transition =
  et_OldEpoch :: u64
  et_NewEpoch :: u64
  et_ActivationHeight :: u64
  et_ActivationRank :: u64
  et_Added :: "u64 list"
  et_Removed :: "u64 list"
  et_QuorumSize :: u64
  et_ConfigHash :: bytes

record validator_set =
  vs_Epoch :: u64
  vs_Validators :: validators
  vs_TotalPower :: u64
  vs_QuorumSize :: u64

text \<open>The guard \<open>v, exists := m[id]; exists && v != nil\<close>.\<close>

definition get_validator :: "validators \<Rightarrow> u64 \<Rightarrow> validator option" where
  "get_validator m i = (case fmlookup m i of Some (Some v) \<Rightarrow> Some v | _ \<Rightarrow> None)"

section \<open>Validator sets\<close>

text \<open>The default power of an active validator without explicit weight is one.\<close>

definition active_power :: "validator \<Rightarrow> u64" where
  "active_power v = (if v_Power v = 0 then 1 else v_Power v)"

definition summed_power :: "validators \<Rightarrow> u64 \<Rightarrow> u64" where
  "summed_power vs i = (case get_validator vs i of
     Some v \<Rightarrow> if v_IsActive v then active_power v else 0
   | None \<Rightarrow> 0)"

definition total_power :: "validators \<Rightarrow> u64" where
  "total_power vs =
     (let t = (\<Sum>i \<in> fset (fmdom vs). summed_power vs i)
      in if t = 0 then of_nat (gm_len vs) else t)"

definition NewValidatorSet :: "u64 \<Rightarrow> validators \<Rightarrow> validator_set" where
  "NewValidatorSet epoch vs =
     \<lparr> vs_Epoch = epoch, vs_Validators = vs, vs_TotalPower = total_power vs,
       vs_QuorumSize = total_power vs * 2 div 3 + 1 \<rparr>"

text \<open>
  \<open>ValidatorSet.Copy\<close> dereferences every entry, so a nil entry makes it panic (\<open>None\<close>); the
  copy of a set without nil entries equals it.
\<close>

definition vs_Copy :: "validator_set \<Rightarrow> validator_set option" where
  "vs_Copy vs = (if fmpred (\<lambda>_ v. v \<noteq> None) (vs_Validators vs) then Some vs else None)"

text \<open>\<open>Configuration.ToValidatorSet\<close> drops nil entries and keeps the configuration's quorum.\<close>

definition non_nil :: "validators \<Rightarrow> validators" where
  "non_nil vs = fmfilter (\<lambda>i. get_validator vs i \<noteq> None) vs"

definition ToValidatorSet :: "configuration \<Rightarrow> validator_set" where
  "ToValidatorSet c =
     (NewValidatorSet (cfg_ID c) (non_nil (cfg_Validators c)))\<lparr>vs_QuorumSize := cfg_QuorumSize c\<rparr>"

end
