(* ===== verification/Config_Hash.thy ===== *)
theory Config_Hash
  imports Consensus_Types
begin

text \<open>
  \<open>Configuration.Hash\<close> and \<open>ValidatorSet.Hash\<close> (types.go): the validators are collected from
  the map in Go's unspecified iteration order, sorted by identifier with a double loop of
  exchanges, and the JSON text of the sorted list is hashed.  The iteration order is an argument
  of the model; the theory proves that the hash does not depend on it.
\<close>

section \<open>The double loop\<close>

text \<open>
  The inner loop \<open>for j := i+1; ...; if items[j].ID < items[i].ID { swap }\<close>, with \<open>x\<close> the
  current item at \<open>i\<close>: it returns the item left at \<open>i\<close> and the rest of the slice.
\<close>

fun sweep :: "('a \<Rightarrow> u64) \<Rightarrow> 'a \<Rightarrow> 'a list \<Rightarrow> 'a \<times> 'a list" where
  "sweep key x [] = (x, [])"
| "sweep key x (y # ys) =
     (if key y < key x then (let (m, zs) = sweep key y ys in (m, x # zs))
      else (let (m, zs) = sweep key x ys in (m, y # zs)))"

lemma length_sweep: "length (snd (sweep key x ys)) = length ys"
  by (induction key x ys rule: sweep.induct) (auto simp: split_beta)

function exchange_sort :: "('a \<Rightarrow> u64) \<Rightarrow> 'a list \<Rightarrow> 'a list" where
  "exchange_sort key [] = []"
| "exchange_sort key (x # xs) =
     fst (sweep key x xs) # exchange_sort key (snd (sweep key x xs))"
  by pat_completeness auto
termination
  by (relation "measure (\<lambda>(key, xs). length xs)") (auto simp: length_sweep)

lemma mset_sweep: "add_mset (fst (sweep key x ys)) (mset (snd (sweep key x ys))) = add_mset x (mset ys)"
  by (induction key x ys rule: sweep.induct) (auto simp: split_beta)

lemma set_sweep: "insert (fst (sweep key x ys)) (set (snd (sweep key x ys))) = insert x (set ys)"
  using mset_sweep [of key x ys, THEN arg_cong [where f = set_mset]] by simp

lemma sweep_least: "z \<in> insert x (set ys) \<Longrightarrow> key (fst (sweep key x ys)) \<le> key z"
proof (induction key x ys arbitrary: z rule: sweep.induct)
  case (2 key x y ys)
  show ?case
  proof (cases "key y < key x")
    case True
    then have "key (fst (sweep key y ys)) \<le> key z'" if "z' \<in> insert y (set ys)" for z'
      using that by (rule "2.IH"(1))
    with True "2.prems" show ?thesis
      by (auto simp: split_beta intro: order_trans less_imp_le)
  next
    case False
    then have "key (fst (sweep key x ys)) \<le> key z'" if "z' \<in> insert x (set ys)" for z'
      using that by (rule "2.IH"(2))
    with False "2.prems" show ?thesis
      by (auto simp: split_beta not_less intro: order_trans)
  qed
qed simp

lemma mset_exchange_sort [simp]: "mset (exchange_sort key xs) = mset xs"
  by (induction key xs rule: exchange_sort.induct) (simp_all add: mset_sweep)

lemma set_exchange_sort [simp]: "set (exchange_sort key xs) = set xs"
  by (rule mset_eq_setD) simp

lemma sorted_exchange_sort: "sorted (map key (exchange_sort key xs))"
proof (induction key xs rule: exchange_sort.induct)
  case (2 key x xs)
  have "key (fst (sweep key x xs)) \<le> key z" if "z \<in> set (snd (sweep key x xs))" for z
  proof (rule sweep_least)
    from that have "z \<in> insert (fst (sweep key x xs)) (set (snd (sweep key x xs)))" by simp
    then show "z \<in> insert x (set xs)" by (simp only: set_sweep)
  qed
  with 2 show ?case by simp
qed simp

text \<open>Items with distinct keys have one sorted arrangement, whatever the order they came in.\<close>

lemma exchange_sort_unique:
  assumes eq: "mset xs = mset ys" and dist: "distinct (map key xs)"
  shows "exchange_sort key xs = exchange_sort key ys"
proof (rule map_sorted_distinct_set_unique [of key])
  have d: "distinct (map key zs)" if "mset zs = mset xs" for zs
  proof -
    from that have "mset (map key zs) = mset (map key xs)" by simp
    then have "distinct (map key zs) = distinct (map key xs)"
      by (rule mset_eq_imp_distinct_iff)
    with dist show ?thesis by simp
  qed
  show "distinct (map key (exchange_sort key xs))" "distinct (map key (exchange_sort key ys))"
    using eq by (auto intro!: d)
  have "set xs = set ys"
    using eq by (rule mset_eq_setD)
  then show "set (exchange_sort key xs) = set (exchange_sort key ys)"
    and "inj_on key (set (exchange_sort key xs) \<union> set (exchange_sort key ys))"
    using dist by (auto simp: distinct_map)
qed (rule sorted_exchange_sort)+

section \<open>The hash\<close>

record config_item =
  ci_ID :: u64
  ci_PublicKey :: bytes
  ci_VRFPublicKey :: bytes
  ci_Power :: u64
  ci_IsActive :: bool

definition config_item :: "validators \<Rightarrow> u64 \<Rightarrow> config_item option" where
  "config_item m i = (case get_validator m i of
     None \<Rightarrow> None
   | Some v \<Rightarrow> Some \<lparr> ci_ID = i, ci_PublicKey = v_PublicKey v, ci_VRFPublicKey = v_VRFPublicKey v,
       ci_Power = v_Power v, ci_IsActive = v_IsActive v \<rparr>)"

text \<open>\<open>order\<close> lists the keys of the map as the \<open>range\<close> loop meets them; nil entries are skipped.\<close>

definition config_items :: "u64 list \<Rightarrow> validators \<Rightarrow> config_item list" where
  "config_items order m = List.map_filter (config_item m) order"

definition enumerates :: "'k list \<Rightarrow> ('k, 'v) fmap \<Rightarrow> bool" where
  "enumerates order m \<longleftrightarrow> distinct order \<and> set order = fset (fmdom m)"

type_synonym config_json = "u64 \<Rightarrow> u64 \<Rightarrow> config_item list \<Rightarrow> bytes"

definition Configuration_Hash ::
  "(bytes \<Rightarrow> bytes) \<Rightarrow> config_json \<Rightarrow> u64 list \<Rightarrow> configuration \<Rightarrow> bytes" where
  "Configuration_Hash sha256 json order c =
     sha256 (json (cfg_ID c) (cfg_QuorumSize c)
       (exchange_sort ci_ID (config_items order (cfg_Validators c))))"

definition ValidatorSet_Hash ::
  "(bytes \<Rightarrow> bytes) \<Rightarrow> config_json \<Rightarrow> u64 list \<Rightarrow> validator_set \<Rightarrow> bytes" where
  "ValidatorSet_Hash sha256 json order vs = Configuration_Hash sha256 json order
     \<lparr> cfg_ID = vs_Epoch vs, cfg_Validators = vs_Validators vs, cfg_QuorumSize = vs_QuorumSize vs \<rparr>"

lemma enumerates_keys: "enumerates (gm_keys m) m"
  by (simp add: enumerates_def distinct_gm_keys set_gm_keys)

lemma map_filter_config_ID:
  "map ci_ID (List.map_filter (config_item m) xs) = filter (\<lambda>i. get_validator m i \<noteq> None) xs"
  by (induction xs) (auto simp: config_item_def List.map_filter_simps split: option.splits)

lemma mset_config_items:
  assumes "enumerates xs m" and "enumerates ys m"
  shows "mset (config_items xs m) = mset (config_items ys m)"
proof -
  have "mset xs = mset ys"
    using assms by (simp add: enumerates_def flip: set_eq_iff_mset_eq_distinct)
  then show ?thesis
    by (simp add: config_items_def List.map_filter_def)
qed

lemma distinct_config_items: "enumerates xs m \<Longrightarrow> distinct (map ci_ID (config_items xs m))"
  by (simp add: config_items_def map_filter_config_ID enumerates_def)

text \<open>
  The hash of a configuration is a function of its contents: two nodes that iterate over the
  validator map in different orders compute the same leader-set hash.
\<close>

theorem Configuration_Hash_order_independent:
  assumes "enumerates order1 (cfg_Validators c)" and "enumerates order2 (cfg_Validators c)"
  shows "Configuration_Hash sha256 json order1 c = Configuration_Hash sha256 json order2 c"
  using exchange_sort_unique [OF mset_config_items [OF assms] distinct_config_items [OF assms(1)]]
  by (simp add: Configuration_Hash_def)

definition sample_configuration :: configuration where
  "sample_configuration = \<lparr> cfg_ID = 3, cfg_Validators = fmap_of_list
     (map (\<lambda>i. (i, Some \<lparr> v_ID = i, v_PublicKey = [ucast i], v_VRFPublicKey = [], v_Power = 1,
        v_IsActive = True \<rparr>)) [7, 2, 5]), cfg_QuorumSize = 3 \<rparr>"

theorem Configuration_Hash_order_independent_witness:
  "Configuration_Hash (\<lambda>x. x) (\<lambda>n q. concat \<circ> map ci_PublicKey) [7, 2, 5] sample_configuration =
   Configuration_Hash (\<lambda>x. x) (\<lambda>n q. concat \<circ> map ci_PublicKey) [5, 7, 2] sample_configuration"
  by (rule Configuration_Hash_order_independent)
    (auto simp: enumerates_def sample_configuration_def)

end
