(* ===== verification/Certificates.thy ===== *)
theory Certificates
  imports Config_Hash
begin

text \<open>
  Quorum certificates, block hashes and the byte strings that are signed (types.go, vote.go,
  dag.go, message_codec.go), and the verification of a certificate's signatures (crypto.go).
  \<open>ed_verify key message signature\<close> is Ed25519 verification and \<open>sha256\<close> the digest.
\<close>

type_synonym verifier = "bytes \<Rightarrow> bytes \<Rightarrow> bytes \<Rightarrow> bool"

section \<open>Quorum certificates\<close>

definition NewQuorumCertificateWithIdentity ::
  "bytes \<Rightarrow> u64 \<Rightarrow> u64 \<Rightarrow> u64 \<Rightarrow> u64 \<Rightarrow> Phase \<Rightarrow> quorum_certificate" where
  "NewQuorumCertificateWithIdentity bh view epoch configID lane phase =
     \<lparr> qc_BlockHash = bh, qc_View = view, qc_Epoch = epoch, qc_ConfigID = configID,
       qc_Lane = lane, qc_Phase = phase, qc_Signatures = fmempty, qc_AggregatedSig = [],
       qc_NumSignatures = 0 \<rparr>"

definition NewQuorumCertificate :: "bytes \<Rightarrow> u64 \<Rightarrow> u64 \<Rightarrow> Phase \<Rightarrow> quorum_certificate" where
  "NewQuorumCertificate bh view epoch phase =
     NewQuorumCertificateWithIdentity bh view epoch epoch 0 phase"

definition qc_AddSignature :: "quorum_certificate \<Rightarrow> u64 \<Rightarrow> bytes \<Rightarrow> quorum_certificate" where
  "qc_AddSignature qc i s =
     (if i |\<in>| fmdom (qc_Signatures qc) then qc
      else qc\<lparr> qc_Signatures := fmupd i s (qc_Signatures qc),
               qc_NumSignatures := qc_NumSignatures qc + 1 \<rparr>)"

text \<open>\<open>uint64(qc.NumSignatures) >= quorumSize\<close>: the conversion wraps a negative count.\<close>

definition qc_IsComplete :: "quorum_certificate \<Rightarrow> u64 \<Rightarrow> bool" where
  "qc_IsComplete qc quorumSize \<longleftrightarrow> quorumSize \<le> word_of_int (qc_NumSignatures qc)"

text \<open>The counter of a certificate built by \<open>AddSignature\<close> is the number of its signers.\<close>

definition qc_counted :: "quorum_certificate \<Rightarrow> bool" where
  "qc_counted qc \<longleftrightarrow> qc_NumSignatures qc = int (gm_len (qc_Signatures qc))"

interpretation qcol: signature_collector qc_AddSignature qc_Signatures qc_NumSignatures qc_counted
  by unfold_locales (auto simp: qc_AddSignature_def qc_counted_def gomap_simps)

lemma NewQC_counted: "qc_counted (NewQuorumCertificateWithIdentity bh v e c l p)"
  by (simp add: qc_counted_def NewQuorumCertificateWithIdentity_def gomap_simps)

lemma NewQC_sigs [simp]: "qc_Signatures (NewQuorumCertificateWithIdentity bh v e c l p) = fmempty"
  by (simp add: NewQuorumCertificateWithIdentity_def)

lemma qc_AddSignature_identity [framing]:
  "qc_BlockHash (qc_AddSignature qc i s) = qc_BlockHash qc"
  "qc_View (qc_AddSignature qc i s) = qc_View qc"
  "qc_Epoch (qc_AddSignature qc i s) = qc_Epoch qc"
  "qc_ConfigID (qc_AddSignature qc i s) = qc_ConfigID qc"
  "qc_Lane (qc_AddSignature qc i s) = qc_Lane qc"
  by (simp_all add: qc_AddSignature_def)

text \<open>The vertex certificate of the mempool overwrites an earlier signature of the same signer.\<close>

definition NewVertexCertificate :: "bytes \<Rightarrow> u64 \<Rightarrow> u64 \<Rightarrow> vertex_certificate" where
  "NewVertexCertificate h epoch rnd =
     \<lparr> vc_VertexHash = h, vc_Epoch = epoch, vc_Round = rnd, vc_Signatures = fmempty \<rparr>"

definition vc_AddSignature :: "vertex_certificate \<Rightarrow> u64 \<Rightarrow> bytes \<Rightarrow> vertex_certificate" where
  "vc_AddSignature vc i s = vc\<lparr> vc_Signatures := fmupd i s (vc_Signatures vc) \<rparr>"

section \<open>What is signed\<close>

definition VoteSigningBytes :: "bytes \<Rightarrow> u64 \<Rightarrow> u64 \<Rightarrow> u64 \<Rightarrow> u64 \<Rightarrow> bytes" where
  "VoteSigningBytes blockID view epoch configID lane =
     blockID @ be64 view @ be64 epoch @ be64 configID @ be64 lane"

definition QCSigningBytes :: "bytes \<Rightarrow> u64 \<Rightarrow> u64 \<Rightarrow> u64 \<Rightarrow> u64 \<Rightarrow> bytes" where
  "QCSigningBytes blockHash view epoch configID lane =
     VoteSigningBytes (copy32 blockHash) view epoch configID lane"

definition TimeoutSigningBytes :: "u64 \<Rightarrow> u64 \<Rightarrow> u64 \<Rightarrow> u64 \<Rightarrow> bytes" where
  "TimeoutSigningBytes view epoch configID lane =
     be64 view @ be64 epoch @ be64 configID @ be64 lane"

definition qc_message :: "quorum_certificate \<Rightarrow> bytes" where
  "qc_message qc =
     QCSigningBytes (qc_BlockHash qc) (qc_View qc) (qc_Epoch qc) (qc_ConfigID qc) (qc_Lane qc)"

definition vote_Verify :: "verifier \<Rightarrow> vote \<Rightarrow> bool" where
  "vote_Verify ed_verify v = ed_verify (vt_Author v)
     (VoteSigningBytes (vt_BlockID v) (vt_View v) (vt_Epoch v) (vt_ConfigID v) (vt_Lane v))
     (vt_Signature v)"

definition NewVoteWithIdentity ::
  "(bytes \<Rightarrow> bytes \<Rightarrow> bytes) \<Rightarrow> bytes \<Rightarrow> u64 \<Rightarrow> u64 \<Rightarrow> u64 \<Rightarrow> u64 \<Rightarrow> bytes \<Rightarrow> bytes \<Rightarrow> bytes \<Rightarrow> vote" where
  "NewVoteWithIdentity ed_sign blockID view epoch configID lane author priv vrfProof =
     \<lparr> vt_BlockID = blockID, vt_View = view, vt_Epoch = epoch, vt_ConfigID = configID,
       vt_Lane = lane, vt_Author = author,
       vt_Signature = ed_sign priv (VoteSigningBytes blockID view epoch configID lane),
       vt_VRFProof = vrfProof \<rparr>"

lemma VoteSigningBytes_inject:
  assumes "length b1 = length b2"
  shows "VoteSigningBytes b1 v1 e1 c1 l1 = VoteSigningBytes b2 v2 e2 c2 l2 \<longleftrightarrow>
    b1 = b2 \<and> v1 = v2 \<and> e1 = e2 \<and> c1 = c2 \<and> l1 = l2"
  using assms by (auto simp: VoteSigningBytes_def append_eq_append_conv)

lemma length_VoteSigningBytes: "length (VoteSigningBytes b v e c l) = length b + 32"
  by (simp add: VoteSigningBytes_def)

lemma length_TimeoutSigningBytes: "length (TimeoutSigningBytes v e c l) = 32"
  by (simp add: TimeoutSigningBytes_def)

lemma TimeoutSigningBytes_inject:
  "TimeoutSigningBytes v1 e1 c1 l1 = TimeoutSigningBytes v2 e2 c2 l2 \<longleftrightarrow>
    v1 = v2 \<and> e1 = e2 \<and> c1 = c2 \<and> l1 = l2"
  by (auto simp: TimeoutSigningBytes_def)

text \<open>
  C33: a signature binds one statement.  Votes are signed over a 32-byte block identifier; two
  vote messages are equal only for the same block, view, epoch, configuration and lane, and a
  vote message is never a timeout message, so no signature can be replayed for another statement.
\<close>

theorem signed_statement_unambiguous:
  assumes "length b1 = 32" and "length b2 = 32"
  shows "(VoteSigningBytes b1 v1 e1 c1 l1 = VoteSigningBytes b2 v2 e2 c2 l2 \<longleftrightarrow>
            (b1, v1, e1, c1, l1) = (b2, v2, e2, c2, l2)) \<and>
         VoteSigningBytes b1 v1 e1 c1 l1 \<noteq> TimeoutSigningBytes v e c l \<and>
         (TimeoutSigningBytes v1 e1 c1 l1 = TimeoutSigningBytes v2 e2 c2 l2 \<longleftrightarrow>
            (v1, e1, c1, l1) = (v2, e2, c2, l2))"
proof -
  have "length (VoteSigningBytes b1 v1 e1 c1 l1) \<noteq> length (TimeoutSigningBytes v e c l)"
    using assms by (simp add: length_VoteSigningBytes length_TimeoutSigningBytes)
  then have "VoteSigningBytes b1 v1 e1 c1 l1 \<noteq> TimeoutSigningBytes v e c l" by metis
  with assms show ?thesis
    by (auto simp: VoteSigningBytes_inject TimeoutSigningBytes_inject)
qed

theorem signed_statement_unambiguous_witness:
  "VoteSigningBytes (replicate 32 0) 1 0 0 0 \<noteq> TimeoutSigningBytes 1 0 0 0 \<and>
   VoteSigningBytes (replicate 32 0) 1 0 0 0 \<noteq> VoteSigningBytes (replicate 32 0) 2 0 0 0"
  using signed_statement_unambiguous
    [of "replicate 32 0" "replicate 32 0" 1 0 0 0 2 0 0 0 1 0 0 0] by simp

text \<open>
  The certificate's message is built from the first 32 bytes of its block hash, so bytes
  appended to the hash field change neither the message nor the validity of the signatures.
\<close>

theorem qc_message_ignores_trailing_bytes:
  assumes "length (qc_BlockHash qc) = 32"
  shows "qc_message (qc\<lparr>qc_BlockHash := qc_BlockHash qc @ extra\<rparr>) = qc_message qc"
  using assms by (simp add: qc_message_def QCSigningBytes_def copy32_def)

theorem qc_message_ignores_trailing_bytes_witness:
  "qc_message (NewQuorumCertificate (replicate 32 7 @ [1, 2]) 3 0 PhasePrepare) =
   qc_message (NewQuorumCertificate (replicate 32 7) 3 0 PhasePrepare)"
  using qc_message_ignores_trailing_bytes
    [of "NewQuorumCertificate (replicate 32 7) 3 0 PhasePrepare" "[1, 2]"]
  by (simp add: NewQuorumCertificate_def NewQuorumCertificateWithIdentity_def)

section \<open>Block hashes\<close>

definition justify_bytes :: "quorum_certificate option \<Rightarrow> bytes" where
  "justify_bytes j = (case j of None \<Rightarrow> []
     | Some qc \<Rightarrow> qc_BlockHash qc @ be64 (qc_View qc) @ be64 (qc_Epoch qc))"

definition payload_bytes :: "vertex_certificate option list \<Rightarrow> bytes" where
  "payload_bytes certs = be64 (of_nat (length certs)) @
     concat (map (\<lambda>c. case c of None \<Rightarrow> be64 0
        | Some vc \<Rightarrow> vc_VertexHash vc @ be64 (vc_Epoch vc) @ be64 (vc_Round vc)) certs)"

definition block_preimage :: "block \<Rightarrow> bytes" where
  "block_preimage b =
     be64 (b_Height b) @ b_Parent b @ b_Data b @ be64 (b_View b) @ be64 (b_Epoch b) @
     be64 (b_LeaderID b) @ be64 (b_Rank b) @ be64 (b_LaneID b) @ be64 (b_ConfigID b) @
     be64 (b_Timestamp b) @ b_Randomness b @ justify_bytes (b_Justify b) @
     payload_bytes (b_Payload b)"

definition ComputeHash :: "(bytes \<Rightarrow> bytes) \<Rightarrow> block \<Rightarrow> bytes" where
  "ComputeHash sha256 b = sha256 (block_preimage b)"

definition NewBlock ::
  "(bytes \<Rightarrow> bytes) \<Rightarrow> i64 \<Rightarrow> u64 \<Rightarrow> bytes \<Rightarrow> bytes \<Rightarrow> u64 \<Rightarrow> u64 \<Rightarrow> u64 \<Rightarrow> i64 \<Rightarrow>
   quorum_certificate option \<Rightarrow> bytes \<Rightarrow> block" where
  "NewBlock sha256 now height parent data view epoch leaderID rank justify randomness =
     (let b = \<lparr> b_Height = height, b_Hash = [], b_Parent = parent, b_Data = data,
        b_JoinRequests = [], b_LeaveRequests = [], b_Payload = [], b_View = view,
        b_Phase = PhasePrepare, b_Epoch = epoch, b_LeaderID = leaderID, b_Rank = rank,
        b_LaneID = 0, b_ConfigID = 0, b_Justify = justify, b_TimeoutCert = None,
        b_Timestamp = now, b_Randomness = randomness \<rparr>
      in b\<lparr> b_Hash := ComputeHash sha256 b \<rparr>)"

text \<open>
  Blocks whose parent hashes, data and randomness have the same lengths (the shape a node
  that follows the protocol gives its blocks) have equal preimages only when they agree in height,
  parent, data, view, epoch, leader, rank, lane, configuration, timestamp and randomness: with a
  collision-free digest the hash identifies the block's position and proposer.
\<close>

theorem block_preimage_binds_header:
  assumes "length (b_Parent a) = length (b_Parent b)" and "length (b_Data a) = length (b_Data b)"
    and "length (b_Randomness a) = length (b_Randomness b)"
    and "block_preimage a = block_preimage b"
  shows "b_Height a = b_Height b \<and> b_Parent a = b_Parent b \<and> b_Data a = b_Data b \<and>
    b_View a = b_View b \<and> b_Epoch a = b_Epoch b \<and> b_LeaderID a = b_LeaderID b \<and>
    b_Rank a = b_Rank b \<and> b_LaneID a = b_LaneID b \<and> b_ConfigID a = b_ConfigID b \<and>
    b_Timestamp a = b_Timestamp b \<and> b_Randomness a = b_Randomness b"
  using assms by (simp add: block_preimage_def append_eq_append_conv)

theorem block_preimage_binds_header_witness:
  "let a = NewBlock (\<lambda>x. x) 0 1 [1, 2] [3] 1 0 0 1 None []; b = a\<lparr>b_Phase := PhaseCommit\<rparr>
   in block_preimage a = block_preimage b \<and> b_View a = b_View b \<and> b_Parent a = b_Parent b"
  using block_preimage_binds_header
    [of "NewBlock (\<lambda>x. x) 0 1 [1, 2] [3] 1 0 0 1 None []"
        "(NewBlock (\<lambda>x. x) 0 1 [1, 2] [3] 1 0 0 1 None [])\<lparr>b_Phase := PhaseCommit\<rparr>"]
  by (simp add: NewBlock_def block_preimage_def)

text \<open>
  Without equal lengths the parent hash and the data are not separated in the preimage: bytes
  can be moved from the end of one to the start of the other without changing the block's hash,
  for every digest.
\<close>

theorem hash_confuses_parent_and_data:
  "ComputeHash sha256 (b\<lparr>b_Parent := p @ q, b_Data := d\<rparr>) =
   ComputeHash sha256 (b\<lparr>b_Parent := p, b_Data := q @ d\<rparr>)"
  by (simp add: ComputeHash_def block_preimage_def)

end
