(* ===== verification/Qc_Verification.thy ===== *)
theory Qc_Verification
  imports Certificates
begin

text \<open>
  Verification of quorum certificates (crypto.go: \<open>VerifyQuorum\<close>, \<open>VerifyQuorumBatch\<close>) and the
  quorum of a validator set (types.go: \<open>NewValidatorSet\<close>): what a verified certificate proves
  about who signed, when two of them must share an honest signer, and when the count of
  signatures and the power-weighted threshold disagree.
\<close>

section \<open>Counting valid signatures\<close>

definition sig_valid :: "verifier \<Rightarrow> (u64, bytes) fmap \<Rightarrow> quorum_certificate \<Rightarrow> u64 \<Rightarrow> bool" where
  "sig_valid ed_verify keys qc i =
     (case (fmlookup keys i, fmlookup (qc_Signatures qc) i) of
        (Some pk, Some sig) \<Rightarrow> ed_verify pk (qc_message qc) sig
      | _ \<Rightarrow> False)"

definition VerifyQuorum ::
  "verifier \<Rightarrow> quorum_certificate option \<Rightarrow> (u64, bytes) fmap \<Rightarrow> int \<Rightarrow> bool" where
  "VerifyQuorum ed_verify qcp keys quorumSize = (case qcp of None \<Rightarrow> False
     | Some qc \<Rightarrow> quorumSize \<le>
         int (length (filter (sig_valid ed_verify keys qc) (gm_keys (qc_Signatures qc)))))"

text \<open>
  The batch verifier starts one goroutine per signature and reads the results from a channel in
  the order they arrive; it returns as soon as enough are valid.  \<open>drain\<close> is the receiving loop
  over the results in their arrival order.
\<close>

fun drain :: "int \<Rightarrow> int \<Rightarrow> bool list \<Rightarrow> bool" where
  "drain quorumSize validCount [] = (quorumSize \<le> validCount)"
| "drain quorumSize validCount (r # rs) =
     (if r then (if quorumSize \<le> validCount + 1 then True
                 else drain quorumSize (validCount + 1) rs)
      else drain quorumSize validCount rs)"

definition VerifyQuorumBatch ::
  "verifier \<Rightarrow> u64 list \<Rightarrow> quorum_certificate option \<Rightarrow> (u64, bytes) fmap \<Rightarrow> int \<Rightarrow> bool" where
  "VerifyQuorumBatch ed_verify arrival qcp keys quorumSize = (case qcp of None \<Rightarrow> False
     | Some qc \<Rightarrow>
         if gm_len (qc_Signatures qc) = 0 then False
         else drain quorumSize 0 (map (sig_valid ed_verify keys qc) arrival))"

lemma drain_counts:
  "drain q c rs \<longleftrightarrow> (if \<exists>r \<in> set rs. r then q \<le> c + int (length (filter id rs)) else q \<le> c)"
proof (induction q c rs rule: drain.induct)
  case (2 q c r rs)
  then show ?case by (cases r) (auto split: if_splits)
qed simp

lemma drain_length: "drain q c rs \<longleftrightarrow> q \<le> c + int (length (filter id rs))"
  by (auto simp: drain_counts filter_empty_conv)

lemma drain_map: "drain q 0 (map f xs) \<longleftrightarrow> q \<le> int (length (filter f xs))"
  by (simp add: drain_length filter_map comp_def)

lemma filter_enumeration:
  assumes "enumerates xs m"
  shows "length (filter P xs) = card {i \<in> fset (fmdom m). P i}"
  using assms by (metis distinct_card distinct_filter enumerates_def set_filter)

text \<open>
  C32: the parallel verifier with early exit decides the same as the sequential one, whatever the
  order in which the verification results arrive, for every certificate that carries at least one
  signature.
\<close>

theorem batch_verification_agrees:
  assumes "enumerates arrival (qc_Signatures qc)" and "qc_Signatures qc \<noteq> fmempty"
  shows "VerifyQuorumBatch ed_verify arrival (Some qc) keys q = VerifyQuorum ed_verify (Some qc) keys q"
proof -
  have "gm_len (qc_Signatures qc) \<noteq> 0"
    using assms(2) by (simp add: gomap_simps)
  then show ?thesis
    by (simp add: VerifyQuorumBatch_def VerifyQuorum_def drain_map
        filter_enumeration [OF assms(1)] filter_enumeration [OF enumerates_keys])
qed

definition two_sigs :: quorum_certificate where
  "two_sigs = qc_AddSignature (qc_AddSignature
     (NewQuorumCertificate (replicate 32 1) 5 0 PhasePrepare) 1 [1]) 2 [2]"

theorem batch_verification_agrees_witness:
  "VerifyQuorumBatch (\<lambda>pk m s. pk = s) [2, 1] (Some two_sigs)
     (fmupd 1 [1] (fmupd 2 [2] fmempty)) 2"
proof -
  have sigs: "qc_Signatures two_sigs = fmupd 2 [2] (fmupd 1 [1] fmempty)"
    by (simp add: two_sigs_def qc_AddSignature_def NewQuorumCertificate_def
        NewQuorumCertificateWithIdentity_def)
  have "gm_len (qc_Signatures two_sigs) = 2"
    by (simp add: sigs gomap_simps)
  then have "enumerates [2, 1] (qc_Signatures two_sigs)" "qc_Signatures two_sigs \<noteq> fmempty"
    by (auto simp: sigs enumerates_def gomap_simps)
  note eq = batch_verification_agrees [OF this]
  show ?thesis
    unfolding eq by (simp add: VerifyQuorum_def) code_simp
qed

section \<open>Validator sets as quorum systems\<close>

definition vs_members :: "validators \<Rightarrow> u64 set" where
  "vs_members vs = fset (fmdom vs)"

definition vs_weight :: "validators \<Rightarrow> u64 \<Rightarrow> nat" where
  "vs_weight vs i = unat (summed_power vs i)"

definition vs_threshold :: "validators \<Rightarrow> nat" where
  "vs_threshold vs = unat (vs_QuorumSize (NewValidatorSet 0 vs))"

text \<open>The powers of the active validators are not all absent and their double does not overflow.\<close>

definition vs_ok :: "validators \<Rightarrow> bool" where
  "vs_ok vs \<longleftrightarrow> 0 < sum (vs_weight vs) (vs_members vs) \<and>
     2 * sum (vs_weight vs) (vs_members vs) < 2 ^ 64"

lemma unat_total_power:
  assumes "vs_ok vs"
  shows "unat (total_power vs) = sum (vs_weight vs) (vs_members vs)"
proof -
  have eq: "unat (\<Sum>i \<in> fset (fmdom vs). summed_power vs i) = sum (vs_weight vs) (vs_members vs)"
    using assms unat_sum [of "fset (fmdom vs)" "summed_power vs"]
    by (simp add: vs_ok_def vs_weight_def vs_members_def)
  then have "(\<Sum>i \<in> fset (fmdom vs). summed_power vs i) \<noteq> 0"
    using assms by (auto simp: vs_ok_def)
  then show ?thesis
    by (simp add: total_power_def eq)
qed

lemma vs_QuorumSize_New [simp]: "vs_QuorumSize (NewValidatorSet e vs) = total_power vs * 2 div 3 + 1"
  by (simp add: NewValidatorSet_def)

lemma vs_Validators_New [simp]: "vs_Validators (NewValidatorSet e vs) = vs"
  by (simp add: NewValidatorSet_def)

lemma unat_quorum_of:
  assumes "2 * unat (t :: u64) < 2 ^ 64"
  shows "unat (t * 2 div 3 + 1) = 2 * unat t div 3 + 1"
proof -
  have d: "unat (t * 2) = 2 * unat t"
    using assms by (simp add: unat_word_ariths)
  have "unat (t * 2 div 3 + 1) = (unat (t * 2) div 3 + 1) mod 2 ^ 64"
    by (simp add: unat_word_ariths)
  with d assms show ?thesis by simp
qed

lemma vs_threshold_eq:
  assumes "vs_ok vs"
  shows "vs_threshold vs = 2 * sum (vs_weight vs) (vs_members vs) div 3 + 1"
  using assms unat_quorum_of [of "total_power vs"]
  by (simp add: vs_threshold_def unat_total_power vs_ok_def)

interpretation vsq: tight_quorum vs_members vs_weight vs_threshold vs_ok
proof
  fix vs assume ok: "vs_ok vs"
  show "finite (vs_members vs)" by (simp add: vs_members_def)
  show "vs_threshold vs = 2 * sum (vs_weight vs) (vs_members vs) div 3 + 1"
    using ok by (rule vs_threshold_eq)
  then show "2 * sum (vs_weight vs) (vs_members vs) < 3 * vs_threshold vs"
    by linarith
qed

text \<open>
  Any two groups of validators whose power reaches the set's quorum size share a validator
  that is not faulty when the faulty ones hold at most a third of the power, and the validators
  that are not faulty reach the quorum by themselves when the faulty ones hold less than a third.
\<close>

theorem validator_quorums:
  assumes "vs_ok vs" and "A \<subseteq> vs_members vs" and "B \<subseteq> vs_members vs"
    and "unat (vs_QuorumSize (NewValidatorSet e vs)) \<le> sum (vs_weight vs) A"
    and "unat (vs_QuorumSize (NewValidatorSet e vs)) \<le> sum (vs_weight vs) B"
    and "3 * sum (vs_weight vs) (F \<inter> vs_members vs) < sum (vs_weight vs) (vs_members vs)"
  shows "(\<exists>v \<in> A \<inter> B. v \<notin> F) \<and>
    unat (vs_QuorumSize (NewValidatorSet e vs)) \<le> sum (vs_weight vs) (vs_members vs - F)"
  using assms vsq.overlap_honest [of vs A B F] vsq.honest_reach_quorum [of vs F]
  by (simp add: vs_threshold_def)

definition plain_validator :: "u64 \<Rightarrow> bool \<Rightarrow> validator" where
  "plain_validator i act = \<lparr> v_ID = i, v_PublicKey = [ucast i], v_VRFPublicKey = [],
     v_Power = 1, v_IsActive = act \<rparr>"

definition plain_validators :: "u64 list \<Rightarrow> validators" where
  "plain_validators ids = fmap_of_list (map (\<lambda>i. (i, Some (plain_validator i True))) ids)"

definition four_validators :: validators where
  "four_validators = plain_validators [1, 2, 3, 4]"

lemma plain_lookup:
  "fmlookup (plain_validators ids) i = (if i \<in> set ids then Some (Some (plain_validator i True)) else None)"
  by (induction ids) (auto simp: plain_validators_def fmlookup_of_list)

lemma plain_members [simp]: "vs_members (plain_validators ids) = set ids"
  by (auto simp: vs_members_def plain_lookup fmlookup_dom_iff split: if_splits)

lemma plain_weight: "i \<in> set ids \<Longrightarrow> vs_weight (plain_validators ids) i = 1"
  by (simp add: vs_weight_def summed_power_def get_validator_def plain_lookup plain_validator_def
      active_power_def)

lemma plain_len [simp]: "gm_len (plain_validators ids) = card (set ids)"
  using gm_len_card [of "plain_validators ids"] plain_members [of ids] by (simp add: vs_members_def)

lemma four_members: "vs_members four_validators = {1, 2, 3, 4}"
  by (simp add: four_validators_def)

lemma four_weight: "i \<in> {1, 2, 3, 4} \<Longrightarrow> vs_weight four_validators i = 1"
  unfolding four_validators_def by (rule plain_weight) simp

lemma four_sum: "A \<subseteq> {1, 2, 3, 4} \<Longrightarrow> sum (vs_weight four_validators) A = card A"
  by (simp add: subset_iff four_weight)

lemma four_ok: "vs_ok four_validators"
  by (simp add: vs_ok_def four_members four_weight)

lemma four_quorum: "unat (vs_QuorumSize (NewValidatorSet e four_validators)) = 3"
  using vs_threshold_eq [OF four_ok] by (simp add: vs_threshold_def four_members four_weight)

theorem validator_quorums_witness: "\<exists>v \<in> {1, 2, 3} \<inter> {2, 3, 4}. v \<notin> {3 :: u64}"
  using validator_quorums [OF four_ok, of "{1, 2, 3}" "{2, 3, 4}" 0 "{3}"]
  by (simp add: four_members four_weight four_quorum del: vs_QuorumSize_New)

section \<open>What a verified certificate proves\<close>

definition validator_keys :: "validators \<Rightarrow> (u64, bytes) fmap" where
  "validator_keys vs =
     fmmap (\<lambda>v. case v of Some w \<Rightarrow> v_PublicKey w | None \<Rightarrow> []) (non_nil vs)"

text \<open>
  \<open>Engine.verifyQC\<close>: the quorum size is converted to a signed integer.  The model reads the
  parallel results in the order of the signers' identifiers.
\<close>

definition verifyQC :: "verifier \<Rightarrow> validator_set \<Rightarrow> quorum_certificate option \<Rightarrow> bool" where
  "verifyQC ed_verify valSet qcp = VerifyQuorumBatch ed_verify
     (case qcp of None \<Rightarrow> [] | Some qc \<Rightarrow> gm_keys (qc_Signatures qc)) qcp
     (validator_keys (vs_Validators valSet)) (sint (vs_QuorumSize valSet))"

definition valid_signers :: "verifier \<Rightarrow> validators \<Rightarrow> quorum_certificate \<Rightarrow> u64 set" where
  "valid_signers ed_verify vs qc =
     {i \<in> fset (fmdom (qc_Signatures qc)). sig_valid ed_verify (validator_keys vs) qc i}"

lemma verifyQC_iff:
  "verifyQC ed_verify valSet qcp \<longleftrightarrow> (\<exists>qc. qcp = Some qc \<and> qc_Signatures qc \<noteq> fmempty \<and>
     sint (vs_QuorumSize valSet) \<le> int (card (valid_signers ed_verify (vs_Validators valSet) qc)))"
  by (auto simp add: verifyQC_def VerifyQuorumBatch_def drain_map valid_signers_def gomap_simps
      filter_enumeration [OF enumerates_keys] split: option.splits)

lemma validator_keys_lookup:
  "fmlookup (validator_keys vs) i = map_option v_PublicKey (get_validator vs i)"
  by (auto simp: validator_keys_def non_nil_def get_validator_def split: option.splits)

lemma valid_signers_iff:
  "i \<in> valid_signers ed_verify vs qc \<longleftrightarrow> (\<exists>v s. get_validator vs i = Some v \<and>
     fmlookup (qc_Signatures qc) i = Some s \<and> ed_verify (v_PublicKey v) (qc_message qc) s)"
  by (auto simp: valid_signers_def sig_valid_def validator_keys_lookup fmdomI split: option.splits)

text \<open>
  \<open>ed25519.Verify\<close> panics on a key that is not 32 bytes long, in a goroutine that nothing recovers, so
  the node dies; \<open>verifyQC\<close> says what the routine decides when it does not.  It may panic exactly when
  a certificate lists a signer whose registered key has another length, which a set of well-formed keys
  rules out for every certificate.
\<close>

definition verify_may_panic :: "validator_set \<Rightarrow> quorum_certificate option \<Rightarrow> bool" where
  "verify_may_panic valSet qcp = (case qcp of None \<Rightarrow> False
     | Some qc \<Rightarrow> list_ex (\<lambda>i. case fmlookup (validator_keys (vs_Validators valSet)) i of None \<Rightarrow> False
         | Some pk \<Rightarrow> length pk \<noteq> 32) (gm_keys (qc_Signatures qc)))"

definition well_keyed :: "validators \<Rightarrow> bool" where
  "well_keyed vs = list_all (\<lambda>i. case get_validator vs i of None \<Rightarrow> True | Some v \<Rightarrow> length (v_PublicKey v) = 32) (gm_keys vs)"

lemma well_keyed_never_panics:
  assumes "well_keyed (vs_Validators valSet)"
  shows "\<not> verify_may_panic valSet qcp"
proof -
  have "length pk = 32" if key: "fmlookup (validator_keys (vs_Validators valSet)) i = Some pk" for i pk
  proof -
    obtain v where v: "get_validator (vs_Validators valSet) i = Some v" "pk = v_PublicKey v"
      using key by (auto simp: validator_keys_lookup split: option.splits)
    then have "i \<in> set (gm_keys (vs_Validators valSet))"
      by (auto simp: get_validator_def set_gm_keys intro: fmdomI split: option.splits)
    with assms v show ?thesis by (fastforce simp: well_keyed_def list_all_iff)
  qed
  then show ?thesis
    by (auto simp: verify_may_panic_def list_ex_iff split: option.splits)
qed

lemma valid_signers_members: "valid_signers ed_verify vs qc \<subseteq> vs_members vs"
  by (auto simp: valid_signers_iff vs_members_def get_validator_def intro: fmdomI
      split: option.splits)

lemma finite_vs_members [simp]: "finite (vs_members vs)"
  by (simp add: vs_members_def)

text \<open>Every validator active with power one: the setting in which signatures may be counted.\<close>

definition unit_power :: "validators \<Rightarrow> bool" where
  "unit_power vs \<longleftrightarrow> fmpred (\<lambda>_ v. case v of None \<Rightarrow> False
     | Some w \<Rightarrow> v_IsActive w \<and> v_Power w \<in> {0, 1}) vs \<and> vs \<noteq> fmempty \<and> 2 * gm_len vs < 2 ^ 64"

lemma unit_weight: "unit_power vs \<Longrightarrow> i \<in> vs_members vs \<Longrightarrow> vs_weight vs i = 1"
  by (auto simp: unit_power_def vs_members_def vs_weight_def summed_power_def get_validator_def
      active_power_def fmlookup_dom_iff dest!: fmpredD split: option.splits)

lemma unit_sum: "unit_power vs \<Longrightarrow> A \<subseteq> vs_members vs \<Longrightarrow> sum (vs_weight vs) A = card A"
  by (simp add: subset_iff unit_weight)

lemma unit_ok: "unit_power vs \<Longrightarrow> vs_ok vs"
  using unit_sum [of vs "vs_members vs"] gm_len_card [of vs] gm_len_zero [of vs]
  by (auto simp: vs_ok_def unit_power_def vs_members_def)

lemma sint_quorum:
  assumes "vs_ok vs"
  shows "sint (vs_QuorumSize (NewValidatorSet e vs)) = int (vs_threshold vs)"
proof -
  have "vs_threshold vs < 2 ^ 63"
    using vs_threshold_eq [OF assms] assms by (simp add: vs_ok_def, linarith)
  then have "sint (total_power vs * 2 div 3 + 1) = int (unat (total_power vs * 2 div 3 + 1))"
    by (intro sint_small) (simp add: vs_threshold_def)
  then show ?thesis
    by (simp add: vs_threshold_def)
qed

lemma verifyQC_quorum:
  assumes "unit_power vs" and "verifyQC ed_verify (NewValidatorSet e vs) (Some qc)"
  shows "vs_threshold vs \<le> sum (vs_weight vs) (valid_signers ed_verify vs qc)"
  using assms(2) unit_sum [OF assms(1) valid_signers_members] sint_quorum [OF unit_ok [OF assms(1)]]
  by (simp add: verifyQC_iff del: vs_QuorumSize_New)

text \<open>
  The promise of a validator that follows the protocol: under its key, at most one block is signed
  in a view of an epoch, configuration and lane.  \<open>F\<close> is the set of the others.
\<close>

definition votes_once :: "verifier \<Rightarrow> validators \<Rightarrow> u64 set \<Rightarrow> bool" where
  "votes_once ed_verify vs F \<longleftrightarrow> (\<forall>i v b1 b2 w e c l s1 s2. i \<notin> F \<longrightarrow>
     get_validator vs i = Some v \<longrightarrow> length b1 = 32 \<longrightarrow> length b2 = 32 \<longrightarrow>
     ed_verify (v_PublicKey v) (VoteSigningBytes b1 w e c l) s1 \<longrightarrow>
     ed_verify (v_PublicKey v) (VoteSigningBytes b2 w e c l) s2 \<longrightarrow> b1 = b2)"

text \<open>
  C1: agreement on certificates: when every validator is active with power 0 or 1 (0 counts as 1), at
  most a third of them is faulty, and under the key of a non-faulty one signatures verify over at most
  one block hash per view, epoch, configuration and lane, then two certificates that verify
  with that validator set for the same view, epoch, configuration and lane certify the same 32-byte block hash.  Without the
  first condition it fails: \<open>inactive_signatures_count\<close> below.
\<close>

theorem verified_certificates_agree:
  assumes "unit_power vs" and "3 * card (F \<inter> vs_members vs) \<le> gm_len vs"
    and "votes_once ed_verify vs F"
    and "verifyQC ed_verify (NewValidatorSet e vs) (Some qc1)"
    and "verifyQC ed_verify (NewValidatorSet e vs) (Some qc2)"
    and "qc_View qc1 = qc_View qc2" and "qc_Epoch qc1 = qc_Epoch qc2"
    and "qc_ConfigID qc1 = qc_ConfigID qc2" and "qc_Lane qc1 = qc_Lane qc2"
  shows "copy32 (qc_BlockHash qc1) = copy32 (qc_BlockHash qc2)"
proof -
  let ?S1 = "valid_signers ed_verify vs qc1" and ?S2 = "valid_signers ed_verify vs qc2"
  have "3 * sum (vs_weight vs) (F \<inter> vs_members vs) \<le> sum (vs_weight vs) (vs_members vs)"
    using assms(2) by (simp add: unit_sum [OF assms(1)] gm_len_card vs_members_def)
  from vsq.overlap_honest [OF unit_ok [OF assms(1)] valid_signers_members valid_signers_members
      verifyQC_quorum [OF assms(1,4)] verifyQC_quorum [OF assms(1,5)] this]
  obtain i where "i \<in> ?S1" "i \<in> ?S2" and "i \<notin> F" by blast
  then obtain v s1 s2 where "get_validator vs i = Some v"
      and "ed_verify (v_PublicKey v) (qc_message qc1) s1"
      and "ed_verify (v_PublicKey v) (qc_message qc2) s2"
    by (auto simp: valid_signers_iff)
  with assms(3,6-9) \<open>i \<notin> F\<close> show ?thesis
    unfolding votes_once_def qc_message_def QCSigningBytes_def by (metis length_copy32)
qed

definition signed_by :: "bytes \<Rightarrow> u64 list \<Rightarrow> quorum_certificate" where
  "signed_by bh ids = fold (\<lambda>i qc. qc_AddSignature qc i [ucast i]) ids
     (NewQuorumCertificate bh 5 0 PhasePrepare)"

definition toy_verify :: "bytes \<Rightarrow> verifier" where
  "toy_verify bh pk m s \<longleftrightarrow> pk = s \<and> m = VoteSigningBytes bh 5 0 0 0"

lemma unit_plain:
  assumes "ids \<noteq> []" and "2 * length ids < 2 ^ 64"
  shows "unit_power (plain_validators ids)"
proof -
  have "2 * card (set ids) < 2 ^ 64"
    using assms(2) card_length [of ids] by linarith
  moreover have "fmpred (\<lambda>_ v. case v of None \<Rightarrow> False
     | Some w \<Rightarrow> v_IsActive w \<and> v_Power w \<in> {0, 1}) (plain_validators ids)"
    by (auto simp: plain_lookup plain_validator_def intro!: fmpredI split: if_splits)
  moreover have "plain_validators ids \<noteq> fmempty"
    using assms(1) plain_len [of ids] gm_len_zero [of "plain_validators ids"] by simp
  ultimately show ?thesis
    by (simp add: unit_power_def)
qed

lemma unit_four: "unit_power four_validators"
  unfolding four_validators_def by (rule unit_plain) simp_all

lemma verifies_signed_by:
  "verifyQC (toy_verify (replicate 32 1)) (NewValidatorSet 0 four_validators)
     (Some (signed_by (replicate 32 1) [1, 2, 3]))"
  "verifyQC (toy_verify (replicate 32 1)) (NewValidatorSet 0 four_validators)
     (Some (signed_by (replicate 32 1 @ [9]) [2, 3, 4]))"
  by code_simp+

theorem verified_certificates_agree_witness:
  "copy32 (replicate 32 1 :: bytes) = copy32 (replicate 32 1 @ [9])"
proof -
  have votes: "votes_once (toy_verify (replicate 32 1)) four_validators {4}"
    by (auto simp: votes_once_def toy_verify_def VoteSigningBytes_inject)
  have len: "gm_len four_validators = 4"
    by (simp add: four_validators_def)
  have simps: "qc_View (signed_by bh ids) = 5" "qc_Epoch (signed_by bh ids) = 0"
    "qc_ConfigID (signed_by bh ids) = 0" "qc_Lane (signed_by bh ids) = 0"
    "qc_BlockHash (signed_by bh ids) = bh" for bh ids
  proof -
    have "qc_View (fold f ids qc) = qc_View qc \<and> qc_Epoch (fold f ids qc) = qc_Epoch qc \<and>
      qc_ConfigID (fold f ids qc) = qc_ConfigID qc \<and> qc_Lane (fold f ids qc) = qc_Lane qc \<and>
      qc_BlockHash (fold f ids qc) = qc_BlockHash qc"
      if "f = (\<lambda>i qc. qc_AddSignature qc i [ucast i])" for f qc
      by (induction ids arbitrary: qc) (simp_all add: that framing)
    from this [OF refl] show "qc_View (signed_by bh ids) = 5" "qc_Epoch (signed_by bh ids) = 0"
      "qc_ConfigID (signed_by bh ids) = 0" "qc_Lane (signed_by bh ids) = 0"
      "qc_BlockHash (signed_by bh ids) = bh"
      by (simp_all add: signed_by_def NewQuorumCertificate_def
          NewQuorumCertificateWithIdentity_def)
  qed
  show ?thesis
    using verified_certificates_agree [OF unit_four _ votes verifies_signed_by]
    by (simp add: simps four_members len)
qed

section \<open>Counting signatures against a power-weighted threshold\<close>

text \<open>
  The quorum size is computed from voting power while the verifier counts signatures.  When
  every validator is active with a power of two or more, no certificate verifies at all, even
  one signed by every validator.
\<close>

theorem weighted_powers_verify_nothing:
  assumes "vs \<noteq> fmempty" and "2 * sum (vs_weight vs) (vs_members vs) < 2 ^ 64"
    and "\<forall>i \<in> vs_members vs. 2 \<le> vs_weight vs i"
  shows "\<not> verifyQC ed_verify (NewValidatorSet e vs) qcp"
proof
  let ?W = "sum (vs_weight vs) (vs_members vs)" and ?n = "card (vs_members vs)"
  assume "verifyQC ed_verify (NewValidatorSet e vs) qcp"
  then obtain qc where q: "sint (vs_QuorumSize (NewValidatorSet e vs)) \<le>
      int (card (valid_signers ed_verify vs qc))"
    by (auto simp: verifyQC_iff)
  have W: "2 * ?n \<le> ?W"
    using sum_bounded_below [of "vs_members vs" 2 "vs_weight vs"] assms(3) by simp
  have "0 < ?n"
    using assms(1) gm_len_zero [of vs] by (auto simp: vs_members_def gm_len_card card_gt_0_iff)
  with W assms(2) have ok: "vs_ok vs"
    by (simp add: vs_ok_def)
  have "card (valid_signers ed_verify vs qc) \<le> ?n"
    by (rule card_mono [OF finite_vs_members valid_signers_members])
  with q have "vs_threshold vs \<le> ?n"
    by (simp add: sint_quorum [OF ok] del: vs_QuorumSize_New)
  with W \<open>0 < ?n\<close> vs_threshold_eq [OF ok] show False by linarith
qed

definition heavy_validators :: validators where
  "heavy_validators = fmap_of_list
     (map (\<lambda>i. (i, Some ((plain_validator i True)\<lparr>v_Power := 2\<rparr>))) [1, 2, 3, 4])"

theorem weighted_powers_verify_nothing_witness:
  "\<not> verifyQC (\<lambda>pk m s. True) (NewValidatorSet 0 heavy_validators)
       (Some (signed_by (replicate 32 1) [1, 2, 3, 4]))"
proof (rule weighted_powers_verify_nothing)
  have m: "vs_members heavy_validators = {1, 2, 3, 4}"
    by (auto simp: vs_members_def heavy_validators_def)
  have w: "vs_weight heavy_validators i = 2" if "i \<in> {1, 2, 3, 4}" for i
    using that by (auto simp: vs_weight_def summed_power_def get_validator_def
        heavy_validators_def plain_validator_def active_power_def fmlookup_of_list)
  show "2 * sum (vs_weight heavy_validators) (vs_members heavy_validators) < 2 ^ 64"
    "\<forall>i \<in> vs_members heavy_validators. 2 \<le> vs_weight heavy_validators i"
    by (simp_all add: m w)
  show "heavy_validators \<noteq> fmempty"
    using m by (auto simp: vs_members_def)
qed

definition with_inactive :: validators where
  "with_inactive = fmap_of_list (map (\<lambda>i. (i, Some (plain_validator i (i < 5)))) [1, 2, 3, 4, 5, 6, 7])"

text \<open>
  Inactive validators do not count towards the power behind the quorum size but their
  signatures count towards a certificate: with four active and three inactive validators, one
  certificate signed by active validators and one for another block signed by the inactive ones
  both verify in the same view, and no validator signed twice.
\<close>

theorem inactive_signatures_count:
  "let vs = NewValidatorSet 0 with_inactive;
       ver = (\<lambda>pk m s. pk = s);
       qc1 = signed_by (replicate 32 1) [1, 2, 3]; qc2 = signed_by (replicate 32 2) [5, 6, 7]
   in verifyQC ver vs (Some qc1) \<and> verifyQC ver vs (Some qc2) \<and> qc_View qc1 = qc_View qc2 \<and>
      fmdom (qc_Signatures qc1) |\<inter>| fmdom (qc_Signatures qc2) = {||}"
  by code_simp

end
