(* ===== verification/Executor.thy ===== *)
theory Executor
  imports Qc_Verification
begin

text \<open>
  Execution of ordered blocks and reconfiguration (consensus/hotstuff/executor.go, and the signed
  reconfiguration payload of types.go).  Reconfigurations found while a block is executed are
  queued and change the validator set only when the block is committed in the global order.

  JSON decoding, the digest and Ed25519 are fields of \<open>exec_env\<close>; the resolver, the authorizer and
  the epoch callback are fields of the state, as their setters install them at run time.  The
  callback's value is whether it returned no error.  \<open>ed25519.Verify\<close> panics on a public key that
  is not 32 bytes long; the executor calls it on keys from transactions, so that panic is a value
  of the model.  A mutex-protected section is one step.
\<close>

section \<open>State\<close>

record exec_env =
  xe_ed_verify :: verifier
  xe_sha256 :: "bytes \<Rightarrow> bytes"
  xe_config_json :: config_json
  xe_parse_tx :: "bytes \<Rightarrow> transaction option"
  xe_parse_reconfig :: "bytes \<Rightarrow> reconfig_data option"
  xe_reconfig_json :: "ReconfigType \<times> u64 \<times> bytes \<times> bytes \<times> u64 \<times> u64 \<times> u64 \<Rightarrow> bytes"

record pending_reconfig =
  pr_blockHeight :: u64
  pr_blockHash :: bytes
  pr_data :: reconfig_data

record executor =
  ex_valSet :: "validator_set option"
  ex_pending :: "pending_reconfig list"
  ex_resolver :: "(bytes \<Rightarrow> vertex option) option"
  ex_onEpochChange :: "(validator_set \<Rightarrow> epoch_transition list \<Rightarrow> bool) option"
  ex_authorizer :: "(reconfig_data \<Rightarrow> bool) option"
  ex_executed :: "bytes fset"
  ex_applied :: "bytes fset"
  ex_totalBlocks :: u64
  ex_totalTxs :: u64

text \<open>\<open>Crash\<close> is a panic of the process, \<open>Failed\<close> a returned error.\<close>

datatype 'a exec_result = Crash | Failed executor | Success executor 'a

definition NewExecutor :: "validator_set option \<Rightarrow> executor" where
  "NewExecutor vs = \<lparr> ex_valSet = vs, ex_pending = [], ex_resolver = None, ex_onEpochChange = None,
     ex_authorizer = None, ex_executed = {||}, ex_applied = {||}, ex_totalBlocks = 0, ex_totalTxs = 0 \<rparr>"

section \<open>Checking a reconfiguration\<close>

definition ReconfigSigningBytes :: "exec_env \<Rightarrow> reconfig_data \<Rightarrow> bytes" where
  "ReconfigSigningBytes env d = xe_reconfig_json env
     (rd_Type d, rd_NodeID d, rd_PublicKey d, rd_VRFPublicKey d, rd_Power d, rd_Epoch d, rd_TargetEpoch d)"

text \<open>\<open>None\<close> is the panic of \<open>ed25519.Verify\<close>.\<close>

definition ed25519_Verify :: "exec_env \<Rightarrow> bytes \<Rightarrow> bytes \<Rightarrow> bytes \<Rightarrow> bool option" where
  "ed25519_Verify env pk msg s = (if length pk \<noteq> 32 then None else Some (xe_ed_verify env pk msg s))"

definition rd_VerifySignature :: "exec_env \<Rightarrow> reconfig_data \<Rightarrow> bool option" where
  "rd_VerifySignature env d = (case rd_Type d of
     ReconfigJoin \<Rightarrow> ed25519_Verify env (rd_PublicKey d) (ReconfigSigningBytes env d) (rd_Signature d)
   | ReconfigLeave \<Rightarrow> ed25519_Verify env (rd_PublicKey d) (ReconfigSigningBytes env d) (rd_Signature d)
   | _ \<Rightarrow> Some False)"

definition verifyManualReconfigSignature :: "exec_env \<Rightarrow> executor \<Rightarrow> reconfig_data \<Rightarrow> bool option" where
  "verifyManualReconfigSignature env e d = (case rd_Type d of
     ReconfigJoin \<Rightarrow> rd_VerifySignature env d
   | ReconfigLeave \<Rightarrow> (case ex_valSet e of None \<Rightarrow> Some False
       | Some vs \<Rightarrow> (case get_validator (vs_Validators vs) (rd_NodeID d) of None \<Rightarrow> Some False
           | Some v \<Rightarrow> if rd_PublicKey d \<noteq> v_PublicKey v then Some False else rd_VerifySignature env d))
   | _ \<Rightarrow> Some False)"

definition autoLeaveProofDigest ::
  "(bytes \<Rightarrow> bytes) \<Rightarrow> u64 \<Rightarrow> u64 list \<Rightarrow> bytes \<Rightarrow> u64 \<Rightarrow> bytes" where
  "autoLeaveProofDigest sha256 view leaves blockHash newConfigID =
     sha256 (be64 view @ be64 newConfigID @ blockHash @ concat (map be64 (sort leaves)))"

text \<open>The check of one entry of the vote map; its power is added when it holds.\<close>

definition auto_vote_ok :: "exec_env \<Rightarrow> validator_set \<Rightarrow> bytes \<Rightarrow> u64 \<Rightarrow> hydra_auto_vote option \<Rightarrow> bool" where
  "auto_vote_ok env vs digest voter vote = (case vote of None \<Rightarrow> False
     | Some v \<Rightarrow> hav_SenderID v = voter \<and>
        (case get_validator (vs_Validators vs) voter of None \<Rightarrow> False
         | Some w \<Rightarrow> v_IsActive w \<and> hav_Digest v = digest \<and>
             xe_ed_verify env (v_PublicKey w) digest (hav_Signature v)))"

definition verifyAutoLeaveProof :: "exec_env \<Rightarrow> executor \<Rightarrow> reconfig_data \<Rightarrow> block \<Rightarrow> bool" where
  "verifyAutoLeaveProof env e d b = (case (ex_valSet e, rd_AutoLeaveProof d) of
     (Some vs, Some p) \<Rightarrow>
       htp_Leaves p \<noteq> [] \<and> gm_len (htp_AutoVotes p) \<noteq> 0 \<and> rd_Epoch d = vs_Epoch vs \<and>
       htp_BlockHash p = b_Hash b \<and> htp_NewConfigID p \<noteq> 0 \<and>
       (let leaves = sort (htp_Leaves p);
            pos = length (takeWhile (\<lambda>l. l < rd_NodeID d) leaves)
        in pos < length leaves \<and> leaves ! pos = rd_NodeID d) \<and>
       (let digest = autoLeaveProofDigest (xe_sha256 env) (htp_View p) (sort (htp_Leaves p))
              (htp_BlockHash p) (htp_NewConfigID p)
        in fmpred (auto_vote_ok env vs digest) (htp_AutoVotes p)) \<and>
       vs_QuorumSize vs \<le> (\<Sum>i \<in> fset (fmdom (htp_AutoVotes p)). summed_power (vs_Validators vs) i)
   | _ \<Rightarrow> False)"

text \<open>The outer \<open>None\<close> is a panic, the inner one a transaction without a reconfiguration.\<close>

definition executeTx ::
  "exec_env \<Rightarrow> executor \<Rightarrow> transaction \<Rightarrow> block \<Rightarrow> reconfig_data option option" where
  "executeTx env e tx b = (case tx_Type tx of
     TxTypeReconfig \<Rightarrow> (case xe_parse_reconfig env (tx_Payload tx) of None \<Rightarrow> Some None
       | Some d \<Rightarrow>
          if rd_Type d = ReconfigAutoLeave
          then Some (if verifyAutoLeaveProof env e d b then Some d else None)
          else (case verifyManualReconfigSignature env e d of None \<Rightarrow> None
            | Some sig_ok \<Rightarrow> Some
               (if \<not> sig_ok then None
                else if (case ex_valSet e of Some vs \<Rightarrow> rd_Epoch d \<noteq> vs_Epoch vs | None \<Rightarrow> False) then None
                else if rd_Type d \<in> {ReconfigJoin, ReconfigLeave} \<and>
                  (case ex_authorizer e of None \<Rightarrow> True | Some f \<Rightarrow> \<not> f d) then None
                else Some d)))
   | _ \<Rightarrow> Some None)"

section \<open>Executing a block\<close>

text \<open>The transactions of a list in order: the queued reconfigurations and the count, or a panic.\<close>

fun executeTxs ::
  "exec_env \<Rightarrow> executor \<Rightarrow> block \<Rightarrow> transaction option list \<Rightarrow> (reconfig_data list \<times> nat) option" where
  "executeTxs env e b [] = Some ([], 0)"
| "executeTxs env e b (None # txs) = executeTxs env e b txs"
| "executeTxs env e b (Some tx # txs) = (case executeTx env e tx b of None \<Rightarrow> None
     | Some r \<Rightarrow> (case executeTxs env e b txs of None \<Rightarrow> None
         | Some (rs, n) \<Rightarrow> Some ((case r of None \<Rightarrow> rs | Some d \<Rightarrow> d # rs), Suc n)))"

text \<open>
  The vertices of a payload: nil certificates resolve to nil entries, a missing vertex is an error.
  The sequential branch for at most two certificates and the concurrent one give the same list.
\<close>

fun resolvePayloadVertices ::
  "(bytes \<Rightarrow> vertex option) \<Rightarrow> vertex_certificate option list \<Rightarrow> vertex option list option" where
  "resolvePayloadVertices get [] = Some []"
| "resolvePayloadVertices get (None # cs) = map_option (Cons None) (resolvePayloadVertices get cs)"
| "resolvePayloadVertices get (Some c # cs) = (case get (vc_VertexHash c) of None \<Rightarrow> None
     | Some v \<Rightarrow> map_option (Cons (Some v)) (resolvePayloadVertices get cs))"

definition payload_txs :: "vertex option list \<Rightarrow> transaction option list" where
  "payload_txs vs = concat (map (\<lambda>v. case v of None \<Rightarrow> [] | Some x \<Rightarrow> vx_Txs x) vs)"

definition block_txs :: "exec_env \<Rightarrow> executor \<Rightarrow> block \<Rightarrow> transaction option list option" where
  "block_txs env e b =
     (if b_Payload b \<noteq> [] then (case ex_resolver e of None \<Rightarrow> Some []
        | Some get \<Rightarrow> map_option payload_txs (resolvePayloadVertices get (b_Payload b)))
      else if b_Data b \<noteq> [] then Some (case xe_parse_tx env (b_Data b) of None \<Rightarrow> [] | Some tx \<Rightarrow> [Some tx])
      else Some [])"

definition executeBlockLocked :: "exec_env \<Rightarrow> executor \<Rightarrow> block \<Rightarrow> unit exec_result" where
  "executeBlockLocked env e b = (case block_txs env e b of None \<Rightarrow> Failed e
     | Some txs \<Rightarrow> (case executeTxs env e b txs of None \<Rightarrow> Crash
         | Some (rs, n) \<Rightarrow> Success (e\<lparr> ex_totalBlocks := ex_totalBlocks e + 1,
             ex_totalTxs := ex_totalTxs e + of_nat n,
             ex_pending := ex_pending e @ map (\<lambda>d. \<lparr> pr_blockHeight = b_Height b,
               pr_blockHash = b_Hash b, pr_data = d \<rparr>) rs \<rparr>) ()))"

section \<open>Applying a reconfiguration\<close>

text \<open>Deleting the leaves that are members, in list order.\<close>

fun remove_leaves :: "u64 list \<Rightarrow> validators \<Rightarrow> validators \<times> u64 list" where
  "remove_leaves [] m = (m, [])"
| "remove_leaves (i # is) m = (if i |\<in>| fmdom m
     then (let (m', r) = remove_leaves is (fmdrop i m) in (m', i # r))
     else remove_leaves is m)"

definition joined :: "reconfig_data \<Rightarrow> validator" where
  "joined d = \<lparr> v_ID = rd_NodeID d, v_PublicKey = rd_PublicKey d, v_VRFPublicKey = rd_VRFPublicKey d,
     v_Power = (if rd_Power d = 0 then 1 else rd_Power d), v_IsActive = True \<rparr>"

text \<open>The new members with the added and removed identifiers; \<open>None\<close> is a return without change.\<close>

definition members_after :: "validators \<Rightarrow> reconfig_data \<Rightarrow> (validators \<times> u64 list \<times> u64 list) option" where
  "members_after m d = (case rd_Type d of
     ReconfigJoin \<Rightarrow> if rd_NodeID d |\<in>| fmdom m then None
       else Some (fmupd (rd_NodeID d) (Some (joined d)) m, [rd_NodeID d], [])
   | ReconfigLeave \<Rightarrow> if rd_NodeID d |\<in>| fmdom m then Some (fmdrop (rd_NodeID d) m, [], [rd_NodeID d]) else None
   | ReconfigAutoLeave \<Rightarrow>
       (let leaves = (case rd_AutoLeaveProof d of None \<Rightarrow> [] | Some p \<Rightarrow> htp_Leaves p)
        in case remove_leaves (if leaves = [] then [rd_NodeID d] else leaves) m of
             (m', removed) \<Rightarrow> if removed = [] then None else Some (m', [], sort removed))
   | ReconfigOther \<Rightarrow> None)"

definition removal_guard :: "ReconfigType \<Rightarrow> nat \<Rightarrow> nat \<Rightarrow> bool" where
  "removal_guard ty nOld nAfter \<longleftrightarrow>
     (ty \<in> {ReconfigLeave, ReconfigAutoLeave} \<longrightarrow> 4 \<le> nAfter \<and> nOld - nAfter \<le> (nOld - 1) div 3)"

definition next_epoch :: "validator_set \<Rightarrow> reconfig_data \<Rightarrow> u64" where
  "next_epoch vs d = (if rd_TargetEpoch d \<le> vs_Epoch vs then vs_Epoch vs + 1 else rd_TargetEpoch d)"

text \<open>\<open>None\<close> is the panic of copying a set with a nil entry.\<close>

definition applyReconfig ::
  "exec_env \<Rightarrow> validator_set \<Rightarrow> reconfig_data \<Rightarrow> u64 \<Rightarrow> u64 \<Rightarrow>
   (validator_set \<times> epoch_transition option) option" where
  "applyReconfig env vs d activationHeight activationRank = (case vs_Copy vs of None \<Rightarrow> None
     | Some dup \<Rightarrow> (case members_after (vs_Validators dup) d of None \<Rightarrow> Some (vs, None)
        | Some (m, added, removed) \<Rightarrow>
            if \<not> removal_guard (rd_Type d) (gm_len (vs_Validators vs)) (gm_len m) then Some (vs, None)
            else (let new = NewValidatorSet (next_epoch vs d) m
              in Some (new, Some \<lparr> et_OldEpoch = vs_Epoch vs, et_NewEpoch = vs_Epoch new,
                   et_ActivationHeight = activationHeight, et_ActivationRank = activationRank,
                   et_Added = added, et_Removed = removed, et_QuorumSize = vs_QuorumSize new,
                   et_ConfigHash = ValidatorSet_Hash (xe_sha256 env) (xe_config_json env) (gm_keys m) new \<rparr>))))"

fun applyReconfigs ::
  "exec_env \<Rightarrow> u64 \<Rightarrow> pending_reconfig list \<Rightarrow> validator_set \<Rightarrow>
   (validator_set \<times> epoch_transition list) option" where
  "applyReconfigs env activationRank [] vs = Some (vs, [])"
| "applyReconfigs env activationRank (p # ps) vs =
     (case applyReconfig env vs (pr_data p) (pr_blockHeight p) activationRank of None \<Rightarrow> None
      | Some (vs1, t) \<Rightarrow> (case applyReconfigs env activationRank ps vs1 of None \<Rightarrow> None
          | Some (vs2, ts) \<Rightarrow> Some (vs2, (case t of None \<Rightarrow> ts | Some x \<Rightarrow> x # ts))))"

section \<open>Committing a block\<close>

text \<open>The copy of the queue drops nil votes from the proofs.\<close>

definition clonePendingReconfigs :: "pending_reconfig list \<Rightarrow> pending_reconfig list" where
  "clonePendingReconfigs ps = map (\<lambda>p. p\<lparr> pr_data := (pr_data p)\<lparr> rd_AutoLeaveProof :=
     map_option (\<lambda>q. q\<lparr> htp_AutoVotes := fmfilter (\<lambda>i. fmlookup (htp_AutoVotes q) i \<noteq> Some None)
       (htp_AutoVotes q) \<rparr>) (rd_AutoLeaveProof (pr_data p)) \<rparr> \<rparr>) ps"

definition from_block :: "block \<Rightarrow> pending_reconfig \<Rightarrow> bool" where
  "from_block b p \<longleftrightarrow> pr_blockHeight p = b_Height b \<and> pr_blockHash p = b_Hash b"

definition finish :: "executor \<Rightarrow> block \<Rightarrow> pending_reconfig list \<Rightarrow> executor" where
  "finish e b remaining = e\<lparr> ex_pending := remaining, ex_applied := finsert (b_Hash b) (ex_applied e) \<rparr>"

text \<open>Applying the matching entries to the set the commit started from.\<close>

definition commit_matching ::
  "exec_env \<Rightarrow> executor \<Rightarrow> block \<Rightarrow> u64 \<Rightarrow> pending_reconfig list \<Rightarrow> pending_reconfig list \<Rightarrow>
   epoch_transition list exec_result" where
  "commit_matching env e b activationRank matching remaining = (case ex_valSet e of
     None \<Rightarrow> Success (finish e b remaining) []
   | Some vs \<Rightarrow> (case applyReconfigs env activationRank matching vs of None \<Rightarrow> Crash
      | Some (cand, ts) \<Rightarrow>
          if ts = [] then Success (finish e b remaining) []
          else if (case ex_onEpochChange e of None \<Rightarrow> False | Some cb \<Rightarrow> \<not> cb cand ts) then Failed e
          else Success (finish (e\<lparr>ex_valSet := Some cand\<rparr>) b remaining) ts))"

definition commitReconfigsLocked ::
  "exec_env \<Rightarrow> executor \<Rightarrow> block \<Rightarrow> u64 \<Rightarrow> epoch_transition list exec_result" where
  "commitReconfigsLocked env e b activationRank =
     (if b_Hash b = [] then Failed e
      else if b_Hash b |\<in>| ex_applied e then Success e []
      else if (case ex_valSet e of Some vs \<Rightarrow> vs_Copy vs = None | None \<Rightarrow> False) then Crash
      else (let snapshot = clonePendingReconfigs (ex_pending e);
                matching = filter (from_block b) snapshot;
                remaining = filter (\<lambda>p. \<not> from_block b p) snapshot
            in if matching = [] then
                 (if b_Hash b |\<notin>| ex_executed e then Success e []
                  else Success (e\<lparr>ex_applied := finsert (b_Hash b) (ex_applied e)\<rparr>) [])
               else commit_matching env e b activationRank matching remaining))"

definition CommitReconfigs ::
  "exec_env \<Rightarrow> executor \<Rightarrow> block option \<Rightarrow> u64 \<Rightarrow> epoch_transition list exec_result" where
  "CommitReconfigs env e blk activationRank = (case blk of None \<Rightarrow> Success e []
     | Some b \<Rightarrow> commitReconfigsLocked env e b activationRank)"

definition ApplyOrderedBlock ::
  "exec_env \<Rightarrow> executor \<Rightarrow> block option \<Rightarrow> u64 \<Rightarrow> epoch_transition list exec_result" where
  "ApplyOrderedBlock env e blk activationRank = (case blk of None \<Rightarrow> Success e []
     | Some b \<Rightarrow>
        if b_Hash b = [] then Failed e
        else if b_Hash b |\<in>| ex_applied e then Success e []
        else if b_Hash b |\<in>| ex_executed e then commitReconfigsLocked env e b activationRank
        else (case executeBlockLocked env (e\<lparr>ex_executed := finsert (b_Hash b) (ex_executed e)\<rparr>) b of
           Crash \<Rightarrow> Crash
         | Failed e1 \<Rightarrow> Failed (e1\<lparr>ex_executed := ex_executed e1 |-| {|b_Hash b|}\<rparr>)
         | Success e1 u \<Rightarrow> commitReconfigsLocked env e1 b activationRank))"

section \<open>Members\<close>

lemma remove_leaves_members:
  "fst (remove_leaves is m) = fmdrop_fset (fset_of_list is) m"
proof (induction "is" m rule: remove_leaves.induct)
  case (2 i "is" m)
  show ?case
  proof (cases "i |\<in>| fmdom m")
    case True
    have "fmdrop_fset (fset_of_list is) (fmdrop i m) = fmdrop_fset (finsert i (fset_of_list is)) m"
      by (rule fmap_ext) simp
    with 2(1) [OF True] True show ?thesis by (simp add: split_beta)
  next
    case False
    have "fmdrop_fset (finsert i (fset_of_list is)) m = fmdrop_fset (fset_of_list is) m"
      using False by (intro fmap_ext) (auto simp: fmdom_notD)
    with 2(2) [OF False] False show ?thesis by simp
  qed
qed simp

lemma remove_leaves_removed:
  "set (snd (remove_leaves is m)) = fset (fmdom m) \<inter> set is \<and> distinct (snd (remove_leaves is m))"
proof (induction "is" m rule: remove_leaves.induct)
  case (2 i "is" m)
  then show ?case
    by (cases "i |\<in>| fmdom m") (auto simp: split_beta)
qed simp

lemma remove_leaves_dom:
  assumes "remove_leaves is m = (m', removed)"
  shows "fmdom m' = fmdom m |-| fset_of_list is" "fset_of_list removed = fmdom m |\<inter>| fset_of_list is"
    "distinct removed" "m' = fmdrop_fset (fset_of_list is) m"
  using remove_leaves_members [of "is" m] remove_leaves_removed [of "is" m] assms
  by (auto simp: fset_eq_iff fset_of_list.rep_eq)

text \<open>What the added and removed lists say about the members.\<close>

lemma members_after_dom:
  assumes "members_after m d = Some (m', added, removed)"
  shows "fmdom m' = (fmdom m |-| fset_of_list removed) |\<union>| fset_of_list added" (is ?D)
    and "fset_of_list removed |\<subseteq>| fmdom m" and "fmdom m |\<inter>| fset_of_list added = {||}"
    and "distinct added" and "distinct removed" and "added \<noteq> [] \<or> removed \<noteq> []"
    and "rd_Type d = ReconfigJoin \<and> removed = [] \<or>
      rd_Type d \<in> {ReconfigLeave, ReconfigAutoLeave} \<and> added = []"
    and "\<forall>i. i |\<in>| fmdom m \<longrightarrow> i |\<in>| fmdom m' \<longrightarrow> fmlookup m' i = fmlookup m i"
proof -
  have "?D \<and> fset_of_list removed |\<subseteq>| fmdom m \<and> fmdom m |\<inter>| fset_of_list added = {||} \<and>
      distinct added \<and> distinct removed \<and> (added \<noteq> [] \<or> removed \<noteq> []) \<and>
      (rd_Type d = ReconfigJoin \<and> removed = [] \<or>
       rd_Type d \<in> {ReconfigLeave, ReconfigAutoLeave} \<and> added = []) \<and>
      (\<forall>i. i |\<in>| fmdom m \<longrightarrow> i |\<in>| fmdom m' \<longrightarrow> fmlookup m' i = fmlookup m i)"
  proof (cases "rd_Type d")
    case ReconfigAutoLeave
    let ?l = "case rd_AutoLeaveProof d of None \<Rightarrow> [] | Some p \<Rightarrow> htp_Leaves p"
    obtain n r where nr: "remove_leaves (if ?l = [] then [rd_NodeID d] else ?l) m = (n, r)" by fastforce
    with assms ReconfigAutoLeave have r: "r \<noteq> []" "m' = n" "added = []" "removed = sort r"
      by (auto simp: members_after_def Let_def split: if_splits)
    have s: "fset_of_list (sort r) = fset_of_list r" "distinct (sort r) = distinct r" "sort r = [] \<longleftrightarrow> r = []"
      by (simp_all add: fset_eq_iff fset_of_list_elem) (metis length_0_conv length_sort)
    define gone where "gone = fset_of_list (if ?l = [] then [rd_NodeID d] else ?l)"
    note rl = remove_leaves_dom [OF nr, folded gone_def]
    have "fmdom m |-| gone = fmdom m |-| (fmdom m |\<inter>| gone)"
      by auto
    then have "fmdom m' = (fmdom m |-| fset_of_list removed) |\<union>| fset_of_list added"
      using rl(1,2) by (simp add: r s)
    moreover have "fmlookup m' i = fmlookup m i" if "i |\<in>| fmdom m'" for i
      using that rl(1,4) by (auto simp: r)
    ultimately show ?thesis
      using rl(2,3) ReconfigAutoLeave by (auto simp: r s)
  qed (use assms in \<open>auto simp: members_after_def split: if_splits\<close>)
  then show ?D and "fset_of_list removed |\<subseteq>| fmdom m" and "fmdom m |\<inter>| fset_of_list added = {||}"
    and "distinct added" and "distinct removed" and "added \<noteq> [] \<or> removed \<noteq> []"
    and "rd_Type d = ReconfigJoin \<and> removed = [] \<or>
      rd_Type d \<in> {ReconfigLeave, ReconfigAutoLeave} \<and> added = []"
    and "\<forall>i. i |\<in>| fmdom m \<longrightarrow> i |\<in>| fmdom m' \<longrightarrow> fmlookup m' i = fmlookup m i"
    by blast+
qed

lemma vs_Copy_Some: "vs_Copy vs = Some w \<Longrightarrow> w = vs"
  by (simp add: vs_Copy_def split: if_splits)

lemma applyReconfig_cases:
  assumes "applyReconfig env vs d h r = Some (vs', t)"
  obtains "vs' = vs" "t = None"
  | m added removed where "members_after (vs_Validators vs) d = Some (m, added, removed)"
      "removal_guard (rd_Type d) (gm_len (vs_Validators vs)) (gm_len m)"
      "vs' = NewValidatorSet (next_epoch vs d) m"
      "t = Some \<lparr> et_OldEpoch = vs_Epoch vs, et_NewEpoch = vs_Epoch vs',
                   et_ActivationHeight = h, et_ActivationRank = r,
                   et_Added = added, et_Removed = removed, et_QuorumSize = vs_QuorumSize vs',
                   et_ConfigHash = ValidatorSet_Hash (xe_sha256 env) (xe_config_json env) (gm_keys m) vs' \<rparr>"
proof -
  from assms obtain w where w: "vs_Copy vs = Some w"
    by (auto simp: applyReconfig_def split: option.splits)
  then have [simp]: "w = vs" by (rule vs_Copy_Some)
  show thesis
  proof (cases "members_after (vs_Validators vs) d")
    case None
    with assms w that(1) show thesis by (simp add: applyReconfig_def)
  next
    case (Some p)
    obtain m added removed where p: "p = (m, added, removed)" by (metis prod.collapse)
    show thesis
    proof (cases "removal_guard (rd_Type d) (gm_len (vs_Validators vs)) (gm_len m)")
      case False
      with assms w Some p that(1) show thesis by (simp add: applyReconfig_def)
    next
      case True
      with assms w Some p show thesis
        by (intro that(2) [of m added removed]) (auto simp: applyReconfig_def Let_def)
    qed
  qed
qed

lemma vs_Epoch_New [simp]: "vs_Epoch (NewValidatorSet e m) = e"
  by (simp add: NewValidatorSet_def)

lemma next_epoch_above: "vs_Epoch vs < u64_max \<Longrightarrow> vs_Epoch vs < next_epoch vs d"
  by (auto simp: next_epoch_def u64_succ_less)

text \<open>
  A reconfiguration either leaves the validator set as it is and reports nothing, or its
  transition tells the whole change: the epoch grows, the members are the old ones without the
  removed and with the added ones, none of which was a member before, the quorum is the one of
  the new members, and after a removal at least four members remain and at most a third of the
  other members went.
\<close>

theorem applyReconfig_effect:
  assumes "applyReconfig env vs d h r = Some (vs', t)" and "vs_Epoch vs < u64_max"
  shows "case t of None \<Rightarrow> vs' = vs
    | Some tr \<Rightarrow> et_OldEpoch tr = vs_Epoch vs \<and> et_NewEpoch tr = vs_Epoch vs' \<and>
        vs_Epoch vs < vs_Epoch vs' \<and> et_QuorumSize tr = vs_QuorumSize vs' \<and>
        vs' = NewValidatorSet (vs_Epoch vs') (vs_Validators vs') \<and>
        fmdom (vs_Validators vs') = (fmdom (vs_Validators vs) |-| fset_of_list (et_Removed tr)) |\<union>|
          fset_of_list (et_Added tr) \<and>
        fset_of_list (et_Removed tr) |\<subseteq>| fmdom (vs_Validators vs) \<and>
        fmdom (vs_Validators vs) |\<inter>| fset_of_list (et_Added tr) = {||} \<and>
        (et_Removed tr \<noteq> [] \<longrightarrow> 4 \<le> gm_len (vs_Validators vs') \<and>
           length (et_Removed tr) \<le> (gm_len (vs_Validators vs) - 1) div 3)"
  using assms(1)
proof (cases rule: applyReconfig_cases)
  case (2 m added removed)
  note dom = members_after_dom [OF 2(1)]
  have guard: "4 \<le> gm_len m \<and> length removed \<le> (gm_len (vs_Validators vs) - 1) div 3" if "removed \<noteq> []"
  proof -
    have ty: "rd_Type d \<in> {ReconfigLeave, ReconfigAutoLeave}" "added = []"
      using that dom(7) by auto
    have "gm_len m = gm_len (vs_Validators vs) - length removed"
      using dom(1,2,5) ty by (simp add: gm_len_card card_Diff_subset fset_of_list.rep_eq
          distinct_card less_eq_fset.rep_eq)
    moreover have "length removed \<le> gm_len (vs_Validators vs)"
      using dom(2,5) card_mono [of "fset (fmdom (vs_Validators vs))" "set removed"]
      by (simp add: gm_len_card fset_of_list.rep_eq distinct_card less_eq_fset.rep_eq)
    ultimately show ?thesis
      using 2(2) ty by (auto simp: removal_guard_def)
  qed
  then show ?thesis
    using 2 dom next_epoch_above [OF assms(2)] by simp
qed simp

section \<open>Exactly once\<close>

lemma commit_success_applied:
  assumes "commitReconfigsLocked env e b r = Success e' ts" and "b_Hash b |\<in>| ex_executed e"
  shows "b_Hash b |\<in>| ex_applied e'"
  using assms by (auto simp: commitReconfigsLocked_def commit_matching_def finish_def Let_def
      split: if_splits option.splits prod.splits)

lemma commit_applied:
  "b_Hash b \<noteq> [] \<Longrightarrow> b_Hash b |\<in>| ex_applied e \<Longrightarrow> commitReconfigsLocked env e b r = Success e []"
  by (simp add: commitReconfigsLocked_def)

lemma commit_failed:
  assumes "commitReconfigsLocked env e b r = Failed e'"
  shows "e' = e"
  using assms by (auto simp: commitReconfigsLocked_def commit_matching_def Let_def
      split: if_splits option.splits prod.splits)

lemma execute_frame [framing]:
  assumes "executeBlockLocked env e b = Success e' u"
  shows "ex_valSet e' = ex_valSet e" "ex_executed e' = ex_executed e" "ex_applied e' = ex_applied e"
    "ex_onEpochChange e' = ex_onEpochChange e"
  using assms by (auto simp: executeBlockLocked_def split: option.splits)

lemma execute_failed: "executeBlockLocked env e b = Failed e' \<Longrightarrow> e' = e"
  by (auto simp: executeBlockLocked_def split: option.splits)

text \<open>
  Applying a block a second time at once changes nothing, and a failed application leaves the
  validator set and the record of applied blocks as they were, so that it can be retried.
\<close>

lemma apply_twice:
  assumes "b_Hash b \<noteq> []"
  shows "case ApplyOrderedBlock env e (Some b) r of
      Crash \<Rightarrow> True
    | Success e1 ts \<Rightarrow> ApplyOrderedBlock env e1 (Some b) r' = Success e1 [] \<and> b_Hash b |\<in>| ex_applied e1
    | Failed e1 \<Rightarrow> ex_valSet e1 = ex_valSet e \<and> ex_applied e1 = ex_applied e \<and> b_Hash b |\<notin>| ex_applied e1"
proof (cases "b_Hash b |\<in>| ex_applied e")
  case True
  with assms show ?thesis by (simp add: ApplyOrderedBlock_def)
next
  case new: False
  have again: "ApplyOrderedBlock env e1 (Some b) r' = Success e1 [] \<and> b_Hash b |\<in>| ex_applied e1"
    if "commitReconfigsLocked env e2 b r = Success e1 ts" "b_Hash b |\<in>| ex_executed e2" for e1 e2 ts
    using commit_success_applied [OF that] assms by (simp add: ApplyOrderedBlock_def)
  show ?thesis
  proof (cases "b_Hash b |\<in>| ex_executed e")
    case True
    with new assms have eq: "ApplyOrderedBlock env e (Some b) r = commitReconfigsLocked env e b r"
      by (simp add: ApplyOrderedBlock_def)
    show ?thesis
      unfolding eq using again [OF _ True] commit_failed [of env e b r] new
      by (cases "commitReconfigsLocked env e b r") auto
  next
    case False
    let ?e0 = "e\<lparr>ex_executed := finsert (b_Hash b) (ex_executed e)\<rparr>"
    show ?thesis
    proof (cases "executeBlockLocked env ?e0 b")
      case Crash
      with new False assms show ?thesis by (simp add: ApplyOrderedBlock_def)
    next
      case (Failed e1)
      with new False assms execute_failed [OF Failed] show ?thesis
        by (simp add: ApplyOrderedBlock_def)
    next
      case (Success e1 u)
      with new False assms have eq: "ApplyOrderedBlock env e (Some b) r = commitReconfigsLocked env e1 b r"
        by (simp add: ApplyOrderedBlock_def)
      note fr = execute_frame [OF Success]
      show ?thesis
        unfolding eq using again [of e1] commit_failed [of env e1 b r] new fr
        by (cases "commitReconfigsLocked env e1 b r") auto
    qed
  qed
qed

text \<open>
  Everything the program does to an executor: it applies or commits blocks, in any order, again and
  again, with whatever the parsers and verifiers answer, and installs callbacks.  \<open>ExecuteBlock\<close> and
  \<open>CommitReconfigs\<close> alone are never called (main.go calls only \<open>ApplyOrderedBlock\<close>); the latter is a
  step all the same, the former would execute a block without recording it.
\<close>

inductive exec_step :: "executor \<Rightarrow> executor \<Rightarrow> bool" where
  applied: "ApplyOrderedBlock env e blk r = Success e' ts \<Longrightarrow> exec_step e e'"
| apply_fails: "ApplyOrderedBlock env e blk r = Failed e' \<Longrightarrow> exec_step e e'"
| committed: "CommitReconfigs env e blk r = Success e' ts \<Longrightarrow> exec_step e e'"
| commit_fails: "CommitReconfigs env e blk r = Failed e' \<Longrightarrow> exec_step e e'"
| resolver: "exec_step e (e\<lparr>ex_resolver := f\<rparr>)"
| callback: "exec_step e (e\<lparr>ex_onEpochChange := g\<rparr>)"
| authorizer: "exec_step e (e\<lparr>ex_authorizer := h\<rparr>)"

text \<open>
  The counter of executed blocks is the number of recorded hashes, queued reconfigurations and
  applied blocks have been executed.
\<close>

definition exec_ok :: "executor \<Rightarrow> bool" where
  "exec_ok e \<longleftrightarrow> ex_totalBlocks e = of_nat (card (fset (ex_executed e))) \<and> ex_applied e |\<subseteq>| ex_executed e \<and>
     (\<forall>p \<in> set (ex_pending e). pr_blockHash p |\<in>| ex_executed e)"

lemma clone_hashes: "pr_blockHash ` set (clonePendingReconfigs ps) = pr_blockHash ` set ps"
  by (simp add: clonePendingReconfigs_def image_image)

lemma clone_executed:
  "p \<in> set (clonePendingReconfigs (ex_pending e)) \<Longrightarrow> exec_ok e \<Longrightarrow> pr_blockHash p |\<in>| ex_executed e"
  using clone_hashes [of "ex_pending e"] unfolding exec_ok_def by (metis image_iff)

lemma exec_ok_commit:
  assumes ok: "exec_ok e" and "commitReconfigsLocked env e b r = Success e' ts"
  shows "exec_ok e' \<and> ex_applied e |\<subseteq>| ex_applied e' \<and> ex_executed e' = ex_executed e \<and> ex_totalBlocks e' = ex_totalBlocks e"
proof -
  let ?ps = "clonePendingReconfigs (ex_pending e)"
  have fin: "exec_ok (finish (e\<lparr>ex_valSet := v\<rparr>) b (filter (\<lambda>p. \<not> from_block b p) ?ps))"
    "exec_ok (finish e b (filter (\<lambda>p. \<not> from_block b p) ?ps))"
    if some: "filter (from_block b) ?ps \<noteq> []" for v
  proof -
    obtain p where p: "p \<in> set ?ps" "from_block b p"
      using some unfolding filter_empty_conv by blast
    then have "b_Hash b |\<in>| ex_executed e"
      using clone_executed [OF p(1) ok] by (simp add: from_block_def)
    then show "exec_ok (finish (e\<lparr>ex_valSet := v\<rparr>) b (filter (\<lambda>p. \<not> from_block b p) ?ps))"
      "exec_ok (finish e b (filter (\<lambda>p. \<not> from_block b p) ?ps))"
      using ok clone_executed [OF _ ok] by (auto simp: exec_ok_def finish_def)
  qed
  have done_once: "exec_ok (e\<lparr>ex_applied := finsert (b_Hash b) (ex_applied e)\<rparr>)" if "b_Hash b |\<in>| ex_executed e"
    using that ok by (simp add: exec_ok_def)
  show ?thesis
    using assms fin done_once
    by (auto simp: commitReconfigsLocked_def commit_matching_def Let_def finish_def split: if_splits option.splits prod.splits)
qed

lemma exec_ok_execute:
  assumes ok: "exec_ok e" and new: "b_Hash b |\<notin>| ex_executed e"
    and "executeBlockLocked env (e\<lparr>ex_executed := finsert (b_Hash b) (ex_executed e)\<rparr>) b = Success e' u"
  shows "exec_ok e' \<and> ex_applied e' = ex_applied e"
proof -
  have "card (fset (finsert (b_Hash b) (ex_executed e))) = Suc (card (fset (ex_executed e)))"
    using new by simp
  with assms show ?thesis
    by (auto simp: executeBlockLocked_def exec_ok_def less_eq_fset.rep_eq split: option.splits)
qed

lemma exec_ok_apply:
  assumes ok: "exec_ok e" and "ApplyOrderedBlock env e blk r = Success e' ts \<or> ApplyOrderedBlock env e blk r = Failed e'"
  shows "exec_ok e' \<and> ex_applied e |\<subseteq>| ex_applied e'"
proof (cases "blk = None \<or> (\<exists>b. blk = Some b \<and> (b_Hash b = [] \<or> b_Hash b |\<in>| ex_applied e))")
  case True
  then have "e' = e"
    using assms(2) by (auto simp: ApplyOrderedBlock_def split: if_splits)
  with ok show ?thesis by simp
next
  case False
  then obtain b where b: "blk = Some b" "b_Hash b \<noteq> []" "b_Hash b |\<notin>| ex_applied e" by auto
  have commit: "exec_ok e' \<and> ex_applied x |\<subseteq>| ex_applied e'"
    if "exec_ok x" "commitReconfigsLocked env x b r = Success e' ts \<or> commitReconfigsLocked env x b r = Failed e'" for x
    using that exec_ok_commit [OF that(1)] commit_failed by blast
  show ?thesis
  proof (cases "b_Hash b |\<in>| ex_executed e")
    case True
    with b assms(2) commit [OF ok] show ?thesis by (auto simp: ApplyOrderedBlock_def)
  next
    case new: False
    let ?e0 = "e\<lparr>ex_executed := finsert (b_Hash b) (ex_executed e)\<rparr>"
    show ?thesis
    proof (cases "executeBlockLocked env ?e0 b")
      case Crash
      with b new assms(2) show ?thesis by (simp add: ApplyOrderedBlock_def)
    next
      case (Failed e1)
      with execute_failed [OF Failed] b new assms show ?thesis
        by (auto simp: ApplyOrderedBlock_def)
    next
      case (Success e1 u)
      with b new assms(2) commit [of e1] exec_ok_execute [OF ok new Success] show ?thesis
        by (simp add: ApplyOrderedBlock_def)
    qed
  qed
qed

lemma exec_ok_step:
  assumes "exec_step e e'" and "exec_ok e"
  shows "exec_ok e' \<and> ex_applied e |\<subseteq>| ex_applied e'"
  using assms(1)
proof (cases rule: exec_step.cases)
  case (applied env blk r ts)
  with exec_ok_apply [OF assms(2)] show ?thesis by blast
next
  case (apply_fails env blk r)
  with exec_ok_apply [OF assms(2)] show ?thesis by blast
next
  case (committed env blk r ts)
  with assms(2) exec_ok_commit [OF assms(2)] show ?thesis
    by (cases blk) (auto simp: CommitReconfigs_def)
next
  case (commit_fails env blk r)
  with assms(2) show ?thesis
    by (cases blk) (auto simp: CommitReconfigs_def dest: commit_failed)
qed (use assms(2) in \<open>simp_all add: exec_ok_def\<close>)

lemma exec_ok_run:
  assumes "exec_step\<^sup>*\<^sup>* e e'" and "exec_ok e"
  shows "exec_ok e' \<and> ex_applied e |\<subseteq>| ex_applied e'"
  using assms by (induction rule: rtranclp_induct) (auto dest: exec_ok_step)

lemma exec_ok_new: "exec_ok (NewExecutor vs)"
  by (simp add: exec_ok_def NewExecutor_def)

text \<open>
  C17: an ordered block takes effect exactly once in the life of an executor.  Over every sequence of
  applications, commits (with or without error, with any parsers, keys and ranks) and changes of the
  callbacks: the number of block executions is the number of distinct hashes executed, and every
  applied block was executed.  When the application of a block succeeds in such a state, every later
  application of a block with that hash, however much later, changes nothing and reports no
  transition; when it fails, the validator set and the record of applied blocks stay as they were.
\<close>

theorem ApplyOrderedBlock_exactly_once:
  assumes "exec_step\<^sup>*\<^sup>* (NewExecutor vs) e" and "b_Hash b \<noteq> []"
  shows "ex_totalBlocks e = of_nat (card (fset (ex_executed e))) \<and> ex_applied e |\<subseteq>| ex_executed e \<and>
    (case ApplyOrderedBlock env e (Some b) r of
      Crash \<Rightarrow> True
    | Success e1 ts \<Rightarrow> b_Hash b |\<in>| ex_applied e1 \<and>
        (\<forall>e2 b' env' r'. exec_step\<^sup>*\<^sup>* e1 e2 \<longrightarrow> b_Hash b' = b_Hash b \<longrightarrow>
           ApplyOrderedBlock env' e2 (Some b') r' = Success e2 [])
    | Failed e1 \<Rightarrow> ex_valSet e1 = ex_valSet e \<and> ex_applied e1 = ex_applied e \<and> b_Hash b |\<notin>| ex_applied e1)"
proof -
  have ok: "exec_ok e"
    using exec_ok_run [OF assms(1) exec_ok_new] by blast
  have later: "ApplyOrderedBlock env' e2 (Some b') r' = Success e2 []"
    if s: "ApplyOrderedBlock env e (Some b) r = Success e1 ts" and run: "exec_step\<^sup>*\<^sup>* e1 e2" and h: "b_Hash b' = b_Hash b"
    for e1 e2 ts b' env' r'
  proof -
    have "b_Hash b |\<in>| ex_applied e1"
      using apply_twice [OF assms(2), where env = env and e = e and r = r] s by simp
    then have "b_Hash b |\<in>| ex_applied e2"
      using exec_ok_run [OF run] exec_ok_apply [OF ok disjI1 [OF s]] by blast
    then show ?thesis using h assms(2) by (simp add: ApplyOrderedBlock_def)
  qed
  with ok apply_twice [OF assms(2), where env = env and e = e and r = r] show ?thesis
    by (cases "ApplyOrderedBlock env e (Some b) r") (auto simp: exec_ok_def)
qed

section \<open>The epochs of a run\<close>

fun chain_epochs :: "u64 \<Rightarrow> epoch_transition list \<Rightarrow> u64 \<Rightarrow> bool" where
  "chain_epochs e [] e' = (e = e')"
| "chain_epochs e (t # ts) e' = (et_OldEpoch t = e \<and> (e < u64_max \<longrightarrow> e < et_NewEpoch t) \<and>
     chain_epochs (et_NewEpoch t) ts e')"

lemma chain_epochs_append:
  "chain_epochs a ts b \<Longrightarrow> chain_epochs b us c \<Longrightarrow> chain_epochs a (ts @ us) c"
  by (induction ts arbitrary: a) auto

lemma applyReconfigs_chain:
  "applyReconfigs env r ps vs = Some (vs', ts) \<Longrightarrow>
   chain_epochs (vs_Epoch vs) ts (vs_Epoch vs') \<and> (\<forall>t \<in> set ts. et_ActivationRank t = r)"
proof (induction ps arbitrary: vs vs' ts)
  case (Cons p ps)
  then obtain vs1 t ts1 where 1: "applyReconfig env vs (pr_data p) (pr_blockHeight p) r = Some (vs1, t)"
      and 2: "applyReconfigs env r ps vs1 = Some (vs', ts1)"
      and ts: "ts = (case t of None \<Rightarrow> ts1 | Some x \<Rightarrow> x # ts1)"
    by (auto split: option.splits)
  from 1 show ?case
  proof (cases rule: applyReconfig_cases)
    case 1
    with Cons.IH [OF 2] ts show ?thesis by simp
  next
    case (2 m added removed)
    with Cons.IH [OF \<open>applyReconfigs env r ps vs1 = Some (vs', ts1)\<close>] ts show ?thesis
      using next_epoch_above [of vs "pr_data p"] by auto
  qed
qed simp

definition epoch_of :: "executor \<Rightarrow> u64" where
  "epoch_of e = (case ex_valSet e of None \<Rightarrow> 0 | Some vs \<Rightarrow> vs_Epoch vs)"

lemma commit_chain:
  assumes "commitReconfigsLocked env e b r = Success e' ts"
  shows "chain_epochs (epoch_of e) ts (epoch_of e') \<and> (\<forall>t \<in> set ts. et_ActivationRank t = r) \<and>
    (ts = [] \<longrightarrow> ex_valSet e' = ex_valSet e)"
proof -
  have "chain_epochs (epoch_of e) ts (epoch_of e') \<and> (\<forall>t \<in> set ts. et_ActivationRank t = r) \<and>
      (ts = [] \<longrightarrow> ex_valSet e' = ex_valSet e)"
    if "commit_matching env e b r ma re = Success e' ts" for ma re
    using that applyReconfigs_chain
    by (fastforce simp: commit_matching_def finish_def epoch_of_def split: option.splits if_splits prod.splits)
  then show ?thesis
    using assms by (auto simp: commitReconfigsLocked_def Let_def epoch_of_def split: if_splits)
qed

lemma ApplyOrderedBlock_chain:
  assumes "ApplyOrderedBlock env e blk r = Success e' ts"
  shows "chain_epochs (epoch_of e) ts (epoch_of e') \<and> (\<forall>t \<in> set ts. et_ActivationRank t = r) \<and>
    (ts = [] \<longrightarrow> ex_valSet e' = ex_valSet e)"
proof (cases blk)
  case (Some b)
  show ?thesis
  proof (cases "b_Hash b = [] \<or> b_Hash b |\<in>| ex_applied e \<or> b_Hash b |\<in>| ex_executed e")
    case True
    with assms Some commit_chain show ?thesis
      by (fastforce simp: ApplyOrderedBlock_def split: if_splits)
  next
    case False
    with assms Some obtain e1 u where
      1: "executeBlockLocked env (e\<lparr>ex_executed := finsert (b_Hash b) (ex_executed e)\<rparr>) b = Success e1 u" and
      2: "commitReconfigsLocked env e1 b r = Success e' ts"
      by (auto simp: ApplyOrderedBlock_def split: exec_result.splits)
    with commit_chain [OF 2] execute_frame(1) [OF 1] show ?thesis
      by (simp add: epoch_of_def)
  qed
qed (use assms in \<open>simp add: ApplyOrderedBlock_def\<close>)

text \<open>A run over the ordered log: a failed block is skipped, a crash ends the run.\<close>

fun apply_run :: "exec_env \<Rightarrow> (block option \<times> u64) list \<Rightarrow> executor \<Rightarrow> (executor \<times> epoch_transition list) option" where
  "apply_run env [] e = Some (e, [])"
| "apply_run env ((blk, r) # xs) e = (case ApplyOrderedBlock env e blk r of
     Crash \<Rightarrow> None
   | Failed e1 \<Rightarrow> apply_run env xs e1
   | Success e1 ts \<Rightarrow> (case apply_run env xs e1 of None \<Rightarrow> None
       | Some (e2, us) \<Rightarrow> Some (e2, ts @ us)))"

lemma ApplyOrderedBlock_failed_valSet:
  "ApplyOrderedBlock env e blk r = Failed e' \<Longrightarrow> ex_valSet e' = ex_valSet e"
  by (auto simp: ApplyOrderedBlock_def dest!: commit_failed execute_failed execute_frame(1)
      split: option.splits if_splits exec_result.splits)


section \<open>Quorums across an epoch\<close>

lemma unit_threshold:
  "unit_power m \<Longrightarrow> vs_threshold m = 2 * gm_len m div 3 + 1"
  by (simp add: vs_threshold_eq unit_ok unit_sum) (simp add: vs_members_def gm_len_card)

text \<open>
  When all validators count one, every quorum of the old set and every quorum of the set after
  one reconfiguration share a validator: one transition does not lose quorum intersection.
\<close>

theorem reconfig_keeps_quorum_overlap:
  assumes "applyReconfig env vs d h r = Some (vs', Some t)"
    and "unit_power (vs_Validators vs)" and "unit_power (vs_Validators vs')"
    and "A \<subseteq> vs_members (vs_Validators vs)" and "vs_threshold (vs_Validators vs) \<le> card A"
    and "B \<subseteq> vs_members (vs_Validators vs')" and "vs_threshold (vs_Validators vs') \<le> card B"
  shows "A \<inter> B \<noteq> {}"
proof
  assume disjoint: "A \<inter> B = {}"
  let ?m = "vs_Validators vs"
  from assms(1) obtain m added removed where
    m: "members_after ?m d = Some (m, added, removed)" and
    guard: "removal_guard (rd_Type d) (gm_len ?m) (gm_len m)" and
    vs': "vs' = NewValidatorSet (next_epoch vs d) m"
    by (cases rule: applyReconfig_cases) auto
  note dom = members_after_dom [OF m]
  have fin: "finite A" "finite B"
    using assms(4,6) finite_subset by auto
  then have "card A + card B = card (A \<union> B)"
    using disjoint by (simp add: card_Un_disjoint)
  also have "\<dots> \<le> card (fset (fmdom ?m) \<union> fset (fmdom m))"
    using assms(4,6) by (intro card_mono) (auto simp: vs_members_def vs')
  finally have union: "card A + card B \<le> card (fset (fmdom ?m) \<union> fset (fmdom m))" .
  have thr: "2 * gm_len ?m div 3 + 1 \<le> card A" "2 * gm_len m div 3 + 1 \<le> card B"
    using assms(2,3,5,7) by (simp_all add: unit_threshold vs')
  from dom(7) show False
  proof (elim disjE conjE)
    assume join: "rd_Type d = ReconfigJoin" "removed = []"
    then have new: "m = fmupd (rd_NodeID d) (Some (joined d)) ?m" "rd_NodeID d |\<notin>| fmdom ?m"
      using m by (auto simp: members_after_def split: if_splits)
    then have "gm_len m = Suc (gm_len ?m)" "fset (fmdom ?m) \<union> fset (fmdom m) = fset (fmdom m)"
      by (auto simp: gm_len_upd)
    then show False
      using union thr by (simp add: gm_len_card)
  next
    assume leave: "rd_Type d \<in> {ReconfigLeave, ReconfigAutoLeave}" "added = []"
    then have "fset (fmdom ?m) \<union> fset (fmdom m) = fset (fmdom ?m)" "gm_len m \<le> gm_len ?m"
      using dom(1) by (auto simp: gm_len_card intro: card_mono)
    moreover have "4 \<le> gm_len m" "gm_len ?m - gm_len m \<le> (gm_len ?m - 1) div 3"
      using guard leave by (auto simp: removal_guard_def)
    ultimately show False
      using union thr by (simp add: gm_len_card)
  qed
qed

section \<open>Concrete reconfigurations\<close>

definition plain_env :: exec_env where
  "plain_env = \<lparr> xe_ed_verify = (\<lambda>pk m s. pk = s), xe_sha256 = id, xe_config_json = (\<lambda>n q items. []),
     xe_parse_tx = (\<lambda>p. Some \<lparr> tx_Type = TxTypeReconfig, tx_Payload = p \<rparr>),
     xe_parse_reconfig = (\<lambda>p. Some \<lparr> rd_Type = ReconfigJoin, rd_NodeID = ucast (hd p), rd_PublicKey = tl p,
       rd_VRFPublicKey = [], rd_Power = 1, rd_Epoch = 0, rd_TargetEpoch = 0, rd_Signature = tl p,
       rd_AutoLeaveProof = None \<rparr>), xe_reconfig_json = (\<lambda>_. []) \<rparr>"

definition leave_of :: "u64 \<Rightarrow> reconfig_data" where
  "leave_of i = \<lparr> rd_Type = ReconfigLeave, rd_NodeID = i, rd_PublicKey = [ucast i], rd_VRFPublicKey = [],
     rd_Power = 1, rd_Epoch = 0, rd_TargetEpoch = 0, rd_Signature = [], rd_AutoLeaveProof = None \<rparr>"

definition plain_set :: "u64 list \<Rightarrow> validator_set" where
  "plain_set ids = NewValidatorSet 0 (plain_validators ids)"

definition join_block :: "bytes \<Rightarrow> block" where
  "join_block key = (NewBlock id 0 7 [] (9 # key) 7 0 1 7 None [])\<lparr>b_Hash := [1, 2, 3, 4]\<rparr>"

definition open_executor :: executor where
  "open_executor = (NewExecutor (Some (plain_set [1, 2, 3, 4, 5])))\<lparr>ex_authorizer := Some (\<lambda>_. True)\<rparr>"

theorem applyReconfig_effect_witness:
  "case applyReconfig plain_env (plain_set [1, 2, 3, 4, 5]) (leave_of 2) 7 7 of
     Some (vs', Some tr) \<Rightarrow> et_Removed tr = [2] \<and> vs_Epoch (plain_set [1, 2, 3, 4, 5]) < vs_Epoch vs' \<and>
       4 \<le> gm_len (vs_Validators vs')
   | _ \<Rightarrow> False"
proof -
  have "case applyReconfig plain_env (plain_set [1, 2, 3, 4, 5]) (leave_of 2) 7 7 of
     Some (vs', Some tr) \<Rightarrow> et_Removed tr = [2] | _ \<Rightarrow> False"
    by code_simp
  then obtain vs' tr where r: "applyReconfig plain_env (plain_set [1, 2, 3, 4, 5]) (leave_of 2) 7 7 = Some (vs', Some tr)"
      and rem: "et_Removed tr = [2]"
    by (auto split: option.splits prod.splits)
  have "vs_Epoch (plain_set [1, 2, 3, 4, 5]) < u64_max"
    by (simp add: plain_set_def word_gt_0)
  from applyReconfig_effect [OF r this] rem show ?thesis by (simp add: r)
qed

theorem ApplyOrderedBlock_exactly_once_witness:
  "case ApplyOrderedBlock plain_env open_executor (Some (join_block (replicate 32 5))) 7 of
     Success e1 ts \<Rightarrow> map et_Added ts = [[9]] \<and>
       ApplyOrderedBlock plain_env (e1\<lparr>ex_authorizer := None\<rparr>) (Some (join_block (replicate 32 5))) 8 = Success (e1\<lparr>ex_authorizer := None\<rparr>) []
   | _ \<Rightarrow> False"
proof -
  have "case ApplyOrderedBlock plain_env open_executor (Some (join_block (replicate 32 5))) 7 of
     Success e1 ts \<Rightarrow> map et_Added ts = [[9]] | _ \<Rightarrow> False"
    by code_simp
  moreover have start: "exec_step\<^sup>*\<^sup>* (NewExecutor (Some (plain_set [1, 2, 3, 4, 5]))) open_executor"
    unfolding open_executor_def by (blast intro: exec_step.authorizer)
  have hash: "b_Hash (join_block (replicate 32 5)) \<noteq> []"
    by (simp add: join_block_def)
  note once = ApplyOrderedBlock_exactly_once [OF start hash, where env = plain_env and r = 7]
  have "exec_step\<^sup>*\<^sup>* e1 (e1\<lparr>ex_authorizer := None\<rparr>)" for e1
    by (blast intro: exec_step.authorizer)
  ultimately show ?thesis
    using once [THEN conjunct2, THEN conjunct2]
    by (cases "ApplyOrderedBlock plain_env open_executor (Some (join_block (replicate 32 5))) 7") auto
qed


theorem reconfig_keeps_quorum_overlap_witness:
  "{1, 2, 3, 4} \<inter> {3, 4, 5} \<noteq> ({} :: u64 set)"
proof (rule reconfig_keeps_quorum_overlap)
  let ?out = "applyReconfig plain_env (plain_set [1, 2, 3, 4, 5]) (leave_of 2) 7 7"
  have "?out \<noteq> None \<and> snd (the ?out) \<noteq> None"
    by code_simp
  then show "?out = Some (fst (the ?out), Some (the (snd (the ?out))))"
    by auto
  have new: "vs_Validators (fst (the ?out)) = plain_validators [1, 3, 4, 5]"
    by code_simp
  have old: "vs_Validators (plain_set [1, 2, 3, 4, 5]) = plain_validators [1, 2, 3, 4, 5]"
    by (simp add: plain_set_def)
  show u: "unit_power (vs_Validators (plain_set [1, 2, 3, 4, 5]))" "unit_power (vs_Validators (fst (the ?out)))"
    unfolding new old by (rule unit_plain; simp)+
  show "{1, 2, 3, 4} \<subseteq> vs_members (vs_Validators (plain_set [1, 2, 3, 4, 5]))"
    "{3, 4, 5} \<subseteq> vs_members (vs_Validators (fst (the ?out)))"
    unfolding new old by simp_all
  show "vs_threshold (vs_Validators (plain_set [1, 2, 3, 4, 5])) \<le> card {1, 2, 3, 4 :: u64}"
    "vs_threshold (vs_Validators (fst (the ?out))) \<le> card {3, 4, 5 :: u64}"
    unfolding unit_threshold [OF u(1)] unit_threshold [OF u(2)] unfolding new old by simp_all
qed

text \<open>
  The guard of removals is evaluated per transaction.  A single block that carries six leave
  requests of a ten-validator set passes it six times and leaves four validators, whose quorums
  need not meet the quorums of the old set: the old quorum 1 to 7 and the new quorum 8 to 10.
\<close>

theorem one_block_can_remove_six_of_ten:
  "case applyReconfigs plain_env 9 (map (\<lambda>i. \<lparr> pr_blockHeight = 9, pr_blockHash = [1], pr_data = leave_of i \<rparr>)
          [1, 2, 3, 4, 5, 6]) (plain_set [1, 2, 3, 4, 5, 6, 7, 8, 9, 10]) of
     Some (vs', ts) \<Rightarrow> concat (map et_Removed ts) = [1, 2, 3, 4, 5, 6] \<and>
       gm_keys (vs_Validators vs') = [7, 8, 9, 10] \<and>
       vs_QuorumSize (plain_set [1, 2, 3, 4, 5, 6, 7, 8, 9, 10]) = 7 \<and> vs_QuorumSize vs' = 3
   | None \<Rightarrow> False"
  by code_simp

text \<open>
  An ordered block whose data is a join request with a public key that is not 32 bytes long
  crashes every executor that has not handled it yet: the signature check panics before the
  authorizer is asked.
\<close>

theorem malformed_join_key_crashes:
  assumes "b_Hash b \<noteq> []" and "b_Hash b |\<notin>| ex_applied e" and "b_Hash b |\<notin>| ex_executed e"
    and "b_Payload b = []" and "b_Data b \<noteq> []" and "xe_parse_tx env (b_Data b) = Some tx"
    and "tx_Type tx = TxTypeReconfig" and "xe_parse_reconfig env (tx_Payload tx) = Some d"
    and "rd_Type d = ReconfigJoin" and "length (rd_PublicKey d) \<noteq> 32"
  shows "ApplyOrderedBlock env e (Some b) r = Crash"
  using assms by (simp add: ApplyOrderedBlock_def executeBlockLocked_def block_txs_def executeTx_def
      verifyManualReconfigSignature_def rd_VerifySignature_def ed25519_Verify_def)

theorem malformed_join_key_crashes_witness:
  "ApplyOrderedBlock plain_env open_executor (Some (join_block [1, 2])) 7 = Crash"
  by (rule malformed_join_key_crashes [where tx = "\<lparr>tx_Type = TxTypeReconfig, tx_Payload = [9, 1, 2]\<rparr>"
        and d = "the (xe_parse_reconfig plain_env [9, 1, 2])"])
    (simp_all add: join_block_def open_executor_def NewExecutor_def plain_env_def NewBlock_def)

end
