(* ===== verification/Beacon.thy ===== *)
theory Beacon
  imports Go_Prelude
begin

text \<open>
  The random beacon (consensus/beacon/beacon.go) and the sortition test (crypto/vrf.go): the seed,
  the leader of a view and lane drawn from it, and committee membership.  SHA-256 and the VRF are
  arguments.  \<open>Sortition\<close> divides big integers and panics on a zero divisor.
\<close>

text \<open>The first eight bytes of a slice as a big-endian integer, as far as they are there.\<close>

definition read_be64 :: "bytes \<Rightarrow> u64" where
  "read_be64 bs = fold (\<lambda>b acc. push_bit 8 acc + ucast b) (take 8 bs) 0"

definition UpdateRandomness :: "(bytes \<Rightarrow> bytes) \<Rightarrow> bytes \<Rightarrow> bytes \<Rightarrow> bytes" where
  "UpdateRandomness sha256 aggregatedSig seed = sha256 (seed @ aggregatedSig)"

definition SelectLeader :: "(bytes \<Rightarrow> bytes) \<Rightarrow> bytes \<Rightarrow> u64 \<Rightarrow> u64 \<Rightarrow> u64 list \<Rightarrow> u64" where
  "SelectLeader sha256 seed view laneID validators =
     (if validators = [] then 0
      else if length validators = 1 then validators ! 0
      else validators ! unat (read_be64 (sha256 (seed @ be64 view @ be64 laneID)) mod of_nat (length validators)))"

text \<open>Euclidean division of \<open>math/big\<close>: the remainder is never negative.\<close>

definition euclid_div :: "int \<Rightarrow> int \<Rightarrow> int" where
  "euclid_div a n = (if n < 0 then - (a div (- n)) else a div n)"

text \<open>\<open>None\<close> is the panic of a division by zero.\<close>

definition Sortition :: "bytes \<Rightarrow> u64 \<Rightarrow> int \<Rightarrow> bool option" where
  "Sortition vrfHash totalWeight committeeSize =
     (if length vrfHash < 8 then Some False
      else if totalWeight = 0 then None
      else Some (int (unat (read_be64 vrfHash)) < euclid_div (2 ^ 64 * committeeSize) (sint totalWeight)))"

type_synonym vrf_prover = "bytes \<Rightarrow> bytes \<Rightarrow> (bytes \<times> bytes) option"
type_synonym vrf_verifier = "bytes \<Rightarrow> bytes \<Rightarrow> bytes \<Rightarrow> bytes option"

text \<open>Selection flag, hash and proof of the local node.\<close>

definition AmICommitteeMember ::
  "vrf_prover \<Rightarrow> bytes \<Rightarrow> bytes \<Rightarrow> u64 \<Rightarrow> int \<Rightarrow> (bool \<times> bytes \<times> bytes) option" where
  "AmICommitteeMember evaluate priv seed totalWeight committeeSize = (case evaluate priv seed of
     None \<Rightarrow> Some (False, [], [])
   | Some (h, proof) \<Rightarrow> map_option (\<lambda>sel. (sel, h, proof)) (Sortition h totalWeight committeeSize))"

definition VerifyCommitteeMember ::
  "vrf_verifier \<Rightarrow> bytes \<Rightarrow> bytes \<Rightarrow> bytes \<Rightarrow> u64 \<Rightarrow> int \<Rightarrow> bool option" where
  "VerifyCommitteeMember verify pub seed proof totalWeight committeeSize = (case verify pub seed proof of
     None \<Rightarrow> Some False
   | Some h \<Rightarrow> Sortition h totalWeight committeeSize)"

section \<open>Properties\<close>

lemma SelectLeader_member:
  assumes "validators \<noteq> []" and "length validators < 2 ^ 64"
  shows "SelectLeader sha256 seed view lane validators \<in> set validators"
proof -
  have "unat (w mod of_nat (length validators)) < length validators" for w :: u64
    using assms by (simp add: unat_mod unat_of_nat_small)
  then show ?thesis
    using assms(1) by (auto simp: SelectLeader_def)
qed

lemma Sortition_mono:
  assumes "sint w > 0" and "k \<le> k'" and "Sortition h w k = Some True"
  shows "Sortition h w k' = Some True"
proof -
  have "euclid_div (2 ^ 64 * k) (sint w) \<le> euclid_div (2 ^ 64 * k') (sint w)"
    using assms(1,2) by (simp add: euclid_div_def zdiv_mono1)
  with assms(3) show ?thesis
    by (auto simp: Sortition_def split: if_splits)
qed

text \<open>A committee as large as the total weight contains every node whose proof verifies.\<close>

lemma Sortition_all:
  assumes "8 \<le> length h" and "0 < sint w" and "sint w \<le> k"
  shows "Sortition h w k = Some True"
proof -
  have "2 ^ 64 * sint w div sint w \<le> 2 ^ 64 * k div sint w"
    using assms(2,3) by (intro zdiv_mono1) simp_all
  then have "2 ^ 64 \<le> euclid_div (2 ^ 64 * k) (sint w)"
    using assms(2) by (simp add: euclid_div_def)
  moreover have "int (unat (read_be64 h)) < 2 ^ 64"
    using uint_lt2p [of "read_be64 h"] by simp
  moreover have "w \<noteq> 0" using assms(2) by auto
  ultimately show ?thesis
    using assms(1) by (auto simp: Sortition_def)
qed

end
