(* ===== verification/Storage.thy ===== *)
theory Storage
  imports Certificates
begin

text \<open>
  The in-memory block store (storage/store.go, \<open>StorageManager\<close>): blocks by hash and the hash of
  the last block stored at each height.  The interface the block tree uses, what a lookup returns
  after an insertion, is the locale \<open>block_store\<close>, interpreted on this store.
\<close>

section \<open>The interface\<close>

locale block_store =
  fixes put :: "'s \<Rightarrow> block \<Rightarrow> 's"
    and get :: "'s \<Rightarrow> bytes \<Rightarrow> block option"
    and ok :: "block \<Rightarrow> bool"
  assumes get_put: "ok b \<Longrightarrow> get (put s b) h = (if h = b_Hash b then Some b else get s h)"
begin

lemma get_put_same: "ok b \<Longrightarrow> get (put s b) (b_Hash b) = Some b"
  by (simp add: get_put)

lemma get_put_other: "ok b \<Longrightarrow> h \<noteq> b_Hash b \<Longrightarrow> get (put s b) h = get s h"
  by (simp add: get_put)

lemma get_fold:
  "\<forall>b \<in> set bs. ok b \<Longrightarrow> get (fold (\<lambda>b s. put s b) bs s) h =
     (case find (\<lambda>b. b_Hash b = h) (rev bs) of Some b \<Rightarrow> Some b | None \<Rightarrow> get s h)"
  by (induction bs rule: rev_induct) (auto simp: get_put)

text \<open>Insertions of blocks with different hashes commute for every reader.\<close>

lemma put_commute:
  "ok a \<Longrightarrow> ok b \<Longrightarrow> b_Hash a \<noteq> b_Hash b \<Longrightarrow> get (put (put s a) b) h = get (put (put s b) a) h"
  by (simp add: get_put)

lemma put_again: "ok b \<Longrightarrow> get (put (put s b) b) h = get (put s b) h"
  by (simp add: get_put)

end

section \<open>The store\<close>

record storage =
  st_blocks :: "(bytes, block) fmap"
  st_heightToHash :: "(u64, bytes) fmap"
  st_nodeID :: u64

definition NewStorageManager :: "u64 \<Rightarrow> storage" where
  "NewStorageManager nodeID =
     \<lparr> st_blocks = fmempty, st_heightToHash = fmempty, st_nodeID = nodeID \<rparr>"

text \<open>\<open>None\<close> is the error \<open>invalid block\<close> for a nil block or a nil hash.\<close>

definition PutBlock :: "storage \<Rightarrow> block option \<Rightarrow> storage option" where
  "PutBlock sm blk = (case blk of None \<Rightarrow> None
     | Some b \<Rightarrow> if b_Hash b = [] then None
         else Some (sm\<lparr> st_blocks := fmupd (b_Hash b) b (st_blocks sm),
                        st_heightToHash := fmupd (b_Height b) (b_Hash b) (st_heightToHash sm) \<rparr>))"

definition GetBlock :: "storage \<Rightarrow> bytes \<Rightarrow> block option" where
  "GetBlock sm h = fmlookup (st_blocks sm) h"

text \<open>The outer \<open>None\<close> is the error; the inner one a nil block returned without an error.\<close>

definition GetBlockByHeight :: "storage \<Rightarrow> u64 \<Rightarrow> block option option" where
  "GetBlockByHeight sm height = (case fmlookup (st_heightToHash sm) height of
     None \<Rightarrow> None | Some h \<Rightarrow> Some (fmlookup (st_blocks sm) h))"

definition HasBlock :: "storage \<Rightarrow> bytes \<Rightarrow> bool" where
  "HasBlock sm h \<longleftrightarrow> h |\<in>| fmdom (st_blocks sm)"

definition GetLatestBlockHeight :: "storage \<Rightarrow> u64" where
  "GetLatestBlockHeight sm = fold (\<lambda>h m. if m < h then h else m) (gm_keys (st_heightToHash sm)) 0"

definition st_Close :: "storage \<Rightarrow> storage" where
  "st_Close sm = sm\<lparr> st_blocks := fmempty, st_heightToHash := fmempty \<rparr>"

text \<open>\<open>Block.SetPhase\<close> on a block reached through the store changes the stored object.\<close>

definition set_phase :: "storage \<Rightarrow> bytes \<Rightarrow> Phase \<Rightarrow> storage" where
  "set_phase sm h ph = sm\<lparr> st_blocks := (case fmlookup (st_blocks sm) h of
     None \<Rightarrow> st_blocks sm | Some b \<Rightarrow> fmupd h (b\<lparr>b_Phase := ph\<rparr>) (st_blocks sm)) \<rparr>"

definition st_put :: "storage \<Rightarrow> block \<Rightarrow> storage" where
  "st_put sm b = (case PutBlock sm (Some b) of Some sm' \<Rightarrow> sm' | None \<Rightarrow> sm)"

interpretation bst: block_store st_put GetBlock "\<lambda>b. b_Hash b \<noteq> []"
  by unfold_locales (simp add: st_put_def PutBlock_def GetBlock_def)

lemma PutBlock_Some [simp]: "b_Hash b \<noteq> [] \<Longrightarrow> PutBlock sm (Some b) = Some (st_put sm b)"
  by (simp add: st_put_def PutBlock_def)

lemma PutBlock_cases:
  "PutBlock sm blk = (case blk of None \<Rightarrow> None
     | Some b \<Rightarrow> if b_Hash b = [] then None else Some (st_put sm b))"
  by (simp add: st_put_def PutBlock_def split: option.splits)

section \<open>Well-formed stores\<close>

text \<open>Every block is stored under its hash, and every height points to a stored block.\<close>

definition st_inv :: "storage \<Rightarrow> bool" where
  "st_inv sm \<longleftrightarrow> (\<forall>h b. GetBlock sm h = Some b \<longrightarrow> b_Hash b = h) \<and>
     (\<forall>n h. fmlookup (st_heightToHash sm) n = Some h \<longrightarrow> GetBlock sm h \<noteq> None)"

lemma st_inv_hash: "st_inv sm \<Longrightarrow> GetBlock sm h = Some b \<Longrightarrow> b_Hash b = h"
  by (simp add: st_inv_def)

lemma st_inv_New: "st_inv (NewStorageManager n)"
  by (simp add: st_inv_def NewStorageManager_def GetBlock_def)

lemma st_inv_Close: "st_inv (st_Close sm)"
  by (simp add: st_inv_def st_Close_def GetBlock_def)

lemma heights_put [simp]:
  "b_Hash b \<noteq> [] \<Longrightarrow> st_heightToHash (st_put sm b) = fmupd (b_Height b) (b_Hash b) (st_heightToHash sm)"
  by (simp add: st_put_def PutBlock_def)

lemma st_inv_put: "st_inv sm \<Longrightarrow> b_Hash b \<noteq> [] \<Longrightarrow> st_inv (st_put sm b)"
  by (auto simp: st_inv_def bst.get_put split: if_splits)

lemma get_set_phase:
  "GetBlock (set_phase sm h ph) k =
     (if k = h then map_option (\<lambda>b. b\<lparr>b_Phase := ph\<rparr>) (GetBlock sm h) else GetBlock sm k)"
  by (auto simp: GetBlock_def set_phase_def split: option.splits)

lemma heights_set_phase [simp]: "st_heightToHash (set_phase sm h ph) = st_heightToHash sm"
  by (simp add: set_phase_def)

lemma st_inv_set_phase: "st_inv sm \<Longrightarrow> st_inv (set_phase sm h ph)"
  by (auto simp: st_inv_def get_set_phase split: if_splits)

lemma fold_max_keys:
  "fold (\<lambda>h m. if m < h then h else m) xs (m0 :: u64) = Max (insert m0 (set xs))"
proof (induction xs arbitrary: m0)
  case (Cons x xs)
  have "(if m0 < x then x else m0) = max m0 x" by (auto simp: max_def)
  then have "Max (insert (if m0 < x then x else m0) (set xs)) = Max (insert m0 (insert x (set xs)))"
    by (cases "set xs = {}") (simp_all add: max.assoc)
  with Cons show ?case by simp
qed simp

text \<open>Operations of the store as one type, for statements about any sequence of them.\<close>

datatype st_op = OpPut "block option" | OpPhase bytes Phase | OpClose

definition st_step :: "st_op \<Rightarrow> storage \<Rightarrow> storage" where
  "st_step oper sm = (case oper of
     OpPut blk \<Rightarrow> (case PutBlock sm blk of Some sm' \<Rightarrow> sm' | None \<Rightarrow> sm)
   | OpPhase h ph \<Rightarrow> set_phase sm h ph
   | OpClose \<Rightarrow> st_Close sm)"

lemma st_inv_step: "st_inv sm \<Longrightarrow> st_inv (st_step oper sm)"
  by (auto simp: st_step_def PutBlock_cases st_inv_put st_inv_set_phase st_inv_Close
      split: st_op.splits option.splits)

lemma st_inv_run: "st_inv sm \<Longrightarrow> st_inv (fold st_step ops sm)"
  by (induction ops arbitrary: sm) (simp_all add: st_inv_step)

text \<open>
  After any sequence of insertions, phase changes and closes on a new store, a block is found
  only under its own hash, a lookup by height never returns a nil block without an error, and the
  latest height is the greatest height at which a block was stored.
\<close>

theorem store_well_formed:
  "let sm = fold st_step ops (NewStorageManager n)
   in (GetBlock sm h = Some b \<longrightarrow> b_Hash b = h) \<and> GetBlockByHeight sm k \<noteq> Some None \<and>
    GetLatestBlockHeight sm = Max (insert 0 (fset (fmdom (st_heightToHash sm))))"
proof -
  have "st_inv (fold st_step ops (NewStorageManager n))"
    by (rule st_inv_run [OF st_inv_New])
  then show ?thesis
    by (auto simp: Let_def st_inv_def GetBlockByHeight_def GetLatestBlockHeight_def fold_max_keys
        set_gm_keys GetBlock_def split: option.splits)
qed

text \<open>The concrete run: two blocks at one height, the second replacing the first in the index.\<close>

definition tiny_block :: "bytes \<Rightarrow> u64 \<Rightarrow> block" where
  "tiny_block h n = (NewBlock (\<lambda>x. x) 0 n [] [] n 0 0 1 None [])\<lparr>b_Hash := h\<rparr>"

theorem store_well_formed_witness:
  "let sm = fold st_step [OpPut (Some (tiny_block [1] 4)), OpPut (Some (tiny_block [2] 4)), OpPut None]
        (NewStorageManager 0)
   in GetBlock sm [1] = Some (tiny_block [1] 4) \<and> GetBlockByHeight sm 4 \<noteq> Some None \<and>
      GetLatestBlockHeight sm = 4"
  using store_well_formed [of "[OpPut (Some (tiny_block [1] 4)), OpPut (Some (tiny_block [2] 4)), OpPut None]"
      0 "[1]" "tiny_block [1] 4" 4]
  by (simp add: Let_def st_step_def PutBlock_def GetBlock_def tiny_block_def NewStorageManager_def
      NewBlock_def)

end
