(* ===== verification/Block_Tree.thy ===== *)
theory Block_Tree
  imports Storage
begin

text \<open>
  The chain state of a node (consensus/hotstuff/blocktree.go): the highest, locked and commit
  certificates, the three-chain and fast-path commit rules and the voting rule \<open>SafeNode\<close>.
  The commit and confirmation callbacks are returned as a list of events in the order of the
  calls.  \<open>commit\<close> logs the first four bytes of the block hash and panics on a shorter one; a
  panic is the value \<open>Panicked\<close>.
\<close>

section \<open>State\<close>

record block_tree =
  bt_storage :: storage
  bt_hasCommit :: bool
  bt_hasOptimistic :: bool
  bt_highQC :: "quorum_certificate option"
  bt_genericQC :: "quorum_certificate option"
  bt_lockedQC :: "quorum_certificate option"
  bt_commitQC :: "quorum_certificate option"
  bt_fastPathThreshold :: u64

datatype tree_event = OptimisticConfirm block | Committed block

datatype tree_result = PutRejected | Panicked | Processed block_tree "tree_event list"

definition NewBlockTreeWithEpoch :: "storage \<Rightarrow> u64 \<Rightarrow> block_tree" where
  "NewBlockTreeWithEpoch sm genesisEpoch =
     (let genesisQC = NewQuorumCertificate [] 0 genesisEpoch PhaseDecide
      in \<lparr> bt_storage = sm, bt_hasCommit = False, bt_hasOptimistic = False,
           bt_highQC = Some genesisQC, bt_genericQC = Some genesisQC,
           bt_lockedQC = Some genesisQC, bt_commitQC = Some genesisQC,
           bt_fastPathThreshold = 0 \<rparr>)"

definition isQCNewer :: "quorum_certificate option \<Rightarrow> quorum_certificate option \<Rightarrow> bool" where
  "isQCNewer candidate current = (case candidate of None \<Rightarrow> False
     | Some c \<Rightarrow> (case current of None \<Rightarrow> True
         | Some k \<Rightarrow> if qc_Epoch c \<noteq> qc_Epoch k then qc_Epoch k < qc_Epoch c
                     else qc_View k < qc_View c))"

definition SetFastPathThreshold :: "u64 \<Rightarrow> block_tree \<Rightarrow> block_tree" where
  "SetFastPathThreshold n bt = bt\<lparr>bt_fastPathThreshold := n * 9 div 10\<rparr>"

definition SetCommitCallback :: "block_tree \<Rightarrow> block_tree" where
  "SetCommitCallback bt = bt\<lparr>bt_hasCommit := True\<rparr>"

definition SetOptimisticConfirmCallback :: "block_tree \<Rightarrow> block_tree" where
  "SetOptimisticConfirmCallback bt = bt\<lparr>bt_hasOptimistic := True\<rparr>"

section \<open>Processing a block\<close>

text \<open>A certificate with a hash and the stored block it certifies.\<close>

definition certified :: "storage \<Rightarrow> quorum_certificate option \<Rightarrow> (quorum_certificate \<times> block) option" where
  "certified sm j = (case j of None \<Rightarrow> None
     | Some qc \<Rightarrow> if qc_BlockHash qc = [] then None
         else (case GetBlock sm (qc_BlockHash qc) of None \<Rightarrow> None | Some b \<Rightarrow> Some (qc, b)))"

definition view_above :: "quorum_certificate \<Rightarrow> quorum_certificate option \<Rightarrow> bool" where
  "view_above c cur = (case cur of None \<Rightarrow> True | Some k \<Rightarrow> qc_View k < qc_View c)"

definition raise_high :: "block_tree \<Rightarrow> quorum_certificate option \<Rightarrow> block_tree" where
  "raise_high bt j = (if j \<noteq> None \<and> isQCNewer j (bt_highQC bt) then bt\<lparr>bt_highQC := j\<rparr> else bt)"

definition confirm :: "block_tree \<Rightarrow> block \<Rightarrow> tree_event list" where
  "confirm bt b = (if bt_hasOptimistic bt then [OptimisticConfirm b] else [])"

definition try_lock :: "block_tree \<Rightarrow> quorum_certificate \<Rightarrow> block \<Rightarrow> block \<Rightarrow> block_tree" where
  "try_lock bt cand genericBlock lockedBlock =
     (if b_View lockedBlock \<le> qc_View cand \<and> b_View lockedBlock < b_View genericBlock \<and>
         view_above cand (bt_lockedQC bt)
      then bt\<lparr>bt_lockedQC := Some cand\<rparr> else bt)"

text \<open>\<open>commit\<close>: \<open>None\<close> is the panic of \<open>block.Hash[:4]\<close>.\<close>

definition bt_commit :: "block_tree \<Rightarrow> block \<Rightarrow> (block_tree \<times> tree_event list) option" where
  "bt_commit bt b = (if length (b_Hash b) < 4 then None
     else Some (bt\<lparr>bt_storage := set_phase (bt_storage bt) (b_Hash b) PhaseCommit\<rparr>,
       if bt_hasCommit bt then [Committed (b\<lparr>b_Phase := PhaseCommit\<rparr>)] else []))"

text \<open>Raising the commit certificate and committing its block go together.\<close>

definition commit_with ::
  "block_tree \<Rightarrow> quorum_certificate \<Rightarrow> block \<Rightarrow> (block_tree \<times> tree_event list) option" where
  "commit_with bt cand b = (if view_above cand (bt_commitQC bt)
     then bt_commit (bt\<lparr>bt_commitQC := Some cand\<rparr>) b else Some (bt, []))"

definition fast_path ::
  "block_tree \<Rightarrow> quorum_certificate \<Rightarrow> quorum_certificate \<Rightarrow> block \<Rightarrow> (block_tree \<times> tree_event list) option" where
  "fast_path bt justify cand lockedBlock =
     (if 0 < bt_fastPathThreshold bt \<and>
         bt_fastPathThreshold bt \<le> word_of_int (qc_NumSignatures justify)
      then commit_with bt cand lockedBlock else Some (bt, []))"

definition three_chain :: "block_tree \<Rightarrow> block \<Rightarrow> (block_tree \<times> tree_event list) option" where
  "three_chain bt lockedBlock = (case certified (bt_storage bt) (b_Justify lockedBlock) of
     None \<Rightarrow> Some (bt, [])
   | Some (cand, commitBlock) \<Rightarrow>
       if b_View commitBlock \<le> qc_View cand \<and> b_View commitBlock < b_View lockedBlock
       then commit_with bt cand commitBlock else Some (bt, []))"

definition ProcessBlock :: "block_tree \<Rightarrow> block option \<Rightarrow> tree_result" where
  "ProcessBlock bt blk = (case (blk, PutBlock (bt_storage bt) blk) of
     (Some b, Some sm) \<Rightarrow>
       (let bt1 = raise_high (bt\<lparr>bt_storage := sm\<rparr>) (b_Justify b)
        in case certified sm (b_Justify b) of None \<Rightarrow> Processed bt1 []
         | Some (qc, genericBlock) \<Rightarrow>
             (let bt2 = bt1\<lparr>bt_genericQC := Some qc\<rparr>; ev = confirm bt genericBlock
              in case certified sm (b_Justify genericBlock) of None \<Rightarrow> Processed bt2 ev
               | Some (cand, lockedBlock) \<Rightarrow>
                   (case fast_path (try_lock bt2 cand genericBlock lockedBlock) qc cand lockedBlock of
                      None \<Rightarrow> Panicked
                    | Some (bt3, ev1) \<Rightarrow> (case three_chain bt3 lockedBlock of
                        None \<Rightarrow> Panicked
                      | Some (bt4, ev2) \<Rightarrow> Processed bt4 (ev @ ev1 @ ev2)))))
   | _ \<Rightarrow> PutRejected)"

definition OnVoteQC :: "block_tree \<Rightarrow> quorum_certificate option \<Rightarrow> block_tree" where
  "OnVoteQC bt qcp = (case qcp of None \<Rightarrow> bt | Some qc \<Rightarrow>
     (let bt1 = (if isQCNewer qcp (bt_highQC bt) then bt\<lparr>bt_highQC := qcp\<rparr> else bt)
      in case bt_genericQC bt1 of None \<Rightarrow> bt1\<lparr>bt_genericQC := qcp\<rparr>
       | Some g \<Rightarrow> if qc_Epoch g < qc_Epoch qc \<or> (qc_Epoch qc = qc_Epoch g \<and> qc_View g \<le> qc_View qc)
           then bt1\<lparr>bt_genericQC := qcp\<rparr> else bt1))"

section \<open>The voting rule\<close>

text \<open>The parent link the walk follows: the parent hash, or the certified hash when it is empty.\<close>

definition parent_link :: "block \<Rightarrow> bytes" where
  "parent_link b = (if b_Parent b = [] then (case b_Justify b of Some qc \<Rightarrow> qc_BlockHash qc | None \<Rightarrow> [])
     else b_Parent b)"

definition unvisited :: "storage \<Rightarrow> bytes fset \<Rightarrow> nat" where
  "unvisited sm visited = fcard (fmdom (st_blocks sm) |-| visited)"

lemma unvisited_less:
  assumes "GetBlock sm c = Some b" and "c |\<notin>| visited"
  shows "unvisited sm (finsert c visited) < unvisited sm visited"
proof -
  have "c |\<in>| fmdom (st_blocks sm) |-| visited"
    using assms by (auto simp: GetBlock_def intro: fmdomI)
  then have "fmdom (st_blocks sm) |-| finsert c visited |\<subset>| fmdom (st_blocks sm) |-| visited"
    by auto
  then show ?thesis
    unfolding unvisited_def by (rule pfsubset_fcard_mono)
qed

function walk :: "storage \<Rightarrow> bytes \<Rightarrow> bytes fset \<Rightarrow> bytes \<Rightarrow> bool" where
  "walk sm target visited current =
     (if current = [] then False
      else if current = target then True
      else if current |\<in>| visited then False
      else (case GetBlock sm current of None \<Rightarrow> False
        | Some p \<Rightarrow> walk sm target (finsert current visited) (parent_link p)))"
  by pat_completeness auto
termination
  by (relation "measure (\<lambda>(sm, target, visited, current). unvisited sm visited)")
    (auto simp: unvisited_less)

declare walk.simps [simp del]

definition extendsLockedBlock :: "storage \<Rightarrow> block option \<Rightarrow> quorum_certificate option \<Rightarrow> bool" where
  "extendsLockedBlock sm blk locked = (case blk of None \<Rightarrow> False
     | Some b \<Rightarrow> (case locked of None \<Rightarrow> True
         | Some l \<Rightarrow> qc_BlockHash l = [] \<or>
             (case b_Justify b of Some j \<Rightarrow> qc_BlockHash j = qc_BlockHash l | None \<Rightarrow> False) \<or>
             walk sm (qc_BlockHash l) {||} (parent_link b)))"

definition SafeNode :: "block_tree \<Rightarrow> block option \<Rightarrow> bool" where
  "SafeNode bt blk = (case blk of None \<Rightarrow> False
     | Some b \<Rightarrow> (case bt_lockedQC bt of None \<Rightarrow> True
         | Some l \<Rightarrow> (case b_Justify b of Some j \<Rightarrow> qc_View l < qc_View j | None \<Rightarrow> False) \<or>
             extendsLockedBlock (bt_storage bt) blk (bt_lockedQC bt)))"

section \<open>The walk decides the ancestor relation\<close>

inductive chain_to :: "storage \<Rightarrow> bytes \<Rightarrow> bytes \<Rightarrow> bool" for sm target where
  here: "target \<noteq> [] \<Longrightarrow> chain_to sm target target"
| up: "c \<noteq> [] \<Longrightarrow> GetBlock sm c = Some p \<Longrightarrow> chain_to sm target (parent_link p) \<Longrightarrow> chain_to sm target c"

inductive_cases chain_toE: "chain_to sm target c"

lemma walk_sound: "walk sm target visited c \<Longrightarrow> chain_to sm target c"
proof (induction sm target visited c rule: walk.induct)
  case (1 sm target visited c)
  from "1.prems" show ?case
    by (subst (asm) walk.simps) (auto split: if_splits option.splits intro: chain_to.intros "1.IH")
qed

text \<open>The visited hashes are not the target and their links stay among them or lead to \<open>c\<close>.\<close>

definition trail :: "storage \<Rightarrow> bytes \<Rightarrow> bytes fset \<Rightarrow> bytes \<Rightarrow> bool" where
  "trail sm target visited c \<longleftrightarrow> (\<forall>v. v |\<in>| visited \<longrightarrow> v \<noteq> target \<and>
     (\<exists>p. GetBlock sm v = Some p \<and> (parent_link p = c \<or> parent_link p |\<in>| visited)))"

lemma trail_step:
  "trail sm target visited c \<Longrightarrow> c \<noteq> target \<Longrightarrow> GetBlock sm c = Some p \<Longrightarrow>
   trail sm target (finsert c visited) (parent_link p)"
  by (auto simp: trail_def)

lemma trail_closed:
  assumes "chain_to sm target v" and "v |\<in>| visited" and "trail sm target visited c" and "c |\<in>| visited"
  shows False
  using assms by (induction rule: chain_to.induct) (fastforce simp: trail_def)+

lemma walk_complete: "chain_to sm target c \<Longrightarrow> trail sm target visited c \<Longrightarrow> walk sm target visited c"
proof (induction sm target visited c rule: walk.induct)
  case (1 sm target visited c)
  show ?case
  proof (cases "c = target")
    case True
    with "1.prems"(1) show ?thesis
      by (subst walk.simps) (auto elim: chain_toE)
  next
    case False
    with "1.prems"(1) obtain p where p: "c \<noteq> []" "GetBlock sm c = Some p" "chain_to sm target (parent_link p)"
      by (auto elim: chain_toE)
    have "c |\<notin>| visited"
      using trail_closed [OF "1.prems"(1) _ "1.prems"(2)] by blast
    with p False have "walk sm target (finsert c visited) (parent_link p)"
      using "1.IH" trail_step [OF "1.prems"(2)] by blast
    with p False \<open>c |\<notin>| visited\<close> show ?thesis
      by (subst walk.simps) simp
  qed
qed

lemma walk_iff: "walk sm target {||} c \<longleftrightarrow> chain_to sm target c"
  using walk_sound walk_complete by (auto simp: trail_def)

text \<open>
  C14: the loop that follows parent links ends on every store, cyclic ones included, and the voting
  rule accepts a block exactly when its certificate is above the lock or certifies the locked
  block, or the locked block is reached from it by parent links.
\<close>

theorem SafeNode_iff:
  "SafeNode bt (Some b) \<longleftrightarrow> (case bt_lockedQC bt of None \<Rightarrow> True
     | Some l \<Rightarrow> qc_BlockHash l = [] \<or>
         (\<exists>j. b_Justify b = Some j \<and> (qc_View l < qc_View j \<or> qc_BlockHash j = qc_BlockHash l)) \<or>
         chain_to (bt_storage bt) (qc_BlockHash l) (parent_link b))"
  by (auto simp: SafeNode_def extendsLockedBlock_def walk_iff split: option.splits)

section \<open>Certificates only rise\<close>

definition qview :: "quorum_certificate option \<Rightarrow> nat" where
  "qview q = (case q of None \<Rightarrow> 0 | Some k \<Rightarrow> Suc (unat (qc_View k)))"

definition commits :: "tree_event list \<Rightarrow> block list" where
  "commits ev = List.map_filter (\<lambda>e. case e of Committed b \<Rightarrow> Some b | _ \<Rightarrow> None) ev"

lemma commits_simps [simp]:
  "commits [] = []" "commits (Committed b # ev) = b # commits ev"
  "commits (OptimisticConfirm b # ev) = commits ev" "commits (ev1 @ ev2) = commits ev1 @ commits ev2"
  by (simp_all add: commits_def List.map_filter_def)

lemma commits_confirm [simp]: "commits (confirm bt b) = []"
  by (simp add: confirm_def)

lemma qview_above: "view_above c cur \<longleftrightarrow> qview cur < Suc (unat (qc_View c))"
  by (auto simp: view_above_def qview_def word_less_nat_alt split: option.splits)

lemma isQCNewer_irrefl: "\<not> isQCNewer q q"
  by (simp add: isQCNewer_def split: option.splits)

lemma isQCNewer_asym: "isQCNewer p q \<Longrightarrow> \<not> isQCNewer q p"
  by (auto simp: isQCNewer_def split: option.splits if_splits)

lemma isQCNewer_trans: "isQCNewer p q \<Longrightarrow> isQCNewer q r \<Longrightarrow> isQCNewer p r"
  by (auto simp: isQCNewer_def split: option.splits if_splits)

lemma isQCNewer_not_trans: "\<not> isQCNewer p q \<Longrightarrow> \<not> isQCNewer q r \<Longrightarrow> \<not> isQCNewer p r"
  by (auto simp: isQCNewer_def split: option.splits if_splits)

text \<open>The relation between the state before and after an operation, with the commits it made.\<close>

definition advances :: "block_tree \<Rightarrow> block list \<Rightarrow> block_tree \<Rightarrow> bool" where
  "advances bt cs bt' \<longleftrightarrow> \<not> isQCNewer (bt_highQC bt) (bt_highQC bt') \<and>
     qview (bt_lockedQC bt) \<le> qview (bt_lockedQC bt') \<and>
     qview (bt_commitQC bt) + length cs \<le> qview (bt_commitQC bt')"

lemma advances_refl: "advances bt [] bt"
  by (simp add: advances_def isQCNewer_irrefl)

lemma advances_trans: "advances a xs b \<Longrightarrow> advances b ys c \<Longrightarrow> advances a (xs @ ys) c"
  unfolding advances_def using isQCNewer_not_trans by force

lemma advances_storage: "advances bt cs bt' \<Longrightarrow> advances (bt\<lparr>bt_storage := sm\<rparr>) cs bt'"
  by (simp add: advances_def)

lemma advances_raise_high: "advances bt [] (raise_high bt j)"
  by (auto simp: advances_def raise_high_def isQCNewer_irrefl isQCNewer_asym)

lemma advances_try_lock: "advances bt [] (try_lock bt cand gb lb)"
  by (auto simp: advances_def try_lock_def isQCNewer_irrefl qview_above qview_def)

lemma advances_commit_with:
  "commit_with bt cand b = Some (bt', ev) \<Longrightarrow> advances bt (commits ev) bt'"
  by (auto simp: commit_with_def bt_commit_def advances_def isQCNewer_irrefl qview_above qview_def
      split: if_splits)

lemma advances_fast_path:
  "fast_path bt qc cand b = Some (bt', ev) \<Longrightarrow> advances bt (commits ev) bt'"
  by (auto simp: fast_path_def advances_refl advances_commit_with split: if_splits)

lemma advances_three_chain:
  "three_chain bt b = Some (bt', ev) \<Longrightarrow> advances bt (commits ev) bt'"
  by (auto simp: three_chain_def advances_refl advances_commit_with split: if_splits option.splits)

lemma advances_generic: "advances bt cs bt' \<Longrightarrow> advances bt cs (bt'\<lparr>bt_genericQC := g\<rparr>)"
  by (simp add: advances_def)

lemma advances_ProcessBlock:
  assumes "ProcessBlock bt blk = Processed bt' ev"
  shows "advances bt (commits ev) bt'"
proof -
  obtain b sm where b: "blk = Some b" "PutBlock (bt_storage bt) blk = Some sm"
    using assms by (auto simp: ProcessBlock_def split: option.splits prod.splits)
  let ?bt1 = "raise_high (bt\<lparr>bt_storage := sm\<rparr>) (b_Justify b)"
  have 1: "advances bt [] ?bt1"
    using advances_raise_high [of "bt\<lparr>bt_storage := sm\<rparr>"] by (simp add: advances_def)
  show ?thesis
  proof (cases "certified sm (b_Justify b)")
    case None
    with assms b 1 show ?thesis by (auto simp: ProcessBlock_def Let_def)
  next
    case (Some qg)
    obtain qc gb where [simp]: "qg = (qc, gb)" by (cases qg)
    let ?bt2 = "?bt1\<lparr>bt_genericQC := Some qc\<rparr>"
    have 2: "advances bt [] ?bt2" by (rule advances_generic [OF 1])
    show ?thesis
    proof (cases "certified sm (b_Justify gb)")
      case None
      with assms b Some 2 show ?thesis by (auto simp: ProcessBlock_def Let_def)
    next
      case (Some cl)
      obtain cand lb where [simp]: "cl = (cand, lb)" by (cases cl)
      obtain bt3 ev1 bt4 ev2 where
        fp: "fast_path (try_lock ?bt2 cand gb lb) qc cand lb = Some (bt3, ev1)" and
        tc: "three_chain bt3 lb = Some (bt4, ev2)" and
        res: "bt' = bt4" "ev = confirm bt gb @ ev1 @ ev2"
        using assms b Some \<open>certified sm (b_Justify b) = Some qg\<close>
        by (auto simp: ProcessBlock_def Let_def split: option.splits)
      note advances_trans [OF advances_trans [OF advances_trans [OF 2 advances_try_lock]
            advances_fast_path [OF fp]] advances_three_chain [OF tc]]
      then show ?thesis by (simp add: res)
    qed
  qed
qed

text \<open>A run of the tree: blocks and vote certificates in the order the node handles them.\<close>

datatype tree_op = TreeBlock "block option" | TreeQC "quorum_certificate option"

fun tree_run :: "tree_op list \<Rightarrow> block_tree \<Rightarrow> (block_tree \<times> tree_event list) option" where
  "tree_run [] bt = Some (bt, [])"
| "tree_run (TreeQC q # ops) bt = tree_run ops (OnVoteQC bt q)"
| "tree_run (TreeBlock blk # ops) bt = (case ProcessBlock bt blk of
     PutRejected \<Rightarrow> tree_run ops bt
   | Panicked \<Rightarrow> None
   | Processed bt1 ev \<Rightarrow> (case tree_run ops bt1 of None \<Rightarrow> None
       | Some (bt2, ev') \<Rightarrow> Some (bt2, ev @ ev')))"

lemma advances_OnVoteQC: "advances bt [] (OnVoteQC bt q)"
proof (cases q)
  case (Some qc)
  define bt1 where "bt1 = (if isQCNewer q (bt_highQC bt) then bt\<lparr>bt_highQC := q\<rparr> else bt)"
  have "advances bt [] bt1"
    using isQCNewer_asym [of q "bt_highQC bt"]
    by (simp add: bt1_def advances_def isQCNewer_irrefl)
  moreover have "OnVoteQC bt q \<in> {bt1, bt1\<lparr>bt_genericQC := q\<rparr>}"
    by (simp add: OnVoteQC_def Some bt1_def Let_def split: option.split)
  ultimately show ?thesis
    by (auto intro: advances_generic)
qed (simp add: OnVoteQC_def advances_refl)

lemma advances_run: "tree_run ops bt = Some (bt', ev) \<Longrightarrow> advances bt (commits ev) bt'"
proof (induction ops bt arbitrary: bt' ev rule: tree_run.induct)
  case (2 q ops bt)
  then show ?case
    using advances_trans [OF advances_OnVoteQC] by fastforce
next
  case (3 blk ops bt)
  show ?case
  proof (cases "ProcessBlock bt blk")
    case (Processed bt1 ev1)
    with "3.prems" obtain ev2 where "tree_run ops bt1 = Some (bt', ev2)" "ev = ev1 @ ev2"
      by (auto split: option.splits)
    with "3.IH"(2) Processed advances_trans [OF advances_ProcessBlock [OF Processed]]
    show ?thesis by simp
  qed (use "3.prems" "3.IH"(1) in auto)
qed (simp add: advances_refl)

text \<open>
  Over every sequence of blocks and certificates the highest certificate never becomes older
  in the order by epoch and view, the locked and the commit view never decrease, and each commit
  raises the commit view: the number of blocks handed to the commit callback is at most the
  growth of the commit view.
\<close>

theorem tree_run_monotone:
  assumes "tree_run ops bt = Some (bt', ev)"
  shows "\<not> isQCNewer (bt_highQC bt) (bt_highQC bt') \<and>
    qview (bt_lockedQC bt) \<le> qview (bt_lockedQC bt') \<and>
    qview (bt_commitQC bt) + length (commits ev) \<le> qview (bt_commitQC bt')"
  using advances_run [OF assms] by (simp add: advances_def)

section \<open>Which blocks are committed\<close>

lemma storage_frames [framing]:
  "bt_storage (raise_high bt j) = bt_storage bt" "bt_storage (try_lock bt c g l) = bt_storage bt"
  "bt_fastPathThreshold (raise_high bt j) = bt_fastPathThreshold bt"
  "bt_fastPathThreshold (try_lock bt c g l) = bt_fastPathThreshold bt"
  by (simp_all add: raise_high_def try_lock_def)

lemma commits_commit_with:
  "commit_with bt cand b = Some (bt', ev) \<Longrightarrow> c \<in> set (commits ev) \<Longrightarrow>
   view_above cand (bt_commitQC bt) \<and> c = b\<lparr>b_Phase := PhaseCommit\<rparr>"
  by (auto simp: commit_with_def bt_commit_def split: if_splits)

definition same_chain :: "block \<Rightarrow> block \<Rightarrow> bool" where
  "same_chain a b \<longleftrightarrow> a\<lparr>b_Phase := PhaseCommit\<rparr> = b\<lparr>b_Phase := PhaseCommit\<rparr>"

lemma certified_fast_path:
  assumes "fast_path bt qc cand lb = Some (bt', ev)" and "certified (bt_storage bt') j = Some (k, x)"
  shows "\<exists>y. certified (bt_storage bt) j = Some (k, y) \<and> same_chain x y"
  using assms by (auto simp: fast_path_def commit_with_def bt_commit_def certified_def
      get_set_phase same_chain_def split: if_splits option.splits)

text \<open>
  C13: a block reaches the commit callback only as the head of a certified chain: the processed
  block certifies a stored block, which certifies a second one, and either the first certificate
  reports the fast-path number of signatures and the second block is committed, or the second
  block certifies a third one of a smaller view and that one is committed.  In both cases the
  committing certificate's view is above the commit view before.
\<close>

theorem commit_needs_certified_chain:
  assumes "ProcessBlock bt (Some b) = Processed bt' ev" and "c \<in> set (commits ev)"
  shows "\<exists>qc gb cand lb. certified (st_put (bt_storage bt) b) (b_Justify b) = Some (qc, gb) \<and>
    certified (st_put (bt_storage bt) b) (b_Justify gb) = Some (cand, lb) \<and>
    ((0 < bt_fastPathThreshold bt \<and> bt_fastPathThreshold bt \<le> word_of_int (qc_NumSignatures qc) \<and>
        qview (bt_commitQC bt) < qview (Some cand) \<and> same_chain c lb) \<or>
     (\<exists>k cb. certified (st_put (bt_storage bt) b) (b_Justify lb) = Some (k, cb) \<and>
        b_View cb < b_View lb \<and> b_View cb \<le> qc_View k \<and>
        qview (bt_commitQC bt) < qview (Some k) \<and> same_chain c cb))"
proof -
  let ?sm = "st_put (bt_storage bt) b"
  let ?bt2 = "\<lambda>qc. (raise_high (bt\<lparr>bt_storage := ?sm\<rparr>) (b_Justify b))\<lparr>bt_genericQC := Some qc\<rparr>"
  have h: "b_Hash b \<noteq> []"
    using assms(1) by (auto simp: ProcessBlock_def PutBlock_cases)
  from assms h obtain qc gb cand lb bt3 ev1 ev2 where
    q: "certified ?sm (b_Justify b) = Some (qc, gb)" "certified ?sm (b_Justify gb) = Some (cand, lb)" and
    fp: "fast_path (try_lock (?bt2 qc) cand gb lb) qc cand lb = Some (bt3, ev1)" and
    tc: "three_chain bt3 lb = Some (bt', ev2)" and ev: "ev = confirm bt gb @ ev1 @ ev2"
    by (auto simp: ProcessBlock_def Let_def split: option.splits)
  have com: "bt_commitQC (try_lock (?bt2 qc) cand gb lb) = bt_commitQC bt"
    by (simp add: try_lock_def raise_high_def)
  consider "c \<in> set (commits ev1)" | "c \<in> set (commits ev2)"
    using assms(2) ev by auto
  then show ?thesis
  proof cases
    case 1
    with commits_commit_with fp
    have "0 < bt_fastPathThreshold bt \<and> bt_fastPathThreshold bt \<le> word_of_int (qc_NumSignatures qc) \<and>
        view_above cand (bt_commitQC bt) \<and> c = lb\<lparr>b_Phase := PhaseCommit\<rparr>"
      by (fastforce simp: fast_path_def framing com split: if_splits)
    with q show ?thesis
      by (auto simp: qview_above same_chain_def qview_def [of "Some cand"])
  next
    case 2
    with tc obtain k cb where k: "certified (bt_storage bt3) (b_Justify lb) = Some (k, cb)"
      "b_View cb \<le> qc_View k" "b_View cb < b_View lb" "commit_with bt3 k cb = Some (bt', ev2)"
      by (auto simp: three_chain_def split: option.splits if_splits)
    from commits_commit_with [OF k(4) 2] have k5: "c = cb\<lparr>b_Phase := PhaseCommit\<rparr>"
      and k4: "view_above k (bt_commitQC bt3)" by auto
    from certified_fast_path [OF fp k(1)] obtain y where
      y: "certified ?sm (b_Justify lb) = Some (k, y)" "same_chain cb y"
      by (auto simp: framing)
    then have "b_View y = b_View cb" "same_chain c y"
      using k5 by (auto simp: same_chain_def dest: arg_cong [where f = b_View])
    moreover have "qview (bt_commitQC bt) < qview (Some k)"
      using advances_fast_path [OF fp] k4 com by (simp add: advances_def qview_above qview_def [of "Some k"])
    ultimately show ?thesis
      using q y k by auto
  qed
qed

section \<open>Concrete chains\<close>

definition cert :: "u8 \<Rightarrow> u64 \<Rightarrow> int \<Rightarrow> quorum_certificate" where
  "cert h v n = (NewQuorumCertificate (if h = 0 then [] else replicate 32 h) v 0 PhasePrepare)
     \<lparr>qc_NumSignatures := n\<rparr>"

text \<open>The block with hash \<open>h, h, ...\<close> of view \<open>v\<close> that extends the block certified by \<open>cert j\<close>.\<close>

definition chain_block :: "u8 \<Rightarrow> u64 \<Rightarrow> u8 \<Rightarrow> u64 \<Rightarrow> int \<Rightarrow> block" where
  "chain_block h v j jv n =
     (NewBlock (\<lambda>x. x) 0 v (if j = 0 then [] else replicate 32 j) [] v 0 0 1 (Some (cert j jv n)) [])
     \<lparr>b_Hash := replicate 32 h\<rparr>"

definition fresh_tree :: "u64 \<Rightarrow> block_tree" where
  "fresh_tree n = SetFastPathThreshold n (SetCommitCallback
     (NewBlockTreeWithEpoch (NewStorageManager 0) 0))"

text \<open>A node that processes a proposal only when the voting rule accepts it.\<close>

fun safe_run :: "block list \<Rightarrow> block_tree \<Rightarrow> (block_tree \<times> block list) option" where
  "safe_run [] bt = Some (bt, [])"
| "safe_run (b # bs) bt = (if SafeNode bt (Some b) then
     (case ProcessBlock bt (Some b) of
        Processed bt1 ev \<Rightarrow> (case safe_run bs bt1 of None \<Rightarrow> None
          | Some (bt2, cs) \<Rightarrow> Some (bt2, commits ev @ cs))
      | _ \<Rightarrow> None) else None)"

definition four_in_a_row :: "block list" where
  "four_in_a_row = [chain_block 1 1 0 0 0, chain_block 2 2 1 1 3, chain_block 3 3 2 2 3,
     chain_block 4 4 3 3 3]"

theorem tree_run_monotone_witness:
  "case tree_run (map (TreeBlock \<circ> Some) four_in_a_row) (fresh_tree 0) of
     Some (bt', ev) \<Rightarrow> length (commits ev) = 1 \<and> qview (bt_commitQC bt') = 2 \<and>
       qview (bt_commitQC (fresh_tree 0)) + length (commits ev) \<le> qview (bt_commitQC bt')
   | None \<Rightarrow> False"
proof -
  have run: "case tree_run (map (TreeBlock \<circ> Some) four_in_a_row) (fresh_tree 0) of
     Some (bt', ev) \<Rightarrow> length (commits ev) = 1 \<and> qview (bt_commitQC bt') = 2 | None \<Rightarrow> False"
    by code_simp
  then obtain bt' ev where eq: "tree_run (map (TreeBlock \<circ> Some) four_in_a_row) (fresh_tree 0) = Some (bt', ev)"
    by (auto split: option.splits)
  with run tree_run_monotone [OF eq] show ?thesis by simp
qed

theorem commit_needs_certified_chain_witness:
  "\<exists>(bt :: block_tree) ev c. map b_View (commits ev) = [1] \<and> c \<in> set (commits ev) \<and>
     (\<exists>qc gb cand lb. certified (st_put (bt_storage bt) (chain_block 4 4 3 3 3))
          (b_Justify (chain_block 4 4 3 3 3)) = Some (qc, gb) \<and>
        certified (st_put (bt_storage bt) (chain_block 4 4 3 3 3)) (b_Justify gb) = Some (cand, lb))"
proof -
  let ?b4 = "chain_block 4 4 3 3 3"
  have run: "case tree_run (map (TreeBlock \<circ> Some) (take 3 four_in_a_row)) (fresh_tree 0) of
     None \<Rightarrow> False | Some (bt, _) \<Rightarrow> (case ProcessBlock bt (Some ?b4) of
       Processed bt' ev \<Rightarrow> map b_View (commits ev) = [1] | _ \<Rightarrow> False)"
    by code_simp
  then obtain bt bt' ev where p: "ProcessBlock bt (Some ?b4) = Processed bt' ev"
    and v: "map b_View (commits ev) = [1]"
    by (auto split: option.splits tree_result.splits)
  then obtain c where c: "c \<in> set (commits ev)" by (cases "commits ev") auto
  from commit_needs_certified_chain [OF p c] obtain qc gb cand lb where
    "certified (st_put (bt_storage bt) ?b4) (b_Justify ?b4) = Some (qc, gb)"
    "certified (st_put (bt_storage bt) ?b4) (b_Justify gb) = Some (cand, lb)"
    by (elim exE conjE)
  with v c show ?thesis by iprover
qed

text \<open>
  The three-chain rule does not ask for consecutive views.  Two nodes of the same network,
  each of which processes only proposals its voting rule accepts, and which share a quorum of four
  nodes' acceptances for every certified block, commit the conflicting blocks 1 and 2: the second
  node never sees block 5 and later follows the chain 2, 6, 7, 8 whose certificates are above its
  lock.
\<close>

theorem view_gaps_commit_conflicting_blocks:
  "let common = [chain_block 1 1 0 0 0, chain_block 2 2 0 0 0, chain_block 3 3 1 1 3,
          chain_block 4 4 3 3 3];
       A = safe_run (common @ [chain_block 5 5 4 4 3]) (fresh_tree 0);
       B = safe_run (common @ [chain_block 6 6 2 2 3, chain_block 7 7 6 6 3, chain_block 8 8 7 7 3])
             (fresh_tree 0)
   in case (A, B) of
        (Some (a, [x]), Some (b, [y])) \<Rightarrow> b_Hash x = replicate 32 1 \<and> b_Hash y = replicate 32 2 \<and>
          \<not> walk (bt_storage b) (b_Hash x) {||} (parent_link y) \<and>
          \<not> walk (bt_storage b) (b_Hash y) {||} (parent_link x)
      | _ \<Rightarrow> False"
  by code_simp

text \<open>
  \<open>commit\<close> hands over one block and not its uncommitted ancestors.  With ten validators
  (fast path at nine signatures), a certificate with nine signatures for block 3 commits block 2
  before block 1 has been committed, and no later block of the chain commits block 1 any more.
\<close>

theorem fast_path_skips_ancestor:
  "case safe_run [chain_block 1 1 0 0 0, chain_block 2 2 1 1 7, chain_block 3 3 2 2 7,
       chain_block 4 4 3 3 9, chain_block 5 5 4 4 7, chain_block 6 6 5 5 7] (fresh_tree 10) of
     None \<Rightarrow> False
   | Some (bt, cs) \<Rightarrow> map b_View cs = [2, 3] \<and> qview (bt_commitQC bt) = 4 \<and>
       walk (bt_storage bt) (replicate 32 1) {||} (replicate 32 2)"
  by code_simp

end
