(* ===== verification/Pacemaker.thy ===== *)
theory Pacemaker
  imports Certificates
begin

text \<open>
  The pacemaker (consensus/pacemaker/pacemaker.go): the current view and the leader of a view.
  The timer is not part of the state: starting it is the flag of \<open>AdvanceView\<close>'s result, and its
  expiry sends the view of that moment to the engine.  A leader selector installed at run time is
  an argument of type \<open>(u64 \<Rightarrow> u64) option\<close>.  Durations are nanoseconds.
\<close>

section \<open>Operations\<close>

record pacemaker =
  pm_currentView :: u64
  pm_validators :: "u64 list"
  pm_laneID :: u64
  pm_leaderSelector :: "(u64 \<Rightarrow> u64) option"
  pm_viewTimeout :: int

definition NewPacemakerWithLane :: "u64 list \<Rightarrow> int \<Rightarrow> u64 \<Rightarrow> pacemaker" where
  "NewPacemakerWithLane validators timeoutMs laneID =
     \<lparr> pm_currentView = 1, pm_validators = validators, pm_laneID = laneID,
       pm_leaderSelector = None, pm_viewTimeout = timeoutMs * 1000000 \<rparr>"

text \<open>The round-robin index; the sum wraps at \<open>2 ^ 64\<close>.\<close>

definition leader_index :: "pacemaker \<Rightarrow> u64 \<Rightarrow> nat" where
  "leader_index pm view = unat ((view - 1 + pm_laneID pm) mod of_nat (length (pm_validators pm)))"

definition GetLeader :: "pacemaker \<Rightarrow> u64 \<Rightarrow> u64" where
  "GetLeader pm view0 =
     (if pm_validators pm = [] then 0
      else let view = (if view0 = 0 then 1 else view0)
        in case pm_leaderSelector pm of Some fn \<Rightarrow> fn view
           | None \<Rightarrow> pm_validators pm ! leader_index pm view)"

definition AdvanceView :: "u64 \<Rightarrow> pacemaker \<Rightarrow> pacemaker \<times> bool" where
  "AdvanceView qcView pm = (if pm_currentView pm \<le> qcView
     then (pm\<lparr>pm_currentView := qcView + 1\<rparr>, True) else (pm, False))"

definition SetTimeout :: "int \<Rightarrow> pacemaker \<Rightarrow> pacemaker" where
  "SetTimeout d pm = (if 0 < d then pm\<lparr>pm_viewTimeout := d\<rparr> else pm)"

definition UpdateValidators :: "u64 list \<Rightarrow> pacemaker \<Rightarrow> pacemaker" where
  "UpdateValidators vs pm = pm\<lparr>pm_validators := vs\<rparr>"

definition SetLeaderSelector :: "(u64 \<Rightarrow> u64) option \<Rightarrow> pacemaker \<Rightarrow> pacemaker" where
  "SetLeaderSelector fn pm = pm\<lparr>pm_leaderSelector := fn\<rparr>"

section \<open>Views\<close>

lemma AdvanceView_view:
  "pm_currentView (fst (AdvanceView q pm)) = (if pm_currentView pm \<le> q then q + 1 else pm_currentView pm)"
  by (simp add: AdvanceView_def)

lemma AdvanceView_frame [framing]:
  "pm_validators (fst (AdvanceView q pm)) = pm_validators pm"
  "pm_laneID (fst (AdvanceView q pm)) = pm_laneID pm"
  "pm_leaderSelector (fst (AdvanceView q pm)) = pm_leaderSelector pm"
  by (simp_all add: AdvanceView_def)

lemma AdvanceView_advanced: "snd (AdvanceView q pm) \<longleftrightarrow> pm_currentView pm \<le> q"
  by (simp add: AdvanceView_def)

lemma AdvanceView_mono:
  "q < u64_max \<Longrightarrow> pm_currentView pm \<le> pm_currentView (fst (AdvanceView q pm))"
  using u64_succ_less [of q] by (auto simp: AdvanceView_view)

lemma AdvanceView_above: "q < u64_max \<Longrightarrow> q < pm_currentView (fst (AdvanceView q pm))"
  using u64_succ_less [of q] by (auto simp: AdvanceView_view not_le)

lemma fold_AdvanceView:
  assumes "\<forall>q \<in> set qs. q < u64_max"
  shows "pm_currentView (fold (\<lambda>q pm. fst (AdvanceView q pm)) qs pm) =
    Max (insert (pm_currentView pm) ((\<lambda>q. q + 1) ` set qs))"
  using assms
proof (induction qs arbitrary: pm)
  case (Cons q qs)
  have "(if pm_currentView pm \<le> q then q + 1 else pm_currentView pm) = max (pm_currentView pm) (q + 1)"
    using Cons.prems u64_le_succ [of "pm_currentView pm" q] u64_less_succ_iff [of q "pm_currentView pm"]
    by (auto simp: max_def)
  moreover have "Max (insert (max c d) S) = Max (insert c (insert d S))" if "finite S" for c d :: u64 and S
    using that by (cases "S = {}") (simp_all add: max.assoc)
  ultimately show ?case
    using Cons by (simp add: AdvanceView_view)
qed simp

text \<open>
  Certificates move the view to just above the highest one seen, in whatever order they are
  handled: the view never decreases and after any sequence of certificates of views below the
  largest integer it is the maximum of the initial view and the successors of their views.
\<close>

theorem AdvanceView_is_maximum:
  assumes "\<forall>q \<in> set qs. q < u64_max"
  shows "pm_currentView (fold (\<lambda>q pm. fst (AdvanceView q pm)) qs pm) =
      Max (insert (pm_currentView pm) ((\<lambda>q. q + 1) ` set qs)) \<and>
    pm_currentView pm \<le> pm_currentView (fold (\<lambda>q pm. fst (AdvanceView q pm)) qs pm)"
  by (simp add: fold_AdvanceView [OF assms])

theorem AdvanceView_is_maximum_witness:
  "pm_currentView (fold (\<lambda>q pm. fst (AdvanceView q pm)) [3, 9, 4] (NewPacemakerWithLane [1, 2] 100 0)) = 10"
  using AdvanceView_is_maximum [of "[3, 9, 4]" "NewPacemakerWithLane [1, 2] 100 0"]
  by (simp add: NewPacemakerWithLane_def AdvanceView_def)

text \<open>
  At the largest view the counter wraps: a certificate of view \<open>2 ^ 64 - 1\<close> is accepted from
  every view, and the current view becomes 0.
\<close>

theorem AdvanceView_wraps:
  "pm_currentView (fst (AdvanceView u64_max pm)) = 0 \<and> snd (AdvanceView u64_max pm)"
  by (simp add: AdvanceView_def)

section \<open>Leaders\<close>

lemma unat_leader_index:
  assumes "unat (view - 1) + unat (pm_laneID pm) < 2 ^ 64"
    and "pm_validators pm \<noteq> []" and "length (pm_validators pm) < 2 ^ 64"
  shows "leader_index pm view =
    (unat (view - 1) + unat (pm_laneID pm)) mod length (pm_validators pm)"
proof -
  have "unat (view - 1 + pm_laneID pm) = unat (view - 1) + unat (pm_laneID pm)"
    using assms(1) by (simp add: unat_add_lem [symmetric])
  moreover have "unat (of_nat (length (pm_validators pm)) :: u64) = length (pm_validators pm)"
    using assms(3) by (simp add: unat_of_nat_small)
  ultimately show ?thesis
    by (simp add: leader_index_def unat_mod)
qed

lemma leader_index_less:
  "pm_validators pm \<noteq> [] \<Longrightarrow> length (pm_validators pm) < 2 ^ 64 \<Longrightarrow>
   leader_index pm view < length (pm_validators pm)"
  by (simp add: leader_index_def unat_mod unat_of_nat_small)

lemma window_bij:
  assumes "0 < (n :: nat)"
  shows "bij_betw (\<lambda>i. (s + i) mod n) {..<n} {..<n}"
proof -
  have "inj_on (\<lambda>i. (s + i) mod n) {..<n}"
    by (rule inj_onI) (auto dest: shift_mod_inj)
  then show ?thesis
    using assms by (intro bij_betw_imageI endo_inj_surj) auto
qed

lemma GetLeader_round_robin:
  assumes "pm_leaderSelector pm = None" and "pm_validators pm \<noteq> []" and "view \<noteq> 0"
  shows "GetLeader pm view = pm_validators pm ! leader_index pm view"
  using assms by (simp add: GetLeader_def)

lemma GetLeader_member:
  assumes "pm_leaderSelector pm = None" and "pm_validators pm \<noteq> []"
    and "length (pm_validators pm) < 2 ^ 64"
  shows "GetLeader pm view \<in> set (pm_validators pm)"
  using assms by (simp add: GetLeader_def leader_index_less)

text \<open>The views of a window that does not wrap, counted from its first view.\<close>

lemma unat_window:
  assumes "0 < unat (v :: u64)" and "unat v + n \<le> 2 ^ 64" and "i < n"
  shows "unat (v + of_nat i - 1) = unat v - 1 + i" and "v + of_nat i \<noteq> 0"
proof -
  have "unat (of_nat i :: u64) = i"
    using assms by (simp add: unat_of_nat_small)
  then have vi: "unat (v + of_nat i) = unat v + i"
    using assms by (simp add: unat_word_ariths)
  then show "v + of_nat i \<noteq> 0"
    using assms(1) by (metis add_gr_0 less_irrefl unat_0)
  then show "unat (v + of_nat i - 1) = unat v - 1 + i"
    using vi assms(1) by (simp add: unat_minus_one)
qed

text \<open>
  Round robin is fair and its lanes are spread: in every window of as many consecutive views
  as there are validators, from view 1 on and while the counters do not wrap, every validator
  leads exactly one view, and two lanes whose identifiers differ by less than the number of
  validators have different leaders in every view of the window.
\<close>

theorem round_robin_fair:
  assumes "pm_leaderSelector pm = None" and "distinct (pm_validators pm)" and "pm_validators pm \<noteq> []"
    and "0 < v" and "unat v + length (pm_validators pm) + unat (pm_laneID pm) + unat lane < 2 ^ 64"
    and "pm_laneID pm < lane" and "unat lane < unat (pm_laneID pm) + length (pm_validators pm)"
  shows "bij_betw (\<lambda>i. GetLeader pm (v + of_nat i)) {..<length (pm_validators pm)} (set (pm_validators pm)) \<and>
    (\<forall>i < length (pm_validators pm).
       GetLeader pm (v + of_nat i) \<noteq> GetLeader (pm\<lparr>pm_laneID := lane\<rparr>) (v + of_nat i))"
proof -
  let ?n = "length (pm_validators pm)" and ?l = "unat (pm_laneID pm)"
  have v: "0 < unat v" using assms(4) by (simp add: word_less_nat_alt)
  have n: "0 < ?n" using assms(3) by simp
  have idx: "GetLeader (pm\<lparr>pm_laneID := l\<rparr>) (v + of_nat i) =
      pm_validators pm ! ((unat v - 1 + i + unat l) mod ?n)"
    if "i < ?n" "unat l \<le> ?l + unat lane" for i l
  proof -
    have "unat v + ?n \<le> 2 ^ 64" using assms(5) by linarith
    note w = unat_window [OF v this that(1)]
    have "unat (v + of_nat i - 1) + unat l < 2 ^ 64"
      using w(1) that assms(5) by linarith
    then have "leader_index (pm\<lparr>pm_laneID := l\<rparr>) (v + of_nat i) = (unat v - 1 + i + unat l) mod ?n"
      using assms(3,5) w by (subst unat_leader_index) auto
    then show ?thesis
      using GetLeader_round_robin [of "pm\<lparr>pm_laneID := l\<rparr>"] assms(1,3) w(2) by simp
  qed
  have pm: "pm\<lparr>pm_laneID := pm_laneID pm\<rparr> = pm" by simp
  have own: "GetLeader pm (v + of_nat i) = pm_validators pm ! ((unat v - 1 + ?l + i) mod ?n)"
    if "i < ?n" for i
    using idx [of i "pm_laneID pm", OF that] by (simp add: pm ac_simps)
  have "bij_betw (\<lambda>i. pm_validators pm ! ((unat v - 1 + ?l + i) mod ?n)) {..<?n} (set (pm_validators pm))"
    using bij_betw_trans [OF window_bij [OF n, of "unat v - 1 + ?l"] bij_betw_nth [OF assms(2) refl refl]]
    by (simp add: comp_def)
  then have 1: "bij_betw (\<lambda>i. GetLeader pm (v + of_nat i)) {..<?n} (set (pm_validators pm))"
    by (rule bij_betw_cong [THEN iffD2, rotated]) (simp add: own)
  have 2: "GetLeader pm (v + of_nat i) \<noteq> GetLeader (pm\<lparr>pm_laneID := lane\<rparr>) (v + of_nat i)"
    if "i < ?n" for i
  proof -
    have "?l < unat lane" using assms(6) by (simp add: word_less_nat_alt)
    then obtain d where d: "unat lane = ?l + d" "0 < d" "d < ?n"
      using assms(7) by (metis add_less_cancel_left less_imp_add_positive)
    have "((unat v - 1 + i + ?l) + d) mod ?n \<noteq> (unat v - 1 + i + ?l) mod ?n"
      using d n shift_mod_inj [of "unat v - 1 + i + ?l" d ?n 0] by (metis add_0_right less_irrefl)
    then have "pm_validators pm ! ((unat v - 1 + i + ?l) mod ?n) \<noteq>
        pm_validators pm ! ((unat v - 1 + i + unat lane) mod ?n)"
      using assms(2) n d(1) by (simp add: nth_eq_iff_index_eq ac_simps)
    then show ?thesis
      using idx [of i "pm_laneID pm", OF that] idx [of i lane, OF that] by (simp add: pm)
  qed
  from 1 2 show ?thesis by blast
qed

theorem round_robin_fair_witness:
  "bij_betw (\<lambda>i. GetLeader (NewPacemakerWithLane [4, 7, 9] 100 0) (5 + of_nat i)) {..<3} {4, 7, 9} \<and>
   GetLeader (NewPacemakerWithLane [4, 7, 9] 100 0) 5 \<noteq> GetLeader (NewPacemakerWithLane [4, 7, 9] 100 2) 5"
proof -
  let ?pm = "NewPacemakerWithLane [4, 7, 9] 100 0"
  have pm: "pm_leaderSelector ?pm = None" "pm_validators ?pm = [4, 7, 9]" "pm_laneID ?pm = 0"
      "?pm\<lparr>pm_laneID := 2\<rparr> = NewPacemakerWithLane [4, 7, 9] 100 2"
    by (simp_all add: NewPacemakerWithLane_def)
  have "bij_betw (\<lambda>i. GetLeader ?pm (5 + of_nat i)) {..<length (pm_validators ?pm)} (set (pm_validators ?pm)) \<and>
    (\<forall>i < length (pm_validators ?pm).
       GetLeader ?pm (5 + of_nat i) \<noteq> GetLeader (?pm\<lparr>pm_laneID := 2\<rparr>) (5 + of_nat i))"
    by (rule round_robin_fair) (simp_all add: pm)
  then show ?thesis
    unfolding pm by (auto simp: numeral_eq_Suc dest: spec [of _ 0])
qed

end
