(* ===== verification/View_Change.thy ===== *)
theory View_Change
  imports Certificates
begin

text \<open>
  Aggregation of timeout votes into timeout certificates (consensus/viewchange/viewchange.go).
  The quorum callback \<open>quorumFn\<close> is the argument \<open>quorum\<close>, its value at the moment of the call; the
  formed certificate is returned, and it is also what the formation callback receives.
\<close>

section \<open>State\<close>

record tc_collector =
  tcc_view :: u64
  tcc_epoch :: u64
  tcc_highestQC :: "quorum_certificate option"
  tcc_voters :: "(u64, bytes) fmap"
  tcc_done :: bool

record vcm =
  vcm_nodeID :: u64
  vcm_collectors :: "(u64, tc_collector) fmap"
  vcm_highestTC :: "timeout_certificate option"
  vcm_isRunning :: bool

definition NewViewChangeManager :: "u64 \<Rightarrow> vcm" where
  "NewViewChangeManager nodeID =
     \<lparr> vcm_nodeID = nodeID, vcm_collectors = fmempty, vcm_highestTC = None, vcm_isRunning = False \<rparr>"

definition vcm_Start :: "vcm \<Rightarrow> vcm" where
  "vcm_Start v = v\<lparr>vcm_isRunning := True\<rparr>"

definition vcm_Stop :: "vcm \<Rightarrow> vcm" where
  "vcm_Stop v = v\<lparr>vcm_isRunning := False\<rparr>"

definition new_tc_collector :: "u64 \<Rightarrow> u64 \<Rightarrow> tc_collector" where
  "new_tc_collector view epoch = \<lparr> tcc_view = view, tcc_epoch = epoch, tcc_highestQC = None,
     tcc_voters = fmempty, tcc_done = False \<rparr>"

definition tcc_add :: "tc_collector \<Rightarrow> u64 \<Rightarrow> bytes \<Rightarrow> tc_collector" where
  "tcc_add c i s = (if i |\<in>| fmdom (tcc_voters c) then c
     else c\<lparr>tcc_voters := fmupd i s (tcc_voters c)\<rparr>)"

definition tcc_raise :: "tc_collector \<Rightarrow> quorum_certificate option \<Rightarrow> tc_collector" where
  "tcc_raise c q = (case q of None \<Rightarrow> c
     | Some k \<Rightarrow> (case tcc_highestQC c of
         None \<Rightarrow> c\<lparr>tcc_highestQC := q\<rparr>
       | Some h \<Rightarrow> if qc_View h < qc_View k then c\<lparr>tcc_highestQC := q\<rparr> else c))"

interpretation tccol: signature_collector tcc_add tcc_voters "\<lambda>c. int (gm_len (tcc_voters c))" "\<lambda>_. True"
  by unfold_locales (auto simp: tcc_add_def)

definition make_tc :: "timeout_vote \<Rightarrow> tc_collector \<Rightarrow> timeout_certificate" where
  "make_tc tv c = \<lparr> tc_View = tv_View tv, tc_Epoch = tv_Epoch tv, tc_ConfigID = tv_ConfigID tv,
     tc_Lane = tv_Lane tv, tc_HighestQC = tcc_highestQC c, tc_Signatures = tcc_voters c,
     tc_NumVoters = int (gm_len (tcc_voters c)) \<rparr>"

definition raise_tc :: "timeout_certificate option \<Rightarrow> timeout_certificate \<Rightarrow> timeout_certificate option" where
  "raise_tc cur tc = (case cur of None \<Rightarrow> Some tc
     | Some h \<Rightarrow> if tc_View h < tc_View tc then Some tc else cur)"

definition collector_at :: "vcm \<Rightarrow> u64 \<Rightarrow> u64 \<Rightarrow> tc_collector" where
  "collector_at v view epoch = (case fmlookup (vcm_collectors v) view of
     Some c \<Rightarrow> c | None \<Rightarrow> new_tc_collector view epoch)"

text \<open>The collector is created before the checks, so a rejected first vote cannot occur.\<close>

definition put_collector :: "u64 \<Rightarrow> tc_collector \<Rightarrow> vcm \<Rightarrow> vcm" where
  "put_collector view c v = v\<lparr>vcm_collectors := fmupd view c (vcm_collectors v)\<rparr>"

definition HandleTimeoutVote ::
  "u64 \<Rightarrow> timeout_vote option \<Rightarrow> vcm \<Rightarrow> vcm \<times> timeout_certificate option" where
  "HandleTimeoutVote quorum tvp v = (case tvp of None \<Rightarrow> (v, None)
     | Some tv \<Rightarrow>
        (let c = collector_at v (tv_View tv) (tv_Epoch tv)
         in if tcc_done c \<or> tcc_epoch c \<noteq> tv_Epoch tv \<or> tv_VoterID tv |\<in>| fmdom (tcc_voters c)
            then (put_collector (tv_View tv) c v, None)
            else
              (let c1 = tcc_raise (tcc_add c (tv_VoterID tv) (tv_Signature tv)) (tv_HighestQC tv)
               in if of_nat (gm_len (tcc_voters c1)) < quorum
                  then (put_collector (tv_View tv) c1 v, None)
                  else
                    (let tc = make_tc tv c1
                     in ((put_collector (tv_View tv) (c1\<lparr>tcc_done := True\<rparr>) v)
                           \<lparr>vcm_highestTC := raise_tc (vcm_highestTC v) tc\<rparr>, Some tc)))))"

definition GCCollectors :: "u64 \<Rightarrow> vcm \<Rightarrow> vcm" where
  "GCCollectors threshold v =
     v\<lparr>vcm_collectors := fmfilter (\<lambda>view. \<not> view < threshold) (vcm_collectors v)\<rparr>"

section \<open>One vote\<close>

lemma tcc_raise_simps [simp]:
  "tcc_view (tcc_raise c q) = tcc_view c" "tcc_epoch (tcc_raise c q) = tcc_epoch c"
  "tcc_voters (tcc_raise c q) = tcc_voters c" "tcc_done (tcc_raise c q) = tcc_done c"
  by (simp_all add: tcc_raise_def split: option.splits)

lemma tcc_add_simps [simp]:
  "tcc_view (tcc_add c i s) = tcc_view c" "tcc_epoch (tcc_add c i s) = tcc_epoch c"
  "tcc_highestQC (tcc_add c i s) = tcc_highestQC c" "tcc_done (tcc_add c i s) = tcc_done c"
  by (simp_all add: tcc_add_def)

lemma put_collector_simps [simp]:
  "fmlookup (vcm_collectors (put_collector w c v)) x =
     (if x = w then Some c else fmlookup (vcm_collectors v) x)"
  "vcm_highestTC (put_collector w c v) = vcm_highestTC v"
  by (simp_all add: put_collector_def)

lemma HandleTimeoutVote_other:
  assumes "HandleTimeoutVote q (Some tv) v = (v', r)" and "x \<noteq> tv_View tv"
  shows "fmlookup (vcm_collectors v') x = fmlookup (vcm_collectors v) x"
  using assms by (auto simp: HandleTimeoutVote_def Let_def split: if_splits)

text \<open>The view of the highest certificate a collector holds, zero when it holds none.\<close>

definition high_view :: "quorum_certificate option \<Rightarrow> nat" where
  "high_view q = (case q of None \<Rightarrow> 0 | Some k \<Rightarrow> Suc (unat (qc_View k)))"

lemma high_view_raise:
  "high_view (tcc_highestQC (tcc_raise c q)) = max (high_view (tcc_highestQC c)) (high_view q)"
  by (auto simp: tcc_raise_def high_view_def word_less_nat_alt split: option.splits)

section \<open>Sequences of votes\<close>

fun vote_run :: "(u64 \<times> timeout_vote) list \<Rightarrow> vcm \<Rightarrow> vcm \<times> timeout_certificate list" where
  "vote_run [] v = (v, [])"
| "vote_run ((q, tv) # xs) v =
     (let (v1, r) = HandleTimeoutVote q (Some tv) v; (v2, tcs) = vote_run xs v1
      in (v2, (case r of None \<Rightarrow> tcs | Some tc \<Rightarrow> tc # tcs)))"

text \<open>
  What a collector's contents come from: the voters and signatures of the votes of its view and
  epoch, and the highest certificate among them.
\<close>

definition sourced :: "(u64 \<times> timeout_vote) set \<Rightarrow> u64 \<Rightarrow> tc_collector \<Rightarrow> bool" where
  "sourced S w c \<longleftrightarrow>
     (\<forall>i s. fmlookup (tcc_voters c) i = Some s \<longrightarrow> (\<exists>(q, tv) \<in> S. tv_View tv = w \<and>
        tv_Epoch tv = tcc_epoch c \<and> tv_VoterID tv = i \<and> tv_Signature tv = s \<and>
        high_view (tv_HighestQC tv) \<le> high_view (tcc_highestQC c))) \<and>
     (\<forall>k. tcc_highestQC c = Some k \<longrightarrow> (\<exists>(q, tv) \<in> S. tv_View tv = w \<and> tv_HighestQC tv = Some k))"

lemma sourced_mono: "sourced S w c \<Longrightarrow> S \<subseteq> T \<Longrightarrow> sourced T w c"
  unfolding sourced_def by blast

lemma sourced_new: "sourced S w (new_tc_collector w e)"
  by (simp add: sourced_def new_tc_collector_def)

lemma sourced_done [simp]: "sourced S w (c\<lparr>tcc_done := d\<rparr>) = sourced S w c"
  by (simp add: sourced_def)

lemma sourced_add:
  assumes "sourced S w c" and "(q, tv) \<in> S" and "tv_View tv = w" and "tv_Epoch tv = tcc_epoch c"
  shows "sourced S w (tcc_raise (tcc_add c (tv_VoterID tv) (tv_Signature tv)) (tv_HighestQC tv))"
proof -
  let ?c = "tcc_raise (tcc_add c (tv_VoterID tv) (tv_Signature tv)) (tv_HighestQC tv)"
  have h: "high_view (tcc_highestQC ?c) = max (high_view (tcc_highestQC c)) (high_view (tv_HighestQC tv))"
    by (simp add: high_view_raise)
  have "\<exists>(q, t) \<in> S. tv_View t = w \<and> tv_Epoch t = tcc_epoch ?c \<and> tv_VoterID t = i \<and>
      tv_Signature t = s \<and> high_view (tv_HighestQC t) \<le> high_view (tcc_highestQC ?c)"
    if l: "fmlookup (tcc_voters ?c) i = Some s" for i s
  proof (cases "fmlookup (tcc_voters c) i = Some s")
    case True
    then show ?thesis
      using assms(1) unfolding sourced_def h by (fastforce intro: max.coboundedI1)
  next
    case False
    with l have "i = tv_VoterID tv" "s = tv_Signature tv"
      by (auto simp: tcc_add_def split: if_splits)
    then show ?thesis
      using assms(2-4) h by (intro bexI [of _ "(q, tv)"]) auto
  qed
  moreover have "\<exists>(q, t) \<in> S. tv_View t = w \<and> tv_HighestQC t = Some k"
    if "tcc_highestQC ?c = Some k" for k
    using that assms(1-3) unfolding sourced_def
    by (auto simp: tcc_raise_def split: option.splits if_splits)
  ultimately show ?thesis
    unfolding sourced_def by blast
qed

text \<open>The state of the manager relative to the votes it has seen and the certificates formed.\<close>

definition vcm_inv :: "(u64 \<times> timeout_vote) set \<Rightarrow> u64 set \<Rightarrow> vcm \<Rightarrow> bool" where
  "vcm_inv S done_views v \<longleftrightarrow> (\<forall>w c. fmlookup (vcm_collectors v) w = Some c \<longrightarrow> sourced S w c) \<and>
     (\<forall>w \<in> done_views. \<exists>c. fmlookup (vcm_collectors v) w = Some c \<and> tcc_done c)"

lemma collector_at_sourced: "vcm_inv S D v \<Longrightarrow> sourced S w (collector_at v w e)"
  by (auto simp: collector_at_def vcm_inv_def sourced_new split: option.splits)

lemma vcm_inv_mono: "vcm_inv S D v \<Longrightarrow> S \<subseteq> T \<Longrightarrow> vcm_inv T D v"
  unfolding vcm_inv_def by (blast intro: sourced_mono)

lemma vcm_inv_put:
  assumes "vcm_inv S D v" and "sourced S w c" and "w \<in> D \<Longrightarrow> tcc_done c"
  shows "vcm_inv S D (put_collector w c v)"
  using assms by (auto simp: vcm_inv_def split: if_splits)

lemma vcm_inv_highest [simp]: "vcm_inv S D (v\<lparr>vcm_highestTC := t\<rparr>) = vcm_inv S D v"
  by (simp add: vcm_inv_def)

text \<open>What one vote does: nothing is formed, or a certificate of the vote's view is.\<close>

definition tc_from :: "(u64 \<times> timeout_vote) set \<Rightarrow> timeout_certificate \<Rightarrow> bool" where
  "tc_from S tc \<longleftrightarrow> tc_NumVoters tc = int (gm_len (tc_Signatures tc)) \<and>
     (\<exists>(q, tv) \<in> S. tv_View tv = tc_View tc \<and> tv_ConfigID tv = tc_ConfigID tc \<and>
        tv_Lane tv = tc_Lane tc \<and> q \<le> of_nat (gm_len (tc_Signatures tc))) \<and>
     (\<forall>i s. fmlookup (tc_Signatures tc) i = Some s \<longrightarrow> (\<exists>(q, tv) \<in> S. tv_View tv = tc_View tc \<and>
        tv_Epoch tv = tc_Epoch tc \<and> tv_VoterID tv = i \<and> tv_Signature tv = s \<and>
        high_view (tv_HighestQC tv) \<le> high_view (tc_HighestQC tc)))"

lemma tc_from_mono: "tc_from S tc \<Longrightarrow> S \<subseteq> T \<Longrightarrow> tc_from T tc"
  unfolding tc_from_def by blast

lemma HandleTimeoutVote_step:
  assumes "vcm_inv S D v" and "(q, tv) \<in> S" and "HandleTimeoutVote q (Some tv) v = (v', r)"
  shows "case r of None \<Rightarrow> vcm_inv S D v'
     | Some tc \<Rightarrow> tc_View tc = tv_View tv \<and> tc_View tc \<notin> D \<and> tc_from S tc \<and>
         vcm_inv S (insert (tc_View tc) D) v'"
proof -
  let ?w = "tv_View tv"
  let ?c = "collector_at v ?w (tv_Epoch tv)"
  let ?c1 = "tcc_raise (tcc_add ?c (tv_VoterID tv) (tv_Signature tv)) (tv_HighestQC tv)"
  have src: "sourced S ?w ?c" by (rule collector_at_sourced [OF assms(1)])
  have d: "?w \<in> D \<Longrightarrow> tcc_done ?c"
    using assms(1) by (auto simp: vcm_inv_def collector_at_def split: option.splits)
  show ?thesis
  proof (cases "tcc_done ?c \<or> tcc_epoch ?c \<noteq> tv_Epoch tv \<or> tv_VoterID tv |\<in>| fmdom (tcc_voters ?c)")
    case True
    with assms(3) have "v' = put_collector ?w ?c v" "r = None"
      by (auto simp: HandleTimeoutVote_def Let_def)
    then show ?thesis
      using vcm_inv_put [OF assms(1) src d] by simp
  next
    case False
    then have w: "?w \<notin> D" and e: "tv_Epoch tv = tcc_epoch ?c"
      using d by auto
    have src1: "sourced S ?w ?c1"
      using sourced_add [OF src assms(2) refl e] .
    show ?thesis
    proof (cases "of_nat (gm_len (tcc_voters ?c1)) < q")
      case True
      with False assms(3) have "v' = put_collector ?w ?c1 v" "r = None"
        by (auto simp: HandleTimeoutVote_def Let_def)
      then show ?thesis
        using vcm_inv_put [OF assms(1) src1] w by simp
    next
      case q: False
      with False assms(3) have v': "v' = (put_collector ?w (?c1\<lparr>tcc_done := True\<rparr>) v)
            \<lparr>vcm_highestTC := raise_tc (vcm_highestTC v) (make_tc tv ?c1)\<rparr>"
          and r: "r = Some (make_tc tv ?c1)"
        by (auto simp: HandleTimeoutVote_def Let_def)
      have "vcm_inv S (insert ?w D) v'"
        using assms(1) src1 by (auto simp: v' vcm_inv_def split: if_splits)
      moreover have "tc_from S (make_tc tv ?c1)"
        using src1 q assms(2) e by (auto simp: tc_from_def make_tc_def sourced_def not_less)
      ultimately show ?thesis
        using w by (simp add: r make_tc_def)
    qed
  qed
qed

lemma vote_run_step:
  assumes "vcm_inv S D v" and "set xs \<subseteq> S" and "vote_run xs v = (v', tcs)"
  shows "(\<forall>tc \<in> set tcs. tc_from S tc \<and> tc_View tc \<notin> D) \<and> distinct (map tc_View tcs)"
  using assms
proof (induction xs v arbitrary: D v' tcs rule: vote_run.induct)
  case (2 q tv xs v)
  obtain v1 r where h: "HandleTimeoutVote q (Some tv) v = (v1, r)" by fastforce
  obtain v2 rest where t: "vote_run xs v1 = (v2, rest)" by fastforce
  have tcs: "tcs = (case r of None \<Rightarrow> rest | Some tc \<Rightarrow> tc # rest)"
    using "2.prems"(3) by (simp add: h t)
  have mem: "(q, tv) \<in> S" "set xs \<subseteq> S" using "2.prems"(2) by auto
  note step = HandleTimeoutVote_step [OF "2.prems"(1) mem(1) h]
  show ?case
  proof (cases r)
    case None
    with step "2.IH" [OF h [symmetric] refl _ mem(2) t] show ?thesis by (simp add: tcs)
  next
    case (Some tc)
    with step have 1: "tc_from S tc" "tc_View tc \<notin> D" "vcm_inv S (insert (tc_View tc) D) v1" by auto
    from "2.IH" [OF h [symmetric] refl 1(3) mem(2) t] 1(1,2) show ?thesis
      by (auto simp: tcs Some)
  qed
qed simp

lemma vcm_inv_New: "vcm_inv S {} (NewViewChangeManager n)"
  by (simp add: vcm_inv_def NewViewChangeManager_def)

text \<open>
  C15: every timeout certificate formed over any sequence of votes carries the signatures of a
  quorum of distinct voters, each taken from a vote of the certificate's view and epoch, its
  highest certificate is at least as high as every such voter's, and no view yields two
  certificates.
\<close>

theorem timeout_certificate_sound:
  assumes "vote_run votes (NewViewChangeManager n) = (v, tcs)"
  shows "(\<forall>tc \<in> set tcs. tc_NumVoters tc = int (gm_len (tc_Signatures tc)) \<and>
      (\<exists>(q, tv) \<in> set votes. tv_View tv = tc_View tc \<and> q \<le> of_nat (gm_len (tc_Signatures tc))) \<and>
      (\<forall>i s. fmlookup (tc_Signatures tc) i = Some s \<longrightarrow> (\<exists>(q, tv) \<in> set votes.
         tv_View tv = tc_View tc \<and> tv_Epoch tv = tc_Epoch tc \<and> tv_VoterID tv = i \<and>
         tv_Signature tv = s \<and> high_view (tv_HighestQC tv) \<le> high_view (tc_HighestQC tc)))) \<and>
    distinct (map tc_View tcs)"
  using vote_run_step [OF vcm_inv_New subset_refl assms] unfolding tc_from_def by fastforce

definition timeout :: "u64 \<Rightarrow> u64 \<Rightarrow> u64 \<Rightarrow> timeout_vote" where
  "timeout view epoch voter = \<lparr> tv_View = view, tv_Epoch = epoch, tv_ConfigID = 0, tv_Lane = 0,
     tv_VoterID = voter, tv_HighestQC = Some (NewQuorumCertificate [] (view - voter) 0 PhasePrepare),
     tv_Signature = [ucast voter] \<rparr>"

theorem timeout_certificate_sound_witness:
  "let votes = map (\<lambda>i. (3, timeout 9 0 i)) [1, 2, 2, 3, 4]
   in case vote_run votes (NewViewChangeManager 1) of (v, tcs) \<Rightarrow> length tcs = 1 \<and>
      (\<forall>tc \<in> set tcs. tc_NumVoters tc = 3 \<and> tc_NumVoters tc = int (gm_len (tc_Signatures tc)))"
proof -
  let ?votes = "map (\<lambda>i. (3, timeout 9 0 i)) [1, 2, 2, 3, 4]"
  obtain v tcs where r: "vote_run ?votes (NewViewChangeManager 1) = (v, tcs)" by fastforce
  have "case vote_run ?votes (NewViewChangeManager 1) of (v, tcs) \<Rightarrow>
      length tcs = 1 \<and> list_all (\<lambda>tc. tc_NumVoters tc = 3) tcs"
    by code_simp
  with timeout_certificate_sound [OF r] show ?thesis
    unfolding r by (simp add: list_all_iff r del: list.map)
qed

section \<open>Formation\<close>

lemma gm_len_le_voters:
  "gm_len (tcc_voters (tcc_raise (tcc_add c i s) q)) \<le> Suc (gm_len (tcc_voters c))"
  by (simp add: tcc_add_def gm_len_upd)

lemma vote_run_forms:
  assumes "collector_at v w e = c" and "tcc_epoch c = e" and "\<not> tcc_done c"
    and "gm_len (tcc_voters c) < unat q" and "gm_len (tcc_voters c) + length tvs < 2 ^ 64"
    and "unat q \<le> card (fset (fmdom (tcc_voters c)) \<union> tv_VoterID ` set tvs)"
    and "\<forall>tv \<in> set tvs. tv_View tv = w \<and> tv_Epoch tv = e"
  shows "snd (vote_run (map (Pair q) tvs) v) \<noteq> []"
  using assms
proof (induction tvs arbitrary: v c)
  case Nil
  then show ?case by (simp add: gm_len_card)
next
  case (Cons tv tvs)
  have tv: "tv_View tv = w" "tv_Epoch tv = e" using Cons.prems(7) by auto
  let ?c1 = "tcc_raise (tcc_add c (tv_VoterID tv) (tv_Signature tv)) (tv_HighestQC tv)"
  obtain v1 r where h: "HandleTimeoutVote q (Some tv) v = (v1, r)" by fastforce
  obtain v2 rest where t: "vote_run (map (Pair q) tvs) v1 = (v2, rest)" by fastforce
  show ?case
  proof (cases "tv_VoterID tv |\<in>| fmdom (tcc_voters c)")
    case True
    with h tv Cons.prems have "v1 = put_collector w c v" "r = None"
      by (auto simp: HandleTimeoutVote_def Let_def)
    then have "collector_at v1 w e = c" by (simp add: collector_at_def)
    moreover have "unat q \<le> card (fset (fmdom (tcc_voters c)) \<union> tv_VoterID ` set tvs)"
      using Cons.prems(6) True by (simp add: insert_absorb)
    ultimately have "snd (vote_run (map (Pair q) tvs) v1) \<noteq> []"
      using Cons.prems(2-5,7) by (intro Cons.IH [of v1 c]) simp_all
    then have "rest \<noteq> []" by (simp add: t)
    then show ?thesis by (simp add: h t split: option.split)
  next
    case False
    show ?thesis
    proof (cases "of_nat (gm_len (tcc_voters ?c1)) < q")
      case True
      with h tv Cons.prems False have "v1 = put_collector w ?c1 v" "r = None"
        by (auto simp: HandleTimeoutVote_def Let_def)
      then have at: "collector_at v1 w e = ?c1" by (simp add: collector_at_def)
      have len: "gm_len (tcc_voters ?c1) = Suc (gm_len (tcc_voters c))"
        using False by (simp add: tcc_add_def gm_len_upd)
      then have "gm_len (tcc_voters ?c1) < 2 ^ 64" using Cons.prems(5) by simp
      then have "gm_len (tcc_voters ?c1) < unat q"
        using True by (simp add: word_less_nat_alt unat_of_nat_small)
      moreover have "fset (fmdom (tcc_voters ?c1)) \<union> tv_VoterID ` set tvs =
          fset (fmdom (tcc_voters c)) \<union> tv_VoterID ` set (tv # tvs)"
        by (auto simp: tccol.dom_add)
      ultimately have "snd (vote_run (map (Pair q) tvs) v1) \<noteq> []"
        using Cons.prems(2,3,5-7) len by (intro Cons.IH [OF at]) simp_all
      then have "rest \<noteq> []" by (simp add: t)
      then show ?thesis by (simp add: h t split: option.split)
    next
      case q: False
      with h tv Cons.prems False have "r \<noteq> None"
        by (auto simp: HandleTimeoutVote_def Let_def)
      then show ?thesis by (auto simp: h t)
    qed
  qed
qed

text \<open>
  C16: when timeout votes of one view and epoch from a quorum of distinct voters are handled, in any
  order and with any repetitions, by a manager that has no collector for that view yet, a timeout
  certificate of the view is formed (for a positive quorum and fewer than \<open>2^64\<close> votes).  A collector left over from
  another epoch prevents it: \<open>stale_collector_blocks_epoch\<close> below.
\<close>

theorem timeout_certificate_complete:
  assumes "fmlookup (vcm_collectors v) w = None" and "0 < q" and "length tvs < 2 ^ 64"
    and "\<forall>tv \<in> set tvs. tv_View tv = w \<and> tv_Epoch tv = e"
    and "unat q \<le> card (tv_VoterID ` set tvs)"
  shows "snd (vote_run (map (Pair q) tvs) v) \<noteq> []"
  using assms
  by (intro vote_run_forms [of v w e "new_tc_collector w e"])
    (simp_all add: collector_at_def new_tc_collector_def gomap_simps word_less_nat_alt)

theorem timeout_certificate_complete_witness:
  "snd (vote_run (map (Pair 3) [timeout 9 0 1, timeout 9 0 4, timeout 9 0 2]) (NewViewChangeManager 1)) \<noteq> []"
  by (rule timeout_certificate_complete [of _ 9 _ _ 0])
    (simp_all add: NewViewChangeManager_def timeout_def)

text \<open>
  The collectors are keyed by the view alone.  A collector that an earlier epoch left open
  rejects every vote of another epoch for the same view number: no certificate is formed however
  many validators vote.
\<close>

theorem stale_collector_blocks_epoch:
  assumes "fmlookup (vcm_collectors v) w = Some c" and "tcc_epoch c \<noteq> e"
    and "\<forall>(q, tv) \<in> set votes. tv_View tv = w \<and> tv_Epoch tv = e"
  shows "snd (vote_run votes v) = []"
  using assms
proof (induction votes arbitrary: v)
  case (Cons x votes)
  obtain q tv where x: "x = (q, tv)" by fastforce
  have "HandleTimeoutVote q (Some tv) v = (put_collector w c v, None)"
    using Cons.prems by (simp add: HandleTimeoutVote_def collector_at_def x Let_def)
  moreover have "snd (vote_run votes (put_collector w c v)) = []"
    using Cons by simp
  ultimately show ?case
    by (simp add: x split_beta)
qed simp

theorem stale_collector_blocks_epoch_witness:
  "snd (vote_run (map (\<lambda>i. (3, timeout 5 1 i)) [1, 2, 3, 4])
     (fst (HandleTimeoutVote 3 (Some (timeout 5 0 1)) (NewViewChangeManager 1)))) = []"
  by (rule stale_collector_blocks_epoch [where w = 5 and e = 1])
    (auto simp: HandleTimeoutVote_def NewViewChangeManager_def collector_at_def timeout_def
      new_tc_collector_def Let_def gomap_simps tcc_add_def)

end
