(* ===== verification/Append_Log.thy ===== *)
theory Append_Log
  imports Go_Prelude "HOL-Library.Sublist"
begin

text \<open>
  The interface of the append-only logs of the program, the global order of the blocks
  (consensus/hotstuff/orderer.go) and the Global Beacon Chain (consensus/gbc/gbc.go).
\<close>

section \<open>Append-only logs\<close>

text \<open>
  The interface of a log with consecutive ranks: what readers of a log rely on, for any
  component that only appends.
\<close>

locale append_log =
  fixes entries :: "'s \<Rightarrow> 'e list"
    and rank :: "'e \<Rightarrow> nat"
    and base :: "'s \<Rightarrow> nat"
    and step :: "'s \<Rightarrow> 's \<Rightarrow> bool"
    and inv :: "'s \<Rightarrow> bool"
  assumes inv_step: "inv s \<Longrightarrow> step s t \<Longrightarrow> inv t"
    and step_prefix: "inv s \<Longrightarrow> step s t \<Longrightarrow> prefix (entries s) (entries t)"
    and step_base: "inv s \<Longrightarrow> step s t \<Longrightarrow> base t = base s"
    and consecutive: "inv s \<Longrightarrow> map rank (entries s) = [base s..<base s + length (entries s)]"
begin

lemma run_inv:
  assumes "step\<^sup>*\<^sup>* s t" and "inv s"
  shows "inv t \<and> prefix (entries s) (entries t) \<and> base t = base s"
  using assms
proof (induction rule: rtranclp_induct)
  case (step t u)
  then show ?case
    using inv_step step_prefix [of t u] step_base [of t u] prefix_order.trans by metis
qed simp

lemma entry_rank: "inv s \<Longrightarrow> i < length (entries s) \<Longrightarrow> rank (entries s ! i) = base s + i"
  using consecutive [of s] nth_map [of i "entries s" rank] by simp

text \<open>An entry once in the log stays where it is.\<close>

lemma entry_stable:
  assumes "step\<^sup>*\<^sup>* s t" and "inv s" and "i < length (entries s)"
  shows "entries t ! i = entries s ! i"
  using run_inv [OF assms(1,2)] assms(3) by (auto simp: prefix_def nth_append)

lemma distinct_ranks: "inv s \<Longrightarrow> distinct (map rank (entries s))"
  by (simp add: consecutive)

lemma sorted_ranks: "inv s \<Longrightarrow> sorted_wrt (<) (map rank (entries s))"
  by (simp add: consecutive)

lemma same_rank_same_entry:
  assumes "inv s" and "x \<in> set (entries s)" and "y \<in> set (entries s)" and "rank x = rank y"
  shows "x = y"
  using distinct_ranks [OF assms(1)] assms(2-4) by (auto simp: distinct_map dest: inj_onD)

end

end
