(* ===== verification/Orderer.thy ===== *)
theory Orderer
  imports Append_Log Certificates "HOL-Library.Sublist"
begin

text \<open>
  Global ordering of the instances' outputs (consensus/hotstuff/rank_state.go, orderer.go,
  instance_output.go): every instance commits its own chain, an output of instance \<open>i\<close> at local
  height \<open>h\<close> has the rank \<open>h * numInstances + i\<close>, and the orderer emits the ranks one after the
  other, filling a rank that stays missing for \<open>barTimeout\<close> with a nil entry.  The clock is an
  argument: \<open>clock n\<close> is the reading of the \<open>n\<close>-th call of \<open>nextToEmit\<close> in a flush, in
  nanoseconds.  The output channel is the list of emitted entries.
\<close>

section \<open>Ranks\<close>

text \<open>A count of zero instances is replaced by one.\<close>

definition at_least_one :: "u64 \<Rightarrow> u64" where
  "at_least_one n = (if n = 0 then 1 else n)"

record rank_state =
  rs_instanceID :: u64
  rs_numInstances :: u64
  rs_highestLocal :: u64

definition NewRankState :: "u64 \<Rightarrow> u64 \<Rightarrow> rank_state" where
  "NewRankState instanceID numInstances = \<lparr> rs_instanceID = instanceID,
     rs_numInstances = at_least_one numInstances, rs_highestLocal = 0 \<rparr>"

definition ExpectedRank :: "rank_state \<Rightarrow> u64 \<Rightarrow> u64" where
  "ExpectedRank rs localHeight = localHeight * rs_numInstances rs + rs_instanceID rs"

definition VerifyRank :: "rank_state \<Rightarrow> u64 \<Rightarrow> i64 \<Rightarrow> bool" where
  "VerifyRank rs localHeight rnk \<longleftrightarrow> 0 \<le> sint rnk \<and> rnk = ExpectedRank rs localHeight"

definition rs_OnCommit :: "u64 \<Rightarrow> rank_state \<Rightarrow> rank_state \<times> bool" where
  "rs_OnCommit localHeight rs = (if localHeight \<le> rs_highestLocal rs then (rs, False)
     else (rs\<lparr>rs_highestLocal := localHeight\<rparr>, True))"

definition SetHighestLocalHeight :: "u64 \<Rightarrow> rank_state \<Rightarrow> rank_state" where
  "SetHighestLocalHeight localHeight rs = rs\<lparr>rs_highestLocal := localHeight\<rparr>"

record instance_output =
  io_InstanceID :: u64
  io_LocalHeight :: u64
  io_Rank :: u64
  io_BlockHash :: bytes
  io_Block :: "block option"
  io_EpochTransitions :: "epoch_transition option list"
  io_IsNil :: bool

section \<open>The orderer\<close>

record orderer =
  go_numInstances :: u64
  go_nextRank :: u64
  go_barTimeout :: int
  go_maxPending :: int
  go_pending :: "(u64, instance_output) fmap"
  go_missingSince :: "(u64, int) fmap"
  go_log :: "instance_output list"
  go_emitted :: u64
  go_nilled :: u64
  go_late :: u64
  go_dropped :: u64

definition NewGlobalOrdererWithLimit :: "u64 \<Rightarrow> int \<Rightarrow> int \<Rightarrow> orderer" where
  "NewGlobalOrdererWithLimit numInstances barTimeout maxPending =
     (let n = at_least_one numInstances
      in \<lparr> go_numInstances = n, go_nextRank = n,
           go_barTimeout = (if barTimeout \<le> 0 then 2000000000 else barTimeout),
           go_maxPending = (if maxPending \<le> 0 then 8192 else maxPending),
           go_pending = fmempty, go_missingSince = fmempty, go_log = [],
           go_emitted = 0, go_nilled = 0, go_late = 0, go_dropped = 0 \<rparr>)"

definition validRankMapping :: "orderer \<Rightarrow> instance_output \<Rightarrow> bool" where
  "validRankMapping g out \<longleftrightarrow> go_numInstances g = 0 \<or>
     io_InstanceID out = io_Rank out mod go_numInstances g \<and>
     io_LocalHeight out = io_Rank out div go_numInstances g"

text \<open>The search for the largest pending rank; \<open>None\<close> is \<open>!maxSet\<close>.\<close>

definition max_rank :: "(u64, instance_output) fmap \<Rightarrow> u64 option" where
  "max_rank m = fold (\<lambda>r best. case best of None \<Rightarrow> Some r
     | Some b \<Rightarrow> if b < r then Some r else best) (gm_keys m) None"

definition onInput :: "instance_output \<Rightarrow> orderer \<Rightarrow> orderer" where
  "onInput out g =
     (if io_Rank out < go_nextRank g then g\<lparr>go_late := go_late g + 1\<rparr>
      else if \<not> validRankMapping g out then g
      else if io_Rank out |\<in>| fmdom (go_pending g) then g
      else if go_maxPending g \<le> int (gm_len (go_pending g)) then
        (case max_rank (go_pending g) of
           None \<Rightarrow> g\<lparr>go_dropped := go_dropped g + 1\<rparr>
         | Some m \<Rightarrow> if m \<le> io_Rank out then g\<lparr>go_dropped := go_dropped g + 1\<rparr>
             else g\<lparr>go_pending := fmupd (io_Rank out) out (fmdrop m (go_pending g)),
                    go_dropped := go_dropped g + 1\<rparr>)
      else g\<lparr>go_pending := fmupd (io_Rank out) out (go_pending g)\<rparr>)"

definition nil_entry :: "orderer \<Rightarrow> instance_output" where
  "nil_entry g = \<lparr> io_InstanceID = go_nextRank g mod go_numInstances g,
     io_LocalHeight = go_nextRank g div go_numInstances g, io_Rank = go_nextRank g,
     io_BlockHash = [], io_Block = None, io_EpochTransitions = [], io_IsNil = True \<rparr>"

text \<open>\<open>None\<close> is \<open>ok = false\<close>; \<open>now\<close> is the clock reading of the call.\<close>

definition nextToEmit :: "int \<Rightarrow> orderer \<Rightarrow> orderer \<times> instance_output option" where
  "nextToEmit now g = (case fmlookup (go_pending g) (go_nextRank g) of
     Some v \<Rightarrow>
       (g\<lparr>go_pending := fmdrop (go_nextRank g) (go_pending g),
          go_missingSince := fmdrop (go_nextRank g) (go_missingSince g),
          go_log := go_log g @ [v], go_emitted := go_emitted g + 1,
          go_nextRank := go_nextRank g + 1\<rparr>, Some v)
   | None \<Rightarrow> (case fmlookup (go_missingSince g) (go_nextRank g) of
       None \<Rightarrow> (g\<lparr>go_missingSince := fmupd (go_nextRank g) now (go_missingSince g)\<rparr>, None)
     | Some since \<Rightarrow>
         if now - since < go_barTimeout g then (g, None)
         else (g\<lparr>go_missingSince := fmdrop (go_nextRank g) (go_missingSince g),
                 go_log := go_log g @ [nil_entry g], go_nilled := go_nilled g + 1,
                 go_nextRank := go_nextRank g + 1\<rparr>, Some (nil_entry g))))"

definition backlog :: "orderer \<Rightarrow> nat" where
  "backlog g = gm_len (go_pending g) + gm_len (go_missingSince g)"

lemma gm_len_drop_le: "gm_len (fmdrop k m) \<le> gm_len m"
  by (cases "k |\<in>| fmdom m") (simp_all add: gm_len_drop gm_len_drop_notin)

lemma nextToEmit_backlog:
  assumes "nextToEmit now g = (g', Some e)"
  shows "backlog g' < backlog g"
proof (cases "fmlookup (go_pending g) (go_nextRank g)")
  case (Some v)
  then have "gm_len (fmdrop (go_nextRank g) (go_pending g)) < gm_len (go_pending g)"
    by (intro gm_len_drop_less) (rule fmdomI)
  with assms Some gm_len_drop_le [of "go_nextRank g" "go_missingSince g"] show ?thesis
    by (auto simp: nextToEmit_def backlog_def)
next
  case None
  with assms obtain since where "fmlookup (go_missingSince g) (go_nextRank g) = Some since"
    by (auto simp: nextToEmit_def split: option.splits)
  then have "gm_len (fmdrop (go_nextRank g) (go_missingSince g)) < gm_len (go_missingSince g)"
    by (intro gm_len_drop_less) (rule fmdomI)
  with assms None show ?thesis
    by (auto simp: nextToEmit_def backlog_def split: option.splits if_splits)
qed

text \<open>The loop of \<open>flush\<close> ends: every emission takes an entry out of the backlog.\<close>

function flush :: "(nat \<Rightarrow> int) \<Rightarrow> orderer \<Rightarrow> orderer \<times> instance_output list" where
  "flush clock g = (case nextToEmit (clock 0) g of
     (o1, None) \<Rightarrow> (o1, [])
   | (o1, Some e) \<Rightarrow> (let (o2, es) = flush (\<lambda>n. clock (Suc n)) o1 in (o2, e # es)))"
  by pat_completeness auto
termination
  by (relation "measure (\<lambda>(clock, g). backlog g)") (auto dest: nextToEmit_backlog [OF sym])

declare flush.simps [simp del]

text \<open>The same equation with projections, for evaluation.\<close>

lemma flush_code [code]:
  "flush clock g = (let r = nextToEmit (clock 0) g in
     case snd r of None \<Rightarrow> (fst r, [])
     | Some e \<Rightarrow> (let s = flush (\<lambda>n. clock (Suc n)) (fst r) in (fst s, e # snd s)))"
  by (subst flush.simps) (simp add: Let_def split: prod.splits option.splits)

text \<open>The two branches of the \<open>run\<close> loop: an input followed by a flush, and a tick.\<close>

datatype orderer_event = Input instance_output "nat \<Rightarrow> int" | Tick "nat \<Rightarrow> int"

definition orderer_step :: "orderer_event \<Rightarrow> orderer \<Rightarrow> orderer \<times> instance_output list" where
  "orderer_step ev g = (case ev of Input out clock \<Rightarrow> flush clock (onInput out g)
     | Tick clock \<Rightarrow> flush clock g)"

fun orderer_run :: "orderer_event list \<Rightarrow> orderer \<Rightarrow> orderer \<times> instance_output list" where
  "orderer_run [] g = (g, [])"
| "orderer_run (ev # evs) g = (let (o1, es) = orderer_step ev g; (o2, es') = orderer_run evs o1
     in (o2, es @ es'))"

section \<open>The invariant\<close>

definition go_inv :: "orderer \<Rightarrow> bool" where
  "go_inv g \<longleftrightarrow> go_numInstances g \<noteq> 0 \<and> 0 < go_maxPending g \<and>
     unat (go_nextRank g) = unat (go_numInstances g) + length (go_log g) \<and>
     map (\<lambda>e. unat (io_Rank e)) (go_log g) =
       [unat (go_numInstances g)..<unat (go_numInstances g) + length (go_log g)] \<and>
     (\<forall>e \<in> set (go_log g). validRankMapping g e) \<and>
     (\<forall>k v. fmlookup (go_pending g) k = Some v \<longrightarrow>
        io_Rank v = k \<and> go_nextRank g \<le> k \<and> validRankMapping g v) \<and>
     int (gm_len (go_pending g)) \<le> go_maxPending g"

lemma validRankMapping_cong:
  "go_numInstances g = go_numInstances h \<Longrightarrow> validRankMapping g = validRankMapping h"
  by (simp add: validRankMapping_def fun_eq_iff)

lemma validRankMapping_nil [simp]: "validRankMapping g (nil_entry g)"
  by (simp add: validRankMapping_def nil_entry_def)

lemma nextToEmit_frame [framing]:
  assumes "nextToEmit now g = (g', r)"
  shows "go_numInstances g' = go_numInstances g" "go_maxPending g' = go_maxPending g"
    "go_log g' = go_log g @ (case r of None \<Rightarrow> [] | Some e \<Rightarrow> [e])"
    "gm_len (go_pending g') \<le> gm_len (go_pending g)"
  using assms gm_len_drop_le by (auto simp: nextToEmit_def split: option.splits if_splits)

lemma go_inv_new: "go_inv (NewGlobalOrdererWithLimit n t m)"
  by (simp add: go_inv_def NewGlobalOrdererWithLimit_def Let_def gomap_simps at_least_one_def)

lemma go_inv_missing [simp]: "go_inv (g\<lparr>go_missingSince := m\<rparr>) = go_inv g"
  by (simp add: go_inv_def validRankMapping_def)

lemma go_inv_emit:
  assumes "go_inv g" and "io_Rank e = go_nextRank g" and "validRankMapping g e"
    and "unat (go_numInstances g) + Suc (length (go_log g)) < 2 ^ 64"
    and "\<forall>k v. fmlookup P k = Some v \<longrightarrow> fmlookup (go_pending g) k = Some v \<and> k \<noteq> go_nextRank g"
    and "gm_len P \<le> gm_len (go_pending g)"
  shows "go_inv (g\<lparr>go_pending := P, go_missingSince := M, go_log := go_log g @ [e],
     go_emitted := a, go_nilled := b, go_nextRank := go_nextRank g + 1\<rparr>)"
proof -
  have r: "unat (go_nextRank g) = unat (go_numInstances g) + length (go_log g)"
    using assms(1) by (simp add: go_inv_def)
  with assms(4) have "unat (go_nextRank g + 1) = unat (go_nextRank g) + 1"
    by (simp add: unat_word_ariths)
  moreover have "go_nextRank g + 1 \<le> k"
    if "go_nextRank g \<le> k" "k \<noteq> go_nextRank g" for k
  proof -
    have "unat (go_nextRank g) < unat k"
      using that by (metis order_le_imp_less_or_eq word_less_nat_alt)
    with \<open>unat (go_nextRank g + 1) = unat (go_nextRank g) + 1\<close> show ?thesis
      by (simp add: word_le_nat_alt)
  qed
  ultimately have pend: "\<forall>k v. fmlookup P k = Some v \<longrightarrow>
      io_Rank v = k \<and> go_nextRank g + 1 \<le> k \<and> validRankMapping g v"
    using assms(1,5) unfolding go_inv_def by blast
  let ?h = "g\<lparr>go_pending := P, go_missingSince := M, go_log := go_log g @ [e],
     go_emitted := a, go_nilled := b, go_nextRank := go_nextRank g + 1\<rparr>"
  have "validRankMapping ?h = validRankMapping g"
    by (rule validRankMapping_cong) simp
  then show ?thesis
    using assms r pend \<open>unat (go_nextRank g + 1) = unat (go_nextRank g) + 1\<close>
    by (simp add: go_inv_def)
qed

lemma nextToEmit_inv:
  assumes "go_inv g" and "nextToEmit now g = (g', r)"
    and "unat (go_numInstances g) + length (go_log g') < 2 ^ 64"
  shows "go_inv g'"
proof (cases "fmlookup (go_pending g) (go_nextRank g)")
  case (Some v)
  have v: "io_Rank v = go_nextRank g" "validRankMapping g v"
    using assms(1) Some by (auto simp: go_inv_def)
  from Some assms(2) have g': "g' = g\<lparr>go_pending := fmdrop (go_nextRank g) (go_pending g),
      go_missingSince := fmdrop (go_nextRank g) (go_missingSince g), go_log := go_log g @ [v],
      go_emitted := go_emitted g + 1, go_nilled := go_nilled g, go_nextRank := go_nextRank g + 1\<rparr>"
    by (simp add: nextToEmit_def)
  show ?thesis
    unfolding g' using assms(3) v gm_len_drop_le
    by (intro go_inv_emit [OF assms(1)]) (auto simp: g' split: if_splits)
next
  case None
  show ?thesis
  proof (cases r)
    case None
    with assms \<open>fmlookup (go_pending g) (go_nextRank g) = None\<close> show ?thesis
      by (auto simp: nextToEmit_def split: option.splits if_splits)
  next
    case (Some e)
    with assms(2) None have e: "e = nil_entry g" and
      g': "g' = g\<lparr>go_pending := go_pending g,
        go_missingSince := fmdrop (go_nextRank g) (go_missingSince g), go_log := go_log g @ [e],
        go_emitted := go_emitted g, go_nilled := go_nilled g + 1, go_nextRank := go_nextRank g + 1\<rparr>"
      by (auto simp: nextToEmit_def split: option.splits if_splits)
    show ?thesis
      unfolding g' using assms(3) None
      by (intro go_inv_emit [OF assms(1)]) (auto simp: g' e nil_entry_def validRankMapping_def)
  qed
qed

lemma flush_cases:
  obtains g1 where "nextToEmit (clock 0) g = (g1, None)" "flush clock g = (g1, [])"
  | g1 e g2 es where "nextToEmit (clock 0) g = (g1, Some e)"
      "flush (\<lambda>n. clock (Suc n)) g1 = (g2, es)" "flush clock g = (g2, e # es)"
proof (cases "nextToEmit (clock 0) g")
  case (Pair g1 r)
  then show ?thesis
    using that by (cases r; cases "flush (\<lambda>n. clock (Suc n)) g1") (simp_all add: flush.simps [of clock g])
qed

lemma flush_frame [framing]:
  "flush clock g = (g', es) \<Longrightarrow> go_log g' = go_log g @ es \<and> go_numInstances g' = go_numInstances g \<and>
     go_maxPending g' = go_maxPending g \<and> go_barTimeout g' = go_barTimeout g"
proof (induction clock g arbitrary: g' es rule: flush.induct)
  case (1 clock g)
  show ?case
  proof (cases rule: flush_cases [of clock g])
    case (1 g1)
    with "1.prems" show ?thesis
      by (auto simp: nextToEmit_def split: option.splits if_splits)
  next
    case (2 g1 e g2 es2)
    have "go_log g2 = go_log g1 @ es2 \<and> go_numInstances g2 = go_numInstances g1 \<and>
        go_maxPending g2 = go_maxPending g1 \<and> go_barTimeout g2 = go_barTimeout g1"
      using "1.IH" [OF 2(1) [symmetric] refl 2(2)] .
    with 2 "1.prems" show ?thesis
      by (auto simp: nextToEmit_def split: option.splits if_splits)
  qed
qed

lemma flush_inv:
  "go_inv g \<Longrightarrow> flush clock g = (g', es) \<Longrightarrow>
   unat (go_numInstances g) + length (go_log g') < 2 ^ 64 \<Longrightarrow> go_inv g'"
proof (induction clock g arbitrary: g' es rule: flush.induct)
  case (1 clock g)
  show ?case
  proof (cases rule: flush_cases [of clock g])
    case (1 g1)
    with "1.prems" show ?thesis
      using nextToEmit_inv by auto
  next
    case (2 g1 e g2 es2)
    with "1.prems" have g2: "g' = g2" by simp
    have "length (go_log g1) \<le> length (go_log g2)"
      using flush_frame [OF 2(2)] by simp
    with "1.prems" g2 have "go_inv g1"
      by (intro nextToEmit_inv [OF "1.prems"(1) 2(1)]) simp
    moreover have "go_numInstances g1 = go_numInstances g"
      using nextToEmit_frame [OF 2(1)] by simp
    ultimately show ?thesis
      using "1.IH" [OF 2(1) [symmetric] refl _ 2(2)] "1.prems"(3) g2 by simp
  qed
qed

lemma fold_max_rank:
  "fold (\<lambda>r best. case best of None \<Rightarrow> Some r | Some b \<Rightarrow> if b < r then Some r else best) xs b0 =
     (if xs = [] then b0 else Some (Max (set (case b0 of None \<Rightarrow> xs | Some b \<Rightarrow> b # (xs :: u64 list)))))"
proof (induction xs arbitrary: b0)
  case (Cons x xs)
  have "Max (insert b (insert x (set xs))) = Max (insert (max b x) (set xs))" for b
    by (cases "set xs = {}") (simp_all add: max.assoc)
  then show ?case
    using Cons by (auto split: option.splits simp: max_def)
qed simp

lemma max_rank_Max: "max_rank m = (if m = fmempty then None else Some (Max (fset (fmdom m))))"
  by (auto simp: max_rank_def fold_max_rank set_gm_keys simp flip: gm_len_zero length_gm_keys)

lemma onInput_frame [framing]:
  "go_log (onInput out g) = go_log g" "go_numInstances (onInput out g) = go_numInstances g"
  "go_maxPending (onInput out g) = go_maxPending g" "go_nextRank (onInput out g) = go_nextRank g"
  "go_barTimeout (onInput out g) = go_barTimeout g" "go_missingSince (onInput out g) = go_missingSince g"
  by (auto simp: onInput_def split: option.splits)

lemma onInput_inv:
  assumes "go_inv g"
  shows "go_inv (onInput out g)"
proof (cases "io_Rank out < go_nextRank g \<or> \<not> validRankMapping g out \<or> io_Rank out |\<in>| fmdom (go_pending g)")
  case True
  with assms show ?thesis
    by (auto simp: onInput_def go_inv_def validRankMapping_def)
next
  case ok: False
  show ?thesis
  proof (cases "go_maxPending g \<le> int (gm_len (go_pending g))")
    case False
    with ok assms show ?thesis
      by (auto simp: onInput_def go_inv_def validRankMapping_def gomap_simps not_less)
  next
    case full: True
    show ?thesis
    proof (cases "max_rank (go_pending g)")
      case None
      with ok full assms show ?thesis
        by (auto simp: onInput_def go_inv_def validRankMapping_def)
    next
      case (Some m)
      then have "go_pending g \<noteq> fmempty" "m = Max (fset (fmdom (go_pending g)))"
        by (auto simp: max_rank_Max split: if_splits)
      then have m: "m |\<in>| fmdom (go_pending g)"
        using Max_in [of "fset (fmdom (go_pending g))"] gm_len_zero [of "go_pending g"]
        by (simp add: gm_len_card)
      then have len: "gm_len (fmdrop m (go_pending g)) = gm_len (go_pending g) - 1" "0 < gm_len (go_pending g)"
        by (auto simp: gm_len_drop gm_len_card card_gt_0_iff)
      show ?thesis
      proof (cases "m \<le> io_Rank out")
        case True
        with ok full assms Some show ?thesis
          by (auto simp: onInput_def go_inv_def validRankMapping_def)
      next
        case False
        with ok full Some have "onInput out g = g\<lparr>go_pending := fmupd (io_Rank out) out (fmdrop m (go_pending g)),
            go_dropped := go_dropped g + 1\<rparr>"
          by (simp add: onInput_def)
        with ok assms len show ?thesis
          by (auto simp: go_inv_def validRankMapping_def gm_len_upd not_less split: if_splits)
      qed
    qed
  qed
qed

section \<open>The log of a run\<close>

lemma orderer_step_frame [framing]:
  assumes "orderer_step ev g = (g', es)"
  shows "go_log g' = go_log g @ es" "go_numInstances g' = go_numInstances g"
    "go_maxPending g' = go_maxPending g"
  using assms by (auto simp: orderer_step_def onInput_frame dest!: flush_frame split: orderer_event.splits)

lemma orderer_step_inv:
  assumes "go_inv g" and "orderer_step ev g = (g', es)"
    and "unat (go_numInstances g) + length (go_log g') < 2 ^ 64"
  shows "go_inv g'"
proof (cases ev)
  case (Input out clock)
  with assms show ?thesis
    using flush_inv [OF onInput_inv [OF assms(1)], of clock out] by (simp add: orderer_step_def onInput_frame)
next
  case (Tick clock)
  with assms show ?thesis
    using flush_inv [OF assms(1)] by (simp add: orderer_step_def)
qed

text \<open>One event of the run loop, as long as ranks fit into 64 bits.\<close>

definition go_step :: "orderer \<Rightarrow> orderer \<Rightarrow> bool" where
  "go_step g h \<longleftrightarrow> (\<exists>ev. h = fst (orderer_step ev g)) \<and>
     unat (go_numInstances g) + length (go_log h) < 2 ^ 64"

interpretation golog: append_log go_log "\<lambda>e. unat (io_Rank e)" "\<lambda>g. unat (go_numInstances g)" go_step go_inv
proof
  fix g h
  assume inv: "go_inv g" and "go_step g h"
  then obtain ev es where ev: "orderer_step ev g = (h, es)"
      and len: "unat (go_numInstances g) + length (go_log h) < 2 ^ 64"
    by (auto simp: go_step_def) (metis prod.collapse)
  show "go_inv h" by (rule orderer_step_inv [OF inv ev len])
  show "prefix (go_log g) (go_log h)" "unat (go_numInstances h) = unat (go_numInstances g)"
    using orderer_step_frame [OF ev] by auto
qed (auto simp: go_inv_def)

lemma orderer_run_log: "orderer_run evs g = (g', es) \<Longrightarrow> go_log g' = go_log g @ es \<and>
    go_numInstances g' = go_numInstances g \<and> go_maxPending g' = go_maxPending g"
proof (induction evs g arbitrary: g' es rule: orderer_run.induct)
  case (2 ev evs g)
  obtain g1 es1 where 1: "orderer_step ev g = (g1, es1)" by fastforce
  obtain g2 es2 where 2: "orderer_run evs g1 = (g2, es2)" by fastforce
  show ?case
    using "2.IH" [OF 1 [symmetric] refl 2] orderer_step_frame [OF 1] "2.prems" by (auto simp: 1 2)
qed simp

lemma orderer_run_steps:
  "orderer_run evs g = (g', es) \<Longrightarrow> unat (go_numInstances g) + length (go_log g') < 2 ^ 64 \<Longrightarrow>
   go_step\<^sup>*\<^sup>* g g'"
proof (induction evs g arbitrary: g' es rule: orderer_run.induct)
  case (2 ev evs g)
  obtain g1 es1 where 1: "orderer_step ev g = (g1, es1)" by fastforce
  obtain g2 es2 where 2: "orderer_run evs g1 = (g2, es2)" by fastforce
  have g2: "g' = g2" using "2.prems"(1) by (simp add: 1 2)
  have "length (go_log g1) \<le> length (go_log g2)" "go_numInstances g1 = go_numInstances g"
    using orderer_run_log [OF 2] orderer_step_frame [OF 1] by auto
  with "2.prems"(2) g2 have "unat (go_numInstances g) + length (go_log g1) < 2 ^ 64"
      "unat (go_numInstances g1) + length (go_log g2) < 2 ^ 64"
    by simp_all
  then have "go_step g g1" "go_step\<^sup>*\<^sup>* g1 g2"
    using "2.IH" [OF 1 [symmetric] refl 2] 1 unfolding go_step_def by (metis fst_conv, simp)
  then show ?case
    unfolding g2 by (rule converse_rtranclp_into_rtranclp)
qed simp

text \<open>Where entries come from: the inputs, or a filled gap.\<close>

definition go_src :: "instance_output set \<Rightarrow> orderer \<Rightarrow> bool" where
  "go_src S g \<longleftrightarrow> (\<forall>k v. fmlookup (go_pending g) k = Some v \<longrightarrow> v \<in> S) \<and>
     (\<forall>e \<in> set (go_log g). io_IsNil e \<or> e \<in> S)"

lemma go_src_emit: "go_src S g \<Longrightarrow> nextToEmit now g = (g', r) \<Longrightarrow> go_src S g'"
  by (auto simp: go_src_def nextToEmit_def nil_entry_def split: option.splits if_splits)

lemma go_src_flush: "go_src S g \<Longrightarrow> flush clock g = (g', es) \<Longrightarrow> go_src S g'"
proof (induction clock g arbitrary: g' es rule: flush.induct)
  case (1 clock g)
  show ?case
  proof (cases rule: flush_cases [of clock g])
    case (1 g1)
    with "1.prems" show ?thesis using go_src_emit by auto
  next
    case (2 g1 e g2 es2)
    with "1.prems" "1.IH" [OF 2(1) [symmetric] refl go_src_emit [OF "1.prems"(1) 2(1)] 2(2)]
    show ?thesis by simp
  qed
qed

lemma go_src_input: "go_src S g \<Longrightarrow> out \<in> S \<Longrightarrow> go_src S (onInput out g)"
  by (auto simp: go_src_def onInput_def split: option.splits if_splits)

lemma go_src_run:
  "go_src S g \<Longrightarrow> {out. \<exists>c. Input out c \<in> set evs} \<subseteq> S \<Longrightarrow> orderer_run evs g = (g', es) \<Longrightarrow> go_src S g'"
proof (induction evs g arbitrary: g' es rule: orderer_run.induct)
  case (2 ev evs g)
  obtain g1 es1 where 1: "orderer_step ev g = (g1, es1)" by fastforce
  obtain g2 es2 where 2: "orderer_run evs g1 = (g2, es2)" by fastforce
  have "go_src S g1"
  proof (cases ev)
    case (Input out clock)
    with 1 "2.prems"(2) have "out \<in> S" "flush clock (onInput out g) = (g1, es1)"
      by (auto simp: orderer_step_def)
    with go_src_flush go_src_input [OF "2.prems"(1)] show ?thesis by blast
  next
    case (Tick clock)
    with 1 go_src_flush [OF "2.prems"(1)] show ?thesis by (simp add: orderer_step_def)
  qed
  with "2.IH" [OF 1 [symmetric] refl _ _ 2] "2.prems" show ?case
    by (auto simp: 1 2)
qed simp

text \<open>
  C25: total order.  Over every sequence of inputs and ticks with any clock readings, the entries
  emitted on the output channel are the log, their ranks are consecutive from the number of
  instances on, every entry carries the instance and height of its rank and is a nil filler or
  one of the inputs, and the buffer never exceeds its limit.
\<close>

theorem orderer_total_order:
  assumes "orderer_run evs (NewGlobalOrdererWithLimit n t m) = (g, es)"
    and "unat n + length es + 1 < 2 ^ 64"
  shows "go_log g = es \<and>
    map (\<lambda>e. unat (io_Rank e)) es = [unat (at_least_one n)..<unat (at_least_one n) + length es] \<and>
    (\<forall>e \<in> set es. io_InstanceID e = io_Rank e mod at_least_one n \<and> io_LocalHeight e = io_Rank e div at_least_one n \<and>
       (io_IsNil e \<or> (\<exists>c. Input e c \<in> set evs))) \<and>
    int (gm_len (go_pending g)) \<le> (if m \<le> 0 then 8192 else m)"
proof -
  let ?g0 = "NewGlobalOrdererWithLimit n t m"
  have n0: "go_numInstances ?g0 = at_least_one n" "go_log ?g0 = []" "go_maxPending ?g0 = (if m \<le> 0 then 8192 else m)"
    by (auto simp: NewGlobalOrdererWithLimit_def Let_def)
  note log = orderer_run_log [OF assms(1)]
  have "unat (at_least_one n) \<le> unat n + 1"
    by (simp add: at_least_one_def)
  then have "unat (go_numInstances ?g0) + length (go_log g) < 2 ^ 64"
    using assms(2) log by (simp add: n0)
  from golog.run_inv [OF orderer_run_steps [OF assms(1) this] go_inv_new] have inv: "go_inv g" by blast
  have "go_src {out. \<exists>c. Input out c \<in> set evs} ?g0"
    by (simp add: go_src_def NewGlobalOrdererWithLimit_def Let_def)
  from go_src_run [OF this subset_refl assms(1)]
  have src: "\<forall>e \<in> set (go_log g). io_IsNil e \<or> (\<exists>c. Input e c \<in> set evs)"
    by (auto simp: go_src_def)
  have n1: "go_numInstances g = at_least_one n" "at_least_one n \<noteq> 0" "go_log g = es"
    using log by (auto simp: n0 at_least_one_def)
  have "\<forall>e \<in> set es. validRankMapping g e"
    using inv n1 by (simp add: go_inv_def)
  then show ?thesis
    using inv src log n0 n1 by (simp add: go_inv_def validRankMapping_def)
qed

definition out_at :: "u64 \<Rightarrow> u64 \<Rightarrow> instance_output" where
  "out_at n r = \<lparr> io_InstanceID = r mod n, io_LocalHeight = r div n, io_Rank = r,
     io_BlockHash = [ucast r], io_Block = None, io_EpochTransitions = [], io_IsNil = False \<rparr>"

definition at_time :: "int \<Rightarrow> nat \<Rightarrow> int" where
  "at_time t n = t"

theorem orderer_total_order_witness:
  "let evs = [Input (out_at 2 3) (at_time 0), Input (out_at 2 2) (at_time 1), Tick (at_time 2), Tick (at_time 99)]
   in map (\<lambda>e. unat (io_Rank e)) (snd (orderer_run evs (NewGlobalOrdererWithLimit 2 10 0))) = [2..<2 + 3]"
proof -
  let ?evs = "[Input (out_at 2 3) (at_time 0), Input (out_at 2 2) (at_time 1), Tick (at_time 2), Tick (at_time 99)]"
  obtain g es where r: "orderer_run ?evs (NewGlobalOrdererWithLimit 2 10 0) = (g, es)" by fastforce
  have "length (snd (orderer_run ?evs (NewGlobalOrdererWithLimit 2 10 0))) = 3"
    by code_simp
  then have len: "length es = 3" by (simp only: r snd_conv)
  have m: "at_least_one 2 = 2" by (simp add: at_least_one_def)
  from orderer_total_order [OF r] show ?thesis
    unfolding Let_def r by (simp add: len m)
qed

section \<open>Progress\<close>

text \<open>After a flush the next rank is not buffered and its absence has been noted.\<close>

lemma flush_drains:
  "flush clock g = (g', es) \<Longrightarrow> fmlookup (go_pending g') (go_nextRank g') = None \<and>
     fmlookup (go_missingSince g') (go_nextRank g') \<noteq> None"
proof (induction clock g arbitrary: g' es rule: flush.induct)
  case (1 clock g)
  show ?case
  proof (cases rule: flush_cases [of clock g])
    case (1 g1)
    with "1.prems" show ?thesis
      by (auto simp: nextToEmit_def split: option.splits if_splits)
  next
    case (2 g1 e g2 es2)
    with "1.prems" "1.IH" [OF 2(1) [symmetric] refl 2(2)] show ?thesis by simp
  qed
qed

text \<open>
  The log never stalls: a flush leaves no emittable entry behind and notes the time from which
  the next rank is missing, and a flush that reads the clock at least \<open>barTimeout\<close> after that time
  emits an entry of the missing rank, whatever the other instances do.
\<close>

theorem missing_rank_does_not_stall:
  assumes "flush clock1 g = (g1, es1)"
  shows "fmlookup (go_pending g1) (go_nextRank g1) = None \<and>
    (\<exists>since. fmlookup (go_missingSince g1) (go_nextRank g1) = Some since \<and>
       (go_barTimeout g1 \<le> clock2 0 - since \<longrightarrow>
          (\<exists>g2 es2. flush clock2 g1 = (g2, nil_entry g1 # es2))))"
proof -
  from flush_drains [OF assms] obtain since where
    p: "fmlookup (go_pending g1) (go_nextRank g1) = None" and
    s: "fmlookup (go_missingSince g1) (go_nextRank g1) = Some since" by auto
  have "\<exists>g2 es2. flush clock2 g1 = (g2, nil_entry g1 # es2)" if "go_barTimeout g1 \<le> clock2 0 - since"
  proof -
    from p s that obtain h where "nextToEmit (clock2 0) g1 = (h, Some (nil_entry g1))"
      by (auto simp: nextToEmit_def not_less)
    then show ?thesis
      by (cases rule: flush_cases [of clock2 g1]) auto
  qed
  with p s show ?thesis by blast
qed

theorem missing_rank_does_not_stall_witness:
  "\<exists>g2 es2. flush (at_time 50) (fst (flush (at_time 7) (NewGlobalOrdererWithLimit 3 10 0))) =
     (g2, nil_entry (fst (flush (at_time 7) (NewGlobalOrdererWithLimit 3 10 0))) # es2)"
proof -
  let ?g0 = "NewGlobalOrdererWithLimit 3 10 0"
  let ?g1 = "fst (flush (at_time 7) ?g0)"
  obtain es1 where r: "flush (at_time 7) ?g0 = (?g1, es1)" by (metis prod.collapse)
  have "go_barTimeout ?g1 = 10 \<and> fmlookup (go_missingSince ?g1) (go_nextRank ?g1) = Some 7"
    by code_simp
  with missing_rank_does_not_stall [OF r, of "at_time 50"] show ?thesis
    by (auto simp: at_time_def)
qed

section \<open>Ranks encode instance and height\<close>

text \<open>
  The rank of a height is accepted by the rank check, and the instance and the height are read
  back from it, as long as the rank fits into a signed 64-bit integer: \<open>VerifyRank\<close> and the
  orderer's mapping agree, and no two heights share a rank.
\<close>

theorem rank_round_trip:
  assumes "unat h * unat n + unat i < 2 ^ 63" and "i < n"
  shows "VerifyRank (NewRankState i n) h (ExpectedRank (NewRankState i n) h) \<and>
    ExpectedRank (NewRankState i n) h mod n = i \<and> ExpectedRank (NewRankState i n) h div n = h \<and>
    (ExpectedRank (NewRankState i n) k = ExpectedRank (NewRankState i n) h \<longrightarrow>
       unat k * unat n + unat i < 2 ^ 63 \<longrightarrow> k = h)"
proof -
  have n: "n \<noteq> 0" "unat i < unat n"
    using assms(2) by (auto simp: word_less_nat_alt)
  have rank: "unat (ExpectedRank (NewRankState i n) k) = unat k * unat n + unat i"
    if "unat k * unat n + unat i < 2 ^ 63" for k
    using that n by (simp add: ExpectedRank_def NewRankState_def at_least_one_def unat_word_ariths)
  have "0 \<le> sint (ExpectedRank (NewRankState i n) h)"
    using assms(1) rank [OF assms(1)] by (subst sint_small) simp_all
  moreover have "ExpectedRank (NewRankState i n) h mod n = i" "ExpectedRank (NewRankState i n) h div n = h"
    using n rank [OF assms(1)] by (simp_all add: word_unat_eq_iff unat_mod unat_div)
  moreover have "k = h" if "ExpectedRank (NewRankState i n) k = ExpectedRank (NewRankState i n) h"
      "unat k * unat n + unat i < 2 ^ 63"
    using rank [OF assms(1)] rank [OF that(2)] that(1) n
    by (simp add: word_unat_eq_iff)
  ultimately show ?thesis by (simp add: VerifyRank_def)
qed

theorem rank_round_trip_witness:
  "VerifyRank (NewRankState 2 3) 5 (ExpectedRank (NewRankState 2 3) 5) \<and>
   ExpectedRank (NewRankState 2 3) 5 div 3 = 5"
  using rank_round_trip [of 5 3 2 0] by (simp add: word_less_nat_alt)

section \<open>Local clocks decide what is nil\<close>

text \<open>
  The choice between a block and a nil filler is made by each node's own clock: two orderers
  that receive the same output of rank 2, one before and one after its timeout, hold different
  entries of rank 2 in their logs for good.
\<close>

theorem orderer_logs_can_differ:
  "let early = [Tick (at_time 0), Input (out_at 2 2) (at_time 1), Tick (at_time 20)];
       late = [Tick (at_time 0), Tick (at_time 20), Input (out_at 2 2) (at_time 21)]
   in map (\<lambda>e. (io_Rank e, io_IsNil e)) (snd (orderer_run early (NewGlobalOrdererWithLimit 2 10 0))) = [(2, False), (3, True)] \<and>
      map (\<lambda>e. (io_Rank e, io_IsNil e)) (snd (orderer_run late (NewGlobalOrdererWithLimit 2 10 0))) = [(2, True)]"
  by code_simp

end
