(* ===== verification/Reputation.thy ===== *)
theory Reputation
  imports Go_Prelude Complex_Main
begin

text \<open>
  Leader reputation (consensus/hotstuff/reputation.go): counters per leader, straggler and crash
  detection, the adaptive timeout and the choice of a fallback leader.  The failure rate and the
  timeout are rational numbers here; the code computes them in float64, which agrees as long as
  the counters stay below \<open>2 ^ 53\<close> and the scaled timeout is representable (with the default
  configuration every intermediate value is).  The latency and event windows, which only feed the
  trust features, are not modelled.
\<close>

record leader_record =
  lr_successes :: u64
  lr_timeouts :: u64
  lr_nilBlocks :: u64
  lr_consecutive :: u64

record reputation_config =
  rc_BaseTimeoutMs :: int
  rc_MaxTimeoutMs :: int
  rc_TimeoutMultiplier :: rat
  rc_StragglerThreshold :: rat
  rc_MinSamples :: u64
  rc_MaxConsecutive :: u64

record reputation =
  rep_records :: "(u64, leader_record) fmap"
  rep_config :: reputation_config

definition DefaultReputationConfig :: reputation_config where
  "DefaultReputationConfig = \<lparr> rc_BaseTimeoutMs = 1000, rc_MaxTimeoutMs = 15000,
     rc_TimeoutMultiplier = 3 / 2, rc_StragglerThreshold = 1 / 2, rc_MinSamples = 3, rc_MaxConsecutive = 5 \<rparr>"

definition NewLeaderReputation :: "reputation_config \<Rightarrow> reputation" where
  "NewLeaderReputation c = \<lparr> rep_records = fmempty, rep_config = c\<lparr>
     rc_BaseTimeoutMs := (if rc_BaseTimeoutMs c \<le> 0 then 2000 else rc_BaseTimeoutMs c),
     rc_MaxTimeoutMs := (if rc_MaxTimeoutMs c \<le> 0 then 30000 else rc_MaxTimeoutMs c),
     rc_TimeoutMultiplier := (if rc_TimeoutMultiplier c \<le> 1 then 3 / 2 else rc_TimeoutMultiplier c),
     rc_StragglerThreshold := (if rc_StragglerThreshold c \<le> 0 \<or> 1 < rc_StragglerThreshold c then 1 / 2
        else rc_StragglerThreshold c),
     rc_MinSamples := (if rc_MinSamples c = 0 then 3 else rc_MinSamples c),
     rc_MaxConsecutive := (if rc_MaxConsecutive c = 0 then 5 else rc_MaxConsecutive c) \<rparr> \<rparr>"

definition rep_get :: "reputation \<Rightarrow> u64 \<Rightarrow> leader_record" where
  "rep_get lr i = (case fmlookup (rep_records lr) i of Some r \<Rightarrow> r
     | None \<Rightarrow> \<lparr> lr_successes = 0, lr_timeouts = 0, lr_nilBlocks = 0, lr_consecutive = 0 \<rparr>)"

definition rep_update :: "u64 \<Rightarrow> (leader_record \<Rightarrow> leader_record) \<Rightarrow> reputation \<Rightarrow> reputation" where
  "rep_update i f lr = lr\<lparr>rep_records := fmupd i (f (rep_get lr i)) (rep_records lr)\<rparr>"

definition RecordSuccess :: "u64 \<Rightarrow> reputation \<Rightarrow> reputation" where
  "RecordSuccess i = rep_update i (\<lambda>r. r\<lparr>lr_successes := lr_successes r + 1, lr_consecutive := 0\<rparr>)"

definition RecordTimeout :: "u64 \<Rightarrow> reputation \<Rightarrow> reputation" where
  "RecordTimeout i = rep_update i (\<lambda>r. r\<lparr>lr_timeouts := lr_timeouts r + 1, lr_consecutive := lr_consecutive r + 1\<rparr>)"

definition RecordNilBlock :: "u64 \<Rightarrow> reputation \<Rightarrow> reputation" where
  "RecordNilBlock i = rep_update i (\<lambda>r. r\<lparr>lr_nilBlocks := lr_nilBlocks r + 1\<rparr>)"

definition SetBaseTimeoutMs :: "int \<Rightarrow> reputation \<Rightarrow> reputation" where
  "SetBaseTimeoutMs t lr = (if 0 < t then lr\<lparr>rep_config := (rep_config lr)\<lparr>rc_BaseTimeoutMs := t\<rparr>\<rparr> else lr)"

text \<open>The backoff loop: multiply once per consecutive timeout, stop at the maximum.\<close>

fun backoff :: "rat \<Rightarrow> rat \<Rightarrow> nat \<Rightarrow> rat \<Rightarrow> rat" where
  "backoff factor mx 0 t = t"
| "backoff factor mx (Suc n) t = (if mx \<le> t * factor then mx else backoff factor mx n (t * factor))"

text \<open>In nanoseconds, as a \<open>time.Duration\<close>; the conversion to an integer truncates.\<close>

definition AdaptiveTimeout :: "u64 \<Rightarrow> reputation \<Rightarrow> int" where
  "AdaptiveTimeout i lr =
     (let c = rep_config lr; base = rc_BaseTimeoutMs c
      in case fmlookup (rep_records lr) i of None \<Rightarrow> base * 1000000
         | Some r \<Rightarrow> if lr_consecutive r = 0 then base * 1000000
             else \<lfloor>backoff (rc_TimeoutMultiplier c) (of_int (rc_MaxTimeoutMs c))
                     (unat (lr_consecutive r)) (of_int base)\<rfloor> * 1000000)"

definition failures :: "leader_record \<Rightarrow> u64" where
  "failures r = lr_timeouts r + lr_nilBlocks r"

definition samples :: "leader_record \<Rightarrow> u64" where
  "samples r = lr_successes r + lr_timeouts r + lr_nilBlocks r"

definition fail_rate :: "leader_record \<Rightarrow> rat" where
  "fail_rate r = of_nat (unat (failures r)) / of_nat (unat (samples r))"

definition IsStraggler :: "reputation \<Rightarrow> u64 \<Rightarrow> bool" where
  "IsStraggler lr i = (case fmlookup (rep_records lr) i of None \<Rightarrow> False
     | Some r \<Rightarrow> \<not> samples r < rc_MinSamples (rep_config lr) \<and> rc_StragglerThreshold (rep_config lr) < fail_rate r)"

definition IsCrashed :: "reputation \<Rightarrow> u64 \<Rightarrow> bool" where
  "IsCrashed lr i = (case fmlookup (rep_records lr) i of None \<Rightarrow> False
     | Some r \<Rightarrow> rc_MaxConsecutive (rep_config lr) \<le> lr_consecutive r)"

text \<open>The scan of the candidates after the primary, with the best of the stragglers so far.\<close>

fun fallback_scan :: "reputation \<Rightarrow> u64 list \<Rightarrow> u64 \<Rightarrow> rat \<Rightarrow> u64" where
  "fallback_scan lr [] best rate = best"
| "fallback_scan lr (c # cs) best rate =
     (if \<not> IsStraggler lr c then c
      else (case fmlookup (rep_records lr) c of None \<Rightarrow> c
        | Some r \<Rightarrow> if samples r = 0 then c
            else if fail_rate r < rate then fallback_scan lr cs c (fail_rate r)
            else fallback_scan lr cs best rate))"

text \<open>\<open>validatorIDs[(primaryIdx + offset) % n]\<close> for \<open>offset = 1, ..., n - 1\<close>.\<close>

definition candidates :: "nat \<Rightarrow> u64 list \<Rightarrow> u64 list" where
  "candidates k ids = map (\<lambda>offset. ids ! ((k + offset) mod length ids)) [1..<length ids]"

definition SelectFallbackLeader :: "reputation \<Rightarrow> u64 \<Rightarrow> u64 list \<Rightarrow> u64" where
  "SelectFallbackLeader lr primary ids =
     (if ids = [] then primary
      else if primary \<notin> set ids then ids ! 0
      else fallback_scan lr (candidates (length (takeWhile (\<lambda>i. i \<noteq> primary) ids)) ids) primary 2)"

section \<open>Bounds and choices\<close>

lemma backoff_bounds:
  "1 < factor \<Longrightarrow> 0 < t \<Longrightarrow> t \<le> mx \<Longrightarrow> t \<le> backoff factor mx n t \<and> backoff factor mx n t \<le> mx"
proof (induction n arbitrary: t)
  case (Suc n)
  have "t \<le> t * factor" using Suc.prems by simp
  moreover from this Suc.prems have "0 < t * factor" by simp
  ultimately show ?case
    using Suc.IH [of "t * factor"] Suc.prems by (auto simp: not_le intro: order_trans [of t "t * factor"])
qed simp

lemma fallback_scan_range: "fallback_scan lr cs best rate \<in> insert best (set cs)"
  by (induction lr cs best rate rule: fallback_scan.induct) (auto split: option.splits)

lemma straggler_samples:
  assumes "IsStraggler lr c" and "rc_MinSamples (rep_config lr) \<noteq> 0"
  shows "\<exists>r. fmlookup (rep_records lr) c = Some r \<and> samples r \<noteq> 0"
  using assms by (auto simp: IsStraggler_def word_gt_0 split: option.splits)

lemma fallback_scan_good:
  assumes "rc_MinSamples (rep_config lr) \<noteq> 0" and "\<exists>c \<in> set cs. \<not> IsStraggler lr c"
  shows "\<not> IsStraggler lr (fallback_scan lr cs best rate)"
  using assms(2)
proof (induction cs arbitrary: best rate)
  case (Cons c cs)
  show ?case
  proof (cases "IsStraggler lr c")
    case True
    then obtain r where r: "fmlookup (rep_records lr) c = Some r" "samples r \<noteq> 0"
      using straggler_samples [OF _ assms(1)] by blast
    have "\<not> IsStraggler lr (fallback_scan lr cs b q)" for b q
      using Cons True by auto
    with True r show ?thesis by (cases "fail_rate r < rate") simp_all
  qed simp
qed simp

lemma candidates_members: "set (candidates k ids) \<subseteq> set ids"
  by (auto simp: candidates_def intro!: nth_mem mod_less_divisor)

lemma candidates_cover:
  assumes "k < length ids"
  shows "set ids \<subseteq> insert (ids ! k) (set (candidates k ids))"
proof
  fix x assume "x \<in> set ids"
  then obtain j where j: "j < length ids" "x = ids ! j"
    by (auto simp: in_set_conv_nth)
  define off where "off = (if k \<le> j then j - k else j + length ids - k)"
  have off: "(k + off) mod length ids = j" "off < length ids"
    using j assms by (auto simp: off_def)
  show "x \<in> insert (ids ! k) (set (candidates k ids))"
  proof (cases "off = 0")
    case True
    with off assms j show ?thesis by simp
  next
    case False
    with off(2) have "off \<in> set [1..<length ids]" by auto
    with off(1) j(2) show ?thesis
      by (auto simp: candidates_def intro!: image_eqI [of _ _ off])
  qed
qed

text \<open>
  The fallback leader is the primary or a listed validator, and whenever some validator other
  than the primary is not a straggler, the fallback is not a straggler.
\<close>

theorem fallback_leader_good:
  assumes "rc_MinSamples (rep_config lr) \<noteq> 0" and "primary \<in> set ids"
  shows "SelectFallbackLeader lr primary ids \<in> set ids \<and>
    ((\<exists>c \<in> set ids. c \<noteq> primary \<and> \<not> IsStraggler lr c) \<longrightarrow>
       \<not> IsStraggler lr (SelectFallbackLeader lr primary ids))"
proof -
  let ?k = "length (takeWhile (\<lambda>i. i \<noteq> primary) ids)"
  have k: "?k < length ids" "ids ! ?k = primary"
  proof -
    obtain ys zs where "ids = ys @ primary # zs" "primary \<notin> set ys"
      using split_list_first [OF assms(2)] by blast
    then have "takeWhile (\<lambda>i. i \<noteq> primary) ids = ys" "ids = ys @ primary # zs"
      by (auto simp: takeWhile_append)
    then show "?k < length ids" "ids ! ?k = primary"
      by (simp_all add: nth_append)
  qed
  have "ids \<noteq> []" using assms(2) by auto
  then have eq: "SelectFallbackLeader lr primary ids = fallback_scan lr (candidates ?k ids) primary 2"
    using assms(2) by (simp add: SelectFallbackLeader_def)
  have "fallback_scan lr (candidates ?k ids) primary 2 \<in> set ids"
    using fallback_scan_range [of lr "candidates ?k ids" primary 2] candidates_members [of ?k ids] assms(2) by auto
  moreover have "\<not> IsStraggler lr (fallback_scan lr (candidates ?k ids) primary 2)"
    if "c \<in> set ids" "c \<noteq> primary" "\<not> IsStraggler lr c" for c
  proof (rule fallback_scan_good [OF assms(1)])
    show "\<exists>c \<in> set (candidates ?k ids). \<not> IsStraggler lr c"
      using candidates_cover [OF k(1)] that by (auto simp: k(2))
  qed
  ultimately show ?thesis
    unfolding eq by blast
qed

definition shaky :: reputation where
  "shaky = fold RecordTimeout [1, 1, 1, 2, 2, 2] (NewLeaderReputation DefaultReputationConfig)"

theorem fallback_leader_good_witness:
  "IsStraggler shaky 2 \<and> \<not> IsStraggler shaky (SelectFallbackLeader shaky 1 [1, 2, 3])"
proof
  have three: "\<not> IsStraggler shaky 3"
    by (simp add: shaky_def IsStraggler_def RecordTimeout_def rep_update_def NewLeaderReputation_def)
  have "rc_MinSamples (rep_config shaky) = 3"
    by (simp add: shaky_def RecordTimeout_def rep_update_def NewLeaderReputation_def DefaultReputationConfig_def)
  with fallback_leader_good [of shaky 1 "[1, 2, 3]"] three
  show "\<not> IsStraggler shaky (SelectFallbackLeader shaky 1 [1, 2, 3])" by auto
  show "IsStraggler shaky 2"
    by code_simp
qed

end
