(* ===== verification/Engine_State.thy ===== *)
theory Engine_State
  imports Block_Tree Pacemaker View_Change Orderer Qc_Verification Beacon Reputation
begin

text \<open>
  The state of the consensus engine and the operations that do not send messages
  (consensus/hotstuff/engine.go).  An engine runs one instance (lane); the run loop handles one
  message or timer at a time, so a handler is one step.  What the engine sends is appended to
  \<open>e_out\<close>; what its attached components answer (the network, the mempool, Hydra, the BLS beacon)
  and the cryptography are fields of \<open>engine_env\<close>.  A panic of the process is the value \<open>None\<close>.
\<close>

section \<open>State\<close>

datatype FaultClass = FaultClassNone | FaultClassDegraded | FaultClassUnavailable | FaultClassByzantine

text \<open>Which Global Beacon Chain object is attached.\<close>

datatype gbc_link = NoGbc | ViaNode | ViaLog

datatype engine_out = Publish message | Unicast u64 message | Output instance_output
  | GbcPropose bytes | GbcPublish bytes | HydraMarkFault u64 FaultClass | HydraTrigger u64 u64

record vote_collector =
  vcl_qc :: quorum_certificate
  vcl_signers :: "u64 fset"
  vcl_done :: bool

text \<open>
  \<open>ev_hydra\<close> is the list \<open>AllowedLeaders\<close> of an attached Hydra manager; \<open>ev_bls\<close> is the verified
  BLS aggregate of a signature map when one can be built; \<open>ev_message_json\<close> and \<open>ev_tx_json\<close> are
  the JSON encodings.
\<close>

record engine_env =
  ev_verify :: verifier
  ev_sign :: "bytes \<Rightarrow> bytes \<Rightarrow> bytes"
  ev_sha256 :: "bytes \<Rightarrow> bytes"
  ev_config_json :: config_json
  ev_message_json :: "message \<Rightarrow> bytes"
  ev_tx_json :: "transaction option \<Rightarrow> bytes"
  ev_bls :: "(u64, bytes) fmap \<Rightarrow> bytes option"
  ev_vrf_prove :: vrf_prover
  ev_vrf_verify :: vrf_verifier
  ev_now :: i64
  ev_get_vertex :: "bytes \<Rightarrow> vertex option"
  ev_publish_ok :: "message \<Rightarrow> bool"
  ev_unicast_ok :: "u64 \<Rightarrow> message \<Rightarrow> bool"
  ev_hydra :: "u64 list option"

record engine =
  e_nodeID :: u64
  e_publicKey :: bytes
  e_privateKey :: bytes
  e_instanceID :: u64
  e_hasOutput :: bool
  e_gbc :: gbc_link
  e_timeoutMs :: int
  e_rankState :: rank_state
  e_currentEpoch :: u64
  e_valSet :: validator_set
  e_blockTree :: block_tree
  e_pacemaker :: pacemaker
  e_selector :: "u64 list option"
  e_vcm :: vcm
  e_seed :: bytes
  e_reputation :: reputation
  e_vrfPrivKey :: "bytes option"
  e_committeeSize :: int
  e_vrfPubKeys :: "(u64, bytes) fmap"
  e_voteCollectors :: "(string, vote_collector) fmap"
  e_lastCommittedHeight :: u64
  e_seenProposals :: "(u64, (u64, bytes) fmap) fmap"
  e_pendingCerts :: "vertex_certificate option list"
  e_lastProposedView :: u64
  e_rejected :: "(string, u64) fmap"
  e_out :: "engine_out list"

definition emit :: "engine_out list \<Rightarrow> engine \<Rightarrow> engine" where
  "emit xs e = e\<lparr>e_out := e_out e @ xs\<rparr>"

definition incRejected :: "string \<Rightarrow> engine \<Rightarrow> engine" where
  "incRejected reason e = e\<lparr>e_rejected := fmupd reason
     (case fmlookup (e_rejected e) reason of Some n \<Rightarrow> n + 1 | None \<Rightarrow> 1) (e_rejected e)\<rparr>"

text \<open>A sequence of guards with the reason counted when one fails; \<open>None\<close> when all hold.\<close>

fun failed_check :: "(bool \<times> string) list \<Rightarrow> string option" where
  "failed_check [] = None"
| "failed_check ((good, reason) # cs) = (if good then failed_check cs else Some reason)"

lemma failed_check_None: "failed_check cs = None \<longleftrightarrow> (\<forall>c \<in> set cs. fst c)"
  by (induction cs rule: failed_check.induct) auto

section \<open>Snapshots\<close>

definition configID :: "engine \<Rightarrow> u64" where
  "configID e = vs_Epoch (e_valSet e)"

definition leader_set_hash :: "engine_env \<Rightarrow> engine \<Rightarrow> bytes" where
  "leader_set_hash env e = ValidatorSet_Hash (ev_sha256 env) (ev_config_json env)
     (gm_keys (vs_Validators (e_valSet e))) (e_valSet e)"

definition leaderSetHashForConfigID :: "engine_env \<Rightarrow> engine \<Rightarrow> u64 \<Rightarrow> bytes" where
  "leaderSetHashForConfigID env e cid = (if configID e \<noteq> cid then [] else leader_set_hash env e)"

definition resolveValidatorPubKeyByID :: "engine \<Rightarrow> u64 \<Rightarrow> bytes option" where
  "resolveValidatorPubKeyByID e i = map_option v_PublicKey (get_validator (vs_Validators (e_valSet e)) i)"

text \<open>The first validator with the key; the iteration order only matters for shared keys.\<close>

definition resolveValidatorID :: "engine \<Rightarrow> bytes \<Rightarrow> u64 option" where
  "resolveValidatorID e author =
     find (\<lambda>i. resolveValidatorPubKeyByID e i = Some author) (gm_keys (vs_Validators (e_valSet e)))"

definition validatorIDsFromSet :: "validator_set \<Rightarrow> u64 list" where
  "validatorIDsFromSet vs = filter (\<lambda>i. case get_validator (vs_Validators vs) i of
     Some v \<Rightarrow> v_IsActive v | None \<Rightarrow> False) (gm_keys (vs_Validators vs))"

definition allowedLeaderIDs :: "engine_env \<Rightarrow> validator_set \<Rightarrow> u64 list" where
  "allowedLeaderIDs env vs = (case ev_hydra env of None \<Rightarrow> validatorIDsFromSet vs
     | Some ids \<Rightarrow> if ids = [] then validatorIDsFromSet vs else ids)"

definition IsAllowedLeader :: "engine_env \<Rightarrow> u64 \<Rightarrow> bool" where
  "IsAllowedLeader env i = (case ev_hydra env of None \<Rightarrow> True | Some ids \<Rightarrow> ids = [] \<or> i \<in> set ids)"

section \<open>Leaders\<close>

text \<open>
  The selector closure installed by \<open>refreshLeaderSelectorFor\<close> reads the beacon when it is
  called; \<open>e_selector\<close> is the list it captured.
\<close>

definition current_pacemaker :: "engine_env \<Rightarrow> engine \<Rightarrow> pacemaker" where
  "current_pacemaker env e = SetLeaderSelector
     (map_option (\<lambda>allowed view. if allowed = [] then 0
        else SelectLeader (ev_sha256 env) (e_seed e) view (e_instanceID e) allowed) (e_selector e))
     (e_pacemaker e)"

definition leader_of :: "engine_env \<Rightarrow> engine \<Rightarrow> u64 \<Rightarrow> u64" where
  "leader_of env e view = GetLeader (current_pacemaker env e) view"

definition current_view :: "engine \<Rightarrow> u64" where
  "current_view e = pm_currentView (e_pacemaker e)"

definition advance :: "u64 \<Rightarrow> engine \<Rightarrow> engine" where
  "advance view e = e\<lparr>e_pacemaker := fst (AdvanceView view (e_pacemaker e))\<rparr>"

definition refreshLeaderSelectorFor :: "engine_env \<Rightarrow> validator_set \<Rightarrow> engine \<Rightarrow> engine" where
  "refreshLeaderSelectorFor env vs e =
     (let allowed = allowedLeaderIDs env vs;
          e1 = (if allowed = [] then e else e\<lparr>e_pacemaker := UpdateValidators allowed (e_pacemaker e)\<rparr>)
      in e1\<lparr>e_selector := (if e_committeeSize e = 0 then None else Some allowed)\<rparr>)"

definition resetPacemaker :: "engine_env \<Rightarrow> validator_set \<Rightarrow> engine \<Rightarrow> engine" where
  "resetPacemaker env vs e =
     (let ids = validatorIDsFromSet vs;
          valIDs = (if ids = [] then allowedLeaderIDs env vs else ids)
      in refreshLeaderSelectorFor env vs (e\<lparr>e_pacemaker := NewPacemakerWithLane valIDs
           (if e_timeoutMs e \<le> 0 then 2000 else e_timeoutMs e) (e_instanceID e)\<rparr>))"

text \<open>The leader a node acts for: the fallback when the primary is slow or crashed.\<close>

definition effective_leader :: "engine_env \<Rightarrow> engine \<Rightarrow> u64" where
  "effective_leader env e =
     (let leader = leader_of env e (current_view e)
      in if IsStraggler (e_reputation e) leader \<or> IsCrashed (e_reputation e) leader
         then SelectFallbackLeader (e_reputation e) leader (validatorIDsFromSet (e_valSet e))
         else leader)"

section \<open>Signatures\<close>

definition signed :: "engine_env \<Rightarrow> engine \<Rightarrow> message \<Rightarrow> message" where
  "signed env e m = m\<lparr>m_Signature := ev_sign env (e_privateKey e) (ev_message_json env (m\<lparr>m_Signature := []\<rparr>))\<rparr>"

definition m_VerifySignature :: "engine_env \<Rightarrow> message \<Rightarrow> bytes \<Rightarrow> bool" where
  "m_VerifySignature env m pk \<longleftrightarrow> m_Signature m \<noteq> [] \<and>
     ev_verify env pk (ev_message_json env (m\<lparr>m_Signature := []\<rparr>)) (m_Signature m)"

definition eng_verifyQC :: "engine_env \<Rightarrow> engine \<Rightarrow> quorum_certificate option \<Rightarrow> bool" where
  "eng_verifyQC env e qc = verifyQC (ev_verify env) (e_valSet e) qc"

definition tc_valid_sig :: "engine_env \<Rightarrow> engine \<Rightarrow> timeout_certificate \<Rightarrow> u64 \<Rightarrow> bool" where
  "tc_valid_sig env e tc i =
     (case (resolveValidatorPubKeyByID e i, fmlookup (tc_Signatures tc) i) of
        (Some pk, Some s) \<Rightarrow> ev_verify env pk
          (TimeoutSigningBytes (tc_View tc) (tc_Epoch tc) (tc_ConfigID tc) (tc_Lane tc)) s
      | _ \<Rightarrow> False)"

definition verifyTC :: "engine_env \<Rightarrow> engine \<Rightarrow> timeout_certificate option \<Rightarrow> bool" where
  "verifyTC env e tcp = (case tcp of None \<Rightarrow> False
     | Some tc \<Rightarrow> gm_len (tc_Signatures tc) \<noteq> 0 \<and> tc_Epoch tc = e_currentEpoch e \<and>
         tc_ConfigID tc = configID e \<and> tc_Lane tc = e_instanceID e \<and>
         vs_QuorumSize (e_valSet e) \<le>
           of_nat (length (filter (tc_valid_sig env e tc) (gm_keys (tc_Signatures tc)))))"

text \<open>The fallback of \<open>aggregateSignatures\<close>: a digest of the signatures in signer order.\<close>

definition aggregateSignatures :: "engine_env \<Rightarrow> (u64, bytes) fmap \<Rightarrow> bytes" where
  "aggregateSignatures env sigs = (case ev_bls env sigs of Some agg \<Rightarrow> agg
     | None \<Rightarrow> ev_sha256 env (concat (map (\<lambda>i. be64 i @ the (fmlookup sigs i)) (gm_keys sigs))))"

section \<open>Commits\<close>

text \<open>The key of a vote collector: two hexadecimal texts with a dash between them.\<close>

definition collectorKey :: "u64 \<Rightarrow> u64 \<Rightarrow> u64 \<Rightarrow> u64 \<Rightarrow> bytes \<Rightarrow> string" where
  "collectorKey view epoch cid lane blockHash =
     hex_encode blockHash @ ''-'' @ hex_encode (be64 view @ be64 epoch @ be64 cid @ be64 lane)"

definition gcVoteCollectors :: "engine \<Rightarrow> engine" where
  "gcVoteCollectors e =
     (if current_view e \<le> 10 then e
      else let threshold = current_view e - 10
        in e\<lparr> e_voteCollectors := fmfilter (\<lambda>k. case fmlookup (e_voteCollectors e) k of
                 Some c \<Rightarrow> \<not> (vcl_done c \<or> qc_View (vcl_qc c) < threshold) | None \<Rightarrow> True) (e_voteCollectors e),
              e_seenProposals := fmfilter (\<lambda>view. \<not> view < threshold) (e_seenProposals e),
              e_vcm := GCCollectors threshold (e_vcm e) \<rparr>)"

definition gbc_out :: "engine \<Rightarrow> block \<Rightarrow> engine_out list" where
  "gbc_out e b = (case e_gbc e of NoGbc \<Rightarrow> [] | ViaNode \<Rightarrow> [GbcPropose (b_Hash b)] | ViaLog \<Rightarrow> [GbcPublish (b_Hash b)])"

definition committed_output :: "engine \<Rightarrow> block \<Rightarrow> instance_output" where
  "committed_output e b = \<lparr> io_InstanceID = e_instanceID e, io_LocalHeight = b_Height b,
     io_Rank = ExpectedRank (e_rankState e) (b_Height b), io_BlockHash = b_Hash b, io_Block = Some b,
     io_EpochTransitions = [], io_IsNil = False \<rparr>"

definition onBlockCommitted :: "block \<Rightarrow> engine \<Rightarrow> engine" where
  "onBlockCommitted b e =
     (let e1 = e\<lparr> e_lastCommittedHeight := (if e_lastCommittedHeight e < b_Height b then b_Height b
            else e_lastCommittedHeight e),
          e_reputation := (if b_Payload b = [] \<and> b_Data b = [] then RecordNilBlock (b_LeaderID b)
            else RecordSuccess (b_LeaderID b)) (e_reputation e) \<rparr>;
          e2 = emit (gbc_out e b) (gcVoteCollectors e1);
          e3 = e2\<lparr> e_rankState := fst (rs_OnCommit (b_Height b) (e_rankState e2)) \<rparr>
      in if e_hasOutput e then emit [Output (committed_output e3 b)] e3 else e3)"

text \<open>Processing a block with the commit callback: the result also tells a rejected insertion.\<close>

definition process_block :: "block \<Rightarrow> engine \<Rightarrow> (engine \<times> bool) option" where
  "process_block b e = (case ProcessBlock (e_blockTree e) (Some b) of
     PutRejected \<Rightarrow> Some (e, False)
   | Panicked \<Rightarrow> None
   | Processed bt ev \<Rightarrow> Some (fold onBlockCommitted (commits ev) (e\<lparr>e_blockTree := bt\<rparr>), True))"

end
