(* ===== verification/Engine_Steps.thy ===== *)
theory Engine_Steps
  imports Engine_State
begin

text \<open>
  The handlers of the consensus engine (consensus/hotstuff/engine.go): construction, votes and
  proposals, timeouts and timeout certificates, new views, epoch changes, and the dispatch of
  messages with all its guards in the order of the code.  A handler returns \<open>None\<close> when the
  process panics: on a block hash shorter than four bytes that is logged, or on sortition with a
  total weight of zero.
\<close>

section \<open>Construction\<close>

definition NewEngine ::
  "engine_env \<Rightarrow> u64 \<Rightarrow> bytes \<Rightarrow> bytes \<Rightarrow> validator_set \<Rightarrow> storage \<Rightarrow> u64 \<Rightarrow> u64 \<Rightarrow> bool \<Rightarrow> int \<Rightarrow> int \<Rightarrow>
   bytes \<Rightarrow> bytes \<Rightarrow> bytes \<Rightarrow> engine" where
  "NewEngine env nodeID pub priv vs sm instanceID numInstances hasOutput timeoutMs0 committee vrfPriv vrfPub genesis =
     (let timeoutMs = (if timeoutMs0 \<le> 0 then 500 else timeoutMs0);
          bt = SetCommitCallback (SetFastPathThreshold (of_nat (gm_len (vs_Validators vs)))
                 (NewBlockTreeWithEpoch sm (vs_Epoch vs)))
      in resetPacemaker env vs
        \<lparr> e_nodeID = nodeID, e_publicKey = pub, e_privateKey = priv, e_instanceID = instanceID,
          e_hasOutput = hasOutput, e_gbc = NoGbc, e_timeoutMs = timeoutMs,
          e_rankState = SetHighestLocalHeight (GetLatestBlockHeight sm) (NewRankState instanceID numInstances),
          e_currentEpoch = vs_Epoch vs, e_valSet = vs, e_blockTree = bt,
          e_pacemaker = NewPacemakerWithLane [] timeoutMs instanceID, e_selector = None,
          e_vcm = NewViewChangeManager nodeID, e_seed = genesis,
          e_reputation = NewLeaderReputation (DefaultReputationConfig\<lparr>rc_BaseTimeoutMs := timeoutMs\<rparr>),
          e_vrfPrivKey = Some vrfPriv, e_committeeSize = committee,
          e_vrfPubKeys = fmupd nodeID vrfPub fmempty, e_voteCollectors = fmempty,
          e_lastCommittedHeight = 0, e_seenProposals = fmempty, e_pendingCerts = [],
          e_lastProposedView = 0, e_rejected = fmempty, e_out = [] \<rparr>)"

section \<open>Votes\<close>

definition vote_checks :: "engine_env \<Rightarrow> engine \<Rightarrow> vote \<Rightarrow> string option" where
  "vote_checks env e v = failed_check
     [(vt_View v = current_view e \<or> vt_View v + 1 = current_view e, ''vote_view_mismatch''),
      (vt_Epoch v = e_currentEpoch e, ''vote_epoch_mismatch''),
      (vt_ConfigID v = configID e, ''vote_config_mismatch''),
      (vt_Lane v = e_instanceID e, ''vote_lane_mismatch''),
      (vote_Verify (ev_verify env) v, ''invalid_vote_signature''),
      (resolveValidatorID e (vt_Author v) \<noteq> None, ''unknown_vote_author'')]"

text \<open>The outer \<open>None\<close> is the panic of the sortition test.\<close>

definition committee_check :: "engine_env \<Rightarrow> engine \<Rightarrow> u64 \<Rightarrow> vote \<Rightarrow> string option option" where
  "committee_check env e i v =
     (if e_committeeSize e \<le> 0 then Some None
      else if vt_VRFProof v = [] then Some (Some ''missing_vrf_proof'')
      else (case fmlookup (e_vrfPubKeys e) i of None \<Rightarrow> Some (Some ''missing_vrf_pubkey'')
        | Some pk \<Rightarrow> map_option (\<lambda>good. if good then None else Some ''invalid_vrf_proof'')
            (VerifyCommitteeMember (ev_vrf_verify env) pk (e_seed e) (vt_VRFProof v)
               (vs_TotalPower (e_valSet e)) (e_committeeSize e))))"

definition vote_key :: "vote \<Rightarrow> string" where
  "vote_key v = collectorKey (vt_View v) (vt_Epoch v) (vt_ConfigID v) (vt_Lane v) (vt_BlockID v)"

definition collector_for :: "engine \<Rightarrow> vote \<Rightarrow> vote_collector" where
  "collector_for e v = (case fmlookup (e_voteCollectors e) (vote_key v) of Some c \<Rightarrow> c
     | None \<Rightarrow> \<lparr> vcl_qc = NewQuorumCertificateWithIdentity (vt_BlockID v) (vt_View v) (vt_Epoch v)
           (vt_ConfigID v) (vt_Lane v) PhasePrepare, vcl_signers = {||}, vcl_done = False \<rparr>)"

definition put_vote_collector :: "vote \<Rightarrow> vote_collector \<Rightarrow> engine \<Rightarrow> engine" where
  "put_vote_collector v c e = e\<lparr>e_voteCollectors := fmupd (vote_key v) c (e_voteCollectors e)\<rparr>"

definition vote_quorum :: "engine \<Rightarrow> u64" where
  "vote_quorum e = (if 0 < e_committeeSize e then word_of_int (e_committeeSize e) * 2 div 3 + 1
     else vs_QuorumSize (e_valSet e))"

definition add_vote :: "u64 \<Rightarrow> vote \<Rightarrow> vote_collector \<Rightarrow> vote_collector" where
  "add_vote i v c = c\<lparr> vcl_signers := finsert i (vcl_signers c),
     vcl_qc := qc_AddSignature (vcl_qc c) i (vt_Signature v) \<rparr>"

text \<open>The flag says that a certificate was formed and the handler goes on to \<open>tryPropose\<close>.\<close>

definition record_vote :: "engine_env \<Rightarrow> u64 \<Rightarrow> vote \<Rightarrow> engine \<Rightarrow> engine \<times> bool" where
  "record_vote env i v e =
     (let c = collector_for e v
      in if vcl_done c \<or> i |\<in>| vcl_signers c then (put_vote_collector v c e, False)
         else
           (let c1 = add_vote i v c
            in if \<not> qc_IsComplete (vcl_qc c1) (vote_quorum e) then (put_vote_collector v c1 e, False)
               else if \<not> eng_verifyQC env e (Some (vcl_qc c1))
                 then (incRejected ''invalid_qc'' (put_vote_collector v c1 e), False)
               else
                 (let qc = (vcl_qc c1)\<lparr>qc_AggregatedSig := aggregateSignatures env (qc_Signatures (vcl_qc c1))\<rparr>;
                      e1 = put_vote_collector v (c1\<lparr>vcl_qc := qc, vcl_done := True\<rparr>) e
                  in (advance (qc_View qc) (e1\<lparr>e_blockTree := OnVoteQC (e_blockTree e1) (Some qc)\<rparr>), True))))"

definition vote_core :: "engine_env \<Rightarrow> vote \<Rightarrow> engine \<Rightarrow> (engine \<times> bool) option" where
  "vote_core env v e = (case vote_checks env e v of
     Some reason \<Rightarrow> Some (incRejected reason e, False)
   | None \<Rightarrow> (case resolveValidatorID e (vt_Author v) of None \<Rightarrow> Some (e, False)
      | Some i \<Rightarrow> (case committee_check env e i v of None \<Rightarrow> None
         | Some (Some reason) \<Rightarrow> Some (incRejected reason e, False)
         | Some None \<Rightarrow> Some (record_vote env i v e))))"

section \<open>Proposals of this node\<close>

text \<open>The data of a new block: the first transaction of the first certificate's vertex.\<close>

definition nextBlockData :: "engine_env \<Rightarrow> vertex_certificate option list \<Rightarrow> bytes option" where
  "nextBlockData env certs = (case certs of [] \<Rightarrow> Some []
     | None # _ \<Rightarrow> None
     | Some c # _ \<Rightarrow> Some (case ev_get_vertex env (vc_VertexHash c) of None \<Rightarrow> []
         | Some vx \<Rightarrow> (case vx_Txs vx of [] \<Rightarrow> [] | tx # _ \<Rightarrow> ev_tx_json env tx)))"

definition proposal_parent :: "engine \<Rightarrow> bytes" where
  "proposal_parent e = (case bt_highQC (e_blockTree e) of
     Some qc \<Rightarrow> if qc_BlockHash qc = [] then replicate 32 0 else qc_BlockHash qc
   | None \<Rightarrow> replicate 32 0)"

definition buildProposalBlock ::
  "engine_env \<Rightarrow> engine \<Rightarrow> vertex_certificate option list \<Rightarrow> bytes \<Rightarrow> block" where
  "buildProposalBlock env e certs data =
     (let height = GetLatestBlockHeight (bt_storage (e_blockTree e)) + 1;
          b = (NewBlock (ev_sha256 env) (ev_now env) height (proposal_parent e) data (current_view e)
                 (e_currentEpoch e) (e_nodeID e) (ExpectedRank (e_rankState e) height)
                 (bt_highQC (e_blockTree e)) (e_seed e))
                \<lparr>b_ConfigID := configID e, b_LaneID := e_instanceID e, b_Payload := certs\<rparr>
      in b\<lparr>b_Hash := ComputeHash (ev_sha256 env) b\<rparr>)"

definition blank_message :: "engine \<Rightarrow> MessageType \<Rightarrow> u64 \<Rightarrow> bytes \<Rightarrow> message" where
  "blank_message e ty view lsh = \<lparr> m_Type = ty, m_SenderID = e_nodeID e, m_View = view,
     m_Epoch = e_currentEpoch e, m_ConfigID = configID e, m_Lane = e_instanceID e,
     m_LeaderSetHash = lsh, m_BarrierView = view, m_Instance = e_instanceID e, m_Height = 0,
     m_Data = [], m_Block = None, m_Vote = None, m_QC = None, m_TC = None, m_TimeoutVote = None,
     m_Signature = [] \<rparr>"

definition proposal_message :: "engine_env \<Rightarrow> engine \<Rightarrow> block \<Rightarrow> message" where
  "proposal_message env e b = signed env e
     ((blank_message e MsgProposal (current_view e) (leader_set_hash env e))\<lparr>m_Block := Some b\<rparr>)"

text \<open>The committee proof of this node: \<open>None\<close> is the panic, the flag is the selection.\<close>

definition own_committee_proof :: "engine_env \<Rightarrow> engine \<Rightarrow> (bool \<times> bytes) option" where
  "own_committee_proof env e = (case e_vrfPrivKey e of
     Some priv \<Rightarrow> if 0 < e_committeeSize e
       then map_option (\<lambda>(sel, h, proof). (sel, proof))
         (AmICommitteeMember (ev_vrf_prove env) priv (e_seed e) (vs_TotalPower (e_valSet e)) (e_committeeSize e))
       else Some (True, [])
   | None \<Rightarrow> Some (True, []))"

definition own_vote :: "engine_env \<Rightarrow> engine \<Rightarrow> block \<Rightarrow> bytes \<Rightarrow> vote" where
  "own_vote env e b proof = NewVoteWithIdentity (ev_sign env) (copy32 (b_Hash b)) (b_View b) (b_Epoch b)
     (b_ConfigID b) (b_LaneID b) (e_publicKey e) (e_privateKey e) proof"

text \<open>\<open>proposeBlock\<close> up to the vote for the own block.\<close>

definition propose_core ::
  "engine_env \<Rightarrow> vertex_certificate option list \<Rightarrow> engine \<Rightarrow> (engine \<times> bool) option" where
  "propose_core env certs e =
     (if current_view e \<le> e_lastProposedView e then Some (e, False)
      else
        (let e1 = e\<lparr>e_lastProposedView := current_view e\<rparr>
         in case nextBlockData env certs of None \<Rightarrow> None
          | Some data \<Rightarrow>
              (let b = buildProposalBlock env e1 certs data; msg = proposal_message env e1 b
               in if \<not> ev_publish_ok env msg then Some (e1, False)
                  else (case process_block b (emit [Publish msg] e1) of None \<Rightarrow> None
                    | Some (e2, False) \<Rightarrow> Some (e2, False)
                    | Some (e2, True) \<Rightarrow> (case own_committee_proof env e1 of None \<Rightarrow> None
                        | Some (_, proof) \<Rightarrow> vote_core env (own_vote env e1 b proof) e2)))))"

section \<open>Operations that leave the buffered certificates alone\<close>

lemma emit_frame [simp]:
  "e_pendingCerts (emit xs e) = e_pendingCerts e" "e_lastProposedView (emit xs e) = e_lastProposedView e"
  "e_blockTree (emit xs e) = e_blockTree e" "e_pacemaker (emit xs e) = e_pacemaker e"
  "e_valSet (emit xs e) = e_valSet e" "e_vcm (emit xs e) = e_vcm e"
  "e_currentEpoch (emit xs e) = e_currentEpoch e" "e_seenProposals (emit xs e) = e_seenProposals e"
  "e_voteCollectors (emit xs e) = e_voteCollectors e" "e_out (emit xs e) = e_out e @ xs"
  by (simp_all add: emit_def)

lemma incRejected_frame [simp]:
  "e_pendingCerts (incRejected r e) = e_pendingCerts e" "e_lastProposedView (incRejected r e) = e_lastProposedView e"
  "e_blockTree (incRejected r e) = e_blockTree e" "e_pacemaker (incRejected r e) = e_pacemaker e"
  "e_valSet (incRejected r e) = e_valSet e" "e_vcm (incRejected r e) = e_vcm e"
  "e_currentEpoch (incRejected r e) = e_currentEpoch e" "e_seenProposals (incRejected r e) = e_seenProposals e"
  "e_voteCollectors (incRejected r e) = e_voteCollectors e" "e_out (incRejected r e) = e_out e"
  by (simp_all add: incRejected_def)

lemma gc_frame [simp]:
  "e_pendingCerts (gcVoteCollectors e) = e_pendingCerts e"
  "e_lastProposedView (gcVoteCollectors e) = e_lastProposedView e"
  "e_blockTree (gcVoteCollectors e) = e_blockTree e" "e_pacemaker (gcVoteCollectors e) = e_pacemaker e"
  "e_valSet (gcVoteCollectors e) = e_valSet e" "e_currentEpoch (gcVoteCollectors e) = e_currentEpoch e"
  "e_out (gcVoteCollectors e) = e_out e"
  by (simp_all add: gcVoteCollectors_def Let_def)

lemma committed_frame [simp]:
  "e_pendingCerts (onBlockCommitted b e) = e_pendingCerts e"
  "e_lastProposedView (onBlockCommitted b e) = e_lastProposedView e"
  "e_blockTree (onBlockCommitted b e) = e_blockTree e" "e_pacemaker (onBlockCommitted b e) = e_pacemaker e"
  "e_valSet (onBlockCommitted b e) = e_valSet e" "e_currentEpoch (onBlockCommitted b e) = e_currentEpoch e"
  by (simp_all add: onBlockCommitted_def Let_def)

lemma fold_committed_frame [simp]:
  "e_pendingCerts (fold onBlockCommitted bs e) = e_pendingCerts e"
  "e_lastProposedView (fold onBlockCommitted bs e) = e_lastProposedView e"
  "e_blockTree (fold onBlockCommitted bs e) = e_blockTree e"
  "e_pacemaker (fold onBlockCommitted bs e) = e_pacemaker e"
  "e_valSet (fold onBlockCommitted bs e) = e_valSet e"
  "e_currentEpoch (fold onBlockCommitted bs e) = e_currentEpoch e"
  by (induction bs arbitrary: e) simp_all

lemma process_block_frame:
  assumes "process_block b e = Some (e', good)"
  shows "e_pendingCerts e' = e_pendingCerts e" "e_lastProposedView e' = e_lastProposedView e"
    "e_pacemaker e' = e_pacemaker e" "e_valSet e' = e_valSet e" "e_currentEpoch e' = e_currentEpoch e"
  using assms by (auto simp: process_block_def split: tree_result.splits)

lemma record_vote_frame:
  assumes "record_vote env i v e = (e', formed)"
  shows "e_pendingCerts e' = e_pendingCerts e" "e_lastProposedView e' = e_lastProposedView e"
    "e_valSet e' = e_valSet e" "e_currentEpoch e' = e_currentEpoch e"
  using assms by (auto simp: record_vote_def put_vote_collector_def advance_def Let_def split: if_splits)

lemma vote_core_frame:
  assumes "vote_core env v e = Some (e', formed)"
  shows "e_pendingCerts e' = e_pendingCerts e" "e_lastProposedView e' = e_lastProposedView e"
    "e_valSet e' = e_valSet e" "e_currentEpoch e' = e_currentEpoch e"
  using assms record_vote_frame
  by (auto simp: vote_core_def split: option.splits)

lemma propose_core_pending:
  assumes "propose_core env certs e = Some (e', formed)"
  shows "e_pendingCerts e' = e_pendingCerts e"
  using assms
  by (auto simp: propose_core_def Let_def split: if_splits option.splits bool.splits prod.splits
      dest!: vote_core_frame(1) process_block_frame(1))

section \<open>Trying to propose\<close>

text \<open>
  \<open>tryPropose\<close>, \<open>proposeBlock\<close> and \<open>handleVote\<close> call each other; the chain ends because the
  buffered certificates are taken before the proposal is made and nothing in it adds new ones.
\<close>

function tryPropose :: "engine_env \<Rightarrow> engine \<Rightarrow> engine option" where
  "tryPropose env e =
     (if effective_leader env e = e_nodeID e \<and> e_pendingCerts e \<noteq> []
      then (case propose_core env (e_pendingCerts e) (e\<lparr>e_pendingCerts := []\<rparr>) of None \<Rightarrow> None
        | Some (e1, formed) \<Rightarrow> if formed then tryPropose env e1 else Some e1)
      else Some e)"
  by pat_completeness auto
termination
  by (relation "measure (\<lambda>(env, e). length (e_pendingCerts e))") (auto dest: propose_core_pending)

declare tryPropose.simps [simp del]

lemma tryPropose_code [code]:
  "tryPropose env e =
     (if effective_leader env e = e_nodeID e \<and> e_pendingCerts e \<noteq> []
      then (let r = propose_core env (e_pendingCerts e) (e\<lparr>e_pendingCerts := []\<rparr>)
        in case r of None \<Rightarrow> None | Some p \<Rightarrow> if snd p then tryPropose env (fst p) else Some (fst p))
      else Some e)"
  by (subst tryPropose.simps) (simp add: Let_def split: option.splits prod.splits)

definition and_propose :: "engine_env \<Rightarrow> (engine \<times> bool) option \<Rightarrow> engine option" where
  "and_propose env r = (case r of None \<Rightarrow> None
     | Some (e, again) \<Rightarrow> if again then tryPropose env e else Some e)"

definition handleVote :: "engine_env \<Rightarrow> vote option \<Rightarrow> engine \<Rightarrow> engine option" where
  "handleVote env vp e = (case vp of None \<Rightarrow> Some (incRejected ''vote_view_mismatch'' e)
     | Some v \<Rightarrow> and_propose env (vote_core env v e))"

definition proposeBlock :: "engine_env \<Rightarrow> vertex_certificate option list \<Rightarrow> engine \<Rightarrow> engine option" where
  "proposeBlock env certs e = and_propose env (propose_core env certs e)"

definition handleMempoolProposal ::
  "engine_env \<Rightarrow> vertex_certificate option list \<Rightarrow> engine \<Rightarrow> engine option" where
  "handleMempoolProposal env certs e =
     (let leader = leader_of env e (current_view e);
          isMyTurn = (leader = e_nodeID e \<or>
            (IsStraggler (e_reputation e) leader \<or> IsCrashed (e_reputation e) leader) \<and>
            SelectFallbackLeader (e_reputation e) leader (validatorIDsFromSet (e_valSet e)) = e_nodeID e)
      in if isMyTurn then proposeBlock env (e_pendingCerts e @ certs) (e\<lparr>e_pendingCerts := []\<rparr>)
         else Some (e\<lparr>e_pendingCerts := e_pendingCerts e @ certs\<rparr>))"

section \<open>Proposals of others\<close>

definition validateProposalConstraint :: "engine_env \<Rightarrow> engine \<Rightarrow> block \<Rightarrow> string option" where
  "validateProposalConstraint env e b =
     (let cur = current_view e
      in case failed_check
           [(\<not> (1 < cur \<and> b_View b + 1 < cur), ''proposal_stale_view''),
            (\<not> cur + 1 < b_View b, ''proposal_future_view''),
            (b_View b \<noteq> 0, ''proposal_zero_view''),
            (b_LaneID b = e_instanceID e, ''proposal_wrong_lane''),
            (b_ConfigID b = configID e, ''proposal_config_mismatch''),
            (b_LeaderID b = leader_of env e (b_View b), ''proposal_wrong_leader''),
            (IsAllowedLeader env (b_LeaderID b), ''proposal_leader_not_allowed'')] of
           Some reason \<Rightarrow> Some reason
         | None \<Rightarrow> (case b_Justify b of
             None \<Rightarrow> if b_View b = 1 then None else Some ''proposal_missing_qc''
           | Some j \<Rightarrow> failed_check
              [(qc_Epoch j = b_Epoch b, ''proposal_qc_epoch_mismatch''),
               (qc_View j < b_View b, ''proposal_qc_view_non_monotonic''),
               (\<not> (qc_BlockHash j \<noteq> [] \<and> b_Parent b \<noteq> qc_BlockHash j), ''proposal_parent_qc_mismatch'')]))"

text \<open>\<open>block.Hash[:4]\<close> in a log line: the continuation, or the panic.\<close>

definition logged_hash :: "bytes \<Rightarrow> engine \<Rightarrow> engine option" where
  "logged_hash h e = (if length h < 4 then None else Some e)"

definition justify_invalid :: "engine_env \<Rightarrow> engine \<Rightarrow> block \<Rightarrow> bool" where
  "justify_invalid env e b = (case b_Justify b of None \<Rightarrow> False
     | Some j \<Rightarrow> 1 < b_View b \<and> 0 < qc_View j \<and> \<not> eng_verifyQC env e (Some j))"

definition seen_proposal :: "engine \<Rightarrow> u64 \<Rightarrow> u64 \<Rightarrow> bytes option" where
  "seen_proposal e view leader = (case fmlookup (e_seenProposals e) view of None \<Rightarrow> None
     | Some m \<Rightarrow> fmlookup m leader)"

definition note_proposal :: "block \<Rightarrow> engine \<Rightarrow> engine" where
  "note_proposal b e = e\<lparr>e_seenProposals := fmupd (b_View b)
     (fmupd (b_LeaderID b) (b_Hash b) (case fmlookup (e_seenProposals e) (b_View b) of
        Some m \<Rightarrow> m | None \<Rightarrow> fmempty)) (e_seenProposals e)\<rparr>"

definition hydra_mark :: "engine_env \<Rightarrow> u64 \<Rightarrow> FaultClass \<Rightarrow> engine_out list" where
  "hydra_mark env i f = (case ev_hydra env of None \<Rightarrow> [] | Some _ \<Rightarrow> [HydraMarkFault i f])"

definition absorb_randomness :: "engine_env \<Rightarrow> block \<Rightarrow> engine \<Rightarrow> engine" where
  "absorb_randomness env b e = (case b_Justify b of None \<Rightarrow> e
     | Some j \<Rightarrow> if qc_AggregatedSig j = [] then e
         else e\<lparr>e_seed := UpdateRandomness (ev_sha256 env) (qc_AggregatedSig j) (e_seed e)\<rparr>)"

definition vote_message :: "engine_env \<Rightarrow> engine \<Rightarrow> block \<Rightarrow> vote \<Rightarrow> message" where
  "vote_message env e b v = signed env e
     ((blank_message e MsgVote (vt_View v) (leader_set_hash env e))
        \<lparr>m_ConfigID := b_ConfigID b, m_Lane := b_LaneID b, m_BarrierView := b_View b, m_Vote := Some v\<rparr>)"

text \<open>Sending the vote: to the leader, or to everybody when that fails.\<close>

definition send_vote :: "engine_env \<Rightarrow> u64 \<Rightarrow> message \<Rightarrow> engine \<Rightarrow> engine" where
  "send_vote env leader msg e =
     (if ev_unicast_ok env leader msg then emit [Unicast leader msg] e
      else if ev_publish_ok env msg then emit [Publish msg] e else e)"

text \<open>The part of \<open>handleProposal\<close> after the block has been accepted.\<close>

definition vote_for :: "engine_env \<Rightarrow> block \<Rightarrow> engine \<Rightarrow> engine option" where
  "vote_for env b e = (case own_committee_proof env e of None \<Rightarrow> None
     | Some (False, proof) \<Rightarrow> tryPropose env e
     | Some (True, proof) \<Rightarrow>
         (case logged_hash (b_Hash b)
            (send_vote env (b_LeaderID b) (vote_message env e b (own_vote env e b proof)) e) of
            None \<Rightarrow> None | Some e1 \<Rightarrow> tryPropose env e1))"

definition accept_proposal :: "engine_env \<Rightarrow> block \<Rightarrow> engine \<Rightarrow> engine option" where
  "accept_proposal env b e =
     (let e1 = absorb_randomness env b (note_proposal b e)
      in if \<not> SafeNode (e_blockTree e1) (Some b) then logged_hash (b_Hash b) (incRejected ''safety_rule'' e1)
         else (case process_block b e1 of None \<Rightarrow> None
           | Some (e2, False) \<Rightarrow> Some (incRejected ''process_block_error'' e2)
           | Some (e2, True) \<Rightarrow> vote_for env b (advance (b_View b) e2)))"

definition handleProposal :: "engine_env \<Rightarrow> block option \<Rightarrow> engine \<Rightarrow> engine option" where
  "handleProposal env blk e = (case blk of None \<Rightarrow> Some e | Some b \<Rightarrow>
     (case validateProposalConstraint env e b of
        Some reason \<Rightarrow> Some (incRejected reason e)
      | None \<Rightarrow>
         if b_Epoch b \<noteq> e_currentEpoch e then Some (incRejected ''proposal_epoch_mismatch'' e)
         else if justify_invalid env e b
           then logged_hash (b_Hash b) (incRejected ''proposal_invalid_justify_qc'' e)
         else (case failed_check
             [(\<not> HasBlock (bt_storage (e_blockTree e)) (b_Hash b), ''duplicate_block''),
              (rs_highestLocal (e_rankState e) < b_Height b, ''stale_height''),
              (VerifyRank (e_rankState e) (b_Height b) (b_Rank b), ''rank_mismatch'')] of
             Some reason \<Rightarrow> Some (incRejected reason e)
           | None \<Rightarrow> (case seen_proposal e (b_View b) (b_LeaderID b) of
               None \<Rightarrow> accept_proposal env b e
             | Some prev \<Rightarrow>
                 if prev = b_Hash b then Some (incRejected ''duplicate_proposal'' e)
                 else if length prev < 4 \<or> length (b_Hash b) < 4 then None
                 else (let e1 = incRejected ''equivocation_detected'' e
                   in Some (emit (hydra_mark env (b_LeaderID b) FaultClassByzantine)
                        (e1\<lparr>e_reputation := RecordTimeout (b_LeaderID b) (e_reputation e1)\<rparr>)))))))"

section \<open>Timeouts\<close>

definition timeout_message :: "engine_env \<Rightarrow> engine \<Rightarrow> u64 \<Rightarrow> timeout_vote \<Rightarrow> message" where
  "timeout_message env e view tv = signed env e
     ((blank_message e MsgTimeout view (leader_set_hash env e))\<lparr>m_TimeoutVote := Some tv\<rparr>)"

definition own_timeout_vote :: "engine_env \<Rightarrow> engine \<Rightarrow> u64 \<Rightarrow> timeout_vote" where
  "own_timeout_vote env e view = \<lparr> tv_View = view, tv_Epoch = e_currentEpoch e, tv_ConfigID = configID e,
     tv_Lane = e_instanceID e, tv_VoterID = e_nodeID e, tv_HighestQC = bt_highQC (e_blockTree e),
     tv_Signature = ev_sign env (e_privateKey e)
       (TimeoutSigningBytes view (e_currentEpoch e) (configID e) (e_instanceID e)) \<rparr>"

text \<open>The own vote is collected locally; a certificate it completes is dropped.\<close>

definition broadcastTimeoutVote :: "engine_env \<Rightarrow> u64 \<Rightarrow> engine \<Rightarrow> engine" where
  "broadcastTimeoutVote env view e =
     (let tv = own_timeout_vote env e view;
          e1 = e\<lparr>e_vcm := fst (HandleTimeoutVote (vs_QuorumSize (e_valSet e)) (Some tv) (e_vcm e))\<rparr>;
          msg = timeout_message env e view tv
      in if ev_publish_ok env msg then emit [Publish msg] e1 else e1)"

text \<open>The timer branch of the run loop.\<close>

definition on_timer :: "engine_env \<Rightarrow> u64 \<Rightarrow> engine \<Rightarrow> engine option" where
  "on_timer env view e =
     (if \<not> current_view e \<le> view then Some e
      else
        (let leader = leader_of env e view;
             rep = RecordTimeout leader (e_reputation e);
             marks = (case ev_hydra env of None \<Rightarrow> []
               | Some _ \<Rightarrow> if IsCrashed rep leader
                   then [HydraMarkFault leader FaultClassUnavailable, HydraTrigger leader view]
                   else if IsStraggler rep leader then [HydraMarkFault leader FaultClassDegraded] else []);
             e1 = emit marks (e\<lparr>e_reputation := rep\<rparr>);
             e2 = e1\<lparr>e_pacemaker := SetTimeout (AdaptiveTimeout leader rep) (e_pacemaker e1)\<rparr>
         in tryPropose env (advance view (broadcastTimeoutVote env view e2))))"

definition timeout_checks :: "engine_env \<Rightarrow> engine \<Rightarrow> timeout_vote \<Rightarrow> string option" where
  "timeout_checks env e tv = failed_check
     [(current_view e \<le> tv_View tv, ''stale_timeout_vote''),
      (tv_View tv \<le> current_view e, ''future_timeout_vote''),
      (tv_Epoch tv = e_currentEpoch e, ''timeout_vote_epoch_mismatch''),
      (tv_ConfigID tv = configID e, ''timeout_vote_config_mismatch''),
      (tv_Lane tv = e_instanceID e, ''timeout_vote_lane_mismatch''),
      (resolveValidatorPubKeyByID e (tv_VoterID tv) \<noteq> None, ''unknown_timeout_voter''),
      (case resolveValidatorPubKeyByID e (tv_VoterID tv) of None \<Rightarrow> False
       | Some pk \<Rightarrow> ev_verify env pk (TimeoutSigningBytes (tv_View tv) (tv_Epoch tv) (tv_ConfigID tv) (tv_Lane tv))
           (tv_Signature tv), ''invalid_timeout_vote_signature''),
      (case tv_HighestQC tv of None \<Rightarrow> True
       | Some q \<Rightarrow> qc_Epoch q = tv_Epoch tv \<and> qc_ConfigID q = tv_ConfigID tv \<and> qc_Lane q = tv_Lane tv,
         ''timeout_vote_highqc_mismatch''),
      (case tv_HighestQC tv of None \<Rightarrow> True | Some q \<Rightarrow> qc_View q \<le> tv_View tv, ''timeout_vote_highqc_future_view''),
      (case tv_HighestQC tv of None \<Rightarrow> True | Some q \<Rightarrow> eng_verifyQC env e (Some q), ''timeout_vote_invalid_highqc'')]"

definition newTCBackedNewViewMessage :: "engine_env \<Rightarrow> engine \<Rightarrow> timeout_certificate \<Rightarrow> message option" where
  "newTCBackedNewViewMessage env e tc =
     (let lsh = leaderSetHashForConfigID env e (tc_ConfigID tc)
      in if lsh = [] then None
         else Some ((blank_message e MsgNewView (tc_View tc + 1) lsh)\<lparr>m_Epoch := tc_Epoch tc,
           m_ConfigID := tc_ConfigID tc, m_Lane := tc_Lane tc, m_Instance := tc_Lane tc, m_TC := Some tc\<rparr>))"

definition handleTimeoutVote :: "engine_env \<Rightarrow> timeout_vote option \<Rightarrow> engine \<Rightarrow> engine option" where
  "handleTimeoutVote env tvp e = (case tvp of None \<Rightarrow> Some e
     | Some tv \<Rightarrow> (case timeout_checks env e tv of
         Some reason \<Rightarrow> Some (incRejected reason e)
       | None \<Rightarrow> (case HandleTimeoutVote (vs_QuorumSize (e_valSet e)) (Some tv) (e_vcm e) of
           (v, None) \<Rightarrow> Some (e\<lparr>e_vcm := v\<rparr>)
         | (v, Some tc) \<Rightarrow>
             (let e1 = advance (tc_View tc) (e\<lparr>e_vcm := v\<rparr>)
              in case newTCBackedNewViewMessage env e1 tc of None \<Rightarrow> Some e1
               | Some m0 \<Rightarrow> (let m = signed env e1 m0
                   in tryPropose env (if ev_publish_ok env m then emit [Publish m] e1 else e1))))))"

section \<open>New views\<close>

text \<open>Adopting a certificate above the local one; the flag tells whether it was adopted.\<close>

definition adopt_qc :: "quorum_certificate \<Rightarrow> engine \<Rightarrow> engine \<times> bool" where
  "adopt_qc q e = (if view_above q (bt_highQC (e_blockTree e))
     then (e\<lparr>e_blockTree := OnVoteQC (e_blockTree e) (Some q)\<rparr>, True) else (e, False))"

definition new_view_to :: "engine_env \<Rightarrow> u64 \<Rightarrow> string \<Rightarrow> engine \<times> bool \<Rightarrow> engine option" where
  "new_view_to env view stale ea = (case ea of (e, adopted) \<Rightarrow>
     if view + 1 \<le> current_view e then Some (if adopted then e else incRejected stale e)
     else tryPropose env (advance view e))"

definition handleNewView :: "engine_env \<Rightarrow> message \<Rightarrow> engine \<Rightarrow> engine option" where
  "handleNewView env m e = (case m_TC m of
     Some tc \<Rightarrow>
       (case failed_check
          [(verifyTC env e (Some tc), ''newview_invalid_tc_signatures''),
           (case tc_HighestQC tc of None \<Rightarrow> True
            | Some q \<Rightarrow> qc_Epoch q = tc_Epoch tc \<and> qc_ConfigID q = tc_ConfigID tc \<and> qc_Lane q = tc_Lane tc,
              ''newview_tc_highqc_mismatch''),
           (case tc_HighestQC tc of None \<Rightarrow> True | Some q \<Rightarrow> qc_View q \<le> tc_View tc, ''newview_tc_highqc_future_view''),
           (case tc_HighestQC tc of None \<Rightarrow> True | Some q \<Rightarrow> eng_verifyQC env e (Some q), ''newview_invalid_tc_highqc'')] of
          Some reason \<Rightarrow> Some (incRejected reason e)
        | None \<Rightarrow> new_view_to env (tc_View tc) ''stale_newview_tc''
            (case tc_HighestQC tc of None \<Rightarrow> (e, False) | Some q \<Rightarrow> adopt_qc q e))
   | None \<Rightarrow> (case m_QC m of None \<Rightarrow> Some e
       | Some q \<Rightarrow> if \<not> eng_verifyQC env e (Some q) then Some (incRejected ''newview_invalid_qc'' e)
           else new_view_to env (qc_View q) ''stale_newview_qc'' (adopt_qc q e)))"

end
