(* ===== verification/Engine.thy ===== *)
theory Engine
  imports Engine_Steps
begin

text \<open>
  The dispatch of messages with its guards, epoch changes and runtime tuning, the step relation of
  the engine (consensus/hotstuff/engine.go), and what holds in every reachable state: votes are
  counted once, a certificate reaches the block tree only with a quorum of valid signatures, a
  node proposes at most once per view, and rejected messages change nothing but a counter.
\<close>

section \<open>Messages\<close>

definition requires_leader_set_hash :: "MessageType \<Rightarrow> bool" where
  "requires_leader_set_hash ty \<longleftrightarrow> ty \<in> {MsgProposal, MsgVote, MsgTimeout, MsgNewView}"

definition envelope_checks :: "engine_env \<Rightarrow> engine \<Rightarrow> message \<Rightarrow> string option" where
  "envelope_checks env e m = failed_check
     [(m_Instance m = e_instanceID e, ''wrong_instance''),
      (m_Lane m = e_instanceID e, ''wrong_lane''),
      (case resolveValidatorPubKeyByID e (m_SenderID m) of None \<Rightarrow> False
       | Some pk \<Rightarrow> m_VerifySignature env m pk, ''invalid_message_signature''),
      (e_currentEpoch e \<le> m_Epoch m, ''stale_epoch''),
      (m_ConfigID m = configID e, ''message_config_mismatch''),
      (\<not> (requires_leader_set_hash (m_Type m) \<and> m_LeaderSetHash m = []), ''missing_leader_set_hash''),
      (m_LeaderSetHash m = [] \<or> m_LeaderSetHash m = leader_set_hash env e, ''leader_set_mismatch'')]"

definition proposal_wrapper :: "message \<Rightarrow> block \<Rightarrow> string option" where
  "proposal_wrapper m b = failed_check
     [(b_LeaderID b = m_SenderID m, ''proposal_sender_mismatch''),
      (b_View b = m_View m, ''proposal_view_wrapper_mismatch''),
      (b_Epoch b = m_Epoch m, ''proposal_epoch_wrapper_mismatch''),
      (b_ConfigID b = m_ConfigID m, ''proposal_config_wrapper_mismatch''),
      (b_LaneID b = m_Lane m, ''proposal_lane_wrapper_mismatch''),
      (m_BarrierView m = m_View m, ''proposal_barrier_view_mismatch'')]"

definition vote_wrapper :: "engine \<Rightarrow> message \<Rightarrow> vote \<Rightarrow> string option" where
  "vote_wrapper e m v = failed_check
     [(resolveValidatorID e (vt_Author v) = Some (m_SenderID m), ''vote_sender_mismatch''),
      (m_View m = vt_View v, ''vote_view_mismatch''),
      (m_Epoch m = vt_Epoch v, ''vote_epoch_mismatch''),
      (m_ConfigID m = vt_ConfigID v, ''vote_config_mismatch''),
      (m_Lane m = vt_Lane v, ''vote_lane_mismatch''),
      (m_BarrierView m = m_View m, ''vote_barrier_view_mismatch'')]"

definition timeout_wrapper :: "message \<Rightarrow> timeout_vote \<Rightarrow> string option" where
  "timeout_wrapper m tv = failed_check
     [(tv_VoterID tv = m_SenderID m, ''timeout_vote_sender_mismatch''),
      (tv_View tv = m_View m, ''timeout_vote_view_wrapper_mismatch''),
      (tv_Epoch tv = m_Epoch m, ''timeout_vote_epoch_wrapper_mismatch''),
      (tv_ConfigID tv = m_ConfigID m, ''timeout_vote_config_wrapper_mismatch''),
      (tv_Lane tv = m_Lane m, ''timeout_vote_lane_wrapper_mismatch''),
      (m_BarrierView m = m_View m, ''timeout_vote_barrier_view_mismatch'')]"

definition newview_wrapper :: "message \<Rightarrow> string option" where
  "newview_wrapper m = failed_check
     ((case m_TC m of None \<Rightarrow> [] | Some tc \<Rightarrow>
        [(m_View m = tc_View tc + 1, ''newview_tc_view_wrapper_mismatch''),
         (m_BarrierView m = m_View m, ''newview_tc_barrier_view_mismatch''),
         (m_Epoch m = tc_Epoch tc, ''newview_tc_epoch_wrapper_mismatch''),
         (m_ConfigID m = tc_ConfigID tc, ''newview_tc_config_wrapper_mismatch''),
         (m_Lane m = tc_Lane tc, ''newview_tc_lane_wrapper_mismatch'')]) @
      (case m_QC m of None \<Rightarrow> [] | Some q \<Rightarrow>
        [(m_View m = qc_View q + 1, ''newview_qc_view_wrapper_mismatch''),
         (m_BarrierView m = m_View m, ''newview_qc_barrier_view_mismatch''),
         (m_Epoch m = qc_Epoch q, ''newview_qc_epoch_wrapper_mismatch''),
         (m_ConfigID m = qc_ConfigID q, ''newview_qc_config_wrapper_mismatch''),
         (m_Lane m = qc_Lane q, ''newview_qc_lane_wrapper_mismatch'')]) @
      [(m_TC m \<noteq> None \<or> m_QC m \<noteq> None, ''newview_missing_certificate''),
       (m_TC m = None \<or> m_QC m = None, ''newview_redundant_top_level_qc'')])"

text \<open>Running a handler unless a guard failed.\<close>

definition guarded :: "string option \<Rightarrow> (engine \<Rightarrow> engine option) \<Rightarrow> engine \<Rightarrow> engine option" where
  "guarded r h e = (case r of Some reason \<Rightarrow> Some (incRejected reason e) | None \<Rightarrow> h e)"

definition handleMessage :: "engine_env \<Rightarrow> message option \<Rightarrow> engine \<Rightarrow> engine option" where
  "handleMessage env mp e = (case mp of None \<Rightarrow> Some (incRejected ''nil_message'' e)
     | Some m \<Rightarrow> guarded (envelope_checks env e m) (\<lambda>e. case m_Type m of
         MsgProposal \<Rightarrow> (case m_Block m of None \<Rightarrow> Some (incRejected ''nil_proposal_payload'' e)
           | Some b \<Rightarrow> guarded (proposal_wrapper m b) (handleProposal env (Some b)) e)
       | MsgVote \<Rightarrow> (case m_Vote m of None \<Rightarrow> Some (incRejected ''nil_vote_payload'' e)
           | Some v \<Rightarrow> guarded (vote_wrapper e m v) (handleVote env (Some v)) e)
       | MsgTimeout \<Rightarrow> (case m_TimeoutVote m of None \<Rightarrow> Some (incRejected ''nil_timeout_vote_payload'' e)
           | Some tv \<Rightarrow> guarded (timeout_wrapper m tv) (handleTimeoutVote env (Some tv)) e)
       | MsgNewView \<Rightarrow> guarded (newview_wrapper m) (handleNewView env m) e
       | _ \<Rightarrow> Some e) e)"

section \<open>Epoch changes and tuning\<close>

definition retained_keys ::
  "validator_set \<Rightarrow> (u64, bytes) fmap \<Rightarrow> (u64, bytes) fmap \<Rightarrow> (u64, bytes) fmap" where
  "retained_keys vs old refreshed = fmfilter (\<lambda>i. case get_validator (vs_Validators vs) i of
     Some v \<Rightarrow> v_IsActive v | None \<Rightarrow> False) (old ++\<^sub>f refreshed)"

definition install_epoch :: "validator_set \<Rightarrow> (u64, bytes) fmap \<Rightarrow> engine \<Rightarrow> engine" where
  "install_epoch vs refreshed e = e\<lparr> e_currentEpoch := vs_Epoch vs, e_valSet := vs,
     e_vrfPubKeys := retained_keys vs (e_vrfPubKeys e) refreshed,
     e_blockTree := SetFastPathThreshold (of_nat (gm_len (vs_Validators vs))) (e_blockTree e) \<rparr>"

definition onEpochChangeWithVRFKeys ::
  "engine_env \<Rightarrow> validator_set option \<Rightarrow> (u64, bytes) fmap \<Rightarrow> engine \<Rightarrow> engine option" where
  "onEpochChangeWithVRFKeys env vsp refreshed e = (case vsp of None \<Rightarrow> Some e
     | Some vs \<Rightarrow> tryPropose env (resetPacemaker env vs (install_epoch vs refreshed e)))"

definition RegisterVRFPubKey :: "u64 \<Rightarrow> bytes \<Rightarrow> engine \<Rightarrow> engine" where
  "RegisterVRFPubKey i pk e = e\<lparr>e_vrfPubKeys := fmupd i pk (e_vrfPubKeys e)\<rparr>"

definition SetLocalVRFKeypair :: "bytes option \<Rightarrow> bytes option \<Rightarrow> engine \<Rightarrow> engine" where
  "SetLocalVRFKeypair priv pub e = e\<lparr> e_vrfPrivKey := priv, e_vrfPubKeys := (case pub of
     None \<Rightarrow> e_vrfPubKeys e | Some pk \<Rightarrow> fmupd (e_nodeID e) pk (e_vrfPubKeys e)) \<rparr>"

definition SetCommitteeSize :: "int \<Rightarrow> engine \<Rightarrow> engine" where
  "SetCommitteeSize n e = e\<lparr>e_committeeSize := n\<rparr>"

definition SetAdaptiveTuning :: "int \<Rightarrow> int \<Rightarrow> engine \<Rightarrow> engine" where
  "SetAdaptiveTuning committee timeoutMs e =
     (let e1 = (if 0 \<le> committee then e\<lparr>e_committeeSize := committee\<rparr> else e);
          e2 = (if 0 < timeoutMs then e1\<lparr>e_timeoutMs := timeoutMs,
             e_reputation := SetBaseTimeoutMs timeoutMs (e_reputation e1)\<rparr> else e1)
      in if 0 < e_timeoutMs e2
         then e2\<lparr>e_pacemaker := SetTimeout (e_timeoutMs e2 * 1000000) (e_pacemaker e2)\<rparr> else e2)"

definition SetHydraManager :: "engine_env \<Rightarrow> engine \<Rightarrow> engine" where
  "SetHydraManager env e = refreshLeaderSelectorFor env (e_valSet e) e"

section \<open>The engine as a state machine\<close>

text \<open>
  One iteration of the run loop, a call of the mempool, or a call of the embedding program.  Every
  step has its own environment: the clock, the network and the mempool may answer differently.
\<close>

inductive engine_step :: "verifier \<Rightarrow> engine \<Rightarrow> engine \<Rightarrow> bool" for ver where
  message: "ev_verify env = ver \<Longrightarrow> handleMessage env m e = Some e' \<Longrightarrow> engine_step ver e e'"
| certs: "ev_verify env = ver \<Longrightarrow> handleMempoolProposal env cs e = Some e' \<Longrightarrow> engine_step ver e e'"
| timer: "ev_verify env = ver \<Longrightarrow> on_timer env view e = Some e' \<Longrightarrow> engine_step ver e e'"
| epoch: "ev_verify env = ver \<Longrightarrow> onEpochChangeWithVRFKeys env vs ks e = Some e' \<Longrightarrow> engine_step ver e e'"
| tuning: "engine_step ver e (SetAdaptiveTuning c t e)"
| committee: "engine_step ver e (SetCommitteeSize c e)"
| register: "engine_step ver e (RegisterVRFPubKey i pk e)"
| keypair: "engine_step ver e (SetLocalVRFKeypair priv pub e)"
| hydra: "engine_step ver e (SetHydraManager env e)"

inductive_cases engine_stepE: "engine_step ver e e'"

section \<open>The invariant\<close>

text \<open>The views of the proposals a node has published, in order.\<close>

definition prop_views :: "engine_out list \<Rightarrow> u64 list" where
  "prop_views xs = List.map_filter (\<lambda>x. case x of
     Publish m \<Rightarrow> if m_Type m = MsgProposal then Some (m_View m) else None | _ \<Rightarrow> None) xs"

lemma prop_views_append [simp]: "prop_views (xs @ ys) = prop_views xs @ prop_views ys"
  by (simp add: prop_views_def List.map_filter_def)

lemma prop_views_simps [simp]:
  "prop_views [] = []" "prop_views [Unicast i m] = []" "prop_views [Output x] = []"
  "prop_views [GbcPropose h] = []" "prop_views [GbcPublish h] = []"
  "prop_views [Publish m] = (if m_Type m = MsgProposal then [m_View m] else [])"
  "prop_views (HydraMarkFault i f # xs) = prop_views xs" "prop_views (HydraTrigger i v # xs) = prop_views xs"
  by (simp_all add: prop_views_def List.map_filter_def)

definition proposals_once :: "engine \<Rightarrow> bool" where
  "proposals_once e \<longleftrightarrow> sorted_wrt (<) (prop_views (e_out e)) \<and>
     (\<forall>v \<in> set (prop_views (e_out e)). v \<le> e_lastProposedView e)"

text \<open>A collector sits under the key of its certificate, and its signers are the signatures.\<close>

definition collector_ok :: "string \<Rightarrow> vote_collector \<Rightarrow> bool" where
  "collector_ok k c \<longleftrightarrow> (let q = vcl_qc c in
     k = collectorKey (qc_View q) (qc_Epoch q) (qc_ConfigID q) (qc_Lane q) (qc_BlockHash q) \<and>
     vcl_signers c = fmdom (qc_Signatures q) \<and> qc_counted q)"

definition collectors_ok :: "engine \<Rightarrow> bool" where
  "collectors_ok e \<longleftrightarrow> (\<forall>k c. fmlookup (e_voteCollectors e) k = Some c \<longrightarrow> collector_ok k c)"

text \<open>
  Every signature in a collector was checked: it verifies over the statement of the certificate,
  under the key its signer has in one of the given validator sets.
\<close>

definition signed_in :: "verifier \<Rightarrow> validator_set set \<Rightarrow> quorum_certificate \<Rightarrow> u64 \<Rightarrow> bytes \<Rightarrow> bool" where
  "signed_in ver vss q j s \<longleftrightarrow> (\<exists>vs \<in> vss. \<exists>w. get_validator (vs_Validators vs) j = Some w \<and>
     ver (v_PublicKey w) (VoteSigningBytes (qc_BlockHash q) (qc_View q) (qc_Epoch q) (qc_ConfigID q) (qc_Lane q)) s)"

definition all_signed :: "verifier \<Rightarrow> validator_set set \<Rightarrow> quorum_certificate \<Rightarrow> bool" where
  "all_signed ver vss q \<longleftrightarrow> (\<forall>j s. fmlookup (qc_Signatures q) j = Some s \<longrightarrow> signed_in ver vss q j s)"

definition signatures_ok :: "verifier \<Rightarrow> validator_set set \<Rightarrow> engine \<Rightarrow> bool" where
  "signatures_ok ver vss e \<longleftrightarrow> (\<forall>k c. fmlookup (e_voteCollectors e) k = Some c \<longrightarrow> all_signed ver vss (vcl_qc c))"

text \<open>The certificate has view zero or was verified with one of the given validator sets.\<close>

definition vouched :: "verifier \<Rightarrow> validator_set set \<Rightarrow> quorum_certificate \<Rightarrow> bool" where
  "vouched ver vss q \<longleftrightarrow> qc_View q = 0 \<or> (\<exists>vs \<in> vss. verifyQC ver vs (Some q))"

definition high_ok :: "verifier \<Rightarrow> validator_set set \<Rightarrow> engine \<Rightarrow> bool" where
  "high_ok ver vss e \<longleftrightarrow> e_valSet e \<in> vss \<and>
     (\<forall>q. bt_highQC (e_blockTree e) = Some q \<longrightarrow> vouched ver vss q)"

definition eng_ok :: "verifier \<Rightarrow> validator_set set \<Rightarrow> engine \<Rightarrow> bool" where
  "eng_ok ver vss e \<longleftrightarrow> proposals_once e \<and> collectors_ok e \<and> signatures_ok ver vss e \<and> high_ok ver vss e"

text \<open>Changes that the parts of the invariant do not see.\<close>

lemma eng_ok_cong:
  assumes "eng_ok ver vss e" and "prop_views (e_out e') = prop_views (e_out e)"
    and "e_lastProposedView e' = e_lastProposedView e" and "e_voteCollectors e' = e_voteCollectors e"
    and "bt_highQC (e_blockTree e') = bt_highQC (e_blockTree e)" and "e_valSet e' = e_valSet e"
  shows "eng_ok ver vss e'"
  using assms by (simp add: eng_ok_def proposals_once_def collectors_ok_def signatures_ok_def high_ok_def)

lemma eng_ok_incRejected: "eng_ok ver vss e \<Longrightarrow> eng_ok ver vss (incRejected r e)"
  by (erule eng_ok_cong) simp_all

lemma advance_frame [simp]:
  "e_out (advance v e) = e_out e" "e_lastProposedView (advance v e) = e_lastProposedView e"
  "e_voteCollectors (advance v e) = e_voteCollectors e" "e_blockTree (advance v e) = e_blockTree e"
  "e_valSet (advance v e) = e_valSet e" "e_pendingCerts (advance v e) = e_pendingCerts e"
  by (simp_all add: advance_def)

lemma eng_ok_advance: "eng_ok ver vss e \<Longrightarrow> eng_ok ver vss (advance v e)"
  by (erule eng_ok_cong) simp_all

lemma eng_ok_pending: "eng_ok ver vss e \<Longrightarrow> eng_ok ver vss (e\<lparr>e_pendingCerts := cs\<rparr>)"
  by (erule eng_ok_cong) simp_all

lemma eng_ok_emit: "eng_ok ver vss e \<Longrightarrow> prop_views xs = [] \<Longrightarrow> eng_ok ver vss (emit xs e)"
  by (erule eng_ok_cong) simp_all

lemma eng_ok_gc: "eng_ok ver vss e \<Longrightarrow> eng_ok ver vss (gcVoteCollectors e)"
  by (auto simp: eng_ok_def proposals_once_def collectors_ok_def signatures_ok_def high_ok_def gcVoteCollectors_def Let_def
      split: if_splits)

lemma eng_ok_committed: "eng_ok ver vss e \<Longrightarrow> eng_ok ver vss (onBlockCommitted b e)"
proof -
  assume ok: "eng_ok ver vss e"
  have 1: "eng_ok ver vss (e\<lparr>e_lastCommittedHeight := h, e_reputation := r\<rparr>)" for h r
    using ok by (rule eng_ok_cong) simp_all
  have 2: "prop_views (gbc_out e b) = []"
    by (simp add: gbc_out_def split: gbc_link.split)
  have 3: "eng_ok ver vss (x\<lparr>e_rankState := r\<rparr>)" if "eng_ok ver vss x" for x r
    using that by (rule eng_ok_cong) simp_all
  show ?thesis
    unfolding onBlockCommitted_def Let_def
    by (simp only: split: if_split) (intro conjI impI eng_ok_emit 3 eng_ok_gc 1 2; simp)
qed

lemma eng_ok_fold_committed: "eng_ok ver vss e \<Longrightarrow> eng_ok ver vss (fold onBlockCommitted bs e)"
  by (induction bs arbitrary: e) (simp_all add: eng_ok_committed)

lemma high_commit_with:
  "commit_with bt c b = Some (bt', ev) \<Longrightarrow> bt_highQC bt' = bt_highQC bt"
  by (auto simp: commit_with_def bt_commit_def split: if_splits)

lemma high_fast_path: "fast_path bt q c b = Some (bt', ev) \<Longrightarrow> bt_highQC bt' = bt_highQC bt"
  by (auto simp: fast_path_def dest: high_commit_with split: if_splits)

lemma high_three_chain: "three_chain bt b = Some (bt', ev) \<Longrightarrow> bt_highQC bt' = bt_highQC bt"
  by (auto simp: three_chain_def dest: high_commit_with split: option.splits if_splits)

lemma high_ProcessBlock:
  assumes "ProcessBlock bt (Some b) = Processed bt' ev"
  shows "bt_highQC bt' = bt_highQC bt \<or> bt_highQC bt' = b_Justify b"
proof -
  have lock: "bt_highQC (try_lock x c g l) = bt_highQC x" for x c g l
    by (simp add: try_lock_def)
  have "\<exists>sm. bt_highQC bt' = bt_highQC (raise_high (bt\<lparr>bt_storage := sm\<rparr>) (b_Justify b))"
    using assms
    by (auto simp: ProcessBlock_def Let_def lock split: option.splits
        dest!: high_fast_path high_three_chain) (rule exI, rule refl)+
  then show ?thesis
    by (auto simp: raise_high_def split: if_splits)
qed

lemma eng_ok_process_block:
  assumes "eng_ok ver vss e" and "process_block b e = Some (e', r)"
    and "\<And>q. b_Justify b = Some q \<Longrightarrow> bt_highQC (e_blockTree e) = Some q \<or> vouched ver vss q"
  shows "eng_ok ver vss e'"
proof (cases "ProcessBlock (e_blockTree e) (Some b)")
  case (Processed bt ev)
  have "high_ok ver vss (e\<lparr>e_blockTree := bt\<rparr>)"
    using high_ProcessBlock [OF Processed] assms(1,3) by (auto simp: eng_ok_def high_ok_def)
  then have "eng_ok ver vss (e\<lparr>e_blockTree := bt\<rparr>)"
    using assms(1) by (simp add: eng_ok_def proposals_once_def collectors_ok_def signatures_ok_def)
  with assms(2) Processed show ?thesis
    by (auto simp: process_block_def eng_ok_fold_committed)
qed (use assms in \<open>auto simp: process_block_def\<close>)

section \<open>Votes and proposals keep the invariant\<close>

lemma collector_for_ok: "collectors_ok e \<Longrightarrow> collector_ok (vote_key v) (collector_for e v)"
  by (auto simp: collectors_ok_def collector_for_def collector_ok_def vote_key_def NewQC_counted
      NewQuorumCertificateWithIdentity_def qc_counted_def gomap_simps Let_def split: option.splits)

lemma collector_ok_add: "collector_ok k c \<Longrightarrow> collector_ok k (add_vote i v c)"
  by (simp add: collector_ok_def add_vote_def Let_def framing qcol.dom_add qcol.count_add)

lemma collectorKey_inject:
  "collectorKey v1 e1 c1 l1 h1 = collectorKey v2 e2 c2 l2 h2 \<longleftrightarrow> (v1, e1, c1, l1, h1) = (v2, e2, c2, l2, h2)"
proof
  assume eq: "collectorKey v1 e1 c1 l1 h1 = collectorKey v2 e2 c2 l2 h2"
  then have "hex_encode h1 = hex_encode h2 \<and>
      hex_encode (be64 v1 @ be64 e1 @ be64 c1 @ be64 l1) = hex_encode (be64 v2 @ be64 e2 @ be64 c2 @ be64 l2)"
    by (simp add: collectorKey_def append_eq_append_conv)
  then have "h1 = h2" and "be64 v1 @ be64 e1 @ be64 c1 @ be64 l1 = be64 v2 @ be64 e2 @ be64 c2 @ be64 l2"
    by (simp_all only: hex_encode_inject)
  then show "(v1, e1, c1, l1, h1) = (v2, e2, c2, l2, h2)" by simp
qed simp

text \<open>The certificate of a vote's collector is about the statement of the vote.\<close>

lemma collector_identity:
  assumes "collectors_ok e"
  shows "qc_View (vcl_qc (collector_for e v)) = vt_View v" "qc_Epoch (vcl_qc (collector_for e v)) = vt_Epoch v"
    "qc_ConfigID (vcl_qc (collector_for e v)) = vt_ConfigID v" "qc_Lane (vcl_qc (collector_for e v)) = vt_Lane v"
    "qc_BlockHash (vcl_qc (collector_for e v)) = vt_BlockID v"
  using collector_for_ok [OF assms, of v]
  by (auto simp: collector_ok_def vote_key_def collectorKey_inject Let_def)

lemma signed_collector_for: "signatures_ok ver vss e \<Longrightarrow> all_signed ver vss (vcl_qc (collector_for e v))"
  by (auto simp: signatures_ok_def collector_for_def all_signed_def NewQuorumCertificateWithIdentity_def split: option.splits)

text \<open>A vote that passes the checks brings a signature of its author.\<close>

lemma all_signed_add:
  assumes "all_signed ver vss (vcl_qc c)" and "signed_in ver vss (vcl_qc c) i (vt_Signature v)"
  shows "all_signed ver vss (vcl_qc (add_vote i v c))"
  using assms by (auto simp: all_signed_def add_vote_def qc_AddSignature_def signed_in_def)

lemma checked_vote_signed:
  assumes "vote_checks env e v = None" and "resolveValidatorID e (vt_Author v) = Some i" and "e_valSet e \<in> vss"
    and "(qc_BlockHash q, qc_View q, qc_Epoch q, qc_ConfigID q, qc_Lane q) =
      (vt_BlockID v, vt_View v, vt_Epoch v, vt_ConfigID v, vt_Lane v)"
  shows "signed_in (ev_verify env) vss q i (vt_Signature v)"
proof -
  have "vote_Verify (ev_verify env) v"
    using assms(1) unfolding vote_checks_def failed_check_None by simp
  moreover have "resolveValidatorPubKeyByID e i = Some (vt_Author v)"
    using assms(2) unfolding resolveValidatorID_def by (auto simp: find_Some_iff)
  ultimately show ?thesis
    using assms(3,4) by (auto simp: signed_in_def vote_Verify_def resolveValidatorPubKeyByID_def intro!: bexI [of _ "e_valSet e"])
qed

lemma eng_ok_put:
  "eng_ok ver vss e \<Longrightarrow> collector_ok (vote_key v) c \<Longrightarrow> all_signed ver vss (vcl_qc c) \<Longrightarrow>
   eng_ok ver vss (put_vote_collector v c e)"
  by (auto simp: eng_ok_def proposals_once_def collectors_ok_def signatures_ok_def high_ok_def put_vote_collector_def)

lemma verifyQC_agg [simp]:
  "verifyQC ver vs (Some (q\<lparr>qc_AggregatedSig := a\<rparr>)) = verifyQC ver vs (Some q)"
proof -
  have "qc_message (q\<lparr>qc_AggregatedSig := a\<rparr>) = qc_message q"
    by (simp add: qc_message_def)
  then have "sig_valid ver keys (q\<lparr>qc_AggregatedSig := a\<rparr>) = sig_valid ver keys q" for keys
    by (simp add: sig_valid_def fun_eq_iff split: option.split)
  then show ?thesis
    by (simp add: verifyQC_iff valid_signers_def)
qed

lemma high_OnVoteQC:
  "bt_highQC (OnVoteQC bt (Some q)) = bt_highQC bt \<or> bt_highQC (OnVoteQC bt (Some q)) = Some q"
  by (simp add: OnVoteQC_def Let_def split: option.split)

lemma eng_ok_OnVoteQC:
  assumes "eng_ok ver vss e" and "verifyQC ver (e_valSet e) (Some q)"
  shows "eng_ok ver vss (e\<lparr>e_blockTree := OnVoteQC (e_blockTree e) (Some q)\<rparr>)"
  using assms high_OnVoteQC [of "e_blockTree e" q]
  by (auto simp: eng_ok_def proposals_once_def collectors_ok_def signatures_ok_def high_ok_def vouched_def)

lemma eng_ok_record_vote:
  assumes "eng_ok ver vss e" and "ev_verify env = ver" and "record_vote env i v e = (e', formed)"
    and checked: "vote_checks env e v = None" "resolveValidatorID e (vt_Author v) = Some i"
  shows "eng_ok ver vss e'"
proof -
  let ?c = "collector_for e v"
  let ?c1 = "add_vote i v ?c"
  let ?q = "(vcl_qc ?c1)\<lparr>qc_AggregatedSig := aggregateSignatures env (qc_Signatures (vcl_qc ?c1))\<rparr>"
  have parts: "collectors_ok e" "signatures_ok ver vss e" "e_valSet e \<in> vss"
    using assms(1) by (simp_all add: eng_ok_def high_ok_def)
  have c: "collector_ok (vote_key v) ?c" and s: "all_signed ver vss (vcl_qc ?c)"
    using parts by (simp_all add: collector_for_ok signed_collector_for)
  have c1: "collector_ok (vote_key v) ?c1"
    using c by (rule collector_ok_add)
  have "signed_in ver vss (vcl_qc ?c) i (vt_Signature v)"
    unfolding assms(2) [symmetric] by (rule checked_vote_signed [OF checked parts(3)]) (simp add: collector_identity [OF parts(1)])
  with s have s1: "all_signed ver vss (vcl_qc ?c1)"
    by (rule all_signed_add)
  from c1 have c2: "collector_ok (vote_key v) (?c1\<lparr>vcl_qc := ?q, vcl_done := True\<rparr>)"
    by (simp add: collector_ok_def Let_def qc_counted_def)
  have s2: "all_signed ver vss (vcl_qc (?c1\<lparr>vcl_qc := ?q, vcl_done := True\<rparr>))"
    using s1 by (simp add: all_signed_def signed_in_def)
  let ?e2 = "put_vote_collector v (?c1\<lparr>vcl_qc := ?q, vcl_done := True\<rparr>) e"
  have formed: "eng_ok ver vss (advance w (?e2\<lparr>e_blockTree := OnVoteQC (e_blockTree ?e2) (Some ?q)\<rparr>))"
    if "verifyQC ver (e_valSet e) (Some (vcl_qc ?c1))" for w
    using that by (intro eng_ok_advance eng_ok_OnVoteQC eng_ok_put assms(1) c2 s2)
      (simp add: put_vote_collector_def)
  show ?thesis
    using assms(2,3) formed eng_ok_put [OF assms(1) c s] eng_ok_put [OF assms(1) c1 s1]
      eng_ok_incRejected [OF eng_ok_put [OF assms(1) c1 s1]]
    by (auto simp: record_vote_def Let_def eng_verifyQC_def split: if_splits)
qed

lemma eng_ok_vote_core:
  assumes "eng_ok ver vss e" and "ev_verify env = ver" and "vote_core env v e = Some (e', formed)"
  shows "eng_ok ver vss e'"
  using assms eng_ok_incRejected eng_ok_record_vote
  by (auto simp: vote_core_def split: option.splits)


lemma msg_type_proposal [simp]:
  "m_Type (proposal_message env e b) = MsgProposal" "m_View (proposal_message env e b) = current_view e"
  "m_Block (proposal_message env e b) = Some b"
  by (simp_all add: proposal_message_def signed_def blank_message_def)

lemma msg_type_other [simp]:
  "m_Type (vote_message env e b v) = MsgVote" "m_Type (timeout_message env e view tv) = MsgTimeout"
  by (simp_all add: vote_message_def timeout_message_def signed_def blank_message_def)

lemma build_justify [simp]: "b_Justify (buildProposalBlock env e cs d) = bt_highQC (e_blockTree e)"
  by (simp add: buildProposalBlock_def NewBlock_def Let_def)

lemma eng_ok_publish_own:
  assumes "eng_ok ver vss e" and "e_lastProposedView e < current_view e"
    and "m_Type m = MsgProposal" and "m_View m = current_view e"
  shows "eng_ok ver vss (emit [Publish m] (e\<lparr>e_lastProposedView := current_view e\<rparr>))"
  using assms
  by (auto simp: eng_ok_def proposals_once_def collectors_ok_def signatures_ok_def high_ok_def sorted_wrt_append)

lemma eng_ok_raise_last:
  "eng_ok ver vss e \<Longrightarrow> e_lastProposedView e < w \<Longrightarrow> eng_ok ver vss (e\<lparr>e_lastProposedView := w\<rparr>)"
  by (auto simp: eng_ok_def proposals_once_def collectors_ok_def signatures_ok_def high_ok_def)

lemma eng_ok_propose_core:
  assumes ok: "eng_ok ver vss e" and ver: "ev_verify env = ver"
    and step: "propose_core env certs e = Some (e', formed)"
  shows "eng_ok ver vss e'"
proof (cases "current_view e \<le> e_lastProposedView e")
  case False
  let ?e1 = "e\<lparr>e_lastProposedView := current_view e\<rparr>"
  have less: "e_lastProposedView e < current_view e"
    using False by simp
  obtain data where data: "nextBlockData env certs = Some data"
    using step False by (auto simp: propose_core_def Let_def split: option.splits)
  define b where "b = buildProposalBlock env ?e1 certs data"
  have v: "current_view ?e1 = current_view e" by (simp add: current_view_def)
  have pub: "eng_ok ver vss (emit [Publish (proposal_message env ?e1 b)] ?e1)"
    by (rule eng_ok_publish_own [OF ok less]) (simp_all add: v)
  have blk: "eng_ok ver vss e2"
    if "process_block b (emit [Publish (proposal_message env ?e1 b)] ?e1) = Some (e2, r)" for e2 r
    using pub that by (rule eng_ok_process_block) (simp add: b_def)
  show ?thesis
    using step False data blk eng_ok_raise_last [OF ok less] eng_ok_vote_core [OF _ ver]
    by (auto simp: propose_core_def Let_def b_def [symmetric] split: option.splits if_splits bool.splits prod.splits)
qed (use assms in \<open>auto simp: propose_core_def\<close>)

text \<open>What every round of proposing keeps is kept by \<open>tryPropose\<close>.\<close>

lemma tryPropose_keeps:
  assumes "tryPropose env e = Some e'" and "P e"
    and keep: "\<And>e e1 f. P e \<Longrightarrow> propose_core env (e_pendingCerts e) (e\<lparr>e_pendingCerts := []\<rparr>) = Some (e1, f) \<Longrightarrow> P e1"
  shows "P e'"
  using assms(1,2)
proof (induction env\<equiv>env e rule: tryPropose.induct)
  case (1 e)
  show ?case
  proof (cases "effective_leader env e = e_nodeID e \<and> e_pendingCerts e \<noteq> []")
    case True
    with 1(2) obtain e1 f where e1: "propose_core env (e_pendingCerts e) (e\<lparr>e_pendingCerts := []\<rparr>) = Some (e1, f)"
      and r: "if f then tryPropose env e1 = Some e' else e' = e1"
      unfolding tryPropose.simps [of env e] by (auto split: option.splits prod.splits if_splits)
    show ?thesis
      using 1(1) [OF True e1 refl] keep [OF 1(3) e1] r by (cases f) auto
  next
    case False
    then show ?thesis using 1(2,3) by (auto simp: tryPropose.simps [of env e] split: if_splits)
  qed
qed

lemma eng_ok_tryPropose:
  assumes "eng_ok ver vss e" and "ev_verify env = ver" and "tryPropose env e = Some e'"
  shows "eng_ok ver vss e'"
  using assms(3,1) by (rule tryPropose_keeps) (rule eng_ok_propose_core [OF eng_ok_pending assms(2)])

lemma eng_ok_and_propose:
  assumes "and_propose env r = Some e'" and "ev_verify env = ver"
    and "\<And>e f. r = Some (e, f) \<Longrightarrow> eng_ok ver vss e"
  shows "eng_ok ver vss e'"
  using assms eng_ok_tryPropose by (auto simp: and_propose_def split: option.splits prod.splits if_splits)

lemma eng_ok_handleVote:
  "eng_ok ver vss e \<Longrightarrow> ev_verify env = ver \<Longrightarrow> handleVote env v e = Some e' \<Longrightarrow> eng_ok ver vss e'"
  by (auto simp: handleVote_def eng_ok_incRejected split: option.splits
      intro: eng_ok_vote_core elim!: eng_ok_and_propose)

lemma eng_ok_proposeBlock:
  "eng_ok ver vss e \<Longrightarrow> ev_verify env = ver \<Longrightarrow> proposeBlock env cs e = Some e' \<Longrightarrow> eng_ok ver vss e'"
  by (auto simp: proposeBlock_def intro: eng_ok_propose_core elim!: eng_ok_and_propose)

lemma eng_ok_mempool:
  "eng_ok ver vss e \<Longrightarrow> ev_verify env = ver \<Longrightarrow> handleMempoolProposal env cs e = Some e' \<Longrightarrow> eng_ok ver vss e'"
  by (auto simp: handleMempoolProposal_def Let_def eng_ok_pending split: if_splits
      dest: eng_ok_proposeBlock [OF eng_ok_pending])


lemma eng_ok_absorb: "eng_ok ver vss e \<Longrightarrow> eng_ok ver vss (absorb_randomness env b (note_proposal b e))"
  by (erule eng_ok_cong) (simp_all add: absorb_randomness_def note_proposal_def split: option.split)

lemma absorb_frame [simp]:
  "e_blockTree (absorb_randomness env b (note_proposal b e)) = e_blockTree e"
  "e_valSet (absorb_randomness env b (note_proposal b e)) = e_valSet e"
  by (simp_all add: absorb_randomness_def note_proposal_def split: option.split)

lemma eng_ok_send_vote:
  "eng_ok ver vss e \<Longrightarrow> m_Type m \<noteq> MsgProposal \<Longrightarrow> eng_ok ver vss (send_vote env i m e)"
  by (simp add: send_vote_def eng_ok_emit)

lemma eng_ok_vote_for:
  "eng_ok ver vss e \<Longrightarrow> ev_verify env = ver \<Longrightarrow> vote_for env b e = Some e' \<Longrightarrow> eng_ok ver vss e'"
  by (auto simp: vote_for_def logged_hash_def eng_ok_send_vote split: option.splits bool.splits if_splits
      elim!: eng_ok_tryPropose [rotated 2])

lemma eng_ok_accept:
  assumes "eng_ok ver vss e" and "ev_verify env = ver" and "accept_proposal env b e = Some e'"
    and "\<And>q. b_Justify b = Some q \<Longrightarrow> vouched ver vss q"
  shows "eng_ok ver vss e'"
proof -
  let ?e1 = "absorb_randomness env b (note_proposal b e)"
  have e1: "eng_ok ver vss ?e1" using assms(1) by (rule eng_ok_absorb)
  have pb: "eng_ok ver vss e2" if "process_block b ?e1 = Some (e2, r)" for e2 r
    using e1 that by (rule eng_ok_process_block) (use assms(4) in auto)
  show ?thesis
    using assms(2,3) eng_ok_incRejected [OF e1] eng_ok_incRejected [OF pb] eng_ok_vote_for [OF eng_ok_advance [OF pb]]
    by (auto simp: accept_proposal_def Let_def logged_hash_def split: if_splits option.splits bool.splits prod.splits)
qed

lemma justify_vouched:
  assumes "validateProposalConstraint env e b = None" and "\<not> justify_invalid env e b"
    and "ev_verify env = ver" and "e_valSet e \<in> vss" and "b_Justify b = Some q"
  shows "vouched ver vss q"
proof -
  have "qc_View q < b_View b"
    using assms(1,5) by (auto simp: validateProposalConstraint_def Let_def split: option.splits if_splits)
  then have "qc_View q = 0 \<or> 1 < b_View b \<and> 0 < qc_View q"
    by (simp add: word_less_nat_alt word_unat_eq_iff) linarith
  then show ?thesis
    using assms(2-5) by (auto simp: justify_invalid_def eng_verifyQC_def vouched_def)
qed

lemma eng_ok_handleProposal:
  assumes "eng_ok ver vss e" and "ev_verify env = ver" and "handleProposal env bp e = Some e'"
  shows "eng_ok ver vss e'"
proof (cases bp)
  case (Some b)
  have j: "vouched ver vss q"
    if "validateProposalConstraint env e b = None" "\<not> justify_invalid env e b" "b_Justify b = Some q" for q
    using that assms(1,2) by (auto simp: eng_ok_def high_ok_def intro!: justify_vouched)
  have pen: "eng_ok ver vss (emit (hydra_mark env i f) (x\<lparr>e_reputation := r\<rparr>))" if "eng_ok ver vss x" for i f x r
    by (rule eng_ok_emit [OF eng_ok_cong [OF that]]) (simp_all add: hydra_mark_def split: option.split)
  show ?thesis
    using assms Some eng_ok_incRejected [OF assms(1)] pen [OF eng_ok_incRejected [OF assms(1)]]
      eng_ok_accept [OF assms(1,2) _ j]
    by (auto simp: handleProposal_def logged_hash_def Let_def split: option.splits if_splits)
qed (use assms in \<open>simp add: handleProposal_def\<close>)

section \<open>Timeouts and new views keep the invariant\<close>

lemma eng_ok_vcm: "eng_ok ver vss e \<Longrightarrow> eng_ok ver vss (e\<lparr>e_vcm := v\<rparr>)"
  by (erule eng_ok_cong) simp_all

lemma eng_ok_broadcast: "eng_ok ver vss e \<Longrightarrow> eng_ok ver vss (broadcastTimeoutVote env view e)"
  by (simp add: broadcastTimeoutVote_def Let_def eng_ok_emit eng_ok_vcm)

lemma eng_ok_on_timer:
  assumes "eng_ok ver vss e" and "ev_verify env = ver" and "on_timer env view e = Some e'"
  shows "eng_ok ver vss e'"
proof -
  have 1: "eng_ok ver vss (x\<lparr>e_pacemaker := p\<rparr>)" if "eng_ok ver vss x" for x p
    using that by (rule eng_ok_cong) simp_all
  have 2: "eng_ok ver vss (e\<lparr>e_reputation := r\<rparr>)" for r
    using assms(1) by (rule eng_ok_cong) simp_all
  show ?thesis
    using assms(1,3) unfolding on_timer_def Let_def
    by (auto split: if_splits intro!: eng_ok_advance eng_ok_broadcast 1 eng_ok_emit 2
        elim!: eng_ok_tryPropose [OF _ assms(2), rotated] split: option.split)
qed

lemma new_view_type [simp]:
  "newTCBackedNewViewMessage env e tc = Some m \<Longrightarrow> m_Type (signed env e' m) = MsgNewView"
  by (auto simp: newTCBackedNewViewMessage_def Let_def signed_def blank_message_def split: if_splits)

lemma eng_ok_handleTimeoutVote:
  assumes "eng_ok ver vss e" and "ev_verify env = ver" and "handleTimeoutVote env tvp e = Some e'"
  shows "eng_ok ver vss e'"
  using assms(1,3)
  by (auto simp: handleTimeoutVote_def Let_def eng_ok_incRejected eng_ok_vcm eng_ok_advance eng_ok_emit
      split: option.splits prod.splits if_splits elim!: eng_ok_tryPropose [OF _ assms(2), rotated])

lemma eng_ok_adopt:
  assumes "eng_ok ver vss e" and "verifyQC ver (e_valSet e) (Some q)"
  shows "eng_ok ver vss (fst (adopt_qc q e))"
  using assms by (simp add: adopt_qc_def eng_ok_OnVoteQC)

lemma eng_ok_new_view_to:
  assumes "eng_ok ver vss (fst ea)" and "ev_verify env = ver" and "new_view_to env view r ea = Some e'"
  shows "eng_ok ver vss e'"
  using assms
  by (auto simp: new_view_to_def eng_ok_incRejected eng_ok_advance split: prod.splits if_splits
      elim!: eng_ok_tryPropose [rotated 2])

lemma eng_ok_handleNewView:
  assumes "eng_ok ver vss e" and "ev_verify env = ver" and "handleNewView env m e = Some e'"
  shows "eng_ok ver vss e'"
  using assms
  by (auto simp: handleNewView_def failed_check_None eng_verifyQC_def eng_ok_incRejected
      split: option.splits if_splits elim!: eng_ok_new_view_to [rotated 2] intro!: eng_ok_adopt)


lemma eng_ok_guarded:
  "eng_ok ver vss e \<Longrightarrow> guarded r h e = Some e' \<Longrightarrow>
   (\<And>e'. h e = Some e' \<Longrightarrow> eng_ok ver vss e') \<Longrightarrow> eng_ok ver vss e'"
  by (auto simp: guarded_def eng_ok_incRejected split: option.splits)

lemma eng_ok_handleMessage:
  assumes ok: "eng_ok ver vss e" and ver: "ev_verify env = ver" and step: "handleMessage env mp e = Some e'"
  shows "eng_ok ver vss e'"
proof (cases mp)
  case (Some m)
  note handlers = eng_ok_handleProposal [OF ok ver] eng_ok_handleVote [OF ok ver]
    eng_ok_handleTimeoutVote [OF ok ver] eng_ok_handleNewView [OF ok ver]
  have "guarded (envelope_checks env e m) (\<lambda>e. case m_Type m of
         MsgProposal \<Rightarrow> (case m_Block m of None \<Rightarrow> Some (incRejected ''nil_proposal_payload'' e)
           | Some b \<Rightarrow> guarded (proposal_wrapper m b) (handleProposal env (Some b)) e)
       | MsgVote \<Rightarrow> (case m_Vote m of None \<Rightarrow> Some (incRejected ''nil_vote_payload'' e)
           | Some v \<Rightarrow> guarded (vote_wrapper e m v) (handleVote env (Some v)) e)
       | MsgTimeout \<Rightarrow> (case m_TimeoutVote m of None \<Rightarrow> Some (incRejected ''nil_timeout_vote_payload'' e)
           | Some tv \<Rightarrow> guarded (timeout_wrapper m tv) (handleTimeoutVote env (Some tv)) e)
       | MsgNewView \<Rightarrow> guarded (newview_wrapper m) (handleNewView env m) e
       | _ \<Rightarrow> Some e) e = Some e'"
    using step Some by (simp add: handleMessage_def)
  from eng_ok_guarded [OF ok this] show ?thesis
    by (rule meta_mp) (auto split: MessageType.splits option.splits intro: handlers eng_ok_incRejected [OF ok] ok
        elim!: eng_ok_guarded [OF ok])
qed (use assms in \<open>auto simp: handleMessage_def eng_ok_incRejected\<close>)

section \<open>Tuning and epoch changes keep the invariant\<close>

lemma eng_ok_tuning:
  assumes "eng_ok ver vss e"
  shows "eng_ok ver vss (SetAdaptiveTuning c t e)" "eng_ok ver vss (SetCommitteeSize n e)"
    "eng_ok ver vss (RegisterVRFPubKey i pk e)" "eng_ok ver vss (SetLocalVRFKeypair priv pub e)"
    "eng_ok ver vss (SetHydraManager env e)" "eng_ok ver vss (resetPacemaker env vs e)"
  by (rule eng_ok_cong [OF assms]; simp add: SetAdaptiveTuning_def SetCommitteeSize_def RegisterVRFPubKey_def
      SetLocalVRFKeypair_def SetHydraManager_def refreshLeaderSelectorFor_def resetPacemaker_def Let_def)+

lemma tuning_valSet [simp]:
  "e_valSet (SetAdaptiveTuning c t e) = e_valSet e" "e_valSet (SetCommitteeSize n e) = e_valSet e"
  "e_valSet (RegisterVRFPubKey i pk e) = e_valSet e" "e_valSet (SetLocalVRFKeypair priv pub e) = e_valSet e"
  "e_valSet (SetHydraManager env e) = e_valSet e" "e_valSet (resetPacemaker env vs e) = e_valSet e"
  "e_valSet (install_epoch vs ks e) = vs"
  by (simp_all add: SetAdaptiveTuning_def SetCommitteeSize_def RegisterVRFPubKey_def install_epoch_def
      SetLocalVRFKeypair_def SetHydraManager_def refreshLeaderSelectorFor_def resetPacemaker_def Let_def)

lemma vouched_mono: "vouched ver vss q \<Longrightarrow> vss \<subseteq> vss' \<Longrightarrow> vouched ver vss' q"
  by (auto simp: vouched_def)

lemma all_signed_mono: "all_signed ver vss q \<Longrightarrow> vss \<subseteq> vss' \<Longrightarrow> all_signed ver vss' q"
  unfolding all_signed_def signed_in_def by blast

lemma eng_ok_mono: "eng_ok ver vss e \<Longrightarrow> vss \<subseteq> vss' \<Longrightarrow> eng_ok ver vss' e"
  by (auto simp: eng_ok_def high_ok_def signatures_ok_def intro: vouched_mono all_signed_mono)

lemma eng_ok_install:
  assumes "eng_ok ver vss e"
  shows "eng_ok ver (insert vs vss) (install_epoch vs ks e)"
proof -
  have "eng_ok ver (insert vs vss) e"
    using assms by (rule eng_ok_mono) auto
  then show ?thesis
    by (simp add: eng_ok_def proposals_once_def collectors_ok_def signatures_ok_def high_ok_def install_epoch_def SetFastPathThreshold_def)
qed

lemma propose_core_valSet:
  assumes "propose_core env certs e = Some (e', f)"
  shows "e_valSet e' = e_valSet e"
  using assms
  by (auto simp: propose_core_def Let_def split: if_splits option.splits bool.splits prod.splits
      dest!: vote_core_frame(3) process_block_frame(4))

lemma tryPropose_valSet: "tryPropose env e = Some e' \<Longrightarrow> e_valSet e' = e_valSet e"
  by (erule tryPropose_keeps [where P = "\<lambda>x. e_valSet x = e_valSet e"]) (auto dest: propose_core_valSet)

lemma eng_ok_epoch:
  assumes "eng_ok ver vss e" and "ev_verify env = ver" and "onEpochChangeWithVRFKeys env vsp ks e = Some e'"
  shows "eng_ok ver (insert (e_valSet e') vss) e'"
proof (cases vsp)
  case None
  with assms show ?thesis
    by (auto simp: onEpochChangeWithVRFKeys_def intro: eng_ok_mono)
next
  case (Some vs)
  with assms(3) have run: "tryPropose env (resetPacemaker env vs (install_epoch vs ks e)) = Some e'"
    by (simp add: onEpochChangeWithVRFKeys_def)
  have "eng_ok ver (insert vs vss) (resetPacemaker env vs (install_epoch vs ks e))"
    by (intro eng_ok_tuning(6) eng_ok_install assms(1))
  from eng_ok_tryPropose [OF this assms(2) run] tryPropose_valSet [OF run] show ?thesis
    by simp
qed

lemma eng_ok_step:
  assumes "engine_step ver e e'" and "eng_ok ver vss e"
  shows "eng_ok ver (insert (e_valSet e') vss) e'"
proof -
  have grow: ?thesis if "eng_ok ver vss e'"
    using that by (rule eng_ok_mono) auto
  from assms(1) show ?thesis
  proof (cases rule: engine_step.cases)
    case (message env m)
    then show ?thesis by (intro grow eng_ok_handleMessage [OF assms(2)])
  next
    case (certs env cs)
    then show ?thesis by (intro grow eng_ok_mempool [OF assms(2)])
  next
    case (timer env view)
    then show ?thesis by (intro grow eng_ok_on_timer [OF assms(2)])
  next
    case (epoch env vs ks)
    then show ?thesis by (intro eng_ok_epoch [OF assms(2)])
  qed (rule grow, simp only: eng_ok_tuning [OF assms(2)])+
qed

definition sets_between :: "verifier \<Rightarrow> engine \<Rightarrow> engine \<Rightarrow> validator_set set" where
  "sets_between ver e0 e = {e_valSet x | x. (engine_step ver)\<^sup>*\<^sup>* e0 x \<and> (engine_step ver)\<^sup>*\<^sup>* x e}"

lemma eng_ok_run:
  assumes "(engine_step ver)\<^sup>*\<^sup>* e0 e" and "eng_ok ver {e_valSet e0} e0"
  shows "eng_ok ver (sets_between ver e0 e) e"
  using assms(1)
proof (induction rule: rtranclp_induct)
  case base
  show ?case
    using assms(2) by (rule eng_ok_mono) (auto simp: sets_between_def)
next
  case (step y z)
  have "insert (e_valSet z) (sets_between ver e0 y) \<subseteq> sets_between ver e0 z"
    using step(1,2) by (auto simp: sets_between_def intro: rtranclp.rtrancl_into_rtrancl)
  then show ?case
    using eng_ok_step [OF step(2,3)] by (rule eng_ok_mono [rotated])
qed

lemma eng_ok_new:
  "eng_ok ver {vs} (NewEngine env i pub priv vs sm inst n out t c vp vq g)"
  by (auto simp: NewEngine_def Let_def eng_ok_def proposals_once_def collectors_ok_def signatures_ok_def high_ok_def vouched_def
      resetPacemaker_def refreshLeaderSelectorFor_def NewBlockTreeWithEpoch_def SetFastPathThreshold_def
      SetCommitCallback_def NewQuorumCertificate_def NewQuorumCertificateWithIdentity_def)


lemma new_valSet [simp]: "e_valSet (NewEngine env i pub priv vs sm inst n out t c vp vq g) = vs"
  by (simp add: NewEngine_def Let_def)


section \<open>Certificates from votes\<close>

definition certifies :: "verifier \<Rightarrow> engine \<Rightarrow> vote \<Rightarrow> quorum_certificate \<Rightarrow> bool" where
  "certifies ver e v q \<longleftrightarrow> verifyQC ver (e_valSet e) (Some q) \<and>
     vote_quorum e \<le> word_of_int (int (gm_len (qc_Signatures q))) \<and>
     (qc_BlockHash q, qc_View q, qc_Epoch q, qc_ConfigID q, qc_Lane q) =
       (vt_BlockID v, vt_View v, vt_Epoch v, vt_ConfigID v, vt_Lane v) \<and>
     (\<exists>i. resolveValidatorID e (vt_Author v) = Some i \<and> i |\<in>| fmdom (qc_Signatures q))"

lemma record_vote_certifies:
  assumes "collectors_ok e" and "record_vote env i v e = (e', True)"
    and "resolveValidatorID e (vt_Author v) = Some i"
  shows "\<exists>q. certifies (ev_verify env) e v q \<and> e_blockTree e' = OnVoteQC (e_blockTree e) (Some q)"
proof -
  let ?c = "add_vote i v (collector_for e v)"
  let ?q = "(vcl_qc ?c)\<lparr>qc_AggregatedSig := aggregateSignatures env (qc_Signatures (vcl_qc ?c))\<rparr>"
  have count: "qc_NumSignatures (vcl_qc ?c) = int (gm_len (qc_Signatures (vcl_qc ?c)))"
    using collector_ok_add [OF collector_for_ok [OF assms(1)], of v i]
    by (simp add: collector_ok_def qc_counted_def Let_def)
  have q: "vote_quorum e \<le> word_of_int (int (gm_len (qc_Signatures (vcl_qc ?c))))"
    "verifyQC (ev_verify env) (e_valSet e) (Some (vcl_qc ?c))"
    and tree: "e_blockTree e' = OnVoteQC (e_blockTree e) (Some ?q)"
    using assms(2) by (auto simp: record_vote_def Let_def eng_verifyQC_def qc_IsComplete_def count
        put_vote_collector_def split: if_splits)
  have "certifies (ev_verify env) e v ?q"
    using q assms(3) collector_identity [OF assms(1)]
    by (simp add: certifies_def add_vote_def framing qcol.dom_add)
  with tree show ?thesis by blast
qed

lemma vote_core_certifies:
  assumes "collectors_ok e" and "vote_core env v e = Some (e', True)"
  shows "\<exists>q. certifies (ev_verify env) e v q \<and> e_blockTree e' = OnVoteQC (e_blockTree e) (Some q)"
  using assms(2) by (auto simp: vote_core_def split: option.splits intro: record_vote_certifies [OF assms(1)])

end
