(* ===== verification/Toy_Cluster.thy ===== *)
theory Toy_Cluster
  imports Engine
begin

text \<open>
  A concrete cluster for the witnesses: four validators, toy cryptography, and the run in which
  node 1 proposes and certifies its first block.
\<close>

section \<open>A concrete cluster\<close>

text \<open>
  Four validators with toy cryptography: the private key is the signature.  The node \<open>i\<close> runs lane
  0; the leader of view 1 is validator 1.
\<close>

definition toy_env :: engine_env where
  "toy_env = \<lparr> ev_verify = (\<lambda>pk m s. pk = s), ev_sign = (\<lambda>priv m. priv),
     ev_sha256 = (\<lambda>x. take 32 (x @ replicate 32 7)), ev_config_json = (\<lambda>n q items. []), ev_message_json = (\<lambda>m. []),
     ev_tx_json = (\<lambda>t. []), ev_bls = (\<lambda>s. None), ev_vrf_prove = (\<lambda>k m. None),
     ev_vrf_verify = (\<lambda>k m p. None), ev_now = 0, ev_get_vertex = (\<lambda>h. None),
     ev_publish_ok = (\<lambda>m. True), ev_unicast_ok = (\<lambda>i m. True), ev_hydra = None \<rparr>"

definition toy_set :: validator_set where
  "toy_set = NewValidatorSet 0 four_validators"

definition toy_engine :: "u64 \<Rightarrow> engine" where
  "toy_engine i = NewEngine toy_env i [ucast i] [ucast i] toy_set (NewStorageManager i) 0 1 False 500 0 [] [] []"

definition toy_certs :: "vertex_certificate option list" where
  "toy_certs = [Some (NewVertexCertificate [1] 0 0)]"

lemma toy_run_certs:
  assumes "handleMempoolProposal toy_env cs (toy_engine i) = Some e"
  shows "(engine_step (ev_verify toy_env))\<^sup>*\<^sup>* (toy_engine i) e"
  using assms by (blast intro: engine_step.certs)

definition after_proposal :: engine where
  "after_proposal = the (handleMempoolProposal toy_env toy_certs (toy_engine 1))"

lemma after_proposal_some: "handleMempoolProposal toy_env toy_certs (toy_engine 1) = Some after_proposal"
proof -
  have "handleMempoolProposal toy_env toy_certs (toy_engine 1) \<noteq> None" by code_simp
  then show ?thesis by (simp add: after_proposal_def)
qed

lemmas toy_reachable = toy_run_certs [OF after_proposal_some, unfolded toy_engine_def]

text \<open>The proposal reaches nodes 2 and 3, and their votes return to node 1, which certifies it.\<close>

definition deliver :: "message \<Rightarrow> engine \<Rightarrow> engine" where
  "deliver m e = the (handleMessage toy_env (Some m) e)"

definition proposal_of :: "engine \<Rightarrow> message" where
  "proposal_of e = (case hd (e_out e) of Publish m \<Rightarrow> m)"

definition vote_of :: "u64 \<Rightarrow> message" where
  "vote_of i = (case hd (e_out (deliver (proposal_of after_proposal) (toy_engine i))) of Unicast j m \<Rightarrow> m)"

definition after_votes :: engine where
  "after_votes = deliver (vote_of 3) (deliver (vote_of 2) after_proposal)"

lemma toy_delivers:
  "handleMessage toy_env (Some (vote_of 2)) after_proposal = Some (deliver (vote_of 2) after_proposal)"
  "handleMessage toy_env (Some (vote_of 3)) (deliver (vote_of 2) after_proposal) = Some after_votes"
proof -
  have "handleMessage toy_env (Some (vote_of 2)) after_proposal \<noteq> None"
    "handleMessage toy_env (Some (vote_of 3)) (deliver (vote_of 2) after_proposal) \<noteq> None" by code_simp+
  then show "handleMessage toy_env (Some (vote_of 2)) after_proposal = Some (deliver (vote_of 2) after_proposal)"
    "handleMessage toy_env (Some (vote_of 3)) (deliver (vote_of 2) after_proposal) = Some after_votes"
    by (auto simp: after_votes_def deliver_def [of "vote_of 3"] deliver_def [of "vote_of 2"])
qed

lemma toy_reachable_votes:
  "(engine_step (ev_verify toy_env))\<^sup>*\<^sup>*
     (NewEngine toy_env 1 [ucast (1 :: u64)] [ucast (1 :: u64)] toy_set (NewStorageManager 1) 0 1 False 500 0 [] [] []) after_votes"
  using toy_reachable toy_delivers by (meson engine_step.message rtranclp.rtrancl_into_rtrancl)

end
