(* ===== verification/Engine_Properties.thy ===== *)
theory Engine_Properties
  imports Toy_Cluster
begin

text \<open>
  What the consensus engine guarantees in every run (consensus/hotstuff/engine.go).
\<close>

section \<open>Safety of every run\<close>

lemma run_ok:
  "(engine_step ver)\<^sup>*\<^sup>* (NewEngine env i pub priv vs sm inst n out t c vp vq g) e \<Longrightarrow>
   eng_ok ver (sets_between ver (NewEngine env i pub priv vs sm inst n out t c vp vq g) e) e"
  by (rule eng_ok_run) (simp_all add: eng_ok_new)

text \<open>
  C3: a node publishes at most one proposal per view, in every run and across epoch changes, views
  only growing, whatever the network, the mempool, the clock and the other replicas do.
\<close>

theorem one_proposal_per_view:
  assumes "(engine_step ver)\<^sup>*\<^sup>* (NewEngine env i pub priv vs sm inst n out t c vp vq g) e"
  shows "sorted_wrt (<) (prop_views (e_out e))"
  using run_ok [OF assms] by (simp add: eng_ok_def proposals_once_def)

theorem one_proposal_per_view_witness:
  "prop_views (e_out after_proposal) = [1] \<and> sorted_wrt (<) (prop_views (e_out after_proposal))"
proof
  show "prop_views (e_out after_proposal) = [1]" by code_simp
  show "sorted_wrt (<) (prop_views (e_out after_proposal))"
    by (rule one_proposal_per_view [OF toy_reachable])
qed

text \<open>
  The certificate a node extends and locks against is never invented: in every run the high
  certificate has view zero or was verified with a validator set the node had at some point.
\<close>

theorem high_certificate_verified:
  assumes "(engine_step ver)\<^sup>*\<^sup>* (NewEngine env i pub priv vs sm inst n out t c vp vq g) e"
    and "bt_highQC (e_blockTree e) = Some q"
  shows "qc_View q = 0 \<or>
    (\<exists>x. (engine_step ver)\<^sup>*\<^sup>* (NewEngine env i pub priv vs sm inst n out t c vp vq g) x \<and>
       (engine_step ver)\<^sup>*\<^sup>* x e \<and> verifyQC ver (e_valSet x) (Some q))"
  using run_ok [OF assms(1)] assms(2) by (auto simp: eng_ok_def high_ok_def vouched_def sets_between_def)

text \<open>
  C12: votes are counted once, under the right statement and only when they are genuine: in every
  run the collector under a key holds a certificate with exactly that identity, its signer set is
  the set of its signatures, the counter that decides completeness is their number, and every one of
  these signatures verifies over exactly the statement of the certificate, under the key its signer
  had in the validator set of some state of the run.
\<close>

theorem votes_counted_once:
  assumes "(engine_step ver)\<^sup>*\<^sup>* (NewEngine env i pub priv vs sm inst n out t c vp vq g) e"
    and "fmlookup (e_voteCollectors e) k = Some cl"
  shows "k = collectorKey (qc_View (vcl_qc cl)) (qc_Epoch (vcl_qc cl)) (qc_ConfigID (vcl_qc cl))
      (qc_Lane (vcl_qc cl)) (qc_BlockHash (vcl_qc cl)) \<and>
    vcl_signers cl = fmdom (qc_Signatures (vcl_qc cl)) \<and>
    qc_NumSignatures (vcl_qc cl) = int (card (fset (vcl_signers cl))) \<and>
    (\<forall>j \<in> fset (vcl_signers cl). \<exists>s x w. fmlookup (qc_Signatures (vcl_qc cl)) j = Some s \<and>
       (engine_step ver)\<^sup>*\<^sup>* (NewEngine env i pub priv vs sm inst n out t c vp vq g) x \<and> (engine_step ver)\<^sup>*\<^sup>* x e \<and>
       get_validator (vs_Validators (e_valSet x)) j = Some w \<and>
       ver (v_PublicKey w) (VoteSigningBytes (qc_BlockHash (vcl_qc cl)) (qc_View (vcl_qc cl)) (qc_Epoch (vcl_qc cl))
         (qc_ConfigID (vcl_qc cl)) (qc_Lane (vcl_qc cl))) s)"
proof -
  let ?e0 = "NewEngine env i pub priv vs sm inst n out t c vp vq g"
  have ok: "collector_ok k cl" "all_signed ver (sets_between ver ?e0 e) (vcl_qc cl)"
    using run_ok [OF assms(1)] assms(2) by (auto simp: eng_ok_def collectors_ok_def signatures_ok_def)
  have "\<exists>s x w. fmlookup (qc_Signatures (vcl_qc cl)) j = Some s \<and> (engine_step ver)\<^sup>*\<^sup>* ?e0 x \<and> (engine_step ver)\<^sup>*\<^sup>* x e \<and>
       get_validator (vs_Validators (e_valSet x)) j = Some w \<and>
       ver (v_PublicKey w) (VoteSigningBytes (qc_BlockHash (vcl_qc cl)) (qc_View (vcl_qc cl)) (qc_Epoch (vcl_qc cl))
         (qc_ConfigID (vcl_qc cl)) (qc_Lane (vcl_qc cl))) s"
    if "j |\<in>| fmdom (qc_Signatures (vcl_qc cl))" for j
    using that ok(2) unfolding all_signed_def signed_in_def sets_between_def by (elim fmdomE) blast
  with ok(1) show ?thesis
    unfolding collector_ok_def Let_def qc_counted_def gm_len_card by simp
qed


theorem high_certificate_verified_witness:
  "\<exists>q. bt_highQC (e_blockTree after_votes) = Some q \<and> qc_View q = 1 \<and>
     (\<exists>x :: engine. verifyQC (ev_verify toy_env) (e_valSet x) (Some q))"
proof -
  have "(case bt_highQC (e_blockTree after_votes) of Some q \<Rightarrow> qc_View q = 1 | None \<Rightarrow> False)" by code_simp
  then obtain q where q: "bt_highQC (e_blockTree after_votes) = Some q" "qc_View q = 1"
    by (auto split: option.splits)
  with high_certificate_verified [OF toy_reachable_votes q(1)] show ?thesis by auto
qed

theorem votes_counted_once_witness:
  "\<exists>k cl. fmlookup (e_voteCollectors after_votes) k = Some cl \<and> vcl_done cl \<and>
     qc_NumSignatures (vcl_qc cl) = int (card (fset (vcl_signers cl))) \<and> vcl_signers cl = {|1, 2, 3|} \<and>
     (\<exists>s key. ev_verify toy_env key (VoteSigningBytes (qc_BlockHash (vcl_qc cl)) 1 0 0 0) s)"
proof -
  let ?b = "case m_Vote (vote_of 2) of Some v \<Rightarrow> vt_BlockID v"
  have "(case fmlookup (e_voteCollectors after_votes) (collectorKey 1 0 0 0 ?b) of
      Some cl \<Rightarrow> vcl_done cl \<and> vcl_signers cl = {|1, 2, 3|} \<and> qc_View (vcl_qc cl) = 1 \<and> qc_Epoch (vcl_qc cl) = 0 \<and>
        qc_ConfigID (vcl_qc cl) = 0 \<and> qc_Lane (vcl_qc cl) = 0 | None \<Rightarrow> False)" by code_simp
  then obtain cl where cl: "fmlookup (e_voteCollectors after_votes) (collectorKey 1 0 0 0 ?b) = Some cl" "vcl_done cl"
      "vcl_signers cl = {|1, 2, 3|}" "qc_View (vcl_qc cl) = 1" "qc_Epoch (vcl_qc cl) = 0" "qc_ConfigID (vcl_qc cl) = 0" "qc_Lane (vcl_qc cl) = 0"
    by (auto split: option.splits)
  note counted = votes_counted_once [OF toy_reachable_votes cl(1)]
  have "\<exists>s key. ev_verify toy_env key (VoteSigningBytes (qc_BlockHash (vcl_qc cl)) 1 0 0 0) s"
    using counted [THEN conjunct2, THEN conjunct2, THEN conjunct2] cl(3-7) by auto
  with counted cl show ?thesis by blast
qed


text \<open>
  C4: when a vote completes a certificate, that certificate carries signatures over the statement of
  the vote that verify under the keys of at least the quorum size of the current validators, counts
  the vote's author among its signers, has as many signers as the committee rule asks for, and is
  the one handed to the block tree.
\<close>

theorem vote_certificate_has_quorum:
  assumes "(engine_step ver)\<^sup>*\<^sup>* (NewEngine env0 i pub priv vs sm inst n out t c vp vq g) e"
    and "vote_core env v e = Some (e', True)"
  shows "\<exists>q. e_blockTree e' = OnVoteQC (e_blockTree e) (Some q) \<and>
     (qc_BlockHash q, qc_View q, qc_Epoch q, qc_ConfigID q, qc_Lane q) =
       (vt_BlockID v, vt_View v, vt_Epoch v, vt_ConfigID v, vt_Lane v) \<and>
     sint (vs_QuorumSize (e_valSet e)) \<le>
       int (card (valid_signers (ev_verify env) (vs_Validators (e_valSet e)) q)) \<and>
     vote_quorum e \<le> word_of_int (int (gm_len (qc_Signatures q))) \<and>
     (\<exists>j. resolveValidatorID e (vt_Author v) = Some j \<and> j |\<in>| fmdom (qc_Signatures q))"
  using vote_core_certifies [OF _ assms(2)] run_ok [OF assms(1)]
  by (auto simp: eng_ok_def certifies_def verifyQC_iff)

theorem vote_certificate_has_quorum_witness:
  "\<exists>q. bt_highQC (e_blockTree after_votes) = Some q \<and> 3 \<le> gm_len (qc_Signatures q)"
proof -
  let ?e = "deliver (vote_of 2) after_proposal" and ?v = "the (m_Vote (vote_of 3))"
  have run: "(engine_step (ev_verify toy_env))\<^sup>*\<^sup>*
     (NewEngine toy_env 1 [ucast (1 :: u64)] [ucast (1 :: u64)] toy_set (NewStorageManager 1) 0 1 False 500 0 [] [] []) ?e"
    using toy_reachable toy_delivers by (meson engine_step.message rtranclp.rtrancl_into_rtrancl)
  have "(case vote_core toy_env ?v ?e of Some (x, formed) \<Rightarrow> formed \<and>
      bt_highQC (e_blockTree x) = bt_highQC (e_blockTree after_votes) \<and>
      (case bt_highQC (e_blockTree x) of Some q \<Rightarrow> qc_View q = 1 | None \<Rightarrow> False) | None \<Rightarrow> False)"
    and high: "(case bt_highQC (e_blockTree ?e) of Some q \<Rightarrow> qc_View q = 0 | None \<Rightarrow> False)"
    and quorum: "vote_quorum ?e = 3 \<and> gm_len (vs_Validators (e_valSet ?e)) = 4" by code_simp+
  then obtain x where x: "vote_core toy_env ?v ?e = Some (x, True)"
      "bt_highQC (e_blockTree x) = bt_highQC (e_blockTree after_votes)"
    and q1: "\<exists>q. bt_highQC (e_blockTree x) = Some q \<and> qc_View q = 1"
    by (auto split: option.splits)
  from vote_certificate_has_quorum [OF run x(1)] obtain q where
    tree: "e_blockTree x = OnVoteQC (e_blockTree ?e) (Some q)"
    and n: "3 \<le> (word_of_int (int (gm_len (qc_Signatures q))) :: u64)" using quorum by auto
  have "(word_of_int (int k) :: u64) < 3" if "k < 3" for k
    using that by (auto simp: less_Suc_eq numeral_3_eq_3)
  then have "3 \<le> gm_len (qc_Signatures q)"
    using n by (meson not_le)
  moreover have "bt_highQC (e_blockTree x) = Some q"
    using q1 high high_OnVoteQC [of "e_blockTree ?e" q] by (auto simp: tree split: option.splits)
  ultimately show ?thesis using x(2) by auto
qed

lemma wrapper_senders:
  "proposal_wrapper m b = None \<Longrightarrow> b_LeaderID b = m_SenderID m \<and> b_View b = m_View m"
  "vote_wrapper e m v = None \<Longrightarrow> resolveValidatorID e (vt_Author v) = Some (m_SenderID m)"
  "timeout_wrapper m tv = None \<Longrightarrow> tv_VoterID tv = m_SenderID m"
  "newview_wrapper m = None \<Longrightarrow> (m_TC m = None) \<noteq> (m_QC m = None)"
  unfolding proposal_wrapper_def vote_wrapper_def timeout_wrapper_def newview_wrapper_def failed_check_None
  by auto

lemma envelope_ok:
  assumes "envelope_checks env e m = None"
  shows "\<exists>pk. resolveValidatorPubKeyByID e (m_SenderID m) = Some pk \<and> m_VerifySignature env m pk"
    and "m_Instance m = e_instanceID e" "m_Lane m = e_instanceID e" "m_ConfigID m = configID e"
      "e_currentEpoch e \<le> m_Epoch m"
    and "requires_leader_set_hash (m_Type m) \<Longrightarrow> m_LeaderSetHash m = leader_set_hash env e"
  using assms unfolding envelope_checks_def failed_check_None by (auto split: option.splits)

lemma guarded_cases: "(\<exists>x. guarded r h e = Some (incRejected x e)) \<or> r = None"
  by (cases r) (auto simp: guarded_def)

text \<open>
  C5: a message changes the state of a node only if it comes from a registered validator: in every
  other case the result is the old state with one rejection counted.  The sender's signature covers
  the whole message, instance, lane, configuration and leader set are those of the node, and the
  payload belongs to the sender: a proposal names it as the leader, a vote carries its key, a
  timeout vote its identifier, and a new view exactly one certificate.
\<close>

theorem only_authenticated_messages_act:
  "(\<exists>r. handleMessage env mp e = Some (incRejected r e)) \<or> handleMessage env mp e = Some e \<or>
   (\<exists>m pk. mp = Some m \<and> resolveValidatorPubKeyByID e (m_SenderID m) = Some pk \<and> m_Signature m \<noteq> [] \<and>
      ev_verify env pk (ev_message_json env (m\<lparr>m_Signature := []\<rparr>)) (m_Signature m) \<and>
      m_Instance m = e_instanceID e \<and> m_Lane m = e_instanceID e \<and> m_ConfigID m = configID e \<and>
      e_currentEpoch e \<le> m_Epoch m \<and> m_LeaderSetHash m = leader_set_hash env e \<and>
      ((\<exists>b. m_Type m = MsgProposal \<and> m_Block m = Some b \<and> b_LeaderID b = m_SenderID m \<and> b_View b = m_View m) \<or>
       (\<exists>v. m_Type m = MsgVote \<and> m_Vote m = Some v \<and> resolveValidatorID e (vt_Author v) = Some (m_SenderID m)) \<or>
       (\<exists>tv. m_Type m = MsgTimeout \<and> m_TimeoutVote m = Some tv \<and> tv_VoterID tv = m_SenderID m) \<or>
       m_Type m = MsgNewView \<and> (m_TC m = None) \<noteq> (m_QC m = None)))"
proof (cases mp)
  case (Some m)
  note step = handleMessage_def [of env mp e, unfolded Some, simplified]
  show ?thesis
  proof (cases "envelope_checks env e m")
    case None
    note env = envelope_ok [OF None]
    have go: "handleMessage env mp e = (case m_Type m of
         MsgProposal \<Rightarrow> (case m_Block m of None \<Rightarrow> Some (incRejected ''nil_proposal_payload'' e)
           | Some b \<Rightarrow> guarded (proposal_wrapper m b) (handleProposal env (Some b)) e)
       | MsgVote \<Rightarrow> (case m_Vote m of None \<Rightarrow> Some (incRejected ''nil_vote_payload'' e)
           | Some v \<Rightarrow> guarded (vote_wrapper e m v) (handleVote env (Some v)) e)
       | MsgTimeout \<Rightarrow> (case m_TimeoutVote m of None \<Rightarrow> Some (incRejected ''nil_timeout_vote_payload'' e)
           | Some tv \<Rightarrow> guarded (timeout_wrapper m tv) (handleTimeoutVote env (Some tv)) e)
       | MsgNewView \<Rightarrow> guarded (newview_wrapper m) (handleNewView env m) e
       | _ \<Rightarrow> Some e)"
      by (simp add: handleMessage_def Some guarded_def None)
    let ?payload = "(\<exists>b. m_Type m = MsgProposal \<and> m_Block m = Some b \<and> b_LeaderID b = m_SenderID m \<and> b_View b = m_View m) \<or>
       (\<exists>v. m_Type m = MsgVote \<and> m_Vote m = Some v \<and> resolveValidatorID e (vt_Author v) = Some (m_SenderID m)) \<or>
       (\<exists>tv. m_Type m = MsgTimeout \<and> m_TimeoutVote m = Some tv \<and> tv_VoterID tv = m_SenderID m) \<or>
       m_Type m = MsgNewView \<and> (m_TC m = None) \<noteq> (m_QC m = None)"
    have "(\<exists>r. handleMessage env mp e = Some (incRejected r e)) \<or> handleMessage env mp e = Some e \<or> ?payload"
    proof (cases "m_Type m")
      case MsgProposal
      have "(\<exists>r. guarded (proposal_wrapper m b) (handleProposal env (Some b)) e = Some (incRejected r e)) \<or>
          b_LeaderID b = m_SenderID m \<and> b_View b = m_View m" for b
        using guarded_cases wrapper_senders(1) by blast
      with MsgProposal show ?thesis by (cases "m_Block m") (auto simp: go)
    next
      case MsgVote
      have "(\<exists>r. guarded (vote_wrapper e m v) (handleVote env (Some v)) e = Some (incRejected r e)) \<or>
          resolveValidatorID e (vt_Author v) = Some (m_SenderID m)" for v
        using guarded_cases wrapper_senders(2) by blast
      with MsgVote show ?thesis by (cases "m_Vote m") (auto simp: go)
    next
      case MsgTimeout
      have "(\<exists>r. guarded (timeout_wrapper m tv) (handleTimeoutVote env (Some tv)) e = Some (incRejected r e)) \<or>
          tv_VoterID tv = m_SenderID m" for tv
        using guarded_cases wrapper_senders(3) by blast
      with MsgTimeout show ?thesis by (cases "m_TimeoutVote m") (auto simp: go)
    next
      case MsgNewView
      with guarded_cases [of "newview_wrapper m" "handleNewView env m" e] wrapper_senders(4) [of m] show ?thesis
        by (auto simp: go)
    qed (simp_all add: go)
    moreover have "?payload \<Longrightarrow> requires_leader_set_hash (m_Type m)"
      by (auto simp: requires_leader_set_hash_def)
    ultimately show ?thesis
      using env Some unfolding m_VerifySignature_def by blast
  qed (auto simp: Some handleMessage_def guarded_def)
qed (auto simp: handleMessage_def)

end
