(* ===== verification/Engine_Limits.thy ===== *)
theory Engine_Limits
  imports Toy_Cluster
begin

text \<open>
  Where the parts of the engine (consensus/hotstuff/engine.go) do not fit together: certificates of
  the old epoch after a reconfiguration, the proposals of fallback leaders, timeouts before the
  first certificate, certificates buffered for a view that comes back, and block hashes that are
  logged before their length is known.
\<close>

section \<open>After an epoch change\<close>

text \<open>A proposal is rejected when its certificate is of another epoch.\<close>

lemma other_epoch_rejected:
  assumes "b_Justify b = Some q" and "qc_Epoch q \<noteq> b_Epoch b"
  shows "\<exists>r. handleProposal env (Some b) e = Some (incRejected r e)"
proof -
  have "validateProposalConstraint env e b \<noteq> None"
    using assms by (auto simp: validateProposalConstraint_def Let_def split: option.splits)
  then show ?thesis by (auto simp: handleProposal_def)
qed

lemma build_epoch [simp]: "b_Epoch (buildProposalBlock env e cs d) = e_currentEpoch e"
  "b_LeaderID (buildProposalBlock env e cs d) = e_nodeID e" "b_View (buildProposalBlock env e cs d) = current_view e"
  by (simp_all add: buildProposalBlock_def NewBlock_def Let_def)

lemma failed_check_some: "(False, r) \<in> set cs \<Longrightarrow> failed_check cs \<noteq> None"
  by (simp add: failed_check_None) (metis fst_conv)

lemma other_epoch_timeout_rejected:
  assumes "tv_HighestQC tv = Some q" and "qc_Epoch q \<noteq> tv_Epoch tv"
  shows "\<exists>r. handleTimeoutVote env (Some tv) e = Some (incRejected r e)"
proof -
  have "timeout_checks env e tv \<noteq> None"
    unfolding timeout_checks_def using assms by (intro failed_check_some [of "''timeout_vote_highqc_mismatch''"]) simp
  then show ?thesis by (auto simp: handleTimeoutVote_def)
qed

text \<open>
  C34: an epoch change stops a lane.  The new epoch keeps the high certificate of the old one, every
  block the node can build carries it, and every replica in every state rejects such a block because
  the epochs differ; the node's timeout votes carry the same certificate and are rejected by every
  replica too, so no timeout certificate can be formed either.
\<close>

theorem epoch_change_stops_the_lane:
  assumes "bt_highQC (e_blockTree e) = Some q" and "qc_Epoch q \<noteq> vs_Epoch vs"
    and "e' = resetPacemaker env vs (install_epoch vs ks e)"
  shows "bt_highQC (e_blockTree e') = Some q \<and> e_currentEpoch e' = vs_Epoch vs \<and>
    (\<exists>r. handleProposal env2 (Some (buildProposalBlock env e' certs data)) e2 = Some (incRejected r e2)) \<and>
    (\<exists>r. handleTimeoutVote env2 (Some (own_timeout_vote env e' view)) e2 = Some (incRejected r e2))"
proof -
  have q: "bt_highQC (e_blockTree e') = Some q" and ep: "e_currentEpoch e' = vs_Epoch vs"
    using assms(1,3) by (simp_all add: resetPacemaker_def refreshLeaderSelectorFor_def install_epoch_def
        SetFastPathThreshold_def Let_def)
  then show ?thesis
    using assms(2) by (auto simp: own_timeout_vote_def intro!: other_epoch_rejected other_epoch_timeout_rejected)
qed

definition next_set :: validator_set where
  "next_set = NewValidatorSet 1 four_validators"

theorem epoch_change_stops_the_lane_witness:
  "let e = resetPacemaker toy_env next_set (install_epoch next_set fmempty (toy_engine 1)) in
   \<exists>r. handleProposal toy_env (Some (buildProposalBlock toy_env e toy_certs [])) (toy_engine 2) =
     Some (incRejected r (toy_engine 2))"
proof -
  obtain q where q: "bt_highQC (e_blockTree (toy_engine 1)) = Some q" and "qc_Epoch q = 0"
  proof -
    have "(case bt_highQC (e_blockTree (toy_engine 1)) of Some q \<Rightarrow> qc_Epoch q = 0 | None \<Rightarrow> False)" by code_simp
    then show ?thesis using that by (auto split: option.splits)
  qed
  then have "qc_Epoch q \<noteq> vs_Epoch next_set"
    by (simp add: next_set_def NewValidatorSet_def)
  from epoch_change_stops_the_lane [OF q this refl, where env = toy_env and ?env2.0 = toy_env and ks = fmempty
      and certs = toy_certs and data = "[]" and ?e2.0 = "toy_engine 2"]
  show ?thesis by (simp add: Let_def)
qed

text \<open>
  An epoch change loses buffered vertex certificates.  The view starts again at 1 while the last
  proposed view of the old epoch stays, so a node that leads view 1 of the new epoch and has proposed
  before takes its buffered certificates, proposes nothing, and they are gone.
\<close>

theorem epoch_change_loses_certificates:
  assumes "e' = resetPacemaker env vs (install_epoch vs ks e)" and "effective_leader env e' = e_nodeID e"
    and "e_lastProposedView e \<noteq> 0"
  shows "\<exists>x. onEpochChangeWithVRFKeys env (Some vs) ks e = Some x \<and> e_pendingCerts x = [] \<and> e_out x = e_out e"
proof -
  have e': "current_view e' = 1" "e_lastProposedView e' = e_lastProposedView e" "e_nodeID e' = e_nodeID e" "e_out e' = e_out e"
    using assms(1) by (simp_all add: current_view_def resetPacemaker_def refreshLeaderSelectorFor_def install_epoch_def
        NewPacemakerWithLane_def UpdateValidators_def Let_def)
  have "1 \<le> e_lastProposedView e"
    using assms(3) by (simp add: word_le_nat_alt word_unat_eq_iff Suc_le_eq)
  then have "propose_core env cs (e'\<lparr>e_pendingCerts := []\<rparr>) = Some (e'\<lparr>e_pendingCerts := []\<rparr>, False)" for cs
    using e' by (simp add: propose_core_def current_view_def)
  then have "tryPropose env e' = Some (if e_pendingCerts e' = [] then e' else e'\<lparr>e_pendingCerts := []\<rparr>)"
    using assms(2) e' by (subst tryPropose.simps) simp
  then show ?thesis
    using assms(1) e' by (simp add: onEpochChangeWithVRFKeys_def)
qed

text \<open>Node 1 after its first certificate, with the next certificates buffered for a later view.\<close>

definition buffering :: engine where
  "buffering = the (handleMempoolProposal toy_env toy_certs after_votes)"

theorem epoch_change_loses_certificates_witness:
  "length (e_pendingCerts buffering) = 1 \<and>
   (\<exists>x. onEpochChangeWithVRFKeys toy_env (Some next_set) fmempty buffering = Some x \<and> e_pendingCerts x = [])"
proof -
  let ?e = "resetPacemaker toy_env next_set (install_epoch next_set fmempty buffering)"
  have "length (e_pendingCerts buffering) = 1 \<and> effective_leader toy_env ?e = e_nodeID buffering \<and>
      e_lastProposedView buffering = 1" by code_simp
  with epoch_change_loses_certificates [OF refl, of toy_env next_set fmempty buffering] show ?thesis by auto
qed

section \<open>Before the first certificate\<close>

text \<open>
  While the high certificate is the genesis certificate, timeouts cannot be certified: it carries
  no signatures, the node's timeout vote contains it, and every replica rejects the vote.  Replicas
  leave the first views by their own clocks only.
\<close>

theorem genesis_timeouts_rejected:
  assumes "bt_highQC (e_blockTree e) = Some q" and "qc_Signatures q = fmempty"
  shows "\<exists>r. handleTimeoutVote env2 (Some (own_timeout_vote env e view)) e2 = Some (incRejected r e2)"
proof -
  have "\<not> eng_verifyQC env2 e2 (Some q)"
    using assms(2) by (simp add: eng_verifyQC_def verifyQC_iff)
  then have "timeout_checks env2 e2 (own_timeout_vote env e view) \<noteq> None"
    unfolding timeout_checks_def using assms(1)
    by (intro failed_check_some [of "''timeout_vote_invalid_highqc''"]) (simp add: own_timeout_vote_def)
  then show ?thesis by (auto simp: handleTimeoutVote_def)
qed

theorem genesis_timeouts_rejected_witness:
  "\<exists>r. handleTimeoutVote toy_env (Some (own_timeout_vote toy_env (toy_engine 1) 1)) (toy_engine 2) =
     Some (incRejected r (toy_engine 2))"
proof -
  have "(case bt_highQC (e_blockTree (toy_engine 1)) of Some q \<Rightarrow> gm_len (qc_Signatures q) = 0 | None \<Rightarrow> False)" by code_simp
  then obtain q where "bt_highQC (e_blockTree (toy_engine 1)) = Some q" "qc_Signatures q = fmempty"
    by (auto simp: gomap_simps split: option.splits)
  then show ?thesis by (rule genesis_timeouts_rejected)
qed

section \<open>Hashes in log lines\<close>

text \<open>
  One message of the leader crashes every replica.  A proposal whose certificate has no
  signatures and whose block hash is shorter than four bytes passes every earlier check, and the
  log line of the rejection slices the hash: the process panics.
\<close>

theorem short_hash_crashes:
  assumes "envelope_checks env e m = None" and "m_Type m = MsgProposal" and "m_Block m = Some b"
    and "proposal_wrapper m b = None" and "validateProposalConstraint env e b = None"
    and "b_Epoch b = e_currentEpoch e" and "b_Justify b = Some j" and "qc_Signatures j = fmempty"
    and "1 < b_View b" and "0 < qc_View j" and "length (b_Hash b) < 4"
  shows "handleMessage env (Some m) e = None"
proof -
  have "justify_invalid env e b"
    using assms(7-10) by (simp add: justify_invalid_def eng_verifyQC_def verifyQC_iff)
  then show ?thesis
    using assms by (simp add: handleMessage_def guarded_def handleProposal_def logged_hash_def)
qed

definition short_hash_block :: block where
  "short_hash_block = (buildProposalBlock toy_env (toy_engine 2) [] [])\<lparr> b_View := 2, b_Hash := [1],
     b_Parent := replicate 32 5, b_Justify := Some (NewQuorumCertificate (replicate 32 5) 1 0 PhasePrepare) \<rparr>"

definition short_hash_message :: message where
  "short_hash_message = signed toy_env (toy_engine 2)
     ((blank_message (toy_engine 2) MsgProposal 2 (leader_set_hash toy_env (toy_engine 2)))
        \<lparr>m_Block := Some short_hash_block\<rparr>)"

theorem short_hash_crashes_witness:
  "handleMessage toy_env (Some short_hash_message) (toy_engine 1) = None \<and>
   handleMessage toy_env (Some short_hash_message) (toy_engine 3) = None"
proof -
  have fields: "m_Type short_hash_message = MsgProposal" "m_Block short_hash_message = Some short_hash_block"
    "b_Justify short_hash_block = Some (NewQuorumCertificate (replicate 32 5) 1 0 PhasePrepare)"
    "b_View short_hash_block = 2" "length (b_Hash short_hash_block) < 4"
    by (simp_all add: short_hash_message_def short_hash_block_def signed_def blank_message_def)
  have qc: "qc_Signatures (NewQuorumCertificate (replicate 32 5) 1 0 PhasePrepare) = fmempty"
    "0 < qc_View (NewQuorumCertificate (replicate 32 5) 1 0 PhasePrepare)"
    by (simp_all add: NewQuorumCertificate_def NewQuorumCertificateWithIdentity_def)
  have checks: "envelope_checks toy_env (toy_engine 1) short_hash_message = None"
    "envelope_checks toy_env (toy_engine 3) short_hash_message = None"
    "proposal_wrapper short_hash_message short_hash_block = None"
    "validateProposalConstraint toy_env (toy_engine 1) short_hash_block = None"
    "validateProposalConstraint toy_env (toy_engine 3) short_hash_block = None"
    "b_Epoch short_hash_block = e_currentEpoch (toy_engine 1)"
    "b_Epoch short_hash_block = e_currentEpoch (toy_engine 3)"
    by code_simp+
  show ?thesis
    using short_hash_crashes [OF checks(1) fields(1,2) checks(3,4,6) fields(3) qc(1) _ qc(2) fields(5)]
      short_hash_crashes [OF checks(2) fields(1,2) checks(3,5,7) fields(3) qc(1) _ qc(2) fields(5)] fields(4)
    by simp
qed

section \<open>Leaders\<close>

text \<open>
  Fallback leaders propose in vain.  A node that acts as the fallback for a slow leader builds
  blocks that every replica with the same view of the leaders rejects, because replicas accept a
  block only from the primary leader of its view.
\<close>

theorem fallback_proposals_rejected:
  assumes "leader_of env e (current_view e) \<noteq> e_nodeID e"
    and "current_pacemaker env2 e2 = current_pacemaker env e"
  shows "\<exists>r. handleProposal env2 (Some (buildProposalBlock env e certs data)) e2 = Some (incRejected r e2)"
proof -
  let ?b = "buildProposalBlock env e certs data"
  have "b_LeaderID ?b \<noteq> leader_of env2 e2 (b_View ?b)"
    using assms by (simp add: leader_of_def)
  then have "validateProposalConstraint env2 e2 ?b \<noteq> None"
    by (simp add: validateProposalConstraint_def Let_def)
  then show ?thesis by (auto simp: handleProposal_def)
qed

text \<open>Three timeouts in a row make validator 1 a crashed leader for node 2.\<close>

definition sees_crash :: engine where
  "sees_crash = (toy_engine 2)\<lparr>e_reputation := fold RecordTimeout [1, 1, 1] (e_reputation (toy_engine 2))\<rparr>"

theorem fallback_proposals_rejected_witness:
  "effective_leader toy_env sees_crash = 2 \<and>
   (\<exists>r. handleProposal toy_env (Some (buildProposalBlock toy_env sees_crash toy_certs [])) (toy_engine 3) =
     Some (incRejected r (toy_engine 3)))"
proof
  show "effective_leader toy_env sees_crash = 2" by code_simp
  have "leader_of toy_env sees_crash (current_view sees_crash) \<noteq> e_nodeID sees_crash" by code_simp
  moreover have "current_pacemaker toy_env (toy_engine 3) = current_pacemaker toy_env sees_crash"
    by (simp add: current_pacemaker_def sees_crash_def toy_engine_def NewEngine_def resetPacemaker_def
        refreshLeaderSelectorFor_def Let_def)
  ultimately show "\<exists>r. handleProposal toy_env (Some (buildProposalBlock toy_env sees_crash toy_certs [])) (toy_engine 3) =
     Some (incRejected r (toy_engine 3))"
    by (rule fallback_proposals_rejected)
qed

end
