(* ===== verification/Gbc_Log.thy ===== *)
theory Gbc_Log
  imports Append_Log Quorum_System "HOL-Library.Signed_Division"
begin

text \<open>
  The log of the Global Beacon Chain (consensus/gbc/gbc.go, types.go): entries at consecutive
  heights, attestations of its members on them, and the quorum that makes an entry verifiable.
  \<open>sha256\<close> is the digest; a verifier is a function of signer, digest and signature, and may be
  absent.  A failed operation returns the error on the left and leaves the log alone.
\<close>

section \<open>Entries and quorums\<close>

record gbc_attestation =
  ga_SignerID :: u64
  ga_Signature :: bytes

record gbc_entry =
  ge_Height :: u64
  ge_Type :: string
  ge_Payload :: bytes
  ge_Attestations :: "gbc_attestation list"

definition EntryQC :: string where "EntryQC = ''qc''"
definition EntryCheckpoint :: string where "EntryCheckpoint = ''checkpoint''"
definition EntryPolicyUpdate :: string where "EntryPolicyUpdate = ''policy_update''"
definition EntryMembership :: string where "EntryMembership = ''membership''"
definition EntryTrust :: string where "EntryTrust = ''trust''"
definition EntryConfigVersion :: string where "EntryConfigVersion = ''config_version''"

type_synonym gbc_verifier = "u64 \<Rightarrow> bytes \<Rightarrow> bytes \<Rightarrow> bool"

text \<open>Go's division rounds towards zero.\<close>

definition gbc_QuorumSize :: "int \<Rightarrow> int" where
  "gbc_QuorumSize numMembers = 2 * ((numMembers - 1) sdiv 3) + 1"

definition gbc_signers :: "gbc_entry \<Rightarrow> u64 list" where
  "gbc_signers e = map ga_SignerID (ge_Attestations e)"

definition HasQuorum :: "int \<Rightarrow> gbc_entry \<Rightarrow> bool" where
  "HasQuorum numMembers e =
     (if int (length (ge_Attestations e)) < gbc_QuorumSize numMembers then False
      else gbc_QuorumSize numMembers \<le> int (length (remdups (gbc_signers e))))"

definition EntryDigest :: "(bytes \<Rightarrow> bytes) \<Rightarrow> u64 \<Rightarrow> string \<Rightarrow> bytes \<Rightarrow> bytes" where
  "EntryDigest sha256 height ty payload = sha256 (be64 height @ map of_char ty @ sha256 payload)"

datatype gbc_error = HeightGap u64 u64 | DuplicateAttestation u64 | EmptySignature u64
  | BadSignature u64 u64 | NoQuorum u64 | NoEntry u64

section \<open>Operations\<close>

record gbc_log =
  gl_entries :: "(u64, gbc_entry) fmap"
  gl_latestByType :: "(string, gbc_entry) fmap"
  gl_nextHeight :: u64
  gl_numMembers :: int
  gl_verifier :: "gbc_verifier option"

definition NewLogWithMembers :: "int \<Rightarrow> gbc_log" where
  "NewLogWithMembers n = \<lparr> gl_entries = fmempty, gl_latestByType = fmempty, gl_nextHeight = 1,
     gl_numMembers = n, gl_verifier = None \<rparr>"

definition SetNumMembers :: "int \<Rightarrow> gbc_log \<Rightarrow> gbc_log" where
  "SetNumMembers n l = l\<lparr>gl_numMembers := n\<rparr>"

definition SetVerifier :: "gbc_verifier option \<Rightarrow> gbc_log \<Rightarrow> gbc_log" where
  "SetVerifier v l = l\<lparr>gl_verifier := v\<rparr>"

definition verifyAttestation ::
  "(bytes \<Rightarrow> bytes) \<Rightarrow> gbc_verifier option \<Rightarrow> gbc_entry \<Rightarrow> gbc_attestation \<Rightarrow> gbc_error option" where
  "verifyAttestation sha256 verifier e att =
     (if ga_Signature att = [] then Some (EmptySignature (ga_SignerID att))
      else case verifier of None \<Rightarrow> None
        | Some v \<Rightarrow> if v (ga_SignerID att) (EntryDigest sha256 (ge_Height e) (ge_Type e) (ge_Payload e)) (ga_Signature att)
            then None else Some (BadSignature (ga_SignerID att) (ge_Height e)))"

text \<open>The loop over the attestations with the set of the signers seen so far.\<close>

fun verify_all ::
  "(bytes \<Rightarrow> bytes) \<Rightarrow> gbc_verifier option \<Rightarrow> gbc_entry \<Rightarrow> u64 fset \<Rightarrow> gbc_attestation list \<Rightarrow> gbc_error option" where
  "verify_all sha256 verifier e seen [] = None"
| "verify_all sha256 verifier e seen (att # atts) =
     (if ga_SignerID att |\<in>| seen then Some (DuplicateAttestation (ga_SignerID att))
      else case verifyAttestation sha256 verifier e att of Some err \<Rightarrow> Some err
        | None \<Rightarrow> verify_all sha256 verifier e (finsert (ga_SignerID att) seen) atts)"

definition verifyEntryWith ::
  "(bytes \<Rightarrow> bytes) \<Rightarrow> int \<Rightarrow> gbc_verifier option \<Rightarrow> gbc_entry \<Rightarrow> bool \<Rightarrow> gbc_error option" where
  "verifyEntryWith sha256 numMembers verifier e requireQuorum =
     (case verify_all sha256 verifier e {||} (ge_Attestations e) of Some err \<Rightarrow> Some err
      | None \<Rightarrow> if requireQuorum \<and> \<not> HasQuorum numMembers e then Some (NoQuorum (ge_Height e)) else None)"

definition VerifyEntry :: "(bytes \<Rightarrow> bytes) \<Rightarrow> gbc_log \<Rightarrow> gbc_entry \<Rightarrow> bool \<Rightarrow> gbc_error option" where
  "VerifyEntry sha256 l e = verifyEntryWith sha256 (gl_numMembers l) (gl_verifier l) e"

definition store_entry :: "gbc_entry \<Rightarrow> gbc_log \<Rightarrow> gbc_log" where
  "store_entry e l = l\<lparr> gl_entries := fmupd (ge_Height e) e (gl_entries l),
     gl_latestByType := fmupd (ge_Type e) e (gl_latestByType l) \<rparr>"

definition gbc_Publish :: "(bytes \<Rightarrow> bytes) \<Rightarrow> gbc_entry \<Rightarrow> gbc_log \<Rightarrow> gbc_error + gbc_log" where
  "gbc_Publish sha256 e l =
     (if ge_Height e \<noteq> gl_nextHeight l then Inl (HeightGap (gl_nextHeight l) (ge_Height e))
      else case verifyEntryWith sha256 (gl_numMembers l) (gl_verifier l) e False of Some err \<Rightarrow> Inl err
        | None \<Rightarrow> Inr ((store_entry e l)\<lparr>gl_nextHeight := gl_nextHeight l + 1\<rparr>))"

text \<open>The updated entry is stored under the requested height.\<close>

definition gbc_Attest ::
  "(bytes \<Rightarrow> bytes) \<Rightarrow> u64 \<Rightarrow> gbc_attestation \<Rightarrow> gbc_log \<Rightarrow> gbc_error + (gbc_log \<times> bool)" where
  "gbc_Attest sha256 height att l = (case fmlookup (gl_entries l) height of
     None \<Rightarrow> Inl (NoEntry height)
   | Some e \<Rightarrow>
       if ga_Signature att = [] then Inl (EmptySignature (ga_SignerID att))
       else case verifyAttestation sha256 (gl_verifier l) e att of Some err \<Rightarrow> Inl err
         | None \<Rightarrow>
             if ga_SignerID att \<in> set (gbc_signers e) then Inr (l, HasQuorum (gl_numMembers l) e)
             else let e' = e\<lparr>ge_Attestations := ge_Attestations e @ [att]\<rparr>
               in Inr (l\<lparr> gl_entries := fmupd height e' (gl_entries l),
                          gl_latestByType := fmupd (ge_Type e') e' (gl_latestByType l) \<rparr>,
                       HasQuorum (gl_numMembers l) e'))"

definition Retrieve :: "u64 \<Rightarrow> gbc_log \<Rightarrow> gbc_entry option" where
  "Retrieve height l = fmlookup (gl_entries l) height"

definition LatestByType :: "string \<Rightarrow> gbc_log \<Rightarrow> gbc_entry option" where
  "LatestByType ty l = fmlookup (gl_latestByType l) ty"

section \<open>Verified entries\<close>

definition att_valid :: "(bytes \<Rightarrow> bytes) \<Rightarrow> gbc_verifier option \<Rightarrow> gbc_entry \<Rightarrow> gbc_attestation \<Rightarrow> bool" where
  "att_valid sha256 verifier e att \<longleftrightarrow> verifyAttestation sha256 verifier e att = None"

lemma verify_all_iff:
  "verify_all sha256 verifier e seen atts = None \<longleftrightarrow>
    (\<forall>att \<in> set atts. att_valid sha256 verifier e att \<and> ga_SignerID att |\<notin>| seen) \<and>
    distinct (map ga_SignerID atts)"
  by (induction atts arbitrary: seen) (auto simp: att_valid_def image_iff split: option.splits)

lemma HasQuorum_iff:
  "HasQuorum n e \<longleftrightarrow> gbc_QuorumSize n \<le> int (card (set (gbc_signers e)))"
proof -
  have "card (set (gbc_signers e)) \<le> length (ge_Attestations e)"
    using card_length [of "gbc_signers e"] by (simp add: gbc_signers_def)
  then show ?thesis
    by (auto simp: HasQuorum_def length_remdups_card_conv)
qed

lemma verifyEntryWith_iff:
  "verifyEntryWith sha256 n verifier e q = None \<longleftrightarrow>
    (\<forall>att \<in> set (ge_Attestations e). att_valid sha256 verifier e att) \<and> distinct (gbc_signers e) \<and>
    (q \<longrightarrow> HasQuorum n e)"
  unfolding verifyEntryWith_def gbc_signers_def
  using verify_all_iff [of sha256 verifier e "{||}" "ge_Attestations e"]
  by (cases "verify_all sha256 verifier e {||} (ge_Attestations e)") auto

lemma gbc_Publish_Inr:
  "gbc_Publish sha256 e l = Inr l' \<longleftrightarrow> ge_Height e = gl_nextHeight l \<and>
    verifyEntryWith sha256 (gl_numMembers l) (gl_verifier l) e False = None \<and>
    l' = (store_entry e l)\<lparr>gl_nextHeight := gl_nextHeight l + 1\<rparr>"
  by (auto simp: gbc_Publish_def split: option.splits)

lemma gbc_Attest_Inr:
  "gbc_Attest sha256 height att l = Inr (l', q) \<longleftrightarrow>
    (\<exists>e. fmlookup (gl_entries l) height = Some e \<and> ga_Signature att \<noteq> [] \<and>
      att_valid sha256 (gl_verifier l) e att \<and>
      (if ga_SignerID att \<in> set (gbc_signers e) then l' = l \<and> q = HasQuorum (gl_numMembers l) e
       else let e' = e\<lparr>ge_Attestations := ge_Attestations e @ [att]\<rparr>
         in l' = l\<lparr> gl_entries := fmupd height e' (gl_entries l),
              gl_latestByType := fmupd (ge_Type e') e' (gl_latestByType l) \<rparr> \<and>
            q = HasQuorum (gl_numMembers l) e'))"
  by (auto simp: gbc_Attest_def att_valid_def Let_def split: option.splits)


section \<open>Append-only integrity\<close>

text \<open>What an attestation never changes.\<close>

definition ge_core :: "gbc_entry \<Rightarrow> u64 \<times> string \<times> bytes" where
  "ge_core e = (ge_Height e, ge_Type e, ge_Payload e)"

definition log_list :: "gbc_log \<Rightarrow> (u64 \<times> string \<times> bytes) list" where
  "log_list l = map (\<lambda>i. ge_core (the (fmlookup (gl_entries l) (of_nat i)))) [1..<unat (gl_nextHeight l)]"

definition log_shape :: "gbc_log \<Rightarrow> bool" where
  "log_shape l \<longleftrightarrow> 1 \<le> gl_nextHeight l \<and>
     (\<forall>h. fmlookup (gl_entries l) h \<noteq> None \<longleftrightarrow> 1 \<le> h \<and> h < gl_nextHeight l) \<and>
     (\<forall>h e. fmlookup (gl_entries l) h = Some e \<longrightarrow> ge_Height e = h)"

inductive gbc_log_step :: "(bytes \<Rightarrow> bytes) \<Rightarrow> gbc_log \<Rightarrow> gbc_log \<Rightarrow> bool" for sha256 where
  publish: "gbc_Publish sha256 e l = Inr l' \<Longrightarrow> gl_nextHeight l < u64_max \<Longrightarrow> gbc_log_step sha256 l l'"
| attest: "gbc_Attest sha256 h att l = Inr (l', q) \<Longrightarrow> gbc_log_step sha256 l l'"
| members: "gbc_log_step sha256 l (SetNumMembers n l)"
| verifier: "gbc_log_step sha256 l (SetVerifier v l)"

lemma log_shape_publish:
  assumes "log_shape l" and "gbc_Publish sha256 e l = Inr l'" and "gl_nextHeight l < u64_max"
  shows "log_shape l'"
proof -
  have n: "ge_Height e = gl_nextHeight l" "1 \<le> gl_nextHeight l"
    using assms(1,2) by (auto simp: gbc_Publish_Inr log_shape_def)
  have "h < gl_nextHeight l + 1 \<longleftrightarrow> h < gl_nextHeight l \<or> h = gl_nextHeight l" for h
    using u64_less_succ_iff [OF assms(3)] by (auto simp: le_less)
  moreover have "1 \<le> gl_nextHeight l + 1"
    using u64_succ_less [OF assms(3)] n(2) by (meson le_less_trans less_imp_le)
  ultimately show ?thesis
    using assms(1,2) n by (auto simp: log_shape_def gbc_Publish_Inr store_entry_def)
qed

lemma log_shape_attest:
  assumes "log_shape l" and "gbc_Attest sha256 h att l = Inr (l', q)"
  shows "log_shape l'"
  using assms unfolding log_shape_def gbc_Attest_Inr
  by (auto simp: Let_def split: if_splits)

lemma log_shape_frame: "log_shape l \<Longrightarrow> log_shape (SetNumMembers n l)" "log_shape l \<Longrightarrow> log_shape (SetVerifier v l)"
  by (simp_all add: log_shape_def SetNumMembers_def SetVerifier_def)

lemma log_shape_step: "gbc_log_step sha256 l l' \<Longrightarrow> log_shape l \<Longrightarrow> log_shape l'"
  by (erule gbc_log_step.cases) (blast intro: log_shape_publish log_shape_attest log_shape_frame)+

lemma core_publish:
  assumes "log_shape l" and "gbc_Publish sha256 e l = Inr l'" and "fmlookup (gl_entries l) h = Some x"
  shows "fmlookup (gl_entries l') h = Some x"
proof -
  have "h \<noteq> ge_Height e"
    using assms by (auto simp: gbc_Publish_Inr log_shape_def dest: spec [of _ h])
  with assms show ?thesis
    by (auto simp: gbc_Publish_Inr store_entry_def)
qed

lemma core_attest:
  assumes "gbc_Attest sha256 k att l = Inr (l', q)" and "fmlookup (gl_entries l) h = Some x"
  shows "\<exists>y. fmlookup (gl_entries l') h = Some y \<and> ge_core y = ge_core x \<and>
    prefix (ge_Attestations x) (ge_Attestations y)"
  using assms by (auto simp: gbc_Attest_Inr ge_core_def Let_def split: if_splits)

lemma core_step:
  assumes "gbc_log_step sha256 l l'" and "log_shape l" and "fmlookup (gl_entries l) h = Some x"
  shows "\<exists>y. fmlookup (gl_entries l') h = Some y \<and> ge_core y = ge_core x \<and>
    prefix (ge_Attestations x) (ge_Attestations y)"
  using assms
  by (induction rule: gbc_log_step.induct)
    (auto simp: SetNumMembers_def SetVerifier_def dest: core_publish intro: core_attest)

lemma next_step:
  assumes "gbc_log_step sha256 l l'"
  shows "gl_nextHeight l' = gl_nextHeight l \<or> gl_nextHeight l < u64_max \<and> gl_nextHeight l' = gl_nextHeight l + 1"
  using assms
  by (induction rule: gbc_log_step.induct)
    (auto simp: gbc_Publish_Inr gbc_Attest_Inr SetNumMembers_def SetVerifier_def Let_def split: if_splits)

lemma log_list_step:
  assumes "log_shape l" and "gbc_log_step sha256 l l'"
  shows "prefix (log_list l) (log_list l')"
proof -
  let ?n = "unat (gl_nextHeight l)"
  have n1: "1 \<le> ?n"
    using assms(1) by (simp add: log_shape_def word_le_nat_alt)
  have same: "ge_core (the (fmlookup (gl_entries l') (of_nat i))) = ge_core (the (fmlookup (gl_entries l) (of_nat i)))"
    if "i \<in> {1..<?n}" for i
  proof -
    have i: "unat (of_nat i :: u64) = i"
      using that by (intro unat_of_nat_below) auto
    have "fmlookup (gl_entries l) (of_nat i) \<noteq> None"
      using assms(1) that i by (auto simp: log_shape_def word_le_nat_alt word_less_nat_alt)
    then show ?thesis
      using core_step [OF assms(2,1)] by fastforce
  qed
  have "?n \<le> unat (gl_nextHeight l')"
    using next_step [OF assms(2)] by (auto simp: unat_succ)
  then have "[1..<unat (gl_nextHeight l')] = [1..<?n] @ [?n..<unat (gl_nextHeight l')]"
    using n1 by (metis le_Suc_ex upt_add_eq_append)
  moreover have "map (\<lambda>i. ge_core (the (fmlookup (gl_entries l') (of_nat i)))) [1..<?n] = log_list l"
    unfolding log_list_def using same by (intro map_cong) auto
  ultimately show ?thesis
    by (simp add: log_list_def [of l'] del: One_nat_def)
qed

lemma log_list_heights:
  assumes "log_shape l"
  shows "map (\<lambda>(h, t, p). unat h) (log_list l) = [1..<1 + length (log_list l)]"
proof -
  have len: "1 + length (log_list l) = unat (gl_nextHeight l)"
    using assms by (simp add: log_list_def log_shape_def word_le_nat_alt)
  have "unat (ge_Height (the (fmlookup (gl_entries l) (of_nat i)))) = i"
    if "i \<in> {1..<unat (gl_nextHeight l)}" for i
  proof -
    have i: "unat (of_nat i :: u64) = i"
      using that by (intro unat_of_nat_below) auto
    have "fmlookup (gl_entries l) (of_nat i) \<noteq> None"
      using assms that i by (auto simp: log_shape_def word_le_nat_alt word_less_nat_alt)
    then obtain e where e: "fmlookup (gl_entries l) (of_nat i) = Some e" by blast
    then have "ge_Height e = of_nat i"
      using assms by (simp add: log_shape_def)
    with e i show ?thesis by simp
  qed
  then have "map (\<lambda>(h, t, p). unat h) (log_list l) = [1..<unat (gl_nextHeight l)]"
    unfolding log_list_def map_map by (intro map_idI) (auto simp: ge_core_def)
  then show ?thesis
    by (simp only: len)
qed

interpretation gbclog: append_log log_list "\<lambda>(h, t, p). unat h" "\<lambda>_. 1" "gbc_log_step sha256" log_shape for sha256
  by unfold_locales (simp_all only: log_shape_step log_list_step log_list_heights)


section \<open>Promises\<close>

definition log_valid :: "(bytes \<Rightarrow> bytes) \<Rightarrow> gbc_verifier \<Rightarrow> gbc_log \<Rightarrow> bool" where
  "log_valid sha256 ver l \<longleftrightarrow> gl_verifier l = Some ver \<and>
     (\<forall>h e. fmlookup (gl_entries l) h = Some e \<longrightarrow> distinct (gbc_signers e) \<and>
       (\<forall>att \<in> set (ge_Attestations e). att_valid sha256 (Some ver) e att))"

lemma att_valid_core: "att_valid sha256 v (e\<lparr>ge_Attestations := as\<rparr>) att = att_valid sha256 v e att"
  by (simp add: att_valid_def verifyAttestation_def split: option.split)

lemma log_valid_publish:
  "log_valid sha256 ver l \<Longrightarrow> gbc_Publish sha256 e l = Inr l' \<Longrightarrow> log_valid sha256 ver l'"
  by (auto simp: log_valid_def gbc_Publish_Inr verifyEntryWith_iff store_entry_def split: if_splits)

lemma log_valid_attest:
  "log_valid sha256 ver l \<Longrightarrow> gbc_Attest sha256 h att l = Inr (l', q) \<Longrightarrow> log_valid sha256 ver l'"
  unfolding log_valid_def gbc_Attest_Inr
  by (auto simp: Let_def att_valid_core gbc_signers_def split: if_splits)

text \<open>
  C31: the beacon log is append-only: through any sequence of publications, attestations and changes
  of the member count or verifier, an entry that was once stored at a height stays there with its
  type and payload, its attestations are only extended, and the heights of the log are exactly the
  consecutive ones below the next height.
\<close>

theorem gbc_log_append_only:
  assumes "(gbc_log_step sha256)\<^sup>*\<^sup>* (NewLogWithMembers n) l" and "(gbc_log_step sha256)\<^sup>*\<^sup>* l l'"
    and "Retrieve h l = Some x"
  shows "(\<exists>y. Retrieve h l' = Some y \<and> ge_core y = ge_core x \<and> ge_Height y = h \<and>
      prefix (ge_Attestations x) (ge_Attestations y)) \<and>
    prefix (log_list l) (log_list l') \<and> (Retrieve k l' \<noteq> None \<longleftrightarrow> 1 \<le> k \<and> k < gl_nextHeight l')"
proof -
  have init: "log_shape (NewLogWithMembers n)"
    by (auto simp: log_shape_def NewLogWithMembers_def word_le_nat_alt word_less_nat_alt)
  have shape: "log_shape l" and shape': "log_shape l'" and pre: "prefix (log_list l) (log_list l')"
    using gbclog.run_inv [OF assms(1) init] gbclog.run_inv [OF assms(2)] by auto
  have "\<exists>y. Retrieve h l' = Some y \<and> ge_core y = ge_core x \<and> prefix (ge_Attestations x) (ge_Attestations y)"
    using assms(2)
  proof (induction rule: rtranclp_induct)
    case (step m m')
    have "log_shape m"
      using gbclog.run_inv [OF step(1) shape] by blast
    from step(3) obtain y where y: "Retrieve h m = Some y" "ge_core y = ge_core x"
        "prefix (ge_Attestations x) (ge_Attestations y)" by blast
    then show ?case
      using core_step [OF step(2) \<open>log_shape m\<close>] unfolding Retrieve_def by (metis prefix_order.trans)
  qed (simp add: assms(3))
  with pre shape' show ?thesis
    by (auto simp: log_shape_def Retrieve_def)
qed

text \<open>
  An attestation that reports a quorum tells the truth: the entry at that height then carries
  valid signatures, under the installed verifier and over this entry's digest, of at least the
  quorum of distinct signers.
\<close>

theorem gbc_Attest_quorum:
  assumes "log_valid sha256 ver l" and "gbc_Attest sha256 h att l = Inr (l', True)"
  shows "\<exists>e S. Retrieve h l' = Some e \<and> card S = length (ge_Attestations e) \<and>
    gbc_QuorumSize (gl_numMembers l) \<le> int (card S) \<and>
    (\<forall>i \<in> S. \<exists>s. ver i (EntryDigest sha256 (ge_Height e) (ge_Type e) (ge_Payload e)) s)"
proof -
  from assms(2) obtain e where e: "Retrieve h l' = Some e" "HasQuorum (gl_numMembers l) e"
    by (auto simp: gbc_Attest_Inr Retrieve_def Let_def split: if_splits)
  have valid: "distinct (gbc_signers e)" "\<And>att. att \<in> set (ge_Attestations e) \<Longrightarrow> att_valid sha256 (Some ver) e att"
    using log_valid_attest [OF assms] e(1) by (auto simp: log_valid_def Retrieve_def)
  let ?S = "set (gbc_signers e)"
  have "card ?S = length (ge_Attestations e)"
    using distinct_card [OF valid(1)] by (simp add: gbc_signers_def)
  moreover have "\<exists>s. ver i (EntryDigest sha256 (ge_Height e) (ge_Type e) (ge_Payload e)) s" if "i \<in> ?S" for i
    using that valid(2) by (force simp: gbc_signers_def att_valid_def verifyAttestation_def split: if_splits)
  ultimately show ?thesis
    using e by (auto simp: HasQuorum_iff)
qed


section \<open>Concrete logs\<close>

definition toy_gbc_verifier :: gbc_verifier where
  "toy_gbc_verifier i d s \<longleftrightarrow> s = ucast i # d"

definition toy_attestation :: "u64 \<Rightarrow> gbc_entry \<Rightarrow> gbc_attestation" where
  "toy_attestation i e = \<lparr> ga_SignerID = i,
     ga_Signature = ucast i # EntryDigest id (ge_Height e) (ge_Type e) (ge_Payload e) \<rparr>"

definition toy_entry :: "u64 \<Rightarrow> bytes \<Rightarrow> gbc_entry" where
  "toy_entry h p = \<lparr> ge_Height = h, ge_Type = EntryCheckpoint, ge_Payload = p, ge_Attestations = [] \<rparr>"

definition toy_log :: gbc_log where
  "toy_log = SetVerifier (Some toy_gbc_verifier) (NewLogWithMembers 4)"

definition ok_log :: "gbc_error + gbc_log \<Rightarrow> gbc_log" where
  "ok_log r = (case r of Inr l \<Rightarrow> l)"

definition two_entries :: gbc_log where
  "two_entries = ok_log (gbc_Publish id (toy_entry 2 [2]) (ok_log (gbc_Publish id (toy_entry 1 [1]) toy_log)))"

definition attest_toy :: "u64 \<Rightarrow> gbc_log \<Rightarrow> gbc_log" where
  "attest_toy i l = (case gbc_Attest id 1 (toy_attestation i (toy_entry 1 [1])) l of Inr (l', q) \<Rightarrow> l')"

lemma two_entries_eq:
  "two_entries = ok_log (Inr two_entries)"
  "gbc_Publish id (toy_entry 1 [1]) toy_log = Inr (ok_log (gbc_Publish id (toy_entry 1 [1]) toy_log))"
  "gbc_Publish id (toy_entry 2 [2]) (ok_log (gbc_Publish id (toy_entry 1 [1]) toy_log)) = Inr two_entries"
  by (simp_all add: ok_log_def two_entries_def gbc_Publish_def toy_entry_def toy_log_def NewLogWithMembers_def
      SetVerifier_def verifyEntryWith_def store_entry_def)

theorem gbc_log_append_only_witness:
  "\<exists>y. Retrieve 1 (attest_toy 3 two_entries) = Some y \<and> ge_core y = (1, EntryCheckpoint, [1])"
proof -
  let ?one = "ok_log (gbc_Publish id (toy_entry 1 [1]) toy_log)"
  have steps: "gbc_log_step id (NewLogWithMembers 4) toy_log" "gbc_log_step id toy_log ?one"
    "gbc_log_step id ?one two_entries" "gbc_log_step id two_entries (attest_toy 3 two_entries)"
  proof -
    show "gbc_log_step id (NewLogWithMembers 4) toy_log"
      unfolding toy_log_def by (rule gbc_log_step.verifier)
    show "gbc_log_step id toy_log ?one"
      by (rule gbc_log_step.publish [OF two_entries_eq(2)]) code_simp
    show "gbc_log_step id ?one two_entries"
      by (rule gbc_log_step.publish [OF two_entries_eq(3)]) code_simp
    have "(case gbc_Attest id 1 (toy_attestation 3 (toy_entry 1 [1])) two_entries of Inr p \<Rightarrow> True | Inl _ \<Rightarrow> False)" by code_simp
    then show "gbc_log_step id two_entries (attest_toy 3 two_entries)"
      by (auto simp: attest_toy_def split: sum.splits prod.splits intro: gbc_log_step.attest)
  qed
  have "map_option ge_core (Retrieve 1 two_entries) = Some (1, EntryCheckpoint, [1])" by code_simp
  then obtain x where x: "Retrieve 1 two_entries = Some x" "ge_core x = (1, EntryCheckpoint, [1])" by auto
  have run: "(gbc_log_step id)\<^sup>*\<^sup>* (NewLogWithMembers 4) two_entries"
    using steps by (meson converse_rtranclp_into_rtranclp r_into_rtranclp)
  from gbc_log_append_only [OF run r_into_rtranclp [of "gbc_log_step id", OF steps(4)] x(1)] x(2) show ?thesis by auto
qed

theorem gbc_Attest_quorum_witness:
  "\<exists>(e :: gbc_entry) S. gbc_QuorumSize 4 \<le> int (card S) \<and>
    (\<forall>i \<in> S. \<exists>s. toy_gbc_verifier i (EntryDigest id (ge_Height e) (ge_Type e) (ge_Payload e)) s)"
proof -
  let ?l = "attest_toy 2 (attest_toy 1 two_entries)"
  have "log_valid id toy_gbc_verifier ?l"
  proof -
    have init: "log_valid id toy_gbc_verifier toy_log"
      by (simp add: log_valid_def toy_log_def SetVerifier_def NewLogWithMembers_def)
    have step: "log_valid id toy_gbc_verifier l \<Longrightarrow>
        (case gbc_Attest id 1 (toy_attestation i (toy_entry 1 [1])) l of Inr p \<Rightarrow> True | Inl _ \<Rightarrow> False) \<Longrightarrow>
        log_valid id toy_gbc_verifier (attest_toy i l)" for i l
      by (auto simp: attest_toy_def split: sum.splits prod.splits intro: log_valid_attest)
    have "(case gbc_Attest id 1 (toy_attestation 1 (toy_entry 1 [1])) two_entries of Inr p \<Rightarrow> True | Inl _ \<Rightarrow> False)"
      "(case gbc_Attest id 1 (toy_attestation 2 (toy_entry 1 [1])) (attest_toy 1 two_entries) of Inr p \<Rightarrow> True | Inl _ \<Rightarrow> False)"
      by code_simp+
    then show ?thesis
      using step log_valid_publish [OF log_valid_publish [OF init two_entries_eq(2)] two_entries_eq(3)] by blast
  qed
  moreover have "(case gbc_Attest id 1 (toy_attestation 3 (toy_entry 1 [1])) ?l of Inr p \<Rightarrow> snd p | Inl _ \<Rightarrow> False)"
    and n: "gl_numMembers ?l = 4"
    by code_simp+
  ultimately obtain l' where "log_valid id toy_gbc_verifier ?l"
      "gbc_Attest id 1 (toy_attestation 3 (toy_entry 1 [1])) ?l = Inr (l', True)"
    by (auto split: sum.splits prod.splits)
  from gbc_Attest_quorum [OF this] show ?thesis unfolding n by blast
qed

text \<open>
  Attesting an old entry moves the latest entry of its type backwards.  After two checkpoints
  the latest one has height 2; one more attestation of the first makes the latest one height 1.
\<close>

theorem latest_goes_backwards:
  "map_option ge_Height (LatestByType EntryCheckpoint two_entries) = Some 2 \<and>
   map_option ge_Height (LatestByType EntryCheckpoint (attest_toy 3 two_entries)) = Some 1"
proof
  show "map_option ge_Height (LatestByType EntryCheckpoint two_entries) = Some 2"
    by (simp add: two_entries_def gbc_Publish_def toy_entry_def toy_log_def LatestByType_def
      NewLogWithMembers_def SetVerifier_def verifyEntryWith_def store_entry_def ok_log_def)
  show "map_option ge_Height (LatestByType EntryCheckpoint (attest_toy 3 two_entries)) = Some 1"
    by (simp add: two_entries_def attest_toy_def LatestByType_def gbc_Publish_def toy_entry_def toy_log_def
        NewLogWithMembers_def SetVerifier_def verifyEntryWith_def store_entry_def ok_log_def verifyAttestation_def,
      simp add: gbc_Attest_def, simp add: verifyAttestation_def toy_attestation_def,
      simp add: toy_gbc_verifier_def gbc_signers_def Let_def)
qed

section \<open>Quorums of members\<close>

definition gbc_ok :: "u64 list \<Rightarrow> bool" where
  "gbc_ok ids \<longleftrightarrow> distinct ids \<and> length ids mod 3 = 1"

definition gbc_threshold :: "u64 list \<Rightarrow> nat" where
  "gbc_threshold ids = nat (gbc_QuorumSize (int (length ids)))"

lemma gbc_QuorumSize_eq: "n \<noteq> 0 \<Longrightarrow> gbc_QuorumSize (int n) = int (2 * ((n - 1) div 3) + 1)"
proof -
  have div: "int m sdiv 3 = int (m div 3)" for m
    by (cases "m = 0") (simp_all add: signed_divide_int_def zdiv_int)
  assume "n \<noteq> 0"
  then obtain m where "n = Suc m" by (cases n) auto
  then show ?thesis
    by (simp add: gbc_QuorumSize_def div)
qed

lemma gbc_threshold_eq: "ids \<noteq> [] \<Longrightarrow> gbc_threshold ids = 2 * ((length ids - 1) div 3) + 1"
  using gbc_QuorumSize_eq [of "length ids"] by (simp add: gbc_threshold_def)

lemma third_bounds:
  fixes n :: nat
  assumes "n \<noteq> 0"
  shows "n mod 3 = 1 \<Longrightarrow> 2 * n < 3 * (2 * ((n - 1) div 3) + 1)"
    and "2 * ((n - 1) div 3) + 1 \<le> n"
    and "n mod 3 \<noteq> 1 \<Longrightarrow> 2 * (2 * ((n - 1) div 3) + 1) \<le> n + (n - 1) div 3"
proof -
  define q r where "q = (n - 1) div 3" and "r = (n - 1) mod 3"
  have n: "n = 3 * q + r + 1" "r < 3" "n mod 3 = 1 \<longleftrightarrow> r = 0"
  proof -
    show n: "n = 3 * q + r + 1" and r: "r < 3"
      using assms div_mult_mod_eq [of "n - 1" 3] by (simp_all add: q_def r_def)
    have "n mod 3 = (r + 1) mod 3"
      by (simp add: n mod_simps)
    with r show "n mod 3 = 1 \<longleftrightarrow> r = 0"
      by (auto simp: mod_Suc)
  qed
  show "n mod 3 = 1 \<Longrightarrow> 2 * n < 3 * (2 * ((n - 1) div 3) + 1)"
    unfolding q_def [symmetric] n(3) using n(1) by simp
  show "2 * ((n - 1) div 3) + 1 \<le> n"
    unfolding q_def [symmetric] using n(1,2) by linarith
  show "n mod 3 \<noteq> 1 \<Longrightarrow> 2 * (2 * ((n - 1) div 3) + 1) \<le> n + (n - 1) div 3"
    unfolding q_def [symmetric] n(3) using n(1,2) by (cases r) simp_all
qed

interpretation gbcq: weighted_quorum set "\<lambda>_ _. 1" gbc_threshold gbc_ok
proof
  fix ids :: "u64 list" assume ok: "gbc_ok ids"
  then have "ids \<noteq> []" by (auto simp: gbc_ok_def)
  moreover have "card (set ids) = length ids"
    using ok by (simp add: gbc_ok_def distinct_card)
  ultimately show "2 * (\<Sum>v\<in>set ids. 1) < 3 * gbc_threshold ids"
    using ok third_bounds(1) [of "length ids"] by (simp add: gbc_threshold_eq gbc_ok_def del: One_nat_def)
qed simp

text \<open>
  The quorum rule of the beacon chain is safe only for member counts of the form \<open>3f + 1\<close>: for
  every other count there are two quorums that share no more members than may be faulty, so two
  entries at one height can both be attested by quorums although all honest members attest once.
\<close>

theorem gbc_quorums_overlap_in_faulty:
  fixes ids :: "u64 list"
  assumes "distinct ids" and "ids \<noteq> []" and "length ids mod 3 \<noteq> 1"
  shows "\<exists>A B. A \<subseteq> set ids \<and> B \<subseteq> set ids \<and> int (card A) = gbc_QuorumSize (int (length ids)) \<and>
    int (card B) = gbc_QuorumSize (int (length ids)) \<and> card (A \<inter> B) \<le> (length ids - 1) div 3"
proof -
  let ?n = "length ids" and ?q = "2 * ((length ids - 1) div 3) + 1"
  have q: "?q \<le> ?n"
    using assms(2) by (intro third_bounds(2)) simp
  let ?A = "set (take ?q ids)" and ?B = "set (drop (?n - ?q) ids)"
  have cards: "card ?A = ?q" "card ?B = ?q"
    using assms(1) q by (simp_all add: distinct_card)
  have bound: "2 * ?q \<le> ?n + (?n - 1) div 3"
    using assms(2,3) by (intro third_bounds(3)) simp_all
  have small: "card (?A \<inter> ?B) \<le> (?n - 1) div 3"
  proof (cases "?n - ?q \<le> ?q")
    case True
    moreover have "set ids = set (take (?n - ?q) ids) \<union> set (drop (?n - ?q) ids)"
      by (metis append_take_drop_id set_append)
    ultimately have "?A \<union> ?B = set ids"
      using set_take_subset_set_take [of "?n - ?q" ?q ids] set_take_subset [of ?q ids] by blast
    then have "card (?A \<union> ?B) = ?n"
      using assms(1) by (simp add: distinct_card)
    moreover have "card (?A \<union> ?B) + card (?A \<inter> ?B) = 2 * ?q"
      using card_Un_Int [of ?A ?B] cards by simp
    ultimately show ?thesis
      using bound by simp
  next
    case False
    then have "?A \<inter> ?B = {}"
      using assms(1) by (simp add: set_take_disj_set_drop_if_distinct)
    then show ?thesis by (simp only: card.empty)
  qed
  have "gbc_QuorumSize (int ?n) = int ?q"
    using assms(2) by (intro gbc_QuorumSize_eq) simp
  moreover have "?A \<subseteq> set ids" "?B \<subseteq> set ids"
    by (rule set_take_subset, rule set_drop_subset)
  ultimately show ?thesis
    using cards small by metis
qed

definition six_members :: "u64 list" where
  "six_members = [1, 2, 3, 4, 5, 6]"

theorem gbc_quorums_overlap_in_faulty_witness:
  "\<exists>A B. A \<subseteq> set six_members \<and> B \<subseteq> set six_members \<and>
    int (card A) = gbc_QuorumSize (int (length six_members)) \<and>
    int (card B) = gbc_QuorumSize (int (length six_members)) \<and> card (A \<inter> B) \<le> (length six_members - 1) div 3"
  by (rule gbc_quorums_overlap_in_faulty) (simp_all add: six_members_def)

end
