(* ===== verification/Gbc_Node.thy ===== *)
theory Gbc_Node
  imports Gbc_Log
begin

text \<open>
  A primary of the Global Beacon Chain (consensus/gbc/node.go, network.go): it proposes entries when
  it is its turn, attests the proposals of others, commits an entry once a quorum has attested it,
  and catches up with the entries of others.  Sent messages, the commit callback and the calls of
  the signing function are appended to \<open>gn_out\<close>.  The receiving loop handles one message at a
  time; a failed send is ignored by the code.
\<close>

section \<open>Messages and state\<close>

datatype GbcMsgType = GMsgPropose | GMsgAttest | GMsgCommitted | GMsgSyncReq | GMsgSyncResp

record gbc_message =
  gm_Type :: GbcMsgType
  gm_SenderID :: u64
  gm_Entry :: gbc_entry
  gm_Attestation :: gbc_attestation
  gm_SyncFrom :: u64
  gm_SyncEntries :: "gbc_entry list"

datatype gbc_event = GbcSend u64 gbc_message | GbcBroadcast gbc_message | GbcCommit gbc_entry
  | GbcSigned u64 string bytes

datatype propose_error = NoMembers | NotProposer | LocalPublish gbc_error | BroadcastFailed

record pending_entry =
  pe_entry :: gbc_entry
  pe_attestations :: "(u64, gbc_attestation) fmap"

record gbc_node =
  gn_NodeID :: u64
  gn_MemberIDs :: "u64 list"
  gn_SignFunc :: "bytes \<Rightarrow> bytes"
  gn_VerifyFunc :: gbc_verifier
  gn_log :: gbc_log
  gn_pending :: "(u64, pending_entry) fmap"
  gn_out :: "gbc_event list"

abbreviation gn_NumMembers :: "gbc_node \<Rightarrow> int" where
  "gn_NumMembers n \<equiv> int (length (gn_MemberIDs n))"

definition normalizeMemberIDs :: "u64 list \<Rightarrow> int \<Rightarrow> u64 list" where
  "normalizeMemberIDs ids num = (if ids \<noteq> [] then ids
     else map of_nat [0..<(if num < 0 then 0 else nat num)])"

text \<open>
  The signing and verifying functions a configuration stands for: those given, else Ed25519 over the
  configured keys, else a hash that anyone can compute.
\<close>

fun dec_text :: "nat \<Rightarrow> string" where
  "dec_text n = (if n < 10 then [char_of (48 + n)] else dec_text (n div 10) @ [char_of (48 + n mod 10)])"

definition pseudoSignature :: "(bytes \<Rightarrow> bytes) \<Rightarrow> u64 \<Rightarrow> bytes \<Rightarrow> bytes" where
  "pseudoSignature sha256 i digest = sha256 (digest @ map of_char (''signer-'' @ dec_text (unat i)))"

definition ed25519SignFunc :: "(bytes \<Rightarrow> bytes \<Rightarrow> bytes) \<Rightarrow> bytes \<Rightarrow> bytes \<Rightarrow> bytes" where
  "ed25519SignFunc ed_sign key digest = (if length key \<noteq> 64 then [] else ed_sign key digest)"

definition ed25519VerifyFunc :: "(bytes \<Rightarrow> bytes \<Rightarrow> bytes \<Rightarrow> bool) \<Rightarrow> (u64, bytes) fmap \<Rightarrow> gbc_verifier" where
  "ed25519VerifyFunc ed_verify keys i digest sig = (case fmlookup keys i of None \<Rightarrow> False
     | Some pub \<Rightarrow> length pub = 32 \<and> ed_verify pub digest sig)"

definition node_signer :: "(bytes \<Rightarrow> bytes) \<Rightarrow> (bytes \<Rightarrow> bytes \<Rightarrow> bytes) \<Rightarrow> u64 \<Rightarrow> bytes \<Rightarrow>
    (bytes \<Rightarrow> bytes) option \<Rightarrow> bytes \<Rightarrow> bytes" where
  "node_signer sha256 ed_sign i key given = (case given of Some f \<Rightarrow> f
     | None \<Rightarrow> if length key = 64 then ed25519SignFunc ed_sign key else pseudoSignature sha256 i)"

definition node_verifier :: "(bytes \<Rightarrow> bytes) \<Rightarrow> (bytes \<Rightarrow> bytes \<Rightarrow> bytes \<Rightarrow> bool) \<Rightarrow> (u64, bytes) fmap \<Rightarrow>
    gbc_verifier option \<Rightarrow> gbc_verifier" where
  "node_verifier sha256 ed_verify keys given = (case given of Some f \<Rightarrow> f
     | None \<Rightarrow> if gm_len keys > 0 then ed25519VerifyFunc ed_verify keys
         else (\<lambda>i digest sig. sig = pseudoSignature sha256 i digest))"

definition NewNode :: "u64 \<Rightarrow> u64 list \<Rightarrow> int \<Rightarrow> (bytes \<Rightarrow> bytes) \<Rightarrow> gbc_verifier \<Rightarrow> gbc_node" where
  "NewNode i ids num sign_fn ver =
     (let members = normalizeMemberIDs ids num
      in \<lparr> gn_NodeID = i, gn_MemberIDs = members, gn_SignFunc = sign_fn, gn_VerifyFunc = ver,
           gn_log = SetVerifier (Some ver) (NewLogWithMembers (int (length members))),
           gn_pending = fmempty, gn_out = [] \<rparr>)"

definition proposerForHeight :: "gbc_node \<Rightarrow> u64 \<Rightarrow> u64" where
  "proposerForHeight n h = (if gn_MemberIDs n = [] then 0
     else gn_MemberIDs n ! unat (h mod of_nat (length (gn_MemberIDs n))))"

text \<open>\<open>None\<close> is the division by zero of an empty membership.\<close>

definition IsProposer :: "gbc_node \<Rightarrow> bool option" where
  "IsProposer n = (if gn_MemberIDs n = [] then None
     else Some (gl_nextHeight (gn_log n) mod of_nat (length (gn_MemberIDs n)) = gn_NodeID n))"

definition gemit :: "gbc_event list \<Rightarrow> gbc_node \<Rightarrow> gbc_node" where
  "gemit xs n = n\<lparr>gn_out := gn_out n @ xs\<rparr>"

definition clean_entry :: "gbc_entry \<Rightarrow> gbc_entry" where
  "clean_entry e = e\<lparr>ge_Attestations := []\<rparr>"

definition blank_gbc_entry :: "u64 \<Rightarrow> gbc_entry" where
  "blank_gbc_entry h = \<lparr> ge_Height = h, ge_Type = [], ge_Payload = [], ge_Attestations = [] \<rparr>"

definition no_attestation :: gbc_attestation where
  "no_attestation = \<lparr> ga_SignerID = 0, ga_Signature = [] \<rparr>"

definition gbc_msg :: "GbcMsgType \<Rightarrow> gbc_node \<Rightarrow> gbc_entry \<Rightarrow> gbc_message" where
  "gbc_msg ty n e = \<lparr> gm_Type = ty, gm_SenderID = gn_NodeID n, gm_Entry = e, gm_Attestation = no_attestation,
     gm_SyncFrom = 0, gm_SyncEntries = [] \<rparr>"

definition digest_of :: "(bytes \<Rightarrow> bytes) \<Rightarrow> gbc_entry \<Rightarrow> bytes" where
  "digest_of sha256 e = EntryDigest sha256 (ge_Height e) (ge_Type e) (ge_Payload e)"

section \<open>Operations\<close>

text \<open>The attestation of this node; the call of the signing function is recorded.\<close>

definition own_attestation :: "(bytes \<Rightarrow> bytes) \<Rightarrow> gbc_node \<Rightarrow> gbc_entry \<Rightarrow> gbc_attestation" where
  "own_attestation sha256 n e = \<lparr> ga_SignerID = gn_NodeID n, ga_Signature = gn_SignFunc n (digest_of sha256 e) \<rparr>"

definition signed_event :: "gbc_entry \<Rightarrow> gbc_event" where
  "signed_event e = GbcSigned (ge_Height e) (ge_Type e) (ge_Payload e)"

text \<open>The committed entry lists the collected attestations; Go iterates over a map, here by signer.\<close>

definition committed_entry :: "pending_entry \<Rightarrow> gbc_entry" where
  "committed_entry pe = (pe_entry pe)\<lparr>ge_Attestations :=
     map (\<lambda>i. the (fmlookup (pe_attestations pe) i)) (gm_keys (pe_attestations pe))\<rparr>"

definition checkAndCommit :: "(bytes \<Rightarrow> bytes) \<Rightarrow> pending_entry \<Rightarrow> u64 \<Rightarrow> gbc_node \<Rightarrow> gbc_node \<times> bool" where
  "checkAndCommit sha256 pe height n =
     (if int (gm_len (pe_attestations pe)) < gbc_QuorumSize (gn_NumMembers n) then (n, False)
      else let committed = committed_entry pe
        in if VerifyEntry sha256 (gn_log n) committed True \<noteq> None then (n, False)
           else ((gemit [GbcBroadcast (gbc_msg GMsgCommitted n committed), GbcCommit committed] n)
                   \<lparr>gn_pending := fmdrop height (gn_pending n)\<rparr>, True))"

definition propose :: "(bytes \<Rightarrow> bytes) \<Rightarrow> bool \<Rightarrow> string \<Rightarrow> bytes \<Rightarrow> gbc_node \<Rightarrow> gbc_node \<times> (propose_error + u64)" where
  "propose sha256 broadcast_ok ty payload n =
     (let height = gl_nextHeight (gn_log n)
      in if gn_MemberIDs n = [] then (n, Inl NoMembers)
         else if proposerForHeight n height \<noteq> gn_NodeID n then (n, Inl NotProposer)
         else
           (let e0 = \<lparr> ge_Height = height, ge_Type = ty, ge_Payload = payload, ge_Attestations = [] \<rparr>;
                att = own_attestation sha256 n e0;
                e = e0\<lparr>ge_Attestations := [att]\<rparr>;
                n1 = gemit [signed_event e] n
            in case gbc_Publish sha256 e (gn_log n1) of
                 Inl err \<Rightarrow> (n1, Inl (LocalPublish err))
               | Inr l \<Rightarrow>
                   (let pe = \<lparr> pe_entry = e, pe_attestations = fmupd (gn_NodeID n) att fmempty \<rparr>;
                        n2 = gemit [GbcBroadcast (gbc_msg GMsgPropose n e)]
                          (n1\<lparr>gn_log := l, gn_pending := fmupd height pe (gn_pending n1)\<rparr>)
                    in if \<not> broadcast_ok then (n2, Inl BroadcastFailed)
                       else (fst (checkAndCommit sha256 pe height n2), Inr height))))"

definition requestSync :: "u64 \<Rightarrow> u64 \<Rightarrow> gbc_node \<Rightarrow> gbc_node" where
  "requestSync peer fromHeight n =
     gemit [GbcSend peer ((gbc_msg GMsgSyncReq n (blank_gbc_entry 0))\<lparr>gm_SyncFrom := fromHeight\<rparr>)] n"

definition hasValidProposerAttestation :: "(bytes \<Rightarrow> bytes) \<Rightarrow> gbc_node \<Rightarrow> gbc_entry \<Rightarrow> u64 \<Rightarrow> bool" where
  "hasValidProposerAttestation sha256 n e proposer =
     list_ex (\<lambda>att. ga_SignerID att = proposer \<and> gn_VerifyFunc n (ga_SignerID att) (digest_of sha256 e) (ga_Signature att))
       (ge_Attestations e)"

definition handlePropose :: "(bytes \<Rightarrow> bytes) \<Rightarrow> gbc_message \<Rightarrow> gbc_node \<Rightarrow> gbc_node" where
  "handlePropose sha256 msg n =
     (let e = gm_Entry msg; localHeight = gl_nextHeight (gn_log n)
      in if gm_SenderID msg \<noteq> proposerForHeight n (ge_Height e) then n
         else if \<not> hasValidProposerAttestation sha256 n e (gm_SenderID msg) then n
         else if ge_Height e < localHeight then n
         else if localHeight < ge_Height e then requestSync (gm_SenderID msg) localHeight n
         else case gbc_Publish sha256 (clean_entry e) (gn_log n) of Inl _ \<Rightarrow> n
           | Inr l \<Rightarrow> gemit [signed_event e, GbcSend (gm_SenderID msg)
               ((gbc_msg GMsgAttest n (blank_gbc_entry (ge_Height e)))\<lparr>gm_Attestation := own_attestation sha256 n e\<rparr>)]
               (n\<lparr>gn_log := l\<rparr>))"

text \<open>An attestation whose error is ignored.\<close>

definition try_attest :: "(bytes \<Rightarrow> bytes) \<Rightarrow> u64 \<Rightarrow> gbc_attestation \<Rightarrow> gbc_log \<Rightarrow> gbc_log" where
  "try_attest sha256 h att l = (case gbc_Attest sha256 h att l of Inl _ \<Rightarrow> l | Inr (l', q) \<Rightarrow> l')"

definition handleAttest :: "(bytes \<Rightarrow> bytes) \<Rightarrow> gbc_message \<Rightarrow> gbc_node \<Rightarrow> gbc_node" where
  "handleAttest sha256 msg n =
     (let height = ge_Height (gm_Entry msg); att = gm_Attestation msg
      in case fmlookup (gn_pending n) height of None \<Rightarrow> n
         | Some pe \<Rightarrow>
             if \<not> gn_VerifyFunc n (ga_SignerID att) (digest_of sha256 (pe_entry pe)) (ga_Signature att) then n
             else if ga_SignerID att |\<in>| fmdom (pe_attestations pe) then n
             else let pe' = pe\<lparr>pe_attestations := fmupd (ga_SignerID att) att (pe_attestations pe)\<rparr>
               in fst (checkAndCommit sha256 pe' height
                    (n\<lparr>gn_pending := fmupd height pe' (gn_pending n), gn_log := try_attest sha256 height att (gn_log n)\<rparr>)))"

definition handleCommitted :: "(bytes \<Rightarrow> bytes) \<Rightarrow> gbc_message \<Rightarrow> gbc_node \<Rightarrow> gbc_node" where
  "handleCommitted sha256 msg n =
     (let e = gm_Entry msg; localHeight = gl_nextHeight (gn_log n);
          attest_all = fold (try_attest sha256 (ge_Height e)) (ge_Attestations e)
      in if ge_Height e < localHeight then n\<lparr>gn_log := attest_all (gn_log n)\<rparr>
         else if localHeight < ge_Height e then requestSync (gm_SenderID msg) localHeight n
         else if VerifyEntry sha256 (gn_log n) e True \<noteq> None then n
         else case gbc_Publish sha256 (clean_entry e) (gn_log n) of Inl _ \<Rightarrow> n
           | Inr l \<Rightarrow> (gemit [GbcCommit e] (n\<lparr>gn_log := attest_all l\<rparr>))
               \<lparr>gn_pending := fmdrop (ge_Height e) (gn_pending n)\<rparr>)"

definition handleSyncReq :: "gbc_message \<Rightarrow> gbc_node \<Rightarrow> gbc_node" where
  "handleSyncReq msg n =
     (let entries = List.map_filter (\<lambda>i. Retrieve (of_nat i) (gn_log n))
            [unat (gm_SyncFrom msg)..<unat (gl_nextHeight (gn_log n))]
      in if entries = [] then n
         else gemit [GbcSend (gm_SenderID msg)
                ((gbc_msg GMsgSyncResp n (blank_gbc_entry 0))\<lparr>gm_SyncEntries := entries\<rparr>)] n)"

fun sync_entries :: "(bytes \<Rightarrow> bytes) \<Rightarrow> gbc_entry list \<Rightarrow> gbc_log \<Rightarrow> gbc_log" where
  "sync_entries sha256 [] l = l"
| "sync_entries sha256 (e # es) l =
     (if ge_Height e \<noteq> gl_nextHeight l then sync_entries sha256 es l
      else if VerifyEntry sha256 l e True \<noteq> None then sync_entries sha256 es l
      else case gbc_Publish sha256 (clean_entry e) l of Inl _ \<Rightarrow> l
        | Inr l1 \<Rightarrow> sync_entries sha256 es (fold (try_attest sha256 (ge_Height e)) (ge_Attestations e) l1))"

definition handleSyncResp :: "(bytes \<Rightarrow> bytes) \<Rightarrow> gbc_message \<Rightarrow> gbc_node \<Rightarrow> gbc_node" where
  "handleSyncResp sha256 msg n = n\<lparr>gn_log := sync_entries sha256 (gm_SyncEntries msg) (gn_log n)\<rparr>"

definition gbc_receive :: "(bytes \<Rightarrow> bytes) \<Rightarrow> gbc_message \<Rightarrow> gbc_node \<Rightarrow> gbc_node" where
  "gbc_receive sha256 msg n = (case gm_Type msg of
     GMsgPropose \<Rightarrow> handlePropose sha256 msg n
   | GMsgAttest \<Rightarrow> handleAttest sha256 msg n
   | GMsgCommitted \<Rightarrow> handleCommitted sha256 msg n
   | GMsgSyncReq \<Rightarrow> handleSyncReq msg n
   | GMsgSyncResp \<Rightarrow> handleSyncResp sha256 msg n)"


section \<open>What an operation does to the log\<close>

definition log_ok :: "(bytes \<Rightarrow> bytes) \<Rightarrow> gbc_verifier \<Rightarrow> int \<Rightarrow> gbc_log \<Rightarrow> bool" where
  "log_ok sha256 ver m l \<longleftrightarrow> log_shape l \<and> log_valid sha256 ver l \<and> gl_numMembers l = m"

text \<open>Everything stored stays, up to additional attestations.\<close>

definition log_ext :: "gbc_log \<Rightarrow> gbc_log \<Rightarrow> bool" where
  "log_ext l l' \<longleftrightarrow> (\<forall>h x. fmlookup (gl_entries l) h = Some x \<longrightarrow>
     (\<exists>y. fmlookup (gl_entries l') h = Some y \<and> ge_core y = ge_core x))"

lemma log_ext_refl [simp]: "log_ext l l"
  by (simp add: log_ext_def)

lemma log_ext_trans: "log_ext l l' \<Longrightarrow> log_ext l' l'' \<Longrightarrow> log_ext l l''"
  unfolding log_ext_def by metis

definition has_room :: "nat \<Rightarrow> gbc_log \<Rightarrow> bool" where
  "has_room k l \<longleftrightarrow> unat (gl_nextHeight l) + k < 2 ^ 64"

lemma room_less:
  assumes "has_room (Suc k) l"
  shows "gl_nextHeight l < u64_max"
proof -
  have "unat (gl_nextHeight l + 1) = unat (gl_nextHeight l) + 1"
    using assms by (simp add: has_room_def unat_word_ariths)
  then have "gl_nextHeight l \<noteq> u64_max" by (intro notI) simp
  then show ?thesis by (simp add: word_order.not_eq_extremum)
qed

lemma publish_ok:
  assumes ok: "log_ok sha256 ver m l" and pub: "gbc_Publish sha256 e l = Inr l'" and room: "has_room (Suc k) l"
  shows "log_ok sha256 ver m l'" "log_ext l l'" "has_room k l'" "fmlookup (gl_entries l') (ge_Height e) = Some e"
    "gl_nextHeight l' = gl_nextHeight l + 1"
proof -
  note less = room_less [OF room]
  show "log_ok sha256 ver m l'"
    using ok pub log_shape_publish [OF _ pub less] log_valid_publish [OF _ pub]
    by (auto simp: log_ok_def gbc_Publish_Inr store_entry_def)
  show "log_ext l l'"
    using core_publish [OF _ pub] ok by (auto simp: log_ext_def log_ok_def)
  show "fmlookup (gl_entries l') (ge_Height e) = Some e"
    using pub by (auto simp: gbc_Publish_Inr store_entry_def)
  show "gl_nextHeight l' = gl_nextHeight l + 1"
    using pub by (auto simp: gbc_Publish_Inr)
  then show "has_room k l'"
    using room less by (simp add: has_room_def unat_succ)
qed

lemma attest_ok:
  assumes ok: "log_ok sha256 ver m l"
  shows "log_ok sha256 ver m (try_attest sha256 h att l)" "log_ext l (try_attest sha256 h att l)"
    "gl_nextHeight (try_attest sha256 h att l) = gl_nextHeight l"
proof -
  have "log_ok sha256 ver m l' \<and> log_ext l l' \<and> gl_nextHeight l' = gl_nextHeight l"
    if "gbc_Attest sha256 h att l = Inr (l', q)" for l' q
  proof -
    have "log_ext l l'"
      using core_attest [OF that] unfolding log_ext_def by blast
    moreover have "gl_numMembers l' = gl_numMembers l \<and> gl_nextHeight l' = gl_nextHeight l"
      using that by (auto simp: gbc_Attest_Inr Let_def split: if_splits)
    ultimately show ?thesis
      using ok log_shape_attest [OF _ that] log_valid_attest [OF _ that] by (simp add: log_ok_def)
  qed
  then show "log_ok sha256 ver m (try_attest sha256 h att l)" "log_ext l (try_attest sha256 h att l)"
    "gl_nextHeight (try_attest sha256 h att l) = gl_nextHeight l"
    using ok by (auto simp: try_attest_def split: sum.split)
qed

lemma attest_all_ok:
  assumes "log_ok sha256 ver m l"
  shows "log_ok sha256 ver m (fold (try_attest sha256 h) as l) \<and> log_ext l (fold (try_attest sha256 h) as l) \<and>
    gl_nextHeight (fold (try_attest sha256 h) as l) = gl_nextHeight l"
  using assms
proof (induction as arbitrary: l)
  case (Cons a as)
  show ?case
    using Cons.IH [OF attest_ok(1) [OF Cons.prems, of h a]] attest_ok(2,3) [OF Cons.prems, of h a] log_ext_trans
    by auto
qed simp

lemma sync_ok:
  assumes "log_ok sha256 ver m l" and "has_room (length es) l"
  shows "log_ok sha256 ver m (sync_entries sha256 es l) \<and> log_ext l (sync_entries sha256 es l)"
  using assms
proof (induction sha256 es l rule: sync_entries.induct)
  case (2 sha256 e es l)
  have less_room: "has_room (length es) l"
    using 2(5) by (simp add: has_room_def)
  show ?case
  proof (cases "ge_Height e \<noteq> gl_nextHeight l \<or> VerifyEntry sha256 l e True \<noteq> None")
    case True
    then show ?thesis using 2(1,2) 2(4) less_room by auto
  next
    case False
    show ?thesis
    proof (cases "gbc_Publish sha256 (clean_entry e) l")
      case (Inr l1)
      let ?l2 = "fold (try_attest sha256 (ge_Height e)) (ge_Attestations e) l1"
      note pub = publish_ok [OF 2(4) Inr, of "length es"]
      have room: "has_room (Suc (length es)) l" using 2(5) by simp
      note all = attest_all_ok [OF pub(1) [OF room], of "ge_Height e" "ge_Attestations e"]
      have "has_room (length es) ?l2"
        using all pub(3) [OF room] by (simp add: has_room_def)
      with 2(3) False Inr all pub(2) [OF room] show ?thesis
        by (auto intro: log_ext_trans)
    qed (use False 2(4) in auto)
  qed
qed simp

section \<open>The invariant of a primary\<close>

definition self_valid :: "(bytes \<Rightarrow> bytes) \<Rightarrow> gbc_node \<Rightarrow> u64 \<Rightarrow> string \<Rightarrow> bytes \<Rightarrow> bool" where
  "self_valid sha256 n h t p \<longleftrightarrow> gn_SignFunc n (EntryDigest sha256 h t p) \<noteq> [] \<and>
     gn_VerifyFunc n (gn_NodeID n) (EntryDigest sha256 h t p) (gn_SignFunc n (EntryDigest sha256 h t p))"

text \<open>
  Whatever was signed with a valid signature is in the log, and every committed entry is verified
  by a quorum.
\<close>

definition gn_ok :: "(bytes \<Rightarrow> bytes) \<Rightarrow> gbc_node \<Rightarrow> bool" where
  "gn_ok sha256 n \<longleftrightarrow> log_ok sha256 (gn_VerifyFunc n) (gn_NumMembers n) (gn_log n) \<and>
     (\<forall>h t p. GbcSigned h t p \<in> set (gn_out n) \<longrightarrow> self_valid sha256 n h t p \<longrightarrow>
        (\<exists>e. fmlookup (gl_entries (gn_log n)) h = Some e \<and> ge_core e = (h, t, p))) \<and>
     (\<forall>e. GbcCommit e \<in> set (gn_out n) \<longrightarrow>
        verifyEntryWith sha256 (gn_NumMembers n) (Some (gn_VerifyFunc n)) e True = None)"

definition same_config :: "gbc_node \<Rightarrow> gbc_node \<Rightarrow> bool" where
  "same_config n n' \<longleftrightarrow> gn_NodeID n' = gn_NodeID n \<and> gn_MemberIDs n' = gn_MemberIDs n \<and>
     gn_SignFunc n' = gn_SignFunc n \<and> gn_VerifyFunc n' = gn_VerifyFunc n"

lemma self_valid_cong: "same_config n n' \<Longrightarrow> self_valid sha256 n' h t p = self_valid sha256 n h t p"
  by (simp add: same_config_def self_valid_def)

lemma gn_ok_log:
  assumes "gn_ok sha256 n" and "log_ok sha256 (gn_VerifyFunc n) (gn_NumMembers n) l" and "log_ext (gn_log n) l"
  shows "gn_ok sha256 (n\<lparr>gn_log := l\<rparr>)"
proof -
  have "\<exists>e. fmlookup (gl_entries l) h = Some e \<and> ge_core e = (h, t, p)"
    if "GbcSigned h t p \<in> set (gn_out n)" "self_valid sha256 (n\<lparr>gn_log := l\<rparr>) h t p" for h t p
  proof -
    have "self_valid sha256 n h t p"
      using that(2) by (simp add: self_valid_def)
    with that(1) assms(1) obtain e where "fmlookup (gl_entries (gn_log n)) h = Some e" "ge_core e = (h, t, p)"
      unfolding gn_ok_def by blast
    with assms(3) show ?thesis
      unfolding log_ext_def by metis
  qed
  then show ?thesis
    using assms(1,2) by (simp add: gn_ok_def)
qed

lemma gn_ok_pending [simp]: "gn_ok sha256 (n\<lparr>gn_pending := p\<rparr>) = gn_ok sha256 n"
  by (simp add: gn_ok_def self_valid_def)

lemma gn_ok_emit_other:
  "gn_ok sha256 n \<Longrightarrow> (\<And>x. x \<in> set xs \<Longrightarrow> (\<exists>i m. x = GbcSend i m) \<or> (\<exists>m. x = GbcBroadcast m)) \<Longrightarrow>
   gn_ok sha256 (gemit xs n)"
  unfolding gn_ok_def gemit_def self_valid_def by fastforce

lemma gn_ok_send: "gn_ok sha256 n \<Longrightarrow> gn_ok sha256 (gemit [GbcSend i m] n)"
  by (rule gn_ok_emit_other) simp_all

lemma gn_ok_broadcast: "gn_ok sha256 n \<Longrightarrow> gn_ok sha256 (gemit [GbcBroadcast m] n)"
  by (rule gn_ok_emit_other) simp_all

lemma gn_ok_emit_commit:
  "gn_ok sha256 n \<Longrightarrow> verifyEntryWith sha256 (gn_NumMembers n) (Some (gn_VerifyFunc n)) e True = None \<Longrightarrow>
   gn_ok sha256 (gemit [GbcCommit e] n)"
  unfolding gn_ok_def gemit_def self_valid_def by fastforce

lemma gn_ok_emit_signed:
  assumes "gn_ok sha256 n"
    and "self_valid sha256 n (ge_Height e) (ge_Type e) (ge_Payload e) \<Longrightarrow>
      \<exists>x. fmlookup (gl_entries (gn_log n)) (ge_Height e) = Some x \<and> ge_core x = ge_core e"
  shows "gn_ok sha256 (gemit [signed_event e] n)"
  using assms unfolding gn_ok_def gemit_def self_valid_def signed_event_def ge_core_def by fastforce

lemma gemit_update [simp]: "(gemit xs n)\<lparr>gn_log := l\<rparr> = gemit xs (n\<lparr>gn_log := l\<rparr>)"
  "gn_log (gemit xs n) = gn_log n" "gn_pending (gemit xs n) = gn_pending n"
  by (simp_all add: gemit_def)

lemma gemit_Cons: "gemit (x # y # xs) n = gemit (y # xs) (gemit [x] n)"
  by (simp add: gemit_def)

lemma verify_in_log:
  assumes "gn_ok sha256 n" and "VerifyEntry sha256 (gn_log n) e True = None"
  shows "verifyEntryWith sha256 (gn_NumMembers n) (Some (gn_VerifyFunc n)) e True = None"
  using assms by (simp add: VerifyEntry_def gn_ok_def log_ok_def log_valid_def)

lemma gn_ok_checkAndCommit:
  assumes "gn_ok sha256 n"
  shows "gn_ok sha256 (fst (checkAndCommit sha256 pe h n))"
proof -
  have "gn_ok sha256 (gemit [GbcBroadcast m] n)" for m
    using assms by (rule gn_ok_broadcast)
  then have "gn_ok sha256 (gemit [GbcBroadcast m, GbcCommit e] n)"
    if "VerifyEntry sha256 (gn_log n) e True = None" for m e
    unfolding gemit_Cons using verify_in_log [OF assms that] by (intro gn_ok_emit_commit) (simp_all add: gemit_def)
  then show ?thesis
    using assms by (simp add: checkAndCommit_def Let_def)
qed


lemma gn_ok_propose:
  assumes ok: "gn_ok sha256 n" and room: "has_room (Suc k) (gn_log n)"
  shows "gn_ok sha256 (fst (propose sha256 bc ty payload n))"
proof (cases "gn_MemberIDs n = [] \<or> proposerForHeight n (gl_nextHeight (gn_log n)) \<noteq> gn_NodeID n")
  case False
  define h where "h = gl_nextHeight (gn_log n)"
  define e0 where "e0 = \<lparr> ge_Height = h, ge_Type = ty, ge_Payload = payload, ge_Attestations = [] \<rparr>"
  define e where "e = e0\<lparr>ge_Attestations := [own_attestation sha256 n e0]\<rparr>"
  have e_simps: "ge_Height e = h" "ge_Type e = ty" "ge_Payload e = payload" "ge_Attestations e = [own_attestation sha256 n e0]"
    by (simp_all add: e_def e0_def)
  have log: "log_ok sha256 (gn_VerifyFunc n) (gn_NumMembers n) (gn_log n)"
    using ok by (simp add: gn_ok_def)
  show ?thesis
  proof (cases "gbc_Publish sha256 e (gn_log n)")
    case (Inl err)
    have "\<not> self_valid sha256 n h ty payload"
    proof
      assume valid: "self_valid sha256 n h ty payload"
      have "gl_verifier (gn_log n) = Some (gn_VerifyFunc n)"
        using log by (simp add: log_ok_def log_valid_def)
      then have "verifyEntryWith sha256 (gl_numMembers (gn_log n)) (gl_verifier (gn_log n)) e False = None"
        using valid by (simp add: verifyEntryWith_iff gbc_signers_def e_simps att_valid_def verifyAttestation_def
            self_valid_def own_attestation_def digest_of_def e0_def)
      then show False
        using Inl by (simp add: gbc_Publish_def e_simps h_def)
    qed
    then have "gn_ok sha256 (gemit [signed_event e] n)"
      by (intro gn_ok_emit_signed ok) (simp add: e_simps)
    then show ?thesis
      using False Inl by (simp add: propose_def Let_def h_def [symmetric] e0_def [symmetric] e_def [symmetric] gemit_def)
  next
    case (Inr l)
    note pub = publish_ok [OF log Inr room]
    define pe where "pe = \<lparr> pe_entry = e, pe_attestations = fmupd (gn_NodeID n) (own_attestation sha256 n e0) fmempty \<rparr>"
    have "gn_ok sha256 (gemit [signed_event e] (n\<lparr>gn_log := l\<rparr>))"
      using pub(4) gn_ok_log [OF ok pub(1,2)] by (intro gn_ok_emit_signed) auto
    then have ok2: "gn_ok sha256 (gemit [GbcBroadcast m] ((gemit [signed_event e] (n\<lparr>gn_log := l\<rparr>))\<lparr>gn_pending := ps\<rparr>))" for m ps
      by (intro gn_ok_broadcast) simp
    have "fst (propose sha256 bc ty payload n) =
       (let n2 = gemit [GbcBroadcast (gbc_msg GMsgPropose n e)]
          ((gemit [signed_event e] (n\<lparr>gn_log := l\<rparr>))\<lparr>gn_pending := fmupd h pe (gn_pending n)\<rparr>)
        in if bc then fst (checkAndCommit sha256 pe h n2) else n2)"
      using False Inr
      by (simp add: propose_def Let_def h_def [symmetric] e0_def [symmetric] e_def [symmetric] pe_def gbc_msg_def gemit_def)
    then show ?thesis
      using ok2 gn_ok_checkAndCommit by (simp add: Let_def)
  qed
qed (use ok in \<open>auto simp: propose_def Let_def\<close>)

lemma gn_ok_requestSync: "gn_ok sha256 n \<Longrightarrow> gn_ok sha256 (requestSync i h n)"
  by (simp add: requestSync_def gn_ok_send)

lemma gn_ok_handlePropose:
  assumes ok: "gn_ok sha256 n" and room: "has_room (Suc k) (gn_log n)"
  shows "gn_ok sha256 (handlePropose sha256 msg n)"
proof (cases "gbc_Publish sha256 (clean_entry (gm_Entry msg)) (gn_log n)")
  case (Inr l)
  have "log_ok sha256 (gn_VerifyFunc n) (gn_NumMembers n) (gn_log n)"
    using ok by (simp add: gn_ok_def)
  note pub = publish_ok [OF this Inr room]
  have "gn_ok sha256 (gemit [signed_event (gm_Entry msg)] (n\<lparr>gn_log := l\<rparr>))"
    using pub(4) by (intro gn_ok_emit_signed gn_ok_log ok pub(1,2)) (simp add: clean_entry_def ge_core_def)
  then have "gn_ok sha256 (gemit [signed_event (gm_Entry msg), GbcSend i m] (n\<lparr>gn_log := l\<rparr>))" for i m
    unfolding gemit_Cons by (rule gn_ok_send)
  with ok gn_ok_requestSync Inr show ?thesis
    by (simp add: handlePropose_def Let_def)
qed (use ok gn_ok_requestSync in \<open>simp add: handlePropose_def Let_def\<close>)

lemma gn_ok_handleAttest:
  assumes ok: "gn_ok sha256 n"
  shows "gn_ok sha256 (handleAttest sha256 msg n)"
proof -
  have log: "log_ok sha256 (gn_VerifyFunc n) (gn_NumMembers n) (gn_log n)"
    using ok by (simp add: gn_ok_def)
  have "gn_ok sha256 (n\<lparr>gn_pending := p, gn_log := try_attest sha256 h att (gn_log n)\<rparr>)" for h att p
    using gn_ok_log [OF ok attest_ok(1,2) [OF log]] by (simp add: gn_ok_def self_valid_def)
  then show ?thesis
    using ok by (auto simp: handleAttest_def Let_def intro: gn_ok_checkAndCommit split: option.split)
qed

lemma gn_ok_handleCommitted:
  assumes ok: "gn_ok sha256 n" and room: "has_room (Suc k) (gn_log n)"
  shows "gn_ok sha256 (handleCommitted sha256 msg n)"
proof -
  let ?e = "gm_Entry msg"
  have log: "log_ok sha256 (gn_VerifyFunc n) (gn_NumMembers n) (gn_log n)"
    using ok by (simp add: gn_ok_def)
  have old: "gn_ok sha256 (n\<lparr>gn_log := fold (try_attest sha256 h) as (gn_log n)\<rparr>)" for h as
    using attest_all_ok [OF log] by (intro gn_ok_log ok) auto
  have new: "gn_ok sha256 (gemit [GbcCommit ?e] (n\<lparr>gn_log := fold (try_attest sha256 (ge_Height ?e)) (ge_Attestations ?e) l\<rparr>))"
    if "gbc_Publish sha256 (clean_entry ?e) (gn_log n) = Inr l" "VerifyEntry sha256 (gn_log n) ?e True = None" for l
  proof -
    note pub = publish_ok [OF log that(1) room]
    note all = attest_all_ok [OF pub(1), of "ge_Height ?e" "ge_Attestations ?e"]
    have "gn_ok sha256 (n\<lparr>gn_log := fold (try_attest sha256 (ge_Height ?e)) (ge_Attestations ?e) l\<rparr>)"
      using all pub(2) by (intro gn_ok_log ok) (auto intro: log_ext_trans)
    then show ?thesis
      using verify_in_log [OF ok that(2)] by (intro gn_ok_emit_commit) simp_all
  qed
  show ?thesis
    using ok old new gn_ok_requestSync by (auto simp: handleCommitted_def Let_def split: sum.split)
qed

lemma gn_ok_receive:
  assumes ok: "gn_ok sha256 n" and room: "has_room (Suc (length (gm_SyncEntries msg))) (gn_log n)"
  shows "gn_ok sha256 (gbc_receive sha256 msg n)"
proof -
  have log: "log_ok sha256 (gn_VerifyFunc n) (gn_NumMembers n) (gn_log n)"
    using ok by (simp add: gn_ok_def)
  have "has_room (length (gm_SyncEntries msg)) (gn_log n)"
    using room by (simp add: has_room_def)
  from sync_ok [OF log this] have "gn_ok sha256 (handleSyncResp sha256 msg n)"
    unfolding handleSyncResp_def by (intro gn_ok_log ok) auto
  moreover have "gn_ok sha256 (handleSyncReq msg n)"
    using ok by (simp add: handleSyncReq_def Let_def gn_ok_send)
  ultimately show ?thesis
    using gn_ok_handlePropose [OF ok room] gn_ok_handleAttest [OF ok] gn_ok_handleCommitted [OF ok room]
    by (simp add: gbc_receive_def split: GbcMsgType.split)
qed

section \<open>Runs of a primary\<close>

inductive gbc_node_step :: "(bytes \<Rightarrow> bytes) \<Rightarrow> gbc_node \<Rightarrow> gbc_node \<Rightarrow> bool" for sha256 where
  propose: "has_room 1 (gn_log n) \<Longrightarrow> gbc_node_step sha256 n (fst (propose sha256 bc ty payload n))"
| receive: "has_room (Suc (length (gm_SyncEntries msg))) (gn_log n) \<Longrightarrow> gbc_node_step sha256 n (gbc_receive sha256 msg n)"

inductive_cases gbc_node_stepE: "gbc_node_step sha256 n n'"

lemma gn_ok_step: "gbc_node_step sha256 n n' \<Longrightarrow> gn_ok sha256 n \<Longrightarrow> gn_ok sha256 n'"
  by (erule gbc_node_stepE) (auto intro: gn_ok_propose [where k = 0] gn_ok_receive)

lemma gn_ok_new: "gn_ok sha256 (NewNode i ids num sgn_fn ver)"
  by (simp add: gn_ok_def NewNode_def Let_def log_ok_def log_valid_def log_shape_def SetVerifier_def NewLogWithMembers_def)
    (auto simp: word_le_nat_alt word_less_nat_alt)

lemma gn_ok_run: "(gbc_node_step sha256)\<^sup>*\<^sup>* n n' \<Longrightarrow> gn_ok sha256 n \<Longrightarrow> gn_ok sha256 n'"
  by (induction rule: rtranclp_induct) (auto intro: gn_ok_step)

end
