(* ===== verification/Gbc_Agreement.thy ===== *)
theory Gbc_Agreement
  imports Gbc_Node
begin

text \<open>
  What the primaries of the Global Beacon Chain agree on (consensus/gbc/node.go): a primary signs one
  entry per height, committed entries carry a quorum, and committed entries agree; and what they do
  not agree on: entries that are only proposed.
\<close>

section \<open>Agreement on committed entries\<close>

lemma signed_in_log:
  "gn_ok sha256 n \<Longrightarrow> GbcSigned h t p \<in> set (gn_out n) \<Longrightarrow> self_valid sha256 n h t p \<Longrightarrow>
   map_option ge_core (fmlookup (gl_entries (gn_log n)) h) = Some (h, t, p)"
  unfolding gn_ok_def by auto

text \<open>
  A primary signs at most one entry per height: in every run, two signatures that verify under
  its own key and are for the same height are for the same type and payload.
\<close>

theorem gbc_signs_once_per_height:
  assumes "(gbc_node_step sha256)\<^sup>*\<^sup>* (NewNode i ids num sign_fn ver) n"
    and "GbcSigned h t p \<in> set (gn_out n)" and "self_valid sha256 n h t p"
    and "GbcSigned h t' p' \<in> set (gn_out n)" and "self_valid sha256 n h t' p'"
  shows "t = t' \<and> p = p'"
  using signed_in_log [OF gn_ok_run [OF assms(1) gn_ok_new] assms(2,3)]
    signed_in_log [OF gn_ok_run [OF assms(1) gn_ok_new] assms(4,5)] by simp

text \<open>The signers of an entry that the verifier accepts with a quorum.\<close>

lemma quorum_signers:
  assumes "verifyEntryWith sha256 (int (length ids)) (Some ver) e True = None"
    and "\<forall>i d s. ver i d s \<longrightarrow> i \<in> set ids" and "ids \<noteq> []"
  shows "set (gbc_signers e) \<subseteq> set ids" "gbc_threshold ids \<le> card (set (gbc_signers e))"
    "\<And>i. i \<in> set (gbc_signers e) \<Longrightarrow> \<exists>s. ver i (digest_of sha256 e) s"
proof -
  have valid: "att_valid sha256 (Some ver) e att" if "att \<in> set (ge_Attestations e)" for att
    using assms(1) that by (simp add: verifyEntryWith_iff)
  show signed: "\<exists>s. ver i (digest_of sha256 e) s" if "i \<in> set (gbc_signers e)" for i
    using that valid by (force simp: gbc_signers_def att_valid_def verifyAttestation_def digest_of_def split: if_splits)
  then show "set (gbc_signers e) \<subseteq> set ids"
    using assms(2) by blast
  show "gbc_threshold ids \<le> card (set (gbc_signers e))"
    using assms(1) by (simp add: verifyEntryWith_iff HasQuorum_iff gbc_threshold_def nat_le_iff)
qed

text \<open>
  What is assumed of the signature scheme for an honest member \<open>i\<close> whose primary is in the state
  \<open>n\<close>: only what it has signed verifies under its key.
\<close>

definition unforgeable :: "(bytes \<Rightarrow> bytes) \<Rightarrow> gbc_verifier \<Rightarrow> u64 \<Rightarrow> gbc_node \<Rightarrow> bool" where
  "unforgeable sha256 ver i n \<longleftrightarrow> (\<forall>h t p s. ver i (EntryDigest sha256 h t p) s \<longrightarrow>
     GbcSigned h t p \<in> set (gn_out n) \<and> self_valid sha256 n h t p)"

lemma commit_verified:
  assumes "(gbc_node_step sha256)\<^sup>*\<^sup>* (NewNode i ids num sign_fn ver) n" and "GbcCommit e \<in> set (gn_out n)"
  shows "verifyEntryWith sha256 (gn_NumMembers n) (Some (gn_VerifyFunc n)) e True = None"
  using gn_ok_run [OF assms(1) gn_ok_new] assms(2) unfolding gn_ok_def by blast

text \<open>
  C2: committed entries agree: with \<open>3f + 1\<close> members of which at most a third is faulty, when the
  honest members run the protocol and their signatures cannot be forged, two entries that any two
  primaries commit for the same height have the same type and payload, whoever proposed and
  whatever the network delivered.
\<close>

theorem gbc_committed_entries_agree:
  assumes "gbc_ok ids" and "\<forall>i d s. ver i d s \<longrightarrow> i \<in> set ids"
    and "3 * card (F \<inter> set ids) \<le> length ids"
    and "\<forall>i \<in> set ids - F. \<exists>sign_fn n.
      (gbc_node_step sha256)\<^sup>*\<^sup>* (NewNode i ids num sign_fn ver) n \<and> unforgeable sha256 ver i n"
    and "verifyEntryWith sha256 (int (length ids)) (Some ver) e1 True = None"
    and "verifyEntryWith sha256 (int (length ids)) (Some ver) e2 True = None"
    and "ge_Height e1 = ge_Height e2"
  shows "ge_core e1 = ge_core e2"
proof -
  have ne: "ids \<noteq> []" using assms(1) by (auto simp: gbc_ok_def)
  note s1 = quorum_signers [OF assms(5,2) ne] and s2 = quorum_signers [OF assms(6,2) ne]
  have card: "card (set ids) = length ids"
    using assms(1) by (simp add: gbc_ok_def distinct_card)
  have "\<exists>i \<in> set (gbc_signers e1) \<inter> set (gbc_signers e2). i \<notin> F"
    using gbcq.overlap_honest [OF assms(1) s1(1) s2(1), where F = F] s1(2) s2(2) assms(3) card by simp
  then obtain i where i: "i \<in> set (gbc_signers e1)" "i \<in> set (gbc_signers e2)" "i \<notin> F" by blast
  then obtain sign_fn n where run: "(gbc_node_step sha256)\<^sup>*\<^sup>* (NewNode i ids num sign_fn ver) n"
      and unf: "unforgeable sha256 ver i n"
    using assms(4) s1(1) by blast
  have core: "map_option ge_core (fmlookup (gl_entries (gn_log n)) (ge_Height e)) = Some (ge_core e)"
    if "\<exists>s. ver i (digest_of sha256 e) s" for e
  proof -
    have "GbcSigned (ge_Height e) (ge_Type e) (ge_Payload e) \<in> set (gn_out n)"
        "self_valid sha256 n (ge_Height e) (ge_Type e) (ge_Payload e)"
      using that unf by (auto simp: unforgeable_def digest_of_def)
    from signed_in_log [OF gn_ok_run [OF run gn_ok_new] this] show ?thesis
      by (simp add: ge_core_def)
  qed
  have "Some (ge_core e1) = Some (ge_core e2)"
    using core [OF s1(3) [OF i(1)]] core [OF s2(3) [OF i(2)]] assms(7) by simp
  then show ?thesis by simp
qed

text \<open>
  Every entry for which a primary calls its commit callback carries valid signatures of a quorum
  of distinct signers.
\<close>

theorem gbc_commits_have_quorum:
  assumes "(gbc_node_step sha256)\<^sup>*\<^sup>* (NewNode i ids num sign_fn ver) n" and "GbcCommit e \<in> set (gn_out n)"
  shows "\<exists>S. gbc_QuorumSize (gn_NumMembers n) \<le> int (card S) \<and> card S = length (ge_Attestations e) \<and>
    (\<forall>j \<in> S. \<exists>s. gn_VerifyFunc n j (digest_of sha256 e) s)"
proof -
  let ?S = "set (gbc_signers e)"
  note v = commit_verified [OF assms]
  have "\<exists>s. gn_VerifyFunc n j (digest_of sha256 e) s" if "j \<in> ?S" for j
    using v that by (force simp: verifyEntryWith_iff gbc_signers_def att_valid_def verifyAttestation_def digest_of_def split: if_splits)
  moreover have "card ?S = length (ge_Attestations e)"
    using v distinct_card [of "gbc_signers e"] by (simp add: verifyEntryWith_iff gbc_signers_def)
  ultimately show ?thesis
    using v by (intro exI [of _ ?S]) (simp add: verifyEntryWith_iff HasQuorum_iff)
qed

section \<open>Entries that are only proposed\<close>

text \<open>
  A primary that has attested an entry never hears that it was committed, and keeps the entry
  even when another one is committed at that height: a committed entry below the next height calls
  no callback and changes neither type nor payload of what the log holds there.
\<close>

theorem attested_entry_is_final:
  assumes "log_ok sha256 ver m (gn_log n)" and "ge_Height (gm_Entry msg) < gl_nextHeight (gn_log n)"
    and "Retrieve h (gn_log n) = Some x"
  shows "gn_out (handleCommitted sha256 msg n) = gn_out n \<and>
    (\<exists>y. Retrieve h (gn_log (handleCommitted sha256 msg n)) = Some y \<and> ge_core y = ge_core x)"
  using attest_all_ok [OF assms(1), of "ge_Height (gm_Entry msg)" "ge_Attestations (gm_Entry msg)"] assms(2,3)
  by (auto simp: handleCommitted_def Let_def Retrieve_def log_ext_def)


section \<open>A concrete chain\<close>

text \<open>Four primaries, a digest that tells one entry from all others, and a scheme that signs only it.\<close>

lemma of_char_inject: "of_char c = (of_char d :: 8 word) \<Longrightarrow> c = d"
proof -
  assume "of_char c = (of_char d :: 8 word)"
  then have bits: "bit (of_char c :: 8 word) n = bit (of_char d :: 8 word) n" for n by simp
  show ?thesis
    using bits [of 0] bits [of 1] bits [of 2] bits [of 3] bits [of 4] bits [of 5] bits [of 6] bits [of 7]
    by (cases c; cases d) (simp only: of_char_Char bit_horner_sum_bit_word_iff, simp)
qed

definition pin_sha :: "bytes \<Rightarrow> bytes" where
  "pin_sha x = (if x = be64 1 @ map of_char EntryQC @ [1] then [2] else if x = [5] then [1] else [0])"

definition pin_ver :: gbc_verifier where
  "pin_ver i d s \<longleftrightarrow> i \<in> set [0, 1, 2, 3] \<and> d = [2] \<and> s = [ucast i]"

definition pin_node :: "u64 \<Rightarrow> gbc_node" where
  "pin_node i = NewNode i [0, 1, 2, 3] 0 (\<lambda>d. [ucast i]) pin_ver"

definition pin_proposer :: gbc_node where
  "pin_proposer = fst (propose pin_sha True EntryQC [5] (pin_node 1))"

definition pin_proposal :: gbc_message where
  "pin_proposal = gbc_msg GMsgPropose (pin_node 1)
     \<lparr> ge_Height = 1, ge_Type = EntryQC, ge_Payload = [5], ge_Attestations = [\<lparr> ga_SignerID = 1, ga_Signature = [1] \<rparr>] \<rparr>"

definition pin_attestor :: "u64 \<Rightarrow> gbc_node" where
  "pin_attestor i = gbc_receive pin_sha pin_proposal (pin_node i)"

definition pin_attestation :: "u64 \<Rightarrow> gbc_message" where
  "pin_attestation i = (gbc_msg GMsgAttest (pin_node i) (blank_gbc_entry 1))
     \<lparr>gm_Attestation := \<lparr> ga_SignerID = i, ga_Signature = [ucast i] \<rparr>\<rparr>"

definition pin_committer :: gbc_node where
  "pin_committer = gbc_receive pin_sha (pin_attestation 2) (gbc_receive pin_sha (pin_attestation 0) pin_proposer)"

definition pin_entry :: gbc_entry where
  "pin_entry = \<lparr> ge_Height = 1, ge_Type = EntryQC, ge_Payload = [5],
     ge_Attestations = map (\<lambda>i. \<lparr> ga_SignerID = i, ga_Signature = [ucast i] \<rparr>) [0, 1, 2] \<rparr>"

text \<open>Node 3 missed the proposal and learns the entry from the commit message.\<close>

definition pin_observer :: gbc_node where
  "pin_observer = gbc_receive pin_sha (gbc_msg GMsgCommitted (pin_node 1) pin_entry) (pin_node 3)"

lemma length_pin_sha [simp]: "length (pin_sha x) = 1"
  by (simp add: pin_sha_def)

lemma pin_digest: "EntryDigest pin_sha h t p = [2] \<longleftrightarrow> h = 1 \<and> t = EntryQC \<and> p = [5]"
proof
  assume "EntryDigest pin_sha h t p = [2]"
  then have "be64 h @ map of_char t @ pin_sha p = be64 1 @ map of_char EntryQC @ [1]"
    by (simp add: EntryDigest_def pin_sha_def [of "be64 h @ _"] split: if_splits)
  then have "h = 1" and tp: "map of_char t @ pin_sha p = map of_char EntryQC @ ([1] :: bytes)"
    by simp_all
  have "map of_char t = (map of_char EntryQC :: bytes) \<and> pin_sha p = [1]"
    using tp by (intro append_eq_append_conv [THEN iffD1]) simp_all
  moreover have "p = [5]" if "pin_sha p = [1]"
    using that by (simp add: pin_sha_def split: if_splits)
  moreover have "inj (of_char :: char \<Rightarrow> 8 word)"
    by (rule injI) (rule of_char_inject)
  ultimately show "h = 1 \<and> t = EntryQC \<and> p = [5]"
    using \<open>h = 1\<close> by (simp add: inj_map_eq_map)
next
  assume "h = 1 \<and> t = EntryQC \<and> p = [5]"
  then show "EntryDigest pin_sha h t p = [2]"
    by (simp add: EntryDigest_def pin_sha_def)
qed

lemma pin_steps:
  "gbc_node_step pin_sha (pin_node 1) pin_proposer"
  "gbc_node_step pin_sha (pin_node i) (pin_attestor i)"
  "gbc_node_step pin_sha (pin_node 3) pin_observer"
  unfolding pin_proposer_def pin_attestor_def pin_observer_def
  by (rule gbc_node_step.intros; simp add: has_room_def pin_node_def NewNode_def Let_def SetVerifier_def NewLogWithMembers_def
      pin_proposal_def gbc_msg_def)+


lemma pin_signed:
  "GbcSigned 1 EntryQC [5] \<in> set (gn_out (pin_attestor 0))"
  "GbcSigned 1 EntryQC [5] \<in> set (gn_out (pin_attestor 2))"
  "GbcSigned 1 EntryQC [5] \<in> set (gn_out pin_proposer)"
  by code_simp+

lemma pin_config:
  assumes "gn_NodeID n = i" and "gn_SignFunc n = (\<lambda>d. [ucast i])" and "gn_VerifyFunc n = pin_ver" and "i \<in> {0, 1, 2, 3}"
  shows "self_valid pin_sha n 1 EntryQC [5]"
  using assms pin_digest [of 1 EntryQC "[5]"] by (auto simp: self_valid_def pin_ver_def)

lemma pin_node_config:
  "gn_NodeID (pin_node i) = i" "gn_SignFunc (pin_node i) = (\<lambda>d. [ucast i])" "gn_VerifyFunc (pin_node i) = pin_ver"
  by (simp_all add: pin_node_def NewNode_def Let_def)

text \<open>The configuration of a primary never changes.\<close>

lemma same_config_simps [simp]:
  "same_config n n" "same_config n (n'\<lparr>gn_log := l\<rparr>) = same_config n n'"
  "same_config n (n'\<lparr>gn_pending := p\<rparr>) = same_config n n'" "same_config n (gemit xs n') = same_config n n'"
  "same_config n (fst (checkAndCommit sha256 pe h n')) = same_config n n'"
  by (simp_all add: checkAndCommit_def same_config_def gemit_def Let_def)

lemma same_config_propose: "same_config n (fst (propose sha256 bc ty payload n))"
  by (simp add: propose_def Let_def split: sum.split)

lemma same_config_receive: "same_config n (gbc_receive sha256 msg n)"
proof -
  have "same_config n (handlePropose sha256 msg n)"
    by (simp add: handlePropose_def requestSync_def Let_def split: sum.split)
  moreover have "same_config n (handleAttest sha256 msg n)"
    by (simp add: handleAttest_def Let_def split: option.split)
  moreover have "same_config n (handleCommitted sha256 msg n)"
    by (simp add: handleCommitted_def requestSync_def Let_def split: sum.split)
  moreover have "same_config n (handleSyncReq msg n)" "same_config n (handleSyncResp sha256 msg n)"
    by (simp_all add: handleSyncReq_def handleSyncResp_def Let_def)
  ultimately show ?thesis
    by (simp add: gbc_receive_def split: GbcMsgType.split)
qed

lemma config_step: "gbc_node_step sha256 n n' \<Longrightarrow> same_config n n'"
  by (erule gbc_node_stepE) (simp_all add: same_config_propose same_config_receive)

lemma pin_unforgeable:
  assumes "GbcSigned 1 EntryQC [5] \<in> set (gn_out n)" and "gbc_node_step pin_sha (pin_node i) n" and "i \<in> {0, 1, 2, 3}"
  shows "unforgeable pin_sha pin_ver i n"
proof -
  have "self_valid pin_sha n 1 EntryQC [5]"
    using config_step [OF assms(2)] pin_node_config [of i] assms(3) by (intro pin_config [of n i]) (auto simp: same_config_def)
  with assms(1) show ?thesis
    by (auto simp: unforgeable_def pin_ver_def pin_digest)
qed

theorem gbc_committed_entries_agree_witness:
  "ge_core pin_entry = (1, EntryQC, [5]) \<and> ge_core pin_entry = ge_core (pin_entry\<lparr>ge_Attestations := rev (ge_Attestations pin_entry)\<rparr>)"
proof
  show "ge_core pin_entry = (1, EntryQC, [5])"
    by (simp add: pin_entry_def ge_core_def)
  let ?e2 = "pin_entry\<lparr>ge_Attestations := rev (ge_Attestations pin_entry)\<rparr>"
  have "gbc_ok [0, 1, 2, 3]" "\<forall>i d s. pin_ver i d s \<longrightarrow> i \<in> set [0, 1, 2, 3]"
    "3 * card ({3} \<inter> set [0, 1, 2, 3 :: u64]) \<le> length [0, 1, 2, 3 :: u64]"
    by (simp_all add: gbc_ok_def pin_ver_def)
  moreover have "\<exists>sign_fn n. (gbc_node_step pin_sha)\<^sup>*\<^sup>* (NewNode i [0, 1, 2, 3] 0 sign_fn pin_ver) n \<and>
      unforgeable pin_sha pin_ver i n" if "i \<in> set [0, 1, 2, 3] - {3}" for i
  proof -
    have "\<exists>n. gbc_node_step pin_sha (pin_node i) n \<and> unforgeable pin_sha pin_ver i n"
    proof (cases "i = 1")
      case True
      then show ?thesis
        using pin_unforgeable [OF pin_signed(3), of 1] pin_steps(1) by auto
    next
      case False
      with that have "i \<in> {0, 2}" by auto
      then show ?thesis
        using pin_unforgeable [of "pin_attestor i" i] pin_steps(2) [of i] pin_signed by auto
    qed
    then show ?thesis
      unfolding pin_node_def by blast
  qed
  moreover have "verifyEntryWith pin_sha (int (length [0, 1, 2, 3 :: u64])) (Some pin_ver) pin_entry True = None"
    "verifyEntryWith pin_sha (int (length [0, 1, 2, 3 :: u64])) (Some pin_ver) ?e2 True = None" by code_simp+
  ultimately show "ge_core pin_entry = ge_core ?e2"
    by (intro gbc_committed_entries_agree [of "[0, 1, 2, 3]" pin_ver "{3}" pin_sha 0]) auto
qed

theorem gbc_signs_once_per_height_witness:
  "{(t, p). GbcSigned 1 t p \<in> set (gn_out pin_proposer) \<and> self_valid pin_sha pin_proposer 1 t p} = {(EntryQC, [5])}"
proof -
  have run: "(gbc_node_step pin_sha)\<^sup>*\<^sup>* (NewNode 1 [0, 1, 2, 3] 0 (\<lambda>d. [ucast (1 :: u64)]) pin_ver) pin_proposer"
    using pin_steps(1) unfolding pin_node_def by blast
  have "self_valid pin_sha pin_proposer 1 EntryQC [5]"
    using config_step [OF pin_steps(1)] pin_node_config [of 1] by (intro pin_config [of _ 1]) (auto simp: same_config_def)
  with pin_signed(3) gbc_signs_once_per_height [OF run] show ?thesis by blast
qed

theorem gbc_commits_have_quorum_witness:
  "\<exists>e S. GbcCommit e \<in> set (gn_out pin_observer) \<and> gbc_QuorumSize 4 \<le> int (card S) \<and>
     (\<forall>j \<in> S. \<exists>s. pin_ver j (digest_of pin_sha e) s)"
proof -
  have run: "(gbc_node_step pin_sha)\<^sup>*\<^sup>* (NewNode 3 [0, 1, 2, 3] 0 (\<lambda>d. [ucast (3 :: u64)]) pin_ver) pin_observer"
    using pin_steps(3) unfolding pin_node_def by blast
  have "(case gn_out pin_observer of [GbcCommit e] \<Rightarrow> True | _ \<Rightarrow> False)" by code_simp
  then obtain e where e: "GbcCommit e \<in> set (gn_out pin_observer)"
    by (auto split: list.splits gbc_event.splits)
  have "gn_VerifyFunc pin_observer = pin_ver" "length (gn_MemberIDs pin_observer) = 4"
    using config_step [OF pin_steps(3)] by (simp_all add: same_config_def pin_node_def NewNode_def Let_def normalizeMemberIDs_def)
  with gbc_commits_have_quorum [OF run e] e show ?thesis by auto
qed

theorem attested_entry_is_final_witness:
  "\<exists>y. Retrieve 1 (gn_log (handleCommitted pin_sha (gbc_msg GMsgCommitted (pin_node 1) (pin_entry\<lparr>ge_Payload := [6]\<rparr>)) (pin_attestor 2))) = Some y \<and>
     ge_Payload y = [5]"
proof -
  have "gn_ok pin_sha (pin_attestor 2)"
    using gn_ok_step [OF pin_steps(2)] gn_ok_new unfolding pin_node_def by blast
  then have "log_ok pin_sha (gn_VerifyFunc (pin_attestor 2)) (gn_NumMembers (pin_attestor 2)) (gn_log (pin_attestor 2))"
    by (simp add: gn_ok_def)
  moreover have "gl_nextHeight (gn_log (pin_attestor 2)) = 2 \<and>
      map_option ge_Payload (Retrieve 1 (gn_log (pin_attestor 2))) = Some [5]" by code_simp
  moreover have "ge_Height (gm_Entry (gbc_msg GMsgCommitted (pin_node 1) (pin_entry\<lparr>ge_Payload := [6]\<rparr>))) = 1"
    by (simp add: gbc_msg_def pin_entry_def)
  ultimately show ?thesis
    using attested_entry_is_final [of pin_sha _ _ "pin_attestor 2" "gbc_msg GMsgCommitted (pin_node 1) (pin_entry\<lparr>ge_Payload := [6]\<rparr>)" 1]
    by (fastforce simp: ge_core_def word_less_nat_alt)
qed

end
