(* ===== verification/Gbc_Orderer.thy ===== *)
theory Gbc_Orderer
  imports Gbc_Log "HOL-Library.Product_Lexorder"
begin

text \<open>
  Cross-instance ordering on the Global Beacon Chain (consensus/gbc/orderer.go) and the comparison of
  checkpoints (consensus/gbc/checkpoint.go).  The JSON codec is an argument.  \<open>sort.Slice\<close> is not
  stable; the order is stated for keys without ties, where every sorting algorithm agrees.
\<close>

section \<open>The orderer\<close>

record instance_commit =
  ic_InstanceID :: u64
  ic_LocalHeight :: u64
  ic_Rank :: u64
  ic_Epoch :: u64
  ic_BlockHash :: bytes

record gbc_orderer =
  or_log :: gbc_log
  or_numInstances :: int
  or_currentEpoch :: u64
  or_epochOutputs :: "(u64, instance_commit list) fmap"
  or_out :: "(u64 \<times> instance_commit list) list"

definition NewOrderer :: "gbc_log \<Rightarrow> int \<Rightarrow> gbc_orderer" where
  "NewOrderer l n = \<lparr> or_log = l, or_numInstances = n, or_currentEpoch = 0, or_epochOutputs = fmempty, or_out = [] \<rparr>"

definition ic_key :: "instance_commit \<Rightarrow> u64 \<times> u64" where
  "ic_key c = (ic_Rank c, ic_InstanceID c)"

definition produceGlobalOrder :: "instance_commit list \<Rightarrow> instance_commit list" where
  "produceGlobalOrder cs = sort_key ic_key cs"

type_synonym checkpoint_json = "u64 \<Rightarrow> instance_commit list \<Rightarrow> bytes"

definition publishEpochCheckpoint ::
  "(bytes \<Rightarrow> bytes) \<Rightarrow> checkpoint_json \<Rightarrow> u64 \<Rightarrow> instance_commit list \<Rightarrow> gbc_log \<Rightarrow> gbc_error + gbc_log" where
  "publishEpochCheckpoint sha256 json epoch ordered l = gbc_Publish sha256
     \<lparr> ge_Height = gl_nextHeight l, ge_Type = EntryCheckpoint, ge_Payload = json epoch ordered, ge_Attestations = [] \<rparr> l"

definition outputs_of :: "gbc_orderer \<Rightarrow> u64 \<Rightarrow> instance_commit list" where
  "outputs_of s epoch = (case fmlookup (or_epochOutputs s) epoch of Some cs \<Rightarrow> cs | None \<Rightarrow> [])"

definition PendingCount :: "gbc_orderer \<Rightarrow> u64 \<Rightarrow> nat" where
  "PendingCount s epoch = length (outputs_of s epoch)"

definition same_slot :: "instance_commit \<Rightarrow> instance_commit \<Rightarrow> bool" where
  "same_slot a b \<longleftrightarrow> ic_InstanceID a = ic_InstanceID b \<and> ic_LocalHeight a = ic_LocalHeight b"

text \<open>The result with the error of a failed publication; the commit is recorded all the same.\<close>

definition SubmitCommit ::
  "(bytes \<Rightarrow> bytes) \<Rightarrow> checkpoint_json \<Rightarrow> instance_commit \<Rightarrow> gbc_orderer \<Rightarrow> gbc_orderer \<times> gbc_error option" where
  "SubmitCommit sha256 json c s =
     (let epoch = ic_Epoch c
      in if list_ex (same_slot c) (outputs_of s epoch) then (s, None)
         else
           (let outputs = outputs_of s epoch @ [c];
                s1 = s\<lparr>or_epochOutputs := fmupd epoch outputs (or_epochOutputs s)\<rparr>
            in if int (length (remdups (map ic_InstanceID outputs))) < or_numInstances s then (s1, None)
               else let ordered = produceGlobalOrder outputs
                 in case publishEpochCheckpoint sha256 json epoch ordered (or_log s1) of Inl err \<Rightarrow> (s1, Some err)
                   | Inr l \<Rightarrow>
                      (let cur = (if or_currentEpoch s \<le> epoch then epoch + 1 else or_currentEpoch s)
                       in (s1\<lparr> or_log := l, or_currentEpoch := cur, or_out := or_out s1 @ [(epoch, ordered)],
                              or_epochOutputs := fmfilter (\<lambda>e. \<not> e + 2 \<le> cur) (or_epochOutputs s1) \<rparr>, None))))"

section \<open>What the orderer promises\<close>

lemma set_order [simp]: "set (produceGlobalOrder cs) = set cs"
  by (simp add: produceGlobalOrder_def)

lemma mset_order [simp]: "mset (produceGlobalOrder cs) = mset cs"
  by (simp add: produceGlobalOrder_def)

lemma ic_key_eq: "(\<lambda>c. (ic_Rank c, ic_InstanceID c)) = ic_key"
  by (simp add: fun_eq_iff ic_key_def)

text \<open>
  The global order does not depend on the order in which the instances report: without ties of
  rank and instance, every arrangement of the same commits that is sorted by rank and instance is the
  one the orderer produces, so all primaries that have the same commits publish the same order.
\<close>

theorem global_order_unique:
  assumes "inj_on (\<lambda>c. (ic_Rank c, ic_InstanceID c)) (set xs)" and "mset ys = mset xs"
  shows "produceGlobalOrder ys = produceGlobalOrder xs \<and>
    (\<forall>zs. mset zs = mset xs \<and> sorted (map (\<lambda>c. (ic_Rank c, ic_InstanceID c)) zs) \<longrightarrow> zs = produceGlobalOrder xs)"
proof -
  have uniq: "zs = produceGlobalOrder xs" if "mset zs = mset xs" "sorted (map ic_key zs)" for zs
  proof -
    have "sort (map ic_key xs) = map ic_key zs" "sort (map ic_key xs) = map ic_key (produceGlobalOrder xs)"
      by (rule properties_for_sort; simp add: that mset_map produceGlobalOrder_def)+
    then have keys: "map ic_key zs = map ic_key (produceGlobalOrder xs)" by simp
    have "set zs = set xs"
      using that(1) by (metis set_mset_mset)
    then have "inj_on ic_key (set zs \<union> set (produceGlobalOrder xs))"
      using assms(1) [unfolded ic_key_eq] by simp
    with keys show ?thesis by (rule map_inj_on)
  qed
  have "sorted (map ic_key (produceGlobalOrder ys))" "mset (produceGlobalOrder ys) = mset xs"
    using assms(2) by (simp_all add: produceGlobalOrder_def)
  then have "produceGlobalOrder ys = produceGlobalOrder xs"
    by (intro uniq)
  then show ?thesis
    unfolding ic_key_eq by (intro conjI allI impI) (simp, erule conjE, erule (1) uniq)
qed

definition or_ok :: "gbc_orderer \<Rightarrow> bool" where
  "or_ok s \<longleftrightarrow>
     (\<forall>e. distinct (map (\<lambda>c. (ic_InstanceID c, ic_LocalHeight c)) (outputs_of s e)) \<and>
        (\<forall>c \<in> set (outputs_of s e). ic_Epoch c = e)) \<and>
     (\<forall>(e, cs) \<in> set (or_out s). sorted (map ic_key cs) \<and>
        distinct (map (\<lambda>c. (ic_InstanceID c, ic_LocalHeight c)) cs) \<and> (\<forall>c \<in> set cs. ic_Epoch c = e) \<and>
        or_numInstances s \<le> int (card (ic_InstanceID ` set cs)))"


lemma or_ok_out:
  assumes "or_ok s" and "(e, cs) \<in> set (or_out s)"
  shows "sorted (map ic_key cs) \<and> distinct (map (\<lambda>c. (ic_InstanceID c, ic_LocalHeight c)) cs) \<and>
    (\<forall>c \<in> set cs. ic_Epoch c = e) \<and> or_numInstances s \<le> int (card (ic_InstanceID ` set cs))"
  using bspec [OF conjunct2 [OF assms(1) [unfolded or_ok_def]] assms(2)] by simp

lemma or_ok_outputs:
  assumes "or_ok s"
  shows "distinct (map (\<lambda>c. (ic_InstanceID c, ic_LocalHeight c)) (outputs_of s e)) \<and>
    (\<forall>c \<in> set (outputs_of s e). ic_Epoch c = e)"
  using assms unfolding or_ok_def by blast

lemma or_okI:
  assumes "\<And>e. distinct (map (\<lambda>c. (ic_InstanceID c, ic_LocalHeight c)) (outputs_of s e)) \<and>
      (\<forall>c \<in> set (outputs_of s e). ic_Epoch c = e)"
    and "\<And>e cs. (e, cs) \<in> set (or_out s) \<Longrightarrow> sorted (map ic_key cs) \<and>
      distinct (map (\<lambda>c. (ic_InstanceID c, ic_LocalHeight c)) cs) \<and>
      (\<forall>c \<in> set cs. ic_Epoch c = e) \<and> or_numInstances s \<le> int (card (ic_InstanceID ` set cs))"
  shows "or_ok s"
  unfolding or_ok_def using assms by blast

lemma or_ok_submit:
  assumes "or_ok s"
  shows "or_ok (fst (SubmitCommit sha256 json c s))"
proof (cases "list_ex (same_slot c) (outputs_of s (ic_Epoch c))")
  case False
  let ?out = "outputs_of s (ic_Epoch c) @ [c]"
  let ?s1 = "s\<lparr>or_epochOutputs := fmupd (ic_Epoch c) ?out (or_epochOutputs s)\<rparr>"
  have outputs: "outputs_of ?s1 e = (if e = ic_Epoch c then ?out else outputs_of s e)" for e
    by (simp add: outputs_of_def)
  have slots: "(ic_InstanceID c, ic_LocalHeight c) \<notin> (\<lambda>c. (ic_InstanceID c, ic_LocalHeight c)) ` set (outputs_of s (ic_Epoch c))"
    using False by (auto simp: list_ex_iff same_slot_def)
  have s1: "or_ok ?s1"
    using assms slots by (auto simp: or_ok_def outputs)
  have out: "distinct (map (\<lambda>c. (ic_InstanceID c, ic_LocalHeight c)) ?out)" "\<forall>x \<in> set ?out. ic_Epoch x = ic_Epoch c"
    using assms slots by (auto simp: or_ok_def)
  let ?ord = "produceGlobalOrder ?out"
  have "mset (map (\<lambda>c. (ic_InstanceID c, ic_LocalHeight c)) ?ord) = mset (map (\<lambda>c. (ic_InstanceID c, ic_LocalHeight c)) ?out)"
    by (simp only: mset_map mset_order)
  then have dist: "distinct (map (\<lambda>c. (ic_InstanceID c, ic_LocalHeight c)) ?ord)"
    using out(1) mset_eq_imp_distinct_iff by blast
  have announced: "or_ok (?s1\<lparr> or_log := l, or_currentEpoch := k, or_out := or_out ?s1 @ [(ic_Epoch c, ?ord)],
      or_epochOutputs := fmfilter P (or_epochOutputs ?s1) \<rparr>)" (is "or_ok ?r")
    if "\<not> int (length (remdups (map ic_InstanceID ?out))) < or_numInstances s" for l k P
  proof -
    have r: "outputs_of ?r e = (if P e then outputs_of ?s1 e else [])" for e
      by (simp add: outputs_of_def)
    have "or_numInstances s \<le> int (card (ic_InstanceID ` set ?ord))"
      using that by (simp only: length_remdups_card_conv set_map set_order not_less)
    moreover have "sorted (map ic_key ?ord)"
      by (simp add: produceGlobalOrder_def)
    moreover have "\<forall>x \<in> set ?ord. ic_Epoch x = ic_Epoch c"
      using out(2) by (simp only: set_order)
    ultimately have new: "sorted (map ic_key ?ord) \<and> distinct (map (\<lambda>c. (ic_InstanceID c, ic_LocalHeight c)) ?ord) \<and>
        (\<forall>x \<in> set ?ord. ic_Epoch x = ic_Epoch c) \<and> or_numInstances s \<le> int (card (ic_InstanceID ` set ?ord))"
      using dist by blast
    show ?thesis
    proof (rule or_okI)
      show "distinct (map (\<lambda>c. (ic_InstanceID c, ic_LocalHeight c)) (outputs_of ?r e)) \<and>
          (\<forall>c \<in> set (outputs_of ?r e). ic_Epoch c = e)" for e
      proof (cases "P e")
        case True
        have "outputs_of ?r e = outputs_of ?s1 e"
          unfolding r by (simp only: True if_True)
        then show ?thesis
          by (rule ssubst) (rule or_ok_outputs [OF s1])
      next
        case False
        have "outputs_of ?r e = []"
          unfolding r by (simp only: False if_False)
        then show ?thesis
          by (rule ssubst) simp
      qed
      fix e cs assume "(e, cs) \<in> set (or_out ?r)"
      then consider "(e, cs) \<in> set (or_out s)" | "e = ic_Epoch c" "cs = ?ord" by auto
      then show "sorted (map ic_key cs) \<and> distinct (map (\<lambda>c. (ic_InstanceID c, ic_LocalHeight c)) cs) \<and>
          (\<forall>c \<in> set cs. ic_Epoch c = e) \<and> or_numInstances ?r \<le> int (card (ic_InstanceID ` set cs))"
      proof cases
        case 1
        from or_ok_out [OF assms this] show ?thesis by simp
      next
        case 2
        have nums: "or_numInstances ?r = or_numInstances s" by simp
        show ?thesis unfolding 2 nums by (rule new)
      qed
    qed
  qed
  have "fst (SubmitCommit sha256 json c s) =
    (if int (length (remdups (map ic_InstanceID ?out))) < or_numInstances s then ?s1
     else case publishEpochCheckpoint sha256 json (ic_Epoch c) ?ord (or_log ?s1) of Inl err \<Rightarrow> ?s1
       | Inr l \<Rightarrow> (let k = (if or_currentEpoch s \<le> ic_Epoch c then ic_Epoch c + 1 else or_currentEpoch s)
           in ?s1\<lparr> or_log := l, or_currentEpoch := k, or_out := or_out ?s1 @ [(ic_Epoch c, ?ord)],
                 or_epochOutputs := fmfilter (\<lambda>e. \<not> e + 2 \<le> k) (or_epochOutputs ?s1) \<rparr>))"
    using False unfolding SubmitCommit_def Let_def
    by (simp only: if_False fst_conv if_distrib [of fst] split: sum.split) simp
  then show ?thesis
    unfolding Let_def by (simp only: split: if_split sum.split) (intro conjI allI impI s1 announced)
qed (use assms in \<open>simp add: SubmitCommit_def Let_def\<close>)

text \<open>
  Whatever commits arrive in whatever order, every order the orderer announces is sorted by rank
  and instance, contains only commits of its epoch, at most one per instance and height, and comes
  from at least as many instances as there are.
\<close>

theorem announced_orders_complete:
  assumes "(epoch, ordered) \<in> set (or_out (fold (\<lambda>c s. fst (SubmitCommit sha256 json c s)) cs (NewOrderer l n)))"
  shows "sorted (map (\<lambda>c. (ic_Rank c, ic_InstanceID c)) ordered) \<and> (\<forall>c \<in> set ordered. ic_Epoch c = epoch) \<and>
    distinct (map (\<lambda>c. (ic_InstanceID c, ic_LocalHeight c)) ordered) \<and> n \<le> int (card (ic_InstanceID ` set ordered))"
proof -
  have nums: "or_numInstances (fst (SubmitCommit sha256 json c s)) = or_numInstances s" for c s
    by (simp add: SubmitCommit_def Let_def split: sum.split)
  have "or_ok s \<Longrightarrow> or_ok (fold (\<lambda>c s. fst (SubmitCommit sha256 json c s)) cs s) \<and>
      or_numInstances (fold (\<lambda>c s. fst (SubmitCommit sha256 json c s)) cs s) = or_numInstances s" for s
    by (induction cs arbitrary: s) (simp_all add: or_ok_submit nums)
  moreover have "or_ok (NewOrderer l n)" "or_numInstances (NewOrderer l n) = n"
    by (simp_all add: or_ok_def NewOrderer_def outputs_of_def)
  ultimately have "or_ok (fold (\<lambda>c s. fst (SubmitCommit sha256 json c s)) cs (NewOrderer l n))"
    "or_numInstances (fold (\<lambda>c s. fst (SubmitCommit sha256 json c s)) cs (NewOrderer l n)) = n" by simp_all
  with assms show ?thesis
    unfolding ic_key_eq by (auto dest: or_ok_out)
qed

definition toy_commit :: "u64 \<Rightarrow> u64 \<Rightarrow> u64 \<Rightarrow> instance_commit" where
  "toy_commit i h r = \<lparr> ic_InstanceID = i, ic_LocalHeight = h, ic_Rank = r, ic_Epoch = 0, ic_BlockHash = [] \<rparr>"

definition toy_orders :: "instance_commit list \<Rightarrow> (u64 \<times> instance_commit list) list" where
  "toy_orders cs = or_out (fold (\<lambda>c s. fst (SubmitCommit id (\<lambda>e cs. []) c s)) cs (NewOrderer (NewLogWithMembers 4) 2))"

theorem global_order_unique_witness:
  "produceGlobalOrder [toy_commit 1 1 3, toy_commit 0 1 2] = produceGlobalOrder [toy_commit 0 1 2, toy_commit 1 1 3]"
  using global_order_unique [of "[toy_commit 0 1 2, toy_commit 1 1 3]" "[toy_commit 1 1 3, toy_commit 0 1 2]"]
  by (simp add: ic_key_def toy_commit_def add_mset_commute)

text \<open>
  An epoch is announced again and again: after it is complete, a later commit of the same epoch
  announces it a second time, with the new commit in front of those already announced, so a reader
  that has acted on the first announcement has to undo it.
\<close>

theorem late_commit_reorders_epoch:
  "toy_orders [toy_commit 0 1 2, toy_commit 1 1 3, toy_commit 1 2 1] =
     [(0, [toy_commit 0 1 2, toy_commit 1 1 3]), (0, [toy_commit 1 2 1, toy_commit 0 1 2, toy_commit 1 1 3])]"
  by code_simp

theorem announced_orders_complete_witness:
  "sorted (map (\<lambda>c. (ic_Rank c, ic_InstanceID c)) [toy_commit 0 1 2, toy_commit 1 1 3])"
proof -
  have "list_ex (\<lambda>(e, cs). e = 0 \<and> cs = [toy_commit 0 1 2, toy_commit 1 1 3]) (toy_orders [toy_commit 0 1 2, toy_commit 1 1 3])"
    by code_simp
  then have "(0, [toy_commit 0 1 2, toy_commit 1 1 3]) \<in> set (toy_orders [toy_commit 0 1 2, toy_commit 1 1 3])"
    by (auto simp: list_ex_iff)
  from announced_orders_complete [OF this [unfolded toy_orders_def]] show ?thesis by blast
qed

section \<open>Checkpoints\<close>

record checkpoint =
  ck_InstanceID :: u64
  ck_LocalHeight :: u64
  ck_Rank :: u64
  ck_Epoch :: u64
  ck_IsNil :: bool
  ck_TransitionCount :: int
  ck_BlockHashHex :: string

datatype checkpoint_error = CkNotFound | CkDecode | CkEmptyHash | CkBadHash
  | CkInstance | CkHeight | CkRank | CkEpoch | CkNil | CkTransitions | CkHash

text \<open>\<open>hex.DecodeString\<close>: both cases of the digits, an even number of them.\<close>

definition hex_value :: "char \<Rightarrow> nat option" where
  "hex_value c = (let n = of_char c
     in if 48 \<le> n \<and> n \<le> 57 then Some (n - 48)
        else if 97 \<le> n \<and> n \<le> 102 then Some (n - 87)
        else if 65 \<le> n \<and> n \<le> 70 then Some (n - 55) else None)"

fun hex_decode :: "string \<Rightarrow> bytes option" where
  "hex_decode [] = Some []"
| "hex_decode [c] = None"
| "hex_decode (c # d # cs) = (case (hex_value c, hex_value d, hex_decode cs) of
     (Some a, Some b, Some bs) \<Rightarrow> Some (of_nat (16 * a + b) # bs) | _ \<Rightarrow> None)"

definition decodeCheckpointHash :: "string \<Rightarrow> checkpoint_error + bytes" where
  "decodeCheckpointHash s = (if s = [] then Inl CkEmptyHash
     else case hex_decode s of None \<Rightarrow> Inl CkBadHash | Some bs \<Rightarrow> Inr bs)"

definition GetLatestCheckpoint :: "(bytes \<Rightarrow> checkpoint option) \<Rightarrow> gbc_log option \<Rightarrow> checkpoint_error + checkpoint option" where
  "GetLatestCheckpoint unmarshal lp = (case lp of None \<Rightarrow> Inr None
     | Some l \<Rightarrow> (case LatestByType EntryCheckpoint l of None \<Rightarrow> Inr None
       | Some e \<Rightarrow> (case unmarshal (ge_Payload e) of None \<Rightarrow> Inl CkDecode
         | Some ck \<Rightarrow> (case decodeCheckpointHash (ck_BlockHashHex ck) of Inl err \<Rightarrow> Inl err
           | Inr _ \<Rightarrow> Inr (Some ck)))))"

definition compareCheckpoint :: "checkpoint \<Rightarrow> checkpoint \<Rightarrow> checkpoint_error option" where
  "compareCheckpoint actual expected = (case decodeCheckpointHash (ck_BlockHashHex actual) of Inl err \<Rightarrow> Some err
     | Inr ah \<Rightarrow> (case decodeCheckpointHash (ck_BlockHashHex expected) of Inl err \<Rightarrow> Some err
       | Inr eh \<Rightarrow>
           if ck_InstanceID actual \<noteq> ck_InstanceID expected then Some CkInstance
           else if ck_LocalHeight actual \<noteq> ck_LocalHeight expected then Some CkHeight
           else if ck_Rank actual \<noteq> ck_Rank expected then Some CkRank
           else if ck_Epoch actual \<noteq> ck_Epoch expected then Some CkEpoch
           else if ck_IsNil actual \<noteq> ck_IsNil expected then Some CkNil
           else if ck_TransitionCount actual \<noteq> ck_TransitionCount expected then Some CkTransitions
           else if ah \<noteq> eh then Some CkHash else None))"

definition ValidateLatestCheckpointAgainst ::
  "(bytes \<Rightarrow> checkpoint option) \<Rightarrow> gbc_log option \<Rightarrow> checkpoint \<Rightarrow> checkpoint_error option" where
  "ValidateLatestCheckpointAgainst unmarshal lp expected = (case GetLatestCheckpoint unmarshal lp of
     Inl err \<Rightarrow> Some err | Inr None \<Rightarrow> Some CkNotFound | Inr (Some ck) \<Rightarrow> compareCheckpoint ck expected)"

lemma hex_value_digit: "n < 16 \<Longrightarrow> hex_value (hex_digit n) = Some n"
proof -
  assume "n < 16"
  then have "n \<in> set [0..<16]" by simp
  moreover have "list_all (\<lambda>n. hex_value (hex_digit n) = Some n) [0..<16]" by code_simp
  ultimately show ?thesis by (simp only: list_all_iff)
qed

lemma hex_decode_encode: "hex_decode (hex_encode bs) = Some bs"
proof (induction bs)
  case (Cons b bs)
  have "unat b < 2 ^ LENGTH(8)" by (rule unsigned_less)
  then have b: "unat b div 16 < 16" "16 * (unat b div 16) + unat b mod 16 = unat b" by simp_all
  have "hex_decode (hex_encode (b # bs)) = Some (of_nat (16 * (unat b div 16) + unat b mod 16) # bs)"
    using Cons b(1) by (simp add: hex_byte_def hex_value_digit)
  then show ?case
    unfolding b(2) by simp
qed simp

text \<open>
  Checkpoints round trip: the latest checkpoint validates against an expectation exactly when the
  log has one, it decodes, and the two agree in every field and in the block hash, where hashes
  written in hexadecimal decode to themselves.
\<close>

theorem checkpoint_validation_exact:
  "decodeCheckpointHash (hex_encode (b # bs)) = Inr (b # bs) \<and>
   (ValidateLatestCheckpointAgainst unmarshal (Some l) expected = None \<longleftrightarrow>
     (\<exists>e ck h. LatestByType EntryCheckpoint l = Some e \<and> unmarshal (ge_Payload e) = Some ck \<and>
        decodeCheckpointHash (ck_BlockHashHex ck) = Inr h \<and> decodeCheckpointHash (ck_BlockHashHex expected) = Inr h \<and>
        ck_InstanceID ck = ck_InstanceID expected \<and> ck_LocalHeight ck = ck_LocalHeight expected \<and>
        ck_Rank ck = ck_Rank expected \<and> ck_Epoch ck = ck_Epoch expected \<and> ck_IsNil ck = ck_IsNil expected \<and>
        ck_TransitionCount ck = ck_TransitionCount expected))"
proof
  show "decodeCheckpointHash (hex_encode (b # bs)) = Inr (b # bs)"
    unfolding decodeCheckpointHash_def hex_decode_encode by (simp add: hex_byte_def)
  show "ValidateLatestCheckpointAgainst unmarshal (Some l) expected = None \<longleftrightarrow>
     (\<exists>e ck h. LatestByType EntryCheckpoint l = Some e \<and> unmarshal (ge_Payload e) = Some ck \<and>
        decodeCheckpointHash (ck_BlockHashHex ck) = Inr h \<and> decodeCheckpointHash (ck_BlockHashHex expected) = Inr h \<and>
        ck_InstanceID ck = ck_InstanceID expected \<and> ck_LocalHeight ck = ck_LocalHeight expected \<and>
        ck_Rank ck = ck_Rank expected \<and> ck_Epoch ck = ck_Epoch expected \<and> ck_IsNil ck = ck_IsNil expected \<and>
        ck_TransitionCount ck = ck_TransitionCount expected)"
    by (auto simp: ValidateLatestCheckpointAgainst_def GetLatestCheckpoint_def compareCheckpoint_def
        split: option.splits sum.splits)
qed

end
