(* ===== verification/Hydra_Config.thy ===== *)
theory Hydra_Config
  imports Engine_State "HOL-Library.Signed_Division"
begin

text \<open>
  The configurations of Hydra (hydra/lset.go): the L-set, the majority of validators that may
  propose a reconfiguration, with the faults observed of each validator, and the manager of the
  committed configuration, of the candidate built from pending membership requests, and of the
  history.  The clock is an argument; time stamps of configurations and requests are never read and
  left out; clones are the values themselves.
\<close>

section \<open>Configurations\<close>

record hydra_config =
  hc_ID :: u64
  hc_Validators :: validators
  hc_QuorumSize :: int
  hc_BlockHash :: bytes

text \<open>\<open>(2*len)/3 + 1\<close>, the quorum of a configuration without weights.\<close>

definition head_quorum :: "validators \<Rightarrow> int" where
  "head_quorum vs = 2 * int (gm_len vs) div 3 + 1"

section \<open>Classes of faults\<close>

text \<open>The constants are consecutive bytes; \<open>MarkFault\<close> compares them.\<close>

fun fault_code :: "FaultClass \<Rightarrow> nat" where
  "fault_code FaultClassNone = 0"
| "fault_code FaultClassDegraded = 1"
| "fault_code FaultClassUnavailable = 2"
| "fault_code FaultClassByzantine = 3"

lemma fault_code_inject: "fault_code c = fault_code d \<longleftrightarrow> c = d"
  by (cases c; cases d) simp_all

instantiation FaultClass :: linorder
begin

definition "c \<le> d \<longleftrightarrow> fault_code c \<le> fault_code d"

definition "c < d \<longleftrightarrow> fault_code c < fault_code d"

instance
  by standard (auto simp: less_eq_FaultClass_def less_FaultClass_def fault_code_inject)

end

definition BlocksProposal :: "FaultClass \<Rightarrow> bool" where
  "BlocksProposal c \<longleftrightarrow> c \<in> {FaultClassDegraded, FaultClassUnavailable, FaultClassByzantine}"

definition Evictable :: "FaultClass \<Rightarrow> bool" where
  "Evictable c \<longleftrightarrow> c \<in> {FaultClassUnavailable, FaultClassByzantine}"

text \<open>What the constants mean for a leader: marks only get worse, and both tests are thresholds.\<close>

lemma fault_thresholds:
  "BlocksProposal c \<longleftrightarrow> FaultClassDegraded \<le> c" "Evictable c \<longleftrightarrow> FaultClassUnavailable \<le> c"
  by (cases c; simp add: BlocksProposal_def Evictable_def less_eq_FaultClass_def)+

section \<open>The L-set\<close>

record mm_entry =
  me_Class :: FaultClass
  me_Timestamp :: int
  me_Count :: int

record lset_manager =
  lm_LSet :: validators
  lm_mmtable :: "(u64, mm_entry) fmap"
  lm_threshold :: int

definition calculateThreshold :: "nat \<Rightarrow> int" where
  "calculateThreshold n = (int n - 1) sdiv 3"

text \<open>The identifiers of the active validators in increasing order.\<close>

definition active_ids :: "validators \<Rightarrow> u64 list" where
  "active_ids vs = filter (\<lambda>i. case get_validator vs i of Some v \<Rightarrow> v_IsActive v | None \<Rightarrow> False) (gm_keys vs)"

definition rebuildLSet :: "validators \<Rightarrow> validators" where
  "rebuildLSet vs = (let ids = active_ids vs
     in fmfilter (\<lambda>i. i \<in> set (take (length ids div 2 + 1) ids)) vs)"

definition NewLSetManager :: "validators \<Rightarrow> lset_manager" where
  "NewLSetManager vs = \<lparr> lm_LSet = rebuildLSet vs, lm_mmtable = fmempty, lm_threshold = calculateThreshold (gm_len vs) \<rparr>"

definition IsInL :: "lset_manager \<Rightarrow> u64 \<Rightarrow> bool" where
  "IsInL lm i \<longleftrightarrow> i |\<in>| fmdom (lm_LSet lm)"

definition MarkFault :: "int \<Rightarrow> u64 \<Rightarrow> FaultClass \<Rightarrow> lset_manager \<Rightarrow> lset_manager" where
  "MarkFault now i class lm = (if class = FaultClassNone then lm
     else lm\<lparr>lm_mmtable := fmupd i (case fmlookup (lm_mmtable lm) i of
         None \<Rightarrow> \<lparr> me_Class = class, me_Timestamp = now, me_Count = 1 \<rparr>
       | Some e \<Rightarrow> \<lparr> me_Class = (if me_Class e < class then class else me_Class e), me_Timestamp = now,
           me_Count = me_Count e + 1 \<rparr>) (lm_mmtable lm)\<rparr>)"

definition GetFaultClass :: "lset_manager \<Rightarrow> u64 \<Rightarrow> FaultClass" where
  "GetFaultClass lm i = (case fmlookup (lm_mmtable lm) i of None \<Rightarrow> FaultClassNone | Some e \<Rightarrow> me_Class e)"

definition IsMarked :: "lset_manager \<Rightarrow> u64 \<Rightarrow> bool" where
  "IsMarked lm i \<longleftrightarrow> GetFaultClass lm i \<noteq> FaultClassNone"

definition HasEvictableFault :: "lset_manager \<Rightarrow> u64 \<Rightarrow> bool" where
  "HasEvictableFault lm i = Evictable (GetFaultClass lm i)"

definition ClearMarks :: "int \<Rightarrow> int \<Rightarrow> lset_manager \<Rightarrow> lset_manager" where
  "ClearMarks now duration lm = lm\<lparr>lm_mmtable := fmfilter
     (\<lambda>i. case fmlookup (lm_mmtable lm) i of Some e \<Rightarrow> \<not> now - me_Timestamp e > duration | None \<Rightarrow> True) (lm_mmtable lm)\<rparr>"

definition InstallConfiguration :: "hydra_config option \<Rightarrow> lset_manager \<Rightarrow> lset_manager" where
  "InstallConfiguration cp lm = (case cp of None \<Rightarrow> lm
     | Some c \<Rightarrow> \<lparr> lm_LSet = rebuildLSet (hc_Validators c), lm_mmtable = fmempty,
         lm_threshold = calculateThreshold (gm_len (hc_Validators c)) \<rparr>)"

definition IsAllowedToPropose :: "lset_manager \<Rightarrow> u64 \<Rightarrow> bool" where
  "IsAllowedToPropose lm i \<longleftrightarrow> \<not> BlocksProposal (GetFaultClass lm i)"

section \<open>The committed configuration and its candidate\<close>

datatype RequestType = RequestJoin | RequestLeave | RequestOther

record member_request =
  mr_Type :: RequestType
  mr_ID :: u64
  mr_PublicKey :: bytes
  mr_Power :: u64
  mr_Signature :: bytes
  mr_View :: u64

text \<open>
  \<open>Mvalid\<close> is set by the constructor and never to nil, so it is no option; the tests for a nil
  \<open>Mvalid\<close> always fail.
\<close>

record tcm =
  tm_Mvalid :: hydra_config
  tm_Mhigh :: "hydra_config option"
  tm_history :: "hydra_config list"
  tm_pendingJoins :: "(u64, member_request) fmap"
  tm_pendingLeaves :: "(u64, member_request) fmap"
  tm_currentConfigID :: u64
  tm_reservedConfigID :: u64

definition NewTemporaryConfigurationManager :: "hydra_config \<Rightarrow> tcm" where
  "NewTemporaryConfigurationManager c = \<lparr> tm_Mvalid = c, tm_Mhigh = Some c, tm_history = [c],
     tm_pendingJoins = fmempty, tm_pendingLeaves = fmempty, tm_currentConfigID = hc_ID c,
     tm_reservedConfigID = hc_ID c \<rparr>"

definition joined_member :: "member_request \<Rightarrow> validator" where
  "joined_member r = \<lparr> v_ID = mr_ID r, v_PublicKey = mr_PublicKey r, v_VRFPublicKey = [], v_Power = mr_Power r, v_IsActive = True \<rparr>"

text \<open>The requests are visited in the order of their identifiers; Go iterates in any order.\<close>

definition apply_joins :: "(u64, member_request) fmap \<Rightarrow> validators \<Rightarrow> validators" where
  "apply_joins joins vs = fold (\<lambda>i vs. case fmlookup joins i of
     Some r \<Rightarrow> if mr_Type r = RequestJoin then fmupd (mr_ID r) (Some (joined_member r)) vs else vs
   | None \<Rightarrow> vs) (gm_keys joins) vs"

definition apply_leaves :: "(u64, member_request) fmap \<Rightarrow> validators \<Rightarrow> validators" where
  "apply_leaves leaves vs = fold (\<lambda>i vs. case fmlookup leaves i of
     Some r \<Rightarrow> if mr_Type r = RequestLeave then fmdrop (mr_ID r) vs else vs
   | None \<Rightarrow> vs) (gm_keys leaves) vs"

definition ApplyMemberRequests :: "tcm \<Rightarrow> tcm \<times> hydra_config" where
  "ApplyMemberRequests t =
     (let vs = apply_leaves (tm_pendingLeaves t) (apply_joins (tm_pendingJoins t) (hc_Validators (tm_Mvalid t)));
          c = (tm_Mvalid t)\<lparr>hc_Validators := vs, hc_QuorumSize := head_quorum vs\<rparr>
      in (t\<lparr>tm_Mhigh := Some c\<rparr>, c))"

definition PromoteMhighToMvalid :: "tcm \<Rightarrow> string + tcm" where
  "PromoteMhighToMvalid t = (case tm_Mhigh t of None \<Rightarrow> Inl ''Mhigh is nil''
     | Some c \<Rightarrow>
        (let i = tm_currentConfigID t + 1; c' = c\<lparr>hc_ID := i\<rparr>
         in Inr (t\<lparr> tm_Mvalid := c', tm_currentConfigID := i, tm_reservedConfigID := i,
                    tm_history := tm_history t @ [c'], tm_pendingJoins := fmempty, tm_pendingLeaves := fmempty \<rparr>)))"

text \<open>
  The comparison of two configurations: it returns at the first pair of nil entries.  Go visits the
  identifiers in any order, here in increasing order.
\<close>

fun validators_equal :: "u64 list \<Rightarrow> validators \<Rightarrow> validators \<Rightarrow> bool" where
  "validators_equal [] a b = True"
| "validators_equal (i # is) a b = (case (fmlookup a i, fmlookup b i) of
     (Some (Some v), Some (Some w)) \<Rightarrow> v = w \<and> validators_equal is a b
   | (Some None, Some None) \<Rightarrow> True
   | _ \<Rightarrow> False)"

definition configsEqualHydra :: "hydra_config \<Rightarrow> hydra_config \<Rightarrow> bool" where
  "configsEqualHydra a b \<longleftrightarrow> hc_ID a = hc_ID b \<and> hc_QuorumSize a = hc_QuorumSize b \<and>
     gm_len (hc_Validators a) = gm_len (hc_Validators b) \<and>
     validators_equal (gm_keys (hc_Validators a)) (hc_Validators a) (hc_Validators b)"

definition InstallCommittedConfig :: "hydra_config option \<Rightarrow> tcm \<Rightarrow> string + tcm" where
  "InstallCommittedConfig cp t = (case cp of None \<Rightarrow> Inl ''configuration is nil''
     | Some c \<Rightarrow>
        if hc_ID (tm_Mvalid t) = hc_ID c
        then (if configsEqualHydra (tm_Mvalid t) c then Inr t else Inl ''conflicting committed config'')
        else Inr (t\<lparr> tm_Mvalid := c, tm_Mhigh := Some c, tm_currentConfigID := hc_ID c,
                     tm_reservedConfigID := (if tm_reservedConfigID t < hc_ID c then hc_ID c else tm_reservedConfigID t),
                     tm_history := tm_history t @ [c],
                     tm_pendingJoins := fmfilter (\<lambda>i. i |\<notin>| fmdom (hc_Validators c)) (tm_pendingJoins t),
                     tm_pendingLeaves := fmfilter (\<lambda>i. i |\<in>| fmdom (hc_Validators c)) (tm_pendingLeaves t) \<rparr>))"

definition GetMhigh :: "tcm \<Rightarrow> hydra_config" where
  "GetMhigh t = (case tm_Mhigh t of None \<Rightarrow> tm_Mvalid t | Some c \<Rightarrow> c)"

definition GetConfigurationByID :: "u64 \<Rightarrow> tcm \<Rightarrow> hydra_config option" where
  "GetConfigurationByID i t = (case find (\<lambda>c. hc_ID c = i) (rev (tm_history t)) of Some c \<Rightarrow> Some c
     | None \<Rightarrow> if hc_ID (tm_Mvalid t) = i then Some (tm_Mvalid t)
         else (case tm_Mhigh t of Some c \<Rightarrow> if hc_ID c = i then Some c else None | None \<Rightarrow> None))"

definition ReserveNextConfigID :: "tcm \<Rightarrow> tcm \<times> u64" where
  "ReserveNextConfigID t = (let i = tm_reservedConfigID t + 1 in (t\<lparr>tm_reservedConfigID := i\<rparr>, i))"

definition ObserveReservedConfigID :: "u64 \<Rightarrow> tcm \<Rightarrow> tcm" where
  "ObserveReservedConfigID i t = (if tm_reservedConfigID t < i then t\<lparr>tm_reservedConfigID := i\<rparr> else t)"

definition AddJoinRequest :: "member_request \<Rightarrow> tcm \<Rightarrow> string + tcm" where
  "AddJoinRequest r t = (if mr_ID r |\<in>| fmdom (tm_pendingJoins t) then Inl ''join request already pending''
     else Inr (t\<lparr>tm_pendingJoins := fmupd (mr_ID r) r (tm_pendingJoins t)\<rparr>))"

definition AddLeaveRequest :: "member_request \<Rightarrow> tcm \<Rightarrow> string + tcm" where
  "AddLeaveRequest r t = (if mr_ID r |\<in>| fmdom (tm_pendingLeaves t) then Inl ''leave request already pending''
     else Inr (t\<lparr>tm_pendingLeaves := fmupd (mr_ID r) r (tm_pendingLeaves t)\<rparr>))"

definition RemoveJoinRequest :: "u64 \<Rightarrow> tcm \<Rightarrow> tcm" where
  "RemoveJoinRequest i t = t\<lparr>tm_pendingJoins := fmdrop i (tm_pendingJoins t)\<rparr>"

definition RemoveLeaveRequest :: "u64 \<Rightarrow> tcm \<Rightarrow> tcm" where
  "RemoveLeaveRequest i t = t\<lparr>tm_pendingLeaves := fmdrop i (tm_pendingLeaves t)\<rparr>"

text \<open>The size test of lset.go and of discovery.go.\<close>

definition IsValidConfiguration :: "hydra_config \<Rightarrow> bool" where
  "IsValidConfiguration c = (let n = int (gm_len (hc_Validators c))
     in if n < 3 then False else n \<ge> 3 * ((n - 1) sdiv 3) + 1)"

end
