(* ===== verification/Hydra_Transition.thy ===== *)
theory Hydra_Transition
  imports Hydra_Config
begin

text \<open>
  The automatic transition of Hydra (hydra/autotransition.go): members of the L-set propose to
  remove validators with evictable faults, every node votes for the proposals it accepts, and a
  quorum of votes over one digest, collected or received in a commit message, hands a candidate
  configuration to the transition callback.  Every handler runs under the lock of the manager and is
  one step; broadcast messages and calls of the callback are appended to \<open>at_out\<close>.  The JSON encoder,
  SHA-256 and Ed25519 are fields of \<open>hydra_env\<close>; \<open>None\<close> is a panic of Ed25519 on a key of the wrong
  length.  The L-set manager and the configuration manager are shared with the Hydra manager and
  are fields of the state.
\<close>

section \<open>Messages and state\<close>

datatype AutoTransitionType = AutoPropose | AutoVote | AutoCommit | AutoOther

text \<open>A vote of hydra has the fields of \<open>types.HydraAutoVote\<close>.\<close>

record transition_proof =
  tp_View :: u64
  tp_AutoVotes :: "(u64, hydra_auto_vote option) fmap"
  tp_QuorumProof :: bytes
  tp_NewConfigID :: u64
  tp_Leaves :: "u64 list"
  tp_BlockHash :: bytes

record auto_message =
  am_Type :: AutoTransitionType
  am_SenderID :: u64
  am_View :: u64
  am_BlockHash :: bytes
  am_Leaves :: "u64 list"
  am_NewConfigID :: u64
  am_Proof :: "transition_proof option"
  am_Signature :: bytes

record auto_collector =
  ac_voters :: "u64 fset"
  ac_votes :: "(u64, hydra_auto_vote) fmap"
  ac_pendingVotes :: "(u64, auto_message) fmap"
  ac_done :: bool
  ac_quorum :: int
  ac_timestamp :: int

record pending_auto =
  pa_config :: hydra_config
  pa_leaves :: "u64 list"
  pa_blockHash :: bytes

datatype atm_event = AtmBroadcast auto_message | AtmTransition hydra_config transition_proof

record atm =
  at_lset :: lset_manager
  at_tcm :: tcm
  at_network :: bool
  at_privateKey :: bytes
  at_pending :: "(u64, pending_auto) fmap"
  at_isRunning :: bool
  at_nodeID :: u64
  at_collectors :: "(u64, auto_collector) fmap"
  at_recent :: "(AutoTransitionType \<times> u64 \<times> u64) fset"
  at_finalizedViews :: "u64 fset"
  at_finalizedConfigIDs :: "u64 fset"
  at_lastCommittedView :: u64
  at_onTransition :: bool
  at_out :: "atm_event list"

record hydra_env =
  he_sha256 :: "bytes \<Rightarrow> bytes"
  he_json :: "auto_message \<Rightarrow> bytes option"
  he_sign :: "bytes \<Rightarrow> bytes \<Rightarrow> bytes"
  he_verify :: "bytes \<Rightarrow> bytes \<Rightarrow> bytes \<Rightarrow> bool"

definition NewAutoTransitionManager :: "lset_manager \<Rightarrow> tcm \<Rightarrow> bool \<Rightarrow> atm" where
  "NewAutoTransitionManager lm t net = \<lparr> at_lset = lm, at_tcm = t, at_network = net, at_privateKey = [],
     at_pending = fmempty, at_isRunning = False, at_nodeID = 0, at_collectors = fmempty, at_recent = {||},
     at_finalizedViews = {||}, at_finalizedConfigIDs = {||}, at_lastCommittedView = 0,
     at_onTransition = False, at_out = [] \<rparr>"

definition atm_SetNodeID :: "u64 \<Rightarrow> atm \<Rightarrow> atm" where
  "atm_SetNodeID i a = a\<lparr>at_nodeID := i\<rparr>"

definition atm_SetPrivateKey :: "bytes \<Rightarrow> atm \<Rightarrow> atm" where
  "atm_SetPrivateKey key a = a\<lparr>at_privateKey := key\<rparr>"

definition atm_Start :: "atm \<Rightarrow> atm" where
  "atm_Start a = a\<lparr>at_isRunning := True\<rparr>"

definition atm_Stop :: "atm \<Rightarrow> atm" where
  "atm_Stop a = a\<lparr>at_isRunning := False\<rparr>"

definition OnTransition :: "atm \<Rightarrow> atm" where
  "OnTransition a = a\<lparr>at_onTransition := True\<rparr>"

abbreviation at_validators :: "atm \<Rightarrow> validators" where
  "at_validators a \<equiv> hc_Validators (tm_Mvalid (at_tcm a))"

definition atm_emit :: "atm_event list \<Rightarrow> atm \<Rightarrow> atm" where
  "atm_emit xs a = a\<lparr>at_out := at_out a @ xs\<rparr>"

section \<open>Digests and signatures\<close>

definition autoTransitionDigest :: "(bytes \<Rightarrow> bytes) \<Rightarrow> u64 \<Rightarrow> u64 list \<Rightarrow> bytes \<Rightarrow> u64 \<Rightarrow> bytes" where
  "autoTransitionDigest sha256 view leaves blockHash newConfigID =
     sha256 (be64 view @ be64 newConfigID @ blockHash @ concat (map be64 (sort leaves)))"

definition sameUint64Set :: "u64 list \<Rightarrow> u64 list \<Rightarrow> bool" where
  "sameUint64Set xs ys \<longleftrightarrow> length xs = length ys \<and> sort xs = sort ys"

text \<open>The empty digest stands for nil; only votes for a numbered configuration have one.\<close>

definition VoteDigest :: "hydra_env \<Rightarrow> auto_message \<Rightarrow> bytes" where
  "VoteDigest env msg = (if am_Type msg \<noteq> AutoVote \<or> am_NewConfigID msg = 0 then []
     else autoTransitionDigest (he_sha256 env) (am_View msg) (am_Leaves msg) (am_BlockHash msg) (am_NewConfigID msg))"

definition am_SigningBytes :: "hydra_env \<Rightarrow> auto_message \<Rightarrow> bytes option" where
  "am_SigningBytes env msg = he_json env (msg\<lparr>am_Signature := []\<rparr>)"

definition signed_payload :: "hydra_env \<Rightarrow> auto_message \<Rightarrow> bytes option" where
  "signed_payload env msg = (if VoteDigest env msg \<noteq> [] then Some (VoteDigest env msg) else am_SigningBytes env msg)"

text \<open>The outer \<open>None\<close> is the panic of \<open>ed25519.Sign\<close> on a key that is not 64 bytes long.\<close>

definition am_Sign :: "hydra_env \<Rightarrow> bytes \<Rightarrow> auto_message \<Rightarrow> (string + auto_message) option" where
  "am_Sign env key msg =
     (if key = [] then Some (Inl ''auto-transition private key is not configured'')
      else case signed_payload env msg of None \<Rightarrow> Some (Inl ''marshal'')
        | Some payload \<Rightarrow> if length key \<noteq> 64 then None
            else Some (Inr (msg\<lparr>am_Signature := he_sign env key payload\<rparr>)))"

definition am_VerifySignature :: "hydra_env \<Rightarrow> bytes \<Rightarrow> auto_message \<Rightarrow> bool" where
  "am_VerifySignature env key msg =
     (if am_Signature msg = [] \<or> length key \<noteq> 32 then False
      else case signed_payload env msg of None \<Rightarrow> False
        | Some payload \<Rightarrow> he_verify env key payload (am_Signature msg))"

section \<open>Checks\<close>

definition verifyMessageSignature :: "hydra_env \<Rightarrow> atm \<Rightarrow> auto_message \<Rightarrow> string option" where
  "verifyMessageSignature env a msg = (case get_validator (at_validators a) (am_SenderID msg) of
     None \<Rightarrow> Some ''message from non-validator''
   | Some v \<Rightarrow> if am_VerifySignature env (v_PublicKey v) msg then None else Some ''invalid signature'')"

definition rejectStaleView :: "atm \<Rightarrow> u64 \<Rightarrow> string option" where
  "rejectStaleView a view = failed_check
     [(view |\<notin>| at_finalizedViews a, ''finalized auto-transition view''),
      (at_lastCommittedView a < view, ''stale auto-transition view'')]"

definition message_key :: "auto_message \<Rightarrow> AutoTransitionType \<times> u64 \<times> u64" where
  "message_key msg = (am_Type msg, am_SenderID msg, am_View msg)"

definition rejectReplay :: "auto_message \<Rightarrow> atm \<Rightarrow> string + atm" where
  "rejectReplay msg a = (if message_key msg |\<in>| at_recent a then Inl ''replayed message''
     else Inr (a\<lparr>at_recent := finsert (message_key msg) (at_recent a)\<rparr>))"

definition validateActiveValidator :: "atm \<Rightarrow> u64 \<Rightarrow> string option" where
  "validateActiveValidator a i = (if i |\<in>| fmdom (at_validators a) then None else Some ''message from non-validator'')"

text \<open>The loops over the targets with the set of those seen so far.\<close>

fun check_leaves :: "(u64 \<Rightarrow> string option) \<Rightarrow> u64 fset \<Rightarrow> u64 list \<Rightarrow> string option" where
  "check_leaves bad seen [] = None"
| "check_leaves bad seen (i # is) = (if i |\<in>| seen then Some ''duplicate leave target''
     else case bad i of Some r \<Rightarrow> Some r | None \<Rightarrow> check_leaves bad (finsert i seen) is)"

definition validateAutoProposeLeaves :: "atm \<Rightarrow> auto_message \<Rightarrow> string option" where
  "validateAutoProposeLeaves a msg =
     (if am_Leaves msg = [] then Some ''auto-propose missing leave targets''
      else check_leaves (\<lambda>i. failed_check
        [(IsInL (at_lset a) i, ''auto-propose targets node outside current L-set''),
         (Evictable (GetFaultClass (at_lset a) i), ''auto-propose targets non-evictable node'')]) {||} (am_Leaves msg))"

definition validateAutoCommitLeaves :: "hydra_config \<Rightarrow> lset_manager \<Rightarrow> u64 list \<Rightarrow> string option" where
  "validateAutoCommitLeaves c lm leaves =
     (if leaves = [] then Some ''auto-commit missing leave targets''
      else check_leaves (\<lambda>i. failed_check
        [(i |\<in>| fmdom (hc_Validators c), ''auto-commit targets unknown validator''),
         (IsInL lm i, ''auto-commit targets node outside current L-set''),
         (Evictable (GetFaultClass lm i), ''auto-commit targets non-evictable node'')]) {||} leaves)"

definition validateAutoVoteForPending :: "hydra_env \<Rightarrow> auto_message \<Rightarrow> pending_auto \<Rightarrow> string + bytes" where
  "validateAutoVoteForPending env msg p =
     (let expected = autoTransitionDigest (he_sha256 env) (am_View msg) (pa_leaves p) (pa_blockHash p) (hc_ID (pa_config p))
      in case failed_check
        [(am_NewConfigID msg = hc_ID (pa_config p), ''auto-vote config mismatch''),
         (am_BlockHash msg = pa_blockHash p, ''auto-vote block hash mismatch''),
         (sameUint64Set (am_Leaves msg) (pa_leaves p), ''auto-vote leaves mismatch''),
         (VoteDigest env msg = expected, ''auto-vote digest mismatch'')] of
        Some r \<Rightarrow> Inl r | None \<Rightarrow> Inr expected)"

section \<open>Candidates and collectors\<close>

definition without :: "u64 list \<Rightarrow> hydra_config \<Rightarrow> u64 \<Rightarrow> hydra_config" where
  "without leaves c i = (let vs = fmdrop_fset (fset_of_list leaves) (hc_Validators c)
     in c\<lparr> hc_Validators := vs, hc_QuorumSize := head_quorum vs, hc_ID := i \<rparr>)"

definition storePendingAutoConfig :: "u64 \<Rightarrow> hydra_config \<Rightarrow> u64 list \<Rightarrow> bytes \<Rightarrow> atm \<Rightarrow> atm" where
  "storePendingAutoConfig view c leaves blockHash a =
     a\<lparr>at_pending := fmupd view \<lparr> pa_config = c, pa_leaves = leaves, pa_blockHash = blockHash \<rparr> (at_pending a)\<rparr>"

definition buildPendingAutoTransitionForCommit ::
  "hydra_config \<Rightarrow> lset_manager \<Rightarrow> u64 list \<Rightarrow> bytes \<Rightarrow> u64 \<Rightarrow> string + pending_auto" where
  "buildPendingAutoTransitionForCommit c lm leaves blockHash i =
     (if i = 0 then Inl ''auto-commit missing new config id''
      else if i \<le> hc_ID c then Inl ''auto-commit new config id must exceed committed config id''
      else case validateAutoCommitLeaves c lm leaves of Some r \<Rightarrow> Inl r
        | None \<Rightarrow> Inr \<lparr> pa_config = without leaves c i, pa_leaves = leaves, pa_blockHash = blockHash \<rparr>)"

definition new_auto_collector :: "int \<Rightarrow> atm \<Rightarrow> auto_collector" where
  "new_auto_collector now a = \<lparr> ac_voters = {||}, ac_votes = fmempty, ac_pendingVotes = fmempty, ac_done = False,
     ac_quorum = head_quorum (at_validators a), ac_timestamp = now \<rparr>"

definition ensure_collector :: "int \<Rightarrow> u64 \<Rightarrow> atm \<Rightarrow> atm" where
  "ensure_collector now view a = (if view |\<in>| fmdom (at_collectors a) then a
     else a\<lparr>at_collectors := fmupd view (new_auto_collector now a) (at_collectors a)\<rparr>)"

definition collect_vote :: "auto_message \<Rightarrow> bytes \<Rightarrow> u64 \<Rightarrow> auto_collector \<Rightarrow> auto_collector" where
  "collect_vote msg digest i c = c\<lparr> ac_voters := finsert i (ac_voters c),
     ac_votes := fmupd i \<lparr> hav_SenderID = am_SenderID msg, hav_Signature = am_Signature msg, hav_Digest = digest \<rparr> (ac_votes c) \<rparr>"

text \<open>The buffered votes of a view are checked against its candidate and dropped.\<close>

definition bind_vote :: "hydra_env \<Rightarrow> pending_auto \<Rightarrow> u64 \<Rightarrow> auto_collector \<Rightarrow> auto_collector" where
  "bind_vote env p i c = (case fmlookup (ac_pendingVotes c) i of None \<Rightarrow> c
     | Some msg \<Rightarrow> (case validateAutoVoteForPending env msg p of
          Inl _ \<Rightarrow> c\<lparr>ac_pendingVotes := fmdrop i (ac_pendingVotes c)\<rparr>
        | Inr digest \<Rightarrow> (collect_vote msg digest i c)\<lparr>ac_pendingVotes := fmdrop i (ac_pendingVotes c)\<rparr>))"

definition bindPendingVotesLocked :: "hydra_env \<Rightarrow> u64 \<Rightarrow> atm \<Rightarrow> atm" where
  "bindPendingVotesLocked env view a = (case (fmlookup (at_collectors a) view, fmlookup (at_pending a) view) of
     (Some c, Some p) \<Rightarrow>
       if gm_len (ac_pendingVotes c) = 0 then a
       else a\<lparr>at_collectors := fmupd view (fold (bind_vote env p) (gm_keys (ac_pendingVotes c)) c) (at_collectors a)\<rparr>
   | _ \<Rightarrow> a)"

definition transitionProofForView :: "u64 \<Rightarrow> auto_collector \<Rightarrow> pending_auto \<Rightarrow> transition_proof" where
  "transitionProofForView view c p = \<lparr> tp_View = view, tp_AutoVotes = fmmap Some (ac_votes c), tp_QuorumProof = [],
     tp_NewConfigID = hc_ID (pa_config p), tp_Leaves = pa_leaves p, tp_BlockHash = pa_blockHash p \<rparr>"

definition commitAutoTransitionLocked :: "u64 \<Rightarrow> pending_auto \<Rightarrow> atm \<Rightarrow> atm" where
  "commitAutoTransitionLocked view p a =
     a\<lparr> at_finalizedViews := finsert view (at_finalizedViews a),
        at_finalizedConfigIDs := finsert (hc_ID (pa_config p)) (at_finalizedConfigIDs a),
        at_lastCommittedView := (if at_lastCommittedView a < view then view else at_lastCommittedView a),
        at_pending := fmdrop view (at_pending a), at_collectors := fmdrop view (at_collectors a) \<rparr>"

text \<open>The call of the transition callback, when one is registered.\<close>

definition call_back :: "hydra_config \<Rightarrow> transition_proof \<Rightarrow> atm \<Rightarrow> atm" where
  "call_back c proof a = (if at_onTransition a then atm_emit [AtmTransition c proof] a else a)"

text \<open>The error, or the state after a commit (with True) or without one.\<close>

definition commitReadyForView :: "u64 \<Rightarrow> atm \<Rightarrow> string + (atm \<times> bool)" where
  "commitReadyForView view a = (case fmlookup (at_collectors a) view of None \<Rightarrow> Inr (a, False)
     | Some c \<Rightarrow>
        if ac_done c \<or> int (gm_len (ac_votes c)) < ac_quorum c then Inr (a, False)
        else case fmlookup (at_pending a) view of None \<Rightarrow> Inl ''no pending auto configuration''
          | Some p \<Rightarrow> Inr (call_back (pa_config p) (transitionProofForView view c p)
                (commitAutoTransitionLocked view p a), True))"

section \<open>Handlers\<close>

type_synonym atm_result = "(atm \<times> string option) option"

text \<open>Targets of a trigger, in the order of their identifiers; Go iterates over a map.\<close>

definition identifyMisbehaving :: "atm \<Rightarrow> u64 list" where
  "identifyMisbehaving a = filter (HasEvictableFault (at_lset a)) (gm_keys (lm_LSet (at_lset a)))"

definition blank_auto :: "AutoTransitionType \<Rightarrow> atm \<Rightarrow> u64 \<Rightarrow> auto_message" where
  "blank_auto ty a view = \<lparr> am_Type = ty, am_SenderID = at_nodeID a, am_View = view, am_BlockHash = [], am_Leaves = [],
     am_NewConfigID = 0, am_Proof = None, am_Signature = [] \<rparr>"

definition sign_and_broadcast :: "hydra_env \<Rightarrow> auto_message \<Rightarrow> atm \<Rightarrow> atm_result" where
  "sign_and_broadcast env msg a = (case am_Sign env (at_privateKey a) msg of None \<Rightarrow> None
     | Some (Inl err) \<Rightarrow> Some (a, Some err)
     | Some (Inr m) \<Rightarrow> Some (atm_emit [AtmBroadcast m] a, None))"

definition TriggerAutoTransition :: "hydra_env \<Rightarrow> u64 \<Rightarrow> atm \<Rightarrow> atm_result" where
  "TriggerAutoTransition env view a =
     (if \<not> IsInL (at_lset a) (at_nodeID a) then Some (a, Some ''only L-set members can trigger auto-transition'')
      else if identifyMisbehaving a = [] then Some (a, Some ''auto-transition requires at least one evictable target'')
      else if \<not> at_network a then Some (a, None)
      else sign_and_broadcast env ((blank_auto AutoPropose a view)\<lparr>am_Leaves := identifyMisbehaving a\<rparr>) a)"

definition cast_vote :: "hydra_env \<Rightarrow> u64 \<Rightarrow> atm \<Rightarrow> atm_result" where
  "cast_vote env view a =
     (if \<not> at_network a then Some (a, None)
      else case fmlookup (at_pending a) view of None \<Rightarrow> Some (a, Some ''missing pending auto configuration for vote'')
        | Some p \<Rightarrow>
           if hc_ID (pa_config p) = 0 then Some (a, Some ''missing pending auto configuration for vote'')
           else sign_and_broadcast env ((blank_auto AutoVote a view)\<lparr> am_BlockHash := pa_blockHash p,
             am_Leaves := pa_leaves p, am_NewConfigID := hc_ID (pa_config p) \<rparr>) a)"

text \<open>The candidate of a proposal: the existing one of the view when it agrees, or a new one.\<close>

definition propose_candidate :: "auto_message \<Rightarrow> atm \<Rightarrow> string + atm" where
  "propose_candidate msg a = (case fmlookup (at_pending a) (am_View msg) of
     Some p \<Rightarrow> if \<not> sameUint64Set (pa_leaves p) (am_Leaves msg) \<or> pa_blockHash p \<noteq> am_BlockHash msg
        then Inl ''conflicting auto-propose candidate'' else Inr a
   | None \<Rightarrow> (case ReserveNextConfigID (at_tcm a) of (t, i) \<Rightarrow>
        Inr (storePendingAutoConfig (am_View msg) (without (am_Leaves msg) (tm_Mvalid (at_tcm a)) i)
          (am_Leaves msg) (am_BlockHash msg) (a\<lparr>at_tcm := t\<rparr>))))"

definition handleAutoPropose :: "hydra_env \<Rightarrow> int \<Rightarrow> auto_message \<Rightarrow> atm \<Rightarrow> atm_result" where
  "handleAutoPropose env now msg a =
     (if \<not> IsInL (at_lset a) (am_SenderID msg) then Some (a, Some ''sender not in L-set'')
      else case rejectStaleView a (am_View msg) of Some r \<Rightarrow> Some (a, Some r)
      | None \<Rightarrow> (case rejectReplay msg a of Inl r \<Rightarrow> Some (a, Some r)
      | Inr a1 \<Rightarrow> (case validateActiveValidator a1 (am_SenderID msg) of Some r \<Rightarrow> Some (a1, Some r)
      | None \<Rightarrow> (case validateAutoProposeLeaves a1 msg of Some r \<Rightarrow> Some (a1, Some r)
      | None \<Rightarrow> (case propose_candidate msg a1 of Inl r \<Rightarrow> Some (a1, Some r)
      | Inr a2 \<Rightarrow>
         (let a3 = bindPendingVotesLocked env (am_View msg) (ensure_collector now (am_View msg) a2)
          in case commitReadyForView (am_View msg) a3 of Inl r \<Rightarrow> Some (a3, Some r)
            | Inr (a4, True) \<Rightarrow> Some (a4, None)
            | Inr (a4, False) \<Rightarrow> cast_vote env (am_View msg) a4))))))"

definition handleAutoVote :: "hydra_env \<Rightarrow> int \<Rightarrow> auto_message \<Rightarrow> atm \<Rightarrow> atm_result" where
  "handleAutoVote env now msg a =
     (case rejectStaleView a (am_View msg) of Some r \<Rightarrow> Some (a, Some r)
      | None \<Rightarrow> (case validateActiveValidator a (am_SenderID msg) of Some r \<Rightarrow> Some (a, Some r)
      | None \<Rightarrow> (case fmlookup (at_pending a) (am_View msg) of
          None \<Rightarrow> Some (a, Some (if am_Leaves msg = [] then ''auto-vote missing leave targets''
            else if am_NewConfigID msg = 0 then ''auto-vote missing new config id''
            else ''auto-vote without pending proposal rejected''))
        | Some p \<Rightarrow> (case rejectReplay msg a of Inl r \<Rightarrow> Some (a, Some r)
          | Inr a1 \<Rightarrow>
             (let a2 = ensure_collector now (am_View msg) a1
              in case fmlookup (at_collectors a2) (am_View msg) of None \<Rightarrow> Some (a2, None)
               | Some c \<Rightarrow>
                  if ac_done c then Some (a2, None)
                  else if am_SenderID msg |\<in>| ac_voters c then Some (a2, Some ''replayed message'')
                  else case validateAutoVoteForPending env msg p of Inl r \<Rightarrow> Some (a2, Some r)
                    | Inr digest \<Rightarrow>
                       (let a3 = a2\<lparr>at_collectors := fmupd (am_View msg) (collect_vote msg digest (am_SenderID msg) c)
                              (at_collectors a2)\<rparr>
                        in case commitReadyForView (am_View msg) a3 of Inl r \<Rightarrow> Some (a3, Some r)
                          | Inr (a4, formed) \<Rightarrow> Some (a4, None)))))))"


subsection \<open>Commit messages\<close>

text \<open>The leaves of a proof, or of the message when the proof has none.\<close>

definition proof_leaves :: "auto_message \<Rightarrow> transition_proof \<Rightarrow> u64 list" where
  "proof_leaves msg proof = (if am_Leaves msg \<noteq> [] \<and> tp_Leaves proof = [] then am_Leaves msg else tp_Leaves proof)"

definition commit_checks :: "atm \<Rightarrow> auto_message \<Rightarrow> transition_proof \<Rightarrow> string option" where
  "commit_checks a msg proof = failed_check
     [(gm_len (tp_AutoVotes proof) \<noteq> 0, ''auto-commit without proof rejected''),
      (tp_View proof = am_View msg, ''auto-commit proof view mismatch''),
      (\<not> (am_NewConfigID msg \<noteq> 0 \<and> tp_NewConfigID proof \<noteq> 0 \<and> am_NewConfigID msg \<noteq> tp_NewConfigID proof),
         ''auto-commit top-level/proof config id mismatch''),
      (\<not> (am_Leaves msg \<noteq> [] \<and> tp_Leaves proof \<noteq> [] \<and> \<not> sameUint64Set (am_Leaves msg) (tp_Leaves proof)),
         ''auto-commit top-level/proof leaves mismatch''),
      (tp_BlockHash proof = am_BlockHash msg, ''auto-commit proof block hash mismatch''),
      (head_quorum (at_validators a) \<le> int (gm_len (tp_AutoVotes proof)), ''auto-commit proof has insufficient votes''),
      (tp_NewConfigID proof |\<notin>| at_finalizedConfigIDs a, ''auto-commit proof config id already finalized'')]"

definition id_collides :: "u64 \<Rightarrow> u64 \<Rightarrow> atm \<Rightarrow> bool" where
  "id_collides view i a \<longleftrightarrow> \<not> fmpred (\<lambda>v p. v = view \<or> hc_ID (pa_config p) \<noteq> i) (at_pending a)"

text \<open>The candidate a proof is for: built and stored when the view has none, else the one it has.\<close>

definition commit_candidate :: "auto_message \<Rightarrow> transition_proof \<Rightarrow> atm \<Rightarrow> string + (atm \<times> pending_auto)" where
  "commit_candidate msg proof a = (case fmlookup (at_pending a) (am_View msg) of
     None \<Rightarrow> (case buildPendingAutoTransitionForCommit (tm_Mvalid (at_tcm a)) (at_lset a) (proof_leaves msg proof)
            (tp_BlockHash proof) (tp_NewConfigID proof) of Inl r \<Rightarrow> Inl r
        | Inr p \<Rightarrow>
           if id_collides (am_View msg) (hc_ID (pa_config p)) a
           then Inl ''auto-commit proof config id collides with pending view''
           else Inr (a\<lparr>at_pending := fmupd (am_View msg) p (at_pending a)\<rparr>, p))
   | Some p \<Rightarrow>
       if \<not> sameUint64Set (proof_leaves msg proof) (pa_leaves p) then Inl ''auto-commit leaves mismatch for pending view''
       else if pa_blockHash p \<noteq> tp_BlockHash proof then Inl ''auto-commit block hash mismatch for pending view''
       else Inr (a, p))"

text \<open>The identifier of the candidate is taken from the proof when that has one.\<close>

definition adopt_config_id :: "auto_message \<Rightarrow> transition_proof \<Rightarrow> pending_auto \<Rightarrow> atm \<Rightarrow> string + (atm \<times> pending_auto)" where
  "adopt_config_id msg proof p a =
     (let i = tp_NewConfigID proof; view = am_View msg
      in if i = 0 then Inr (a\<lparr>at_pending := fmupd view (p\<lparr>pa_blockHash := tp_BlockHash proof\<rparr>) (at_pending a)\<rparr>,
              p\<lparr>pa_blockHash := tp_BlockHash proof\<rparr>)
         else if i \<le> hc_ID (tm_Mvalid (at_tcm a)) then Inl ''auto-commit proof config id must exceed committed config id''
         else if hc_ID (pa_config p) \<noteq> 0 \<and> i \<noteq> hc_ID (pa_config p) then Inl ''auto-commit proof config id mismatch''
         else if id_collides view i a then Inl ''auto-commit proof config id collides with pending view''
         else (let p' = p\<lparr> pa_config := (pa_config p)\<lparr>hc_ID := i\<rparr>, pa_blockHash := tp_BlockHash proof \<rparr>
           in Inr (a\<lparr> at_tcm := ObserveReservedConfigID i (at_tcm a), at_pending := fmupd view p' (at_pending a) \<rparr>, p')))"

text \<open>
  The check of the votes of a proof: no reason when all hold, \<open>None\<close> for the panic of
  \<open>ed25519.Verify\<close>.  Go visits the votes in any order, here in the order of the voters.
\<close>

fun check_votes :: "hydra_env \<Rightarrow> validators \<Rightarrow> bytes \<Rightarrow> (u64, hydra_auto_vote option) fmap \<Rightarrow> u64 list \<Rightarrow> string option option" where
  "check_votes env vs digest votes [] = Some None"
| "check_votes env vs digest votes (i # is) = (case get_validator vs i of
     None \<Rightarrow> Some (Some ''auto-commit proof includes non-validator'')
   | Some v \<Rightarrow> (case fmlookup votes i of
        Some (Some w) \<Rightarrow>
          if hav_SenderID w \<noteq> i then Some (Some ''auto-commit proof signer mismatch'')
          else if hav_Digest w = [] then Some (Some ''auto-commit proof missing digest'')
          else if hav_Digest w \<noteq> digest then Some (Some ''auto-commit proof digest mismatch'')
          else if length (v_PublicKey v) \<noteq> 32 then None
          else if \<not> he_verify env (v_PublicKey v) digest (hav_Signature w)
            then Some (Some ''auto-commit proof signature invalid'')
          else check_votes env vs digest votes is
      | _ \<Rightarrow> Some (Some ''auto-commit proof missing vote'')))"

definition record_proof_votes :: "int \<Rightarrow> u64 \<Rightarrow> (u64, hydra_auto_vote option) fmap \<Rightarrow> atm \<Rightarrow> atm" where
  "record_proof_votes now view votes a =
     (let a1 = ensure_collector now view a
      in case fmlookup (at_collectors a1) view of None \<Rightarrow> a1
       | Some c \<Rightarrow> a1\<lparr>at_collectors := fmupd view
           (fold (\<lambda>i c. case fmlookup votes i of
               Some (Some w) \<Rightarrow> c\<lparr> ac_voters := finsert i (ac_voters c), ac_votes := fmupd i w (ac_votes c) \<rparr>
             | _ \<Rightarrow> c\<lparr>ac_voters := finsert i (ac_voters c)\<rparr>) (gm_keys votes) c) (at_collectors a1)\<rparr>)"

definition commit_proof :: "transition_proof \<Rightarrow> pending_auto \<Rightarrow> transition_proof" where
  "commit_proof proof p = proof\<lparr> tp_NewConfigID := (if tp_NewConfigID proof = 0 then hc_ID (pa_config p) else tp_NewConfigID proof),
     tp_Leaves := pa_leaves p \<rparr>"

definition handleAutoCommit :: "hydra_env \<Rightarrow> int \<Rightarrow> auto_message \<Rightarrow> atm \<Rightarrow> atm_result" where
  "handleAutoCommit env now msg a =
     (case rejectStaleView a (am_View msg) of Some r \<Rightarrow> Some (a, Some r)
      | None \<Rightarrow> (case rejectReplay msg a of Inl r \<Rightarrow> Some (a, Some r)
      | Inr a1 \<Rightarrow> (case validateActiveValidator a1 (am_SenderID msg) of Some r \<Rightarrow> Some (a1, Some r)
      | None \<Rightarrow>
         if \<not> IsInL (at_lset a1) (am_SenderID msg) then Some (a1, Some ''sender not in L-set'')
         else case am_Proof msg of None \<Rightarrow> Some (a1, Some ''auto-commit without proof rejected'')
         | Some proof \<Rightarrow> (case commit_checks a1 msg proof of Some r \<Rightarrow> Some (a1, Some r)
         | None \<Rightarrow> (case commit_candidate msg proof a1 of Inl r \<Rightarrow> Some (a1, Some r)
         | Inr (a2, p) \<Rightarrow> (case adopt_config_id msg proof p a2 of Inl r \<Rightarrow> Some (a2, Some r)
         | Inr (a3, p') \<Rightarrow>
            (case check_votes env (at_validators a3)
                (autoTransitionDigest (he_sha256 env) (am_View msg) (pa_leaves p') (pa_blockHash p') (hc_ID (pa_config p')))
                (tp_AutoVotes proof) (gm_keys (tp_AutoVotes proof)) of
               None \<Rightarrow> None
             | Some (Some r) \<Rightarrow> Some (a3, Some r)
             | Some None \<Rightarrow>
                 Some (call_back (pa_config p') (commit_proof proof p')
                   (commitAutoTransitionLocked (am_View msg) p'
                     (record_proof_votes now (am_View msg) (tp_AutoVotes proof) a3)), None))))))))"

definition HandleAutoTransitionMessage :: "hydra_env \<Rightarrow> int \<Rightarrow> auto_message option \<Rightarrow> atm \<Rightarrow> atm_result" where
  "HandleAutoTransitionMessage env now mp a = (case mp of None \<Rightarrow> Some (a, Some ''auto-transition message is nil'')
     | Some msg \<Rightarrow> (case verifyMessageSignature env a msg of Some r \<Rightarrow> Some (a, Some r)
        | None \<Rightarrow> (case am_Type msg of
            AutoPropose \<Rightarrow> handleAutoPropose env now msg a
          | AutoVote \<Rightarrow> handleAutoVote env now msg a
          | AutoCommit \<Rightarrow> handleAutoCommit env now msg a
          | AutoOther \<Rightarrow> Some (a, None))))"

definition atm_GCCollectors :: "int \<Rightarrow> int \<Rightarrow> atm \<Rightarrow> atm" where
  "atm_GCCollectors now maxAge a = a\<lparr>
     at_collectors := fmfilter (\<lambda>view. case fmlookup (at_collectors a) view of
        Some c \<Rightarrow> \<not> now - ac_timestamp c > maxAge | None \<Rightarrow> True) (at_collectors a),
     at_recent := ffilter (\<lambda>(ty, i, view). \<not> view \<le> at_lastCommittedView a) (at_recent a) \<rparr>"

end
