(* ===== verification/Hydra_Safety.thy ===== *)
theory Hydra_Safety
  imports Hydra_Transition
begin

text \<open>
  What automatic transitions guarantee (hydra/autotransition.go): the invariant of the manager,
  preserved by every message, mark, trigger and cleaning, and by changes of the committed
  configuration from outside.
\<close>

section \<open>Runs\<close>

text \<open>
  One step of a manager between two installations.  Messages are handled as long as the counter of
  reserved identifiers can still be raised; \<open>commit_message_exhausts_ids\<close> below shows who can raise it.
\<close>

inductive atm_step :: "hydra_env \<Rightarrow> atm \<Rightarrow> atm \<Rightarrow> bool" for env where
  message: "tm_reservedConfigID (at_tcm a) < u64_max \<Longrightarrow> HandleAutoTransitionMessage env now mp a = Some (a', r) \<Longrightarrow> atm_step env a a'"
| trigger: "TriggerAutoTransition env view a = Some (a', r) \<Longrightarrow> atm_step env a a'"
| mark: "atm_step env a (a\<lparr>at_lset := MarkFault now i class (at_lset a)\<rparr>)"
| clear: "atm_step env a (a\<lparr>at_lset := ClearMarks now duration (at_lset a)\<rparr>)"
| collect: "atm_step env a (atm_GCCollectors now maxAge a)"
| subscribe: "atm_step env a (OnTransition a)"

inductive_cases atm_stepE: "atm_step env a a'"

fun transition_of :: "atm_event \<Rightarrow> (hydra_config \<times> transition_proof) option" where
  "transition_of (AtmTransition c proof) = Some (c, proof)"
| "transition_of (AtmBroadcast m) = None"

definition transitions :: "atm \<Rightarrow> (hydra_config \<times> transition_proof) list" where
  "transitions a = List.map_filter transition_of (at_out a)"

section \<open>The invariant\<close>

text \<open>
  A committed configuration with the L-set it was installed with.  The set \<open>C\<close> below holds those the
  manager has had so far.
\<close>

type_synonym hydra_era = "hydra_config \<times> validators"

definition era :: "atm \<Rightarrow> hydra_era" where
  "era a = (tm_Mvalid (at_tcm a), lm_LSet (at_lset a))"

text \<open>A vote of validator \<open>i\<close> of a committed configuration over a digest.\<close>

definition signer_ok :: "hydra_env \<Rightarrow> hydra_era set \<Rightarrow> bytes \<Rightarrow> u64 \<Rightarrow> hydra_auto_vote \<Rightarrow> bool" where
  "signer_ok env C digest i v \<longleftrightarrow> hav_SenderID v = i \<and> hav_Digest v = digest \<and>
     (\<exists>c L w. (c, L) \<in> C \<and> get_validator (hc_Validators c) i = Some w \<and> length (v_PublicKey w) = 32 \<and>
        he_verify env (v_PublicKey w) digest (hav_Signature v))"

definition pending_digest :: "hydra_env \<Rightarrow> u64 \<Rightarrow> pending_auto \<Rightarrow> bytes" where
  "pending_digest env view p = autoTransitionDigest (he_sha256 env) view (pa_leaves p) (pa_blockHash p) (hc_ID (pa_config p))"

definition proof_digest :: "hydra_env \<Rightarrow> transition_proof \<Rightarrow> bytes" where
  "proof_digest env tp = autoTransitionDigest (he_sha256 env) (tp_View tp) (tp_Leaves tp) (tp_BlockHash tp) (tp_NewConfigID tp)"

definition proof_ok :: "hydra_env \<Rightarrow> hydra_era set \<Rightarrow> transition_proof \<Rightarrow> bool" where
  "proof_ok env C tp \<longleftrightarrow> (\<exists>c L. (c, L) \<in> C \<and> head_quorum (hc_Validators c) \<le> int (gm_len (tp_AutoVotes tp))) \<and>
     (\<forall>i. i |\<in>| fmdom (tp_AutoVotes tp) \<longrightarrow>
        (\<exists>v. fmlookup (tp_AutoVotes tp) i = Some (Some v) \<and> signer_ok env C (proof_digest env tp) i v))"

definition leaves_ok :: "validators \<Rightarrow> u64 list \<Rightarrow> bool" where
  "leaves_ok L leaves \<longleftrightarrow> leaves \<noteq> [] \<and> distinct leaves \<and> set leaves \<subseteq> fset (fmdom L)"

text \<open>A candidate is a committed configuration without some members of its L-set, with a larger identifier.\<close>

definition candidate_ok :: "hydra_era set \<Rightarrow> u64 list \<Rightarrow> hydra_config \<Rightarrow> bool" where
  "candidate_ok C leaves d \<longleftrightarrow> (\<exists>c L. (c, L) \<in> C \<and> leaves_ok L leaves \<and>
     d = without leaves c (hc_ID d) \<and> hc_ID c < hc_ID d)"

definition votes_ok :: "hydra_env \<Rightarrow> hydra_era set \<Rightarrow> atm \<Rightarrow> bool" where
  "votes_ok env C a \<longleftrightarrow> (\<forall>view c. fmlookup (at_collectors a) view = Some c \<longrightarrow>
     ac_pendingVotes c = fmempty \<and> (\<exists>d L. (d, L) \<in> C \<and> ac_quorum c = head_quorum (hc_Validators d)) \<and>
     (\<forall>i v. fmlookup (ac_votes c) i = Some v \<longrightarrow>
        (\<exists>p. fmlookup (at_pending a) view = Some p \<and> signer_ok env C (pending_digest env view p) i v)))"

definition pending_ok :: "hydra_era set \<Rightarrow> atm \<Rightarrow> bool" where
  "pending_ok C a \<longleftrightarrow> (\<forall>view p. fmlookup (at_pending a) view = Some p \<longrightarrow>
     candidate_ok C (pa_leaves p) (pa_config p) \<and> hc_ID (pa_config p) \<le> tm_reservedConfigID (at_tcm a) \<and>
     hc_ID (pa_config p) |\<notin>| at_finalizedConfigIDs a \<and>
     (\<forall>view' p'. fmlookup (at_pending a) view' = Some p' \<longrightarrow> hc_ID (pa_config p') = hc_ID (pa_config p) \<longrightarrow> view' = view))"

definition ids_ok :: "hydra_era set \<Rightarrow> atm \<Rightarrow> bool" where
  "ids_ok C a \<longleftrightarrow> (tm_Mvalid (at_tcm a), lm_LSet (at_lset a)) \<in> C \<and>
     hc_ID (tm_Mvalid (at_tcm a)) \<le> tm_reservedConfigID (at_tcm a) \<and>
     (\<forall>i. i |\<in>| at_finalizedConfigIDs a \<longrightarrow> i \<le> tm_reservedConfigID (at_tcm a))"

definition transitions_ok :: "hydra_env \<Rightarrow> hydra_era set \<Rightarrow> atm \<Rightarrow> bool" where
  "transitions_ok env C a \<longleftrightarrow>
     (\<forall>(d, tp) \<in> set (transitions a). proof_ok env C tp \<and> candidate_ok C (tp_Leaves tp) d \<and> hc_ID d = tp_NewConfigID tp \<and>
        tp_NewConfigID tp |\<in>| at_finalizedConfigIDs a \<and> tp_View tp \<le> at_lastCommittedView a) \<and>
     sorted_wrt (<) (map (\<lambda>(c, tp). tp_View tp) (transitions a)) \<and>
     distinct (map (\<lambda>(c, tp). tp_NewConfigID tp) (transitions a))"

definition atm_ok :: "hydra_env \<Rightarrow> hydra_era set \<Rightarrow> atm \<Rightarrow> bool" where
  "atm_ok env C a \<longleftrightarrow> votes_ok env C a \<and> pending_ok C a \<and> ids_ok C a \<and> transitions_ok env C a"

lemmas atm_ok_parts = votes_ok_def pending_ok_def ids_ok_def transitions_ok_def transitions_def

lemma atm_okD:
  assumes "atm_ok env C a"
  shows "(tm_Mvalid (at_tcm a), lm_LSet (at_lset a)) \<in> C" "hc_ID (tm_Mvalid (at_tcm a)) \<le> tm_reservedConfigID (at_tcm a)"
    "fmlookup (at_collectors a) view = Some c \<Longrightarrow>
       ac_pendingVotes c = fmempty \<and> (\<exists>d L. (d, L) \<in> C \<and> ac_quorum c = head_quorum (hc_Validators d))"
    "fmlookup (at_collectors a) view = Some c \<Longrightarrow> fmlookup (ac_votes c) i = Some v \<Longrightarrow>
       \<exists>p. fmlookup (at_pending a) view = Some p \<and> signer_ok env C (pending_digest env view p) i v"
    "fmlookup (at_pending a) view = Some p \<Longrightarrow> candidate_ok C (pa_leaves p) (pa_config p) \<and>
       hc_ID (pa_config p) \<le> tm_reservedConfigID (at_tcm a) \<and> hc_ID (pa_config p) |\<notin>| at_finalizedConfigIDs a"
    "i |\<in>| at_finalizedConfigIDs a \<Longrightarrow> i \<le> tm_reservedConfigID (at_tcm a)"
  using assms unfolding atm_ok_def votes_ok_def pending_ok_def ids_ok_def by blast+

lemma candidate_id: "candidate_ok C leaves d \<Longrightarrow> hc_ID d \<noteq> 0"
  by (auto simp: candidate_ok_def)

lemma era_mono:
  assumes "C \<subseteq> D"
  shows "signer_ok env C digest i v \<Longrightarrow> signer_ok env D digest i v" "proof_ok env C tp \<Longrightarrow> proof_ok env D tp"
    "candidate_ok C leaves d \<Longrightarrow> candidate_ok D leaves d" "votes_ok env C a \<Longrightarrow> votes_ok env D a"
    "pending_ok C a \<Longrightarrow> pending_ok D a" "transitions_ok env C a \<Longrightarrow> transitions_ok env D a"
proof -
  show signer: "signer_ok env D digest i v" if "signer_ok env C digest i v" for digest i v
    using that assms unfolding signer_ok_def by blast
  show pr: "proof_ok env D tp" if "proof_ok env C tp" for tp
    using that assms signer unfolding proof_ok_def by blast
  show cand: "candidate_ok D leaves d" if "candidate_ok C leaves d" for leaves d
    using that assms unfolding candidate_ok_def by blast
  show "votes_ok env D a" if "votes_ok env C a"
    using that assms signer unfolding votes_ok_def by blast
  show "pending_ok D a" if "pending_ok C a"
    using that cand unfolding pending_ok_def by blast
  show "transitions_ok env D a" if "transitions_ok env C a"
    using that cand pr unfolding transitions_ok_def by blast
qed

section \<open>Steps that only touch the surroundings\<close>

lemma atm_ok_recent: "atm_ok env C (a\<lparr>at_recent := s\<rparr>) \<longleftrightarrow> atm_ok env C a"
  by (simp add: atm_ok_def atm_ok_parts)

lemma atm_ok_subscribe: "atm_ok env C (OnTransition a) \<longleftrightarrow> atm_ok env C a"
  by (simp add: atm_ok_def atm_ok_parts OnTransition_def)

lemma transitions_emit:
  "transitions (atm_emit [AtmBroadcast m] a) = transitions a"
  "transitions (atm_emit [AtmTransition c tp] a) = transitions a @ [(c, tp)]"
  by (simp_all add: transitions_def atm_emit_def List.map_filter_def)

lemma atm_ok_broadcast: "atm_ok env C (atm_emit [AtmBroadcast m] a) \<longleftrightarrow> atm_ok env C a"
  unfolding atm_ok_def transitions_ok_def transitions_emit
  by (simp add: votes_ok_def pending_ok_def ids_ok_def atm_emit_def)

lemma atm_ok_lset: "lm_LSet lm = lm_LSet (at_lset a) \<Longrightarrow> atm_ok env C (a\<lparr>at_lset := lm\<rparr>) \<longleftrightarrow> atm_ok env C a"
  by (simp add: atm_ok_def atm_ok_parts leaves_ok_def)

lemma LSet_marks [simp]:
  "lm_LSet (MarkFault now i class lm) = lm_LSet lm" "lm_LSet (ClearMarks now duration lm) = lm_LSet lm"
  by (simp_all add: MarkFault_def ClearMarks_def)

lemma atm_ok_collect:
  assumes "atm_ok env C a"
  shows "atm_ok env C (atm_GCCollectors now maxAge a)"
  using assms unfolding atm_ok_def
  by (auto simp: atm_ok_parts atm_GCCollectors_def split: if_splits)

lemma atm_ok_ensure:
  assumes "atm_ok env C a"
  shows "atm_ok env C (ensure_collector now view a)"
  using assms unfolding atm_ok_def
  by (auto simp: atm_ok_parts ensure_collector_def new_auto_collector_def)

text \<open>Nothing is ever buffered, so binding buffered votes does nothing.\<close>

lemma bind_nothing:
  assumes "atm_ok env C a"
  shows "bindPendingVotesLocked env view a = a"
  using atm_okD(3) [OF assms] by (auto simp: bindPendingVotesLocked_def gomap_simps split: option.splits)

lemma atm_ok_sign_and_broadcast:
  assumes "atm_ok env C a" and "sign_and_broadcast env msg a = Some (a', r)"
  shows "atm_ok env C a'"
  using assms by (auto simp: sign_and_broadcast_def atm_ok_broadcast split: option.splits sum.splits)

lemma atm_ok_trigger:
  assumes "atm_ok env C a" and "TriggerAutoTransition env view a = Some (a', r)"
  shows "atm_ok env C a'"
  using assms by (auto simp: TriggerAutoTransition_def elim: atm_ok_sign_and_broadcast split: if_splits)

lemma atm_ok_cast_vote:
  assumes "atm_ok env C a" and "cast_vote env view a = Some (a', r)"
  shows "atm_ok env C a'"
  using assms by (auto simp: cast_vote_def elim: atm_ok_sign_and_broadcast split: if_splits option.splits)


section \<open>Proposals\<close>

lemma check_leaves_None:
  "check_leaves bad seen is = None \<longleftrightarrow> distinct is \<and> set is \<inter> fset seen = {} \<and> (\<forall>i \<in> set is. bad i = None)"
  by (induction bad seen "is" rule: check_leaves.induct) (auto split: option.splits)

lemma propose_leaves_ok: "validateAutoProposeLeaves a msg = None \<Longrightarrow> leaves_ok (lm_LSet (at_lset a)) (am_Leaves msg)"
  by (auto simp: validateAutoProposeLeaves_def check_leaves_None leaves_ok_def IsInL_def split: if_splits)

lemma commit_leaves_ok: "validateAutoCommitLeaves c lm leaves = None \<Longrightarrow> leaves_ok (lm_LSet lm) leaves"
  by (auto simp: validateAutoCommitLeaves_def check_leaves_None leaves_ok_def IsInL_def split: if_splits)

lemma hc_ID_without [simp]: "hc_ID (without leaves c i) = i"
  by (simp add: without_def Let_def)

text \<open>A candidate with a fresh identifier may be stored for a view that has none.\<close>

lemma atm_ok_store:
  assumes ok: "atm_ok env C a" and none: "fmlookup (at_pending a) view = None"
    and p: "pa_config p = without (pa_leaves p) (tm_Mvalid (at_tcm a)) i" "leaves_ok (lm_LSet (at_lset a)) (pa_leaves p)"
      "hc_ID (tm_Mvalid (at_tcm a)) < i"
    and fresh: "i |\<notin>| at_finalizedConfigIDs a" "\<not> id_collides view i a"
    and res: "tm_Mvalid t = tm_Mvalid (at_tcm a)" "i \<le> tm_reservedConfigID t" "tm_reservedConfigID (at_tcm a) \<le> tm_reservedConfigID t"
  shows "atm_ok env C (a\<lparr>at_tcm := t, at_pending := fmupd view p (at_pending a)\<rparr>)" (is "atm_ok env C ?b")
proof -
  have other: "hc_ID (pa_config q) \<noteq> i" if "fmlookup (at_pending a) v = Some q" for v q
  proof -
    have "v \<noteq> view" using that none by auto
    with that fresh(2) show ?thesis by (auto simp: id_collides_def fmpred_iff)
  qed
  have "votes_ok env C ?b"
    using ok none unfolding atm_ok_def votes_ok_def by (fastforce split: if_splits)
  moreover have "pending_ok C ?b"
    unfolding pending_ok_def
  proof (intro allI impI)
    fix v q assume q: "fmlookup (at_pending ?b) v = Some q"
    have same: "v' = v" if "fmlookup (at_pending ?b) v' = Some q'" "hc_ID (pa_config q') = hc_ID (pa_config q)" for v' q'
      using that q other p(1) ok unfolding atm_ok_def pending_ok_def by (auto split: if_splits)
    show "candidate_ok C (pa_leaves q) (pa_config q) \<and> hc_ID (pa_config q) \<le> tm_reservedConfigID (at_tcm ?b) \<and>
        hc_ID (pa_config q) |\<notin>| at_finalizedConfigIDs ?b \<and>
        (\<forall>v' q'. fmlookup (at_pending ?b) v' = Some q' \<longrightarrow> hc_ID (pa_config q') = hc_ID (pa_config q) \<longrightarrow> v' = v)"
    proof (cases "v = view")
      case True
      have "candidate_ok C (pa_leaves p) (pa_config p)"
        using p atm_okD(1) [OF ok] unfolding candidate_ok_def by auto
      with True q p(1) fresh(1) res(2) same show ?thesis by auto
    next
      case False
      with q have "fmlookup (at_pending a) v = Some q" by simp
      from atm_okD(5) [OF ok this] res(3) same show ?thesis by (auto intro: order_trans)
    qed
  qed
  moreover have "ids_ok C ?b"
    using ok res unfolding atm_ok_def ids_ok_def by (auto intro: order_trans)
  moreover have "transitions_ok env C ?b"
    using ok unfolding atm_ok_def transitions_ok_def transitions_def by simp
  ultimately show ?thesis by (simp add: atm_ok_def)
qed

lemma atm_ok_candidate:
  assumes ok: "atm_ok env C a" and room: "tm_reservedConfigID (at_tcm a) < u64_max"
    and leaves: "validateAutoProposeLeaves a msg = None" and cand: "propose_candidate msg a = Inr a'"
  shows "atm_ok env C a'"
proof (cases "fmlookup (at_pending a) (am_View msg)")
  case None
  let ?i = "tm_reservedConfigID (at_tcm a) + 1"
  have below: "x < ?i" if "x \<le> tm_reservedConfigID (at_tcm a)" for x
    using that room by (rule u64_le_succ)
  have "?i |\<notin>| at_finalizedConfigIDs a"
    using atm_okD(6) [OF ok] below by fastforce
  moreover have "\<not> id_collides (am_View msg) ?i a"
    using atm_okD(5) [OF ok] below by (fastforce simp: id_collides_def fmpred_iff)
  moreover have "a' = a\<lparr> at_tcm := (at_tcm a)\<lparr>tm_reservedConfigID := ?i\<rparr>,
      at_pending := fmupd (am_View msg) \<lparr> pa_config = without (am_Leaves msg) (tm_Mvalid (at_tcm a)) ?i,
        pa_leaves = am_Leaves msg, pa_blockHash = am_BlockHash msg \<rparr> (at_pending a) \<rparr>"
    using cand None
    by (simp add: propose_candidate_def ReserveNextConfigID_def storePendingAutoConfig_def Let_def)
  ultimately show ?thesis
    using ok None propose_leaves_ok [OF leaves] below atm_okD(1,2) [OF ok]
    by (simp add: atm_ok_store order_less_imp_le)
next
  case (Some p)
  with cand ok show ?thesis by (auto simp: propose_candidate_def split: if_splits)
qed

section \<open>Commits\<close>

text \<open>The candidate of a view leaves the pending ones with a proof and becomes a transition.\<close>

lemma atm_ok_commit:
  assumes ok: "atm_ok env C a" and p: "fmlookup (at_pending a) view = Some p"
    and fresh: "at_lastCommittedView a < view"
    and tp: "proof_ok env C tp" "tp_View tp = view" "tp_Leaves tp = pa_leaves p" "tp_NewConfigID tp = hc_ID (pa_config p)"
  shows "atm_ok env C (call_back (pa_config p) tp (commitAutoTransitionLocked view p a))"
proof -
  let ?b = "commitAutoTransitionLocked view p a"
  note pend = atm_okD(5) [OF ok p]
  have sur: "transitions ?b = transitions a" "at_lset ?b = at_lset a" "at_tcm ?b = at_tcm a"
    "at_lastCommittedView ?b = view" "at_pending ?b = fmdrop view (at_pending a)"
    "at_collectors ?b = fmdrop view (at_collectors a)"
    "at_finalizedConfigIDs ?b = finsert (hc_ID (pa_config p)) (at_finalizedConfigIDs a)"
    using fresh by (simp_all add: commitAutoTransitionLocked_def transitions_def)
  have other: "hc_ID (pa_config q) \<noteq> hc_ID (pa_config p)" if "fmlookup (at_pending a) v = Some q" "v \<noteq> view" for v q
    using ok p that unfolding atm_ok_def pending_ok_def by blast
  have votes: "votes_ok env C ?b"
    using ok unfolding atm_ok_def votes_ok_def by (fastforce simp: sur split: if_splits)
  have pending: "pending_ok C ?b"
    using ok other unfolding atm_ok_def pending_ok_def by (auto simp: sur split: if_splits)
  have ids: "ids_ok C ?b"
    using ok pend unfolding atm_ok_def ids_ok_def by (auto simp: sur)
  have old: "transitions_ok env C a"
    using ok by (simp add: atm_ok_def)
  have views: "\<forall>(c, x) \<in> set (transitions a). tp_View x < view"
    using old fresh unfolding transitions_ok_def by fastforce
  have nid: "\<forall>(c, x) \<in> set (transitions a). tp_NewConfigID x \<noteq> tp_NewConfigID tp"
    using old pend tp(4) unfolding transitions_ok_def by fastforce
  have new: "transitions_ok env C (call_back (pa_config p) tp ?b)"
  proof (cases "at_onTransition a")
    case True
    then have tr: "transitions (call_back (pa_config p) tp ?b) = transitions a @ [(pa_config p, tp)]"
      by (simp add: call_back_def transitions_emit sur commitAutoTransitionLocked_def [of view p a])
        (simp add: transitions_emit(2) transitions_def atm_emit_def List.map_filter_def)
    have fields: "at_lset (call_back (pa_config p) tp ?b) = at_lset a"
      "at_lastCommittedView (call_back (pa_config p) tp ?b) = view"
      "at_finalizedConfigIDs (call_back (pa_config p) tp ?b) = finsert (hc_ID (pa_config p)) (at_finalizedConfigIDs a)"
      using sur by (simp_all add: call_back_def atm_emit_def)
    show ?thesis
      unfolding transitions_ok_def tr fields
      using old views nid pend tp
      by (auto simp: transitions_ok_def sorted_wrt_append dest: order_less_imp_le intro: order_less_imp_le)
  next
    case False
    then have "call_back (pa_config p) tp ?b = ?b"
      by (simp add: call_back_def commitAutoTransitionLocked_def)
    then show ?thesis
      using old views by (auto simp: transitions_ok_def sur intro: order_less_imp_le)
  qed
  show ?thesis
    using votes pending ids new
    by (auto simp: atm_ok_def call_back_def votes_ok_def pending_ok_def ids_ok_def atm_emit_def)
qed


lemma gm_len_fmmap [gomap_simps]: "gm_len (fmmap f m) = gm_len m"
  by (simp add: gm_len_card)

lemma atm_ok_ready:
  assumes ok: "atm_ok env C a" and fresh: "at_lastCommittedView a < view"
    and r: "commitReadyForView view a = Inr (a', formed)"
  shows "atm_ok env C a'"
proof (cases formed)
  case True
  from r True obtain c p where c: "fmlookup (at_collectors a) view = Some c" "ac_quorum c \<le> int (gm_len (ac_votes c))"
    and p: "fmlookup (at_pending a) view = Some p"
    and a': "a' = call_back (pa_config p) (transitionProofForView view c p) (commitAutoTransitionLocked view p a)"
    by (auto simp: commitReadyForView_def split: option.splits if_splits)
  let ?tp = "transitionProofForView view c p"
  have digest: "proof_digest env ?tp = pending_digest env view p"
    by (simp add: proof_digest_def pending_digest_def transitionProofForView_def)
  have "proof_ok env C ?tp"
    using atm_okD(3) [OF ok c(1)] c(2) atm_okD(4) [OF ok c(1)] p unfolding proof_ok_def digest
    by (fastforce simp: transitionProofForView_def gomap_simps fmlookup_dom_iff)
  then show ?thesis
    unfolding a' by (rule atm_ok_commit [OF ok p fresh]) (simp_all add: transitionProofForView_def)
next
  case False
  with r ok show ?thesis by (auto simp: commitReadyForView_def split: option.splits if_splits)
qed

section \<open>Handlers\<close>

lemma fresh_view: "rejectStaleView a view = None \<Longrightarrow> at_lastCommittedView a < view"
  by (simp add: rejectStaleView_def split: if_splits)

lemma rejectReplay_Inr: "rejectReplay msg a = Inr a' \<Longrightarrow> a' = a\<lparr>at_recent := at_recent a'\<rparr>"
  by (auto simp: rejectReplay_def split: if_splits)

lemma ensure_collector_fields [simp]:
  "at_lastCommittedView (ensure_collector now view a) = at_lastCommittedView a"
  "at_pending (ensure_collector now view a) = at_pending a" "at_tcm (ensure_collector now view a) = at_tcm a"
  by (simp_all add: ensure_collector_def)

lemma propose_candidate_view: "propose_candidate msg a = Inr a' \<Longrightarrow> at_lastCommittedView a' = at_lastCommittedView a"
  by (auto simp: propose_candidate_def storePendingAutoConfig_def ReserveNextConfigID_def Let_def split: option.splits if_splits)

lemma atm_ok_propose:
  assumes ok: "atm_ok env C a" and room: "tm_reservedConfigID (at_tcm a) < u64_max"
    and step: "handleAutoPropose env now msg a = Some (a', r)"
  shows "atm_ok env C a'"
proof (cases "\<not> IsInL (at_lset a) (am_SenderID msg) \<or> rejectStaleView a (am_View msg) \<noteq> None \<or> (\<exists>x. rejectReplay msg a = Inl x)")
  case True
  with step ok show ?thesis by (auto simp: handleAutoPropose_def split: if_splits option.splits sum.splits)
next
  case False
  then obtain a1 where a1: "rejectReplay msg a = Inr a1" and view: "at_lastCommittedView a < am_View msg"
    using fresh_view by (cases "rejectReplay msg a") auto
  have eq: "a1 = a\<lparr>at_recent := at_recent a1\<rparr>"
    by (rule rejectReplay_Inr [OF a1])
  have ok1: "atm_ok env C a1" and room1: "tm_reservedConfigID (at_tcm a1) < u64_max"
    and view1: "at_lastCommittedView a1 < am_View msg"
    by (subst eq, simp add: ok atm_ok_recent room view)+
  show ?thesis
  proof (cases "validateActiveValidator a1 (am_SenderID msg) \<noteq> None \<or> validateAutoProposeLeaves a1 msg \<noteq> None \<or>
      (\<exists>x. propose_candidate msg a1 = Inl x)")
    case True
    with step False a1 have "a' = a1"
      by (auto simp: handleAutoPropose_def split: option.splits sum.splits)
    with ok1 show ?thesis by simp
  next
    case go: False
    then obtain a2 where leaves: "validateAutoProposeLeaves a1 msg = None" and a2: "propose_candidate msg a1 = Inr a2"
      by (cases "propose_candidate msg a1") auto
    let ?a3 = "ensure_collector now (am_View msg) a2"
    have ok3: "atm_ok env C ?a3"
      by (intro atm_ok_ensure atm_ok_candidate [OF ok1 room1 leaves a2])
    have view3: "at_lastCommittedView ?a3 < am_View msg"
      using view1 propose_candidate_view [OF a2] by simp
    from step False a1 go a2 bind_nothing [OF ok3, of "am_View msg"] show ?thesis
      by (auto simp: handleAutoPropose_def ok3 Let_def dest: atm_ok_ready [OF ok3 view3]
          elim: atm_ok_cast_vote [rotated] split: sum.splits prod.splits bool.splits)
  qed
qed

text \<open>A verified vote that fits the candidate is a signature over its digest.\<close>

lemma vote_signer_ok:
  assumes sha: "\<And>x. he_sha256 env x \<noteq> []" and ver: "verifyMessageSignature env a msg = None" and ty: "am_Type msg = AutoVote"
    and val: "validateAutoVoteForPending env msg p = Inr d" and id: "hc_ID (pa_config p) \<noteq> 0" and mv: "(tm_Mvalid (at_tcm a), L) \<in> C"
  shows "d = pending_digest env (am_View msg) p \<and> signer_ok env C (pending_digest env (am_View msg) p) (am_SenderID msg)
    \<lparr> hav_SenderID = am_SenderID msg, hav_Signature = am_Signature msg, hav_Digest = d \<rparr>"
proof -
  have d: "d = pending_digest env (am_View msg) p" and digest: "VoteDigest env msg = d"
    using val by (auto simp: validateAutoVoteForPending_def pending_digest_def Let_def split: option.splits if_splits)
  have "d \<noteq> []"
    using sha by (simp add: d pending_digest_def autoTransitionDigest_def)
  then have "signed_payload env msg = Some d"
    by (simp add: signed_payload_def digest)
  with ver mv d show ?thesis
    by (auto simp: verifyMessageSignature_def am_VerifySignature_def signer_ok_def split: option.splits if_splits)
qed

lemma atm_ok_collect_vote:
  assumes ok: "atm_ok env C a" and c: "fmlookup (at_collectors a) view = Some c" and p: "fmlookup (at_pending a) view = Some p"
    and v: "signer_ok env C (pending_digest env view p) i
      \<lparr> hav_SenderID = am_SenderID msg, hav_Signature = am_Signature msg, hav_Digest = d \<rparr>"
  shows "atm_ok env C (a\<lparr>at_collectors := fmupd view (collect_vote msg d i c) (at_collectors a)\<rparr>)"
proof -
  have "votes_ok env C (a\<lparr>at_collectors := fmupd view (collect_vote msg d i c) (at_collectors a)\<rparr>)"
    unfolding votes_ok_def
  proof (intro allI impI conjI)
    fix w x
    assume x: "fmlookup (at_collectors (a\<lparr>at_collectors := fmupd view (collect_vote msg d i c) (at_collectors a)\<rparr>)) w = Some x"
    show "ac_pendingVotes x = fmempty" "\<exists>d L. (d, L) \<in> C \<and> ac_quorum x = head_quorum (hc_Validators d)"
      using x atm_okD(3) [OF ok] c by (auto simp: collect_vote_def split: if_splits)
    fix j u assume "fmlookup (ac_votes x) j = Some u"
    with x v p atm_okD(4) [OF ok c, of j u] atm_okD(4) [OF ok, of w x j u]
    show "\<exists>p. fmlookup (at_pending (a\<lparr>at_collectors := fmupd view (collect_vote msg d i c) (at_collectors a)\<rparr>)) w = Some p \<and>
        signer_ok env C (pending_digest env w p) j u"
      by (auto simp: collect_vote_def split: if_splits)
  qed
  with ok show ?thesis by (simp add: atm_ok_def pending_ok_def ids_ok_def transitions_ok_def transitions_def)
qed


lemma ensure_collector_at: "\<exists>c. fmlookup (at_collectors (ensure_collector now view a)) view = Some c"
  by (auto simp: ensure_collector_def fmlookup_dom_iff)

lemma atm_ok_vote:
  assumes ok: "atm_ok env C a" and sha: "\<And>x. he_sha256 env x \<noteq> []" and ver: "verifyMessageSignature env a msg = None"
    and ty: "am_Type msg = AutoVote" and step: "handleAutoVote env now msg a = Some (a', r)"
  shows "atm_ok env C a'"
proof (cases "rejectStaleView a (am_View msg) \<noteq> None \<or> validateActiveValidator a (am_SenderID msg) \<noteq> None \<or>
    fmlookup (at_pending a) (am_View msg) = None \<or> (\<exists>x. rejectReplay msg a = Inl x)")
  case True
  with step have "a' = a"
    by (auto simp: handleAutoVote_def split: option.splits sum.splits)
  with ok show ?thesis by simp
next
  case False
  then obtain p a1 where p: "fmlookup (at_pending a) (am_View msg) = Some p" and a1: "rejectReplay msg a = Inr a1"
    and view: "at_lastCommittedView a < am_View msg"
    using fresh_view by (cases "rejectReplay msg a") auto
  let ?a2 = "ensure_collector now (am_View msg) a1"
  have eq: "a1 = a\<lparr>at_recent := at_recent a1\<rparr>"
    by (rule rejectReplay_Inr [OF a1])
  have ok2: "atm_ok env C ?a2"
    by (rule atm_ok_ensure, subst eq, simp add: ok atm_ok_recent)
  have same: "at_pending ?a2 = at_pending a" "at_lastCommittedView ?a2 = at_lastCommittedView a"
    by (simp, subst eq, simp)+
  obtain c where c: "fmlookup (at_collectors ?a2) (am_View msg) = Some c"
    using ensure_collector_at by blast
  have rest: "handleAutoVote env now msg a =
    (if ac_done c then Some (?a2, None)
     else if am_SenderID msg |\<in>| ac_voters c then Some (?a2, Some ''replayed message'')
     else case validateAutoVoteForPending env msg p of Inl r \<Rightarrow> Some (?a2, Some r)
       | Inr digest \<Rightarrow>
          (let a3 = ?a2\<lparr>at_collectors := fmupd (am_View msg) (collect_vote msg digest (am_SenderID msg) c) (at_collectors ?a2)\<rparr>
           in case commitReadyForView (am_View msg) a3 of Inl r \<Rightarrow> Some (a3, Some r)
             | Inr (a4, formed) \<Rightarrow> Some (a4, None)))"
    using False p a1 c by (simp add: handleAutoVote_def Let_def)
  show ?thesis
  proof (cases "validateAutoVoteForPending env msg p")
    case (Inl x)
    with step rest ok2 show ?thesis by (auto split: if_splits)
  next
    case (Inr d)
    have "hc_ID (pa_config p) \<noteq> 0"
      using atm_okD(5) [OF ok p] candidate_id by blast
    note signer = vote_signer_ok [OF sha ver ty Inr this atm_okD(1) [OF ok]]
    have p2: "fmlookup (at_pending ?a2) (am_View msg) = Some p"
      using same(1) p by simp
    let ?a3 = "?a2\<lparr>at_collectors := fmupd (am_View msg) (collect_vote msg d (am_SenderID msg) c) (at_collectors ?a2)\<rparr>"
    have ok3: "atm_ok env C ?a3"
      by (rule atm_ok_collect_vote [OF ok2 c p2]) (rule signer [THEN conjunct2])
    have "at_lastCommittedView ?a3 < am_View msg"
      using view same(2) by simp
    from step rest Inr ok2 ok3 atm_ok_ready [OF ok3 this] show ?thesis
      by (auto simp: Let_def split: if_splits sum.splits prod.splits)
  qed
qed

section \<open>Commit messages\<close>

lemma check_votes_ok:
  assumes "check_votes env vs digest votes is = Some None" and "i \<in> set is"
  shows "\<exists>v w. fmlookup votes i = Some (Some v) \<and> hav_SenderID v = i \<and> hav_Digest v = digest \<and>
    get_validator vs i = Some w \<and> length (v_PublicKey w) = 32 \<and> he_verify env (v_PublicKey w) digest (hav_Signature v)"
  using assms
  by (induction env vs digest votes "is" rule: check_votes.induct) (auto split: option.splits if_splits)

lemma commit_record: "commitAutoTransitionLocked view p (record_proof_votes now view votes a) = commitAutoTransitionLocked view p a"
proof -
  have "\<exists>c. record_proof_votes now view votes a = a\<lparr>at_collectors := fmupd view c (at_collectors a)\<rparr>"
  proof -
    obtain c where "fmlookup (at_collectors (ensure_collector now view a)) view = Some c"
      using ensure_collector_at by blast
    then have "record_proof_votes now view votes a = (ensure_collector now view a)\<lparr>at_collectors := fmupd view
        (fold (\<lambda>i c. case fmlookup votes i of
               Some (Some w) \<Rightarrow> c\<lparr> ac_voters := finsert i (ac_voters c), ac_votes := fmupd i w (ac_votes c) \<rparr>
             | _ \<Rightarrow> c\<lparr>ac_voters := finsert i (ac_voters c)\<rparr>) (gm_keys votes) c)
        (at_collectors (ensure_collector now view a))\<rparr>"
      by (simp add: record_proof_votes_def Let_def)
    then show ?thesis
      by (auto simp: ensure_collector_def intro!: exI)
  qed
  moreover have "fmdrop view (fmupd view c m) = fmdrop view m" for c :: auto_collector and m
    by (rule fmap_ext) simp
  ultimately show ?thesis
    by (auto simp: commitAutoTransitionLocked_def)
qed

lemma fmupd_same: "fmlookup m k = Some v \<Longrightarrow> fmupd k v m = m"
  by (rule fmap_ext) auto

lemma id_collides_drop: "id_collides view i (a\<lparr>at_pending := fmupd view p (at_pending a)\<rparr>) \<longleftrightarrow> id_collides view i a"
  by (auto simp: id_collides_def fmpred_iff split: if_splits)

text \<open>The candidate of a commit message, with its identifier, may become a transition.\<close>

lemma atm_ok_adopt_new:
  assumes ok: "atm_ok env C a" and none: "fmlookup (at_pending a) (am_View msg) = None"
    and checks: "commit_checks a msg proof = None" and cand: "commit_candidate msg proof a = Inr (a2, p)"
  shows "\<exists>a3. adopt_config_id msg proof p a2 = Inr (a3, p) \<and> atm_ok env C a3 \<and>
    fmlookup (at_pending a3) (am_View msg) = Some p \<and> hc_ID (pa_config p) = tp_NewConfigID proof \<and>
    pa_blockHash p = tp_BlockHash proof \<and> at_lastCommittedView a3 = at_lastCommittedView a \<and>
    tm_Mvalid (at_tcm a3) = tm_Mvalid (at_tcm a)"
proof -
  let ?i = "tp_NewConfigID proof"
  from cand none have build: "buildPendingAutoTransitionForCommit (tm_Mvalid (at_tcm a)) (at_lset a)
      (proof_leaves msg proof) (tp_BlockHash proof) ?i = Inr p"
    and col: "\<not> id_collides (am_View msg) (hc_ID (pa_config p)) a"
    and a2: "a2 = a\<lparr>at_pending := fmupd (am_View msg) p (at_pending a)\<rparr>"
    by (auto simp: commit_candidate_def split: sum.splits if_splits)
  have p: "p = \<lparr> pa_config = without (proof_leaves msg proof) (tm_Mvalid (at_tcm a)) ?i, pa_leaves = proof_leaves msg proof,
      pa_blockHash = tp_BlockHash proof \<rparr>" and i: "?i \<noteq> 0" "hc_ID (tm_Mvalid (at_tcm a)) < ?i"
    and leaves: "leaves_ok (lm_LSet (at_lset a)) (proof_leaves msg proof)"
    using build
    by (auto simp: buildPendingAutoTransitionForCommit_def split: if_splits option.splits intro: commit_leaves_ok)
  let ?t = "ObserveReservedConfigID ?i (at_tcm a)"
  have t: "tm_Mvalid ?t = tm_Mvalid (at_tcm a)" "?i \<le> tm_reservedConfigID ?t" "tm_reservedConfigID (at_tcm a) \<le> tm_reservedConfigID ?t"
    by (auto simp: ObserveReservedConfigID_def)
  have fresh: "?i |\<notin>| at_finalizedConfigIDs a"
    using checks by (auto simp: commit_checks_def split: if_splits)
  have id: "hc_ID (pa_config p) = ?i"
    by (simp add: p)
  have ok3: "atm_ok env C (a\<lparr>at_tcm := ?t, at_pending := fmupd (am_View msg) p (at_pending a)\<rparr>)"
    by (rule atm_ok_store [OF ok none _ _ i(2) fresh _ t]) (use col leaves in \<open>simp_all add: p\<close>)
  have "adopt_config_id msg proof p a2 = Inr (a\<lparr>at_tcm := ?t, at_pending := fmupd (am_View msg) p (at_pending a)\<rparr>, p)"
  proof -
    have same: "p\<lparr>pa_config := (pa_config p)\<lparr>hc_ID := ?i\<rparr>, pa_blockHash := tp_BlockHash proof\<rparr> = p"
      by (simp add: p without_def Let_def)
    have twice: "fmupd (am_View msg) p (fmupd (am_View msg) p (at_pending a)) = fmupd (am_View msg) p (at_pending a)"
      by (rule fmupd_same) simp
    have "\<not> id_collides (am_View msg) ?i a"
      using col id by simp
    then show ?thesis
      using i atm_okD(1) [OF ok] by (simp add: adopt_config_id_def a2 Let_def id id_collides_drop same twice)
  qed
  then show ?thesis
    using ok3 id t(1) by (auto simp: p)
qed

lemma atm_ok_adopt_old:
  assumes ok: "atm_ok env C a" and some: "fmlookup (at_pending a) (am_View msg) = Some q"
    and cand: "commit_candidate msg proof a = Inr (a2, p)" and adopt: "adopt_config_id msg proof p a2 = Inr (a3, p')"
  shows "a3 = a \<and> p' = q \<and> p = q \<and> tp_NewConfigID proof \<in> {0, hc_ID (pa_config q)} \<and> pa_blockHash q = tp_BlockHash proof"
proof -
  have p: "a2 = a" "p = q" "pa_blockHash q = tp_BlockHash proof"
    using cand some by (auto simp: commit_candidate_def split: if_splits)
  have q: "hc_ID (pa_config q) \<noteq> 0" "hc_ID (pa_config q) \<le> tm_reservedConfigID (at_tcm a)"
    using atm_okD(5) [OF ok some] candidate_id by auto
  have same: "q\<lparr>pa_blockHash := tp_BlockHash proof\<rparr> = q"
    using p(3) by (cases q) simp
  have same': "q\<lparr>pa_config := pa_config q\<lparr>hc_ID := hc_ID (pa_config q)\<rparr>, pa_blockHash := tp_BlockHash proof\<rparr> = q"
    using p(3) by (cases q, cases "pa_config q") simp
  have obs: "ObserveReservedConfigID (hc_ID (pa_config q)) (at_tcm a) = at_tcm a"
    using q(2) by (simp add: ObserveReservedConfigID_def)
  from adopt q(1) p(3) show ?thesis
    unfolding adopt_config_id_def p(1,2) Let_def
    by (cases "tp_NewConfigID proof = 0") (auto simp: same same' obs fmupd_same [OF some] p(1,2) split: if_splits)
qed


text \<open>Both cases: the state after the candidate was settled, and what the proof then says.\<close>

lemma atm_ok_adopt:
  assumes ok: "atm_ok env C a" and checks: "commit_checks a msg proof = None"
    and cand: "commit_candidate msg proof a = Inr (a2, p)"
  shows "adopt_config_id msg proof p a2 = Inl x \<Longrightarrow> atm_ok env C a2"
    and "adopt_config_id msg proof p a2 = Inr (a3, p') \<Longrightarrow> atm_ok env C a3 \<and>
      fmlookup (at_pending a3) (am_View msg) = Some p' \<and> tp_NewConfigID proof \<in> {0, hc_ID (pa_config p')} \<and>
      pa_blockHash p' = tp_BlockHash proof \<and> at_lastCommittedView a3 = at_lastCommittedView a \<and>
      tm_Mvalid (at_tcm a3) = tm_Mvalid (at_tcm a)"
proof -
  show "atm_ok env C a2" if "adopt_config_id msg proof p a2 = Inl x"
  proof (cases "fmlookup (at_pending a) (am_View msg)")
    case None
    from atm_ok_adopt_new [OF ok this checks cand] that show ?thesis by auto
  next
    case (Some q)
    with cand ok show ?thesis by (auto simp: commit_candidate_def split: if_splits)
  qed
  show "atm_ok env C a3 \<and> fmlookup (at_pending a3) (am_View msg) = Some p' \<and>
      tp_NewConfigID proof \<in> {0, hc_ID (pa_config p')} \<and> pa_blockHash p' = tp_BlockHash proof \<and>
      at_lastCommittedView a3 = at_lastCommittedView a \<and> tm_Mvalid (at_tcm a3) = tm_Mvalid (at_tcm a)"
    if adopt: "adopt_config_id msg proof p a2 = Inr (a3, p')"
  proof (cases "fmlookup (at_pending a) (am_View msg)")
    case None
    from atm_ok_adopt_new [OF ok this checks cand] adopt show ?thesis by auto
  next
    case (Some q)
    from atm_ok_adopt_old [OF ok this cand adopt] Some ok show ?thesis by auto
  qed
qed

lemma proof_ok_commit:
  assumes "commit_checks a msg proof = None" and "tm_Mvalid (at_tcm a) = c" and "(c, L) \<in> C"
    and "tp_NewConfigID proof \<in> {0, hc_ID (pa_config p)}" and "pa_blockHash p = tp_BlockHash proof"
    and votes: "check_votes env (hc_Validators c) (pending_digest env (am_View msg) p) (tp_AutoVotes proof)
      (gm_keys (tp_AutoVotes proof)) = Some None"
  shows "proof_ok env C (commit_proof proof p) \<and> tp_View (commit_proof proof p) = am_View msg \<and>
    tp_Leaves (commit_proof proof p) = pa_leaves p \<and> tp_NewConfigID (commit_proof proof p) = hc_ID (pa_config p)"
proof -
  have checks: "head_quorum (hc_Validators c) \<le> int (gm_len (tp_AutoVotes proof))" "tp_View proof = am_View msg"
    using assms(1,2) by (auto simp: commit_checks_def split: if_splits)
  have fields: "tp_View (commit_proof proof p) = am_View msg" "tp_Leaves (commit_proof proof p) = pa_leaves p"
    "tp_NewConfigID (commit_proof proof p) = hc_ID (pa_config p)" "tp_BlockHash (commit_proof proof p) = pa_blockHash p"
    "tp_AutoVotes (commit_proof proof p) = tp_AutoVotes proof"
    using checks(2) assms(4,5) by (auto simp: commit_proof_def)
  then have digest: "proof_digest env (commit_proof proof p) = pending_digest env (am_View msg) p"
    by (simp add: proof_digest_def pending_digest_def)
  show ?thesis
    using checks(1) check_votes_ok [OF votes] assms(3) unfolding proof_ok_def digest fields
    by (fastforce simp: set_gm_keys signer_ok_def)
qed

lemma atm_ok_commit_message:
  assumes ok: "atm_ok env C a" and step: "handleAutoCommit env now msg a = Some (a', r)"
  shows "atm_ok env C a'"
proof (cases "rejectStaleView a (am_View msg) \<noteq> None \<or> (\<exists>x. rejectReplay msg a = Inl x)")
  case True
  with step have "a' = a" by (auto simp: handleAutoCommit_def split: option.splits sum.splits)
  with ok show ?thesis by simp
next
  case start: False
  then obtain a1 where a1: "rejectReplay msg a = Inr a1" and fresh: "at_lastCommittedView a < am_View msg"
    using fresh_view by (cases "rejectReplay msg a") auto
  have eq: "a1 = a\<lparr>at_recent := at_recent a1\<rparr>"
    by (rule rejectReplay_Inr [OF a1])
  have ok1: "atm_ok env C a1" and view1: "at_lastCommittedView a1 < am_View msg"
    by (subst eq, simp add: ok atm_ok_recent fresh)+
  let ?rest = "\<lambda>proof. (case commit_candidate msg proof a1 of Inl r \<Rightarrow> Some (a1, Some r)
     | Inr (a2, p) \<Rightarrow> (case adopt_config_id msg proof p a2 of Inl r \<Rightarrow> Some (a2, Some r)
     | Inr (a3, p') \<Rightarrow>
        (case check_votes env (at_validators a3) (pending_digest env (am_View msg) p')
            (tp_AutoVotes proof) (gm_keys (tp_AutoVotes proof)) of
           None \<Rightarrow> None
         | Some (Some r) \<Rightarrow> Some (a3, Some r)
         | Some None \<Rightarrow> Some (call_back (pa_config p') (commit_proof proof p')
               (commitAutoTransitionLocked (am_View msg) p' a3), None))))"
  show ?thesis
  proof (cases "validateActiveValidator a1 (am_SenderID msg) = None \<and> IsInL (at_lset a1) (am_SenderID msg) \<and>
      (\<exists>proof. am_Proof msg = Some proof \<and> commit_checks a1 msg proof = None)")
    case False
    with step start a1 have "a' = a1"
      by (auto simp: handleAutoCommit_def split: option.splits sum.splits if_splits)
    with ok1 show ?thesis by simp
  next
    case True
    then obtain pf where pr: "am_Proof msg = Some pf" "commit_checks a1 msg pf = None" by blast
    with True start a1 have "handleAutoCommit env now msg a = ?rest pf"
      unfolding handleAutoCommit_def pending_digest_def commit_record by simp
    with step have go: "?rest pf = Some (a', r)" by simp
    show ?thesis
    proof (cases "commit_candidate msg pf a1")
      case (Inl x)
      with go ok1 show ?thesis by simp
    next
      case cand: (Inr ap)
      obtain a2 p where ap: "ap = (a2, p)" by (cases ap)
      note adopt = atm_ok_adopt [OF ok1 pr(2) cand [unfolded ap]]
      show ?thesis
      proof (cases "adopt_config_id msg pf p a2")
        case (Inl x)
        with go cand ap adopt(1) [OF Inl] show ?thesis by simp
      next
        case (Inr ap')
        obtain a3 p' where ap': "ap' = (a3, p')" by (cases ap')
        note a3 = adopt(2) [OF Inr [unfolded ap']]
        then have ok3: "atm_ok env C a3" and p': "fmlookup (at_pending a3) (am_View msg) = Some p'"
          and view3: "at_lastCommittedView a3 < am_View msg" using view1 by auto
        have mv3: "tm_Mvalid (at_tcm a3) = tm_Mvalid (at_tcm a1)" using a3 by simp
        show ?thesis
        proof (cases "check_votes env (at_validators a3) (pending_digest env (am_View msg) p')
            (tp_AutoVotes pf) (gm_keys (tp_AutoVotes pf)) = Some None")
          case True
          from proof_ok_commit [OF pr(2) mv3 [symmetric] atm_okD(1) [OF ok1, folded mv3] _ _ True] a3
          have "atm_ok env C (call_back (pa_config p') (commit_proof pf p') (commitAutoTransitionLocked (am_View msg) p' a3))"
            by (intro atm_ok_commit [OF ok3 p' view3]) auto
          with go cand ap Inr ap' True mv3 show ?thesis by simp
        next
          case False
          with go cand ap Inr ap' mv3 ok3 show ?thesis by (auto split: option.splits)
        qed
      qed
    qed
  qed
qed

section \<open>Every run\<close>

lemma atm_ok_step:
  assumes sha: "\<And>x. he_sha256 env x \<noteq> []" and ok: "atm_ok env C a" and step: "atm_step env a a'"
  shows "atm_ok env C a'"
  using step
proof (cases rule: atm_step.cases)
  case (message now mp r)
  show ?thesis
  proof (cases "\<exists>msg. mp = Some msg \<and> verifyMessageSignature env a msg = None")
    case True
    then obtain msg where msg: "mp = Some msg" "verifyMessageSignature env a msg = None" by blast
    with message ok show ?thesis
      by (cases "am_Type msg") (auto simp: HandleAutoTransitionMessage_def
          elim: atm_ok_propose [rotated 2] atm_ok_vote [OF _ sha, rotated 3] atm_ok_commit_message [rotated])
  next
    case False
    with message(2) ok show ?thesis
      by (auto simp: HandleAutoTransitionMessage_def split: option.splits)
  qed
next
  case (trigger view r)
  with ok show ?thesis by (blast intro: atm_ok_trigger)
qed (use ok in \<open>simp_all add: atm_ok_lset atm_ok_collect atm_ok_subscribe\<close>)

lemma atm_ok_run:
  assumes "\<And>x. he_sha256 env x \<noteq> []" and "(atm_step env)\<^sup>*\<^sup>* a a'" and "atm_ok env C a"
  shows "atm_ok env C a'"
  using assms(2,3) by (induction rule: rtranclp_induct) (blast intro: atm_ok_step [OF assms(1)])+

lemma atm_ok_new: "atm_ok env {(c, lm_LSet lm)} (NewAutoTransitionManager lm (NewTemporaryConfigurationManager c) net)"
  by (simp add: atm_ok_def votes_ok_def pending_ok_def ids_ok_def transitions_ok_def transitions_def
      NewAutoTransitionManager_def NewTemporaryConfigurationManager_def List.map_filter_def)

section \<open>Runs with changes of the configuration\<close>

text \<open>
  A step of the manager, or a change of the L-set and of the configuration manager from outside that
  keeps the counter of reserved identifiers above the old counter and the committed identifier.  That
  covers the installation of a committed configuration, membership requests and their application
  (lset.go); \<open>PromoteMhighToMvalid\<close>, which only tests call, can lower the counter and is no step.
\<close>

inductive hydra_step :: "hydra_env \<Rightarrow> atm \<Rightarrow> atm \<Rightarrow> bool" for env where
  own: "atm_step env a a' \<Longrightarrow> hydra_step env a a'"
| configure: "tm_reservedConfigID (at_tcm a) \<le> tm_reservedConfigID t \<Longrightarrow>
    tm_Mvalid t = tm_Mvalid (at_tcm a) \<or> hc_ID (tm_Mvalid t) \<le> tm_reservedConfigID t \<Longrightarrow>
    hydra_step env a (a\<lparr> at_tcm := t, at_lset := lm \<rparr>)"

text \<open>A run, with the committed configurations and L-sets the manager has had.\<close>

inductive hydra_run :: "hydra_env \<Rightarrow> atm \<Rightarrow> hydra_era set \<Rightarrow> atm \<Rightarrow> bool" for env a0 where
  start: "hydra_run env a0 {era a0} a0"
| step: "hydra_run env a0 C a \<Longrightarrow> hydra_step env a a' \<Longrightarrow> hydra_run env a0 (insert (era a') C) a'"

lemma atm_ok_mono:
  assumes "atm_ok env C a" and "C \<subseteq> D"
  shows "atm_ok env D a"
  using assms era_mono [OF assms(2)] unfolding atm_ok_def ids_ok_def by blast

lemma atm_ok_configure:
  assumes ok: "atm_ok env C a" and t: "tm_reservedConfigID (at_tcm a) \<le> tm_reservedConfigID t"
    "tm_Mvalid t = tm_Mvalid (at_tcm a) \<or> hc_ID (tm_Mvalid t) \<le> tm_reservedConfigID t"
  shows "atm_ok env (insert (tm_Mvalid t, lm_LSet lm) C) (a\<lparr> at_tcm := t, at_lset := lm \<rparr>)" (is "atm_ok env ?D ?b")
proof -
  have ok': "atm_ok env ?D a"
    by (rule atm_ok_mono [OF ok]) blast
  have "ids_ok ?D ?b"
    using ok t unfolding atm_ok_def ids_ok_def by (auto intro: order_trans)
  moreover have "pending_ok ?D ?b"
    using ok' t(1) unfolding atm_ok_def pending_ok_def by (auto intro: order_trans)
  moreover have "votes_ok env ?D ?b" "transitions_ok env ?D ?b"
    using ok' by (simp_all add: atm_ok_def votes_ok_def transitions_ok_def transitions_def)
  ultimately show ?thesis by (simp add: atm_ok_def)
qed

lemma atm_ok_hydra_step:
  assumes sha: "\<And>x. he_sha256 env x \<noteq> []" and ok: "atm_ok env C a" and "hydra_step env a a'"
  shows "atm_ok env (insert (era a') C) a'"
  using assms(3)
proof (cases rule: hydra_step.cases)
  case own
  from atm_ok_step [OF sha ok this] show ?thesis by (rule atm_ok_mono) blast
next
  case (configure t lm)
  from atm_ok_configure [OF ok configure(2,3), of lm] configure(1) show ?thesis by (simp add: era_def)
qed

lemma atm_ok_hydra_run:
  assumes "\<And>x. he_sha256 env x \<noteq> []" and "hydra_run env a0 C a" and "atm_ok env {era a0} a0"
  shows "atm_ok env C a"
  using assms(2,3) by induction (simp_all add: atm_ok_hydra_step [OF assms(1)])

text \<open>Without a change from outside there is one configuration and one L-set.\<close>

lemma atm_step_era:
  assumes sha: "\<And>x. he_sha256 env x \<noteq> []" and ok: "atm_ok env {era a} a" and "(atm_step env)\<^sup>*\<^sup>* a b"
  shows "hydra_run env a {era a} b \<and> era b = era a"
  using assms(3)
proof induction
  case base
  show ?case by (simp add: hydra_run.start)
next
  case (step b c)
  have "atm_ok env {era a} c"
    using atm_ok_run [OF sha _ ok] step(1,2) by (meson rtranclp.rtrancl_into_rtrancl)
  then have "era c = era a"
    using atm_okD(1) by (fastforce simp: era_def)
  moreover have "hydra_run env a (insert (era c) {era a}) c"
    using step by (intro hydra_run.step) (auto intro: hydra_step.own)
  ultimately show ?case by simp
qed

lemma hydra_run_steps: "(hydra_step env)\<^sup>*\<^sup>* a b \<Longrightarrow> \<exists>C. hydra_run env a C b"
  by (induction rule: rtranclp_induct) (blast intro: hydra_run.intros)+

end
