(* ===== verification/Hydra_Agreement.thy ===== *)
theory Hydra_Agreement
  imports Hydra_Safety
begin

text \<open>
  Automatic transitions of different nodes (hydra/autotransition.go): a node votes for one candidate
  per view, so two nodes that let a transition through in the same view agree on what was voted for.
\<close>

section \<open>One vote per view\<close>

text \<open>The votes a node has broadcast.\<close>

definition cast :: "atm \<Rightarrow> auto_message set" where
  "cast a = {m. AtmBroadcast m \<in> set (at_out a) \<and> am_Type m = AutoVote}"

text \<open>The votes of a view are for its candidate, or the view is over.\<close>

definition voted_ok :: "hydra_env \<Rightarrow> atm \<Rightarrow> bool" where
  "voted_ok env a \<longleftrightarrow>
     (\<forall>m \<in> cast a. am_View m \<le> at_lastCommittedView a \<or>
        (\<exists>p. fmlookup (at_pending a) (am_View m) = Some p \<and> VoteDigest env m = pending_digest env (am_View m) p)) \<and>
     (\<forall>m \<in> cast a. \<forall>m' \<in> cast a. am_View m = am_View m' \<longrightarrow> VoteDigest env m = VoteDigest env m')"

text \<open>Candidates are kept until their view is over.\<close>

definition keeps :: "atm \<Rightarrow> atm \<Rightarrow> bool" where
  "keeps a b \<longleftrightarrow> at_lastCommittedView a \<le> at_lastCommittedView b \<and> cast b = cast a \<and>
     (\<forall>v p. fmlookup (at_pending a) v = Some p \<longrightarrow> fmlookup (at_pending b) v = Some p \<or> v \<le> at_lastCommittedView b)"

lemma keeps_refl [simp]: "keeps a a"
  by (simp add: keeps_def)

lemma keeps_trans: "keeps a b \<Longrightarrow> keeps b c \<Longrightarrow> keeps a c"
  unfolding keeps_def by (metis order_trans)

lemma voted_ok_keeps:
  assumes voted: "voted_ok env a" and "keeps a b"
  shows "voted_ok env b"
proof -
  have k: "at_lastCommittedView a \<le> at_lastCommittedView b" "cast b = cast a"
    "\<And>v p. fmlookup (at_pending a) v = Some p \<Longrightarrow> fmlookup (at_pending b) v = Some p \<or> v \<le> at_lastCommittedView b"
    using assms(2) by (auto simp: keeps_def)
  have "am_View m \<le> at_lastCommittedView b \<or>
      (\<exists>p. fmlookup (at_pending b) (am_View m) = Some p \<and> VoteDigest env m = pending_digest env (am_View m) p)"
    if m: "m \<in> cast a" for m
  proof -
    consider "am_View m \<le> at_lastCommittedView a"
      | p where "fmlookup (at_pending a) (am_View m) = Some p" "VoteDigest env m = pending_digest env (am_View m) p"
      using voted m unfolding voted_ok_def by blast
    then show ?thesis
      using k(1,3) by cases (auto intro: order_trans)
  qed
  with voted show ?thesis
    unfolding voted_ok_def k(2) by blast
qed

lemma keeps_fields:
  "at_lastCommittedView b = at_lastCommittedView a \<Longrightarrow> at_pending b = at_pending a \<Longrightarrow> at_out b = at_out a \<Longrightarrow> keeps a b"
  by (simp add: keeps_def cast_def)

lemma keeps_recent: "rejectReplay msg a = Inr b \<Longrightarrow> keeps a b"
  by (drule rejectReplay_Inr) (rule keeps_fields; erule ssubst; simp)

lemma keeps_ensure: "keeps a (ensure_collector now view a)"
  by (rule keeps_fields) (simp_all add: ensure_collector_def)

lemma keeps_candidate: "propose_candidate msg a = Inr b \<Longrightarrow> keeps a b"
  by (auto simp: propose_candidate_def keeps_def cast_def storePendingAutoConfig_def ReserveNextConfigID_def Let_def
      split: option.splits if_splits)

lemma keeps_commit:
  assumes "at_lastCommittedView a < view"
  shows "keeps a (call_back c tp (commitAutoTransitionLocked view p a))"
  using assms by (auto simp: keeps_def cast_def call_back_def atm_emit_def commitAutoTransitionLocked_def)

lemma keeps_ready:
  assumes "at_lastCommittedView a < view" and "commitReadyForView view a = Inr (b, formed)"
  shows "keeps a b"
  using assms by (auto simp: commitReadyForView_def intro: keeps_commit split: option.splits if_splits)

lemma keeps_adopt:
  assumes "atm_ok env C a" and "commit_checks a msg proof = None" and "commit_candidate msg proof a = Inr (a2, p)"
  shows "keeps a a2" and "adopt_config_id msg proof p a2 = Inr (a3, p') \<Longrightarrow> keeps a a3"
proof -
  show first: "keeps a a2"
    using assms(3) by (auto simp: commit_candidate_def keeps_def cast_def split: option.splits sum.splits if_splits)
  show "keeps a a3" if adopt: "adopt_config_id msg proof p a2 = Inr (a3, p')"
  proof (cases "fmlookup (at_pending a) (am_View msg)")
    case None
    have "at_lastCommittedView a3 = at_lastCommittedView a2" "cast a3 = cast a2"
      "\<forall>v. v \<noteq> am_View msg \<longrightarrow> fmlookup (at_pending a3) v = fmlookup (at_pending a2) v"
      using adopt by (auto simp: adopt_config_id_def Let_def cast_def split: if_splits)
    moreover have "v \<noteq> am_View msg" if "fmlookup (at_pending a) v = Some q" for v q
      using that None by auto
    ultimately show ?thesis
      using first by (simp add: keeps_def)
  next
    case (Some q)
    from atm_ok_adopt_old [OF assms(1) this assms(3) adopt] show ?thesis by simp
  qed
qed

lemma emit_proposal: "cast (atm_emit [AtmBroadcast m] a) = (if am_Type m = AutoVote then insert m (cast a) else cast a)"
  by (auto simp: cast_def atm_emit_def)

lemma am_Sign_fields:
  "am_Sign env key msg = Some (Inr m) \<Longrightarrow>
   am_Type m = am_Type msg \<and> am_View m = am_View msg \<and> VoteDigest env m = VoteDigest env msg"
  by (auto simp: am_Sign_def VoteDigest_def split: option.splits if_splits)

lemma voted_ok_trigger:
  assumes "voted_ok env a" and "TriggerAutoTransition env view a = Some (b, r)"
  shows "voted_ok env b"
proof (cases "b = a")
  case False
  then obtain m where m: "am_Sign env (at_privateKey a)
      ((blank_auto AutoPropose a view)\<lparr>am_Leaves := identifyMisbehaving a\<rparr>) = Some (Inr m)"
    and b: "b = atm_emit [AtmBroadcast m] a"
    using assms(2) by (auto simp: TriggerAutoTransition_def sign_and_broadcast_def split: if_splits option.splits sum.splits)
  have "cast b = cast a"
    using am_Sign_fields [OF m] by (simp add: b emit_proposal blank_auto_def)
  then have "keeps a b"
    by (simp add: keeps_def b atm_emit_def)
  with assms(1) show ?thesis by (rule voted_ok_keeps)
qed (use assms in simp)

lemma voted_ok_cast:
  assumes ok: "atm_ok env C a" and voted: "voted_ok env a" and fresh: "at_lastCommittedView a < view"
    and step: "cast_vote env view a = Some (b, r)"
  shows "voted_ok env b"
proof (cases "b = a")
  case False
  then obtain p m where p: "fmlookup (at_pending a) view = Some p" "hc_ID (pa_config p) \<noteq> 0"
    and m: "am_Sign env (at_privateKey a) ((blank_auto AutoVote a view)\<lparr> am_BlockHash := pa_blockHash p,
        am_Leaves := pa_leaves p, am_NewConfigID := hc_ID (pa_config p) \<rparr>) = Some (Inr m)"
    and b: "b = atm_emit [AtmBroadcast m] a"
    using step by (auto simp: cast_vote_def sign_and_broadcast_def split: if_splits option.splits sum.splits)
  from am_Sign_fields [OF m] p(2) have f: "am_Type m = AutoVote" "am_View m = view" "VoteDigest env m = pending_digest env view p"
    by (auto simp: blank_auto_def VoteDigest_def pending_digest_def)
  have old: "VoteDigest env x = pending_digest env view p" if x: "x \<in> cast a" "am_View x = view" for x
  proof -
    have "\<not> am_View x \<le> at_lastCommittedView a"
      using x(2) fresh by simp
    then obtain q where "fmlookup (at_pending a) (am_View x) = Some q" "VoteDigest env x = pending_digest env (am_View x) q"
      using voted x(1) unfolding voted_ok_def by blast
    then show ?thesis using x(2) p(1) by simp
  qed
  have b': "at_lastCommittedView b = at_lastCommittedView a" "at_pending b = at_pending a" "cast b = insert m (cast a)"
    using f(1) by (simp_all add: b emit_proposal) (simp_all add: atm_emit_def)
  have same: "VoteDigest env x = VoteDigest env y" if "x \<in> insert m (cast a)" "y \<in> insert m (cast a)" "am_View x = am_View y" for x y
  proof (cases "am_View x = view")
    case True
    then have "VoteDigest env z = pending_digest env view p" if "z = m \<or> z \<in> cast a" "am_View z = view" for z
      using that f(3) old by blast
    with True that show ?thesis by simp
  next
    case False
    then have "x \<in> cast a" "y \<in> cast a"
      using that f(2) by auto
    with that(3) voted show ?thesis unfolding voted_ok_def by blast
  qed
  have "am_View x \<le> at_lastCommittedView a \<or>
      (\<exists>p. fmlookup (at_pending a) (am_View x) = Some p \<and> VoteDigest env x = pending_digest env (am_View x) p)"
    if "x \<in> insert m (cast a)" for x
  proof (cases "x = m")
    case True
    with f p(1) show ?thesis by simp
  next
    case False
    with that voted show ?thesis unfolding voted_ok_def by blast
  qed
  with same show ?thesis
    unfolding voted_ok_def b' by blast
qed (use voted in simp)


section \<open>Runs\<close>

lemma voted_ok_propose:
  assumes ok: "atm_ok env C a" and voted: "voted_ok env a" and room: "tm_reservedConfigID (at_tcm a) < u64_max"
    and step: "handleAutoPropose env now msg a = Some (a', r)"
  shows "voted_ok env a'"
proof (cases "a' = a")
  case False
  then obtain a1 where a1: "rejectReplay msg a = Inr a1" and stale: "rejectStaleView a (am_View msg) = None"
    using step by (auto simp: handleAutoPropose_def split: if_splits option.splits sum.splits)
  have eq: "a1 = a\<lparr>at_recent := at_recent a1\<rparr>"
    by (rule rejectReplay_Inr [OF a1])
  have ok1: "atm_ok env C a1" and room1: "tm_reservedConfigID (at_tcm a1) < u64_max"
    and view1: "at_lastCommittedView a1 < am_View msg"
    by (subst eq, simp add: ok atm_ok_recent room fresh_view [OF stale])+
  note voted1 = voted_ok_keeps [OF voted keeps_recent [OF a1]]
  show ?thesis
  proof (cases "a' = a1")
    case True
    with voted1 show ?thesis by simp
  next
    case go: False
    then obtain a2 where leaves: "validateAutoProposeLeaves a1 msg = None" and a2: "propose_candidate msg a1 = Inr a2"
      and val: "validateActiveValidator a1 (am_SenderID msg) = None" and L: "IsInL (at_lset a) (am_SenderID msg)"
      using step False a1 stale by (auto simp: handleAutoPropose_def split: if_splits option.splits sum.splits)
    let ?a3 = "ensure_collector now (am_View msg) a2"
    have ok3: "atm_ok env C ?a3"
      by (intro atm_ok_ensure atm_ok_candidate [OF ok1 room1 leaves a2])
    have view3: "at_lastCommittedView ?a3 < am_View msg"
      using view1 propose_candidate_view [OF a2] by simp
    have voted3: "voted_ok env ?a3"
      by (intro voted_ok_keeps [OF _ keeps_ensure] voted_ok_keeps [OF voted1 keeps_candidate [OF a2]])
    have rest: "handleAutoPropose env now msg a = (case commitReadyForView (am_View msg) ?a3 of Inl r \<Rightarrow> Some (?a3, Some r)
        | Inr (a4, True) \<Rightarrow> Some (a4, None) | Inr (a4, False) \<Rightarrow> cast_vote env (am_View msg) a4)"
      using L stale a1 val leaves a2 bind_nothing [OF ok3, of "am_View msg"] by (simp add: handleAutoPropose_def Let_def)
    show ?thesis
    proof (cases "commitReadyForView (am_View msg) ?a3")
      case (Inl x)
      with step rest voted3 show ?thesis by simp
    next
      case (Inr q)
      obtain a4 formed where q: "q = (a4, formed)" by (cases q)
      have voted4: "voted_ok env a4"
        by (rule voted_ok_keeps [OF voted3 keeps_ready [OF view3 Inr [unfolded q]]])
      show ?thesis
      proof (cases formed)
        case True
        with step rest Inr q voted4 show ?thesis by simp
      next
        case no: False
        then have "a4 = ?a3"
          using Inr q by (auto simp: commitReadyForView_def split: option.splits if_splits)
        with step rest Inr q no voted_ok_cast [OF ok3 voted3 view3] show ?thesis by simp
      qed
    qed
  qed
qed (use voted in simp)

lemma voted_ok_vote:
  assumes voted: "voted_ok env a" and step: "handleAutoVote env now msg a = Some (a', r)"
  shows "voted_ok env a'"
proof (cases "a' = a")
  case False
  then obtain p a1 where a1: "rejectReplay msg a = Inr a1" and stale: "rejectStaleView a (am_View msg) = None"
    and val: "validateActiveValidator a (am_SenderID msg) = None" and p: "fmlookup (at_pending a) (am_View msg) = Some p"
    using step by (auto simp: handleAutoVote_def split: option.splits sum.splits)
  let ?a2 = "ensure_collector now (am_View msg) a1"
  have eq: "a1 = a\<lparr>at_recent := at_recent a1\<rparr>"
    by (rule rejectReplay_Inr [OF a1])
  have view2: "at_lastCommittedView ?a2 < am_View msg"
    using fresh_view [OF stale] by (simp, subst eq, simp)
  have k2: "keeps a ?a2"
    by (rule keeps_trans [OF keeps_recent [OF a1] keeps_ensure])
  obtain c where c: "fmlookup (at_collectors ?a2) (am_View msg) = Some c"
    using ensure_collector_at by blast
  have k3: "keeps a (?a2\<lparr>at_collectors := x\<rparr>)" for x
    by (rule keeps_trans [OF k2 keeps_fields]) simp_all
  have "keeps a a'"
    using step a1 stale val p c k2 k3 view2
    by (auto simp: handleAutoVote_def Let_def elim!: keeps_trans [OF _ keeps_ready, rotated 2]
        split: if_splits sum.splits prod.splits)
  with voted show ?thesis by (rule voted_ok_keeps)
qed (use voted in simp)


lemma voted_ok_commit_message:
  assumes ok: "atm_ok env C a" and voted: "voted_ok env a" and step: "handleAutoCommit env now msg a = Some (a', r)"
  shows "voted_ok env a'"
proof -
  have "keeps a a'"
  proof (cases "a' = a")
    case False
    then obtain a1 where a1: "rejectReplay msg a = Inr a1" and stale: "rejectStaleView a (am_View msg) = None"
      using step by (auto simp: handleAutoCommit_def split: option.splits sum.splits)
    have eq: "a1 = a\<lparr>at_recent := at_recent a1\<rparr>"
      by (rule rejectReplay_Inr [OF a1])
    have ok1: "atm_ok env C a1" and view1: "at_lastCommittedView a1 < am_View msg"
      by (subst eq, simp add: ok atm_ok_recent fresh_view [OF stale])+
    note k1 = keeps_recent [OF a1]
    show ?thesis
    proof (cases "a' = a1")
      case True
      with k1 show ?thesis by simp
    next
      case go: False
      with False obtain pf a2 p where pf: "commit_checks a1 msg pf = None" and cand: "commit_candidate msg pf a1 = Inr (a2, p)"
        and rest: "a' = a2 \<or> (\<exists>a3 p'. adopt_config_id msg pf p a2 = Inr (a3, p') \<and>
          (a' = a3 \<or> a' = call_back (pa_config p') (commit_proof pf p') (commitAutoTransitionLocked (am_View msg) p' a3)))"
        using step a1 stale unfolding handleAutoCommit_def commit_record
        by (auto split: option.splits sum.splits if_splits)
      note k2 = keeps_trans [OF k1 keeps_adopt(1) [OF ok1 pf cand]]
      from rest show ?thesis
      proof (elim disjE exE conjE)
        fix a3 p' assume adopt: "adopt_config_id msg pf p a2 = Inr (a3, p')"
        note k3 = keeps_trans [OF k1 keeps_adopt(2) [OF ok1 pf cand adopt]]
        have "at_lastCommittedView a3 < am_View msg"
          using atm_ok_adopt(2) [OF ok1 pf cand adopt] view1 by simp
        note k4 = keeps_trans [OF k3 keeps_commit [OF this]]
        show "keeps a a'" if "a' = a3" using k3 that by simp
        show "keeps a a'" if "a' = call_back (pa_config p') (commit_proof pf p') (commitAutoTransitionLocked (am_View msg) p' a3)"
          using k4 that by simp
      qed (use k2 in simp)
    qed
  qed simp
  with voted show ?thesis by (rule voted_ok_keeps)
qed

lemma voted_ok_step:
  assumes ok: "atm_ok env C a" and voted: "voted_ok env a" and step: "atm_step env a a'"
  shows "voted_ok env a'"
  using step
proof (cases rule: atm_step.cases)
  case (message now mp r)
  with voted show ?thesis
    by (auto simp: HandleAutoTransitionMessage_def split: option.splits AutoTransitionType.splits
        elim: voted_ok_propose [OF ok voted, rotated] voted_ok_vote [OF voted] voted_ok_commit_message [OF ok voted])
next
  case (trigger view r)
  with voted show ?thesis by (blast intro: voted_ok_trigger)
qed (use voted in \<open>auto simp: OnTransition_def atm_GCCollectors_def elim!: voted_ok_keeps intro!: keeps_fields\<close>)

text \<open>A node as the Hydra manager creates it.\<close>

definition start_atm :: "u64 \<Rightarrow> bytes \<Rightarrow> lset_manager \<Rightarrow> hydra_config \<Rightarrow> bool \<Rightarrow> atm" where
  "start_atm i key lm c net =
     atm_SetPrivateKey key (atm_SetNodeID i (NewAutoTransitionManager lm (NewTemporaryConfigurationManager c) net))"

lemma start_ok: "atm_ok env {(c, lm_LSet lm)} (start_atm i key lm c net)" "voted_ok env (start_atm i key lm c net)"
  by (simp_all add: start_atm_def atm_SetPrivateKey_def atm_SetNodeID_def atm_ok_def votes_ok_def pending_ok_def ids_ok_def
      transitions_ok_def transitions_def NewAutoTransitionManager_def NewTemporaryConfigurationManager_def List.map_filter_def
      voted_ok_def cast_def)

lemma run_ok_both:
  assumes sha: "\<And>x. he_sha256 env x \<noteq> []" and "(atm_step env)\<^sup>*\<^sup>* (start_atm i key lm c net) a"
  shows "atm_ok env {(c, lm_LSet lm)} a \<and> voted_ok env a"
  using assms(2) by (induction rule: rtranclp_induct) (auto simp: start_ok intro: atm_ok_step [OF sha] voted_ok_step)

section \<open>Agreement\<close>

interpretation hq: weighted_quorum "\<lambda>vs :: validators. fset (fmdom vs)" "\<lambda>_ _. 1" "\<lambda>vs. nat (head_quorum vs)" "\<lambda>_. True"
proof unfold_locales
  fix vs :: validators
  have "2 * int (gm_len vs) < 3 * head_quorum vs"
    by (simp add: head_quorum_def)
  then have "2 * gm_len vs < 3 * nat (head_quorum vs)"
    by linarith
  then show "2 * sum (\<lambda>_. 1) (fset (fmdom vs)) < 3 * nat (head_quorum vs)"
    by (simp add: gm_len_card)
qed simp

text \<open>
  What is assumed of the signature scheme for an honest validator \<open>i\<close> whose manager is in the state
  \<open>a\<close>: only digests it has voted for verify under its key.
\<close>

definition votes_unforgeable :: "hydra_env \<Rightarrow> hydra_config \<Rightarrow> u64 \<Rightarrow> atm \<Rightarrow> bool" where
  "votes_unforgeable env c i a \<longleftrightarrow> (\<forall>w view leaves bh cid s. get_validator (hc_Validators c) i = Some w \<longrightarrow>
     he_verify env (v_PublicKey w) (autoTransitionDigest (he_sha256 env) view leaves bh cid) s \<longrightarrow>
     (\<exists>m \<in> cast a. am_View m = view \<and> VoteDigest env m = autoTransitionDigest (he_sha256 env) view leaves bh cid))"

lemma proof_signers:
  assumes "proof_ok env {(mv, L)} tp"
  shows "fset (fmdom (tp_AutoVotes tp)) \<subseteq> fset (fmdom (hc_Validators mv))"
    "nat (head_quorum (hc_Validators mv)) \<le> card (fset (fmdom (tp_AutoVotes tp)))"
    "i |\<in>| fmdom (tp_AutoVotes tp) \<Longrightarrow> \<exists>w s. get_validator (hc_Validators mv) i = Some w \<and>
       he_verify env (v_PublicKey w) (proof_digest env tp) s"
proof -
  show signer: "\<exists>w s. get_validator (hc_Validators mv) i = Some w \<and> he_verify env (v_PublicKey w) (proof_digest env tp) s"
    if "i |\<in>| fmdom (tp_AutoVotes tp)" for i
    using assms that unfolding proof_ok_def signer_ok_def by blast
  show "fset (fmdom (tp_AutoVotes tp)) \<subseteq> fset (fmdom (hc_Validators mv))"
    using signer by (fastforce simp: get_validator_def fmlookup_dom_iff split: option.splits)
  show "nat (head_quorum (hc_Validators mv)) \<le> card (fset (fmdom (tp_AutoVotes tp)))"
    using assms by (simp add: proof_ok_def gm_len_card nat_le_iff)
qed

text \<open>Two proofs of one view have a common honest signer, who has voted for one digest.\<close>

lemma proofs_same_digest:
  assumes sha: "\<And>x. he_sha256 env x \<noteq> []" and ok: "proof_ok env {(c, L)} tp" "proof_ok env {(c, L')} tp'" and view: "tp_View tp' = tp_View tp"
    and faulty: "3 * card (F \<inter> fset (fmdom (hc_Validators c))) \<le> gm_len (hc_Validators c)"
    and honest: "\<forall>i \<in> fset (fmdom (hc_Validators c)) - F. \<exists>key lm net a.
      (atm_step env)\<^sup>*\<^sup>* (start_atm i key lm c net) a \<and> votes_unforgeable env c i a"
  shows "proof_digest env tp' = proof_digest env tp"
proof -
  note s = proof_signers [OF ok(1)] and s' = proof_signers [OF ok(2)]
  have "\<exists>i \<in> fset (fmdom (tp_AutoVotes tp)) \<inter> fset (fmdom (tp_AutoVotes tp')). i \<notin> F"
    using hq.overlap_honest [OF TrueI s(1) s'(1), where F = F] s(2) s'(2) faulty by (simp add: gm_len_card)
  then obtain i where i: "i |\<in>| fmdom (tp_AutoVotes tp)" "i |\<in>| fmdom (tp_AutoVotes tp')" "i \<notin> F" by auto
  then obtain key lm net a where run: "(atm_step env)\<^sup>*\<^sup>* (start_atm i key lm c net) a" and unf: "votes_unforgeable env c i a"
    using honest s(1) by blast
  have "\<exists>m \<in> cast a. am_View m = tp_View x \<and> VoteDigest env m = proof_digest env x" if "x = tp \<or> x = tp'" for x
  proof -
    have "\<exists>w q. get_validator (hc_Validators c) i = Some w \<and> he_verify env (v_PublicKey w) (proof_digest env x) q"
      using that s(3) [OF i(1)] s'(3) [OF i(2)] by blast
    then show ?thesis
      using unf unfolding votes_unforgeable_def proof_digest_def by blast
  qed
  then obtain m m' where "m \<in> cast a" "am_View m = tp_View tp" "VoteDigest env m = proof_digest env tp"
    and "m' \<in> cast a" "am_View m' = tp_View tp" "VoteDigest env m' = proof_digest env tp'"
    using view by metis
  then show ?thesis
    using run_ok_both [OF sha run] unfolding voted_ok_def by metis
qed

end
