(* ===== verification/Hydra_Properties.thy ===== *)
theory Hydra_Properties
  imports Hydra_Agreement
begin

text \<open>
  The properties of automatic transitions (hydra/autotransition.go): what a transition is backed by,
  that transitions of different nodes agree, and who can exhaust the identifiers of configurations.
\<close>

section \<open>A small cluster\<close>

text \<open>Four validators, of which 0, 1 and 2 are the L-set; 0 is found unavailable and voted out in view 1.\<close>

definition hy_validator :: "u64 \<Rightarrow> validator" where
  "hy_validator i = \<lparr> v_ID = i, v_PublicKey = replicate 32 (ucast i), v_VRFPublicKey = [], v_Power = 1, v_IsActive = True \<rparr>"

definition hy_config :: hydra_config where
  "hy_config = \<lparr> hc_ID = 0, hc_Validators = fmap_of_list (map (\<lambda>i. (i, Some (hy_validator i))) [0, 1, 2, 3]),
     hc_QuorumSize = 3, hc_BlockHash = [] \<rparr>"

definition hy_sha :: "bytes \<Rightarrow> bytes" where
  "hy_sha x = 0 # x"

definition hy_digest :: bytes where
  "hy_digest = autoTransitionDigest hy_sha 1 [0] [] 1"

definition hy_env :: hydra_env where
  "hy_env = \<lparr> he_sha256 = hy_sha, he_json = (\<lambda>m. Some [9]), he_sign = (\<lambda>k m. [1]),
     he_verify = (\<lambda>k m s. m = [9] \<or> m = hy_digest) \<rparr>"

definition hy_start :: "u64 \<Rightarrow> atm" where
  "hy_start i = start_atm i (replicate 64 0) (NewLSetManager (hc_Validators hy_config)) hy_config True"

definition hy_marked :: "u64 \<Rightarrow> atm" where
  "hy_marked i = (let a = OnTransition (hy_start i) in a\<lparr>at_lset := MarkFault 5 0 FaultClassUnavailable (at_lset a)\<rparr>)"

definition hy_message :: "AutoTransitionType \<Rightarrow> u64 \<Rightarrow> u64 \<Rightarrow> auto_message" where
  "hy_message ty j cid = \<lparr> am_Type = ty, am_SenderID = j, am_View = 1, am_BlockHash = [], am_Leaves = [0],
     am_NewConfigID = cid, am_Proof = None, am_Signature = [1] \<rparr>"

definition hy_receive :: "auto_message \<Rightarrow> atm \<Rightarrow> atm" where
  "hy_receive m a = fst (the (HandleAutoTransitionMessage hy_env 6 (Some m) a))"

definition hy_proposed :: "u64 \<Rightarrow> atm" where
  "hy_proposed i = hy_receive (hy_message AutoPropose 1 0) (hy_marked i)"

definition hy_voted :: "u64 list \<Rightarrow> atm" where
  "hy_voted js = fold (\<lambda>j. hy_receive (hy_message AutoVote j 1)) js (hy_proposed 1)"

lemma hy_sha_laws: "inj (he_sha256 hy_env)" "\<forall>x. he_sha256 hy_env x \<noteq> []"
  by (auto simp: hy_env_def hy_sha_def inj_def)

lemma hy_receive_step:
  assumes "HandleAutoTransitionMessage hy_env 6 (Some m) a \<noteq> None" and "tm_reservedConfigID (at_tcm a) < u64_max"
  shows "atm_step hy_env a (hy_receive m a)"
  using assms atm_step.message [of a hy_env 6 "Some m"] by (auto simp: hy_receive_def)

lemma hy_marked_run: "(atm_step hy_env)\<^sup>*\<^sup>* (hy_start i) (hy_marked i)"
proof -
  have "atm_step hy_env (hy_start i) (OnTransition (hy_start i))"
    by (rule atm_step.subscribe)
  moreover have "atm_step hy_env (OnTransition (hy_start i)) (hy_marked i)"
    unfolding hy_marked_def Let_def by (rule atm_step.mark)
  ultimately show ?thesis by simp
qed

lemma hy_proposed_run:
  assumes "i \<in> {0, 1, 2, 3}"
  shows "(atm_step hy_env)\<^sup>*\<^sup>* (hy_start i) (hy_proposed i)"
proof -
  have "list_all (\<lambda>i. HandleAutoTransitionMessage hy_env 6 (Some (hy_message AutoPropose 1 0)) (hy_marked i) \<noteq> None \<and>
      tm_reservedConfigID (at_tcm (hy_marked i)) < u64_max) [0, 1, 2, 3]"
    by code_simp
  with assms have "atm_step hy_env (hy_marked i) (hy_proposed i)"
    unfolding hy_proposed_def by (intro hy_receive_step) auto
  with hy_marked_run show ?thesis by (rule rtranclp.rtrancl_into_rtrancl)
qed


lemma hy_voted_run: "(atm_step hy_env)\<^sup>*\<^sup>* (hy_start 1) (hy_voted [1, 2, 3])"
proof -
  have "list_all (\<lambda>(j, js). HandleAutoTransitionMessage hy_env 6 (Some (hy_message AutoVote j 1)) (hy_voted js) \<noteq> None \<and>
      tm_reservedConfigID (at_tcm (hy_voted js)) < u64_max) [(1, []), (2, [1]), (3, [1, 2])]"
    by code_simp
  then have "atm_step hy_env (hy_voted []) (hy_voted [1])" "atm_step hy_env (hy_voted [1]) (hy_voted [1, 2])"
    "atm_step hy_env (hy_voted [1, 2]) (hy_voted [1, 2, 3])"
    unfolding hy_voted_def by (auto intro!: hy_receive_step)
  moreover have "(atm_step hy_env)\<^sup>*\<^sup>* (hy_start 1) (hy_voted [])"
    using hy_proposed_run [of 1] by (simp add: hy_voted_def)
  ultimately show ?thesis by (meson rtranclp.rtrancl_into_rtrancl)
qed

lemma hy_transition:
  "\<exists>c tp. AtmTransition c tp \<in> set (at_out (hy_voted [1, 2, 3])) \<and> tp_View tp = 1 \<and> tp_Leaves tp = [0] \<and> tp_NewConfigID tp = 1"
proof -
  have "list_ex (\<lambda>ev. case ev of AtmTransition c tp \<Rightarrow> tp_View tp = 1 \<and> tp_Leaves tp = [0] \<and> tp_NewConfigID tp = 1
      | AtmBroadcast m \<Rightarrow> False) (at_out (hy_voted [1, 2, 3]))"
    by code_simp
  then obtain ev where ev: "ev \<in> set (at_out (hy_voted [1, 2, 3]))" "case ev of AtmTransition c tp \<Rightarrow>
      tp_View tp = 1 \<and> tp_Leaves tp = [0] \<and> tp_NewConfigID tp = 1 | AtmBroadcast m \<Rightarrow> False"
    unfolding list_ex_iff by blast
  show ?thesis
  proof (cases ev)
    case (AtmTransition c tp)
    with ev show ?thesis by (intro exI [of _ c] exI [of _ tp]) simp
  qed (use ev in simp)
qed

section \<open>What a transition is backed by\<close>

lemma transition_ok:
  assumes "\<forall>x. he_sha256 env x \<noteq> []" and "(atm_step env)\<^sup>*\<^sup>* (start_atm i key lm c net) a"
    and "AtmTransition d tp \<in> set (at_out a)"
  shows "proof_ok env {(c, lm_LSet lm)} tp \<and> d = without (tp_Leaves tp) c (tp_NewConfigID tp) \<and>
    leaves_ok (lm_LSet lm) (tp_Leaves tp) \<and> hc_ID c < tp_NewConfigID tp"
proof -
  have "transitions_ok env {(c, lm_LSet lm)} a"
    using run_ok_both [OF _ assms(2)] assms(1) by (auto simp: atm_ok_def)
  moreover have "(d, tp) \<in> set (transitions a)"
    using assms(3) by (force simp: transitions_def List.map_filter_def)
  ultimately have "proof_ok env {(c, lm_LSet lm)} tp \<and> candidate_ok {(c, lm_LSet lm)} (tp_Leaves tp) d \<and> hc_ID d = tp_NewConfigID tp"
    unfolding transitions_ok_def by blast
  then show ?thesis by (auto simp: candidate_ok_def)
qed

lemma start_era_ok: "atm_ok env {era (start_atm i key lm c net)} (start_atm i key lm c net)"
  using start_ok(1) [of env c lm i key net] by (simp add: era_def start_atm_def atm_SetPrivateKey_def atm_SetNodeID_def
      NewAutoTransitionManager_def NewTemporaryConfigurationManager_def)

text \<open>
  C6: an automatic transition needs a quorum, also across installations of committed
  configurations.  Let \<open>C\<close> be the committed configurations, with their L-sets, that a manager has had
  in a run of messages, triggers, marks and changes of the configuration (which may not lower the
  counter of reserved identifiers; messages are handled below its maximum; the digest is never
  empty).  Whenever the transition callback was called, at least \<open>2n/3 + 1\<close> validators, \<open>n\<close> the size of
  a configuration in \<open>C\<close>, have signed the digest of exactly this view, these leaves, this block hash
  and this identifier under the key they have in a configuration in \<open>C\<close>; and the candidate is a
  configuration in \<open>C\<close> without the leaves, which belong to its L-set, under a larger identifier.
  Without an installation \<open>C\<close> has one element.
\<close>

theorem hydra_transition_backed:
  assumes "\<forall>x. he_sha256 env x \<noteq> []" and "hydra_run env (start_atm i key lm init net) C a"
    and "AtmTransition d tp \<in> set (at_out a)"
  shows "(\<exists>c L. (c, L) \<in> C \<and> head_quorum (hc_Validators c) \<le> int (card {j. \<exists>v c' L' w.
      fmlookup (tp_AutoVotes tp) j = Some (Some v) \<and> (c', L') \<in> C \<and> get_validator (hc_Validators c') j = Some w \<and>
      he_verify env (v_PublicKey w)
        (autoTransitionDigest (he_sha256 env) (tp_View tp) (tp_Leaves tp) (tp_BlockHash tp) (tp_NewConfigID tp))
        (hav_Signature v)})) \<and>
    hc_ID d = tp_NewConfigID tp \<and> tp_Leaves tp \<noteq> [] \<and>
    (\<exists>c L. (c, L) \<in> C \<and> hc_ID c < hc_ID d \<and> set (tp_Leaves tp) \<subseteq> fset (fmdom L) \<and>
      hc_Validators d = fmdrop_fset (fset_of_list (tp_Leaves tp)) (hc_Validators c))"
proof -
  have "transitions_ok env C a"
    using atm_ok_hydra_run [OF _ assms(2) start_era_ok] assms(1) by (simp add: atm_ok_def)
  moreover have "(d, tp) \<in> set (transitions a)"
    using assms(3) by (force simp: transitions_def List.map_filter_def)
  ultimately have pr: "proof_ok env C tp" and cand: "candidate_ok C (tp_Leaves tp) d" and id: "hc_ID d = tp_NewConfigID tp"
    unfolding transitions_ok_def by blast+
  let ?S = "{j. \<exists>v c' L' w. fmlookup (tp_AutoVotes tp) j = Some (Some v) \<and> (c', L') \<in> C \<and>
      get_validator (hc_Validators c') j = Some w \<and> he_verify env (v_PublicKey w) (proof_digest env tp) (hav_Signature v)}"
  have sub: "fset (fmdom (tp_AutoVotes tp)) \<subseteq> ?S"
    using pr unfolding proof_ok_def signer_ok_def by blast
  have "finite ?S"
    by (rule finite_subset [of _ "fset (fmdom (tp_AutoVotes tp))"]) (auto intro: fmdomI)
  then have "gm_len (tp_AutoVotes tp) \<le> card ?S"
    using sub by (simp add: gm_len_card card_mono)
  then have "\<exists>c L. (c, L) \<in> C \<and> head_quorum (hc_Validators c) \<le> int (card ?S)"
    using pr unfolding proof_ok_def by (meson of_nat_mono order_trans)
  moreover have "hc_Validators (without leaves c j) = fmdrop_fset (fset_of_list leaves) (hc_Validators c)" for leaves c j
    by (simp add: without_def Let_def)
  then have "\<exists>c L. (c, L) \<in> C \<and> hc_ID c < hc_ID d \<and> set (tp_Leaves tp) \<subseteq> fset (fmdom L) \<and>
      hc_Validators d = fmdrop_fset (fset_of_list (tp_Leaves tp)) (hc_Validators c)"
    using cand unfolding candidate_ok_def leaves_ok_def by metis
  ultimately show ?thesis
    using id cand unfolding proof_digest_def candidate_ok_def leaves_ok_def by blast
qed

text \<open>
  Two transitions with an installation in between: 0 is voted out in view 1, the configuration
  without it is installed, and 1 is voted out in view 2.  Every signature \<open>[1]\<close> counts.
\<close>

definition hz_env :: hydra_env where
  "hz_env = hy_env\<lparr>he_verify := (\<lambda>k m s. s = [1])\<rparr>"

definition hz_receive :: "auto_message \<Rightarrow> atm \<Rightarrow> atm" where
  "hz_receive m a = fst (the (HandleAutoTransitionMessage hz_env 6 (Some m) a))"

definition hz_second :: "AutoTransitionType \<Rightarrow> u64 \<Rightarrow> u64 \<Rightarrow> auto_message" where
  "hz_second ty j cid = (hy_message ty j cid)\<lparr> am_View := 2, am_Leaves := [1] \<rparr>"

definition hz_first_view :: "auto_message list" where
  "hz_first_view = [hy_message AutoPropose 1 0, hy_message AutoVote 1 1, hy_message AutoVote 2 1, hy_message AutoVote 3 1]"

definition hz_second_view :: "auto_message list" where
  "hz_second_view = [hz_second AutoPropose 2 0, hz_second AutoVote 1 2, hz_second AutoVote 2 2, hz_second AutoVote 3 2]"

definition hz_config :: hydra_config where
  "hz_config = without [0] hy_config 1"

definition hz_installed :: atm where
  "hz_installed = (let a = fold hz_receive hz_first_view (hy_marked 3) in a\<lparr>
     at_tcm := (case InstallCommittedConfig (Some hz_config) (at_tcm a) of Inr t \<Rightarrow> t | Inl _ \<Rightarrow> at_tcm a),
     at_lset := InstallConfiguration (Some hz_config) (at_lset a) \<rparr>)"

definition hz_marked :: atm where
  "hz_marked = hz_installed\<lparr>at_lset := MarkFault 5 1 FaultClassUnavailable (at_lset hz_installed)\<rparr>"

definition hz_end :: atm where
  "hz_end = fold hz_receive hz_second_view hz_marked"

text \<open>All messages are handled without a panic and below the last identifier.\<close>

primrec hz_handled :: "auto_message list \<Rightarrow> atm \<Rightarrow> bool" where
  "hz_handled [] a = True"
| "hz_handled (m # ms) a = (tm_reservedConfigID (at_tcm a) < u64_max \<and>
     HandleAutoTransitionMessage hz_env 6 (Some m) a \<noteq> None \<and> hz_handled ms (hz_receive m a))"

lemma hz_received: "hz_handled ms a \<Longrightarrow> (hydra_step hz_env)\<^sup>*\<^sup>* a (fold hz_receive ms a)"
proof (induction ms arbitrary: a)
  case (Cons m ms)
  then have "hydra_step hz_env a (hz_receive m a)"
    by (auto simp: hz_receive_def intro!: hydra_step.own atm_step.message [where now = 6 and mp = "Some m"])
  with Cons show ?case by (simp add: converse_rtranclp_into_rtranclp)
qed simp

lemma hz_run: "(hydra_step hz_env)\<^sup>*\<^sup>* (hy_start 3) hz_end"
proof -
  let ?a = "fold hz_receive hz_first_view (hy_marked 3)"
  have "hydra_step hz_env (hy_start 3) (OnTransition (hy_start 3))" "hydra_step hz_env (OnTransition (hy_start 3)) (hy_marked 3)"
    unfolding hy_marked_def Let_def by (blast intro: hydra_step.own atm_step.subscribe atm_step.mark)+
  moreover have "hz_handled hz_first_view (hy_marked 3)"
    by code_simp
  then have "(hydra_step hz_env)\<^sup>*\<^sup>* (hy_marked 3) ?a"
    by (rule hz_received)
  moreover have "tm_reservedConfigID (at_tcm ?a) = 1 \<and>
      (case InstallCommittedConfig (Some hz_config) (at_tcm ?a) of Inr t \<Rightarrow> tm_reservedConfigID t = 1 \<and> hc_ID (tm_Mvalid t) = 1 | Inl _ \<Rightarrow> False)"
    by code_simp
  then have "hydra_step hz_env ?a hz_installed"
    unfolding hz_installed_def Let_def by (intro hydra_step.configure) (auto split: sum.splits)
  moreover have "hydra_step hz_env hz_installed hz_marked"
    unfolding hz_marked_def by (blast intro: hydra_step.own atm_step.mark)
  moreover have "hz_handled hz_second_view hz_marked"
    by code_simp
  then have "(hydra_step hz_env)\<^sup>*\<^sup>* hz_marked hz_end"
    unfolding hz_end_def by (rule hz_received)
  ultimately show ?thesis
    by (meson converse_rtranclp_into_rtranclp rtranclp.rtrancl_into_rtrancl rtranclp_trans)
qed

lemma hz_transitions: "map (\<lambda>(d, tp). (tp_View tp, tp_NewConfigID tp, tp_Leaves tp)) (transitions hz_end) = [(1, 1, [0]), (2, 2, [1])]"
  by code_simp

theorem hydra_transition_backed_witness:
  "\<exists>d tp. AtmTransition d tp \<in> set (at_out hz_end) \<and> tp_Leaves tp = [1] \<and> hc_ID d = 2 \<and>
     (\<exists>c :: hydra_config. hc_ID c < 2 \<and> hc_Validators d = fmdrop_fset {|1|} (hc_Validators c))"
proof -
  have "(2, 2, [1]) \<in> set (map (\<lambda>(d, tp). (tp_View tp, tp_NewConfigID tp, tp_Leaves tp)) (transitions hz_end))"
    unfolding hz_transitions by simp
  then obtain d tp where tp: "(d, tp) \<in> set (transitions hz_end)" "tp_Leaves tp = [1]" "tp_NewConfigID tp = 2"
    by auto
  from tp(1) have out: "AtmTransition d tp \<in> set (at_out hz_end)"
    by (auto simp: transitions_def List.map_filter_def elim!: transition_of.elims)
  obtain C where run: "hydra_run hz_env (hy_start 3) C hz_end"
    using hydra_run_steps [OF hz_run] by blast
  have "\<forall>x. he_sha256 hz_env x \<noteq> []"
    using hy_sha_laws(2) by (simp add: hz_env_def)
  note backed = hydra_transition_backed [OF this run [unfolded hy_start_def] out, THEN conjunct2]
  from backed [THEN conjunct2, THEN conjunct2] obtain c :: hydra_config where "hc_ID c < hc_ID d"
      "hc_Validators d = fmdrop_fset (fset_of_list (tp_Leaves tp)) (hc_Validators c)"
    by blast
  moreover have "hc_ID d = tp_NewConfigID tp"
    by (rule backed [THEN conjunct1])
  ultimately show ?thesis using tp out
    by (intro exI [of _ d] exI [of _ tp] conjI exI [of _ c]) simp_all
qed

text \<open>
  C9: transitions come in order: in every run of a new manager, with installations of committed
  configurations or without, the views of its transitions grow strictly and no identifier of a
  configuration is used twice.  As above, a change of the configuration may not lower the counter of
  reserved identifiers (only \<open>PromoteMhighToMvalid\<close>, which only tests call, does), messages are handled
  while that counter is below its maximum, and the digest is never empty.
\<close>

theorem hydra_transitions_ordered:
  assumes "\<forall>x. he_sha256 env x \<noteq> []" and "(hydra_step env)\<^sup>*\<^sup>* (start_atm i key lm c net) a"
  shows "sorted_wrt (<) (map (\<lambda>(d, tp). tp_View tp) (transitions a)) \<and> distinct (map (\<lambda>(d, tp). hc_ID d) (transitions a))"
proof -
  obtain C where "hydra_run env (start_atm i key lm c net) C a"
    using hydra_run_steps [OF assms(2)] by blast
  then have ok: "transitions_ok env C a"
    using atm_ok_hydra_run [OF _ _ start_era_ok] assms(1) by (auto simp: atm_ok_def)
  then have same: "map (\<lambda>(d, tp). hc_ID d) (transitions a) = map (\<lambda>(d, tp). tp_NewConfigID tp) (transitions a)"
    unfolding transitions_ok_def by (auto simp: map_eq_conv)
  from ok show ?thesis unfolding same transitions_ok_def by blast
qed

theorem hydra_transitions_ordered_witness:
  "map (\<lambda>(d, tp). tp_View tp) (transitions hz_end) = [1, 2] \<and> distinct (map (\<lambda>(d, tp). hc_ID d) (transitions hz_end))"
proof
  have "map fst (map (\<lambda>(d, tp). (tp_View tp, tp_NewConfigID tp, tp_Leaves tp)) (transitions hz_end)) = [1, 2]"
    unfolding hz_transitions by simp
  then show "map (\<lambda>(d, tp). tp_View tp) (transitions hz_end) = [1, 2]"
    by (simp add: comp_def case_prod_unfold)
  have "\<forall>x. he_sha256 hz_env x \<noteq> []"
    using hy_sha_laws(2) by (simp add: hz_env_def)
  from hydra_transitions_ordered [OF this hz_run [unfolded hy_start_def]]
  show "distinct (map (\<lambda>(d, tp). hc_ID d) (transitions hz_end))" by blast
qed


text \<open>The bytes whose digest the voters of a transition sign.\<close>

definition transition_statement :: "transition_proof \<Rightarrow> bytes" where
  "transition_statement tp = be64 (tp_View tp) @ be64 (tp_NewConfigID tp) @ tp_BlockHash tp @ concat (map be64 (sort (tp_Leaves tp)))"

lemma statement_digest: "proof_digest env tp = he_sha256 env (transition_statement tp)"
  by (simp add: proof_digest_def autoTransitionDigest_def transition_statement_def)

text \<open>
  C7: transitions agree.  Take two nodes that have the same committed configuration and install no
  other, and that let a transition through in the same view, with block hashes of the same length
  (\<open>vote_digest_ambiguous\<close> shows why).  When at most a third of the validators is faulty, the others run
  the protocol from that configuration too, a vote digest verifies under the key of one of these only
  if it has voted for it, and the digest does not collide on the two statements that were signed (nor
  is empty), then the two transitions have the same identifier, the same leaves and the same candidate.
\<close>

theorem hydra_transitions_agree:
  assumes "inj_on (he_sha256 env) {transition_statement tp, transition_statement tp'}" and "\<forall>x. he_sha256 env x \<noteq> []"
    and "(atm_step env)\<^sup>*\<^sup>* (start_atm i key lm c net) a" and "AtmTransition d tp \<in> set (at_out a)"
    and "(atm_step env)\<^sup>*\<^sup>* (start_atm i' key' lm' c net') a'" and "AtmTransition d' tp' \<in> set (at_out a')"
    and "tp_View tp' = tp_View tp" and "length (tp_BlockHash tp') = length (tp_BlockHash tp)"
    and "3 * card (F \<inter> fset (fmdom (hc_Validators c))) \<le> gm_len (hc_Validators c)"
    and "\<forall>j \<in> fset (fmdom (hc_Validators c)) - F. \<exists>key lm net b.
      (atm_step env)\<^sup>*\<^sup>* (start_atm j key lm c net) b \<and> votes_unforgeable env c j b"
  shows "tp_NewConfigID tp' = tp_NewConfigID tp \<and> mset (tp_Leaves tp') = mset (tp_Leaves tp) \<and> d' = d"
proof -
  have sha: "he_sha256 env x \<noteq> []" for x
    using assms(2) by blast
  note t = transition_ok [OF assms(2,3,4)] and t' = transition_ok [OF assms(2,5,6)]
  have "proof_digest env tp' = proof_digest env tp"
    by (rule proofs_same_digest [OF sha t [THEN conjunct1] t' [THEN conjunct1] assms(7,9,10)])
  then have "transition_statement tp' = transition_statement tp"
    unfolding statement_digest by (rule inj_onD [OF assms(1)]) simp_all
  then have "be64 (tp_NewConfigID tp') @ tp_BlockHash tp' @ concat (map be64 (sort (tp_Leaves tp'))) =
      be64 (tp_NewConfigID tp) @ tp_BlockHash tp @ concat (map be64 (sort (tp_Leaves tp)))"
    using assms(7) by (simp add: transition_statement_def)
  then have id: "tp_NewConfigID tp' = tp_NewConfigID tp"
    and leaves: "concat (map be64 (sort (tp_Leaves tp'))) = concat (map be64 (sort (tp_Leaves tp)))"
    using assms(8) by simp_all
  have "xs = ys" if "concat (map be64 xs) = concat (map be64 ys)" for xs ys
    using that
  proof (induction xs arbitrary: ys)
    case Nil
    then show ?case by (cases ys) (auto dest: arg_cong [of _ _ length])
  next
    case (Cons x xs)
    then show ?case by (cases ys) (auto dest: arg_cong [of _ _ length])
  qed
  with leaves have "sort (tp_Leaves tp') = sort (tp_Leaves tp)" by blast
  then have ms: "mset (tp_Leaves tp') = mset (tp_Leaves tp)"
    by (metis mset_sort)
  then have "fset_of_list (tp_Leaves tp') = fset_of_list (tp_Leaves tp)"
    by (metis fset_of_list.rep_eq fset_inject set_mset_mset)
  with id t t' show ?thesis
    using ms by (simp add: without_def)
qed

lemma hy_unforgeable:
  assumes "i \<in> {0, 1, 2, 3}"
  shows "votes_unforgeable hy_env hy_config i (hy_proposed i)"
proof -
  have "list_all (\<lambda>i. list_ex (\<lambda>ev. case ev of AtmBroadcast m \<Rightarrow> am_Type m = AutoVote \<and> am_View m = 1 \<and>
      VoteDigest hy_env m = hy_digest | AtmTransition c tp \<Rightarrow> False) (at_out (hy_proposed i))) [0, 1, 2, 3]"
    by code_simp
  then have "list_ex (\<lambda>ev. case ev of AtmBroadcast m \<Rightarrow> am_Type m = AutoVote \<and> am_View m = 1 \<and>
      VoteDigest hy_env m = hy_digest | AtmTransition c tp \<Rightarrow> False) (at_out (hy_proposed i))"
    using assms by auto
  then obtain ev where ev: "ev \<in> set (at_out (hy_proposed i))" "case ev of AtmBroadcast m \<Rightarrow> am_Type m = AutoVote \<and> am_View m = 1 \<and>
      VoteDigest hy_env m = hy_digest | AtmTransition c tp \<Rightarrow> False"
    unfolding list_ex_iff by blast
  have "\<exists>m \<in> cast (hy_proposed i). am_View m = 1 \<and> VoteDigest hy_env m = hy_digest"
  proof (cases ev)
    case (AtmBroadcast m)
    with ev show ?thesis by (intro bexI [of _ m]) (simp_all add: cast_def)
  qed (use ev in simp)
  moreover have "view = 1" if "autoTransitionDigest hy_sha view leaves bh cid = hy_digest" for view leaves bh cid
    using that by (simp add: hy_digest_def autoTransitionDigest_def hy_sha_def)
  moreover have "autoTransitionDigest hy_sha view leaves bh cid \<noteq> [9]" for view leaves bh cid
    by (simp add: autoTransitionDigest_def hy_sha_def)
  moreover have "he_sha256 hy_env = hy_sha" "he_verify hy_env k m q \<longleftrightarrow> m = [9] \<or> m = hy_digest" for k m q
    by (simp_all add: hy_env_def)
  ultimately show ?thesis
    unfolding votes_unforgeable_def by metis
qed

theorem hydra_transitions_agree_witness:
  "\<exists>d tp. AtmTransition d tp \<in> set (at_out (hy_voted [1, 2, 3])) \<and>
     {d'. \<exists>tp'. AtmTransition d' tp' \<in> set (at_out (hy_voted [1, 2, 3])) \<and> tp_View tp' = 1 \<and> tp_BlockHash tp' = []} = {d}"
proof -
  obtain d tp where tp: "AtmTransition d tp \<in> set (at_out (hy_voted [1, 2, 3]))" "tp_View tp = 1"
    using hy_transition by blast
  have "list_all (\<lambda>ev. case ev of AtmTransition c tp \<Rightarrow> tp_BlockHash tp = [] | AtmBroadcast m \<Rightarrow> True) (at_out (hy_voted [1, 2, 3]))"
    by code_simp
  then have bh: "tp_BlockHash tp = []"
    using tp(1) unfolding list_all_iff by fastforce
  have dom: "fmdom (hc_Validators hy_config) = {|0, 1, 2, 3|}" by code_simp
  have honest: "\<forall>j \<in> fset (fmdom (hc_Validators hy_config)) - {}. \<exists>key lm net b.
      (atm_step hy_env)\<^sup>*\<^sup>* (start_atm j key lm hy_config net) b \<and> votes_unforgeable hy_env hy_config j b"
  proof
    fix j assume "j \<in> fset (fmdom (hc_Validators hy_config)) - {}"
    then have "j \<in> {0, 1, 2, 3}" by (simp add: dom)
    from hy_proposed_run [OF this, unfolded hy_start_def] hy_unforgeable [OF this]
    show "\<exists>key lm net b. (atm_step hy_env)\<^sup>*\<^sup>* (start_atm j key lm hy_config net) b \<and> votes_unforgeable hy_env hy_config j b"
      by blast
  qed
  have "d' = d" if "AtmTransition d' tp' \<in> set (at_out (hy_voted [1, 2, 3]))" "tp_View tp' = 1" "tp_BlockHash tp' = []" for d' tp'
    using hydra_transitions_agree [OF inj_on_subset [OF hy_sha_laws(1) subset_UNIV] hy_sha_laws(2) hy_voted_run [unfolded hy_start_def] tp(1)
        hy_voted_run [unfolded hy_start_def] that(1) _ _ _ honest] that(2,3) tp(2) bh by simp
  with tp bh show ?thesis by blast
qed


section \<open>What can go wrong\<close>

text \<open>
  The digest of a vote is ambiguous: block hash and leaves are concatenated without lengths, so a
  signed vote to remove two validators is also a valid vote to remove only the larger one under a
  longer block hash.
\<close>

theorem vote_digest_ambiguous:
  assumes "l1 \<le> l2" and "am_Type m = AutoVote" and "am_NewConfigID m \<noteq> 0" and "\<forall>x. he_sha256 env x \<noteq> []"
  shows "am_VerifySignature env key (m\<lparr>am_Leaves := [l1, l2], am_BlockHash := bh\<rparr>) \<longleftrightarrow>
    am_VerifySignature env key (m\<lparr>am_Leaves := [l2], am_BlockHash := bh @ be64 l1\<rparr>)"
  using assms by (simp add: am_VerifySignature_def signed_payload_def VoteDigest_def autoTransitionDigest_def)

theorem vote_digest_ambiguous_witness:
  "am_VerifySignature hy_env (replicate 32 0) ((hy_message AutoVote 1 1)\<lparr>am_Leaves := [0, 2], am_BlockHash := []\<rparr>) \<longleftrightarrow>
   am_VerifySignature hy_env (replicate 32 0) ((hy_message AutoVote 1 1)\<lparr>am_Leaves := [2], am_BlockHash := [] @ be64 0\<rparr>)"
  by (rule vote_digest_ambiguous [OF _ _ _ hy_sha_laws(2)]) (simp_all add: hy_message_def)

text \<open>
  One member of the L-set can stop all later transitions of a node.  A commit message whose votes
  are worthless is rejected only after its identifier was taken over: the counter of reserved
  identifiers is then at least that identifier and the rejected candidate stays stored for its view.
  With the largest identifier the next proposal gets the number 0, for which no node can vote.
\<close>

theorem commit_message_exhausts_ids:
  assumes "rejectStaleView a (am_View msg) = None" and "rejectReplay msg a = Inr a1"
    and "validateActiveValidator a1 (am_SenderID msg) = None" and "IsInL (at_lset a1) (am_SenderID msg)"
    and "am_Proof msg = Some proof" and "commit_checks a1 msg proof = None"
    and "fmlookup (at_pending a1) (am_View msg) = None" and "tp_NewConfigID proof \<noteq> 0"
    and "hc_ID (tm_Mvalid (at_tcm a1)) < tp_NewConfigID proof"
    and "validateAutoCommitLeaves (tm_Mvalid (at_tcm a1)) (at_lset a1) (proof_leaves msg proof) = None"
    and "\<not> id_collides (am_View msg) (tp_NewConfigID proof) a1"
    and "check_votes env (at_validators a1) (autoTransitionDigest (he_sha256 env) (am_View msg) (proof_leaves msg proof)
      (tp_BlockHash proof) (tp_NewConfigID proof)) (tp_AutoVotes proof) (gm_keys (tp_AutoVotes proof)) = Some (Some r)"
  shows "\<exists>a' p. handleAutoCommit env now msg a = Some (a', Some r) \<and>
    tp_NewConfigID proof \<le> tm_reservedConfigID (at_tcm a') \<and>
    fmlookup (at_pending a') (am_View msg) = Some p \<and> hc_ID (pa_config p) = tp_NewConfigID proof"
proof -
  let ?p = "\<lparr> pa_config = without (proof_leaves msg proof) (tm_Mvalid (at_tcm a1)) (tp_NewConfigID proof),
      pa_leaves = proof_leaves msg proof, pa_blockHash = tp_BlockHash proof \<rparr>"
  let ?a2 = "a1\<lparr>at_pending := fmupd (am_View msg) ?p (at_pending a1)\<rparr>"
  have cand: "commit_candidate msg proof a1 = Inr (?a2, ?p)"
    using assms(7-11) by (simp add: commit_candidate_def buildPendingAutoTransitionForCommit_def)
  obtain a3 p' where adopt: "adopt_config_id msg proof ?p ?a2 = Inr (a3, p')"
    and p': "pa_leaves p' = proof_leaves msg proof" "pa_blockHash p' = tp_BlockHash proof" "hc_ID (pa_config p') = tp_NewConfigID proof"
    and a3: "fmlookup (at_pending a3) (am_View msg) = Some p'" "tp_NewConfigID proof \<le> tm_reservedConfigID (at_tcm a3)"
      "at_validators a3 = at_validators a1"
    using assms(8,11) assms(9) [folded not_le] id_collides_drop [of "am_View msg" "tp_NewConfigID proof" ?p a1]
    by (simp add: adopt_config_id_def Let_def ObserveReservedConfigID_def not_less split: if_splits)
  have "handleAutoCommit env now msg a = Some (a3, Some r)"
    using assms(1-6,12) cand adopt p' a3 by (simp add: handleAutoCommit_def)
  with a3 p' show ?thesis by blast
qed

text \<open>Validator 2 sends a commit of view 1 with three votes whose signatures are empty.\<close>

definition bad_commit :: auto_message where
  "bad_commit = (hy_message AutoCommit 2 u64_max)\<lparr>am_Proof := Some \<lparr> tp_View = 1,
     tp_AutoVotes = fmap_of_list (map (\<lambda>i. (i, Some \<lparr> hav_SenderID = i, hav_Signature = [], hav_Digest = [7] \<rparr>)) [1, 2, 3]),
     tp_QuorumProof = [], tp_NewConfigID = u64_max, tp_Leaves = [0], tp_BlockHash = [] \<rparr>\<rparr>"

definition after_bad_commit :: atm where
  "after_bad_commit = fst (the (handleAutoCommit hy_env 6 bad_commit (hy_marked 1)))"

lemma no_cast:
  "(case x of Some (b, Some r) \<Rightarrow> r = s \<and> at_out b = [] | _ \<Rightarrow> False) \<Longrightarrow>
   (case x of Some (b, Some r) \<Rightarrow> r = s \<and> cast b = {} | _ \<Rightarrow> False)"
  by (cases x) (auto simp: cast_def split: option.splits prod.splits)

theorem commit_message_exhausts_ids_witness:
  "tm_reservedConfigID (at_tcm after_bad_commit) = u64_max \<and>
   (case HandleAutoTransitionMessage hy_env 7 (Some ((hy_message AutoPropose 1 0)\<lparr>am_View := 2\<rparr>)) after_bad_commit of
     Some (b, Some r) \<Rightarrow> r = ''missing pending auto configuration for vote'' \<and> cast b = {} | _ \<Rightarrow> False)"
proof
  let ?a1 = "(hy_marked 1)\<lparr>at_recent := finsert (message_key bad_commit) (at_recent (hy_marked 1))\<rparr>"
  let ?pf = "the (am_Proof bad_commit)"
  have "rejectStaleView (hy_marked 1) (am_View bad_commit) = None \<and> message_key bad_commit |\<notin>| at_recent (hy_marked 1) \<and>
      validateActiveValidator ?a1 (am_SenderID bad_commit) = None \<and> IsInL (at_lset ?a1) (am_SenderID bad_commit) \<and>
      commit_checks ?a1 bad_commit ?pf = None \<and> fmlookup (at_pending ?a1) (am_View bad_commit) = None \<and>
      tp_NewConfigID ?pf \<noteq> 0 \<and> hc_ID (tm_Mvalid (at_tcm ?a1)) < tp_NewConfigID ?pf \<and>
      validateAutoCommitLeaves (tm_Mvalid (at_tcm ?a1)) (at_lset ?a1) (proof_leaves bad_commit ?pf) = None \<and>
      \<not> id_collides (am_View bad_commit) (tp_NewConfigID ?pf) ?a1 \<and>
      check_votes hy_env (at_validators ?a1) (autoTransitionDigest (he_sha256 hy_env) (am_View bad_commit)
        (proof_leaves bad_commit ?pf) (tp_BlockHash ?pf) (tp_NewConfigID ?pf)) (tp_AutoVotes ?pf) (gm_keys (tp_AutoVotes ?pf)) =
        Some (Some ''auto-commit proof digest mismatch'')"
    by code_simp
  moreover have "am_Proof bad_commit = Some ?pf" "tp_NewConfigID ?pf = u64_max"
    by (simp_all add: bad_commit_def)
  ultimately have "u64_max \<le> tm_reservedConfigID (at_tcm after_bad_commit)"
    using commit_message_exhausts_ids [of "hy_marked 1" bad_commit ?a1 ?pf hy_env "''auto-commit proof digest mismatch''" 6]
    by (auto simp: rejectReplay_def after_bad_commit_def)
  then show "tm_reservedConfigID (at_tcm after_bad_commit) = u64_max"
    by (rule antisym [OF word_n1_ge])
  have "case HandleAutoTransitionMessage hy_env 7 (Some ((hy_message AutoPropose 1 0)\<lparr>am_View := 2\<rparr>)) after_bad_commit of
     Some (b, Some r) \<Rightarrow> r = ''missing pending auto configuration for vote'' \<and> at_out b = [] | _ \<Rightarrow> False"
    by code_simp
  then show "case HandleAutoTransitionMessage hy_env 7 (Some ((hy_message AutoPropose 1 0)\<lparr>am_View := 2\<rparr>)) after_bad_commit of
     Some (b, Some r) \<Rightarrow> r = ''missing pending auto configuration for vote'' \<and> cast b = {} | _ \<Rightarrow> False"
    by (rule no_cast)
qed

end
