(* ===== verification/Hydra_Execution.thy ===== *)
theory Hydra_Execution
  imports Hydra_Properties Executor
begin

text \<open>
  From an automatic transition to its execution: the transaction the node injects for a transition
  (cmd/evolvbft/main.go) and what the executor (consensus/hotstuff/executor.go) does with it.
\<close>

section \<open>The injected transaction\<close>

text \<open>The votes of a proof without nil entries, and the leaves that are still members.\<close>

definition injected_votes :: "transition_proof \<Rightarrow> (u64, hydra_auto_vote option) fmap" where
  "injected_votes proof = fmfilter (\<lambda>i. case fmlookup (tp_AutoVotes proof) i of Some (Some v) \<Rightarrow> True | _ \<Rightarrow> False) (tp_AutoVotes proof)"

definition authorized_leaves :: "transition_proof \<Rightarrow> configuration \<Rightarrow> u64 list" where
  "authorized_leaves proof cur = filter (\<lambda>i. i |\<in>| fmdom (cfg_Validators cur)) (tp_Leaves proof)"

definition injectHydraAutoLeaves :: "transition_proof option \<Rightarrow> configuration option \<Rightarrow> reconfig_data option" where
  "injectHydraAutoLeaves pp cp = (case (pp, cp) of
     (Some proof, Some cur) \<Rightarrow>
       if tp_Leaves proof = [] then None
       else (case authorized_leaves proof cur of [] \<Rightarrow> None
         | i # leaves \<Rightarrow> Some \<lparr> rd_Type = ReconfigAutoLeave, rd_NodeID = i, rd_PublicKey = [], rd_VRFPublicKey = [],
             rd_Power = 0, rd_Epoch = cfg_ID cur, rd_TargetEpoch = cfg_ID cur + 1, rd_Signature = [],
             rd_AutoLeaveProof = Some \<lparr> htp_View = tp_View proof, htp_NewConfigID = tp_NewConfigID proof,
               htp_Leaves = i # leaves, htp_BlockHash = tp_BlockHash proof, htp_AutoVotes = injected_votes proof \<rparr> \<rparr>)
   | _ \<Rightarrow> None)"

lemma inject_fields:
  assumes "injectHydraAutoLeaves (Some proof) (Some cur) = Some d"
  shows "rd_Epoch d = cfg_ID cur" "rd_NodeID d \<in> set (authorized_leaves proof cur)"
    "rd_AutoLeaveProof d = Some \<lparr> htp_View = tp_View proof, htp_NewConfigID = tp_NewConfigID proof,
       htp_Leaves = authorized_leaves proof cur, htp_BlockHash = tp_BlockHash proof, htp_AutoVotes = injected_votes proof \<rparr>"
  using assms by (auto simp: injectHydraAutoLeaves_def split: if_splits list.splits)

lemma same_digest: "autoLeaveProofDigest = autoTransitionDigest"
  by (simp add: fun_eq_iff autoLeaveProofDigest_def autoTransitionDigest_def)

text \<open>The binary search for an element of a sorted list finds it.\<close>

lemma search_finds:
  assumes "sorted (xs :: u64 list)" and "x \<in> set xs"
  shows "length (takeWhile (\<lambda>l. l < x) xs) < length xs \<and> xs ! length (takeWhile (\<lambda>l. l < x) xs) = x"
  using assms by (induction xs) auto

section \<open>Hydra's quorum is the executor's\<close>

text \<open>The validator set that the members of a configuration form when each has one vote.\<close>

definition one_vote_each :: "validators \<Rightarrow> bool" where
  "one_vote_each vs \<longleftrightarrow> (\<forall>i. i |\<in>| fmdom vs \<longrightarrow>
     (\<exists>v. fmlookup vs i = Some (Some v) \<and> v_IsActive v \<and> v_Power v \<le> 1))"

lemma one_vote_power:
  assumes "one_vote_each vs" and "i |\<in>| fmdom vs"
  shows "summed_power vs i = 1"
proof -
  obtain v where v: "fmlookup vs i = Some (Some v)" "v_IsActive v" "v_Power v \<le> 1"
    using assms unfolding one_vote_each_def by blast
  have "v_Power v = 0 \<or> v_Power v = 1"
    using v(3) by (simp add: word_le_nat_alt word_unat_eq_iff) linarith
  with v show ?thesis by (auto simp: summed_power_def get_validator_def active_power_def)
qed

lemma sum_votes: "one_vote_each vs \<Longrightarrow> A \<subseteq> fset (fmdom vs) \<Longrightarrow> (\<Sum>i\<in>A. summed_power vs i) = of_nat (card A)"
  using one_vote_power by (simp add: subset_iff cong: sum.cong)

lemma quorum_of_heads:
  assumes "one_vote_each vs" and "gm_len vs < 2 ^ 62" and "vs \<noteq> fmempty"
  shows "unat (vs_QuorumSize (NewValidatorSet e vs)) = nat (head_quorum vs)"
proof -
  let ?n = "gm_len vs"
  have n: "0 < ?n" using assms(3) gm_len_zero [of vs] by (metis gr0I)
  have un: "unat (of_nat ?n :: u64) = ?n"
    using assms(2) by (intro unat_of_nat_small) simp
  then have "(of_nat ?n :: u64) \<noteq> 0"
    using n by (metis unat_0 less_irrefl)
  then have total: "total_power vs = of_nat ?n"
    using sum_votes [OF assms(1) subset_refl] by (simp add: total_power_def gm_len_card Let_def)
  have two: "unat (of_nat ?n * 2 :: u64) = 2 * ?n"
    using assms(2) un by (subst unat_mult_lem [THEN iffD1]) simp_all
  have "unat ((of_nat ?n * 2 :: u64) div 3) = 2 * ?n div 3"
    by (simp add: unat_div two)
  moreover have "2 * ?n div 3 + 1 < 2 ^ 64"
    using assms(2) by simp
  ultimately have "unat ((of_nat ?n * 2 :: u64) div 3 + 1) = 2 * ?n div 3 + 1"
    by (subst unat_add_lem [THEN iffD1]) simp_all
  moreover have "nat (head_quorum vs) = 2 * ?n div 3 + 1"
    by (simp add: head_quorum_def nat_add_distrib zdiv_int)
  ultimately show ?thesis
    by (simp add: NewValidatorSet_def total)
qed

section \<open>What the executor makes of it\<close>

lemma injected_all:
  assumes "proof_ok env {(mv, L)} tp"
  shows "injected_votes tp = tp_AutoVotes tp"
proof -
  have "fmlookup (tp_AutoVotes tp) i \<noteq> Some None" for i
    using assms fmdomI [of "tp_AutoVotes tp" i None] unfolding proof_ok_def by fastforce
  then have "fmfilter (\<lambda>i. case fmlookup (tp_AutoVotes tp) i of Some (Some v) \<Rightarrow> True | _ \<Rightarrow> False) (tp_AutoVotes tp) = tp_AutoVotes tp"
    by (intro fmap_ext) (auto split: option.splits)
  then show ?thesis by (simp add: injected_votes_def)
qed

lemma proof_votes_pass:
  assumes "proof_ok env {(mv, L)} tp" and "one_vote_each (hc_Validators mv)"
    and "xe_ed_verify xenv = he_verify env" and "vs_Validators vs = hc_Validators mv"
  shows "fmpred (auto_vote_ok xenv vs (proof_digest env tp)) (tp_AutoVotes tp)"
    and "fset (fmdom (tp_AutoVotes tp)) \<subseteq> fset (fmdom (hc_Validators mv))"
proof -
  have entry: "auto_vote_ok xenv vs (proof_digest env tp) i w \<and> i |\<in>| fmdom (hc_Validators mv)"
    if w: "fmlookup (tp_AutoVotes tp) i = Some w" for i w
  proof -
    from w have "i |\<in>| fmdom (tp_AutoVotes tp)" by (rule fmdomI)
    then obtain v u where v: "w = Some v" "hav_SenderID v = i" "hav_Digest v = proof_digest env tp"
        and u: "get_validator (hc_Validators mv) i = Some u" "he_verify env (v_PublicKey u) (proof_digest env tp) (hav_Signature v)"
      using assms(1) w unfolding proof_ok_def signer_ok_def by fastforce
    from u(1) have "fmlookup (hc_Validators mv) i = Some (Some u)"
      by (auto simp: get_validator_def split: option.splits)
    then have "i |\<in>| fmdom (hc_Validators mv)" and "v_IsActive u"
      using assms(2) by (auto simp: one_vote_each_def dest: fmdomI)
    with v u assms(3,4) show ?thesis by (simp add: auto_vote_ok_def)
  qed
  then show "fmpred (auto_vote_ok xenv vs (proof_digest env tp)) (tp_AutoVotes tp)"
    by (simp add: fmpred_iff)
  show "fset (fmdom (tp_AutoVotes tp)) \<subseteq> fset (fmdom (hc_Validators mv))"
    using entry by (auto elim: fmdomE)
qed

lemma proof_power_suffices:
  assumes "proof_ok env {(mv, L)} tp" and "one_vote_each (hc_Validators mv)" and "hc_Validators mv \<noteq> fmempty"
    and "gm_len (hc_Validators mv) < 2 ^ 62" and sub: "fset (fmdom (tp_AutoVotes tp)) \<subseteq> fset (fmdom (hc_Validators mv))"
  shows "vs_QuorumSize (NewValidatorSet e (hc_Validators mv)) \<le> (\<Sum>i \<in> fset (fmdom (tp_AutoVotes tp)). summed_power (hc_Validators mv) i)"
proof -
  have "gm_len (tp_AutoVotes tp) \<le> gm_len (hc_Validators mv)"
    using sub by (simp add: gm_len_card card_mono)
  then have "unat (of_nat (gm_len (tp_AutoVotes tp)) :: u64) = gm_len (tp_AutoVotes tp)"
    using assms(4) by (intro unat_of_nat_small) simp
  moreover have "nat (head_quorum (hc_Validators mv)) \<le> gm_len (tp_AutoVotes tp)"
    using assms(1) by (simp add: proof_ok_def nat_le_iff)
  ultimately show ?thesis
    using quorum_of_heads [OF assms(2,4,3)] sum_votes [OF assms(2) sub]
    by (simp add: word_le_nat_alt gm_len_card)
qed



text \<open>The small cluster once more, for a proposal that names the block hash \<open>[5]\<close>.\<close>

definition hx_env :: hydra_env where
  "hx_env = hy_env\<lparr>he_verify := (\<lambda>k m s. s = [1])\<rparr>"

definition hx_deliver :: "auto_message list \<Rightarrow> atm" where
  "hx_deliver msgs = fold (\<lambda>m a. fst (the (HandleAutoTransitionMessage hx_env 6 (Some (m\<lparr>am_BlockHash := [5]\<rparr>)) a))) msgs (hy_marked 1)"

definition hx_end :: atm where
  "hx_end = hx_deliver [hy_message AutoPropose 1 0, hy_message AutoVote 1 1, hy_message AutoVote 2 1, hy_message AutoVote 3 1]"

lemma hx_deliver_run:
  assumes "list_all (\<lambda>k. HandleAutoTransitionMessage hx_env 6 (Some ((msgs ! k)\<lparr>am_BlockHash := [5]\<rparr>)) (hx_deliver (take k msgs)) \<noteq> None \<and>
      tm_reservedConfigID (at_tcm (hx_deliver (take k msgs))) < u64_max) [0..<length msgs]"
    and "k \<le> length msgs"
  shows "(atm_step hx_env)\<^sup>*\<^sup>* (hy_marked 1) (hx_deliver (take k msgs))"
  using assms(2)
proof (induction k)
  case 0
  then show ?case by (simp add: hx_deliver_def)
next
  case (Suc k)
  let ?a = "hx_deliver (take k msgs)"
  have "take (Suc k) msgs = take k msgs @ [msgs ! k]"
    using Suc.prems by (simp add: take_Suc_conv_app_nth)
  then have deliver: "hx_deliver (take (Suc k) msgs) =
      fst (the (HandleAutoTransitionMessage hx_env 6 (Some ((msgs ! k)\<lparr>am_BlockHash := [5]\<rparr>)) ?a))"
    by (simp add: hx_deliver_def)
  have "HandleAutoTransitionMessage hx_env 6 (Some ((msgs ! k)\<lparr>am_BlockHash := [5]\<rparr>)) ?a \<noteq> None \<and> tm_reservedConfigID (at_tcm ?a) < u64_max"
    using assms(1) Suc.prems by (simp add: list_all_iff)
  then have "atm_step hx_env ?a (hx_deliver (take (Suc k) msgs))"
    unfolding deliver by (auto intro: atm_step.message)
  with Suc show ?case by (simp add: rtranclp.rtrancl_into_rtrancl)
qed

lemma hx_run: "(atm_step hx_env)\<^sup>*\<^sup>* (hy_start 1) hx_end"
proof -
  let ?msgs = "[hy_message AutoPropose 1 0, hy_message AutoVote 1 1, hy_message AutoVote 2 1, hy_message AutoVote 3 1]"
  have "list_all (\<lambda>k. HandleAutoTransitionMessage hx_env 6 (Some ((?msgs ! k)\<lparr>am_BlockHash := [5]\<rparr>)) (hx_deliver (take k ?msgs)) \<noteq> None \<and>
      tm_reservedConfigID (at_tcm (hx_deliver (take k ?msgs))) < u64_max) [0..<length ?msgs]"
    by code_simp
  from hx_deliver_run [OF this, of 4] have "(atm_step hx_env)\<^sup>*\<^sup>* (hy_marked 1) hx_end"
    by (simp add: hx_end_def)
  moreover have "atm_step hx_env (hy_start 1) (OnTransition (hy_start 1))"
    by (rule atm_step.subscribe)
  moreover have "atm_step hx_env (OnTransition (hy_start 1)) (hy_marked 1)"
    unfolding hy_marked_def Let_def by (rule atm_step.mark)
  ultimately show ?thesis by (meson converse_rtranclp_into_rtranclp)
qed

lemma hx_transition:
  "\<exists>d tp. AtmTransition d tp \<in> set (at_out hx_end) \<and> tp_Leaves tp = [0] \<and> tp_BlockHash tp = [5]"
proof -
  have "list_ex (\<lambda>ev. case ev of AtmTransition d tp \<Rightarrow> tp_Leaves tp = [0] \<and> tp_BlockHash tp = [5]
      | AtmBroadcast m \<Rightarrow> False) (at_out hx_end)"
    by code_simp
  then obtain ev where ev: "ev \<in> set (at_out hx_end)" "case ev of AtmTransition d tp \<Rightarrow>
      tp_Leaves tp = [0] \<and> tp_BlockHash tp = [5] | AtmBroadcast m \<Rightarrow> False"
    unfolding list_ex_iff by blast
  show ?thesis
  proof (cases ev)
    case (AtmTransition d tp)
    with ev show ?thesis by (intro exI [of _ d] exI [of _ tp]) simp
  qed (use ev in simp)
qed

definition hx_current :: configuration where
  "hx_current = \<lparr> cfg_ID = 0, cfg_Validators = hc_Validators hy_config, cfg_QuorumSize = 3 \<rparr>"

definition hx_exec :: "reconfig_data option \<Rightarrow> exec_env" where
  "hx_exec r = plain_env\<lparr> xe_ed_verify := he_verify hx_env, xe_sha256 := he_sha256 hx_env, xe_parse_reconfig := (\<lambda>p. r) \<rparr>"

definition hx_executor :: executor where
  "hx_executor = NewExecutor (Some (NewValidatorSet 0 (hc_Validators hy_config)))"

definition hx_tx :: transaction where
  "hx_tx = \<lparr> tx_Type = TxTypeReconfig, tx_Payload = [] \<rparr>"

lemma hx_one_vote: "one_vote_each (hc_Validators hy_config)"
proof -
  have "fmpred (\<lambda>i w. case w of Some v \<Rightarrow> v_IsActive v \<and> v_Power v \<le> 1 | None \<Rightarrow> False) (hc_Validators hy_config)"
    by code_simp
  then show ?thesis
    unfolding one_vote_each_def by (fastforce simp: fmpred_iff elim!: fmdomE split: option.splits)
qed


text \<open>
  No transition that the program starts is ever executed.  A proposal of \<open>TriggerAutoTransition\<close>
  names no block; the executor accepts a proof only in the block that the proof names; and a block
  without a hash is not applied.  So the transaction injected for such a transition is dropped in
  every block, whoever orders it.
\<close>

theorem automatic_transition_never_executes:
  assumes "TriggerAutoTransition env view a = Some (a', r)" and "AtmBroadcast m \<in> set (at_out a') - set (at_out a)"
    and "tp_BlockHash tp = am_BlockHash m" and "injectHydraAutoLeaves (Some tp) cur = Some d"
    and "tx_Type tx = TxTypeReconfig" and "xe_parse_reconfig xenv (tx_Payload tx) = Some d"
  shows "if b_Hash b = [] then ApplyOrderedBlock xenv e (Some b) rank = Failed e else executeTx xenv e tx b = Some None"
proof -
  obtain m0 where "am_Sign env (at_privateKey a) ((blank_auto AutoPropose a view)\<lparr>am_Leaves := identifyMisbehaving a\<rparr>) = Some (Inr m0)"
      "m = m0"
    using assms(1,2) by (auto simp: TriggerAutoTransition_def sign_and_broadcast_def atm_emit_def split: if_splits option.splits sum.splits)
  then have "am_BlockHash m = []"
    by (auto simp: am_Sign_def blank_auto_def split: if_splits option.splits)
  then have none: "tp_BlockHash tp = []" using assms(3) by simp
  obtain c where c: "cur = Some c"
    using assms(4) by (cases cur) (auto simp: injectHydraAutoLeaves_def)
  note fields = inject_fields [OF assms(4) [unfolded c]]
  have ty: "rd_Type d = ReconfigAutoLeave"
    using assms(4) by (auto simp: injectHydraAutoLeaves_def split: option.splits if_splits list.splits)
  show ?thesis
  proof (cases "b_Hash b = []")
    case True
    then show ?thesis by (simp add: ApplyOrderedBlock_def)
  next
    case False
    then have "\<not> verifyAutoLeaveProof xenv e d b"
      using none fields by (simp add: verifyAutoLeaveProof_def split: option.splits)
    then show ?thesis using assms(5,6) ty False by (simp add: executeTx_def)
  qed
qed

definition hx_proof :: transition_proof where
  "hx_proof = \<lparr> tp_View = 1, tp_AutoVotes = fmempty, tp_QuorumProof = [], tp_NewConfigID = 1, tp_Leaves = [0], tp_BlockHash = [] \<rparr>"

theorem automatic_transition_never_executes_witness:
  "\<exists>d. injectHydraAutoLeaves (Some hx_proof) (Some hx_current) = Some d \<and>
     executeTx (hx_exec (Some d)) hx_executor hx_tx (join_block []) = Some None"
proof -
  have "0 |\<in>| fmdom (hc_Validators hy_config)" by code_simp
  then have "\<exists>d. injectHydraAutoLeaves (Some hx_proof) (Some hx_current) = Some d"
    by (simp add: injectHydraAutoLeaves_def authorized_leaves_def hx_proof_def hx_current_def)
  then obtain d where d: "injectHydraAutoLeaves (Some hx_proof) (Some hx_current) = Some d" ..
  let ?a' = "fst (the (TriggerAutoTransition hy_env 1 (hy_marked 1)))"
  have trig: "case TriggerAutoTransition hy_env 1 (hy_marked 1) of Some (a', None) \<Rightarrow>
      at_out a' = [AtmBroadcast (hy_message AutoPropose 1 0)] | _ \<Rightarrow> False"
    and quiet: "at_out (hy_marked 1) = []"
    by code_simp+
  then have "TriggerAutoTransition hy_env 1 (hy_marked 1) = Some (?a', None)"
    and "AtmBroadcast (hy_message AutoPropose 1 0) \<in> set (at_out ?a') - set (at_out (hy_marked 1))"
    by (auto split: option.splits prod.splits)
  from automatic_transition_never_executes [OF this, of hx_proof "Some hx_current" d hx_tx "hx_exec (Some d)" "join_block []" hx_executor]
  have "executeTx (hx_exec (Some d)) hx_executor hx_tx (join_block []) = Some None"
    using d by (simp add: hx_proof_def hy_message_def hx_tx_def hx_exec_def join_block_def)
  with d show ?thesis by blast
qed

end
