(* ===== verification/Membership.thy ===== *)
theory Membership
  imports Hydra_Config
begin

text \<open>
  The membership manager (membership/membership.go): the configuration of the current epoch, requests
  to join and leave, the history and the latest change.  The configuration is set by the constructor
  and never to nil.  Maps are visited in the order of their identifiers, which only affects the order
  of the reported joins of one block.  Digest and JSON encoder are arguments, as in \<open>Configuration_Hash\<close>.
\<close>

section \<open>State\<close>

record join_request =
  jr_ID :: u64
  jr_PublicKey :: bytes
  jr_Power :: u64
  jr_View :: u64

record leave_request =
  lr_ID :: u64
  lr_PublicKey :: bytes
  lr_View :: u64

record config_event =
  ce_OldEpoch :: u64
  ce_NewEpoch :: u64
  ce_Added :: "u64 list"
  ce_Removed :: "u64 list"
  ce_QuorumSize :: u64
  ce_ConfigHash :: bytes

record membership =
  ms_current :: configuration
  ms_joins :: "(u64, join_request) fmap"
  ms_leaves :: "(u64, leave_request) fmap"
  ms_history :: "configuration list"
  ms_event :: "config_event option"

abbreviation config_hash :: "(bytes \<Rightarrow> bytes) \<Rightarrow> config_json \<Rightarrow> configuration \<Rightarrow> bytes" where
  "config_hash sha json c \<equiv> Configuration_Hash sha json (gm_keys (cfg_Validators c)) c"

text \<open>The unweighted quorum \<open>uint64((2*len)/3 + 1)\<close>.\<close>

definition unweighted_quorum :: "validators \<Rightarrow> u64" where
  "unweighted_quorum vs = of_nat (2 * gm_len vs div 3 + 1)"

definition NewMembershipManager :: "validators \<Rightarrow> membership" where
  "NewMembershipManager initial = (let c = \<lparr> cfg_ID = 1, cfg_Validators = non_nil initial,
       cfg_QuorumSize = unweighted_quorum (non_nil initial) \<rparr>
     in \<lparr> ms_current = c, ms_joins = fmempty, ms_leaves = fmempty, ms_history = [c], ms_event = None \<rparr>)"

definition cloneConfig :: "configuration \<Rightarrow> configuration" where
  "cloneConfig c = c\<lparr>cfg_Validators := non_nil (cfg_Validators c)\<rparr>"

definition GetCurrentConfig :: "membership \<Rightarrow> configuration" where
  "GetCurrentConfig mm = cloneConfig (ms_current mm)"

definition mm_IsValidator :: "membership \<Rightarrow> u64 \<Rightarrow> bool" where
  "mm_IsValidator mm i \<longleftrightarrow> i |\<in>| fmdom (cfg_Validators (ms_current mm))"

section \<open>Requests\<close>

text \<open>A request of a member to join, of a stranger to leave, or a repeated request is dropped.\<close>

definition mm_SubmitJoinRequest :: "join_request \<Rightarrow> membership \<Rightarrow> membership" where
  "mm_SubmitJoinRequest r mm =
     (if jr_ID r |\<in>| fmdom (cfg_Validators (ms_current mm)) \<or> jr_ID r |\<in>| fmdom (ms_joins mm) then mm
      else mm\<lparr>ms_joins := fmupd (jr_ID r) r (ms_joins mm)\<rparr>)"

definition mm_SubmitLeaveRequest :: "leave_request \<Rightarrow> membership \<Rightarrow> membership" where
  "mm_SubmitLeaveRequest r mm =
     (if lr_ID r |\<notin>| fmdom (cfg_Validators (ms_current mm)) \<or> lr_ID r |\<in>| fmdom (ms_leaves mm) then mm
      else mm\<lparr>ms_leaves := fmupd (lr_ID r) r (ms_leaves mm)\<rparr>)"

section \<open>Applying requests\<close>

definition admitted :: "join_request \<Rightarrow> validator" where
  "admitted r = \<lparr> v_ID = jr_ID r, v_PublicKey = jr_PublicKey r, v_VRFPublicKey = [],
     v_Power = (if jr_Power r = 0 then 1 else jr_Power r), v_IsActive = True \<rparr>"

text \<open>One pending request and one key of the block: members, pending requests and what was added or removed.\<close>

definition apply_join :: "bytes \<Rightarrow> u64 \<Rightarrow> validators \<times> (u64, join_request) fmap \<times> u64 list \<Rightarrow>
    validators \<times> (u64, join_request) fmap \<times> u64 list" where
  "apply_join key i = (\<lambda>(vs, joins, added). case fmlookup joins i of
     Some r \<Rightarrow> if jr_PublicKey r \<noteq> key then (vs, joins, added)
       else if i |\<in>| fmdom vs then (vs, fmdrop i joins, added)
       else (fmupd i (Some (admitted r)) vs, fmdrop i joins, added @ [i])
   | None \<Rightarrow> (vs, joins, added))"

definition apply_leave :: "bytes \<Rightarrow> u64 \<Rightarrow> validators \<times> (u64, leave_request) fmap \<times> u64 list \<Rightarrow>
    validators \<times> (u64, leave_request) fmap \<times> u64 list" where
  "apply_leave key i = (\<lambda>(vs, leaves, removed). case fmlookup leaves i of
     Some r \<Rightarrow> if lr_PublicKey r \<noteq> key then (vs, leaves, removed)
       else if i |\<in>| fmdom vs then (fmdrop i vs, fmdrop i leaves, removed @ [i])
       else (vs, fmdrop i leaves, removed)
   | None \<Rightarrow> (vs, leaves, removed))"

definition apply_join_keys :: "bytes list \<Rightarrow> validators \<times> (u64, join_request) fmap \<times> u64 list \<Rightarrow>
    validators \<times> (u64, join_request) fmap \<times> u64 list" where
  "apply_join_keys keys s = fold (\<lambda>key s. fold (apply_join key) (gm_keys (fst (snd s))) s) keys s"

definition apply_leave_keys :: "bytes list \<Rightarrow> validators \<times> (u64, leave_request) fmap \<times> u64 list \<Rightarrow>
    validators \<times> (u64, leave_request) fmap \<times> u64 list" where
  "apply_leave_keys keys s = fold (\<lambda>key s. fold (apply_leave key) (gm_keys (fst (snd s))) s) keys s"

text \<open>The next configuration and the event that reports it.\<close>

definition advance_config :: "(bytes \<Rightarrow> bytes) \<Rightarrow> config_json \<Rightarrow> validators \<Rightarrow> u64 list \<Rightarrow> u64 list \<Rightarrow> membership \<Rightarrow> membership" where
  "advance_config sha json vs added removed mm =
     (let c = \<lparr> cfg_ID = cfg_ID (ms_current mm) + 1, cfg_Validators = vs, cfg_QuorumSize = unweighted_quorum vs \<rparr>
      in mm\<lparr> ms_current := c, ms_history := ms_history mm @ [cloneConfig c],
           ms_event := Some \<lparr> ce_OldEpoch = cfg_ID (ms_current mm), ce_NewEpoch = cfg_ID c, ce_Added = added,
             ce_Removed = removed, ce_QuorumSize = cfg_QuorumSize c, ce_ConfigHash = config_hash sha json c \<rparr> \<rparr>)"

definition ApplyMembershipChanges :: "(bytes \<Rightarrow> bytes) \<Rightarrow> config_json \<Rightarrow> block \<Rightarrow> membership \<Rightarrow> membership" where
  "ApplyMembershipChanges sha json b mm =
     (case apply_join_keys (b_JoinRequests b) (cfg_Validators (GetCurrentConfig mm), ms_joins mm, []) of
        (vs1, joins, added) \<Rightarrow> (case apply_leave_keys (b_LeaveRequests b) (vs1, ms_leaves mm, []) of
          (vs2, leaves, removed) \<Rightarrow>
            (let mm1 = mm\<lparr>ms_joins := joins, ms_leaves := leaves\<rparr>
             in if added = [] \<and> removed = [] then mm1 else advance_config sha json vs2 added removed mm1)))"

definition ApplyReconfigData :: "(bytes \<Rightarrow> bytes) \<Rightarrow> config_json \<Rightarrow> reconfig_data option \<Rightarrow> membership \<Rightarrow> membership \<times> bool" where
  "ApplyReconfigData sha json dp mm = (case dp of None \<Rightarrow> (mm, False)
     | Some d \<Rightarrow>
        (let vs = cfg_Validators (GetCurrentConfig mm); i = rd_NodeID d
         in case rd_Type d of
            ReconfigJoin \<Rightarrow> if i |\<in>| fmdom vs then (mm, False)
              else (advance_config sha json (fmupd i (Some \<lparr> v_ID = i, v_PublicKey = rd_PublicKey d, v_VRFPublicKey = rd_VRFPublicKey d,
                v_Power = (if rd_Power d = 0 then 1 else rd_Power d), v_IsActive = True \<rparr>) vs) [i] [] mm, True)
          | ReconfigOther \<Rightarrow> (mm, False)
          | _ \<Rightarrow> if i |\<in>| fmdom vs then (advance_config sha json (fmdrop i vs) [] [i] mm, True) else (mm, False)))"

section \<open>Installing a validator set\<close>

definition target_config :: "validator_set \<Rightarrow> configuration" where
  "target_config vs = \<lparr> cfg_ID = vs_Epoch vs, cfg_Validators = non_nil (vs_Validators vs),
     cfg_QuorumSize = (if vs_QuorumSize vs = 0 then unweighted_quorum (non_nil (vs_Validators vs)) else vs_QuorumSize vs) \<rparr>"

definition configsEqual :: "configuration \<Rightarrow> configuration \<Rightarrow> bool" where
  "configsEqual a b \<longleftrightarrow> cfg_ID a = cfg_ID b \<and> cfg_QuorumSize a = cfg_QuorumSize b \<and>
     gm_len (cfg_Validators a) = gm_len (cfg_Validators b) \<and>
     validators_equal (gm_keys (cfg_Validators a)) (cfg_Validators a) (cfg_Validators b)"

text \<open>The identifiers that are new and those that are gone, in increasing order.\<close>

definition diffValidatorIDs :: "configuration \<Rightarrow> configuration \<Rightarrow> u64 list \<times> u64 list" where
  "diffValidatorIDs old new =
     (filter (\<lambda>i. i |\<notin>| fmdom (cfg_Validators old)) (gm_keys (cfg_Validators new)),
      filter (\<lambda>i. i |\<notin>| fmdom (cfg_Validators new)) (gm_keys (cfg_Validators old)))"

definition latestTransitionEvent :: "epoch_transition option list \<Rightarrow> config_event option" where
  "latestTransitionEvent ts = (if ts = [] then None
     else map_option (\<lambda>t. \<lparr> ce_OldEpoch = et_OldEpoch t, ce_NewEpoch = et_NewEpoch t, ce_Added = et_Added t,
       ce_Removed = et_Removed t, ce_QuorumSize = et_QuorumSize t, ce_ConfigHash = et_ConfigHash t \<rparr>) (last ts))"

definition validateTransitionEvent ::
  "(bytes \<Rightarrow> bytes) \<Rightarrow> config_json \<Rightarrow> config_event option \<Rightarrow> configuration \<Rightarrow> configuration \<Rightarrow> u64 list \<Rightarrow> u64 list \<Rightarrow> string option" where
  "validateTransitionEvent sha json ev old new added removed = (case ev of None \<Rightarrow> None
     | Some e \<Rightarrow>
        if ce_OldEpoch e \<noteq> cfg_ID old \<or> ce_NewEpoch e \<noteq> cfg_ID new \<or> ce_QuorumSize e \<noteq> cfg_QuorumSize new \<or>
           ce_ConfigHash e \<noteq> config_hash sha json new
        then Some ''transition metadata does not match committed validator set''
        else if ce_Added e \<noteq> added \<or> ce_Removed e \<noteq> removed
        then Some ''transition validator diff does not match committed validator set'' else None)"

text \<open>An error, or the manager after the call and whether the configuration changed.\<close>

definition InstallValidatorSetFromTransitions ::
  "(bytes \<Rightarrow> bytes) \<Rightarrow> config_json \<Rightarrow> validator_set option \<Rightarrow> epoch_transition option list \<Rightarrow> membership \<Rightarrow>
   string + (membership \<times> bool)" where
  "InstallValidatorSetFromTransitions sha json vsp ts mm = (case vsp of None \<Rightarrow> Inl ''validator set is nil''
     | Some vs \<Rightarrow>
        (let new = target_config vs; old = cloneConfig (ms_current mm); ev = latestTransitionEvent ts
         in if cfg_ID new < cfg_ID (ms_current mm) then Inr (mm, False)
            else if cfg_ID new = cfg_ID (ms_current mm)
            then (if configsEqual (ms_current mm) new then Inr (mm, False) else Inl ''conflicting committed config'')
            else case diffValidatorIDs old new of (added, removed) \<Rightarrow>
              (case validateTransitionEvent sha json ev old new added removed of Some r \<Rightarrow> Inl r
               | None \<Rightarrow> Inr (mm\<lparr> ms_current := new, ms_history := ms_history mm @ [cloneConfig new],
                   ms_event := Some (case ev of Some e \<Rightarrow> e
                     | None \<Rightarrow> \<lparr> ce_OldEpoch = cfg_ID old, ce_NewEpoch = cfg_ID new, ce_Added = added, ce_Removed = removed,
                         ce_QuorumSize = cfg_QuorumSize new, ce_ConfigHash = config_hash sha json new \<rparr>) \<rparr>, True))))"

section \<open>Epochs and history\<close>

text \<open>The operations that change the manager; an epoch that cannot be raised is excluded.\<close>

inductive mm_step :: "(bytes \<Rightarrow> bytes) \<Rightarrow> config_json \<Rightarrow> membership \<Rightarrow> membership \<Rightarrow> bool" for sha json where
  join: "mm_step sha json mm (mm_SubmitJoinRequest r mm)"
| leave: "mm_step sha json mm (mm_SubmitLeaveRequest lr mm)"
| block: "cfg_ID (ms_current mm) < u64_max \<Longrightarrow> mm_step sha json mm (ApplyMembershipChanges sha json b mm)"
| reconfig: "cfg_ID (ms_current mm) < u64_max \<Longrightarrow> mm_step sha json mm (fst (ApplyReconfigData sha json d mm))"
| install: "InstallValidatorSetFromTransitions sha json vsp ts mm = Inr (mm', changed) \<Longrightarrow> mm_step sha json mm mm'"

definition membership_ok :: "membership \<Rightarrow> bool" where
  "membership_ok mm \<longleftrightarrow> ms_history mm \<noteq> [] \<and> last (ms_history mm) = ms_current mm \<and>
     sorted_wrt (<) (map cfg_ID (ms_history mm)) \<and> cloneConfig (ms_current mm) = ms_current mm \<and>
     (case ms_event mm of None \<Rightarrow> True | Some ev \<Rightarrow> ce_NewEpoch ev = cfg_ID (ms_current mm) \<and> ce_QuorumSize ev = cfg_QuorumSize (ms_current mm))"

lemma cloneConfig_idem [simp]: "cloneConfig (cloneConfig c) = cloneConfig c"
proof -
  have "non_nil (non_nil m) = non_nil m" for m
    by (rule fmap_ext) (simp add: non_nil_def get_validator_def)
  then show ?thesis by (simp add: cloneConfig_def)
qed

lemma membership_ok_append:
  assumes "membership_ok mm" and "cfg_ID (ms_current mm) < cfg_ID c" and "cloneConfig c = c"
    and "ce_NewEpoch ev = cfg_ID c" and "ce_QuorumSize ev = cfg_QuorumSize c"
  shows "membership_ok (mm\<lparr>ms_current := c, ms_history := ms_history mm @ [c], ms_event := Some ev\<rparr>)"
proof -
  have "cfg_ID d < cfg_ID c" if "d \<in> set (ms_history mm)" for d
  proof -
    have "ms_history mm \<noteq> []" "last (ms_history mm) = ms_current mm" "sorted_wrt (<) (map cfg_ID (ms_history mm))"
      using assms(1) by (simp_all add: membership_ok_def)
    then obtain xs where xs: "ms_history mm = xs @ [ms_current mm]" "sorted_wrt (<) (map cfg_ID (xs @ [ms_current mm]))"
      by (metis append_butlast_last_id)
    with that have "cfg_ID d \<le> cfg_ID (ms_current mm)"
      by (auto simp: sorted_wrt_append intro: less_imp_le)
    then show ?thesis using assms(2) by (rule order.strict_trans1)
  qed
  with assms show ?thesis by (simp add: membership_ok_def sorted_wrt_append)
qed

text \<open>The entries of a validator map that an operation produces are never nil.\<close>

definition solid :: "validators \<Rightarrow> bool" where
  "solid vs \<longleftrightarrow> (\<forall>i. fmlookup vs i \<noteq> Some None)"

lemma solid_non_nil: "solid vs \<longleftrightarrow> non_nil vs = vs"
proof
  show "non_nil vs = vs" if "solid vs"
    using that by (intro fmap_ext) (auto simp: solid_def non_nil_def get_validator_def split: option.splits)
  show "solid vs" if "non_nil vs = vs"
    unfolding solid_def
  proof
    fix i
    have "fmlookup (non_nil vs) i \<noteq> Some None" by (simp add: non_nil_def get_validator_def split: option.splits)
    with that show "fmlookup vs i \<noteq> Some None" by simp
  qed
qed

lemma solid_updates: "solid vs \<Longrightarrow> solid (fmupd i (Some v) vs)" "solid vs \<Longrightarrow> solid (fmdrop i vs)"
  by (auto simp: solid_def)

lemma clone_solid: "cloneConfig c = c \<longleftrightarrow> solid (cfg_Validators c)"
  by (cases c) (simp add: cloneConfig_def solid_non_nil)

lemma fold_keeps: "(\<And>x s. P s \<Longrightarrow> P (f x s)) \<Longrightarrow> P s \<Longrightarrow> P (fold f xs s)"
  by (induction xs arbitrary: s) auto

lemma solid_joins: "solid (fst s) \<Longrightarrow> solid (fst (apply_join_keys keys s))"
  unfolding apply_join_keys_def
  by (intro fold_keeps [where P = "\<lambda>s. solid (fst s)"])
    (auto simp: apply_join_def solid_updates split: option.splits prod.splits)

lemma solid_leaves: "solid (fst s) \<Longrightarrow> solid (fst (apply_leave_keys keys s))"
  unfolding apply_leave_keys_def
  by (intro fold_keeps [where P = "\<lambda>s. solid (fst s)"])
    (auto simp: apply_leave_def solid_updates split: option.splits prod.splits)

lemma membership_ok_advance:
  assumes "membership_ok mm" and "cfg_ID (ms_current mm) < u64_max" and "solid vs"
  shows "membership_ok (advance_config sha json vs added removed mm)"
proof -
  let ?c = "\<lparr> cfg_ID = cfg_ID (ms_current mm) + 1, cfg_Validators = vs, cfg_QuorumSize = unweighted_quorum vs \<rparr>"
  have "cloneConfig ?c = ?c" using assms(3) by (simp add: clone_solid)
  with membership_ok_append [OF assms(1), of ?c] u64_succ_less [OF assms(2)] show ?thesis
    by (simp add: advance_config_def Let_def)
qed

lemma membership_ok_requests: "membership_ok (mm\<lparr>ms_joins := js, ms_leaves := ls\<rparr>) \<longleftrightarrow> membership_ok mm"
  "membership_ok (mm\<lparr>ms_joins := js\<rparr>) \<longleftrightarrow> membership_ok mm" "membership_ok (mm\<lparr>ms_leaves := ls\<rparr>) \<longleftrightarrow> membership_ok mm"
  by (simp_all add: membership_ok_def cong: option.case_cong)

lemma membership_ok_solid: "membership_ok mm \<Longrightarrow> solid (cfg_Validators (GetCurrentConfig mm))"
  by (simp add: membership_ok_def GetCurrentConfig_def clone_solid [symmetric])

lemma membership_ok_block:
  assumes "membership_ok mm" and "cfg_ID (ms_current mm) < u64_max"
  shows "membership_ok (ApplyMembershipChanges sha json b mm)"
proof -
  let ?vs = "cfg_Validators (GetCurrentConfig mm)"
  obtain vs1 joins added where 1: "apply_join_keys (b_JoinRequests b) (?vs, ms_joins mm, []) = (vs1, joins, added)"
    by (metis prod.collapse)
  obtain vs2 leaves removed where 2: "apply_leave_keys (b_LeaveRequests b) (vs1, ms_leaves mm, []) = (vs2, leaves, removed)"
    by (metis prod.collapse)
  have "solid vs2"
    using solid_leaves [of "(vs1, ms_leaves mm, [])"] solid_joins [of "(?vs, ms_joins mm, [])"] membership_ok_solid [OF assms(1)] 1 2
    by (metis fst_conv)
  with membership_ok_advance [of "mm\<lparr>ms_joins := joins, ms_leaves := leaves\<rparr>"] assms show ?thesis
    by (simp add: ApplyMembershipChanges_def 1 2 membership_ok_requests Let_def)
qed

lemma membership_ok_install:
  assumes "InstallValidatorSetFromTransitions sha json vsp ts mm = Inr (mm', changed)" and "membership_ok mm"
  shows "membership_ok mm'"
proof (cases "mm' = mm")
  case False
  then obtain vs where vs: "vsp = Some vs" using assms(1) by (cases vsp) (auto simp: InstallValidatorSetFromTransitions_def)
  let ?new = "target_config vs" and ?old = "cloneConfig (ms_current mm)"
  obtain added removed where diff: "diffValidatorIDs ?old ?new = (added, removed)" by (metis prod.collapse)
  have new: "cloneConfig ?new = ?new"
    using cloneConfig_idem [of "\<lparr> cfg_ID = 0, cfg_Validators = vs_Validators vs, cfg_QuorumSize = 0 \<rparr>"]
    by (simp add: cloneConfig_def target_config_def)
  have valid: "validateTransitionEvent sha json (latestTransitionEvent ts) ?old ?new added removed = None"
      and later: "cfg_ID (ms_current mm) < cfg_ID ?new"
      and mm': "mm' = mm\<lparr> ms_current := ?new, ms_history := ms_history mm @ [?new],
        ms_event := Some (case latestTransitionEvent ts of Some e \<Rightarrow> e
          | None \<Rightarrow> \<lparr> ce_OldEpoch = cfg_ID ?old, ce_NewEpoch = cfg_ID ?new, ce_Added = added, ce_Removed = removed,
              ce_QuorumSize = cfg_QuorumSize ?new, ce_ConfigHash = config_hash sha json ?new \<rparr>) \<rparr>"
    using assms(1) False
    by (auto simp: InstallValidatorSetFromTransitions_def vs diff new Let_def split: if_splits option.splits)
  show ?thesis
    unfolding mm' using valid
    by (intro membership_ok_append [OF assms(2) later new])
      (auto simp: validateTransitionEvent_def split: option.splits if_splits)
qed (use assms(2) in simp)

lemma membership_ok_step: "mm_step sha json mm mm' \<Longrightarrow> membership_ok mm \<Longrightarrow> membership_ok mm'"
proof (induction rule: mm_step.induct)
  case (reconfig mm d)
  then have "solid (cfg_Validators (GetCurrentConfig mm))" by (simp add: membership_ok_solid)
  with reconfig show ?case
    by (auto simp: ApplyReconfigData_def Let_def intro!: membership_ok_advance solid_updates split: option.splits ReconfigType.splits)
qed (auto simp: mm_SubmitJoinRequest_def mm_SubmitLeaveRequest_def membership_ok_requests intro: membership_ok_block membership_ok_install)

lemma membership_ok_new: "membership_ok (NewMembershipManager vs)"
proof -
  have "cloneConfig \<lparr> cfg_ID = 1, cfg_Validators = non_nil vs, cfg_QuorumSize = q \<rparr> = \<lparr> cfg_ID = 1, cfg_Validators = non_nil vs, cfg_QuorumSize = q \<rparr>" for q
    using cloneConfig_idem [of "\<lparr> cfg_ID = 1, cfg_Validators = vs, cfg_QuorumSize = q \<rparr>"] by (simp add: cloneConfig_def)
  then show ?thesis by (simp add: membership_ok_def NewMembershipManager_def Let_def)
qed

text \<open>A step keeps the history or adds one entry to it.\<close>

lemma block_history: "\<exists>later. ms_history (ApplyMembershipChanges sha json b mm) = ms_history mm @ later"
proof -
  obtain vs1 joins added where 1: "apply_join_keys (b_JoinRequests b) (cfg_Validators (GetCurrentConfig mm), ms_joins mm, []) = (vs1, joins, added)"
    by (metis prod.collapse)
  obtain vs2 leaves removed where 2: "apply_leave_keys (b_LeaveRequests b) (vs1, ms_leaves mm, []) = (vs2, leaves, removed)"
    by (metis prod.collapse)
  show ?thesis
    by (simp add: ApplyMembershipChanges_def 1 2 advance_config_def Let_def)
qed

lemma install_history:
  assumes "InstallValidatorSetFromTransitions sha json vsp ts mm = Inr (mm', changed)"
  shows "\<exists>later. ms_history mm' = ms_history mm @ later"
  using assms by (auto simp: InstallValidatorSetFromTransitions_def Let_def split: if_splits option.splits prod.splits)

lemma history_step: "mm_step sha json mm mm' \<Longrightarrow> \<exists>later. ms_history mm' = ms_history mm @ later"
proof (induction rule: mm_step.induct)
  case (reconfig mm d)
  show ?case
    by (auto simp: ApplyReconfigData_def advance_config_def Let_def split: option.splits ReconfigType.splits)
qed (auto simp: mm_SubmitJoinRequest_def mm_SubmitLeaveRequest_def intro: block_history install_history)

lemma history_run: "(mm_step sha json)\<^sup>*\<^sup>* mm mm' \<Longrightarrow> \<exists>later. ms_history mm' = ms_history mm @ later"
proof (induction rule: rtranclp_induct)
  case (step x y)
  from step(3) history_step [OF step(2)] show ?case by auto
qed simp

text \<open>
  C19: the membership of a node moves forward and forgets nothing: in every run the history of an
  earlier state is a prefix of the history of a later one, the epochs of the history grow strictly, its
  last entry is the current configuration, no validator of that is nil, and the event a client reads
  describes the current configuration.  Reconfigurations are applied while the epoch is below its maximum.
\<close>

theorem membership_moves_forward:
  assumes "(mm_step sha json)\<^sup>*\<^sup>* (NewMembershipManager vs) early" and "(mm_step sha json)\<^sup>*\<^sup>* early mm"
  shows "(\<exists>later. ms_history mm = ms_history early @ later) \<and>
    sorted_wrt (<) (map cfg_ID (ms_history mm)) \<and> last (ms_history mm) = ms_current mm \<and>
    fmpred (\<lambda>i v. v \<noteq> None) (cfg_Validators (ms_current mm)) \<and>
    (case ms_event mm of None \<Rightarrow> True | Some ev \<Rightarrow> ce_NewEpoch ev = cfg_ID (ms_current mm) \<and> ce_QuorumSize ev = cfg_QuorumSize (ms_current mm))"
proof -
  have ok: "membership_ok mm"
    using rtranclp_trans [OF assms] by (induction rule: rtranclp_induct) (auto intro: membership_ok_new membership_ok_step)
  then have "solid (cfg_Validators (ms_current mm))"
    by (simp add: membership_ok_def clone_solid)
  then have "fmpred (\<lambda>i v. v \<noteq> None) (cfg_Validators (ms_current mm))"
    unfolding solid_def fmpred_iff
  proof (intro allI impI)
    fix i v
    assume "\<forall>i. fmlookup (cfg_Validators (ms_current mm)) i \<noteq> Some None" and "fmlookup (cfg_Validators (ms_current mm)) i = Some v"
    then show "v \<noteq> None" by (cases v) simp_all
  qed
  with ok history_run [OF assms(2)] show ?thesis unfolding membership_ok_def by blast
qed

definition mm_first :: validators where
  "mm_first = fmap_of_list [(1, Some \<lparr> v_ID = 1, v_PublicKey = [1], v_VRFPublicKey = [], v_Power = 1, v_IsActive = True \<rparr>)]"

definition mm_example :: membership where
  "mm_example = mm_SubmitJoinRequest \<lparr> jr_ID = 5, jr_PublicKey = [7], jr_Power = 0, jr_View = 0 \<rparr> (NewMembershipManager mm_first)"

theorem membership_moves_forward_witness:
  "map cfg_ID (ms_history (ApplyMembershipChanges id (\<lambda>n q is. []) ((NewBlock id 0 7 [] [] 7 0 1 7 None [])\<lparr>b_JoinRequests := [[7]]\<rparr>) mm_example)) = [1, 2] \<and>
   (\<exists>later. ms_history (ApplyMembershipChanges id (\<lambda>n q is. []) ((NewBlock id 0 7 [] [] 7 0 1 7 None [])\<lparr>b_JoinRequests := [[7]]\<rparr>) mm_example) =
      ms_history mm_example @ later)"
proof
  let ?b = "(NewBlock id 0 7 [] [] 7 0 1 7 None [])\<lparr>b_JoinRequests := [[7]]\<rparr>" and ?json = "\<lambda>n q is. []"
  show "map cfg_ID (ms_history (ApplyMembershipChanges id ?json ?b mm_example)) = [1, 2]" by code_simp
  have "cfg_ID (ms_current mm_example) < u64_max" by code_simp
  then have "mm_step id ?json mm_example (ApplyMembershipChanges id ?json ?b mm_example)" by (rule mm_step.block)
  then have late: "(mm_step id ?json)\<^sup>*\<^sup>* mm_example (ApplyMembershipChanges id ?json ?b mm_example)" by blast
  have "mm_step id ?json (NewMembershipManager mm_first) mm_example"
    unfolding mm_example_def by (rule mm_step.join)
  then have "(mm_step id ?json)\<^sup>*\<^sup>* (NewMembershipManager mm_first) mm_example" by blast
  from membership_moves_forward [OF this late]
  show "\<exists>later. ms_history (ApplyMembershipChanges id ?json ?b mm_example) = ms_history mm_example @ later" by blast
qed

end
