(* ===== verification/Hydra_Discovery.thy ===== *)
theory Hydra_Discovery
  imports Hydra_Config
begin

text \<open>
  Discovery of configurations (hydra/discovery.go): the history of the configurations a node has
  heard of, the highest one it regards as valid, and the request and response messages by which nodes
  exchange them.  The loop that lists the missing identifiers need not end, so its definition is
  partial.  What is sent is appended to \<open>cd_out\<close>; the time of a message is its time stamp.
\<close>

section \<open>State and messages\<close>

datatype DiscoveryType = DiscoveryRequest | DiscoveryResponse | DiscoveryOther

record discovery_request =
  dr_Type :: DiscoveryType
  dr_SenderID :: u64
  dr_ConfigIDs :: "u64 list"
  dr_Timestamp :: int

record discovery_response =
  ds_Type :: DiscoveryType
  ds_SenderID :: u64
  ds_Configs :: "hydra_config option list"
  ds_Timestamp :: int

datatype cd_event = CdBroadcast discovery_request | CdSend u64 discovery_response

text \<open>\<open>highestValidConfig\<close> is set by the constructor and never to nil, as the entries of the history.\<close>

record cdm =
  cd_history :: "hydra_config list"
  cd_highest :: hydra_config
  cd_pending :: "(u64, discovery_request) fmap"
  cd_network :: bool
  cd_running :: bool
  cd_nodeID :: u64
  cd_out :: "cd_event list"

definition NewConfigurationDiscoveryManager :: "u64 \<Rightarrow> hydra_config \<Rightarrow> bool \<Rightarrow> cdm" where
  "NewConfigurationDiscoveryManager i c net = \<lparr> cd_history = [c], cd_highest = c, cd_pending = fmempty,
     cd_network = net, cd_running = False, cd_nodeID = i, cd_out = [] \<rparr>"

definition cd_Start :: "cdm \<Rightarrow> cdm" where
  "cd_Start d = d\<lparr>cd_running := True\<rparr>"

definition cd_Stop :: "cdm \<Rightarrow> cdm" where
  "cd_Stop d = d\<lparr>cd_running := False\<rparr>"

definition cd_send :: "cd_event \<Rightarrow> cdm \<Rightarrow> cdm" where
  "cd_send ev d = (if cd_network d then d\<lparr>cd_out := cd_out d @ [ev]\<rparr> else d)"

section \<open>Operations\<close>

definition cd_GetConfigurationByID :: "u64 \<Rightarrow> cdm \<Rightarrow> hydra_config option" where
  "cd_GetConfigurationByID i d = (case find (\<lambda>c. hc_ID c = i) (rev (cd_history d)) of Some c \<Rightarrow> Some c
     | None \<Rightarrow> if hc_ID (cd_highest d) = i then Some (cd_highest d) else None)"

text \<open>A configuration that does not follow the last one is only reported.\<close>

definition AddConfiguration :: "hydra_config option \<Rightarrow> cdm \<Rightarrow> cdm" where
  "AddConfiguration cp d = (case cp of None \<Rightarrow> d
     | Some c \<Rightarrow> d\<lparr> cd_history := cd_history d @ [c],
         cd_highest := (if hc_ID (cd_highest d) < hc_ID c then c else cd_highest d) \<rparr>)"

definition hasConfig :: "hydra_config list \<Rightarrow> u64 \<Rightarrow> bool" where
  "hasConfig h i \<longleftrightarrow> list_ex (\<lambda>c. hc_ID c = i) h"

text \<open>The loop of \<open>findMissingConfigs\<close> from \<open>i\<close> on, with the identifiers found so far.\<close>

partial_function (option) missing_from :: "hydra_config list \<Rightarrow> u64 \<Rightarrow> u64 \<Rightarrow> u64 list \<Rightarrow> u64 list option" where
  "missing_from h target i acc =
     (if i \<le> target then missing_from h target (i + 1) (if hasConfig h i then acc else acc @ [i]) else Some acc)"

definition findMissingConfigs :: "u64 \<Rightarrow> cdm \<Rightarrow> u64 list option" where
  "findMissingConfigs target d = missing_from (cd_history d) target 1 []"

text \<open>\<open>None\<close> is a call that does not return.\<close>

definition RequestDiscovery :: "int \<Rightarrow> u64 \<Rightarrow> cdm \<Rightarrow> cdm option" where
  "RequestDiscovery now target d =
     (if target \<le> hc_ID (cd_highest d) then Some d
      else case findMissingConfigs target d of None \<Rightarrow> None
      | Some missing \<Rightarrow>
         (let req = \<lparr> dr_Type = DiscoveryRequest, dr_SenderID = cd_nodeID d, dr_ConfigIDs = missing, dr_Timestamp = now \<rparr>
          in Some (cd_send (CdBroadcast req) (d\<lparr>cd_pending := fmupd (cd_nodeID d) req (cd_pending d)\<rparr>))))"

definition requested_configs :: "hydra_config list \<Rightarrow> u64 list \<Rightarrow> hydra_config option list" where
  "requested_configs h ids = concat (map (\<lambda>i. case find (\<lambda>c. hc_ID c = i) h of None \<Rightarrow> [] | Some c \<Rightarrow> [Some c]) ids)"

definition HandleDiscoveryRequest :: "int \<Rightarrow> discovery_request \<Rightarrow> cdm \<Rightarrow> cdm" where
  "HandleDiscoveryRequest now req d = cd_send (CdSend (dr_SenderID req) \<lparr> ds_Type = DiscoveryResponse,
     ds_SenderID = cd_nodeID d, ds_Configs = requested_configs (cd_history d) (dr_ConfigIDs req), ds_Timestamp = now \<rparr>) d"

definition isContinuous :: "hydra_config \<Rightarrow> cdm \<Rightarrow> bool" where
  "isContinuous c d \<longleftrightarrow> hc_ID c = hc_ID (cd_highest d) + 1"

definition learn_config :: "hydra_config \<Rightarrow> cdm \<Rightarrow> cdm" where
  "learn_config c d = (if \<not> IsValidConfiguration c \<or> hasConfig (cd_history d) (hc_ID c) then d
     else d\<lparr> cd_history := cd_history d @ [c],
       cd_highest := (if hc_ID (cd_highest d) < hc_ID c \<and> isContinuous c d then c else cd_highest d) \<rparr>)"

text \<open>A nil configuration in the response makes the size test panic.\<close>

fun HandleDiscoveryResponse :: "hydra_config option list \<Rightarrow> cdm \<Rightarrow> cdm option" where
  "HandleDiscoveryResponse [] d = Some d"
| "HandleDiscoveryResponse (None # cs) d = None"
| "HandleDiscoveryResponse (Some c # cs) d = HandleDiscoveryResponse cs (learn_config c d)"

text \<open>The target of the background loop.\<close>

definition sync_target :: "cdm \<Rightarrow> u64" where
  "sync_target d = hc_ID (cd_highest d) + 10"

section \<open>When the search for missing identifiers ends\<close>

lemma missing_from_ends:
  assumes "missing_from h target i acc = Some r"
  shows "target \<noteq> u64_max"
proof (rule missing_from.raw_induct [of "\<lambda>h target i acc r. target \<noteq> u64_max", OF _ assms])
  fix loop :: "hydra_config list \<Rightarrow> u64 \<Rightarrow> u64 \<Rightarrow> u64 list \<Rightarrow> u64 list option"
  fix h target i acc r
  assume IH: "\<And>h target i acc r. loop h target i acc = Some r \<Longrightarrow> target \<noteq> u64_max"
    and body: "(if i \<le> target then loop h target (i + 1) (if hasConfig h i then acc else acc @ [i]) else Some acc) = Some r"
  show "target \<noteq> u64_max"
  proof (cases "i \<le> target")
    case True
    then show ?thesis using body IH by simp
  next
    case False
    then show ?thesis using word_n1_ge by auto
  qed
qed

lemma missing_from_runs:
  assumes "target \<noteq> u64_max" and "i \<le> target + 1"
  shows "missing_from h target i acc = Some (acc @ filter (\<lambda>j. \<not> hasConfig h j) (map of_nat [unat i..<Suc (unat target)]))"
  using assms(2)
proof (induction "Suc (unat target) - unat i" arbitrary: i acc)
  case 0
  then have "target < i" by (simp add: word_less_nat_alt)
  then have "\<not> i \<le> target" by simp
  with 0 show ?case by (subst missing_from.simps) simp
next
  case (Suc n)
  then have i: "i \<le> target" by (simp add: word_le_nat_alt)
  have "target < u64_max"
    using assms(1) by (simp add: order.not_eq_order_implies_strict)
  moreover from i this have "i < u64_max" by (rule order.strict_trans1)
  ultimately have next_i: "unat (i + 1) = Suc (unat i)" and "unat (target + 1) = Suc (unat target)"
    by (simp_all add: unat_succ)
  then have "i + 1 \<le> target + 1" and "n = Suc (unat target) - unat (i + 1)"
    using i Suc.hyps(2) by (simp_all add: word_le_nat_alt)
  note IH = Suc.hyps(1) [OF this(2,1)]
  have ids: "map of_nat [unat i..<Suc (unat target)] = i # map of_nat [unat (i + 1)..<Suc (unat target)]"
    using i next_i by (simp add: word_le_nat_alt upt_conv_Cons del: upt_Suc)
  have "missing_from h target i acc = missing_from h target (i + 1) (if hasConfig h i then acc else acc @ [i])"
    by (subst missing_from.simps) (simp only: i if_True)
  also have "\<dots> = Some ((if hasConfig h i then acc else acc @ [i]) @
      filter (\<lambda>j. \<not> hasConfig h j) (map of_nat [unat (i + 1)..<Suc (unat target)]))"
    by (rule IH)
  finally show ?case
    unfolding ids by (simp del: upt_Suc)
qed

text \<open>
  C39: the search for missing identifiers returns exactly when the target is not the largest
  identifier; it then lists, in increasing order, the identifiers from 1 to the target that no known
  configuration has.  For the largest identifier the loop variable wraps around and the loop, which
  holds the lock of the manager, never ends.
\<close>

theorem findMissingConfigs_ends:
  "findMissingConfigs target d = (if target = u64_max then None
     else Some (filter (\<lambda>j. \<not> hasConfig (cd_history d) j) (map of_nat [1..<Suc (unat target)])))"
proof (cases "target = u64_max")
  case True
  then show ?thesis
    using missing_from_ends [of "cd_history d" target 1 "[]"] by (cases "findMissingConfigs target d") (simp_all add: findMissingConfigs_def)
next
  case False
  have "(1 :: u64) \<le> target + 1"
    using unat_succ [OF order.not_eq_order_implies_strict [OF False word_n1_ge]] by (simp add: word_le_nat_alt)
  with missing_from_runs [OF False this, of "cd_history d" "[]"] False show ?thesis
    by (simp add: findMissingConfigs_def del: upt_Suc)
qed

section \<open>Catching up\<close>

text \<open>The steps of a node that only discovers configurations.\<close>

inductive cd_step :: "cdm \<Rightarrow> cdm \<Rightarrow> bool" where
  request: "RequestDiscovery now target d = Some d' \<Longrightarrow> cd_step d d'"
| respond: "cd_step d (HandleDiscoveryRequest now req d)"
| response: "HandleDiscoveryResponse cs d = Some d' \<Longrightarrow> cd_step d d'"

inductive_cases cd_stepE: "cd_step d d'"

lemma le_succ_cases:
  assumes "(j :: u64) \<le> k + 1"
  shows "j = k + 1 \<or> j \<le> k"
proof (cases "k = u64_max")
  case False
  then have "unat (k + 1) = unat k + 1"
    using unat_succ [OF order.not_eq_order_implies_strict [OF _ word_n1_ge]] by blast
  with assms show ?thesis by (auto simp: word_le_nat_alt word_unat_eq_iff)
qed (simp add: word_n1_ge)

lemma request_frame:
  "RequestDiscovery now target d = Some d' \<Longrightarrow> cd_history d' = cd_history d \<and> cd_highest d' = cd_highest d"
  by (auto simp: RequestDiscovery_def cd_send_def Let_def split: if_splits option.splits)

lemma respond_frame:
  "cd_history (HandleDiscoveryRequest now req d) = cd_history d" "cd_highest (HandleDiscoveryRequest now req d) = cd_highest d"
  by (simp_all add: HandleDiscoveryRequest_def cd_send_def)

lemma response_keeps:
  assumes "HandleDiscoveryResponse cs d = Some d'" and "P d" and "\<And>c d. P d \<Longrightarrow> P (learn_config c d)"
  shows "P d'"
  using assms(1,2) by (induction cs d rule: HandleDiscoveryResponse.induct) (auto intro: assms(3))

lemma cd_run_keeps:
  assumes "cd_step\<^sup>*\<^sup>* d d'" and "P (cd_history d) (cd_highest d)"
    and learn: "\<And>c d. P (cd_history d) (cd_highest d) \<Longrightarrow> P (cd_history (learn_config c d)) (cd_highest (learn_config c d))"
  shows "P (cd_history d') (cd_highest d')"
  using assms(1)
proof (induction rule: rtranclp_induct)
  case base
  show ?case by (rule assms(2))
next
  case (step d1 d2)
  from step.hyps(2) show ?case
  proof (cases rule: cd_step.cases)
    case (request now target)
    then show ?thesis using request_frame step.IH by simp
  next
    case (respond now req)
    then show ?thesis using step.IH by (simp add: respond_frame)
  next
    case (response cs)
    then show ?thesis using response_keeps [where P = "\<lambda>d. P (cd_history d) (cd_highest d)"] step.IH learn by blast
  qed
qed

text \<open>
  What a node discovers is contiguous: as long as it learns configurations from responses only,
  it knows every configuration from its first one to the highest valid one, whatever the responses
  contain and in whatever order they come.
\<close>

theorem discovery_contiguous:
  assumes "cd_step\<^sup>*\<^sup>* (NewConfigurationDiscoveryManager i c net) d"
  shows "cd_highest d \<in> set (cd_history d) \<and> {j. hc_ID c \<le> j \<and> j \<le> hc_ID (cd_highest d)} \<subseteq> hc_ID ` set (cd_history d)"
proof (rule cd_run_keeps [OF assms, where P = "\<lambda>h c'. c' \<in> set h \<and> {j. hc_ID c \<le> j \<and> j \<le> hc_ID c'} \<subseteq> hc_ID ` set h"])
  show "cd_highest (NewConfigurationDiscoveryManager i c net) \<in> set (cd_history (NewConfigurationDiscoveryManager i c net)) \<and>
      {j. hc_ID c \<le> j \<and> j \<le> hc_ID (cd_highest (NewConfigurationDiscoveryManager i c net))} \<subseteq>
      hc_ID ` set (cd_history (NewConfigurationDiscoveryManager i c net))"
    by (auto simp: NewConfigurationDiscoveryManager_def)
next
  fix e :: hydra_config and d :: cdm
  assume ok: "cd_highest d \<in> set (cd_history d) \<and> {j. hc_ID c \<le> j \<and> j \<le> hc_ID (cd_highest d)} \<subseteq> hc_ID ` set (cd_history d)"
  show "cd_highest (learn_config e d) \<in> set (cd_history (learn_config e d)) \<and>
      {j. hc_ID c \<le> j \<and> j \<le> hc_ID (cd_highest (learn_config e d))} \<subseteq> hc_ID ` set (cd_history (learn_config e d))"
    using ok by (auto simp: learn_config_def isContinuous_def dest: le_succ_cases)
qed

text \<open>A configuration of three validators with a given number.\<close>

definition cd_config :: "u64 \<Rightarrow> hydra_config" where
  "cd_config i = \<lparr> hc_ID = i, hc_Validators = fmap_of_list [(1, None), (2, None), (3, None)], hc_QuorumSize = 3, hc_BlockHash = [] \<rparr>"

definition cd_learn :: "u64 list \<Rightarrow> cdm" where
  "cd_learn is = the (HandleDiscoveryResponse (map (\<lambda>i. Some (cd_config i)) is) (NewConfigurationDiscoveryManager 7 (cd_config 0) True))"

lemma cd_learn_run: "cd_step\<^sup>*\<^sup>* (NewConfigurationDiscoveryManager 7 (cd_config 0) True) (cd_learn is)"
proof -
  have "HandleDiscoveryResponse (map (\<lambda>i. Some (cd_config i)) is) d \<noteq> None" for d
    by (induction "is" arbitrary: d) simp_all
  then have "cd_step (NewConfigurationDiscoveryManager 7 (cd_config 0) True) (cd_learn is)"
    by (auto simp: cd_learn_def intro: cd_step.response)
  then show ?thesis by blast
qed

theorem discovery_contiguous_witness:
  "hc_ID (cd_highest (cd_learn [1, 2])) = 2 \<and> {j. 0 \<le> j \<and> j \<le> 2} \<subseteq> hc_ID ` set (cd_history (cd_learn [1, 2]))"
proof -
  have "hc_ID (cd_highest (cd_learn [1, 2])) = 2" by code_simp
  then show ?thesis
    using discovery_contiguous [OF cd_learn_run [of "[1, 2]"]] by (simp add: cd_config_def)
qed

text \<open>
  A node that hears of a configuration too early is stuck: once its history contains the successor
  of the highest valid configuration, no response ever raises the highest valid configuration again,
  since the successor is no longer missing.
\<close>

theorem discovery_gets_stuck:
  assumes "hasConfig (cd_history d) (hc_ID (cd_highest d) + 1)" and "cd_step\<^sup>*\<^sup>* d d'"
  shows "cd_highest d' = cd_highest d"
proof -
  have "hasConfig (cd_history d') (hc_ID (cd_highest d) + 1) \<and> cd_highest d' = cd_highest d"
    by (rule cd_run_keeps [OF assms(2), where P = "\<lambda>h c. hasConfig h (hc_ID (cd_highest d) + 1) \<and> c = cd_highest d"])
      (use assms(1) in \<open>auto simp: learn_config_def isContinuous_def hasConfig_def\<close>)
  then show ?thesis ..
qed

theorem discovery_gets_stuck_witness:
  "hc_ID (cd_highest (cd_learn [2, 1])) = 1 \<and> {d. cd_step\<^sup>*\<^sup>* (cd_learn [2, 1]) d \<and> hc_ID (cd_highest d) \<noteq> 1} = {}"
proof -
  have known: "hasConfig (cd_history (cd_learn [2, 1])) (hc_ID (cd_highest (cd_learn [2, 1])) + 1)"
    and one: "hc_ID (cd_highest (cd_learn [2, 1])) = 1"
    by code_simp+
  have "hc_ID (cd_highest d) = 1" if "cd_step\<^sup>*\<^sup>* (cd_learn [2, 1]) d" for d
    unfolding discovery_gets_stuck [OF known that] by (rule one)
  with one show ?thesis by blast
qed

end
