(* ===== verification/Hydra_Manager.thy ===== *)
theory Hydra_Manager
  imports Hydra_Discovery Hydra_Transition
begin

text \<open>
  The manager that joins the parts of Hydra (hydra/manager.go, hydra/credential.go): membership
  requests, the configuration responsible for a request, the dispatch of messages, the installation
  of committed configurations and the leaders that the L-set allows.  The L-set manager and the
  configuration manager are shared by pointer with the transition manager; in the model they are its
  fields \<open>at_lset\<close> and \<open>at_tcm\<close>.
\<close>

section \<open>State\<close>

record hydra_manager =
  hm_atm :: atm
  hm_cdm :: cdm
  hm_credential :: "(u64 \<Rightarrow> bytes \<Rightarrow> bool) option"
  hm_requestToConfig :: "(string, u64) fmap"
  hm_responsible :: "(u64, u64 fset) fmap"
  hm_nodeID :: u64
  hm_running :: bool

abbreviation hm_lset :: "hydra_manager \<Rightarrow> lset_manager" where
  "hm_lset hm \<equiv> at_lset (hm_atm hm)"

abbreviation hm_tcm :: "hydra_manager \<Rightarrow> tcm" where
  "hm_tcm hm \<equiv> at_tcm (hm_atm hm)"

definition NoopCredentialVerifier :: "u64 \<Rightarrow> bytes \<Rightarrow> bool" where
  "NoopCredentialVerifier i credential = True"

definition initial_config :: "validators \<Rightarrow> hydra_config" where
  "initial_config vs = \<lparr> hc_ID = 0, hc_Validators = vs, hc_QuorumSize = head_quorum vs, hc_BlockHash = [] \<rparr>"

text \<open>The private key is optional.\<close>

definition NewHydraManager :: "u64 \<Rightarrow> validators \<Rightarrow> bool \<Rightarrow> bytes option \<Rightarrow> hydra_manager" where
  "NewHydraManager i vs net key =
     (let a = atm_SetNodeID i (NewAutoTransitionManager (NewLSetManager vs) (NewTemporaryConfigurationManager (initial_config vs)) net)
      in \<lparr> hm_atm = (case key of None \<Rightarrow> a | Some k \<Rightarrow> atm_SetPrivateKey k a),
           hm_cdm = NewConfigurationDiscoveryManager i (initial_config vs) net,
           hm_credential = Some NoopCredentialVerifier, hm_requestToConfig = fmempty, hm_responsible = fmempty,
           hm_nodeID = i, hm_running = False \<rparr>)"

definition hm_Start :: "hydra_manager \<Rightarrow> hydra_manager" where
  "hm_Start hm = hm\<lparr>hm_running := True, hm_atm := atm_Start (hm_atm hm), hm_cdm := cd_Start (hm_cdm hm)\<rparr>"

definition hm_Stop :: "hydra_manager \<Rightarrow> hydra_manager" where
  "hm_Stop hm = hm\<lparr>hm_running := False, hm_atm := atm_Stop (hm_atm hm), hm_cdm := cd_Stop (hm_cdm hm)\<rparr>"

definition update_tcm :: "tcm \<Rightarrow> hydra_manager \<Rightarrow> hydra_manager" where
  "update_tcm t hm = hm\<lparr>hm_atm := (hm_atm hm)\<lparr>at_tcm := t\<rparr>\<rparr>"

section \<open>Requests\<close>

text \<open>The result is the error, if any, and the manager after the call.\<close>

definition hm_SubmitJoinRequest :: "u64 \<Rightarrow> bytes \<Rightarrow> u64 \<Rightarrow> hydra_manager \<Rightarrow> hydra_manager \<times> string option" where
  "hm_SubmitJoinRequest i key pw hm =
     (if (case hm_credential hm of None \<Rightarrow> False | Some verify \<Rightarrow> \<not> verify i key) then (hm, Some ''join rejected'')
      else case AddJoinRequest \<lparr> mr_Type = RequestJoin, mr_ID = i, mr_PublicKey = key, mr_Power = pw,
          mr_Signature = [], mr_View = 0 \<rparr> (hm_tcm hm) of
        Inl r \<Rightarrow> (hm, Some r) | Inr t \<Rightarrow> (update_tcm t hm, None))"

definition hm_SubmitLeaveRequest :: "u64 \<Rightarrow> hydra_manager \<Rightarrow> hydra_manager \<times> string option" where
  "hm_SubmitLeaveRequest i hm =
     (case AddLeaveRequest \<lparr> mr_Type = RequestLeave, mr_ID = i, mr_PublicKey = [], mr_Power = 0,
          mr_Signature = [], mr_View = 0 \<rparr> (hm_tcm hm) of
        Inl r \<Rightarrow> (hm, Some r) | Inr t \<Rightarrow> (update_tcm t hm, None))"

section \<open>Responsibility\<close>

definition TrackResponsibility :: "string \<Rightarrow> u64 \<Rightarrow> hydra_manager \<Rightarrow> hydra_manager" where
  "TrackResponsibility hash i hm =
     (let hm1 = hm\<lparr>hm_requestToConfig := fmupd hash i (hm_requestToConfig hm)\<rparr>
      in case (case GetConfigurationByID i (hm_tcm hm) of Some c \<Rightarrow> Some c
           | None \<Rightarrow> cd_GetConfigurationByID i (hm_cdm hm)) of
        None \<Rightarrow> hm1
      | Some c \<Rightarrow> hm1\<lparr>hm_responsible := fmupd i (fmdom (hc_Validators c)) (hm_responsible hm)\<rparr>)"

definition GetResponsibleConfig :: "string \<Rightarrow> hydra_manager \<Rightarrow> u64 option" where
  "GetResponsibleConfig hash hm = fmlookup (hm_requestToConfig hm) hash"

definition IsResponsibleValidator :: "string \<Rightarrow> hydra_manager \<Rightarrow> bool" where
  "IsResponsibleValidator hash hm = (case GetResponsibleConfig hash hm of None \<Rightarrow> False
     | Some i \<Rightarrow> (case fmlookup (hm_responsible hm) i of None \<Rightarrow> False | Some vs \<Rightarrow> hm_nodeID hm |\<in>| vs))"

text \<open>\<open>None\<close> is \<open>exists = false\<close>; the validators may be unknown.\<close>

definition GetClarity :: "string \<Rightarrow> hydra_manager \<Rightarrow> (u64 \<times> u64 fset option) option" where
  "GetClarity hash hm = (case GetResponsibleConfig hash hm of None \<Rightarrow> None
     | Some i \<Rightarrow> Some (i, fmlookup (hm_responsible hm) i))"

section \<open>Messages\<close>

datatype hydra_msg = HmAuto auto_message | HmRequest discovery_request | HmResponse discovery_response | HmOther

text \<open>\<open>None\<close> is a panic.\<close>

definition HandleMessage :: "hydra_env \<Rightarrow> int \<Rightarrow> hydra_msg \<Rightarrow> hydra_manager \<Rightarrow> (hydra_manager \<times> string option) option" where
  "HandleMessage env now msg hm = (case msg of
     HmAuto m \<Rightarrow> map_option (\<lambda>(a, r). (hm\<lparr>hm_atm := a\<rparr>, r)) (HandleAutoTransitionMessage env now (Some m) (hm_atm hm))
   | HmRequest req \<Rightarrow> Some (hm\<lparr>hm_cdm := HandleDiscoveryRequest now req (hm_cdm hm)\<rparr>, None)
   | HmResponse resp \<Rightarrow> map_option (\<lambda>d. (hm\<lparr>hm_cdm := d\<rparr>, None)) (HandleDiscoveryResponse (ds_Configs resp) (hm_cdm hm))
   | HmOther \<Rightarrow> Some (hm, None))"

text \<open>
  The dispatch of bytes from the network (cmd/evolvbft/main.go): the JSON decoder is a parameter; the
  time stamp 0 is the zero time.
\<close>

record hydra_codec =
  hd_auto :: "bytes \<Rightarrow> auto_message option"
  hd_request :: "bytes \<Rightarrow> discovery_request option"
  hd_response :: "bytes \<Rightarrow> discovery_response option"

definition decode_response :: "hydra_codec \<Rightarrow> bytes \<Rightarrow> hydra_msg option" where
  "decode_response k data = (case hd_response k data of None \<Rightarrow> None
     | Some resp \<Rightarrow> if ds_Timestamp resp \<noteq> 0 \<and> ds_Type resp = DiscoveryResponse then Some (HmResponse resp) else None)"

definition decode_request :: "hydra_codec \<Rightarrow> bytes \<Rightarrow> hydra_msg option" where
  "decode_request k data = (case hd_request k data of None \<Rightarrow> decode_response k data
     | Some req \<Rightarrow> if dr_Timestamp req \<noteq> 0 \<and> dr_Type req = DiscoveryRequest then Some (HmRequest req)
         else decode_response k data)"

definition decode_hydra :: "hydra_codec \<Rightarrow> bytes \<Rightarrow> hydra_msg option" where
  "decode_hydra k data = (case hd_auto k data of None \<Rightarrow> decode_request k data
     | Some m \<Rightarrow> if 0 < am_View m then Some (HmAuto m) else decode_request k data)"

definition handleHydraMessageBytes ::
  "hydra_codec \<Rightarrow> hydra_env \<Rightarrow> int \<Rightarrow> bytes \<Rightarrow> hydra_manager \<Rightarrow> (hydra_manager \<times> string option) option" where
  "handleHydraMessageBytes k env now data hm =
     (if data = [] then Some (hm, None)
      else case decode_hydra k data of None \<Rightarrow> Some (hm, None) | Some msg \<Rightarrow> HandleMessage env now msg hm)"

section \<open>Committed configurations\<close>

definition configFromTypes :: "configuration \<Rightarrow> hydra_config" where
  "configFromTypes c = \<lparr> hc_ID = cfg_ID c, hc_Validators = non_nil (cfg_Validators c),
     hc_QuorumSize = sint (cfg_QuorumSize c), hc_BlockHash = [] \<rparr>"

definition InstallCommittedConfiguration :: "configuration option \<Rightarrow> hydra_manager \<Rightarrow> hydra_manager \<times> string option" where
  "InstallCommittedConfiguration cp hm = (case cp of None \<Rightarrow> (hm, None)
     | Some config \<Rightarrow>
        (let committed = configFromTypes config; existing = tm_Mvalid (hm_tcm hm)
         in if hc_ID committed < hc_ID existing then (hm, None)
            else if hc_ID existing = hc_ID committed
            then (hm, if configsEqualHydra existing committed then None else Some ''conflicting committed hydra config'')
            else (let hm1 = hm\<lparr>hm_cdm := AddConfiguration (Some committed) (hm_cdm hm)\<rparr>
              in case InstallCommittedConfig (Some committed) (hm_tcm hm1) of Inl r \<Rightarrow> (hm1, Some r)
               | Inr t \<Rightarrow> ((update_tcm t hm1)\<lparr>hm_atm := (hm_atm (update_tcm t hm1))\<lparr>
                   at_lset := InstallConfiguration (Some committed) (hm_lset hm1)\<rparr>\<rparr>, None))))"

section \<open>Leaders\<close>

definition AllowedLeaders :: "hydra_manager \<Rightarrow> u64 list" where
  "AllowedLeaders hm = filter (\<lambda>i. case get_validator (lm_LSet (hm_lset hm)) i of Some v \<Rightarrow> v_IsActive v | None \<Rightarrow> False)
     (gm_keys (lm_LSet (hm_lset hm)))"

definition hm_IsAllowedLeader :: "hydra_manager \<Rightarrow> u64 \<Rightarrow> bool" where
  "hm_IsAllowedLeader hm i \<longleftrightarrow> AllowedLeaders hm = [] \<or> i \<in> set (AllowedLeaders hm)"

lemma AllowedLeaders_active: "AllowedLeaders hm = active_ids (lm_LSet (hm_lset hm))"
  by (simp add: AllowedLeaders_def active_ids_def)

text \<open>What the engine reads of an attached manager.\<close>

lemma allowed_leader_engine:
  "ev_hydra env = Some (AllowedLeaders hm) \<Longrightarrow> IsAllowedLeader env i \<longleftrightarrow> hm_IsAllowedLeader hm i"
  by (simp add: IsAllowedLeader_def hm_IsAllowedLeader_def)

section \<open>The L-set follows the committed configuration\<close>

text \<open>Everything that happens to the manager while the node runs.\<close>

inductive hm_step :: "hydra_env \<Rightarrow> hydra_manager \<Rightarrow> hydra_manager \<Rightarrow> bool" for env where
  message: "HandleMessage env now msg hm = Some (hm', r) \<Longrightarrow> hm_step env hm hm'"
| trigger: "TriggerAutoTransition env view (hm_atm hm) = Some (a, r) \<Longrightarrow> hm_step env hm (hm\<lparr>hm_atm := a\<rparr>)"
| collect: "hm_step env hm (hm\<lparr>hm_atm := atm_GCCollectors now maxAge (hm_atm hm)\<rparr>)"
| mark: "hm_step env hm (hm\<lparr>hm_atm := (hm_atm hm)\<lparr>at_lset := MarkFault now i class (hm_lset hm)\<rparr>\<rparr>)"
| clear: "hm_step env hm (hm\<lparr>hm_atm := (hm_atm hm)\<lparr>at_lset := ClearMarks now duration (hm_lset hm)\<rparr>\<rparr>)"
| join: "hm_SubmitJoinRequest i key pw hm = (hm', r) \<Longrightarrow> hm_step env hm hm'"
| leave: "hm_SubmitLeaveRequest i hm = (hm', r) \<Longrightarrow> hm_step env hm hm'"
| discover: "RequestDiscovery now target (hm_cdm hm) = Some d \<Longrightarrow> hm_step env hm (hm\<lparr>hm_cdm := d\<rparr>)"
| track: "hm_step env hm (TrackResponsibility hash i hm)"
| install: "InstallCommittedConfiguration cp hm = (hm', r) \<Longrightarrow> hm_step env hm hm'"

definition lset_in_step :: "hydra_manager \<Rightarrow> bool" where
  "lset_in_step hm \<longleftrightarrow> lm_LSet (hm_lset hm) = rebuildLSet (hc_Validators (tm_Mvalid (hm_tcm hm)))"

text \<open>No automatic transition touches the L-set or the committed configuration.\<close>

definition same_members :: "atm \<Rightarrow> atm \<Rightarrow> bool" where
  "same_members a b \<longleftrightarrow> at_lset b = at_lset a \<and> tm_Mvalid (at_tcm b) = tm_Mvalid (at_tcm a)"

lemma same_refl [simp]: "same_members a a"
  by (simp add: same_members_def)

lemma same_surroundings:
  "same_members a (atm_emit evs a)" "same_members a (OnTransition a)" "same_members a (ensure_collector now view a)"
  "same_members a (bindPendingVotesLocked env view a)" "same_members a (call_back c tp (commitAutoTransitionLocked view p a))"
  "same_members a (record_proof_votes now view votes a)"
  by (auto simp: same_members_def atm_emit_def OnTransition_def ensure_collector_def bindPendingVotesLocked_def call_back_def
      commitAutoTransitionLocked_def record_proof_votes_def Let_def split: option.splits)

lemma same_recent: "rejectReplay msg a = Inr b \<Longrightarrow> same_members a b"
  by (auto simp: rejectReplay_def same_members_def split: if_splits)

lemma same_candidate: "propose_candidate msg a = Inr b \<Longrightarrow> same_members a b"
  by (auto simp: propose_candidate_def same_members_def storePendingAutoConfig_def ReserveNextConfigID_def Let_def
      split: option.splits if_splits)

lemma same_ready: "commitReadyForView view a = Inr (b, formed) \<Longrightarrow> same_members a b"
  by (auto simp: commitReadyForView_def same_surroundings intro: same_members_def [THEN iffD2] split: option.splits if_splits)

lemma same_broadcast: "sign_and_broadcast env msg a = Some (b, r) \<Longrightarrow> same_members a b"
  by (auto simp: sign_and_broadcast_def same_surroundings same_members_def atm_emit_def split: option.splits sum.splits)

lemma same_cast: "cast_vote env view a = Some (b, r) \<Longrightarrow> same_members a b"
  by (auto simp: cast_vote_def same_members_def dest!: same_broadcast split: option.splits if_splits)

lemma same_trigger: "TriggerAutoTransition env view a = Some (b, r) \<Longrightarrow> same_members a b"
  by (auto simp: TriggerAutoTransition_def same_members_def dest!: same_broadcast split: if_splits)

lemma same_commit_candidate: "commit_candidate msg proof a = Inr (b, p) \<Longrightarrow> same_members a b"
  by (auto simp: commit_candidate_def same_members_def split: option.splits sum.splits if_splits)

lemma same_adopt: "adopt_config_id msg proof p a = Inr (b, p') \<Longrightarrow> same_members a b"
  by (auto simp: adopt_config_id_def same_members_def ObserveReservedConfigID_def Let_def split: if_splits)

lemmas same_simps = same_members_def same_surroundings [unfolded same_members_def]

lemmas same_dests = same_recent [unfolded same_members_def] same_candidate [unfolded same_members_def]
  same_ready [unfolded same_members_def] same_cast [unfolded same_members_def]
  same_commit_candidate [unfolded same_members_def] same_adopt [unfolded same_members_def]

lemma same_propose: "handleAutoPropose env now msg a = Some (b, r) \<Longrightarrow> same_members a b"
  unfolding handleAutoPropose_def Let_def
  by (auto split: if_splits option.splits sum.splits prod.splits bool.splits dest!: same_dests simp: same_simps)

lemma same_vote: "handleAutoVote env now msg a = Some (b, r) \<Longrightarrow> same_members a b"
  unfolding handleAutoVote_def Let_def
  by (auto split: if_splits option.splits sum.splits prod.splits dest!: same_dests simp: same_simps)

lemma same_commit: "handleAutoCommit env now msg a = Some (b, r) \<Longrightarrow> same_members a b"
  unfolding handleAutoCommit_def
  by (auto split: if_splits option.splits sum.splits prod.splits dest!: same_dests simp: same_simps)

lemma same_handled: "HandleAutoTransitionMessage env now mp a = Some (b, r) \<Longrightarrow> same_members a b"
  by (auto simp: HandleAutoTransitionMessage_def same_members_def split: option.splits AutoTransitionType.splits
      dest!: same_propose [unfolded same_members_def] same_vote [unfolded same_members_def] same_commit [unfolded same_members_def])

lemma lset_in_step_atm: "same_members (hm_atm hm) a \<Longrightarrow> lset_in_step hm \<Longrightarrow> lset_in_step (hm\<lparr>hm_atm := a\<rparr>)"
  by (simp add: same_members_def lset_in_step_def)

lemma lset_in_step_new: "lset_in_step (NewHydraManager i vs net key)"
  by (simp add: lset_in_step_def NewHydraManager_def initial_config_def NewLSetManager_def NewAutoTransitionManager_def
      NewTemporaryConfigurationManager_def atm_SetNodeID_def atm_SetPrivateKey_def Let_def split: option.splits)

lemma lset_in_step_install:
  assumes "InstallCommittedConfiguration cp hm = (hm', r)" and "lset_in_step hm"
  shows "lset_in_step hm'"
  using assms
  by (auto simp: InstallCommittedConfiguration_def InstallCommittedConfig_def InstallConfiguration_def lset_in_step_def update_tcm_def Let_def
      split: option.splits if_splits sum.splits)

lemma lset_in_step_step:
  assumes "hm_step env hm hm'" and "lset_in_step hm"
  shows "lset_in_step hm'"
  using assms(1)
proof (cases rule: hm_step.cases)
  case (message now msg r)
  then show ?thesis
    using assms(2) by (auto simp: HandleMessage_def lset_in_step_def same_members_def split: hydra_msg.splits
        dest!: same_handled [unfolded same_members_def])
next
  case (trigger view a r)
  then show ?thesis using assms(2) same_trigger lset_in_step_atm by blast
next
  case (install cp r)
  then show ?thesis using assms(2) lset_in_step_install by blast
qed (use assms(2) in \<open>auto simp: lset_in_step_def atm_GCCollectors_def MarkFault_def ClearMarks_def hm_SubmitJoinRequest_def hm_SubmitLeaveRequest_def
      AddJoinRequest_def AddLeaveRequest_def update_tcm_def TrackResponsibility_def Let_def split: if_splits option.splits sum.splits\<close>)

lemma lset_in_step_run: "(hm_step env)\<^sup>*\<^sup>* hm hm' \<Longrightarrow> lset_in_step hm \<Longrightarrow> lset_in_step hm'"
  by (induction rule: rtranclp_induct) (auto intro: lset_in_step_step)

section \<open>The allowed leaders\<close>

lemma gm_keys_fmfilter: "gm_keys (fmfilter P m) = filter P (gm_keys m)"
  by (rule sorted_distinct_set_unique)
    (auto simp: sorted_gm_keys distinct_gm_keys set_gm_keys intro: sorted_wrt_filter)

lemma filter_take: "distinct xs \<Longrightarrow> filter (\<lambda>x. x \<in> set (take k xs)) xs = take k xs"
proof -
  assume "distinct xs"
  then have "set (take k xs) \<inter> set (drop k xs) = {}"
    by (metis append_take_drop_id distinct_append)
  then have "filter (\<lambda>x. x \<in> set (take k xs)) (take k xs @ drop k xs) = take k xs"
    by (simp only: filter_append) (auto simp: filter_empty_conv)
  then show ?thesis by simp
qed

lemma active_ids_filter: "active_ids (fmfilter P vs) = filter P (active_ids vs)"
proof -
  have "get_validator (fmfilter P vs) i = (if P i then get_validator vs i else None)" for i
    by (simp add: get_validator_def)
  then show ?thesis
    by (simp add: active_ids_def gm_keys_fmfilter) (rule filter_cong; auto)
qed

lemma active_ids_rebuilt: "active_ids (rebuildLSet vs) = take (length (active_ids vs) div 2 + 1) (active_ids vs)"
proof -
  have "distinct (active_ids vs)" by (simp add: active_ids_def distinct_gm_keys)
  from filter_take [OF this] show ?thesis
    unfolding rebuildLSet_def Let_def active_ids_filter by simp
qed

text \<open>
  In every run of a node, whatever messages, faults and requests it sees, the leaders it allows
  are the first \<open>n/2 + 1\<close> active validators of its committed configuration: a strict majority of them,
  and the same for all nodes with that configuration.
\<close>

theorem allowed_leaders_majority:
  assumes "(hm_step env)\<^sup>*\<^sup>* (NewHydraManager i vs net key) hm"
    and "ids = active_ids (hc_Validators (tm_Mvalid (hm_tcm hm)))"
  shows "AllowedLeaders hm = take (length ids div 2 + 1) ids \<and> (ids = [] \<or> length ids < 2 * length (AllowedLeaders hm))"
proof -
  have "lset_in_step hm"
    using assms(1) lset_in_step_new by (rule lset_in_step_run)
  then have leaders: "AllowedLeaders hm = take (length ids div 2 + 1) ids"
    by (simp add: AllowedLeaders_active lset_in_step_def active_ids_rebuilt assms(2))
  have "length ids = 0 \<or> length ids < 2 * min (length ids) (length ids div 2 + 1)"
  proof -
    have "n < 2 * (n div 2 + 1)" for n :: nat by presburger
    from this [of "length ids"] show ?thesis by (auto simp: min_def)
  qed
  with leaders show ?thesis by simp
qed

section \<open>Installation\<close>

lemma committed_step:
  assumes "hm_step env hm hm'"
  shows "hc_ID (tm_Mvalid (hm_tcm hm)) < hc_ID (tm_Mvalid (hm_tcm hm')) \<or> tm_Mvalid (hm_tcm hm') = tm_Mvalid (hm_tcm hm)"
  using assms
proof (cases rule: hm_step.cases)
  case (message now msg r)
  then show ?thesis
    by (auto simp: HandleMessage_def split: hydra_msg.splits dest!: same_handled [unfolded same_members_def])
next
  case (trigger view a r)
  then show ?thesis using same_trigger [of env view "hm_atm hm" a r] by (simp add: same_members_def)
next
  case (install cp r)
  then show ?thesis
    by (auto simp: InstallCommittedConfiguration_def InstallCommittedConfig_def update_tcm_def Let_def
        split: option.splits if_splits sum.splits)
qed (auto simp: atm_GCCollectors_def hm_SubmitJoinRequest_def hm_SubmitLeaveRequest_def AddJoinRequest_def
    AddLeaveRequest_def update_tcm_def TrackResponsibility_def Let_def split: if_splits option.splits sum.splits)

text \<open>
  C10: what is committed is final: in every run the identifier of the committed configuration never
  falls, and a configuration is never replaced by another one with the same identifier.
\<close>

theorem committed_config_final:
  assumes "(hm_step env)\<^sup>*\<^sup>* hm hm'"
  shows "hc_ID (tm_Mvalid (hm_tcm hm)) < hc_ID (tm_Mvalid (hm_tcm hm')) \<or> tm_Mvalid (hm_tcm hm') = tm_Mvalid (hm_tcm hm)"
  using assms by (induction rule: rtranclp_induct) (auto dest!: committed_step intro: order.strict_trans)

text \<open>Five validators, of which 2 is inactive; then 9 joins in configuration 4.\<close>

definition hm_validators :: "u64 list \<Rightarrow> validators" where
  "hm_validators is = fmap_of_list (map (\<lambda>i. (i, Some \<lparr> v_ID = i, v_PublicKey = [], v_VRFPublicKey = [], v_Power = 1, v_IsActive = i \<noteq> 2 \<rparr>)) is)"

definition hm_new :: hydra_manager where
  "hm_new = NewHydraManager 7 (hm_validators [1, 2, 3, 4, 5]) True None"

definition hm_config :: configuration where
  "hm_config = \<lparr> cfg_ID = 4, cfg_Validators = hm_validators [1, 2, 3, 4, 5, 9], cfg_QuorumSize = 5 \<rparr>"

definition hm_installed :: hydra_manager where
  "hm_installed = fst (InstallCommittedConfiguration (Some hm_config) hm_new)"

lemma hm_installed_run: "(hm_step env)\<^sup>*\<^sup>* hm_new hm_installed"
proof -
  have "InstallCommittedConfiguration (Some hm_config) hm_new = (hm_installed, snd (InstallCommittedConfiguration (Some hm_config) hm_new))"
    by (simp add: hm_installed_def)
  then have "hm_step env hm_new hm_installed" by (rule hm_step.install)
  then show ?thesis by blast
qed

theorem allowed_leaders_majority_witness: "AllowedLeaders hm_installed = [1, 3, 4] \<and> 5 < 2 * length (AllowedLeaders hm_installed)"
proof -
  have ids: "[1, 3, 4, 5, 9] = active_ids (hc_Validators (tm_Mvalid (hm_tcm hm_installed)))" by code_simp
  from allowed_leaders_majority [OF hm_installed_run [unfolded hm_new_def] ids] show ?thesis by simp
qed

theorem committed_config_final_witness:
  "hc_ID (tm_Mvalid (hm_tcm hm_installed)) = 4 \<and> tm_Mvalid (hm_tcm hm_installed) \<noteq> tm_Mvalid (hm_tcm hm_new) \<and>
   hc_ID (tm_Mvalid (hm_tcm hm_new)) < hc_ID (tm_Mvalid (hm_tcm hm_installed))"
proof -
  have ids: "hc_ID (tm_Mvalid (hm_tcm hm_installed)) = 4" "hc_ID (tm_Mvalid (hm_tcm hm_new)) = 0" by code_simp+
  then have "tm_Mvalid (hm_tcm hm_installed) \<noteq> tm_Mvalid (hm_tcm hm_new)" by auto
  with ids committed_config_final [OF hm_installed_run] show ?thesis by metis
qed

text \<open>
  The dispatch of the network delivers nothing but what was sent: bytes that are neither an
  automatic transition with a positive view nor a time-stamped discovery message change nothing, and
  no byte string changes the L-set or the committed configuration.
\<close>

lemma network_bytes_keep_members:
  assumes "handleHydraMessageBytes k env now data hm = Some (hm', r)"
  shows "hm_lset hm' = hm_lset hm \<and> tm_Mvalid (hm_tcm hm') = tm_Mvalid (hm_tcm hm) \<and>
    (decode_hydra k data \<noteq> None \<or> hm' = hm \<and> r = None)"
  using assms
  by (auto simp: handleHydraMessageBytes_def HandleMessage_def split: if_splits option.splits hydra_msg.splits
      dest!: same_handled [unfolded same_members_def])

end
