(* ===== verification/Node_Install.thy ===== *)
theory Node_Install
  imports Membership Hydra_Manager Executor Engine
begin

text \<open>
  The installation of a committed validator set in all parts of a node (cmd/evolvbft/main.go): the
  callback of the executor that brings the Hydra manager, the membership manager and the consensus
  engines to the new epoch, and the authorization of manual reconfigurations.
\<close>

section \<open>State\<close>

text \<open>
  \<open>nd_decode\<close> is \<open>DecodeVRFPublicKey\<close>; nil engines are skipped by the code and left out; publishing
  the change to the network is left out.
\<close>

record node_env =
  nd_engine :: engine_env
  nd_decode :: "bytes \<Rightarrow> bytes option"

record node =
  nd_member :: membership
  nd_hydra :: "hydra_manager option"
  nd_engines :: "engine list"

text \<open>The configuration that installation aims at is the one of membership.go.\<close>

definition decode_vrf_keys :: "node_env \<Rightarrow> validator_set \<Rightarrow> (u64, bytes) fmap option" where
  "decode_vrf_keys env vs =
     (let keyed = filter (\<lambda>i. case get_validator (vs_Validators vs) i of Some v \<Rightarrow> v_VRFPublicKey v \<noteq> [] | None \<Rightarrow> False)
            (gm_keys (vs_Validators vs));
          key = (\<lambda>i. case get_validator (vs_Validators vs) i of Some v \<Rightarrow> nd_decode env (v_VRFPublicKey v) | None \<Rightarrow> None)
      in if list_all (\<lambda>i. key i \<noteq> None) keyed then Some (fmap_of_list (map (\<lambda>i. (i, the (key i))) keyed)) else None)"

text \<open>The engines read the leaders from the Hydra manager; \<open>None\<close> is a panic of one of them.\<close>

definition engine_view :: "node_env \<Rightarrow> hydra_manager option \<Rightarrow> engine_env" where
  "engine_view env hp = (nd_engine env)\<lparr>ev_hydra := map_option AllowedLeaders hp\<rparr>"

fun update_engines :: "engine_env \<Rightarrow> validator_set \<Rightarrow> (u64, bytes) fmap \<Rightarrow> engine list \<Rightarrow> engine list option" where
  "update_engines env vs keys [] = Some []"
| "update_engines env vs keys (e # es) = (case onEpochChangeWithVRFKeys env (Some vs) keys e of None \<Rightarrow> None
     | Some e' \<Rightarrow> map_option (Cons e') (update_engines env vs keys es))"

definition install_hydra :: "configuration \<Rightarrow> node \<Rightarrow> node \<times> string option" where
  "install_hydra c nd = (case nd_hydra nd of None \<Rightarrow> (nd, None)
     | Some hm \<Rightarrow> (case InstallCommittedConfiguration (Some c) hm of (hm', r) \<Rightarrow> (nd\<lparr>nd_hydra := Some hm'\<rparr>, r)))"

definition install_engines :: "node_env \<Rightarrow> validator_set \<Rightarrow> (u64, bytes) fmap \<Rightarrow> node \<Rightarrow> node option" where
  "install_engines env vs keys nd = map_option (\<lambda>es. nd\<lparr>nd_engines := es\<rparr>)
     (update_engines (engine_view env (nd_hydra nd)) vs keys (nd_engines nd))"

abbreviation node_hash :: "node_env \<Rightarrow> configuration \<Rightarrow> bytes" where
  "node_hash env c \<equiv> config_hash (ev_sha256 (nd_engine env)) (ev_config_json (nd_engine env)) c"

text \<open>Whether the last transition describes the step from the current configuration to the target.\<close>

definition transition_matches :: "node_env \<Rightarrow> epoch_transition option list \<Rightarrow> configuration \<Rightarrow> configuration \<Rightarrow> bool" where
  "transition_matches env ts current target = (if ts = [] then True
     else case last ts of None \<Rightarrow> True
     | Some t \<Rightarrow> (case diffValidatorIDs current target of (added, removed) \<Rightarrow>
         et_OldEpoch t = cfg_ID current \<and> et_NewEpoch t = cfg_ID target \<and> et_QuorumSize t = cfg_QuorumSize target \<and>
         et_ConfigHash t = node_hash env target \<and> et_Added t = added \<and> et_Removed t = removed))"

text \<open>The outer \<open>None\<close> is a panic, the inner \<open>Some\<close> an error.\<close>

definition install_changed ::
  "node_env \<Rightarrow> validator_set \<Rightarrow> epoch_transition option list \<Rightarrow> (u64, bytes) fmap \<Rightarrow> node \<Rightarrow> (node \<times> string option) option" where
  "install_changed env vs ts keys nd = (case install_hydra (target_config vs) nd of
     (nd1, Some r) \<Rightarrow> Some (nd1, Some r)
   | (nd1, None) \<Rightarrow>
       (case InstallValidatorSetFromTransitions (ev_sha256 (nd_engine env)) (ev_config_json (nd_engine env)) (Some vs) ts (nd_member nd1) of
          Inl r \<Rightarrow> Some (nd1, Some r)
        | Inr (mm, changed) \<Rightarrow>
            if \<not> changed then Some (nd1\<lparr>nd_member := mm\<rparr>, None)
            else map_option (\<lambda>nd2. (nd2, None)) (install_engines env vs keys (nd1\<lparr>nd_member := mm\<rparr>))))"

definition installCommittedValidatorSet ::
  "node_env \<Rightarrow> validator_set option \<Rightarrow> epoch_transition option list \<Rightarrow> node \<Rightarrow> (node \<times> string option) option" where
  "installCommittedValidatorSet env vsp ts nd = (case vsp of None \<Rightarrow> Some (nd, Some ''validator set is nil'')
     | Some vs \<Rightarrow> (case decode_vrf_keys env vs of None \<Rightarrow> Some (nd, Some ''decode vrf pubkey'')
       | Some keys \<Rightarrow>
          (let target = target_config vs; current = GetCurrentConfig (nd_member nd)
           in if node_hash env current = node_hash env target
              then (case install_hydra target nd of
                  (nd1, Some r) \<Rightarrow> Some (nd1, Some r)
                | (nd1, None) \<Rightarrow> map_option (\<lambda>nd2. (nd2, None)) (install_engines env vs keys nd1))
              else if cfg_ID target < cfg_ID current then Some (nd, None)
              else if cfg_ID target = cfg_ID current then Some (nd, Some ''conflicting committed validator set'')
              else if \<not> transition_matches env ts current target then Some (nd, Some ''transition metadata does not match'')
              else install_changed env vs ts keys nd)))"

section \<open>Authorization of manual requests\<close>

text \<open>The pending requests, and whether one of them asks for the reconfiguration; no power counts as power 1.\<close>

definition pending_requests :: "(u64, member_request) fmap \<Rightarrow> member_request list" where
  "pending_requests m = List.map_filter (fmlookup m) (gm_keys m)"

definition reconfigAuthorizedByHydraPendingIntent :: "reconfig_data option \<Rightarrow> hydra_manager option \<Rightarrow> bool" where
  "reconfigAuthorizedByHydraPendingIntent dp hp = (case (dp, hp) of
     (Some d, Some hm) \<Rightarrow> (case rd_Type d of
        ReconfigJoin \<Rightarrow> (case find (\<lambda>r. mr_ID r = rd_NodeID d) (pending_requests (tm_pendingJoins (hm_tcm hm))) of
            None \<Rightarrow> False
          | Some r \<Rightarrow> mr_PublicKey r = rd_PublicKey d \<and>
              (if mr_Power r = 0 then 1 else mr_Power r) = (if rd_Power d = 0 then 1 else rd_Power d))
      | ReconfigLeave \<Rightarrow> list_ex (\<lambda>r. mr_ID r = rd_NodeID d) (pending_requests (tm_pendingLeaves (hm_tcm hm)))
      | _ \<Rightarrow> False)
   | _ \<Rightarrow> False)"

lemma set_pending_requests: "r \<in> set (pending_requests m) \<longleftrightarrow> (\<exists>i. fmlookup m i = Some r)"
proof
  assume "\<exists>i. fmlookup m i = Some r"
  then obtain i where i: "fmlookup m i = Some r" ..
  then have "i \<in> set (filter (\<lambda>i. fmlookup m i \<noteq> None) (gm_keys m))"
    by (simp add: set_gm_keys fmdomI)
  then have "(the \<circ> fmlookup m) i \<in> set (pending_requests m)"
    unfolding pending_requests_def List.map_filter_def set_map by (rule imageI)
  with i show "r \<in> set (pending_requests m)" by simp
qed (auto simp: pending_requests_def List.map_filter_def)

lemma find_unique:
  assumes "x \<in> set xs" and "P x" and "\<And>y. y \<in> set xs \<Longrightarrow> P y \<Longrightarrow> y = x"
  shows "find P xs = Some x"
proof (cases "find P xs")
  case None
  with assms(1,2) show ?thesis by (simp add: find_None_iff)
next
  case (Some y)
  then have "y \<in> set xs" "P y" by (auto simp: find_Some_iff)
  with Some assms(3) show ?thesis by blast
qed

section \<open>The members after a reconfiguration\<close>

abbreviation no_nil :: "validators \<Rightarrow> bool" where
  "no_nil m \<equiv> fmpred (\<lambda>_ v. v \<noteq> None) m"

lemma non_nil_same: "no_nil m \<Longrightarrow> non_nil m = m"
  by (rule fmap_ext) (auto simp: non_nil_def get_validator_def fmpred_iff split: option.splits)

lemma members_after_no_nil:
  assumes "members_after m d = Some (m', added, removed)" and "no_nil m"
  shows "no_nil m'"
proof -
  note dom = members_after_dom [OF assms(1)]
  have "v \<noteq> None" if "fmlookup m' i = Some v" for i v
  proof (cases "i |\<in>| fmdom m")
    case True
    with that dom(8) have "fmlookup m i = Some v" by (metis fmdomI)
    with assms(2) show ?thesis by (auto simp: fmpred_iff)
  next
    case False
    with that dom(1) have "i \<in> set added" by (auto dest: fmdomI simp: fset_of_list_elem)
    then have "rd_Type d = ReconfigJoin" using dom(7) by auto
    with assms(1) that False show ?thesis
      by (auto simp: members_after_def dest: fmdomI split: if_splits)
  qed
  then show ?thesis by (simp add: fmpred_iff)
qed

lemma members_after_sorted:
  assumes "members_after m d = Some (m', added, removed)"
  shows "sorted added" "sorted removed"
  using assms by (auto simp: members_after_def Let_def split: ReconfigType.splits if_splits prod.splits)

lemma new_quorum_positive: "vs_QuorumSize (NewValidatorSet e m) \<noteq> 0"
proof -
  have "unat (total_power m * 2 div 3) < 2 ^ 63"
    using unsigned_less [of "total_power m * 2", where 'a = nat] by (simp add: unat_div)
  then have "unat (total_power m * 2 div 3 + 1) \<noteq> 0"
    by (subst unat_add_lem [THEN iffD1]) simp_all
  then show ?thesis by (auto simp: NewValidatorSet_def)
qed

lemma target_of_new:
  "no_nil m \<Longrightarrow> target_config (NewValidatorSet e m) = \<lparr> cfg_ID = e, cfg_Validators = m, cfg_QuorumSize = vs_QuorumSize (NewValidatorSet e m) \<rparr>"
  using new_quorum_positive [of e m] by (simp add: target_config_def non_nil_same NewValidatorSet_def)

lemma clone_target: "cloneConfig (target_config vs) = target_config vs"
proof -
  have "non_nil (non_nil m) = non_nil m" for m
    by (rule fmap_ext) (simp add: non_nil_def get_validator_def)
  then show ?thesis by (simp add: cloneConfig_def target_config_def)
qed

lemma diff_after:
  assumes "members_after m d = Some (m', added, removed)"
  shows "diffValidatorIDs \<lparr> cfg_ID = i, cfg_Validators = m, cfg_QuorumSize = q \<rparr> \<lparr> cfg_ID = i', cfg_Validators = m', cfg_QuorumSize = q' \<rparr> =
    (added, removed)"
proof -
  note dom = members_after_dom [OF assms]
  have "filter (\<lambda>i. i |\<notin>| fmdom m) (gm_keys m') = added"
    using dom by (intro sorted_distinct_set_unique)
      (auto simp: sorted_gm_keys distinct_gm_keys set_gm_keys members_after_sorted [OF assms] fset_of_list.rep_eq
        less_eq_fset.rep_eq intro: sorted_wrt_filter)
  moreover have "filter (\<lambda>i. i |\<notin>| fmdom m') (gm_keys m) = removed"
    using dom by (intro sorted_distinct_set_unique)
      (auto simp: sorted_gm_keys distinct_gm_keys set_gm_keys members_after_sorted [OF assms] fset_of_list.rep_eq
        less_eq_fset.rep_eq intro: sorted_wrt_filter)
  ultimately show ?thesis by (simp add: diffValidatorIDs_def)
qed

section \<open>One reconfiguration reaches every part of the node\<close>

text \<open>The parts of a node hold the given validator set; the Hydra manager may be behind.\<close>

definition node_at :: "validator_set \<Rightarrow> node \<Rightarrow> bool" where
  "node_at vs nd \<longleftrightarrow> ms_current (nd_member nd) = target_config vs \<and>
     (case nd_hydra nd of None \<Rightarrow> True | Some hm \<Rightarrow> hc_ID (tm_Mvalid (hm_tcm hm)) \<le> vs_Epoch vs)"

text \<open>Every part of a node holds exactly the given validator set.\<close>

definition installed_at :: "validator_set \<Rightarrow> node \<Rightarrow> bool" where
  "installed_at vs nd \<longleftrightarrow> ms_current (nd_member nd) = target_config vs \<and>
     (case nd_hydra nd of None \<Rightarrow> True | Some hm \<Rightarrow> tm_Mvalid (hm_tcm hm) = configFromTypes (target_config vs) \<and>
        lm_LSet (hm_lset hm) = rebuildLSet (vs_Validators vs)) \<and>
     list_all (\<lambda>e. e_valSet e = vs) (nd_engines nd)"

lemma update_engines_valSet: "update_engines env vs keys es = Some es' \<Longrightarrow> list_all (\<lambda>e. e_valSet e = vs) es' \<and> length es' = length es"
  by (induction es arbitrary: es')
    (auto simp: onEpochChangeWithVRFKeys_def dest!: tryPropose_valSet split: option.splits)

lemma install_hydra_ahead:
  assumes "case nd_hydra nd of None \<Rightarrow> True | Some hm \<Rightarrow> hc_ID (tm_Mvalid (hm_tcm hm)) < cfg_ID c"
  shows "\<exists>nd1. install_hydra c nd = (nd1, None) \<and> nd_member nd1 = nd_member nd \<and> nd_engines nd1 = nd_engines nd \<and>
    (case nd_hydra nd1 of None \<Rightarrow> nd_hydra nd = None | Some hm \<Rightarrow> tm_Mvalid (hm_tcm hm) = configFromTypes c \<and>
        lm_LSet (hm_lset hm) = rebuildLSet (hc_Validators (configFromTypes c)))"
  using assms
  by (cases "nd_hydra nd") (auto simp: install_hydra_def InstallCommittedConfiguration_def InstallCommittedConfig_def
      InstallConfiguration_def update_tcm_def configFromTypes_def Let_def)

text \<open>
  C11: a single reconfiguration reaches every part of the node: when the executor applies one to the
  set the node runs with and its VRF keys decode, installation reports no error, and unless an engine
  panics the membership manager, the Hydra manager with its L-set and all engines hold the new set.
\<close>

theorem install_in_step:
  assumes "applyReconfig xenv vs d h r = Some (vs', Some tr)" and "vs_Epoch vs < u64_max" and "vs = NewValidatorSet (vs_Epoch vs) (vs_Validators vs)"
    and "node_at vs nd" and "xe_sha256 xenv = ev_sha256 (nd_engine env)" and "xe_config_json xenv = ev_config_json (nd_engine env)"
    and "node_hash env (target_config vs) \<noteq> node_hash env (target_config vs')"
    and "decode_vrf_keys env vs' = Some keys"
  shows "case installCommittedValidatorSet env (Some vs') [Some tr] nd of
      None \<Rightarrow> \<exists>view. update_engines view vs' keys (nd_engines nd) = None
    | Some (nd', e) \<Rightarrow> e = None \<and> installed_at vs' nd'"
proof -
  let ?c = "target_config vs" and ?c' = "target_config vs'"
  from assms(1) obtain m added removed where
    m: "members_after (vs_Validators vs) d = Some (m, added, removed)" and
    vs': "vs' = NewValidatorSet (next_epoch vs d) m" and
    tr: "tr = \<lparr> et_OldEpoch = vs_Epoch vs, et_NewEpoch = vs_Epoch vs', et_ActivationHeight = h, et_ActivationRank = r,
      et_Added = added, et_Removed = removed, et_QuorumSize = vs_QuorumSize vs',
      et_ConfigHash = ValidatorSet_Hash (xe_sha256 xenv) (xe_config_json xenv) (gm_keys m) vs' \<rparr>"
    by (cases rule: applyReconfig_cases) auto
  have nn: "no_nil (vs_Validators vs)"
    using assms(1) by (auto simp: applyReconfig_def vs_Copy_def split: option.splits if_splits)
  then have nn': "no_nil m" using members_after_no_nil [OF m] by blast
  have c: "?c = \<lparr> cfg_ID = vs_Epoch vs, cfg_Validators = vs_Validators vs, cfg_QuorumSize = vs_QuorumSize vs \<rparr>"
    using target_of_new [OF nn, of "vs_Epoch vs"] assms(3) by metis
  have c': "?c' = \<lparr> cfg_ID = vs_Epoch vs', cfg_Validators = m, cfg_QuorumSize = vs_QuorumSize vs' \<rparr>"
    using target_of_new [OF nn', of "next_epoch vs d"] by (simp add: vs')
  have v': "vs_Validators vs' = m" by (simp add: vs' NewValidatorSet_def)
  have later: "vs_Epoch vs < vs_Epoch vs'"
    using next_epoch_above [OF assms(2)] by (simp add: vs')
  then have order: "\<not> vs_Epoch vs' < vs_Epoch vs" "vs_Epoch vs' \<noteq> vs_Epoch vs" by auto
  have diff: "diffValidatorIDs ?c ?c' = (added, removed)"
    unfolding c c' by (rule diff_after [OF m])
  have hash: "node_hash env ?c' = et_ConfigHash tr"
    by (simp add: tr ValidatorSet_Hash_def assms(5,6) c' v')
  have current: "ms_current (nd_member nd) = ?c"
    using assms(4) by (simp add: node_at_def)
  then have get: "GetCurrentConfig (nd_member nd) = ?c" "cloneConfig (ms_current (nd_member nd)) = ?c"
    by (simp_all add: GetCurrentConfig_def clone_target)
  have ids: "cfg_ID ?c = vs_Epoch vs" "cfg_ID ?c' = vs_Epoch vs'" "cfg_QuorumSize ?c' = vs_QuorumSize vs'" "cfg_Validators ?c' = m"
    by (simp_all add: c c')
  have matches: "transition_matches env [Some tr] ?c ?c'"
    by (simp add: transition_matches_def diff hash [unfolded ids] ids) (simp add: tr)
  have "case nd_hydra nd of None \<Rightarrow> True | Some hm \<Rightarrow> hc_ID (tm_Mvalid (hm_tcm hm)) < cfg_ID ?c'"
    using assms(4) later ids by (auto simp: node_at_def split: option.splits)
  from install_hydra_ahead [OF this] obtain nd1 where
    nd1: "install_hydra ?c' nd = (nd1, None)" "nd_member nd1 = nd_member nd"
      "case nd_hydra nd1 of None \<Rightarrow> nd_hydra nd = None | Some hm \<Rightarrow> tm_Mvalid (hm_tcm hm) = configFromTypes ?c' \<and>
        lm_LSet (hm_lset hm) = rebuildLSet (hc_Validators (configFromTypes ?c'))" "nd_engines nd1 = nd_engines nd"
    by blast
  let ?sha = "ev_sha256 (nd_engine env)" and ?json = "ev_config_json (nd_engine env)"
  have fields: "et_OldEpoch tr = vs_Epoch vs" "et_NewEpoch tr = vs_Epoch vs'" "et_QuorumSize tr = vs_QuorumSize vs'"
      "et_Added tr = added" "et_Removed tr = removed"
    by (simp_all add: tr)
  have "\<exists>mm. InstallValidatorSetFromTransitions ?sha ?json (Some vs') [Some tr] (nd_member nd1) = Inr (mm, True) \<and> ms_current mm = ?c'"
    using later unfolding InstallValidatorSetFromTransitions_def nd1(2) Let_def
    by (simp add: current clone_target ids diff hash [unfolded ids] fields latestTransitionEvent_def validateTransitionEvent_def order)
  then obtain mm where mm: "InstallValidatorSetFromTransitions ?sha ?json (Some vs') [Some tr] (nd_member nd1) = Inr (mm, True)"
      "ms_current mm = ?c'" by blast
  have run: "installCommittedValidatorSet env (Some vs') [Some tr] nd =
      map_option (\<lambda>nd2. (nd2, None)) (install_engines env vs' keys (nd1\<lparr>nd_member := mm\<rparr>))"
    using later assms(7,8) matches unfolding installCommittedValidatorSet_def install_changed_def get(1) Let_def
    by (simp add: ids nd1(1) mm(1) order)
  show ?thesis
  proof (cases "update_engines (engine_view env (nd_hydra nd1)) vs' keys (nd_engines nd)")
    case None
    then show ?thesis by (auto simp: run install_engines_def nd1(4))
  next
    case (Some es)
    then have "installed_at vs' (nd1\<lparr>nd_member := mm, nd_engines := es\<rparr>)"
      using nd1(3) mm(2) update_engines_valSet [OF Some]
      by (auto simp: installed_at_def configFromTypes_def ids non_nil_same [OF nn'] v' split: option.splits)
    with Some show ?thesis by (simp add: run install_engines_def nd1(4))
  qed
qed

section \<open>Two reconfigurations in one block\<close>

lemma chain_last:
  "chain_epochs e ts e' \<Longrightarrow> ts \<noteq> [] \<Longrightarrow> list_all (\<lambda>t. et_OldEpoch t < u64_max) ts \<Longrightarrow>
   e \<le> et_OldEpoch (last ts) \<and> e < e' \<and> (2 \<le> length ts \<longrightarrow> e < et_OldEpoch (last ts))"
proof (induction ts arbitrary: e)
  case (Cons t ts)
  then have t: "et_OldEpoch t = e" "e < et_NewEpoch t" "chain_epochs (et_NewEpoch t) ts e'"
    by auto
  show ?case
  proof (cases "ts = []")
    case True
    with t show ?thesis by simp
  next
    case False
    then have "et_NewEpoch t \<le> et_OldEpoch (last ts) \<and> et_NewEpoch t < e'"
      using Cons.IH [OF t(3)] Cons.prems(3) by simp
    with t(2) False show ?thesis by (auto intro: order.strict_trans2 order.strict_trans1 less_imp_le)
  qed
qed simp

lemma install_rejects_old_epoch:
  assumes "ms_current (nd_member nd) = target_config vs" and "node_hash env (target_config vs) \<noteq> node_hash env (target_config vs')"
    and "vs_Epoch vs < vs_Epoch vs'" and "ts \<noteq> []" and "last ts = Some t" and "et_OldEpoch t \<noteq> vs_Epoch vs"
  shows "\<exists>r. installCommittedValidatorSet env (Some vs') ts nd = Some (nd, Some r)"
proof (cases "decode_vrf_keys env vs'")
  case (Some keys)
  have current: "GetCurrentConfig (nd_member nd) = target_config vs"
    using assms(1) clone_target by (simp add: GetCurrentConfig_def)
  have "\<not> transition_matches env ts (target_config vs) (target_config vs')"
    using assms(4-6) by (simp add: transition_matches_def diffValidatorIDs_def target_config_def)
  moreover have "cfg_ID (target_config vs) < cfg_ID (target_config vs')"
    using assms(3) by (simp add: target_config_def)
  ultimately show ?thesis
    using assms(2) Some unfolding installCommittedValidatorSet_def current Let_def by auto
qed (simp add: installCommittedValidatorSet_def)

definition node_callback :: "node_env \<Rightarrow> node \<Rightarrow> validator_set \<Rightarrow> epoch_transition list \<Rightarrow> bool" where
  "node_callback env nd vs ts = (case installCommittedValidatorSet env (Some vs) (map Some ts) nd of Some (_, None) \<Rightarrow> True | _ \<Rightarrow> False)"

text \<open>
  C37: a block with two effective reconfigurations halts the node.  Installation compares only the last
  transition with the whole change, so it rejects the new set; the commit of the block fails and leaves
  executor and node as they were, and every retry of the same block fails in the same way.
\<close>

theorem two_reconfigurations_halt:
  assumes "ex_valSet e = Some vs" and "vs_Copy vs \<noteq> None" and "b_Hash b \<noteq> []" and "b_Hash b |\<in>| ex_executed e" and "b_Hash b |\<notin>| ex_applied e"
    and "applyReconfigs xenv rank (filter (from_block b) (clonePendingReconfigs (ex_pending e))) vs = Some (cand, ts)"
    and "2 \<le> length ts" and "list_all (\<lambda>t. et_OldEpoch t < u64_max) ts"
    and "ex_onEpochChange e = Some (node_callback env nd)" and "ms_current (nd_member nd) = target_config vs"
    and "node_hash env (target_config vs) \<noteq> node_hash env (target_config cand)"
  shows "(\<exists>r. installCommittedValidatorSet env (Some cand) (map Some ts) nd = Some (nd, Some r)) \<and>
    ApplyOrderedBlock xenv e (Some b) rank = Failed e"
proof
  have ts: "ts \<noteq> []" using assms(7) by auto
  have "chain_epochs (vs_Epoch vs) ts (vs_Epoch cand)"
    using applyReconfigs_chain [OF assms(6)] by blast
  from chain_last [OF this ts assms(8)] assms(7) have "vs_Epoch vs < vs_Epoch cand" "et_OldEpoch (last ts) \<noteq> vs_Epoch vs"
    by auto
  with install_rejects_old_epoch [OF assms(10,11), of "map Some ts" "last ts"] ts
  show err: "\<exists>r. installCommittedValidatorSet env (Some cand) (map Some ts) nd = Some (nd, Some r)"
    by (simp add: last_map)
  then have "\<not> node_callback env nd cand ts"
    by (auto simp: node_callback_def)
  moreover have "filter (from_block b) (clonePendingReconfigs (ex_pending e)) \<noteq> []"
  proof
    assume "filter (from_block b) (clonePendingReconfigs (ex_pending e)) = []"
    with assms(6) ts show False by simp
  qed
  ultimately show "ApplyOrderedBlock xenv e (Some b) rank = Failed e"
    using assms(1-6,9) ts by (simp add: ApplyOrderedBlock_def commitReconfigsLocked_def commit_matching_def Let_def)
qed

section \<open>Who authorizes a request\<close>

text \<open>
  Whether a join is executed depends on requests that only the local node knows: with the same
  validator set, two executors decide differently about the same transaction when the request was
  submitted at one of the nodes only.
\<close>

theorem join_execution_is_local:
  assumes "tx_Type tx = TxTypeReconfig" and "xe_parse_reconfig xenv (tx_Payload tx) = Some d" and "rd_Type d = ReconfigJoin"
    and "rd_VerifySignature xenv d = Some True" and "ex_valSet e = Some vs" and "rd_Epoch d = vs_Epoch vs"
    and "rd_NodeID d |\<notin>| fmdom (tm_pendingJoins (hm_tcm hm))" and "hm_credential hm = Some NoopCredentialVerifier"
    and "\<forall>i r. fmlookup (tm_pendingJoins (hm_tcm hm)) i = Some r \<longrightarrow> mr_ID r = i"
    and "hm' = fst (hm_SubmitJoinRequest (rd_NodeID d) (rd_PublicKey d) (rd_Power d) hm)"
  shows "executeTx xenv (e\<lparr>ex_authorizer := Some (\<lambda>d. reconfigAuthorizedByHydraPendingIntent (Some d) (Some hm))\<rparr>) tx b = Some None \<and>
    executeTx xenv (e\<lparr>ex_authorizer := Some (\<lambda>d. reconfigAuthorizedByHydraPendingIntent (Some d) (Some hm'))\<rparr>) tx b = Some (Some d)"
proof -
  let ?i = "rd_NodeID d" and ?m = "tm_pendingJoins (hm_tcm hm)"
  let ?r = "\<lparr> mr_Type = RequestJoin, mr_ID = ?i, mr_PublicKey = rd_PublicKey d, mr_Power = rd_Power d, mr_Signature = [], mr_View = 0 \<rparr>"
  have "r \<in> set (pending_requests ?m) \<Longrightarrow> mr_ID r \<noteq> ?i" for r
    using assms(7,9) by (auto simp: set_pending_requests dest: fmdomI)
  then have "find (\<lambda>r. mr_ID r = ?i) (pending_requests ?m) = None"
    by (auto simp: find_None_iff)
  then have no: "\<not> reconfigAuthorizedByHydraPendingIntent (Some d) (Some hm)"
    using assms(3) by (simp add: reconfigAuthorizedByHydraPendingIntent_def)
  have m': "tm_pendingJoins (hm_tcm hm') = fmupd ?i ?r ?m"
    using assms(7,8,10) by (simp add: hm_SubmitJoinRequest_def AddJoinRequest_def update_tcm_def NoopCredentialVerifier_def)
  have "find (\<lambda>r. mr_ID r = ?i) (pending_requests (fmupd ?i ?r ?m)) = Some ?r"
  proof -
    have "?r \<in> set (pending_requests (fmupd ?i ?r ?m))" by (auto simp: set_pending_requests)
    moreover have "r = ?r" if "r \<in> set (pending_requests (fmupd ?i ?r ?m))" "mr_ID r = ?i" for r
      using that assms(9) by (auto simp: set_pending_requests split: if_splits)
    ultimately show ?thesis by (intro find_unique) auto
  qed
  then have yes: "reconfigAuthorizedByHydraPendingIntent (Some d) (Some hm')"
    using assms(3) by (simp add: reconfigAuthorizedByHydraPendingIntent_def m')
  have sig: "verifyManualReconfigSignature xenv (e\<lparr>ex_authorizer := au\<rparr>) d = Some True" for au
    using assms(3,4) by (simp add: verifyManualReconfigSignature_def)
  show ?thesis
    using no yes assms(1-3,5,6) by (simp add: executeTx_def sig)
qed

section \<open>The engines elect allowed leaders\<close>

text \<open>
  No view is lost to a leader that nobody accepts: once an engine has refreshed its leaders from
  the Hydra manager, the leader it expects in any view is one that the manager allows, for the round
  robin and for the beacon.
\<close>

theorem expected_leader_allowed:
  assumes "ev_hydra env = Some (AllowedLeaders hm)" and "AllowedLeaders hm \<noteq> []" and "length (AllowedLeaders hm) < 2 ^ 64"
  shows "IsAllowedLeader env (leader_of env (refreshLeaderSelectorFor env vs e) view)"
proof -
  let ?ids = "AllowedLeaders hm"
  have allowed: "allowedLeaderIDs env vs = ?ids"
    using assms(1,2) by (simp add: allowedLeaderIDs_def)
  have index: "?ids ! leader_index pm v \<in> set ?ids" if "pm_validators pm = ?ids" for pm v
    using leader_index_less [of pm v] assms(2,3) that by simp
  have "leader_of env (refreshLeaderSelectorFor env vs e) view \<in> set ?ids"
    using assms(2) SelectLeader_member [OF assms(2,3)] index
    by (simp add: leader_of_def refreshLeaderSelectorFor_def current_pacemaker_def allowed GetLeader_def SetLeaderSelector_def
        UpdateValidators_def Let_def)
  then show ?thesis using assms(1) by (simp add: IsAllowedLeader_def)
qed

section \<open>A concrete node\<close>

definition ni_engine_env :: engine_env where
  "ni_engine_env = \<lparr> ev_verify = (\<lambda>pk m s. pk = s), ev_sign = (\<lambda>priv m. priv),
     ev_sha256 = id, ev_config_json = (\<lambda>n q items. [ucast n]), ev_message_json = (\<lambda>m. []),
     ev_tx_json = (\<lambda>t. []), ev_bls = (\<lambda>s. None), ev_vrf_prove = (\<lambda>k m. None),
     ev_vrf_verify = (\<lambda>k m p. None), ev_now = 0, ev_get_vertex = (\<lambda>h. None),
     ev_publish_ok = (\<lambda>m. True), ev_unicast_ok = (\<lambda>i m. True), ev_hydra = Some (AllowedLeaders hm_installed) \<rparr>"

definition ni_env :: node_env where
  "ni_env = \<lparr> nd_engine = ni_engine_env, nd_decode = Some \<rparr>"

definition ni_set :: validator_set where
  "ni_set = plain_set [1, 2, 3, 4, 5, 6, 7, 8]"

definition ni_exec :: exec_env where
  "ni_exec = plain_env\<lparr>xe_config_json := ev_config_json ni_engine_env\<rparr>"

definition ni_node :: node where
  "ni_node = \<lparr> nd_member = (NewMembershipManager fmempty)\<lparr>ms_current := target_config ni_set\<rparr>, nd_hydra = Some hm_new, nd_engines = [] \<rparr>"

definition ni_pending :: "u64 \<Rightarrow> pending_reconfig" where
  "ni_pending i = \<lparr> pr_blockHeight = 7, pr_blockHash = [1, 2, 3, 4], pr_data = leave_of i \<rparr>"

definition ni_executor :: executor where
  "ni_executor = (NewExecutor (Some ni_set))\<lparr> ex_pending := [ni_pending 1, ni_pending 2],
     ex_executed := {|[1, 2, 3, 4]|}, ex_onEpochChange := Some (node_callback ni_env ni_node) \<rparr>"

theorem expected_leader_allowed_witness: "IsAllowedLeader ni_engine_env (leader_of ni_engine_env (refreshLeaderSelectorFor ni_engine_env vs e) view)"
proof (rule expected_leader_allowed)
  have "AllowedLeaders hm_installed = [1, 3, 4]" by code_simp
  then show "AllowedLeaders hm_installed \<noteq> []" "length (AllowedLeaders hm_installed) < 2 ^ 64" by simp_all
qed (simp add: ni_engine_env_def)

theorem two_reconfigurations_halt_witness:
  "ApplyOrderedBlock ni_exec ni_executor (Some (join_block [])) 9 = Failed ni_executor"
proof -
  let ?ps = "filter (from_block (join_block [])) (clonePendingReconfigs (ex_pending ni_executor))"
  have "case applyReconfigs ni_exec 9 ?ps ni_set of None \<Rightarrow> False
      | Some (cand, ts) \<Rightarrow> length ts = 2 \<and> list_all (\<lambda>t. et_OldEpoch t < u64_max) ts \<and>
          node_hash ni_env (target_config ni_set) \<noteq> node_hash ni_env (target_config cand)"
    by code_simp
  then obtain cand ts where run: "applyReconfigs ni_exec 9 ?ps ni_set = Some (cand, ts)"
      and ts: "2 \<le> length ts" "list_all (\<lambda>t. et_OldEpoch t < u64_max) ts"
        "node_hash ni_env (target_config ni_set) \<noteq> node_hash ni_env (target_config cand)"
    by (auto split: option.splits)
  have copy: "vs_Copy ni_set \<noteq> None" by code_simp
  have e: "ex_valSet ni_executor = Some ni_set" "ex_onEpochChange ni_executor = Some (node_callback ni_env ni_node)"
      "b_Hash (join_block []) \<noteq> []" "b_Hash (join_block []) |\<in>| ex_executed ni_executor"
      "b_Hash (join_block []) |\<notin>| ex_applied ni_executor" "ms_current (nd_member ni_node) = target_config ni_set"
    by (simp_all add: ni_executor_def NewExecutor_def join_block_def ni_node_def)
  from two_reconfigurations_halt [OF e(1) copy e(3-5) run ts(1,2) e(2,6) ts(3)] show ?thesis by blast
qed

theorem install_in_step_witness:
  "case applyReconfig ni_exec ni_set (leave_of 2) 7 7 of
     Some (vs', Some tr) \<Rightarrow> (case installCommittedValidatorSet ni_env (Some vs') [Some tr] ni_node of
        Some (nd', None) \<Rightarrow> installed_at vs' nd' | _ \<Rightarrow> False)
   | _ \<Rightarrow> False"
proof -
  have "case applyReconfig ni_exec ni_set (leave_of 2) 7 7 of None \<Rightarrow> False | Some (vs', None) \<Rightarrow> False
     | Some (vs', Some tr) \<Rightarrow> node_hash ni_env (target_config ni_set) \<noteq> node_hash ni_env (target_config vs') \<and>
         decode_vrf_keys ni_env vs' \<noteq> None"
    by code_simp
  then obtain vs' tr keys where r: "applyReconfig ni_exec ni_set (leave_of 2) 7 7 = Some (vs', Some tr)"
      and h: "node_hash ni_env (target_config ni_set) \<noteq> node_hash ni_env (target_config vs')" "decode_vrf_keys ni_env vs' = Some keys"
    by (auto split: option.splits prod.splits)
  have vs: "vs_Epoch ni_set < u64_max" "ni_set = NewValidatorSet (vs_Epoch ni_set) (vs_Validators ni_set)"
    by (simp_all add: ni_set_def plain_set_def word_gt_0 NewValidatorSet_def)
  have at: "node_at ni_set ni_node" by code_simp
  have same: "xe_sha256 ni_exec = ev_sha256 (nd_engine ni_env)" "xe_config_json ni_exec = ev_config_json (nd_engine ni_env)"
    by (simp_all add: ni_exec_def plain_env_def ni_env_def ni_engine_env_def)
  have "nd_engines ni_node = []" by (simp add: ni_node_def)
  with install_in_step [OF r vs at same h] show ?thesis
    by (simp add: r split: option.splits prod.splits)
qed

definition ni_join :: reconfig_data where
  "ni_join = \<lparr> rd_Type = ReconfigJoin, rd_NodeID = 9, rd_PublicKey = replicate 32 9, rd_VRFPublicKey = [], rd_Power = 1,
     rd_Epoch = 0, rd_TargetEpoch = 0, rd_Signature = replicate 32 9, rd_AutoLeaveProof = None \<rparr>"

theorem join_execution_is_local_witness:
  "let auth = (\<lambda>hm d. reconfigAuthorizedByHydraPendingIntent (Some d) (Some hm));
       xenv = plain_env\<lparr>xe_parse_reconfig := (\<lambda>p. Some ni_join)\<rparr>; tx = \<lparr> tx_Type = TxTypeReconfig, tx_Payload = [] \<rparr>;
       hm' = fst (hm_SubmitJoinRequest 9 (replicate 32 9) 1 hm_new)
   in executeTx xenv (open_executor\<lparr>ex_authorizer := Some (auth hm_new)\<rparr>) tx b = Some None \<and>
      executeTx xenv (open_executor\<lparr>ex_authorizer := Some (auth hm')\<rparr>) tx b = Some (Some ni_join)"
  unfolding Let_def
proof (rule join_execution_is_local)
  show "rd_VerifySignature (plain_env\<lparr>xe_parse_reconfig := \<lambda>p. Some ni_join\<rparr>) ni_join = Some True" by code_simp
  show "ex_valSet open_executor = Some (plain_set [1, 2, 3, 4, 5])" by (simp add: open_executor_def NewExecutor_def)
  show "rd_Epoch ni_join = vs_Epoch (plain_set [1, 2, 3, 4, 5])" by (simp add: ni_join_def plain_set_def)
qed (simp_all add: ni_join_def hm_new_def NewHydraManager_def NewAutoTransitionManager_def NewTemporaryConfigurationManager_def
    atm_SetNodeID_def Let_def)

end
