(* ===== verification/Mempool.thy ===== *)
theory Mempool
  imports Storage
begin

text \<open>
  The mempool (consensus/mempool/mempool.go): a bounded first-in first-out queue of transactions with
  a table of those seen recently, and the chain of vertices made from it.  Sizes and counts are Go
  \<open>int\<close>s far below their width and modelled as integers.  The channel of proposals and the topic are
  the lists \<open>mp_proposed\<close> and \<open>mp_published\<close>; the clock is an argument.  A transaction is identified by
  the digest of its bytes (the code uses its hexadecimal form).
\<close>

section \<open>Options\<close>

record mempool_options =
  mo_MaxPoolBytes :: int
  mo_MaxTxSize :: int
  mo_MaxBatchTxs :: int
  mo_MaxBatchBytes :: int
  mo_MaxQueueLen :: int
  mo_NetworkBuffer :: int
  mo_ProposalInterval :: int
  mo_ProposalChanBuffer :: int
  mo_TxTTL :: int
  mo_Topic :: string

definition DefaultOptions :: mempool_options where
  "DefaultOptions = \<lparr> mo_MaxPoolBytes = 16 * 1024 * 1024, mo_MaxTxSize = 256 * 1024, mo_MaxBatchTxs = 2048,
     mo_MaxBatchBytes = 4 * 1024 * 1024, mo_MaxQueueLen = 16384, mo_NetworkBuffer = 4096,
     mo_ProposalInterval = 50 * 1000000, mo_ProposalChanBuffer = 64, mo_TxTTL = 30 * 1000000000, mo_Topic = ''evolvbft-mempool'' \<rparr>"

definition or_default :: "int \<Rightarrow> int \<Rightarrow> int" where
  "or_default x d = (if x \<le> 0 then d else x)"

definition normalizeOptions :: "mempool_options \<Rightarrow> mempool_options" where
  "normalizeOptions o1 = \<lparr> mo_MaxPoolBytes = or_default (mo_MaxPoolBytes o1) (mo_MaxPoolBytes DefaultOptions),
     mo_MaxTxSize = or_default (mo_MaxTxSize o1) (mo_MaxTxSize DefaultOptions),
     mo_MaxBatchTxs = or_default (mo_MaxBatchTxs o1) (mo_MaxBatchTxs DefaultOptions),
     mo_MaxBatchBytes = or_default (mo_MaxBatchBytes o1) (mo_MaxBatchBytes DefaultOptions),
     mo_MaxQueueLen = or_default (mo_MaxQueueLen o1) (mo_MaxQueueLen DefaultOptions),
     mo_NetworkBuffer = or_default (mo_NetworkBuffer o1) (mo_NetworkBuffer DefaultOptions),
     mo_ProposalInterval = or_default (mo_ProposalInterval o1) (mo_ProposalInterval DefaultOptions),
     mo_ProposalChanBuffer = or_default (mo_ProposalChanBuffer o1) (mo_ProposalChanBuffer DefaultOptions),
     mo_TxTTL = or_default (mo_TxTTL o1) (mo_TxTTL DefaultOptions),
     mo_Topic = (if mo_Topic o1 = [] then mo_Topic DefaultOptions else mo_Topic o1) \<rparr>"

section \<open>State\<close>

record mempool_tx =
  mt_tx :: transaction
  mt_txID :: bytes
  mt_received :: int
  mt_size :: int
  mt_raw :: bytes

record mempool =
  mp_nodeID :: u64
  mp_privateKey :: bytes
  mp_hasNetwork :: bool
  mp_epoch :: "u64 option"
  mp_vertices :: "(bytes, vertex) fmap"
  mp_certificates :: "(bytes, vertex_certificate) fmap"
  mp_currentRound :: u64
  mp_roundCerts :: "(u64, vertex_certificate list) fmap"
  mp_queue :: "mempool_tx list"
  mp_seen :: "(bytes, int) fmap"
  mp_poolBytes :: int
  mp_opts :: mempool_options
  mp_isRunning :: bool
  mp_proposed :: "vertex_certificate list list"
  mp_published :: "bytes list"

text \<open>\<open>mp_epoch\<close> is the epoch of the validator set, if there is one; the mempool reads nothing else of it.\<close>

definition NewMempoolWithOptions :: "u64 \<Rightarrow> bytes \<Rightarrow> u64 option \<Rightarrow> bool \<Rightarrow> mempool_options \<Rightarrow> mempool" where
  "NewMempoolWithOptions i key epoch net options = \<lparr> mp_nodeID = i, mp_privateKey = key, mp_hasNetwork = net, mp_epoch = epoch,
     mp_vertices = fmempty, mp_certificates = fmempty, mp_currentRound = 1, mp_roundCerts = fmempty, mp_queue = [],
     mp_seen = fmempty, mp_poolBytes = 0, mp_opts = normalizeOptions options, mp_isRunning = False, mp_proposed = [], mp_published = [] \<rparr>"

definition NewMempool :: "u64 \<Rightarrow> bytes \<Rightarrow> u64 option \<Rightarrow> bool \<Rightarrow> mempool" where
  "NewMempool i key epoch net = NewMempoolWithOptions i key epoch net DefaultOptions"

definition mp_Start :: "mempool \<Rightarrow> mempool" where
  "mp_Start mp = mp\<lparr>mp_isRunning := True\<rparr>"

text \<open>The digest, the JSON encoder of a vertex with its prefix, and the signature.\<close>

record mempool_env =
  me_sha256 :: "bytes \<Rightarrow> bytes"
  me_vertex_bytes :: "vertex \<Rightarrow> bytes"
  me_sign :: "bytes \<Rightarrow> bytes \<Rightarrow> bytes"
  me_parse :: "bytes \<Rightarrow> transaction option"
  me_json :: "transaction \<Rightarrow> bytes"

section \<open>The queue\<close>

definition pruneExpired :: "int \<Rightarrow> mempool \<Rightarrow> mempool" where
  "pruneExpired now mp = (let ttl = mo_TxTTL (mp_opts mp); old = (\<lambda>x. now - mt_received x > ttl)
     in mp\<lparr> mp_seen := fmfilter (\<lambda>i. case fmlookup (mp_seen mp) i of Some ts \<Rightarrow> \<not> now - ts > ttl | None \<Rightarrow> True) (mp_seen mp),
          mp_poolBytes := mp_poolBytes mp - sum_list (map mt_size (filter old (mp_queue mp))),
          mp_queue := filter (\<lambda>x. \<not> old x) (mp_queue mp) \<rparr>)"

fun evict_until_fit :: "int \<Rightarrow> int \<Rightarrow> mempool_tx list \<Rightarrow> int \<Rightarrow> mempool_tx list \<times> int" where
  "evict_until_fit limit incoming [] pool = ([], pool)"
| "evict_until_fit limit incoming (x # xs) pool =
     (if limit < pool + incoming then evict_until_fit limit incoming xs (pool - mt_size x) else (x # xs, pool))"

fun evict_until_slot :: "int \<Rightarrow> mempool_tx list \<Rightarrow> int \<Rightarrow> mempool_tx list \<times> int" where
  "evict_until_slot limit [] pool = ([], pool)"
| "evict_until_slot limit (x # xs) pool =
     (if limit \<le> int (length (x # xs)) then evict_until_slot limit xs (pool - mt_size x) else (x # xs, pool))"

definition evictUntilFit :: "int \<Rightarrow> mempool \<Rightarrow> mempool" where
  "evictUntilFit incoming mp = (case evict_until_fit (mo_MaxPoolBytes (mp_opts mp)) incoming (mp_queue mp) (mp_poolBytes mp) of
     (q, pool) \<Rightarrow> mp\<lparr>mp_queue := q, mp_poolBytes := pool\<rparr>)"

definition evictUntilQueueSlot :: "mempool \<Rightarrow> mempool" where
  "evictUntilQueueSlot mp = (if mo_MaxQueueLen (mp_opts mp) \<le> 0 then mp
     else case evict_until_slot (mo_MaxQueueLen (mp_opts mp)) (mp_queue mp) (mp_poolBytes mp) of
       (q, pool) \<Rightarrow> mp\<lparr>mp_queue := q, mp_poolBytes := pool\<rparr>)"

text \<open>The transactions of a batch and the rest of the queue.\<close>

fun take_batch :: "int \<Rightarrow> int \<Rightarrow> int \<Rightarrow> int \<Rightarrow> mempool_tx list \<Rightarrow> mempool_tx list \<times> mempool_tx list" where
  "take_batch maxTxs maxBytes k used [] = ([], [])"
| "take_batch maxTxs maxBytes k used (x # xs) =
     (if maxTxs \<le> k \<or> maxBytes < used + mt_size x \<and> 0 < k then ([], x # xs)
      else if maxBytes \<le> used + mt_size x then ([x], xs)
      else (case take_batch maxTxs maxBytes (k + 1) (used + mt_size x) xs of (batch, rest) \<Rightarrow> (x # batch, rest)))"

definition popBatch :: "mempool \<Rightarrow> mempool \<times> mempool_tx list" where
  "popBatch mp = (case take_batch (mo_MaxBatchTxs (mp_opts mp)) (mo_MaxBatchBytes (mp_opts mp)) 0 0 (mp_queue mp) of
     (batch, rest) \<Rightarrow> (mp\<lparr>mp_queue := rest, mp_poolBytes := mp_poolBytes mp - sum_list (map mt_size batch)\<rparr>, batch))"

section \<open>Submission\<close>

definition enqueue :: "int \<Rightarrow> bytes \<Rightarrow> transaction \<Rightarrow> bytes \<Rightarrow> mempool \<Rightarrow> mempool" where
  "enqueue now i tx raw mp = mp\<lparr> mp_queue := mp_queue mp @ [\<lparr> mt_tx = tx, mt_txID = i, mt_received = now, mt_size = int (length raw), mt_raw = raw \<rparr>],
     mp_seen := fmupd i now (mp_seen mp), mp_poolBytes := mp_poolBytes mp + int (length raw) \<rparr>"

definition submit :: "mempool_env \<Rightarrow> int \<Rightarrow> transaction option \<Rightarrow> bytes \<Rightarrow> bool \<Rightarrow> mempool \<Rightarrow> mempool \<times> string option" where
  "submit env now txp raw publish mp = (case txp of None \<Rightarrow> (mp, Some ''nil transaction'')
     | Some tx \<Rightarrow>
        if raw = [] then (mp, Some ''empty transaction'')
        else if mo_MaxTxSize (mp_opts mp) < int (length raw) then (mp, Some ''transaction exceeds size limit'')
        else (let i = me_sha256 env raw; mp1 = pruneExpired now mp
          in if i |\<in>| fmdom (mp_seen mp1) then (mp1, None)
             else (let mp2 = evictUntilFit (int (length raw)) (evictUntilQueueSlot mp1)
               in if mo_MaxPoolBytes (mp_opts mp2) < mp_poolBytes mp2 + int (length raw) then (mp2, Some ''mempool full'')
                  else (let mp3 = enqueue now i tx raw mp2
                    in (if publish \<and> mp_hasNetwork mp then mp3\<lparr>mp_published := mp_published mp3 @ [raw]\<rparr> else mp3, None)))))"

text \<open>\<open>json.Marshal\<close> of a nil pointer gives \<open>null\<close>, which \<open>submit\<close> then rejects as a nil transaction.\<close>

definition SubmitTransaction :: "mempool_env \<Rightarrow> int \<Rightarrow> transaction option \<Rightarrow> mempool \<Rightarrow> mempool \<times> string option" where
  "SubmitTransaction env now txp mp = submit env now txp (case txp of None \<Rightarrow> [110, 117, 108, 108] | Some tx \<Rightarrow> me_json env tx) True mp"

text \<open>The receive loop: data of the topic that decodes is submitted without being published again.\<close>

definition on_topic :: "mempool_env \<Rightarrow> int \<Rightarrow> bytes \<Rightarrow> mempool \<Rightarrow> mempool" where
  "on_topic env now data mp = (case me_parse env data of None \<Rightarrow> mp | Some tx \<Rightarrow> fst (submit env now (Some tx) data False mp))"

section \<open>Vertices\<close>

text \<open>The transactions of a vertex are never nil here; a nil entry would make the digest panic.\<close>

definition computeHash :: "(bytes \<Rightarrow> bytes) \<Rightarrow> vertex \<Rightarrow> bytes" where
  "computeHash sha256 v = sha256 (be64 (vx_Epoch v) @ be64 (vx_Round v) @ be64 (vx_Author v) @ concat (vx_Parents v) @
     concat (map (\<lambda>t. case t of None \<Rightarrow> [] | Some tx \<Rightarrow> sha256 (tx_Payload tx)) (vx_Txs v)))"

definition NewVertex :: "(bytes \<Rightarrow> bytes) \<Rightarrow> u64 \<Rightarrow> u64 \<Rightarrow> u64 \<Rightarrow> transaction option list \<Rightarrow> bytes list \<Rightarrow> vertex" where
  "NewVertex sha256 epoch r author txs parents =
     (let v = \<lparr> vx_Epoch = epoch, vx_Round = r, vx_Author = author, vx_Txs = txs, vx_Parents = parents, vx_Signature = [], vx_Hash = [] \<rparr>
      in v\<lparr>vx_Hash := computeHash sha256 v\<rparr>)"

definition round_certs :: "mempool \<Rightarrow> u64 \<Rightarrow> vertex_certificate list" where
  "round_certs mp r = (case fmlookup (mp_roundCerts mp) r of None \<Rightarrow> [] | Some cs \<Rightarrow> cs)"

text \<open>The vertex of a batch: its hash is that of its JSON form, and its author signs the hash.\<close>

definition own_vertex :: "mempool_env \<Rightarrow> u64 \<Rightarrow> mempool_tx list \<Rightarrow> bytes list \<Rightarrow> mempool \<Rightarrow> vertex" where
  "own_vertex env epoch batch parents mp =
     (let v = NewVertex (me_sha256 env) epoch (mp_currentRound mp) (mp_nodeID mp) (map (\<lambda>x. Some (mt_tx x)) batch) parents;
          h = me_sha256 env (me_vertex_bytes env v)
      in v\<lparr>vx_Hash := h, vx_Signature := me_sign env (mp_privateKey mp) h\<rparr>)"

definition own_certificate :: "vertex \<Rightarrow> mempool \<Rightarrow> vertex_certificate" where
  "own_certificate v mp = vc_AddSignature (NewVertexCertificate (vx_Hash v) (vx_Epoch v) (vx_Round v)) (mp_nodeID mp) (vx_Signature v)"

definition add_vertex :: "vertex \<Rightarrow> mempool \<Rightarrow> mempool" where
  "add_vertex v mp = (let c = own_certificate v mp; cs = round_certs mp (mp_currentRound mp) @ [c]
     in mp\<lparr> mp_vertices := fmupd (vx_Hash v) v (mp_vertices mp), mp_certificates := fmupd (vx_Hash v) c (mp_certificates mp),
          mp_roundCerts := fmupd (mp_currentRound mp) cs (mp_roundCerts mp),
          mp_proposed := mp_proposed mp @ [cs], mp_currentRound := mp_currentRound mp + 1 \<rparr>)"

text \<open>\<open>None\<close> is a panic: without a validator set, or signing with a key that is not 64 bytes long.\<close>

definition createVertex :: "mempool_env \<Rightarrow> int \<Rightarrow> mempool \<Rightarrow> mempool option" where
  "createVertex env now mp = (case popBatch (pruneExpired now mp) of (mp1, batch) \<Rightarrow>
     if batch = [] then Some mp1
     else if 1 < mp_currentRound mp1 \<and> round_certs mp1 (mp_currentRound mp1 - 1) = [] then Some mp1
     else (let parents = (if 1 < mp_currentRound mp1 then map vc_VertexHash (round_certs mp1 (mp_currentRound mp1 - 1)) else [])
       in case mp_epoch mp1 of None \<Rightarrow> None
        | Some epoch \<Rightarrow> if length (mp_privateKey mp1) \<noteq> 64 then None
            else Some (add_vertex (own_vertex env epoch batch parents mp1) mp1)))"

definition GetVertex :: "mempool \<Rightarrow> bytes \<Rightarrow> vertex option" where
  "GetVertex mp h = fmlookup (mp_vertices mp) h"

definition mp_SetAdaptiveTuning :: "int \<Rightarrow> int \<Rightarrow> mempool \<Rightarrow> mempool" where
  "mp_SetAdaptiveTuning maxBatch interval mp =
     (let o1 = (if 0 < maxBatch then (mp_opts mp)\<lparr>mo_MaxBatchTxs := maxBatch\<rparr> else mp_opts mp)
      in mp\<lparr>mp_opts := (if 0 < interval then o1\<lparr>mo_ProposalInterval := interval\<rparr> else o1)\<rparr>)"

definition mp_GetAdaptiveTuning :: "mempool \<Rightarrow> int \<times> int" where
  "mp_GetAdaptiveTuning mp = (mo_MaxBatchTxs (mp_opts mp), mo_ProposalInterval (mp_opts mp))"

section \<open>The bounds of the queue\<close>

definition queue_bytes :: "mempool_tx list \<Rightarrow> int" where
  "queue_bytes q = sum_list (map mt_size q)"

lemma queue_bytes_simps [simp]:
  "queue_bytes [] = 0" "queue_bytes (x # xs) = mt_size x + queue_bytes xs" "queue_bytes (xs @ ys) = queue_bytes xs + queue_bytes ys"
  by (simp_all add: queue_bytes_def)

lemma queue_bytes_filter: "queue_bytes (filter P q) + queue_bytes (filter (\<lambda>x. \<not> P x) q) = queue_bytes q"
  by (induction q) auto

text \<open>
  The queue of a mempool with given options: entries are of allowed size and known, identifiers are
  distinct, and the byte count is exact.
\<close>

definition queue_ok :: "mempool_options \<Rightarrow> (bytes, int) fmap \<Rightarrow> mempool_tx list \<Rightarrow> bool" where
  "queue_ok options seen q \<longleftrightarrow> distinct (map mt_txID q) \<and>
     (\<forall>x \<in> set q. 0 < mt_size x \<and> mt_size x \<le> mo_MaxTxSize options \<and> fmlookup seen (mt_txID x) = Some (mt_received x))"

definition mempool_ok :: "mempool \<Rightarrow> bool" where
  "mempool_ok mp \<longleftrightarrow> queue_ok (mp_opts mp) (mp_seen mp) (mp_queue mp) \<and> mp_poolBytes mp = queue_bytes (mp_queue mp) \<and>
     mp_poolBytes mp \<le> mo_MaxPoolBytes (mp_opts mp) \<and> int (length (mp_queue mp)) \<le> mo_MaxQueueLen (mp_opts mp) \<and>
     0 < mo_MaxPoolBytes (mp_opts mp) \<and> 0 < mo_MaxQueueLen (mp_opts mp) \<and> 0 < mo_MaxBatchTxs (mp_opts mp)"

lemma queue_ok_suffix: "queue_ok options seen (ys @ xs) \<Longrightarrow> queue_ok options seen xs"
  by (simp add: queue_ok_def)

lemma queue_ok_bytes: "queue_ok options seen q \<Longrightarrow> 0 \<le> queue_bytes q"
  unfolding queue_bytes_def queue_ok_def by (intro sum_list_nonneg) (auto intro: less_imp_le)

lemma evict_until_fit_cases:
  "evict_until_fit limit incoming q pool = (q', pool') \<Longrightarrow>
   \<exists>gone. q = gone @ q' \<and> pool' = pool - queue_bytes gone \<and> (q' \<noteq> [] \<longrightarrow> pool' + incoming \<le> limit)"
proof (induction limit incoming q pool rule: evict_until_fit.induct)
  case (2 limit incoming x xs pool)
  show ?case
  proof (cases "limit < pool + incoming")
    case True
    with 2 obtain gone where "xs = gone @ q'" "pool' = pool - mt_size x - queue_bytes gone" "q' \<noteq> [] \<longrightarrow> pool' + incoming \<le> limit"
      by auto
    then show ?thesis by (intro exI [of _ "x # gone"]) simp
  qed (use 2 in auto)
qed simp

lemma evict_until_slot_cases:
  "evict_until_slot limit q pool = (q', pool') \<Longrightarrow>
   \<exists>gone. q = gone @ q' \<and> pool' = pool - queue_bytes gone \<and> (q' \<noteq> [] \<longrightarrow> int (length q') < limit)"
proof (induction limit q pool rule: evict_until_slot.induct)
  case (2 limit x xs pool)
  show ?case
  proof (cases "limit \<le> int (length (x # xs))")
    case True
    with 2 obtain gone where "xs = gone @ q'" "pool' = pool - mt_size x - queue_bytes gone" "q' \<noteq> [] \<longrightarrow> int (length q') < limit"
      by auto
    then show ?thesis by (intro exI [of _ "x # gone"]) simp
  qed (use 2 in auto)
qed simp

lemma take_batch_split:
  "take_batch maxTxs maxBytes k used q = (batch, rest) \<Longrightarrow> q = batch @ rest"
  by (induction maxTxs maxBytes k used q arbitrary: batch rest rule: take_batch.induct) (auto split: if_splits prod.splits)

lemma take_batch_nonempty:
  "take_batch maxTxs maxBytes 0 0 (x # xs) = (batch, rest) \<Longrightarrow> 0 < maxTxs \<Longrightarrow> batch \<noteq> []"
  by (auto split: if_splits prod.splits)

lemma mempool_ok_prune:
  assumes "mempool_ok mp"
  shows "mempool_ok (pruneExpired now mp)"
proof -
  let ?old = "\<lambda>x. now - mt_received x > mo_TxTTL (mp_opts mp)"
  have "0 \<le> queue_bytes (filter ?old (mp_queue mp))"
    using assms by (intro queue_ok_bytes [of "mp_opts mp" "mp_seen mp"])
      (auto simp: mempool_ok_def queue_ok_def distinct_map inj_on_def)
  moreover have "int (length (filter (\<lambda>x. \<not> ?old x) (mp_queue mp))) \<le> mo_MaxQueueLen (mp_opts mp)"
  proof (rule order.trans)
    show "int (length (filter (\<lambda>x. \<not> ?old x) (mp_queue mp))) \<le> int (length (mp_queue mp))" by simp
    show "int (length (mp_queue mp)) \<le> mo_MaxQueueLen (mp_opts mp)" using assms by (simp add: mempool_ok_def)
  qed
  ultimately show ?thesis
    using assms queue_bytes_filter [of ?old "mp_queue mp"]
    by (auto simp: mempool_ok_def queue_ok_def pruneExpired_def Let_def queue_bytes_def [symmetric] distinct_map inj_on_def)
qed

text \<open>Losing a front part of the queue keeps the invariant.\<close>

lemma mempool_ok_front:
  assumes "mempool_ok mp" and "mp_queue mp = gone @ q"
  shows "mempool_ok (mp\<lparr>mp_queue := q, mp_poolBytes := mp_poolBytes mp - queue_bytes gone\<rparr>)"
proof -
  have "queue_ok (mp_opts mp) (mp_seen mp) gone"
    using assms by (simp add: mempool_ok_def queue_ok_def)
  then have "0 \<le> queue_bytes gone" by (rule queue_ok_bytes)
  with assms show ?thesis by (auto simp: mempool_ok_def dest: queue_ok_suffix)
qed

lemma mempool_ok_evict_fit:
  assumes "mempool_ok mp"
  shows "mempool_ok (evictUntilFit n mp)"
    and "mp_queue (evictUntilFit n mp) \<noteq> [] \<Longrightarrow> mp_poolBytes (evictUntilFit n mp) + n \<le> mo_MaxPoolBytes (mp_opts mp)"
proof -
  obtain q pool where r: "evict_until_fit (mo_MaxPoolBytes (mp_opts mp)) n (mp_queue mp) (mp_poolBytes mp) = (q, pool)"
    by (metis prod.collapse)
  from evict_until_fit_cases [OF this] obtain gone where gone: "mp_queue mp = gone @ q" "pool = mp_poolBytes mp - queue_bytes gone"
      "q \<noteq> [] \<longrightarrow> pool + n \<le> mo_MaxPoolBytes (mp_opts mp)" by blast
  show "mempool_ok (evictUntilFit n mp)"
    using mempool_ok_front [OF assms gone(1)] by (simp add: evictUntilFit_def r gone(2))
  show "mp_poolBytes (evictUntilFit n mp) + n \<le> mo_MaxPoolBytes (mp_opts mp)" if "mp_queue (evictUntilFit n mp) \<noteq> []"
    using that gone(3) by (simp add: evictUntilFit_def r)
qed

lemma mempool_ok_evict_slot:
  assumes "mempool_ok mp"
  shows "mempool_ok (evictUntilQueueSlot mp)"
    and "int (length (mp_queue (evictUntilQueueSlot mp))) < mo_MaxQueueLen (mp_opts mp)"
proof -
  have pos: "0 < mo_MaxQueueLen (mp_opts mp)" using assms by (simp add: mempool_ok_def)
  obtain q pool where r: "evict_until_slot (mo_MaxQueueLen (mp_opts mp)) (mp_queue mp) (mp_poolBytes mp) = (q, pool)"
    by (metis prod.collapse)
  from evict_until_slot_cases [OF this] obtain gone where gone: "mp_queue mp = gone @ q" "pool = mp_poolBytes mp - queue_bytes gone"
      "q \<noteq> [] \<longrightarrow> int (length q) < mo_MaxQueueLen (mp_opts mp)" by blast
  show "mempool_ok (evictUntilQueueSlot mp)"
    using mempool_ok_front [OF assms gone(1)] pos by (simp add: evictUntilQueueSlot_def r gone(2))
  show "int (length (mp_queue (evictUntilQueueSlot mp))) < mo_MaxQueueLen (mp_opts mp)"
    using gone(3) pos by (cases "q = []") (simp_all add: evictUntilQueueSlot_def r)
qed

lemma evict_frame [simp]:
  "mp_opts (evictUntilFit n mp) = mp_opts mp" "mp_seen (evictUntilFit n mp) = mp_seen mp"
  "mp_opts (evictUntilQueueSlot mp) = mp_opts mp" "mp_seen (evictUntilQueueSlot mp) = mp_seen mp"
  "mp_opts (pruneExpired now mp) = mp_opts mp"
  by (simp_all add: evictUntilFit_def evictUntilQueueSlot_def pruneExpired_def Let_def split: prod.splits)

lemma evict_shrinks: "length (mp_queue (evictUntilFit n mp)) \<le> length (mp_queue mp)"
  using evict_until_fit_cases [of "mo_MaxPoolBytes (mp_opts mp)" n "mp_queue mp" "mp_poolBytes mp"]
  by (auto simp: evictUntilFit_def split: prod.splits)

lemma mempool_ok_enqueue:
  assumes "mempool_ok mp" and "i |\<notin>| fmdom (mp_seen mp)" and "raw \<noteq> []" and "int (length raw) \<le> mo_MaxTxSize (mp_opts mp)"
    and "mp_poolBytes mp + int (length raw) \<le> mo_MaxPoolBytes (mp_opts mp)" and "int (length (mp_queue mp)) < mo_MaxQueueLen (mp_opts mp)"
  shows "mempool_ok (enqueue now i tx raw mp)"
proof -
  have "i \<noteq> mt_txID x" if "x \<in> set (mp_queue mp)" for x
    using assms(1,2) that by (auto simp: mempool_ok_def queue_ok_def dest: fmdomI)
  with assms show ?thesis by (auto simp: mempool_ok_def enqueue_def queue_ok_def)
qed

lemma mempool_ok_published [simp]: "mempool_ok (mp\<lparr>mp_published := xs\<rparr>) = mempool_ok mp"
  by (simp add: mempool_ok_def)

lemma mempool_ok_submit:
  assumes "mempool_ok mp"
  shows "mempool_ok (fst (submit env now txp raw publish mp))"
proof -
  let ?mp1 = "pruneExpired now mp"
  let ?slot = "evictUntilQueueSlot ?mp1"
  let ?mp2 = "evictUntilFit (int (length raw)) ?slot"
  have ok: "mempool_ok ?mp1" "mempool_ok ?mp2"
    using mempool_ok_prune [OF assms] mempool_ok_evict_slot mempool_ok_evict_fit by blast+
  have "int (length (mp_queue ?mp2)) \<le> int (length (mp_queue ?slot))"
    using evict_shrinks by simp
  also have "\<dots> < mo_MaxQueueLen (mp_opts mp)"
    using mempool_ok_evict_slot(2) [OF ok(1)] by simp
  finally have "mempool_ok (enqueue now i tx raw ?mp2)"
    if "i |\<notin>| fmdom (mp_seen ?mp1)" "raw \<noteq> []" "int (length raw) \<le> mo_MaxTxSize (mp_opts mp)"
      "mp_poolBytes ?mp2 + int (length raw) \<le> mo_MaxPoolBytes (mp_opts mp)" for i tx
    using that by (intro mempool_ok_enqueue [OF ok(2)]) simp_all
  with ok assms show ?thesis
    by (simp add: submit_def Let_def not_less split: option.splits)
qed

lemma popBatch_ok:
  assumes "mempool_ok mp" and "popBatch mp = (mp', batch)"
  shows "mempool_ok mp'" and "mp_queue mp = batch @ mp_queue mp'" and "batch = [] \<longleftrightarrow> mp_queue mp = []"
proof -
  obtain rest where r: "take_batch (mo_MaxBatchTxs (mp_opts mp)) (mo_MaxBatchBytes (mp_opts mp)) 0 0 (mp_queue mp) = (batch, rest)"
      and mp': "mp' = mp\<lparr>mp_queue := rest, mp_poolBytes := mp_poolBytes mp - queue_bytes batch\<rparr>"
    using assms(2) by (auto simp: popBatch_def queue_bytes_def split: prod.splits)
  show "mempool_ok mp'" and "mp_queue mp = batch @ mp_queue mp'"
    using mempool_ok_front [OF assms(1) take_batch_split [OF r]] take_batch_split [OF r] mp' by simp_all
  show "batch = [] \<longleftrightarrow> mp_queue mp = []"
    using r assms(1) take_batch_nonempty by (cases "mp_queue mp") (auto simp: mempool_ok_def)
qed

lemma mempool_ok_vertex [simp]: "mempool_ok (add_vertex v mp) = mempool_ok mp"
  by (simp add: add_vertex_def mempool_ok_def Let_def)

lemma mempool_ok_create:
  assumes "mempool_ok mp" and "createVertex env now mp = Some mp'"
  shows "mempool_ok mp'"
proof -
  obtain mp1 batch where pop: "popBatch (pruneExpired now mp) = (mp1, batch)"
    by (metis prod.collapse)
  from popBatch_ok(1) [OF mempool_ok_prune [OF assms(1)] pop] assms(2) show ?thesis
    by (auto simp: createVertex_def pop Let_def split: if_splits option.splits)
qed

section \<open>Runs\<close>

text \<open>What happens to a mempool: the counter of rounds never reaches its largest value.\<close>

inductive mp_step :: "mempool_env \<Rightarrow> mempool \<Rightarrow> mempool \<Rightarrow> bool" for env where
  start: "mp_step env mp (mp_Start mp)"
| submitted: "mp_step env mp (fst (submit env now txp raw publish mp))"
| received: "mp_step env mp (on_topic env now data mp)"
| tuned: "mp_step env mp (mp_SetAdaptiveTuning n interval mp)"
| vertex: "mp_currentRound mp < u64_max \<Longrightarrow> createVertex env now mp = Some mp' \<Longrightarrow> mp_step env mp mp'"

lemma mempool_ok_new: "mempool_ok (NewMempoolWithOptions i key epoch net options)"
  by (simp add: mempool_ok_def queue_ok_def NewMempoolWithOptions_def normalizeOptions_def or_default_def DefaultOptions_def)

lemma mempool_ok_step: "mp_step env mp mp' \<Longrightarrow> mempool_ok mp \<Longrightarrow> mempool_ok mp'"
proof (induction rule: mp_step.induct)
  case (tuned mp n interval)
  then show ?case by (simp add: mempool_ok_def mp_SetAdaptiveTuning_def queue_ok_def Let_def)
next
  case (start mp)
  then show ?case by (simp add: mempool_ok_def mp_Start_def)
qed (auto simp: on_topic_def intro: mempool_ok_submit mempool_ok_create split: option.splits)

lemma mempool_ok_run: "(mp_step env)\<^sup>*\<^sup>* mp mp' \<Longrightarrow> mempool_ok mp \<Longrightarrow> mempool_ok mp'"
  by (induction rule: rtranclp_induct) (auto intro: mempool_ok_step)

text \<open>
  C27: the mempool keeps its limits: in every run the byte counter is the size of the queued
  transactions, it stays within the pool size and the queue within its length, every entry is within
  the size limit, and no transaction is queued twice.
\<close>

theorem mempool_bounded:
  assumes "(mp_step env)\<^sup>*\<^sup>* (NewMempoolWithOptions i key epoch net options) mp"
  shows "mp_poolBytes mp = sum_list (map mt_size (mp_queue mp)) \<and> 0 \<le> mp_poolBytes mp \<and>
    mp_poolBytes mp \<le> mo_MaxPoolBytes (mp_opts mp) \<and> int (length (mp_queue mp)) \<le> mo_MaxQueueLen (mp_opts mp) \<and>
    list_all (\<lambda>x. 0 < mt_size x \<and> mt_size x \<le> mo_MaxTxSize (mp_opts mp)) (mp_queue mp) \<and> distinct (map mt_txID (mp_queue mp))"
proof -
  have ok: "mempool_ok mp"
    using mempool_ok_run [OF assms mempool_ok_new] .
  then have "0 \<le> queue_bytes (mp_queue mp)"
    by (auto simp: mempool_ok_def intro: queue_ok_bytes)
  with ok show ?thesis
    by (auto simp: mempool_ok_def queue_ok_def queue_bytes_def list_all_iff)
qed

section \<open>The chain of vertices\<close>

text \<open>
  The bytes hashed for a vertex start with its epoch, round and author, so vertices of different rounds
  have different bytes, and by collision resistance different hashes.
\<close>

definition rounds_bound :: "mempool_env \<Rightarrow> bool" where
  "rounds_bound env \<longleftrightarrow> inj (me_sha256 env) \<and> (\<forall>v w. me_vertex_bytes env v = me_vertex_bytes env w \<longrightarrow> vx_Round v = vx_Round w)"

lemma rounds_boundD:
  "rounds_bound env \<Longrightarrow> me_sha256 env (me_vertex_bytes env v) = me_sha256 env (me_vertex_bytes env w) \<Longrightarrow> vx_Round v = vx_Round w"
  unfolding rounds_bound_def by (blast dest: injD)

definition vertex_at :: "mempool_env \<Rightarrow> mempool \<Rightarrow> u64 \<Rightarrow> vertex_certificate \<Rightarrow> vertex \<Rightarrow> bool" where
  "vertex_at env mp r c v \<longleftrightarrow> round_certs mp r = [c] \<and> GetVertex mp (vc_VertexHash c) = Some v \<and> vx_Hash v = vc_VertexHash c \<and>
     vx_Round v = r \<and> vx_Author v = mp_nodeID mp \<and> vc_Round c = r \<and>
     vc_Signatures c = fmupd (mp_nodeID mp) (me_sign env (mp_privateKey mp) (vx_Hash v)) fmempty \<and>
     vx_Parents v = (if r = 1 then [] else map vc_VertexHash (round_certs mp (r - 1))) \<and> vx_Txs v \<noteq> [] \<and>
     (\<exists>w. vx_Hash v = me_sha256 env (me_vertex_bytes env w) \<and> vx_Round w = r)"

definition chain_ok :: "mempool_env \<Rightarrow> mempool \<Rightarrow> bool" where
  "chain_ok env mp \<longleftrightarrow> 1 \<le> mp_currentRound mp \<and>
     (\<forall>r. 1 \<le> r \<longrightarrow> r < mp_currentRound mp \<longrightarrow> (\<exists>c v. vertex_at env mp r c v)) \<and>
     (\<forall>r. mp_currentRound mp \<le> r \<longrightarrow> round_certs mp r = []) \<and>
     (\<forall>cs \<in> set (mp_proposed mp). \<exists>r. 1 \<le> r \<and> r < mp_currentRound mp \<and> cs = round_certs mp r) \<and>
     (\<forall>h v. GetVertex mp h = Some v \<longrightarrow> vx_Author v = mp_nodeID mp)"

lemma u64_pred: "(1 :: u64) < r \<Longrightarrow> 1 \<le> r - 1 \<and> r - 1 < r"
  by unat_arith

lemma own_vertex_fields [simp]:
  "vx_Round (own_vertex env e batch ps mp) = mp_currentRound mp" "vx_Author (own_vertex env e batch ps mp) = mp_nodeID mp"
  "vx_Parents (own_vertex env e batch ps mp) = ps" "vx_Txs (own_vertex env e batch ps mp) = map (\<lambda>x. Some (mt_tx x)) batch"
  "vx_Signature (own_vertex env e batch ps mp) = me_sign env (mp_privateKey mp) (vx_Hash (own_vertex env e batch ps mp))"
  "\<exists>w. vx_Hash (own_vertex env e batch ps mp) = me_sha256 env (me_vertex_bytes env w) \<and> vx_Round w = mp_currentRound mp"
  by (auto simp: own_vertex_def NewVertex_def Let_def)

lemma add_vertex_chain:
  assumes ok: "chain_ok env mp" and max: "mp_currentRound mp < u64_max" and bound: "rounds_bound env"
    and v: "v = own_vertex env e batch (if 1 < mp_currentRound mp then map vc_VertexHash (round_certs mp (mp_currentRound mp - 1)) else []) mp"
    and "batch \<noteq> []"
  shows "chain_ok env (add_vertex v mp)"
proof -
  let ?mp = "add_vertex v mp" and ?cur = "mp_currentRound mp"
  let ?c = "own_certificate v mp"
  have cur: "1 \<le> ?cur" "round_certs mp ?cur = []" using ok by (auto simp: chain_ok_def)
  have next_round: "mp_currentRound ?mp = ?cur + 1" and below: "r < ?cur + 1 \<longleftrightarrow> r \<le> ?cur" for r
    using max unat_succ [OF max] by (auto simp: add_vertex_def Let_def word_less_nat_alt word_le_nat_alt)
  have certs: "round_certs ?mp r = (if r = ?cur then [?c] else round_certs mp r)" for r
    using cur(2) by (simp add: add_vertex_def round_certs_def Let_def)
  have vertices: "GetVertex ?mp h = (if h = vx_Hash v then Some v else GetVertex mp h)" for h
    by (simp add: add_vertex_def GetVertex_def Let_def)
  have frame: "mp_nodeID ?mp = mp_nodeID mp" "mp_privateKey ?mp = mp_privateKey mp" "mp_proposed ?mp = mp_proposed mp @ [[?c]]"
    using cur(2) by (simp_all add: add_vertex_def Let_def)
  have c: "vc_VertexHash ?c = vx_Hash v" "vc_Round ?c = ?cur"
      "vc_Signatures ?c = fmupd (mp_nodeID mp) (me_sign env (mp_privateKey mp) (vx_Hash v)) fmempty"
    by (simp_all add: own_certificate_def vc_AddSignature_def NewVertexCertificate_def v)
  have fresh: "vx_Hash v \<noteq> vx_Hash u" if at: "vertex_at env mp r d u" and below: "r < ?cur" for r d u
  proof
    assume eq: "vx_Hash v = vx_Hash u"
    obtain w where w: "vx_Hash v = me_sha256 env (me_vertex_bytes env w)" "vx_Round w = ?cur"
      unfolding v using own_vertex_fields(6) by blast
    obtain w' where w': "vx_Hash u = me_sha256 env (me_vertex_bytes env w')" "vx_Round w' = r"
      using at unfolding vertex_at_def by blast
    from eq w(1) w'(1) have "vx_Round w = vx_Round w'" by (intro rounds_boundD [OF bound]) simp
    with w(2) w'(2) below show False by simp
  qed
  have before: "round_certs ?mp (r - 1) = round_certs mp (r - 1)" if "1 < r" "r \<le> ?cur" for r
    using u64_pred [OF that(1)] that(2) by (auto simp: certs)
  have old: "vertex_at env ?mp r d u" if at: "vertex_at env mp r d u" and "1 \<le> r" and less: "r < ?cur" for r d u
  proof -
    have parents: "(if r = 1 then [] else map vc_VertexHash (round_certs ?mp (r - 1))) =
        (if r = 1 then [] else map vc_VertexHash (round_certs mp (r - 1)))"
      using before [of r] \<open>1 \<le> r\<close> less by (cases "r = 1") simp_all
    have vertex: "GetVertex ?mp (vc_VertexHash d) = GetVertex mp (vc_VertexHash d)"
      using fresh [OF at less] at by (auto simp: vertices vertex_at_def)
    have here: "round_certs ?mp r = round_certs mp r"
      using less by (auto simp: certs)
    show ?thesis
      using at unfolding vertex_at_def frame(1,2) parents vertex here .
  qed
  have new: "vertex_at env ?mp ?cur ?c v"
  proof -
    have "vx_Parents v = (if ?cur = 1 then [] else map vc_VertexHash (round_certs ?mp (?cur - 1)))"
    proof (cases "?cur = 1")
      case False
      with cur(1) have "1 < ?cur" by simp
      then have "vx_Parents v = map vc_VertexHash (round_certs mp (?cur - 1))" by (simp add: v)
      with before [OF \<open>1 < ?cur\<close>] False show ?thesis by simp
    qed (simp add: v)
    moreover have "\<exists>w. vx_Hash v = me_sha256 env (me_vertex_bytes env w) \<and> vx_Round w = ?cur"
      unfolding v by (rule own_vertex_fields(6))
    moreover have "vx_Round v = ?cur" "vx_Author v = mp_nodeID mp" "vx_Txs v \<noteq> []"
      by (simp_all add: v assms(5))
    moreover have "round_certs ?mp ?cur = [?c]" "GetVertex ?mp (vc_VertexHash ?c) = Some v"
      by (simp_all add: certs vertices c)
    ultimately show ?thesis
      unfolding vertex_at_def frame(1,2) using c by (intro conjI) (assumption | rule c(1) [symmetric])+
  qed
  have "\<exists>d u. vertex_at env ?mp r d u" if "1 \<le> r" "r < ?cur + 1" for r
  proof (cases "r = ?cur")
    case False
    then have "r < ?cur" using that(2) below [of r] by simp
    with ok that(1) old show ?thesis unfolding chain_ok_def by blast
  qed (use new in blast)
  moreover have "\<exists>r. 1 \<le> r \<and> r < ?cur + 1 \<and> cs = round_certs ?mp r" if "cs \<in> set (mp_proposed ?mp)" for cs
  proof (cases "cs = [?c]")
    case True
    with cur(1) below [of ?cur] show ?thesis by (intro exI [of _ ?cur]) (simp add: certs)
  next
    case False
    with that have "cs \<in> set (mp_proposed mp)" by (simp add: frame)
    then obtain r where r: "1 \<le> r" "r < ?cur" "cs = round_certs mp r"
      using ok unfolding chain_ok_def by blast
    moreover have "round_certs ?mp r = round_certs mp r" using r(2) by (auto simp: certs)
    ultimately show ?thesis using below [of r] by (intro exI [of _ r]) simp
  qed
  moreover have "round_certs ?mp r = []" if "?cur + 1 \<le> r" for r
  proof -
    have "?cur < r" using that below [of r] by (metis not_le)
    with ok have "round_certs mp r = []" unfolding chain_ok_def by (metis less_imp_le)
    with \<open>?cur < r\<close> show ?thesis by (auto simp: certs)
  qed
  moreover have "1 \<le> ?cur + 1"
    using below [of ?cur] cur(1) by (intro order.trans [OF cur(1)] less_imp_le) simp
  moreover have "vx_Author u = mp_nodeID mp" if "GetVertex ?mp h = Some u" for h u
  proof (cases "h = vx_Hash v")
    case True
    with that have "u = v" by (simp add: vertices)
    then show ?thesis by (simp add: v)
  next
    case False
    with that have "GetVertex mp h = Some u" by (simp add: vertices)
    with ok show ?thesis unfolding chain_ok_def by blast
  qed
  ultimately show ?thesis
    unfolding chain_ok_def next_round frame(1) by blast
qed

text \<open>The other operations leave the vertices alone.\<close>

definition same_vertices :: "mempool \<Rightarrow> mempool \<Rightarrow> bool" where
  "same_vertices mp mp' \<longleftrightarrow> mp_nodeID mp' = mp_nodeID mp \<and> mp_privateKey mp' = mp_privateKey mp \<and> mp_epoch mp' = mp_epoch mp \<and>
     mp_vertices mp' = mp_vertices mp \<and> mp_roundCerts mp' = mp_roundCerts mp \<and> mp_currentRound mp' = mp_currentRound mp \<and>
     mp_proposed mp' = mp_proposed mp"

lemma same_vertices_chain: "same_vertices mp mp' \<Longrightarrow> chain_ok env mp' = chain_ok env mp"
  by (simp add: same_vertices_def chain_ok_def vertex_at_def round_certs_def GetVertex_def)

lemma same_vertices_ops [simp]:
  "same_vertices mp mp" "same_vertices mp (pruneExpired now mp)" "same_vertices mp (mp_Start mp)"
  "same_vertices mp (mp_SetAdaptiveTuning n interval mp)" "same_vertices mp (fst (popBatch mp))"
  by (simp_all add: same_vertices_def pruneExpired_def mp_Start_def mp_SetAdaptiveTuning_def popBatch_def Let_def split: prod.splits)

lemma same_vertices_evict: "same_vertices mp (evictUntilFit n (evictUntilQueueSlot (pruneExpired now mp)))"
  by (simp add: same_vertices_def pruneExpired_def evictUntilFit_def evictUntilQueueSlot_def Let_def split: prod.splits)

lemma same_vertices_submit [simp]: "same_vertices mp (fst (submit env now txp raw publish mp))"
proof -
  have "same_vertices mp (enqueue now i tx raw mp')" "same_vertices mp (enqueue now i tx raw mp'\<lparr>mp_published := ps\<rparr>)"
    if "same_vertices mp mp'" for i tx mp' ps
    using that by (simp_all add: same_vertices_def enqueue_def)
  with same_vertices_evict show ?thesis
    by (auto simp: submit_def Let_def split: option.splits)
qed

lemma same_vertices_on_topic [simp]: "same_vertices mp (on_topic env now data mp)"
  by (auto simp: on_topic_def split: option.splits)

text \<open>With the chain intact, the branch of a round without certificates is never taken.\<close>

lemma createVertex_chain:
  assumes "chain_ok env mp" and pop: "popBatch (pruneExpired now mp) = (mp1, batch)"
    and "mp_epoch mp = Some e" and "length (mp_privateKey mp) = 64"
  shows "createVertex env now mp = Some (if batch = [] then mp1 else
    add_vertex (own_vertex env e batch (if 1 < mp_currentRound mp1 then map vc_VertexHash (round_certs mp1 (mp_currentRound mp1 - 1)) else []) mp1) mp1)"
    and "chain_ok env mp1" "mp_currentRound mp1 = mp_currentRound mp" "mp_proposed mp1 = mp_proposed mp"
proof -
  have same: "same_vertices mp mp1"
    using same_vertices_ops(2) [of mp now] same_vertices_ops(5) [of "pruneExpired now mp"] by (simp add: same_vertices_def pop)
  show chain: "chain_ok env mp1"
    using assms(1) same_vertices_chain [OF same] by simp
  show "mp_currentRound mp1 = mp_currentRound mp" "mp_proposed mp1 = mp_proposed mp"
    using same by (simp_all add: same_vertices_def)
  have parent: "round_certs mp1 (mp_currentRound mp1 - 1) \<noteq> []" if "1 < mp_currentRound mp1"
  proof -
    from chain u64_pred [OF that] obtain c v where "vertex_at env mp1 (mp_currentRound mp1 - 1) c v"
      unfolding chain_ok_def by blast
    then show ?thesis by (simp add: vertex_at_def)
  qed
  have "mp_epoch mp1 = Some e" "length (mp_privateKey mp1) = 64"
    using same assms(3,4) by (simp_all add: same_vertices_def)
  then show "createVertex env now mp = Some (if batch = [] then mp1 else
    add_vertex (own_vertex env e batch (if 1 < mp_currentRound mp1 then map vc_VertexHash (round_certs mp1 (mp_currentRound mp1 - 1)) else []) mp1) mp1)"
    using parent by (cases "1 < mp_currentRound mp1") (simp_all add: createVertex_def pop)
qed

lemma same_vertices_refl_fields: "same_vertices mp mp' \<Longrightarrow> mp_epoch mp' = mp_epoch mp \<and> mp_privateKey mp' = mp_privateKey mp"
  by (simp add: same_vertices_def)

text \<open>A panic ends a run, so a vertex is only made with an epoch and a whole key.\<close>

lemma createVertex_frame:
  assumes "createVertex env now mp = Some mp'"
  shows "mp_epoch mp' = mp_epoch mp" and "mp_privateKey mp' = mp_privateKey mp"
  using assms same_vertices_ops(2) [of mp now] same_vertices_ops(5) [of "pruneExpired now mp"]
  by (auto simp: createVertex_def add_vertex_def same_vertices_def Let_def split: prod.splits if_splits option.splits)

lemma mp_step_vertices:
  assumes "mp_step env mp mp'"
  obtains (same) "same_vertices mp mp'"
    | (vertex) now where "mp_currentRound mp < u64_max" and "createVertex env now mp = Some mp'"
  using assms by cases auto

lemma chain_ok_step:
  assumes "mp_step env mp mp'" and "chain_ok env mp" and bound: "rounds_bound env"
    and "mp_epoch mp = Some e" and "length (mp_privateKey mp) = 64"
  shows "chain_ok env mp' \<and> mp_epoch mp' = mp_epoch mp \<and> mp_privateKey mp' = mp_privateKey mp"
  using assms(1)
proof (cases rule: mp_step_vertices)
  case same
  with assms(2) show ?thesis by (simp add: same_vertices_chain [OF same] same_vertices_refl_fields [OF same])
next
  case (vertex now)
  obtain mp1 batch where pop: "popBatch (pruneExpired now mp) = (mp1, batch)"
    by (metis prod.collapse)
  note made = createVertex_chain [OF assms(2) pop assms(4,5)]
  have "chain_ok env mp'"
  proof (cases "batch = []")
    case False
    have "mp_currentRound mp1 < u64_max" using made(3) vertex by simp
    from add_vertex_chain [OF made(2) this bound refl False, of e] made(1) vertex(2) False show ?thesis by simp
  qed (use made(1,2) vertex(2) in simp)
  then show ?thesis using createVertex_frame [OF vertex(2)] by simp
qed

lemma chain_ok_run:
  assumes "(mp_step env)\<^sup>*\<^sup>* (NewMempoolWithOptions i key (Some e) net options) mp"
    and bound: "rounds_bound env" and key: "length key = 64"
  shows "chain_ok env mp \<and> mp_epoch mp = Some e \<and> mp_privateKey mp = key"
  using assms(1)
proof (induction rule: rtranclp_induct)
  case base
  then show ?case
    by (simp add: chain_ok_def NewMempoolWithOptions_def round_certs_def GetVertex_def)
next
  case (step mp mp')
  then have "chain_ok env mp" "mp_epoch mp = Some e" "length (mp_privateKey mp) = 64" using key by simp_all
  from chain_ok_step [OF step(2) this(1) bound this(2,3)] step(3) show ?case by simp
qed

section \<open>Properties\<close>

text \<open>
  The vertices of a node form a chain: every earlier round has exactly one certificate, of a
  vertex of that round made and signed by the node, whose parents are the vertex of the round before,
  and what is proposed is such a certificate.
\<close>

theorem vertices_form_chain:
  assumes "(mp_step env)\<^sup>*\<^sup>* (NewMempoolWithOptions i key (Some e) net options) mp" and "length key = 64"
    and "rounds_bound env" and "1 \<le> r" and "r < mp_currentRound mp"
  shows "list_all (\<lambda>cs. \<exists>r. 1 \<le> r \<and> r < mp_currentRound mp \<and> cs = round_certs mp r) (mp_proposed mp) \<and>
    (\<exists>c v. round_certs mp r = [c] \<and> GetVertex mp (vc_VertexHash c) = Some v \<and> vx_Hash v = vc_VertexHash c \<and> vx_Round v = r \<and>
      vx_Author v = mp_nodeID mp \<and> vc_Signatures c = fmupd (mp_nodeID mp) (me_sign env key (vx_Hash v)) fmempty \<and> vx_Txs v \<noteq> [] \<and>
      vx_Parents v = (if r = 1 then [] else map vc_VertexHash (round_certs mp (r - 1))))"
proof (intro conjI)
  have run: "chain_ok env mp" "mp_privateKey mp = key"
    using chain_ok_run [OF assms(1,3,2)] by blast+
  then obtain c v where "vertex_at env mp r c v"
    using assms(4,5) unfolding chain_ok_def by blast
  then show "\<exists>c v. round_certs mp r = [c] \<and> GetVertex mp (vc_VertexHash c) = Some v \<and> vx_Hash v = vc_VertexHash c \<and> vx_Round v = r \<and>
      vx_Author v = mp_nodeID mp \<and> vc_Signatures c = fmupd (mp_nodeID mp) (me_sign env key (vx_Hash v)) fmempty \<and> vx_Txs v \<noteq> [] \<and>
      vx_Parents v = (if r = 1 then [] else map vc_VertexHash (round_certs mp (r - 1)))"
    unfolding vertex_at_def run(2) by blast
  show "list_all (\<lambda>cs. \<exists>r. 1 \<le> r \<and> r < mp_currentRound mp \<and> cs = round_certs mp r) (mp_proposed mp)"
    using run(1) unfolding chain_ok_def list_all_iff by blast
qed

text \<open>
  No batch is lost: creating a vertex never panics for a node with a whole key and a validator
  set, it takes a front part of the unexpired queue, empty only if the queue is, and what it takes is
  exactly what the proposed vertex carries, in that order.
\<close>

theorem batches_become_vertices:
  assumes "(mp_step env)\<^sup>*\<^sup>* (NewMempoolWithOptions i key (Some e) net options) mp" and "length key = 64"
    and "rounds_bound env"
  shows "\<exists>mp' batch. createVertex env now mp = Some mp' \<and> mp_queue (pruneExpired now mp) = batch @ mp_queue mp' \<and>
    (if batch = [] then mp_queue mp' = [] \<and> mp_proposed mp' = mp_proposed mp
     else \<exists>c v. mp_proposed mp' = mp_proposed mp @ [[c]] \<and> GetVertex mp' (vc_VertexHash c) = Some v \<and>
       vx_Txs v = map (\<lambda>x. Some (mt_tx x)) batch)"
proof -
  have run: "chain_ok env mp" "mp_epoch mp = Some e" "length (mp_privateKey mp) = 64"
    using chain_ok_run [OF assms(1,3,2)] assms(2) by simp_all
  obtain mp1 batch where pop: "popBatch (pruneExpired now mp) = (mp1, batch)"
    by (metis prod.collapse)
  note popped = popBatch_ok [OF mempool_ok_prune [OF mempool_ok_run [OF assms(1) mempool_ok_new]] pop]
  note made = createVertex_chain [OF run(1) pop run(2,3)]
  show ?thesis
  proof (cases "batch = []")
    case True
    with made(1,4) popped(2,3) show ?thesis by auto
  next
    case False
    have "round_certs mp1 (mp_currentRound mp1) = []" using made(2) by (simp add: chain_ok_def)
    then show ?thesis
      using False made(1,4) popped(2)
      by (intro exI [of _ "the (createVertex env now mp)"] exI [of _ batch])
        (auto simp: add_vertex_def Let_def GetVertex_def own_certificate_def vc_AddSignature_def NewVertexCertificate_def)
  qed
qed

lemma evict_until_fit_suffix: "\<exists>gone. mp_queue mp = gone @ mp_queue (evictUntilFit n mp)"
  using evict_until_fit_cases by (fastforce simp: evictUntilFit_def split: prod.splits)

lemma evict_slot_full:
  assumes "mp_queue mp = x # q" and "mo_MaxQueueLen (mp_opts mp) \<le> int (length (x # q))" and "0 < mo_MaxQueueLen (mp_opts mp)"
  shows "\<exists>gone. q = gone @ mp_queue (evictUntilQueueSlot mp)"
proof -
  obtain q' pool where r: "evict_until_slot (mo_MaxQueueLen (mp_opts mp)) q (mp_poolBytes mp - mt_size x) = (q', pool)"
    by (metis prod.collapse)
  then have "mp_queue (evictUntilQueueSlot mp) = q'"
    using assms by (simp add: evictUntilQueueSlot_def)
  with evict_until_slot_cases [OF r] show ?thesis by blast
qed

lemma pruned_seen:
  "fmlookup (mp_seen mp) i = Some ts \<Longrightarrow> now - ts \<le> mo_TxTTL (mp_opts mp) \<Longrightarrow> fmlookup (mp_seen (pruneExpired now mp)) i = Some ts"
  by (simp add: pruneExpired_def Let_def)

lemma pruned_seenD: "fmlookup (mp_seen (pruneExpired now mp)) i = Some ts \<Longrightarrow> fmlookup (mp_seen mp) i = Some ts"
  by (simp add: pruneExpired_def Let_def split: if_splits)

lemma pruned_queue: "set (mp_queue (pruneExpired now mp)) \<subseteq> set (mp_queue mp)"
  by (auto simp: pruneExpired_def Let_def)

lemma submit_seen:
  assumes "fmlookup (mp_seen mp) (me_sha256 env raw) = Some ts" and "now - ts \<le> mo_TxTTL (mp_opts mp)"
    and "raw \<noteq> []" and "int (length raw) \<le> mo_MaxTxSize (mp_opts mp)"
  shows "submit env now (Some tx) raw publish mp = (pruneExpired now mp, None)"
  using fmdomI [OF pruned_seen [OF assms(1,2)]] assms(3,4) by (simp add: submit_def Let_def)

text \<open>
  An evicted transaction is lost until its time is over: when the queue is full its head makes room
  for a new transaction but stays among those seen, so submitting the evicted one again reports success
  and does not queue it.
\<close>

theorem evicted_transaction_lost:
  assumes "(mp_step env)\<^sup>*\<^sup>* (NewMempoolWithOptions i key epoch net options) mp"
    and "mp_queue (pruneExpired now mp) = x # q" and "mo_MaxQueueLen (mp_opts mp) \<le> int (length (x # q))"
    and "raw \<noteq> []" and "int (length raw) \<le> mo_MaxTxSize (mp_opts mp)" and "me_sha256 env raw |\<notin>| fmdom (mp_seen (pruneExpired now mp))"
    and "me_sha256 env raw' = mt_txID x" and "raw' \<noteq> []" and "int (length raw') \<le> mo_MaxTxSize (mp_opts mp)"
    and "later - mt_received x \<le> mo_TxTTL (mp_opts mp)"
  shows "let mp1 = fst (submit env now (Some tx) raw publish mp); (mp2, err) = submit env later (Some tx') raw' publish' mp1
    in err = None \<and> mt_txID x \<notin> set (map mt_txID (mp_queue mp2))"
proof -
  let ?p = "pruneExpired now mp"
  let ?e = "evictUntilFit (int (length raw)) (evictUntilQueueSlot ?p)"
  let ?mp1 = "fst (submit env now (Some tx) raw publish mp)"
  have ok: "mempool_ok ?p"
    using mempool_ok_prune [OF mempool_ok_run [OF assms(1) mempool_ok_new]] .
  then have "\<exists>gone. q = gone @ mp_queue (evictUntilQueueSlot ?p)"
    using assms(2,3) by (intro evict_slot_full) (simp_all add: mempool_ok_def)
  with evict_until_fit_suffix [of "evictUntilQueueSlot ?p" "int (length raw)"] have queue: "set (mp_queue ?e) \<subseteq> set q"
    by auto
  have x: "fmlookup (mp_seen ?p) (mt_txID x) = Some (mt_received x)" "mt_txID x \<notin> set (map mt_txID q)"
    using ok assms(2) by (auto simp: mempool_ok_def queue_ok_def)
  then have new: "mt_txID x \<noteq> me_sha256 env raw" using assms(6) by (auto dest: fmdomI)
  have mp1: "mp_opts ?mp1 = mp_opts mp" "fmlookup (mp_seen ?mp1) (mt_txID x) = Some (mt_received x)"
      "mt_txID x \<notin> mt_txID ` set (mp_queue ?mp1)"
    using assms(4,5,6) x new queue by (auto simp: submit_def Let_def enqueue_def)
  have "submit env later (Some tx') raw' publish' ?mp1 = (pruneExpired later ?mp1, None)"
    using mp1 assms(7-10) by (intro submit_seen) simp_all
  moreover have "mt_txID x \<notin> set (map mt_txID (mp_queue (pruneExpired later ?mp1)))"
    using mp1(3) pruned_queue by (auto simp: image_iff)
  ultimately show ?thesis by simp
qed

section \<open>Examples\<close>

definition toy_mempool_env :: mempool_env where
  "toy_mempool_env = \<lparr> me_sha256 = (\<lambda>bs. bs), me_vertex_bytes = (\<lambda>v. be64 (vx_Round v)), me_sign = (\<lambda>k m. k @ m),
     me_parse = (\<lambda>_. None), me_json = tx_Payload \<rparr>"

definition toy_transaction :: transaction where
  "toy_transaction = \<lparr> tx_Type = TxTypeNormal, tx_Payload = [7] \<rparr>"

definition toy_mempool :: mempool where
  "toy_mempool = NewMempoolWithOptions 3 (replicate 64 0) (Some 1) False (DefaultOptions\<lparr>mo_MaxQueueLen := 1\<rparr>)"

definition toy_mempool1 :: mempool where
  "toy_mempool1 = fst (submit toy_mempool_env 0 (Some toy_transaction) [7] False toy_mempool)"

lemma toy_mempool1_run: "(mp_step toy_mempool_env)\<^sup>*\<^sup>* toy_mempool toy_mempool1"
  unfolding toy_mempool1_def by (intro r_into_rtranclp mp_step.submitted)

lemma toy_bound: "rounds_bound toy_mempool_env"
  by (simp add: rounds_bound_def toy_mempool_env_def inj_def)

lemma toy_mempool1_queue:
  "mp_queue toy_mempool1 = [\<lparr> mt_tx = toy_transaction, mt_txID = [7], mt_received = 0, mt_size = 1, mt_raw = [7] \<rparr>]"
  "fmlookup (mp_seen toy_mempool1) k = (if k = [7] then Some 0 else None)" "mo_MaxQueueLen (mp_opts toy_mempool1) = 1"
  "mo_MaxTxSize (mp_opts toy_mempool1) = 262144" "mo_TxTTL (mp_opts toy_mempool1) = 30000000000" "mp_epoch toy_mempool1 = Some 1"
  "mp_poolBytes toy_mempool1 = 1" "mo_MaxBatchTxs (mp_opts toy_mempool1) = 2048" "mo_MaxBatchBytes (mp_opts toy_mempool1) = 4194304"
  "mp_currentRound toy_mempool1 = 1" "length (mp_privateKey toy_mempool1) = 64" "mp_nodeID toy_mempool1 = 3" "mp_roundCerts toy_mempool1 = fmempty"
  by (simp_all add: toy_mempool1_def toy_mempool_def submit_def toy_mempool_env_def NewMempoolWithOptions_def normalizeOptions_def or_default_def
      DefaultOptions_def pruneExpired_def evictUntilFit_def evictUntilQueueSlot_def enqueue_def Let_def)

text \<open>Pruning at time 0 keeps the one transaction, and a vertex is made of it.\<close>

lemma toy_pruned:
  "mp_queue (pruneExpired 0 toy_mempool1) = mp_queue toy_mempool1"
  "mp_seen (pruneExpired 0 toy_mempool1) = mp_seen toy_mempool1"
  by (auto simp: pruneExpired_def Let_def toy_mempool1_queue intro!: fmap_ext)

lemma toy_vertex:
  obtains mp where "mp_step toy_mempool_env toy_mempool1 mp" and "createVertex toy_mempool_env 0 toy_mempool1 = Some mp" and "mp_currentRound mp = 2"
proof -
  have "\<exists>mp. createVertex toy_mempool_env 0 toy_mempool1 = Some mp \<and> mp_currentRound mp = 2"
    by (simp add: createVertex_def popBatch_def add_vertex_def pruneExpired_def Let_def toy_mempool1_queue)
  then obtain mp where mp: "createVertex toy_mempool_env 0 toy_mempool1 = Some mp" "mp_currentRound mp = 2" by blast
  have "mp_step toy_mempool_env toy_mempool1 mp"
    by (rule mp_step.vertex [OF _ mp(1)]) (simp add: toy_mempool1_queue word_less_nat_alt unsigned_minus_1_eq_mask mask_eq_exp_minus_1)
  from that [OF this mp] show thesis .
qed

theorem mempool_bounded_witness:
  "mp_poolBytes toy_mempool1 = sum_list (map mt_size (mp_queue toy_mempool1)) \<and> mp_queue toy_mempool1 \<noteq> []"
  using mempool_bounded [OF toy_mempool1_run [unfolded toy_mempool_def]] by (simp add: toy_mempool1_queue)

theorem vertices_form_chain_witness:
  "\<exists>mp c. mp_currentRound mp = 2 \<and> round_certs mp 1 = [c] \<and> mp_nodeID mp = 3 \<and> (\<exists>v. GetVertex mp (vc_VertexHash c) = Some v \<and> vx_Parents v = [])"
proof -
  obtain mp where mp: "mp_step toy_mempool_env toy_mempool1 mp" "createVertex toy_mempool_env 0 toy_mempool1 = Some mp" "mp_currentRound mp = 2"
    by (rule toy_vertex)
  have run: "(mp_step toy_mempool_env)\<^sup>*\<^sup>* toy_mempool mp"
    using toy_mempool1_run mp(1) by (rule rtranclp.rtrancl_into_rtrancl)
  have "mp_nodeID mp = 3"
    using mp(2) by (auto simp: createVertex_def popBatch_def add_vertex_def pruneExpired_def Let_def toy_mempool1_queue)
  with mp(3) vertices_form_chain [OF run [unfolded toy_mempool_def] _ toy_bound, of 1] show ?thesis by fastforce
qed

theorem batches_become_vertices_witness:
  "\<exists>mp c v. createVertex toy_mempool_env 0 toy_mempool1 = Some mp \<and> mp_proposed mp = mp_proposed toy_mempool1 @ [[c]] \<and>
     GetVertex mp (vc_VertexHash c) = Some v \<and> vx_Txs v \<noteq> []"
proof -
  obtain mp where mp: "createVertex toy_mempool_env 0 toy_mempool1 = Some mp" "mp_currentRound mp = 2"
    by (rule toy_vertex)
  then have "mp_currentRound mp \<noteq> mp_currentRound toy_mempool1" by (simp add: toy_mempool1_queue)
  with mp(1) have "mp_queue mp = []"
    by (auto simp: createVertex_def popBatch_def add_vertex_def pruneExpired_def Let_def toy_mempool1_queue)
  with mp(1) batches_become_vertices [OF toy_mempool1_run [unfolded toy_mempool_def] _ toy_bound, of 0] show ?thesis
    by (auto simp: toy_pruned toy_mempool1_queue split: if_splits)
qed

theorem evicted_transaction_lost_witness:
  "let mp1 = fst (submit toy_mempool_env 0 (Some toy_transaction) [8] True toy_mempool1);
       (mp2, err) = submit toy_mempool_env 9 (Some toy_transaction) [7] True mp1
   in err = None \<and> [7] \<notin> set (map mt_txID (mp_queue mp2))"
  using evicted_transaction_lost [OF toy_mempool1_run [unfolded toy_mempool_def], of 0
      "\<lparr> mt_tx = toy_transaction, mt_txID = [7], mt_received = 0, mt_size = 1, mt_raw = [7] \<rparr>" "[]" "[8]" "[7]" 9
      toy_transaction True toy_transaction True]
  by (simp add: toy_pruned toy_mempool1_queue toy_mempool_env_def fmdom_notI)

end
