(* ===== verification/Ordered_Output.thy ===== *)
theory Ordered_Output
  imports Gbc_Orderer Gbc_Node Executor Engine Mempool Toy_Cluster
begin

text \<open>
  The loop of cmd/evolvbft/main.go over the globally ordered outputs: each block is applied by the
  node's executor, retried until that succeeds, and then recorded as a checkpoint in the log of the
  global beacon chain.  Metrics and the broadcast of the applied output are left out, as is a nil
  executor, which the program never has.  The last part joins the proposals of the engines to it.
\<close>

section \<open>Applying an output\<close>

definition applyOrderedOutput :: "exec_env \<Rightarrow> instance_output \<Rightarrow> executor \<Rightarrow> instance_output exec_result" where
  "applyOrderedOutput env out e = (if io_IsNil out \<or> io_Block out = None then Success e out
     else (case ApplyOrderedBlock env e (io_Block out) (io_Rank out) of Crash \<Rightarrow> Crash
       | Failed e1 \<Rightarrow> Failed e1
       | Success e1 ts \<Rightarrow> Success e1 (out\<lparr>io_EpochTransitions := io_EpochTransitions out @ map Some ts\<rparr>)))"

text \<open>
  The retry loop: \<open>None\<close> when it never ends or panics.  Between attempts only the loop itself acts on
  the executor, and the callbacks answer the same.
\<close>

partial_function (option) apply_until :: "exec_env \<Rightarrow> instance_output \<Rightarrow> executor \<Rightarrow> (executor \<times> instance_output) option" where
  [code]: "apply_until env out e = (case applyOrderedOutput env out e of Crash \<Rightarrow> None
     | Failed e1 \<Rightarrow> apply_until env out e1
     | Success e1 out1 \<Rightarrow> Some (e1, out1))"

section \<open>Publishing a checkpoint\<close>

text \<open>
  The JSON of a checkpoint with its decoder, the reader of its hash field, the digest, and whether the
  network takes a broadcast.
\<close>

record sink_env =
  sk_marshal :: "checkpoint \<Rightarrow> bytes"
  sk_hash_field :: "bytes \<Rightarrow> string option"
  sk_sha256 :: "bytes \<Rightarrow> bytes"
  sk_broadcast_ok :: bool

definition checkpoint_of :: "instance_output \<Rightarrow> block \<Rightarrow> checkpoint" where
  "checkpoint_of out b = \<lparr> ck_InstanceID = io_InstanceID out, ck_LocalHeight = io_LocalHeight out, ck_Rank = io_Rank out,
     ck_Epoch = b_Epoch b, ck_IsNil = io_IsNil out, ck_TransitionCount = int (length (io_EpochTransitions out)),
     ck_BlockHashHex = hex_encode (io_BlockHash out) \<rparr>"

text \<open>Where checkpoints go: a log of this node alone, if it may be used, or the replicated one.\<close>

datatype checkpoint_sink = LocalSink "gbc_log option" bool | NodeSink gbc_node

fun sink_log :: "checkpoint_sink \<Rightarrow> gbc_log option" where
  "sink_log (LocalSink l allowed) = l"
| "sink_log (NodeSink n) = Some (gn_log n)"

definition already_latest :: "sink_env \<Rightarrow> gbc_log \<Rightarrow> instance_output \<Rightarrow> bool" where
  "already_latest env l out = (case LatestByType EntryCheckpoint l of None \<Rightarrow> False
     | Some e \<Rightarrow> sk_hash_field env (ge_Payload e) = Some (hex_encode (io_BlockHash out)))"

text \<open>The second component tells whether an error is returned; not being the proposer is none.\<close>

definition publish_entry :: "sink_env \<Rightarrow> bytes \<Rightarrow> checkpoint_sink \<Rightarrow> checkpoint_sink \<times> bool" where
  "publish_entry env payload s = (case s of
     NodeSink n \<Rightarrow> (case propose (sk_sha256 env) (sk_broadcast_ok env) EntryCheckpoint payload n of
         (n1, r) \<Rightarrow> (NodeSink n1, (case r of Inl err \<Rightarrow> err \<noteq> NotProposer | Inr _ \<Rightarrow> False)))
   | LocalSink (Some l) True \<Rightarrow> (case gbc_Publish (sk_sha256 env) \<lparr> ge_Height = gl_nextHeight l, ge_Type = EntryCheckpoint,
         ge_Payload = payload, ge_Attestations = [] \<rparr> l of
         Inl _ \<Rightarrow> (s, True) | Inr l1 \<Rightarrow> (LocalSink (Some l1) True, False))
   | _ \<Rightarrow> (s, False))"

definition publishOrderedCheckpoint :: "sink_env \<Rightarrow> instance_output \<Rightarrow> checkpoint_sink \<Rightarrow> checkpoint_sink \<times> bool" where
  "publishOrderedCheckpoint env out s = (case (sink_log s, io_Block out) of
     (Some l, Some b) \<Rightarrow> if io_IsNil out \<or> already_latest env l out then (s, False)
       else publish_entry env (sk_marshal env (checkpoint_of out b)) s
   | _ \<Rightarrow> (s, False))"

text \<open>The loop over the outputs; an error of the publication is logged only.\<close>

fun ordered_loop :: "exec_env \<Rightarrow> sink_env \<Rightarrow> instance_output list \<Rightarrow> executor \<Rightarrow> checkpoint_sink \<Rightarrow>
    (executor \<times> checkpoint_sink \<times> instance_output list) option" where
  "ordered_loop env sink [] e s = Some (e, s, [])"
| "ordered_loop env sink (out # outs) e s = (case apply_until env out e of None \<Rightarrow> None
     | Some (e1, out1) \<Rightarrow> map_option (\<lambda>(e2, s2, done). (e2, s2, out1 # done))
         (ordered_loop env sink outs e1 (fst (publishOrderedCheckpoint sink out1 s))))"

section \<open>The retry loop\<close>

lemma failed_stays:
  assumes "ApplyOrderedBlock env e blk r = Failed e1"
  shows "ApplyOrderedBlock env e1 blk r = Failed e1"
proof (cases blk)
  case (Some b)
  consider (stays) "e1 = e" | (executed) e2 u where "b_Hash b |\<notin>| ex_applied e" "b_Hash b \<noteq> []" "b_Hash b |\<notin>| ex_executed e"
      "executeBlockLocked env (e\<lparr>ex_executed := finsert (b_Hash b) (ex_executed e)\<rparr>) b = Success e2 u"
      "commitReconfigsLocked env e2 b r = Failed e1"
  proof (cases "b_Hash b = [] \<or> b_Hash b |\<in>| ex_applied e \<or> b_Hash b |\<in>| ex_executed e")
    case True
    with assms Some have "e1 = e"
      by (auto simp: ApplyOrderedBlock_def dest: commit_failed split: if_splits)
    then show thesis by (rule stays)
  next
    case False
    show thesis
    proof (cases "executeBlockLocked env (e\<lparr>ex_executed := finsert (b_Hash b) (ex_executed e)\<rparr>) b")
      case (Failed e2)
      have "finsert (b_Hash b) (ex_executed e) |-| {|b_Hash b|} = ex_executed e" using False by auto
      with assms Some False Failed execute_failed [OF Failed] have "e1 = e"
        by (auto simp: ApplyOrderedBlock_def)
      then show thesis by (rule stays)
    next
      case (Success e2 u)
      with assms Some False show thesis by (intro executed) (auto simp: ApplyOrderedBlock_def)
    qed (use assms Some False in \<open>simp add: ApplyOrderedBlock_def\<close>)
  qed
  then show ?thesis
  proof cases
    case stays
    with assms show ?thesis by simp
  next
    case executed
    with execute_frame [OF executed(4)] commit_failed [OF executed(5)] show ?thesis
      by (simp add: ApplyOrderedBlock_def Some)
  qed
qed (use assms in \<open>simp add: ApplyOrderedBlock_def\<close>)

lemma applyOrderedOutput_failed:
  "applyOrderedOutput env out e = Failed e1 \<Longrightarrow> applyOrderedOutput env out e1 = Failed e1"
  by (auto simp: applyOrderedOutput_def dest: failed_stays split: if_splits exec_result.splits)

lemma apply_until_result:
  assumes "apply_until env out e = Some r"
  shows "\<exists>e0 e1 out1. applyOrderedOutput env out e0 = Success e1 out1 \<and> (e0 = e \<or> applyOrderedOutput env out e = Failed e0)"
proof (rule apply_until.raw_induct [OF _ assms])
  fix loop env out e r
  assume ih: "\<And>env out e r. loop env out e = Some r \<Longrightarrow>
      \<exists>e0 e1 out1. applyOrderedOutput env out e0 = Success e1 out1 \<and> (e0 = e \<or> applyOrderedOutput env out e = Failed e0)"
    and run: "(case applyOrderedOutput env out e of Crash \<Rightarrow> None | Failed e1 \<Rightarrow> loop env out e1
      | Success e1 out1 \<Rightarrow> Some (e1, out1)) = Some r"
  show "\<exists>e0 e1 out1. applyOrderedOutput env out e0 = Success e1 out1 \<and> (e0 = e \<or> applyOrderedOutput env out e = Failed e0)"
  proof (cases "applyOrderedOutput env out e")
    case (Failed e1)
    with run ih [of env out e1 r] applyOrderedOutput_failed [OF Failed] show ?thesis by auto
  qed (use run in auto)
qed

text \<open>
  Retrying never helps: the loop that applies an ordered output ends exactly when its first attempt
  succeeds, with that result; after a failed attempt every further one fails, and no later output of the
  node is ever applied.
\<close>

theorem retry_loop_ends_iff:
  "apply_until env out e = (case applyOrderedOutput env out e of Success e1 out1 \<Rightarrow> Some (e1, out1) | _ \<Rightarrow> None)"
proof (cases "applyOrderedOutput env out e")
  case (Failed e1)
  have "apply_until env out e = None"
  proof (rule ccontr)
    assume "apply_until env out e \<noteq> None"
    then obtain r where "apply_until env out e = Some r" by blast
    from apply_until_result [OF this] Failed applyOrderedOutput_failed [OF Failed] show False by auto
  qed
  with Failed show ?thesis by simp
qed (simp_all add: apply_until.simps)

section \<open>The latest checkpoint\<close>

text \<open>What the JSON package promises: encoding a checkpoint and reading it back gives the checkpoint.\<close>

definition codec_ok :: "sink_env \<Rightarrow> (bytes \<Rightarrow> checkpoint option) \<Rightarrow> checkpoint \<Rightarrow> bool" where
  "codec_ok env unmarshal ck \<longleftrightarrow> unmarshal (sk_marshal env ck) = Some ck \<and> sk_hash_field env (sk_marshal env ck) = Some (ck_BlockHashHex ck)"

definition carries_block :: "instance_output \<Rightarrow> bool" where
  "carries_block out \<longleftrightarrow> \<not> io_IsNil out \<and> io_Block out \<noteq> None"

lemma hex_encode_empty [simp]: "hex_encode bs = [] \<longleftrightarrow> bs = []"
  by (cases bs) (simp_all add: hex_byte_def)

lemma compare_self: "ck_BlockHashHex ck = hex_encode bs \<Longrightarrow> bs \<noteq> [] \<Longrightarrow> compareCheckpoint ck ck = None"
  by (simp add: compareCheckpoint_def decodeCheckpointHash_def hex_decode_encode)

text \<open>
  Whether a sink takes a new checkpoint now: a log of the node alone if it may be used, the replicated
  one if it is the turn of this node and its own attestation verifies.
\<close>

definition own_entry :: "bytes \<Rightarrow> gbc_node \<Rightarrow> gbc_entry" where
  "own_entry payload n = \<lparr> ge_Height = gl_nextHeight (gn_log n), ge_Type = EntryCheckpoint, ge_Payload = payload, ge_Attestations = [] \<rparr>"

definition its_turn :: "gbc_node \<Rightarrow> bool" where
  "its_turn n \<longleftrightarrow> gn_MemberIDs n \<noteq> [] \<and> proposerForHeight n (gl_nextHeight (gn_log n)) = gn_NodeID n"

definition attestation_fits :: "sink_env \<Rightarrow> bytes \<Rightarrow> gbc_node \<Rightarrow> bool" where
  "attestation_fits env payload n \<longleftrightarrow> verifyAttestation (sk_sha256 env) (gl_verifier (gn_log n)) (own_entry payload n)
     (own_attestation (sk_sha256 env) n (own_entry payload n)) = None"

fun takes_checkpoint :: "sink_env \<Rightarrow> bytes \<Rightarrow> checkpoint_sink \<Rightarrow> bool" where
  "takes_checkpoint env payload (LocalSink l allowed) = allowed"
| "takes_checkpoint env payload (NodeSink n) = (its_turn n \<and> attestation_fits env payload n)"

text \<open>The errors: no members, an attestation of its own that does not verify, or a failed broadcast.\<close>

fun publication_fails :: "sink_env \<Rightarrow> bytes \<Rightarrow> checkpoint_sink \<Rightarrow> bool" where
  "publication_fails env payload (LocalSink l allowed) = False"
| "publication_fails env payload (NodeSink n) = (gn_MemberIDs n = [] \<or>
     its_turn n \<and> (\<not> attestation_fits env payload n \<or> \<not> sk_broadcast_ok env))"

lemma commit_keeps_log: "gn_log (fst (checkAndCommit sha256 pe height n)) = gn_log n"
  by (simp add: checkAndCommit_def Let_def gemit_def)

lemma own_entry_fields [simp]:
  "ge_Height (own_entry payload n) = gl_nextHeight (gn_log n)" "ge_Type (own_entry payload n) = EntryCheckpoint"
  "ge_Payload (own_entry payload n) = payload"
  by (simp_all add: own_entry_def)

lemma own_attested:
  "gbc_Publish sha256 ((own_entry payload n)\<lparr>ge_Attestations := [att]\<rparr>) (gn_log n) =
    (case verifyAttestation sha256 (gl_verifier (gn_log n)) (own_entry payload n) att of Some err \<Rightarrow> Inl err
     | None \<Rightarrow> Inr ((store_entry ((own_entry payload n)\<lparr>ge_Attestations := [att]\<rparr>) (gn_log n))\<lparr>gl_nextHeight := gl_nextHeight (gn_log n) + 1\<rparr>))"
proof -
  have "verifyAttestation sha256 v ((own_entry payload n)\<lparr>ge_Attestations := as\<rparr>) att = verifyAttestation sha256 v (own_entry payload n) att" for v as
    by (cases v) (simp_all add: verifyAttestation_def)
  then show ?thesis
    by (simp add: gbc_Publish_def verifyEntryWith_def split: option.split)
qed

text \<open>The replicated log after a publication, and whether an error is returned.\<close>

lemma node_publish:
  assumes "publish_entry env payload (NodeSink n) = (s1, err)"
  shows "(err \<longleftrightarrow> publication_fails env payload (NodeSink n)) \<and>
    (if takes_checkpoint env payload (NodeSink n)
     then \<exists>l1 e1. sink_log s1 = Some l1 \<and> LatestByType EntryCheckpoint l1 = Some e1 \<and> ge_Payload e1 = payload
     else sink_log s1 = Some (gn_log n))"
proof -
  let ?sha = "sk_sha256 env" and ?e0 = "own_entry payload n"
  let ?att = "own_attestation ?sha n ?e0"
  let ?n1 = "gemit [signed_event (?e0\<lparr>ge_Attestations := [?att]\<rparr>)] n"
  have step: "propose ?sha ok EntryCheckpoint payload n = (if gn_MemberIDs n = [] then (n, Inl NoMembers)
      else if proposerForHeight n (gl_nextHeight (gn_log n)) \<noteq> gn_NodeID n then (n, Inl NotProposer)
      else (case gbc_Publish ?sha (?e0\<lparr>ge_Attestations := [?att]\<rparr>) (gn_log n) of
         Inl err \<Rightarrow> (?n1, Inl (LocalPublish err))
       | Inr l \<Rightarrow> (let pe = \<lparr> pe_entry = ?e0\<lparr>ge_Attestations := [?att]\<rparr>, pe_attestations = fmupd (gn_NodeID n) ?att fmempty \<rparr>;
             n2 = gemit [GbcBroadcast (gbc_msg GMsgPropose n (?e0\<lparr>ge_Attestations := [?att]\<rparr>))]
               (?n1\<lparr>gn_log := l, gn_pending := fmupd (gl_nextHeight (gn_log n)) pe (gn_pending ?n1)\<rparr>)
           in if \<not> ok then (n2, Inl BroadcastFailed)
              else (fst (checkAndCommit ?sha pe (gl_nextHeight (gn_log n)) n2), Inr (gl_nextHeight (gn_log n))))))" for ok
    by (simp add: propose_def own_entry_def Let_def gemit_def split: sum.split)
  have pub: "publish_entry env payload (NodeSink n) = (case propose ?sha (sk_broadcast_ok env) EntryCheckpoint payload n of
      (n1, r) \<Rightarrow> (NodeSink n1, (case r of Inl err \<Rightarrow> err \<noteq> NotProposer | Inr _ \<Rightarrow> False)))"
    by (simp add: publish_entry_def)
  show ?thesis
    using assms unfolding pub step own_attested
    by (auto simp: its_turn_def attestation_fits_def gemit_def commit_keeps_log LatestByType_def store_entry_def Let_def
        split: if_splits option.splits)
qed

lemma local_publish:
  assumes "publish_entry env payload (LocalSink (Some l) allowed) = (s1, err)"
  shows "\<not> err \<and> (if allowed then \<exists>l1 e1. sink_log s1 = Some l1 \<and> LatestByType EntryCheckpoint l1 = Some e1 \<and> ge_Payload e1 = payload
     else sink_log s1 = Some l)"
  using assms by (cases allowed)
    (auto simp: publish_entry_def gbc_Publish_def verifyEntryWith_def LatestByType_def store_entry_def)

lemma sink_publish:
  assumes "publish_entry env payload s = (s1, err)" and "sink_log s = Some l"
  shows "(err \<longleftrightarrow> publication_fails env payload s) \<and>
    (if takes_checkpoint env payload s
     then \<exists>l1 e1. sink_log s1 = Some l1 \<and> LatestByType EntryCheckpoint l1 = Some e1 \<and> ge_Payload e1 = payload
     else sink_log s1 = Some l)"
proof (cases s)
  case (LocalSink lp allowed)
  with assms local_publish [of env payload l allowed s1 err] show ?thesis by (cases allowed) simp_all
next
  case (NodeSink n)
  with assms node_publish [of env payload n s1 err] show ?thesis
    by (cases "takes_checkpoint env payload (NodeSink n)") (simp_all only: sink_log.simps option.inject if_True if_False)
qed

text \<open>
  C29: a checkpoint that a sink takes is the latest one.  After publishing the checkpoint of an output
  with a block, when its hash was the latest already nothing changed and the latest checkpoint
  decodes to one with that hash; when the sink takes it now (a local log that may be used; the
  replicated log in the turn of this node) the latest checkpoint validates against every field of the
  output; in all other cases, silently when it is the turn of another node, the log is as before.
  An error is returned exactly when the node has no members, its own attestation does not verify or
  the broadcast fails; the entry is recorded by the node alone until others attest it.
\<close>

theorem checkpoint_recorded:
  assumes "carries_block out" and "io_BlockHash out \<noteq> []" and "io_Block out = Some b" and "codec_ok env unmarshal (checkpoint_of out b)"
    and "sink_log s = Some l" and "case LatestByType EntryCheckpoint l of None \<Rightarrow> True
      | Some e \<Rightarrow> \<exists>ck. ge_Payload e = sk_marshal env ck \<and> codec_ok env unmarshal ck"
  shows "case publishOrderedCheckpoint env out s of (s1, err) \<Rightarrow>
     if already_latest env l out
     then s1 = s \<and> \<not> err \<and> (\<exists>ck. GetLatestCheckpoint unmarshal (sink_log s1) = Inr (Some ck) \<and> ck_BlockHashHex ck = hex_encode (io_BlockHash out))
     else (err \<longleftrightarrow> publication_fails env (sk_marshal env (checkpoint_of out b)) s) \<and>
       (if takes_checkpoint env (sk_marshal env (checkpoint_of out b)) s
        then ValidateLatestCheckpointAgainst unmarshal (sink_log s1) \<lparr> ck_InstanceID = io_InstanceID out, ck_LocalHeight = io_LocalHeight out,
          ck_Rank = io_Rank out, ck_Epoch = b_Epoch b, ck_IsNil = False, ck_TransitionCount = int (length (io_EpochTransitions out)),
          ck_BlockHashHex = hex_encode (io_BlockHash out) \<rparr> = None
        else sink_log s1 = Some l)"
proof (cases "already_latest env l out")
  case True
  then obtain e where e: "LatestByType EntryCheckpoint l = Some e" "sk_hash_field env (ge_Payload e) = Some (hex_encode (io_BlockHash out))"
    by (auto simp: already_latest_def split: option.splits)
  then obtain ck where ck: "ge_Payload e = sk_marshal env ck" "codec_ok env unmarshal ck" using assms(6) by auto
  then have hash: "ck_BlockHashHex ck = hex_encode (io_BlockHash out)" using e(2) by (simp add: codec_ok_def)
  with e ck assms(2) have "GetLatestCheckpoint unmarshal (Some l) = Inr (Some ck)"
    by (simp add: GetLatestCheckpoint_def codec_ok_def decodeCheckpointHash_def hash hex_decode_encode)
  with True assms(3,5) hash show ?thesis by (simp add: publishOrderedCheckpoint_def)
next
  case False
  let ?payload = "sk_marshal env (checkpoint_of out b)"
  obtain s1 err where pub: "publish_entry env ?payload s = (s1, err)" by fastforce
  have eq: "publishOrderedCheckpoint env out s = (s1, err)"
    using False assms(1,3,5) pub by (simp add: publishOrderedCheckpoint_def carries_block_def)
  have hash: "ck_BlockHashHex (checkpoint_of out b) = hex_encode (io_BlockHash out)" by (simp add: checkpoint_of_def)
  have "ValidateLatestCheckpointAgainst unmarshal (Some l1) (checkpoint_of out b) = None"
    if latest: "LatestByType EntryCheckpoint l1 = Some e1" "ge_Payload e1 = ?payload" for l1 e1
  proof -
    have "GetLatestCheckpoint unmarshal (Some l1) = Inr (Some (checkpoint_of out b))"
      using latest assms(2,4) by (simp add: GetLatestCheckpoint_def codec_ok_def decodeCheckpointHash_def hash hex_decode_encode)
    then show ?thesis
      using compare_self [OF hash assms(2)] by (simp add: ValidateLatestCheckpointAgainst_def)
  qed
  moreover have "checkpoint_of out b = \<lparr> ck_InstanceID = io_InstanceID out, ck_LocalHeight = io_LocalHeight out,
      ck_Rank = io_Rank out, ck_Epoch = b_Epoch b, ck_IsNil = False, ck_TransitionCount = int (length (io_EpochTransitions out)),
      ck_BlockHashHex = hex_encode (io_BlockHash out) \<rparr>"
    using assms(1) by (simp add: checkpoint_of_def carries_block_def)
  ultimately show ?thesis
    using False sink_publish [OF pub assms(5)] by (auto simp: eq split: if_splits)
qed

section \<open>What the proposals of the engines execute\<close>

text \<open>The blocks an engine can propose, in any state with any certificates its mempool hands over.\<close>

definition proposed_block :: "block \<Rightarrow> bool" where
  "proposed_block b \<longleftrightarrow> (\<exists>env eng certs data. nextBlockData env certs = Some data \<and> b = buildProposalBlock env eng certs data)"

lemma built_content [simp]:
  "b_Payload (buildProposalBlock env eng certs data) = certs" "b_Data (buildProposalBlock env eng certs data) = data"
  by (simp_all add: buildProposalBlock_def NewBlock_def Let_def)

lemma proposed_no_txs:
  assumes "proposed_block b" and "ex_resolver e = None"
  shows "block_txs env e b = Some []"
proof -
  obtain env1 eng certs data where b: "nextBlockData env1 certs = Some data" "b = buildProposalBlock env1 eng certs data"
    using assms(1) by (auto simp: proposed_block_def)
  then have "data = [] \<or> certs \<noteq> []" by (cases certs) (simp_all add: nextBlockData_def)
  with b assms(2) show ?thesis by (auto simp: block_txs_def)
qed

definition idle :: "executor \<Rightarrow> executor \<Rightarrow> bool" where
  "idle e e' \<longleftrightarrow> ex_valSet e' = ex_valSet e \<and> ex_pending e' = [] \<and> ex_totalTxs e' = ex_totalTxs e \<and> ex_resolver e' = None"

lemma idle_commit:
  assumes "commitReconfigsLocked env e b r = Success e' ts" and "ex_pending e = []" and "ex_resolver e = None"
  shows "idle e e' \<and> ts = []"
  using assms by (auto simp: commitReconfigsLocked_def clonePendingReconfigs_def idle_def split: if_splits option.splits)

lemma idle_apply:
  assumes "ApplyOrderedBlock env e (Some b) r = Success e' ts" and "ex_pending e = []" and "ex_resolver e = None" and "proposed_block b"
  shows "idle e e' \<and> ts = []"
proof -
  let ?e0 = "e\<lparr>ex_executed := finsert (b_Hash b) (ex_executed e)\<rparr>"
  have "executeBlockLocked env ?e0 b = Success (?e0\<lparr>ex_totalBlocks := ex_totalBlocks e + 1\<rparr>) ()"
    using proposed_no_txs [OF assms(4), of ?e0] assms(2,3) by (simp add: executeBlockLocked_def)
  with assms(1-3) idle_commit [of env e b r e' ts]
    idle_commit [of env "?e0\<lparr>ex_totalBlocks := ex_totalBlocks e + 1\<rparr>" b r e' ts] show ?thesis
    by (auto simp: ApplyOrderedBlock_def idle_def split: if_splits)
qed

text \<open>
  C36: the transactions of the vertices never take effect: the executor of the node has no resolver of
  vertices (\<open>main\<close> never sets one, only the executors inside the engines have one), so when every ordered
  block is one that an engine can propose, the whole ordered run executes no transaction and reports
  no epoch transition, and the validator set stays the first one.
\<close>

theorem proposals_execute_nothing:
  assumes "ordered_loop env sink outs (NewExecutor vs) s = Some (e', s', outs')"
    and "list_all (\<lambda>out. \<forall>b. io_Block out = Some b \<longrightarrow> proposed_block b) outs"
  shows "ex_valSet e' = vs \<and> ex_totalTxs e' = 0 \<and> ex_pending e' = [] \<and> outs' = outs"
proof -
  have "idle e e' \<and> outs' = outs"
    if "ordered_loop env sink outs e s = Some (e', s', outs')" and "ex_pending e = []" "ex_resolver e = None" for e
    using that assms(2)
  proof (induction outs arbitrary: e s outs')
    case Nil
    then show ?case by (simp add: idle_def)
  next
    case (Cons out outs)
    from Cons.prems(1) obtain e1 out1 rest where
      first: "applyOrderedOutput env out e = Success e1 out1" and
      more: "ordered_loop env sink outs e1 (fst (publishOrderedCheckpoint sink out1 s)) = Some (e', s', rest)" "outs' = out1 # rest"
      by (auto simp: retry_loop_ends_iff split: option.splits exec_result.splits)
    have "idle e e1 \<and> out1 = out"
    proof (cases "io_IsNil out \<or> io_Block out = None")
      case False
      with first Cons.prems(4) idle_apply [OF _ Cons.prems(2,3)] show ?thesis
        by (fastforce simp: applyOrderedOutput_def split: exec_result.splits)
    qed (use first Cons.prems(2,3) in \<open>simp add: applyOrderedOutput_def idle_def\<close>)
    moreover have "idle e1 e' \<and> rest = outs"
      using Cons.IH [OF more(1)] Cons.prems(4) calculation by (simp add: idle_def)
    ultimately show ?case using more(2) by (simp add: idle_def)
  qed
  from this [OF assms(1)] show ?thesis by (simp add: NewExecutor_def idle_def)
qed

section \<open>Examples\<close>

definition toy_certificate :: vertex_certificate where
  "toy_certificate = NewVertexCertificate [7] 0 1"

definition toy_proposal :: block where
  "toy_proposal = buildProposalBlock toy_env after_proposal [Some toy_certificate] (the (nextBlockData toy_env [Some toy_certificate]))"

definition toy_output :: instance_output where
  "toy_output = \<lparr> io_InstanceID = 0, io_LocalHeight = 1, io_Rank = 1, io_BlockHash = b_Hash toy_proposal, io_Block = Some toy_proposal,
     io_EpochTransitions = [], io_IsNil = False \<rparr>"

definition toy_sink :: sink_env where
  "toy_sink = \<lparr> sk_marshal = (\<lambda>ck. map of_char (ck_BlockHashHex ck)), sk_hash_field = (\<lambda>bs. Some (map (\<lambda>b. char_of (unat b)) bs)),
     sk_sha256 = id, sk_broadcast_ok = True \<rparr>"

lemma toy_proposal_facts: "proposed_block toy_proposal" "b_Hash toy_proposal \<noteq> []" "b_Payload toy_proposal \<noteq> []"
proof -
  have "nextBlockData toy_env [Some toy_certificate] \<noteq> None" by (simp add: nextBlockData_def)
  then show "proposed_block toy_proposal"
    unfolding proposed_block_def toy_proposal_def by (metis option.exhaust_sel)
  show "b_Payload toy_proposal \<noteq> []" by (simp add: toy_proposal_def)
  show "b_Hash toy_proposal \<noteq> []"
    by (simp add: toy_proposal_def buildProposalBlock_def Let_def ComputeHash_def toy_env_def)
qed

lemma toy_char [simp]: "map (\<lambda>b. char_of (unat b)) (map of_char s :: bytes) = (s :: string)"
proof -
  have "char_of (unat (of_char c :: u8)) = c" for c
  proof -
    have "(of_char c :: u8) = of_nat (of_char c)" by (simp only: of_nat_of_char)
    then show ?thesis by (simp only: unat_of_nat) simp
  qed
  then show ?thesis by (simp add: map_idI)
qed

definition toy_primary :: "u64 \<Rightarrow> gbc_node" where
  "toy_primary i = NewNode i [3, 1, 2] 3 (\<lambda>d. [1]) (\<lambda>j d sig. sig = [1])"

lemma toy_primaries: "its_turn (toy_primary 1)" "attestation_fits toy_sink p (toy_primary 1)" "\<not> its_turn (toy_primary 2)"
  "LatestByType EntryCheckpoint (gn_log (toy_primary i)) = None"
proof -
  show "its_turn (toy_primary 1)" "\<not> its_turn (toy_primary 2)" by code_simp+
  show "attestation_fits toy_sink p (toy_primary 1)"
    by (simp add: attestation_fits_def toy_primary_def NewNode_def verifyAttestation_def own_attestation_def SetVerifier_def Let_def)
  show "LatestByType EntryCheckpoint (gn_log (toy_primary i)) = None"
    by (simp add: LatestByType_def toy_primary_def NewNode_def SetVerifier_def NewLogWithMembers_def Let_def)
qed

theorem checkpoint_recorded_witness:
  "(case publishOrderedCheckpoint toy_sink toy_output (NodeSink (toy_primary 1)) of (s1, err) \<Rightarrow> \<not> err \<and>
      ValidateLatestCheckpointAgainst (\<lambda>_. Some (checkpoint_of toy_output toy_proposal)) (sink_log s1) (checkpoint_of toy_output toy_proposal) = None) \<and>
   (case publishOrderedCheckpoint toy_sink toy_output (NodeSink (toy_primary 2)) of (s1, err) \<Rightarrow> \<not> err \<and> sink_log s1 = Some (gn_log (toy_primary 2)))"
proof -
  have latest: "\<not> already_latest toy_sink (gn_log (toy_primary i)) toy_output" for i
    by (simp add: already_latest_def toy_primaries(4))
  have out: "carries_block toy_output" "io_BlockHash toy_output \<noteq> []" "io_Block toy_output = Some toy_proposal"
    using toy_proposal_facts by (simp_all add: toy_output_def carries_block_def)
  have codec: "codec_ok toy_sink (\<lambda>_. Some (checkpoint_of toy_output toy_proposal)) (checkpoint_of toy_output toy_proposal)"
    using toy_char by (simp add: codec_ok_def toy_sink_def)
  have fields: "checkpoint_of toy_output toy_proposal = \<lparr> ck_InstanceID = io_InstanceID toy_output, ck_LocalHeight = io_LocalHeight toy_output,
      ck_Rank = io_Rank toy_output, ck_Epoch = b_Epoch toy_proposal, ck_IsNil = False,
      ck_TransitionCount = int (length (io_EpochTransitions toy_output)), ck_BlockHashHex = hex_encode (io_BlockHash toy_output) \<rparr>"
    by (simp add: checkpoint_of_def toy_output_def)
  have net: "sk_broadcast_ok toy_sink" "gn_MemberIDs (toy_primary i) \<noteq> []" for i
    by (simp_all add: toy_sink_def toy_primary_def NewNode_def normalizeMemberIDs_def Let_def)
  have prior: "case LatestByType EntryCheckpoint (gn_log (toy_primary i)) of None \<Rightarrow> True
      | Some e \<Rightarrow> \<exists>ck. ge_Payload e = sk_marshal toy_sink ck \<and> codec_ok toy_sink (\<lambda>_. Some (checkpoint_of toy_output toy_proposal)) ck" for i
    by (simp add: toy_primaries(4))
  have log: "sink_log (NodeSink (toy_primary i)) = Some (gn_log (toy_primary i))" for i
    by simp
  note recorded = checkpoint_recorded [OF out codec log prior]
  from recorded [of 1] recorded [of 2] latest toy_primaries(1-3) net show ?thesis
    by (simp add: fields [symmetric] split: prod.splits)
qed

theorem proposals_execute_nothing_witness:
  "\<exists>e s. ordered_loop plain_env toy_sink [toy_output] (NewExecutor (Some (plain_set [1, 2, 3, 4]))) (LocalSink None False) =
     Some (e, s, [toy_output]) \<and> ex_totalBlocks e = 1 \<and> ex_totalTxs e = 0"
proof -
  let ?e = "NewExecutor (Some (plain_set [1, 2, 3, 4]))"
  have copy: "vs_Copy (plain_set [1, 2, 3, 4]) \<noteq> None" by code_simp
  have "\<exists>e s outs. ordered_loop plain_env toy_sink [toy_output] ?e (LocalSink None False) = Some (e, s, outs) \<and> ex_totalBlocks e = 1"
    using toy_proposal_facts copy
    by (auto simp: retry_loop_ends_iff applyOrderedOutput_def toy_output_def ApplyOrderedBlock_def executeBlockLocked_def block_txs_def
        NewExecutor_def commitReconfigsLocked_def clonePendingReconfigs_def publishOrderedCheckpoint_def)
  then obtain e s outs where run: "ordered_loop plain_env toy_sink [toy_output] ?e (LocalSink None False) = Some (e, s, outs)" "ex_totalBlocks e = 1"
    by blast
  from proposals_execute_nothing [OF run(1)] toy_proposal_facts(1) run show ?thesis
    by (simp add: toy_output_def)
qed

end
