(* ===== verification/Adaptive_Actions.thy ===== *)
theory Adaptive_Actions
  imports Go_Prelude Complex_Main
begin

text \<open>
  Actions of the adaptive layer and the two stages that bound them whatever the policy proposes
  (adaptive/types.go): governance, which freezes fields while the system is in trouble, and the
  guardrails, which clamp parameters.  Go's \<open>int\<close>s are far below their width here and modelled as
  integers.  A score is a finite 64-bit float, hence a rational number; \<open>validateScenarioContext\<close> keeps
  out the others.  Of the trust snapshots only the node identifiers are kept; measurements that only rewards read, and
  the parameter vector of an action, are left out.
\<close>

section \<open>Observations and actions\<close>

record agent_observation =
  ao_InstanceID :: u64
  ao_Epoch :: u64
  ao_ValidatorCount :: int
  ao_CommitteeSize :: int
  ao_PacemakerTimeoutMs :: int
  ao_MempoolMaxBatchTxs :: int
  ao_MempoolProposalIntervalMs :: int
  ao_FaultsEstimate :: int

record observation =
  ob_Epoch :: u64
  ob_ValidatorCount :: int
  ob_CurrentConfigID :: u64
  ob_HighestKnownConfigID :: u64
  ob_CommitteeSize :: int
  ob_PacemakerTimeoutMs :: int
  ob_MempoolMaxBatchTxs :: int
  ob_MempoolProposalIntervalMs :: int
  ob_ThroughputTPS :: rat
  ob_LatencyP95Ms :: rat
  ob_BacklogPending :: u64
  ob_BacklogMissing :: u64
  ob_RejectTotal :: u64
  ob_PendingJoins :: int
  ob_PendingLeaves :: int
  ob_CanParticipate :: bool
  ob_LocalValidator :: bool
  ob_ChurnRate :: rat
  ob_AdversaryScore :: rat
  ob_Agents :: "agent_observation list"
  ob_TrustNodeIDs :: "u64 list"

record agent_action =
  aa_InstanceID :: u64
  aa_CommitteeSize :: int
  aa_PacemakerTimeoutMs :: int
  aa_MempoolMaxBatchTxs :: int
  aa_MempoolProposalIntervalMs :: int
  aa_Reconfig :: "int list"
  aa_ReconfigEvictNodeIDs :: "u64 list"
  aa_ReconfigAdmitNodeIDs :: "u64 list"
  aa_RotateLeader :: bool

record action =
  ac_CommitteeSize :: int
  ac_PacemakerTimeoutMs :: int
  ac_MempoolMaxBatchTxs :: int
  ac_MempoolProposalIntervalMs :: int
  ac_SubmitJoin :: bool
  ac_SubmitLeave :: bool
  ac_HydraDiscoveryTarget :: int
  ac_Reason :: string
  ac_AgentActions :: "agent_action list"

definition noop_action :: "string \<Rightarrow> action" where
  "noop_action reason = \<lparr> ac_CommitteeSize = 0, ac_PacemakerTimeoutMs = 0, ac_MempoolMaxBatchTxs = 0, ac_MempoolProposalIntervalMs = 0,
     ac_SubmitJoin = False, ac_SubmitLeave = False, ac_HydraDiscoveryTarget = 0, ac_Reason = reason, ac_AgentActions = [] \<rparr>"

text \<open>A map built by a loop over the agents holds the last agent of each instance.\<close>

definition last_agent :: "observation \<Rightarrow> u64 \<Rightarrow> agent_observation option" where
  "last_agent obs i = find (\<lambda>a. ao_InstanceID a = i) (rev (ob_Agents obs))"

section \<open>Guardrails\<close>

record guardrails =
  gr_MinPacemakerTimeoutMs :: int
  gr_MaxPacemakerTimeoutMs :: int
  gr_MinMempoolBatchTxs :: int
  gr_MaxMempoolBatchTxs :: int
  gr_MinProposalIntervalMs :: int
  gr_MaxProposalIntervalMs :: int
  gr_MinCommitteeSize :: int

definition DefaultGuardrails :: guardrails where
  "DefaultGuardrails = \<lparr> gr_MinPacemakerTimeoutMs = 250, gr_MaxPacemakerTimeoutMs = 5000, gr_MinMempoolBatchTxs = 1,
     gr_MaxMempoolBatchTxs = 8192, gr_MinProposalIntervalMs = 10, gr_MaxProposalIntervalMs = 2000, gr_MinCommitteeSize = 4 \<rparr>"

definition clampInt :: "int \<Rightarrow> int \<Rightarrow> int \<Rightarrow> int" where
  "clampInt v minV maxV = (if v < minV then minV else if maxV < v then maxV else v)"

text \<open>No committee stays none; a known number of validators bounds the others from above.\<close>

definition clamp_committee :: "guardrails \<Rightarrow> int option \<Rightarrow> int \<Rightarrow> int" where
  "clamp_committee g validators n = (if n \<le> 0 then 0
     else let m = (if n < gr_MinCommitteeSize g then gr_MinCommitteeSize g else n)
       in case validators of None \<Rightarrow> m | Some v \<Rightarrow> if 0 < v \<and> v < m then v else m)"

definition sanitize_agent :: "guardrails \<Rightarrow> observation \<Rightarrow> agent_action \<Rightarrow> agent_action" where
  "sanitize_agent g obs a = a\<lparr>
     aa_CommitteeSize := clamp_committee g (map_option ao_ValidatorCount (last_agent obs (aa_InstanceID a))) (aa_CommitteeSize a),
     aa_PacemakerTimeoutMs := clampInt (aa_PacemakerTimeoutMs a) (gr_MinPacemakerTimeoutMs g) (gr_MaxPacemakerTimeoutMs g),
     aa_MempoolMaxBatchTxs := clampInt (aa_MempoolMaxBatchTxs a) (gr_MinMempoolBatchTxs g) (gr_MaxMempoolBatchTxs g),
     aa_MempoolProposalIntervalMs := clampInt (aa_MempoolProposalIntervalMs a) (gr_MinProposalIntervalMs g) (gr_MaxProposalIntervalMs g) \<rparr>"

text \<open>Joining and leaving at once is neither; a member does not join, and only a member of more than three leaves.\<close>

definition Guardrails_Sanitize :: "guardrails \<Rightarrow> observation \<Rightarrow> action \<Rightarrow> action" where
  "Guardrails_Sanitize g obs raw =
     (let both = ac_SubmitJoin raw \<and> ac_SubmitLeave raw
      in raw\<lparr> ac_CommitteeSize := clamp_committee g (Some (ob_ValidatorCount obs)) (ac_CommitteeSize raw),
           ac_PacemakerTimeoutMs := clampInt (ac_PacemakerTimeoutMs raw) (gr_MinPacemakerTimeoutMs g) (gr_MaxPacemakerTimeoutMs g),
           ac_MempoolMaxBatchTxs := clampInt (ac_MempoolMaxBatchTxs raw) (gr_MinMempoolBatchTxs g) (gr_MaxMempoolBatchTxs g),
           ac_MempoolProposalIntervalMs := clampInt (ac_MempoolProposalIntervalMs raw) (gr_MinProposalIntervalMs g) (gr_MaxProposalIntervalMs g),
           ac_SubmitJoin := (ac_SubmitJoin raw \<and> \<not> both \<and> \<not> ob_LocalValidator obs),
           ac_SubmitLeave := (ac_SubmitLeave raw \<and> \<not> both \<and> ob_LocalValidator obs \<and> 3 < ob_ValidatorCount obs),
           ac_HydraDiscoveryTarget := (if ac_HydraDiscoveryTarget raw < 0 then 0 else ac_HydraDiscoveryTarget raw),
           ac_AgentActions := map (sanitize_agent g obs) (ac_AgentActions raw) \<rparr>)"

section \<open>Governance\<close>

record governance_decision =
  gd_EscalationLevel :: string
  gd_FreezeMembership :: bool
  gd_FreezeLaneTuning :: bool
  gd_BlockedFields :: "string list"
  gd_Notes :: "string list"

text \<open>The doubles nearest to 0.7, 0.3 and 0.4.\<close>

definition f64_0_7 :: rat where "f64_0_7 = 3152519739159347 / 4503599627370496"
definition f64_0_3 :: rat where "f64_0_3 = 5404319552844595 / 18014398509481984"
definition f64_0_4 :: rat where "f64_0_4 = 3602879701896397 / 9007199254740992"

definition escalation :: "observation \<Rightarrow> string" where
  "escalation obs = (if 10 < ob_RejectTotal obs \<or> 10 < ob_BacklogMissing obs \<or> f64_0_7 \<le> ob_AdversaryScore obs then ''critical''
     else if 0 < ob_RejectTotal obs \<or> 0 < ob_BacklogMissing obs \<or> f64_0_3 \<le> ob_AdversaryScore obs \<or> f64_0_4 \<le> ob_ChurnRate obs
     then ''elevated'' else ''nominal'')"

definition Evaluate :: "observation \<Rightarrow> governance_decision" where
  "Evaluate obs =
     (let level = escalation obs;
          lane = (level = ''critical'' \<or> 0 < ob_BacklogMissing obs);
          membership = (level = ''elevated'' \<or> level = ''critical'' \<or> 0 < ob_PendingJoins obs \<or> 0 < ob_PendingLeaves obs)
      in \<lparr> gd_EscalationLevel = level, gd_FreezeMembership = membership, gd_FreezeLaneTuning = lane,
           gd_BlockedFields = (if membership then [''submit_join'', ''submit_leave'', ''agent_reconfig''] else []) @
             (if level = ''critical'' then [''committee_size'', ''pacemaker_timeout_ms'', ''mempool_max_batch_txs'', ''mempool_proposal_interval_ms''] else []) @
             (if \<not> ob_CanParticipate obs then [''submit_leave''] else []),
           gd_Notes = (if lane then [''lane-tuning-frozen''] else []) @ (if membership then [''membership-frozen''] else []) \<rparr>)"

definition no_reconfig :: "agent_action \<Rightarrow> agent_action" where
  "no_reconfig a = a\<lparr> aa_Reconfig := [], aa_ReconfigEvictNodeIDs := [], aa_ReconfigAdmitNodeIDs := [] \<rparr>"

text \<open>The parameters an agent has now; the ones of the node for an instance that is not observed.\<close>

definition tuning_of :: "agent_observation \<Rightarrow> agent_action \<Rightarrow> agent_action" where
  "tuning_of o1 a = a\<lparr> aa_CommitteeSize := ao_CommitteeSize o1, aa_PacemakerTimeoutMs := ao_PacemakerTimeoutMs o1,
     aa_MempoolMaxBatchTxs := ao_MempoolMaxBatchTxs o1, aa_MempoolProposalIntervalMs := ao_MempoolProposalIntervalMs o1 \<rparr>"

definition frozen_tuning :: "observation \<Rightarrow> agent_action \<Rightarrow> agent_action" where
  "frozen_tuning obs a = (case last_agent obs (aa_InstanceID a) of Some o1 \<Rightarrow> tuning_of o1 a
     | None \<Rightarrow> a\<lparr> aa_CommitteeSize := ob_CommitteeSize obs, aa_PacemakerTimeoutMs := ob_PacemakerTimeoutMs obs,
         aa_MempoolMaxBatchTxs := ob_MempoolMaxBatchTxs obs, aa_MempoolProposalIntervalMs := ob_MempoolProposalIntervalMs obs \<rparr>)"

fun join_notes :: "string list \<Rightarrow> string" where
  "join_notes [] = []"
| "join_notes [n] = n"
| "join_notes (n # ns) = n @ '';'' @ join_notes ns"

definition governed_reason :: "string list \<Rightarrow> string \<Rightarrow> string" where
  "governed_reason notes reason = (if notes = [] then reason
     else let note = ''governance:'' @ join_notes notes in if reason \<noteq> [] then reason @ '' '' @ note else note)"

definition Governance_Sanitize :: "observation \<Rightarrow> action \<Rightarrow> action \<times> governance_decision" where
  "Governance_Sanitize obs raw =
     (let d = Evaluate obs; blocked = (\<lambda>f. f \<in> set (gd_BlockedFields d));
          agents1 = (if gd_FreezeMembership d then map no_reconfig (ac_AgentActions raw) else ac_AgentActions raw);
          agents2 = (if gd_FreezeLaneTuning d then map (frozen_tuning obs) agents1 else agents1)
      in (raw\<lparr> ac_CommitteeSize := (if blocked ''committee_size'' then ob_CommitteeSize obs else ac_CommitteeSize raw),
             ac_PacemakerTimeoutMs := (if blocked ''pacemaker_timeout_ms'' then ob_PacemakerTimeoutMs obs else ac_PacemakerTimeoutMs raw),
             ac_MempoolMaxBatchTxs := (if blocked ''mempool_max_batch_txs'' then ob_MempoolMaxBatchTxs obs else ac_MempoolMaxBatchTxs raw),
             ac_MempoolProposalIntervalMs := (if blocked ''mempool_proposal_interval_ms'' then ob_MempoolProposalIntervalMs obs
               else ac_MempoolProposalIntervalMs raw),
             ac_SubmitJoin := (ac_SubmitJoin raw \<and> \<not> blocked ''submit_join''),
             ac_SubmitLeave := (ac_SubmitLeave raw \<and> \<not> blocked ''submit_leave''),
             ac_AgentActions := agents2, ac_Reason := governed_reason (gd_Notes d) (ac_Reason raw) \<rparr>, d))"

section \<open>What the guardrails guarantee\<close>

definition guardrails_ok :: "guardrails \<Rightarrow> bool" where
  "guardrails_ok g \<longleftrightarrow> gr_MinPacemakerTimeoutMs g \<le> gr_MaxPacemakerTimeoutMs g \<and> gr_MinMempoolBatchTxs g \<le> gr_MaxMempoolBatchTxs g \<and>
     gr_MinProposalIntervalMs g \<le> gr_MaxProposalIntervalMs g"

text \<open>
  A committee is none, or at least the smallest size and at most the number of validators observed;
  when there are fewer validators than the smallest size it is all of them.
\<close>

definition committee_ok :: "guardrails \<Rightarrow> int option \<Rightarrow> int \<Rightarrow> bool" where
  "committee_ok g validators n \<longleftrightarrow> n = 0 \<or> 0 < n \<and>
     (case validators of None \<Rightarrow> gr_MinCommitteeSize g \<le> n
      | Some v \<Rightarrow> (0 < v \<longrightarrow> n \<le> v) \<and> (gr_MinCommitteeSize g \<le> n \<or> n = v))"

definition in_bounds :: "guardrails \<Rightarrow> observation \<Rightarrow> action \<Rightarrow> bool" where
  "in_bounds g obs a \<longleftrightarrow> committee_ok g (Some (ob_ValidatorCount obs)) (ac_CommitteeSize a) \<and>
     gr_MinPacemakerTimeoutMs g \<le> ac_PacemakerTimeoutMs a \<and> ac_PacemakerTimeoutMs a \<le> gr_MaxPacemakerTimeoutMs g \<and>
     gr_MinMempoolBatchTxs g \<le> ac_MempoolMaxBatchTxs a \<and> ac_MempoolMaxBatchTxs a \<le> gr_MaxMempoolBatchTxs g \<and>
     gr_MinProposalIntervalMs g \<le> ac_MempoolProposalIntervalMs a \<and> ac_MempoolProposalIntervalMs a \<le> gr_MaxProposalIntervalMs g \<and>
     0 \<le> ac_HydraDiscoveryTarget a \<and> \<not> (ac_SubmitJoin a \<and> ac_SubmitLeave a)"

lemma clampInt_bounds: "lo \<le> hi \<Longrightarrow> lo \<le> clampInt v lo hi \<and> clampInt v lo hi \<le> hi"
  by (simp add: clampInt_def)

lemma clamp_committee_ok: "committee_ok g validators (clamp_committee g validators n)"
  by (auto simp: clamp_committee_def committee_ok_def Let_def split: option.splits)

lemma sanitized_in_bounds:
  assumes "guardrails_ok g"
  shows "in_bounds g obs (Guardrails_Sanitize g obs a)"
  using assms clampInt_bounds clamp_committee_ok
  by (auto simp: in_bounds_def guardrails_ok_def Guardrails_Sanitize_def Let_def)

lemma default_guardrails_ok: "guardrails_ok DefaultGuardrails" "0 \<le> gr_MinCommitteeSize DefaultGuardrails"
  by (simp_all add: guardrails_ok_def DefaultGuardrails_def)

end
