(* ===== verification/Adaptive_Safety.thy ===== *)
theory Adaptive_Safety
  imports Adaptive_Actions
begin

text \<open>
  The safety filter of the adaptive layer (adaptive/safety.go): the bound \<open>n \<ge> 3 f + 1 + \<delta>\<close> for every
  instance, the joint margin \<open>\<Phi>\<close>, and the mask that takes reconfigurations out of an action.  The margins that
  only the reward uses are left out.
\<close>

section \<open>States of instances\<close>

record safety_filter =
  sf_DeltaS :: int
  sf_GlobalBudgetMin :: int

definition DefaultSafetyFilter :: safety_filter where
  "DefaultSafetyFilter = \<lparr> sf_DeltaS = 1, sf_GlobalBudgetMin = 4 \<rparr>"

record instance_state =
  is_InstanceID :: u64
  is_ValidatorCount :: int
  is_CommitteeSize :: int
  is_PendingEvicts :: int
  is_PendingAdmits :: int
  is_FaultsEstimate :: int

definition n_after :: "instance_state \<Rightarrow> int" where
  "n_after s = is_ValidatorCount s - is_PendingEvicts s + is_PendingAdmits s"

definition faults_of :: "instance_state \<Rightarrow> int" where
  "faults_of s = (if is_FaultsEstimate s < 1 then 1 else is_FaultsEstimate s)"

definition BFTQuorumThreshold :: "int \<Rightarrow> int" where
  "BFTQuorumThreshold targetFaults = 3 * targetFaults + 1"

definition MinValidatorsForSafety :: "int \<Rightarrow> int \<Rightarrow> int" where
  "MinValidatorsForSafety currentValidators deltaS = (if currentValidators \<le> 4 + deltaS then currentValidators else 4 + deltaS)"

text \<open>The joint margin: the smallest over the beacon chain and the instances.\<close>

definition phi_margin :: "instance_state \<Rightarrow> int" where
  "phi_margin s = n_after s - 3 * is_FaultsEstimate s - 1"

definition ComputePhi :: "instance_state list \<Rightarrow> int \<Rightarrow> int \<Rightarrow> int" where
  "ComputePhi instances gbcMembers gbcFaults =
     fold (\<lambda>s phi. if phi_margin s < phi then phi_margin s else phi) instances (gbcMembers - 3 * gbcFaults - 1)"

definition CheckQuorumInvariant :: "safety_filter \<Rightarrow> instance_state \<Rightarrow> bool" where
  "CheckQuorumInvariant sf s \<longleftrightarrow> (is_PendingEvicts s = 0 \<and> is_PendingAdmits s = 0) \<or>
     (1 \<le> n_after s \<and> 3 * faults_of s + 1 + sf_DeltaS sf \<le> n_after s)"

fun coupled_from :: "safety_filter \<Rightarrow> instance_state list \<Rightarrow> int \<Rightarrow> bool" where
  "coupled_from sf [] tot \<longleftrightarrow> sf_GlobalBudgetMin sf \<le> tot"
| "coupled_from sf (s # ss) tot \<longleftrightarrow>
     \<not> (0 < is_PendingEvicts s \<and> n_after s < 3 * faults_of s + 1 + sf_DeltaS sf) \<and> coupled_from sf ss (tot + n_after s)"

definition CheckCoupledConstraint :: "safety_filter \<Rightarrow> instance_state list \<Rightarrow> bool" where
  "CheckCoupledConstraint sf instances = coupled_from sf instances 0"

section \<open>The mask\<close>

definition reconfigCounts :: "agent_action \<Rightarrow> int \<times> int" where
  "reconfigCounts a = (if aa_ReconfigEvictNodeIDs a \<noteq> [] \<or> aa_ReconfigAdmitNodeIDs a \<noteq> []
     then (int (length (aa_ReconfigEvictNodeIDs a)), int (length (aa_ReconfigAdmitNodeIDs a)))
     else (int (length (filter (\<lambda>d. d < 0) (aa_Reconfig a))), int (length (filter (\<lambda>d. 0 < d) (aa_Reconfig a)))))"

text \<open>A map built by a loop over the agent actions holds the last one of each instance.\<close>

definition last_action :: "agent_action list \<Rightarrow> u64 \<Rightarrow> agent_action option" where
  "last_action as i = find (\<lambda>a. aa_InstanceID a = i) (rev as)"

definition instance_of :: "agent_action list \<Rightarrow> agent_observation \<Rightarrow> instance_state" where
  "instance_of as o1 = (case (case last_action as (ao_InstanceID o1) of None \<Rightarrow> (0, 0) | Some a \<Rightarrow> reconfigCounts a) of
     (evicts, admits) \<Rightarrow> \<lparr> is_InstanceID = ao_InstanceID o1, is_ValidatorCount = ao_ValidatorCount o1,
       is_CommitteeSize = ao_CommitteeSize o1, is_PendingEvicts = evicts, is_PendingAdmits = admits,
       is_FaultsEstimate = ao_FaultsEstimate o1 \<rparr>)"

definition buildInstanceStates :: "observation \<Rightarrow> action \<Rightarrow> instance_state list" where
  "buildInstanceStates obs a = (if ob_Agents obs = []
     then [\<lparr> is_InstanceID = 0, is_ValidatorCount = ob_ValidatorCount obs, is_CommitteeSize = ob_CommitteeSize obs,
        is_PendingEvicts = (if ac_SubmitLeave a then 1 else 0), is_PendingAdmits = (if ac_SubmitJoin a then 1 else 0),
        is_FaultsEstimate = 0 \<rparr>]
     else map (instance_of (ac_AgentActions a)) (ob_Agents obs))"

text \<open>Phase 1: the instances that violate the bound lose their evictions.\<close>

definition block_evicts :: "instance_state \<Rightarrow> instance_state" where
  "block_evicts s = s\<lparr>is_PendingEvicts := 0\<rparr>"

definition mask_phase1 :: "safety_filter \<Rightarrow> instance_state list \<Rightarrow> instance_state list \<times> u64 list" where
  "mask_phase1 sf ss = (map (\<lambda>s. if CheckQuorumInvariant sf s then s else block_evicts s) ss,
     map is_InstanceID (filter (\<lambda>s. \<not> CheckQuorumInvariant sf s) ss))"

text \<open>Phase 2: if the instances do not fit together, every eviction is taken out.\<close>

definition mask_phase2 :: "safety_filter \<Rightarrow> instance_state list \<Rightarrow> u64 list \<Rightarrow> u64 list" where
  "mask_phase2 sf ss ids = (if CheckCoupledConstraint sf ss then ids
     else fold (\<lambda>s ids. if 0 < is_PendingEvicts s \<and> is_InstanceID s \<notin> set ids then ids @ [is_InstanceID s] else ids) ss ids)"

text \<open>Phase 3: the agent actions of masked instances keep the configuration of the first agent with that instance.\<close>

definition mask_agent :: "observation \<Rightarrow> u64 list \<Rightarrow> agent_action \<Rightarrow> agent_action" where
  "mask_agent obs ids a = (if aa_InstanceID a \<notin> set ids then a
     else case find (\<lambda>o1. ao_InstanceID o1 = aa_InstanceID a) (ob_Agents obs) of
       None \<Rightarrow> no_reconfig a | Some o1 \<Rightarrow> tuning_of o1 (no_reconfig a))"

definition MaskUnsafeAction :: "safety_filter \<Rightarrow> observation \<Rightarrow> action \<Rightarrow> action \<times> u64 list \<times> bool" where
  "MaskUnsafeAction sf obs a =
     (let (ss, ids1) = mask_phase1 sf (buildInstanceStates obs a); ids = mask_phase2 sf ss ids1
      in if ids = [] then (a, [], False)
         else (a\<lparr> ac_SubmitLeave := False, ac_AgentActions := map (mask_agent obs ids) (ac_AgentActions a) \<rparr>, ids, True))"

section \<open>Margins\<close>

lemma phi_fold_le:
  "c \<le> fold (\<lambda>s phi. if phi_margin s < phi then phi_margin s else phi) ss phi \<longleftrightarrow> c \<le> phi \<and> (\<forall>s \<in> set ss. c \<le> phi_margin s)"
  by (induction ss arbitrary: phi) auto

text \<open>The joint margin is the greatest lower bound of the margins.\<close>

lemma le_ComputePhi:
  "c \<le> ComputePhi ss m f \<longleftrightarrow> c \<le> m - 3 * f - 1 \<and> (\<forall>s \<in> set ss. c \<le> phi_margin s)"
  unfolding ComputePhi_def by (rule phi_fold_le)

lemma phi_le_margin: "s \<in> set ss \<Longrightarrow> ComputePhi ss m f \<le> phi_margin s"
  using le_ComputePhi [of "ComputePhi ss m f" ss m f] by simp

lemma faults_of_ge: "is_FaultsEstimate s \<le> faults_of s"
  by (simp add: faults_of_def)

lemma check_fewer_evicts:
  assumes "CheckQuorumInvariant sf s" and "n \<le> is_PendingEvicts s" and "0 \<le> n"
  shows "CheckQuorumInvariant sf (s\<lparr>is_PendingEvicts := n\<rparr>)"
  using assms by (auto simp: CheckQuorumInvariant_def n_after_def faults_of_def)

section \<open>What the mask leaves\<close>

lemma find_map_same:
  assumes "\<And>x. P (f x) = P x"
  shows "find P (map f xs) = map_option f (find P xs)"
  by (induction xs) (simp_all add: assms)

lemma mask_agent_id [simp]: "aa_InstanceID (mask_agent obs ids a) = aa_InstanceID a"
  by (simp add: mask_agent_def no_reconfig_def tuning_of_def split: option.splits)

lemma find_member: "find P xs = Some x \<Longrightarrow> x \<in> set xs \<and> P x"
  by (induction xs) (auto split: if_splits)

lemma last_action_masked: "last_action (map (mask_agent obs ids) as) i = map_option (mask_agent obs ids) (last_action as i)"
  by (simp add: last_action_def rev_map find_map_same)

lemma counts_masked: "reconfigCounts (mask_agent obs ids a) = (if aa_InstanceID a \<in> set ids then (0, 0) else reconfigCounts a)"
  by (simp add: mask_agent_def reconfigCounts_def no_reconfig_def tuning_of_def split: option.splits)

lemma last_action_Some: "last_action as i = Some a \<Longrightarrow> a \<in> set as \<and> aa_InstanceID a = i"
  using find_member [of _ "rev as"] by (auto simp: last_action_def)

lemma reconfigCounts_nonneg: "reconfigCounts a = (e, n) \<Longrightarrow> 0 \<le> e \<and> 0 \<le> n"
  by (auto simp: reconfigCounts_def split: if_splits)

definition unchanged :: "instance_state \<Rightarrow> instance_state" where
  "unchanged s = s\<lparr>is_PendingEvicts := 0, is_PendingAdmits := 0\<rparr>"

lemma instance_of_masked:
  "instance_of (map (mask_agent obs ids) as) o1 = (if ao_InstanceID o1 \<in> set ids then unchanged (instance_of as o1) else instance_of as o1)"
  by (auto simp: instance_of_def last_action_masked counts_masked unchanged_def dest!: last_action_Some split: option.splits prod.splits)

lemma instance_of_fields [simp]:
  "is_InstanceID (instance_of as o1) = ao_InstanceID o1" "is_ValidatorCount (instance_of as o1) = ao_ValidatorCount o1"
  "is_FaultsEstimate (instance_of as o1) = ao_FaultsEstimate o1"
  by (simp_all add: instance_of_def split: prod.splits)

lemma instance_of_nonneg: "0 \<le> is_PendingEvicts (instance_of as o1) \<and> 0 \<le> is_PendingAdmits (instance_of as o1)"
  by (auto simp: instance_of_def dest: reconfigCounts_nonneg split: option.splits prod.splits)

lemma phase2_superset: "set ids \<subseteq> set (mask_phase2 sf ss ids)"
proof -
  have "set ids \<subseteq> set (fold (\<lambda>s ids. if 0 < is_PendingEvicts s \<and> is_InstanceID s \<notin> set ids then ids @ [is_InstanceID s] else ids) ss ids)"
    by (induction ss arbitrary: ids) (auto, fastforce)
  then show ?thesis by (simp add: mask_phase2_def)
qed

lemma masked_states:
  assumes "MaskUnsafeAction sf obs a = (a', ids, m)" and "s \<in> set (buildInstanceStates obs a')"
  shows "\<exists>s0 \<in> set (buildInstanceStates obs a). is_ValidatorCount s = is_ValidatorCount s0 \<and> is_FaultsEstimate s = is_FaultsEstimate s0 \<and>
    0 \<le> is_PendingAdmits s \<and> (is_PendingEvicts s = 0 \<or> s = s0 \<and> CheckQuorumInvariant sf s0)"
proof -
  let ?ss = "buildInstanceStates obs a" and ?bad = "\<lambda>s. \<not> CheckQuorumInvariant sf s"
  obtain ss1 where r: "mask_phase1 sf ?ss = (ss1, map is_InstanceID (filter ?bad ?ss))"
    by (simp add: mask_phase1_def)
  then have ids: "ids = mask_phase2 sf ss1 (map is_InstanceID (filter ?bad ?ss))" and
      a': "a' = (if ids = [] then a else a\<lparr> ac_SubmitLeave := False, ac_AgentActions := map (mask_agent obs ids) (ac_AgentActions a) \<rparr>)"
    using assms(1) by (auto simp: MaskUnsafeAction_def Let_def split: if_splits)
  have checked: "CheckQuorumInvariant sf s0" if "s0 \<in> set ?ss" "is_InstanceID s0 \<notin> set ids" for s0
    using that phase2_superset [of "map is_InstanceID (filter ?bad ?ss)" sf ss1] by (auto simp: ids)
  show ?thesis
  proof (cases "ob_Agents obs = []")
    case True
    with assms(2) have s: "s = hd (buildInstanceStates obs a')" by (simp add: buildInstanceStates_def)
    have "hd ?ss \<in> set ?ss" using True by (simp add: buildInstanceStates_def)
    with checked [of "hd ?ss"] True show ?thesis
      by (cases "ids = []") (simp_all add: s a' buildInstanceStates_def)
  next
    case False
    then obtain o1 where o1: "o1 \<in> set (ob_Agents obs)" "s = instance_of (ac_AgentActions a') o1"
      using assms(2) by (auto simp: buildInstanceStates_def)
    let ?s0 = "instance_of (ac_AgentActions a) o1"
    have s0: "?s0 \<in> set ?ss" using False o1(1) by (simp add: buildInstanceStates_def)
    have s: "s = (if ao_InstanceID o1 \<in> set ids then unchanged ?s0 else ?s0)"
      using o1(2) instance_of_masked by (simp add: a')
    show ?thesis
      using checked [OF s0] instance_of_nonneg [of "ac_AgentActions a" o1]
      by (intro bexI [OF _ s0]) (auto simp: s unchanged_def)
  qed
qed

lemma last_action_unique:
  assumes "distinct (map aa_InstanceID as)" and "a \<in> set as"
  shows "last_action as (aa_InstanceID a) = Some a"
proof -
  have "find (\<lambda>x. aa_InstanceID x = aa_InstanceID a) xs = Some a" if "distinct (map aa_InstanceID xs)" "a \<in> set xs" for xs
    using that by (induction xs) (auto simp: image_iff)
  with assms show ?thesis by (simp add: last_action_def rev_map [symmetric])
qed

section \<open>Properties\<close>


text \<open>
  The filter reads one entry per instance, the last, and not the node's own wish to leave: an action
  that passes it still passes with any entries put in front for the same instances, whatever they evict,
  and with a request to leave.
\<close>

theorem earlier_entries_unchecked:
  assumes "ob_Agents obs \<noteq> []" and "MaskUnsafeAction sf obs a = (a, [], False)"
    and "aa_InstanceID ` set pre \<subseteq> aa_InstanceID ` set (ac_AgentActions a)"
  shows "MaskUnsafeAction sf obs (a\<lparr>ac_AgentActions := pre @ ac_AgentActions a, ac_SubmitLeave := leave\<rparr>) =
    (a\<lparr>ac_AgentActions := pre @ ac_AgentActions a, ac_SubmitLeave := leave\<rparr>, [], False)"
proof -
  have "last_action (pre @ ac_AgentActions a) i = last_action (ac_AgentActions a) i" for i
  proof -
    have "find P (ys @ zs) = (case find P ys of None \<Rightarrow> find P zs | Some y \<Rightarrow> Some y)" for P :: "agent_action \<Rightarrow> bool" and ys zs
      by (induction ys) auto
    then have both: "last_action (pre @ ac_AgentActions a) i =
        (case last_action (ac_AgentActions a) i of None \<Rightarrow> last_action pre i | Some y \<Rightarrow> Some y)"
      by (simp add: last_action_def split: option.splits)
    show ?thesis
    proof (cases "last_action (ac_AgentActions a) i")
      case None
      then have "i \<notin> aa_InstanceID ` set (ac_AgentActions a)"
        by (auto simp: last_action_def find_None_iff)
      with assms(3) have "last_action pre i = None"
        by (auto simp: last_action_def find_None_iff)
      with both None show ?thesis by simp
    qed (simp add: both)
  qed
  then have "instance_of (pre @ ac_AgentActions a) o1 = instance_of (ac_AgentActions a) o1" for o1
    by (simp add: instance_of_def)
  then have "buildInstanceStates obs (a\<lparr>ac_AgentActions := pre @ ac_AgentActions a, ac_SubmitLeave := leave\<rparr>) = buildInstanceStates obs a"
    using assms(1) by (simp add: buildInstanceStates_def)
  with assms(2) show ?thesis
    by (auto simp: MaskUnsafeAction_def Let_def split: if_splits prod.splits)
qed

section \<open>Examples\<close>

text \<open>Two instances with seven and five validators; one member of the first is suspected.\<close>

definition as_agent :: "u64 \<Rightarrow> int \<Rightarrow> agent_observation" where
  "as_agent i n = \<lparr> ao_InstanceID = i, ao_Epoch = 1, ao_ValidatorCount = n, ao_CommitteeSize = 4, ao_PacemakerTimeoutMs = 500,
     ao_MempoolMaxBatchTxs = 100, ao_MempoolProposalIntervalMs = 50, ao_FaultsEstimate = 1 \<rparr>"

definition as_obs :: observation where
  "as_obs = \<lparr> ob_Epoch = 1, ob_ValidatorCount = 7, ob_CurrentConfigID = 1, ob_HighestKnownConfigID = 1, ob_CommitteeSize = 4, ob_PacemakerTimeoutMs = 500, ob_MempoolMaxBatchTxs = 100,
     ob_MempoolProposalIntervalMs = 50, ob_ThroughputTPS = 0, ob_LatencyP95Ms = 0, ob_BacklogPending = 0, ob_BacklogMissing = 0, ob_RejectTotal = 0, ob_PendingJoins = 0, ob_PendingLeaves = 0,
     ob_CanParticipate = True, ob_LocalValidator = True, ob_ChurnRate = 0, ob_AdversaryScore = 0, ob_Agents = [as_agent 0 7, as_agent 1 5],
     ob_TrustNodeIDs = [] \<rparr>"

definition as_evict :: "u64 \<Rightarrow> u64 list \<Rightarrow> agent_action" where
  "as_evict i out = \<lparr> aa_InstanceID = i, aa_CommitteeSize = 4, aa_PacemakerTimeoutMs = 900, aa_MempoolMaxBatchTxs = 100,
     aa_MempoolProposalIntervalMs = 50, aa_Reconfig = [], aa_ReconfigEvictNodeIDs = out, aa_ReconfigAdmitNodeIDs = [], aa_RotateLeader = False \<rparr>"

definition as_action :: "agent_action list \<Rightarrow> action" where
  "as_action as = (noop_action [])\<lparr>ac_AgentActions := as\<rparr>"

lemma as_masked:
  "MaskUnsafeAction DefaultSafetyFilter as_obs (as_action [as_evict 0 [3, 4], as_evict 1 [5]]) =
    (as_action [as_evict 0 [3, 4], (as_evict 1 [])\<lparr>aa_PacemakerTimeoutMs := 500\<rparr>], [1], True)"
  by code_simp


text \<open>Seven of seven members are evicted by an entry that the filter never reads.\<close>

theorem earlier_entries_unchecked_witness:
  "MaskUnsafeAction DefaultSafetyFilter as_obs ((as_action [as_evict 0 []])\<lparr>ac_AgentActions := [as_evict 0 [1, 2, 3, 4, 5, 6, 7], as_evict 0 []], ac_SubmitLeave := True\<rparr>) =
    ((as_action [as_evict 0 []])\<lparr>ac_AgentActions := [as_evict 0 [1, 2, 3, 4, 5, 6, 7], as_evict 0 []], ac_SubmitLeave := True\<rparr>, [], False)"
proof -
  have "MaskUnsafeAction DefaultSafetyFilter as_obs (as_action [as_evict 0 []]) = (as_action [as_evict 0 []], [], False)"
    and "ob_Agents as_obs \<noteq> []" by code_simp+
  from earlier_entries_unchecked [OF this(2,1), of "[as_evict 0 [1, 2, 3, 4, 5, 6, 7]]" True] show ?thesis
    by (simp add: as_action_def as_evict_def)
qed

end
