(* ===== verification/Adaptive_Versions.thy ===== *)
theory Adaptive_Versions
  imports Adaptive_Actions
begin

text \<open>
  The versioned configuration of the adaptive layer (adaptive/version.go): an append-only chain of
  versions, the search for the nearest committed ancestor with a sufficient margin, and the decision to roll
  back.  Throughputs are finite floats, hence rational numbers; the heights the callers pass fit in an \<open>int\<close>.
\<close>

section \<open>Versions\<close>

record instance_config =
  ic_InstanceID :: u64
  ic_ValidatorCount :: int
  ic_FaultBound :: int

record config_params =
  pa_CommitteeSize :: int
  pa_PacemakerTimeoutMs :: int
  pa_MempoolMaxBatchTxs :: int
  pa_MempoolProposalIntervalMs :: int
  pa_ValidatorCount :: int
  pa_FaultBound :: int
  pa_InstanceCount :: int
  pa_Instances :: "instance_config list"

datatype version_status = StatusProposed | StatusCommitted | StatusRolledBack

record config_version =
  cv_VersionID :: u64
  cv_ParentID :: u64
  cv_GBCHeight :: u64
  cv_Params :: config_params
  cv_PhiAtCommit :: int
  cv_Status :: version_status

definition IsSafe :: "int \<Rightarrow> config_version \<Rightarrow> bool" where
  "IsSafe deltaS v \<longleftrightarrow> deltaS \<le> cv_PhiAtCommit v"

record version_chain =
  vh_versions :: "config_version list"
  vh_byID :: "(u64, config_version) fmap"
  vh_nextID :: u64

definition genesis_version :: "config_params \<Rightarrow> int \<Rightarrow> int \<Rightarrow> config_version" where
  "genesis_version genesis phi gbcHeight = \<lparr> cv_VersionID = 0, cv_ParentID = 0, cv_GBCHeight = word_of_int gbcHeight,
     cv_Params = genesis, cv_PhiAtCommit = phi, cv_Status = StatusCommitted \<rparr>"

definition NewVersionChain :: "config_params \<Rightarrow> int \<Rightarrow> int \<Rightarrow> version_chain" where
  "NewVersionChain genesis phi gbcHeight = (let v0 = genesis_version genesis phi gbcHeight
     in \<lparr> vh_versions = [v0], vh_byID = fmupd 0 v0 fmempty, vh_nextID = 1 \<rparr>)"

definition Latest :: "version_chain \<Rightarrow> config_version" where
  "Latest c = last (vh_versions c)"

definition vh_Get :: "u64 \<Rightarrow> version_chain \<Rightarrow> config_version option" where
  "vh_Get i c = fmlookup (vh_byID c) i"

definition append_version :: "config_version \<Rightarrow> version_chain \<Rightarrow> version_chain" where
  "append_version v c = \<lparr> vh_versions = vh_versions c @ [v], vh_byID = fmupd (cv_VersionID v) v (vh_byID c),
     vh_nextID = vh_nextID c + 1 \<rparr>"

definition AppendCommitted :: "config_params \<Rightarrow> int \<Rightarrow> int \<Rightarrow> version_chain \<Rightarrow> version_chain" where
  "AppendCommitted params phi gbcHeight c = append_version
     \<lparr> cv_VersionID = vh_nextID c, cv_ParentID = cv_VersionID (Latest c), cv_GBCHeight = word_of_int gbcHeight,
       cv_Params = params, cv_PhiAtCommit = phi, cv_Status = StatusCommitted \<rparr> c"

definition AppendRollback :: "config_version \<Rightarrow> int \<Rightarrow> version_chain \<Rightarrow> version_chain" where
  "AppendRollback target gbcHeight c = append_version
     \<lparr> cv_VersionID = vh_nextID c, cv_ParentID = cv_VersionID (Latest c), cv_GBCHeight = word_of_int gbcHeight,
       cv_Params = cv_Params target, cv_PhiAtCommit = cv_PhiAtCommit target, cv_Status = StatusRolledBack \<rparr> c"

section \<open>The walk over the parents\<close>

text \<open>The loop gives up after as many steps as there are versions; \<open>None\<close> is its result \<open>false\<close>.\<close>

function safe_from :: "(u64, config_version) fmap \<Rightarrow> nat \<Rightarrow> int \<Rightarrow> u64 \<Rightarrow> nat \<Rightarrow> config_version option" where
  "safe_from byID n deltaS i visited = (case fmlookup byID i of None \<Rightarrow> None
   | Some anc \<Rightarrow>
       if cv_Status anc = StatusCommitted \<and> IsSafe deltaS anc then Some anc
       else if cv_VersionID anc = 0 then (if IsSafe deltaS anc then Some anc else None)
       else if n < visited + 1 then None
       else safe_from byID n deltaS (cv_ParentID anc) (visited + 1))"
  by pat_completeness auto
termination
  by (relation "measure (\<lambda>(byID, n, deltaS, i, visited). Suc n - visited)") auto

declare safe_from.simps [simp del]

definition SafeAncestor :: "int \<Rightarrow> version_chain \<Rightarrow> config_version option" where
  "SafeAncestor deltaS c = safe_from (vh_byID c) (length (vh_versions c)) deltaS (cv_ParentID (Latest c)) 0"

record observed_safety =
  os_Phi :: int
  os_ViewStalled :: bool
  os_ThroughputTPS :: rat
  os_ThroughputFloor :: rat

definition RollbackTriggered :: "observed_safety \<Rightarrow> bool" where
  "RollbackTriggered obs \<longleftrightarrow> os_Phi obs < 0 \<or> os_ViewStalled obs \<or>
     (0 < os_ThroughputFloor obs \<and> os_ThroughputTPS obs < os_ThroughputFloor obs)"

definition EvaluateRollback :: "version_chain option \<Rightarrow> observed_safety \<Rightarrow> int \<Rightarrow> config_version option" where
  "EvaluateRollback chain obs deltaS = (case chain of None \<Rightarrow> None
     | Some c \<Rightarrow> if vh_versions c = [] \<or> \<not> RollbackTriggered obs then None else SafeAncestor deltaS c)"

section \<open>Runs\<close>

inductive chain_run :: "version_chain \<Rightarrow> bool" where
  seeded: "chain_run (NewVersionChain genesis phi h)"
| committed: "chain_run c \<Longrightarrow> chain_run (AppendCommitted params phi h c)"
| rolled_back: "chain_run c \<Longrightarrow> chain_run (AppendRollback target h c)"

text \<open>The version at position \<open>i\<close> has the identifier \<open>i\<close> and the version before it as its parent.\<close>

definition chain_ok :: "version_chain \<Rightarrow> bool" where
  "chain_ok c \<longleftrightarrow> vh_versions c \<noteq> [] \<and> vh_nextID c = of_nat (length (vh_versions c)) \<and>
     cv_Status (hd (vh_versions c)) = StatusCommitted \<and>
     (\<forall>i < length (vh_versions c). fmlookup (vh_byID c) (of_nat i) = Some (vh_versions c ! i) \<and>
        cv_VersionID (vh_versions c ! i) = of_nat i \<and> cv_ParentID (vh_versions c ! i) = of_nat (i - 1))"

lemma of_nat_u64_eq: "i < 2 ^ 64 \<Longrightarrow> j < 2 ^ 64 \<Longrightarrow> (of_nat i :: u64) = of_nat j \<longleftrightarrow> i = j"
  by (metis unat_of_nat_small)

lemma chain_ok_append:
  assumes "chain_ok c" and "length (vh_versions c) < 2 ^ 64"
    and "cv_VersionID v = vh_nextID c" and "cv_ParentID v = cv_VersionID (Latest c)"
  shows "chain_ok (append_version v c)"
proof -
  let ?n = "length (vh_versions c)" and ?c = "append_version v c"
  have v: "cv_ParentID v = of_nat (?n - 1)" "cv_VersionID v = of_nat ?n"
    using assms(1,3,4) by (auto simp: chain_ok_def Latest_def last_conv_nth simp del: of_nat_diff)
  have "fmlookup (vh_byID ?c) (of_nat i) = Some (vh_versions ?c ! i) \<and>
      cv_VersionID (vh_versions ?c ! i) = of_nat i \<and> cv_ParentID (vh_versions ?c ! i) = of_nat (i - 1)"
    if "i < Suc ?n" for i
  proof (cases "i = ?n")
    case True
    then show ?thesis using v by (simp add: append_version_def nth_append del: of_nat_diff)
  next
    case False
    then have "i < ?n" "(of_nat i :: u64) \<noteq> of_nat ?n"
      using that of_nat_u64_eq [of i ?n] assms(2) by simp_all
    then show ?thesis using assms(1) v by (simp add: chain_ok_def append_version_def nth_append del: of_nat_diff)
  qed
  with assms(1) show ?thesis
    by (auto simp: chain_ok_def append_version_def hd_append simp del: of_nat_diff)
qed

lemma chain_run_ok:
  assumes "chain_run c" and "length (vh_versions c) \<le> 2 ^ 64"
  shows "chain_ok c"
  using assms
proof (induction rule: chain_run.induct)
  case seeded
  then show ?case by (simp add: chain_ok_def NewVersionChain_def genesis_version_def Let_def)
next
  case (committed c params phi h)
  then have "length (vh_versions c) < 2 ^ 64" by (simp add: AppendCommitted_def append_version_def)
  with committed show ?case by (simp add: AppendCommitted_def chain_ok_append)
next
  case (rolled_back c target h)
  then have "length (vh_versions c) < 2 ^ 64" by (simp add: AppendRollback_def append_version_def)
  with rolled_back show ?case by (simp add: AppendRollback_def chain_ok_append)
qed

section \<open>The nearest safe ancestor\<close>

definition restorable :: "int \<Rightarrow> config_version \<Rightarrow> bool" where
  "restorable deltaS v \<longleftrightarrow> cv_Status v = StatusCommitted \<and> IsSafe deltaS v"

lemma safe_from_find:
  assumes "chain_ok c" and "length (vh_versions c) \<le> 2 ^ 64" and "i < length (vh_versions c)"
    and "visited + i \<le> length (vh_versions c)"
  shows "safe_from (vh_byID c) (length (vh_versions c)) deltaS (of_nat i) visited = find (restorable deltaS) (rev (take (Suc i) (vh_versions c)))"
  using assms(3,4)
proof (induction i arbitrary: visited)
  case 0
  have v: "fmlookup (vh_byID c) 0 = Some (vh_versions c ! 0)" "cv_VersionID (vh_versions c ! 0) = 0"
      "cv_Status (vh_versions c ! 0) = StatusCommitted"
    using assms(1) 0 by (force simp: chain_ok_def hd_conv_nth)+
  have "take 1 (vh_versions c) = [vh_versions c ! 0]"
    using 0 by (simp add: take_Suc_conv_app_nth)
  with v show ?case by (simp add: safe_from.simps restorable_def)
next
  case (Suc i)
  have v: "fmlookup (vh_byID c) (of_nat (Suc i)) = Some (vh_versions c ! Suc i)"
      "cv_VersionID (vh_versions c ! Suc i) = of_nat (Suc i)" "cv_ParentID (vh_versions c ! Suc i) = of_nat i"
    using assms(1) Suc.prems by (auto simp: chain_ok_def)
  have "(of_nat (Suc i) :: u64) \<noteq> of_nat 0"
    using of_nat_u64_eq [of "Suc i" 0] Suc.prems(1) assms(2) by simp
  then have "cv_VersionID (vh_versions c ! Suc i) \<noteq> 0" using v(2) by simp
  moreover have "safe_from (vh_byID c) (length (vh_versions c)) deltaS (of_nat i) (Suc visited) =
      find (restorable deltaS) (rev (take (Suc i) (vh_versions c)))"
    using Suc.IH [of "Suc visited"] Suc.prems by simp
  ultimately show ?case
    using v Suc.prems by (subst safe_from.simps) (simp add: restorable_def take_Suc_conv_app_nth del: of_nat_Suc)
qed

text \<open>
  C24: in every run of at most \<open>2^64\<close> versions: once a version has been appended, the walk over the parents
  returns the last committed version with a sufficient margin before the current one, and fails only if
  there is none.  While the chain is still at genesis it returns genesis itself when that has a
  sufficient margin, although the comments of version.go and of \<open>EvaluateRollback\<close> promise that it then
  fails.  Its bound on the number of steps is never what ends it.
\<close>

theorem SafeAncestor_nearest:
  assumes "chain_run c" and "length (vh_versions c) \<le> 2 ^ 64"
  shows "SafeAncestor deltaS c =
    find (restorable deltaS) (rev (if length (vh_versions c) = 1 then vh_versions c else butlast (vh_versions c)))"
proof -
  let ?vs = "vh_versions c" and ?n = "length (vh_versions c)"
  have ok: "chain_ok c" by (rule chain_run_ok [OF assms])
  then have "?vs \<noteq> []" and "cv_ParentID (Latest c) = of_nat (?n - 2)"
    by (auto simp: chain_ok_def Latest_def last_conv_nth numeral_2_eq_2)
  then have "SafeAncestor deltaS c = find (restorable deltaS) (rev (take (Suc (?n - 2)) ?vs))"
    using safe_from_find [OF ok assms(2), of "?n - 2" 0] by (simp add: SafeAncestor_def)
  moreover have "take (Suc (?n - 2)) ?vs = (if ?n = 1 then ?vs else butlast ?vs)"
    using \<open>?vs \<noteq> []\<close> by (cases ?vs rule: rev_cases) (auto simp: Suc_diff_Suc numeral_2_eq_2 le_Suc_eq)
  ultimately show ?thesis by simp
qed

section \<open>Successive rollbacks\<close>

definition roll_back :: "int \<Rightarrow> int \<Rightarrow> version_chain \<Rightarrow> version_chain" where
  "roll_back deltaS h c = (case SafeAncestor deltaS c of None \<Rightarrow> c | Some target \<Rightarrow> AppendRollback target h c)"

lemma find_rev_snoc: "P x \<Longrightarrow> find P (rev (xs @ [x])) = Some x"
  by simp

lemma find_skip: "(\<forall>x \<in> set ys. \<not> P x) \<Longrightarrow> find P (ys @ xs) = find P xs"
  by (induction ys) auto

lemma ancestor_after_rollbacks:
  assumes "chain_run c'" and "length (vh_versions c') \<le> 2 ^ 64" and "vh_versions c' = vh_versions c @ rs" and "rs \<noteq> []"
    and "vh_versions c \<noteq> []" and "\<forall>r \<in> set rs. cv_Status r = StatusRolledBack" and "restorable deltaS (Latest c)"
  shows "SafeAncestor deltaS c' = Some (Latest c)"
proof -
  have "find (restorable deltaS) (rev (vh_versions c @ butlast rs)) = find (restorable deltaS) (rev (vh_versions c))"
    using assms(6) by (simp, intro find_skip) (auto simp: restorable_def dest: in_set_butlastD)
  also have "\<dots> = Some (Latest c)"
    using assms(5,7) find_rev_snoc [of "restorable deltaS" "Latest c" "butlast (vh_versions c)"] by (simp add: Latest_def)
  finally have "find (restorable deltaS) (rev (butlast (vh_versions c'))) = Some (Latest c)"
    using assms(3,4) by (simp add: butlast_append)
  moreover have "length (vh_versions c') \<noteq> 1"
    using assms(3,4,5) by (cases "vh_versions c"; cases rs) auto
  ultimately show ?thesis
    using SafeAncestor_nearest [OF assms(1,2), of deltaS] by simp
qed

lemma roll_back_run: "chain_run c \<Longrightarrow> chain_run (roll_back deltaS h c)"
  by (simp add: roll_back_def chain_run.rolled_back split: option.splits)

lemma chain_run_nonempty: "chain_run c \<Longrightarrow> vh_versions c \<noteq> []"
  by (induction rule: chain_run.induct) (simp_all add: NewVersionChain_def AppendCommitted_def AppendRollback_def append_version_def Let_def)

lemma roll_back_versions:
  "SafeAncestor deltaS c = Some t \<Longrightarrow> \<exists>r. vh_versions (roll_back deltaS h c) = vh_versions c @ [r] \<and> cv_Status r = StatusRolledBack"
  by (simp add: roll_back_def AppendRollback_def append_version_def)

text \<open>
  Rolling back oscillates.  If the current version is committed with a sufficient margin and rolls back once,
  then every further rollback, however many follow, reinstates just the version that the first one
  reverted: entries of a rollback are not committed versions, so the walk steps over them to their parent.
\<close>

theorem rollback_returns_to_reverted:
  assumes "chain_run c" and "restorable deltaS (Latest c)" and "SafeAncestor deltaS c = Some t" and "hs \<noteq> []"
    and "length (vh_versions c) + length hs \<le> 2 ^ 64"
  shows "SafeAncestor deltaS (fold (roll_back deltaS) hs c) = Some (Latest c)"
proof -
  have "chain_run (fold (roll_back deltaS) hs c) \<and> (\<exists>rs. vh_versions (fold (roll_back deltaS) hs c) = vh_versions c @ rs \<and>
      length rs = length hs \<and> (\<forall>r \<in> set rs. cv_Status r = StatusRolledBack))"
    using assms(5)
  proof (induction hs rule: rev_induct)
    case Nil
    show ?case using assms(1) by simp
  next
    case (snoc h hs)
    let ?c = "fold (roll_back deltaS) hs c"
    from snoc obtain rs where rs: "chain_run ?c" "vh_versions ?c = vh_versions c @ rs" "length rs = length hs"
        "\<forall>r \<in> set rs. cv_Status r = StatusRolledBack" by auto
    have "\<exists>t. SafeAncestor deltaS ?c = Some t"
    proof (cases "rs = []")
      case True
      with rs(3) assms(3) show ?thesis by simp
    next
      case False
      with ancestor_after_rollbacks [OF rs(1) _ rs(2) _ chain_run_nonempty [OF assms(1)] rs(4) assms(2)] rs(2,3) snoc.prems
      show ?thesis by simp
    qed
    then obtain r where "vh_versions (roll_back deltaS h ?c) = vh_versions ?c @ [r]" "cv_Status r = StatusRolledBack"
      using roll_back_versions by blast
    with rs roll_back_run [OF rs(1)] show ?case by (auto intro!: exI [of _ "rs @ [r]"])
  qed
  then obtain rs where "chain_run (fold (roll_back deltaS) hs c)" "vh_versions (fold (roll_back deltaS) hs c) = vh_versions c @ rs"
      "length rs = length hs" "\<forall>r \<in> set rs. cv_Status r = StatusRolledBack" by auto
  with ancestor_after_rollbacks [OF _ _ this(2) _ chain_run_nonempty [OF assms(1)] _ assms(2)] assms(4,5) show ?thesis
    by (metis length_0_conv length_append)
qed

section \<open>Examples\<close>

text \<open>A genesis and a second version, both with margin 1.\<close>

definition av_params :: "int \<Rightarrow> config_params" where
  "av_params n = \<lparr> pa_CommitteeSize = 0, pa_PacemakerTimeoutMs = 0, pa_MempoolMaxBatchTxs = 0, pa_MempoolProposalIntervalMs = 0,
     pa_ValidatorCount = n, pa_FaultBound = 1, pa_InstanceCount = 0, pa_Instances = [] \<rparr>"

definition av_chain :: version_chain where
  "av_chain = AppendCommitted (av_params 5) 1 20 (NewVersionChain (av_params 6) 1 10)"

lemma av_chain_run: "chain_run av_chain"
  unfolding av_chain_def by (intro chain_run.intros)

theorem SafeAncestor_nearest_witness:
  "SafeAncestor 1 av_chain = Some (genesis_version (av_params 6) 1 10) \<and> SafeAncestor 2 av_chain = None"
proof -
  have "length (vh_versions av_chain) \<le> 2 ^ 64"
    by (simp add: av_chain_def AppendCommitted_def append_version_def NewVersionChain_def Let_def)
  note near = SafeAncestor_nearest [OF av_chain_run this]
  show ?thesis
    using near [of 1] near [of 2]
    by (simp add: av_chain_def AppendCommitted_def append_version_def NewVersionChain_def genesis_version_def Let_def
      restorable_def IsSafe_def)
qed

text \<open>Three rollbacks of the second version lead back to it.\<close>

theorem rollback_returns_to_reverted_witness:
  "SafeAncestor 1 av_chain = Some (genesis_version (av_params 6) 1 10) \<and>
   SafeAncestor 1 (fold (roll_back 1) [30, 40, 50] av_chain) = Some (Latest av_chain) \<and>
   pa_ValidatorCount (cv_Params (Latest av_chain)) = 5"
proof -
  have a: "SafeAncestor 1 av_chain = Some (genesis_version (av_params 6) 1 10)" by code_simp
  have "restorable 1 (Latest av_chain)" by code_simp
  moreover have "length (vh_versions av_chain) + length [30, 40, 50 :: int] \<le> 2 ^ 64"
    by (simp add: av_chain_def AppendCommitted_def append_version_def NewVersionChain_def Let_def)
  ultimately have "SafeAncestor 1 (fold (roll_back 1) [30, 40, 50] av_chain) = Some (Latest av_chain)"
    using rollback_returns_to_reverted [OF av_chain_run _ a, of "[30, 40, 50]"] by simp
  with a show ?thesis
    by (simp add: av_chain_def AppendCommitted_def append_version_def Latest_def av_params_def)
qed

end
