(* ===== verification/Adaptive_Pipeline.thy ===== *)
theory Adaptive_Pipeline
  imports Adaptive_Safety Adaptive_Versions Gbc_Log
begin

text \<open>
  The loop from trust to reconfiguration (integration/pipeline.go): an epoch feeds the trust estimator,
  evicts suspected members under the safety filter, publishes to the GBC and records the
  configuration as a version; a regression rolls back to an ancestor.  The estimator (trust/), the JSON encoder and the
  distributed nodes of the GBC are parameters: the properties hold for all of them.  A call of a
  callback or a publication is an event.  Where the code iterates over a map, the order is an argument.
\<close>

section \<open>State\<close>

record instance_handle =
  ih_InstanceID :: u64
  ih_ValidatorCount :: int
  ih_FaultTolerance :: int
  ih_Agents :: "u64 list"

record epoch_stats =
  es_Epoch :: u64
  es_TrustUpdates :: nat
  es_ReconfigActions :: nat
  es_SafetyMasked :: nat

record pipeline_config =
  pc_FaultThreshold :: rat
  pc_SafetyMarginDelta :: int

record 't pipeline =
  pl_gbcLog :: gbc_log
  pl_trust :: 't
  pl_instances :: "instance_handle list"
  pl_safety :: safety_filter
  pl_currentEpoch :: u64
  pl_epochStats :: "(u64, epoch_stats) fmap"
  pl_versionChain :: "version_chain option"
  pl_config :: pipeline_config

record reconfig_payload =
  rp_Epoch :: u64
  rp_InstanceID :: u64
  rp_Evictions :: "u64 list"
  rp_NAfter :: int
  rp_FAfter :: int

record version_payload =
  vp_Epoch :: u64
  vp_VersionID :: u64
  vp_ParentID :: u64
  vp_Params :: config_params
  vp_PhiAtCommit :: int
  vp_Status :: version_status

datatype propose_outcome = Committed | NotProposer | ProposeFailed string

text \<open>A node proposes on a log it may extend; \<open>pv_nodes = []\<close> is a pipeline without distributed nodes.\<close>

record ('t, 'e) pipe_env =
  pv_observe :: "u64 \<Rightarrow> 'e \<Rightarrow> 't \<Rightarrow> 't"
  pv_prob :: "'t \<Rightarrow> u64 \<Rightarrow> rat option"
  pv_json_reconfig :: "reconfig_payload \<Rightarrow> bytes"
  pv_json_version :: "version_payload \<Rightarrow> bytes"
  pv_json_trust :: "u64 \<Rightarrow> (u64, rat) fmap \<Rightarrow> bytes"
  pv_sha256 :: "bytes \<Rightarrow> bytes"
  pv_nodes :: "(string \<Rightarrow> bytes \<Rightarrow> gbc_log \<Rightarrow> gbc_log \<times> propose_outcome) list"

datatype pipe_event = Published string bytes | ReconfigDecided u64 "u64 list" | TrustReported u64 "(u64, rat) fmap"

definition NewPipeline :: "pipeline_config \<Rightarrow> gbc_log \<Rightarrow> 't \<Rightarrow> 't pipeline" where
  "NewPipeline config gbcLog trust = \<lparr> pl_gbcLog = gbcLog, pl_trust = trust, pl_instances = [],
     pl_safety = \<lparr> sf_DeltaS = pc_SafetyMarginDelta config, sf_GlobalBudgetMin = 4 + pc_SafetyMarginDelta config \<rparr>,
     pl_currentEpoch = 0, pl_epochStats = fmempty, pl_versionChain = None, pl_config = config \<rparr>"

definition SetInstances :: "instance_handle list \<Rightarrow> 't pipeline \<Rightarrow> 't pipeline" where
  "SetInstances insts p = p\<lparr>pl_instances := insts\<rparr>"

section \<open>Publishing\<close>

datatype publish_error = LogError gbc_error | NodeError string | NoNodeAccepted

fun try_nodes ::
  "(string \<Rightarrow> bytes \<Rightarrow> gbc_log \<Rightarrow> gbc_log \<times> propose_outcome) list \<Rightarrow> string \<Rightarrow> bytes \<Rightarrow> gbc_log \<Rightarrow> gbc_log \<times> publish_error option" where
  "try_nodes [] ty payload l = (l, Some NoNodeAccepted)"
| "try_nodes (node # ns) ty payload l = (case node ty payload l of
      (l', Committed) \<Rightarrow> (l', None)
    | (l', NotProposer) \<Rightarrow> try_nodes ns ty payload l'
    | (l', ProposeFailed msg) \<Rightarrow> (l', Some (NodeError msg)))"

definition publishToGBC :: "('t, 'e) pipe_env \<Rightarrow> string \<Rightarrow> bytes \<Rightarrow> 't pipeline \<Rightarrow> 't pipeline \<times> publish_error option" where
  "publishToGBC env ty payload p =
     (case (if pv_nodes env \<noteq> [] then try_nodes (pv_nodes env) ty payload (pl_gbcLog p)
        else case gbc_Publish (pv_sha256 env) \<lparr> ge_Height = gl_nextHeight (pl_gbcLog p), ge_Type = ty, ge_Payload = payload,
              ge_Attestations = [] \<rparr> (pl_gbcLog p) of
            Inl err \<Rightarrow> (pl_gbcLog p, Some (LogError err)) | Inr l \<Rightarrow> (l, None)) of
      (l, err) \<Rightarrow> (p\<lparr>pl_gbcLog := l\<rparr>, err))"

section \<open>Versions of the configuration\<close>

definition currentConfigParamsLocked :: "'t pipeline \<Rightarrow> config_params" where
  "currentConfigParamsLocked p = \<lparr> pa_CommitteeSize = 0, pa_PacemakerTimeoutMs = 0, pa_MempoolMaxBatchTxs = 0,
     pa_MempoolProposalIntervalMs = 0, pa_ValidatorCount = sum_list (map ih_ValidatorCount (pl_instances p)),
     pa_FaultBound = sum_list (map ih_FaultTolerance (pl_instances p)), pa_InstanceCount = int (length (pl_instances p)),
     pa_Instances = map (\<lambda>i. \<lparr> ic_InstanceID = ih_InstanceID i, ic_ValidatorCount = ih_ValidatorCount i,
       ic_FaultBound = ih_FaultTolerance i \<rparr>) (pl_instances p) \<rparr>"

definition plain_state :: "int \<Rightarrow> int \<Rightarrow> instance_handle \<Rightarrow> instance_state" where
  "plain_state evicts faults i = \<lparr> is_InstanceID = ih_InstanceID i, is_ValidatorCount = ih_ValidatorCount i, is_CommitteeSize = 0,
     is_PendingEvicts = evicts, is_PendingAdmits = 0, is_FaultsEstimate = faults \<rparr>"

definition computePhiLocked :: "'t pipeline \<Rightarrow> int" where
  "computePhiLocked p = (let n = gl_numMembers (pl_gbcLog p)
     in ComputePhi (map (\<lambda>i. plain_state 0 (ih_FaultTolerance i) i) (pl_instances p)) n (if 0 < n then (n - 1) sdiv 3 else 0))"

definition log_height :: "'t pipeline \<Rightarrow> int" where
  "log_height p = sint (gl_nextHeight (pl_gbcLog p))"

definition ensureVersionChainLocked :: "'t pipeline \<Rightarrow> 't pipeline" where
  "ensureVersionChainLocked p = (case pl_versionChain p of Some c \<Rightarrow> p
     | None \<Rightarrow> p\<lparr>pl_versionChain := Some (NewVersionChain (currentConfigParamsLocked p) (computePhiLocked p) (log_height p))\<rparr>)"

text \<open>The chain a pipeline has after \<open>ensureVersionChainLocked\<close>.\<close>

definition chain_of :: "'t pipeline \<Rightarrow> version_chain" where
  "chain_of p = (case pl_versionChain p of Some c \<Rightarrow> c
     | None \<Rightarrow> NewVersionChain (currentConfigParamsLocked p) (computePhiLocked p) (log_height p))"

definition version_record :: "u64 \<Rightarrow> config_version \<Rightarrow> config_params \<Rightarrow> int \<Rightarrow> version_status \<Rightarrow> version_payload" where
  "version_record epoch parent params phi status = \<lparr> vp_Epoch = epoch, vp_VersionID = cv_VersionID parent + 1,
     vp_ParentID = cv_VersionID parent, vp_Params = params, vp_PhiAtCommit = phi, vp_Status = status \<rparr>"

definition record_version :: "('t, 'e) pipe_env \<Rightarrow> u64 \<Rightarrow> 't pipeline \<Rightarrow> 't pipeline \<times> pipe_event list" where
  "record_version env epoch p0 =
     (let p = ensureVersionChainLocked p0; params = currentConfigParamsLocked p; phi = computePhiLocked p;
          payload = pv_json_version env (version_record epoch (Latest (chain_of p)) params phi StatusCommitted)
      in case publishToGBC env EntryConfigVersion payload p of
        (p', Some err) \<Rightarrow> (p', [])
      | (p', None) \<Rightarrow> (p'\<lparr>pl_versionChain := Some (AppendCommitted params phi (log_height p') (chain_of p))\<rparr>,
          [Published EntryConfigVersion payload]))"

section \<open>An epoch\<close>

definition containsAgent :: "u64 list \<Rightarrow> u64 \<Rightarrow> bool" where
  "containsAgent agents target \<longleftrightarrow> target \<in> set agents"

definition removeAgents :: "u64 list \<Rightarrow> u64 list \<Rightarrow> u64 list" where
  "removeAgents agents toRemove = filter (\<lambda>a. a \<notin> set toRemove) agents"

fun admit_evictions :: "safety_filter \<Rightarrow> instance_handle \<Rightarrow> u64 list \<Rightarrow> u64 list \<Rightarrow> nat \<Rightarrow> u64 list \<times> nat" where
  "admit_evictions sf inst [] evictions masked = (evictions, masked)"
| "admit_evictions sf inst (c # cs) evictions masked =
     (if containsAgent (ih_Agents inst) c
      then if CheckQuorumInvariant sf (plain_state (int (length evictions) + 1) 0 inst)
        then admit_evictions sf inst cs (evictions @ [c]) masked
        else admit_evictions sf inst cs evictions (masked + 1)
      else admit_evictions sf inst cs evictions masked)"

definition coupled_states :: "instance_handle list \<Rightarrow> nat \<Rightarrow> int \<Rightarrow> instance_state list" where
  "coupled_states insts i evicts = map (\<lambda>(j, inst). plain_state (if j = i then evicts else 0) 0 inst) (enumerate 0 insts)"

definition evictions_of :: "'t pipeline \<Rightarrow> nat \<Rightarrow> u64 list \<Rightarrow> u64 list \<times> nat" where
  "evictions_of p i candidates =
     (let (evictions, masked) = admit_evictions (pl_safety p) (pl_instances p ! i) candidates [] 0
      in if evictions \<noteq> [] \<and> \<not> CheckCoupledConstraint (pl_safety p) (coupled_states (pl_instances p) i (int (length evictions)))
         then ([], masked + length evictions) else (evictions, masked))"

definition evict :: "u64 list \<Rightarrow> instance_handle \<Rightarrow> instance_handle" where
  "evict evictions inst = (let n = ih_ValidatorCount inst - int (length evictions)
     in inst\<lparr> ih_ValidatorCount := n, ih_FaultTolerance := (n - 1) sdiv 3, ih_Agents := removeAgents (ih_Agents inst) evictions \<rparr>)"

definition process_instance ::
  "('t, 'e) pipe_env \<Rightarrow> u64 \<Rightarrow> u64 list \<Rightarrow> nat \<Rightarrow> 't pipeline \<times> epoch_stats \<times> pipe_event list \<Rightarrow>
   't pipeline \<times> epoch_stats \<times> pipe_event list" where
  "process_instance env epoch candidates i = (\<lambda>(p, stats, evs).
     let inst = pl_instances p ! i; (evictions, masked) = evictions_of p i candidates;
         n = ih_ValidatorCount inst - int (length evictions);
         payload = pv_json_reconfig env \<lparr> rp_Epoch = epoch, rp_InstanceID = ih_InstanceID inst, rp_Evictions = evictions,
           rp_NAfter = n, rp_FAfter = (n - 1) sdiv 3 \<rparr>;
         stats1 = stats\<lparr> es_SafetyMasked := es_SafetyMasked stats + masked,
           es_ReconfigActions := es_ReconfigActions stats + length evictions \<rparr>
     in if evictions = [] then (p, stats1, evs)
        else case publishToGBC env EntryMembership payload p of
          (p', Some err) \<Rightarrow> (p', stats1, evs)
        | (p', None) \<Rightarrow> (p'\<lparr>pl_instances := (pl_instances p)[i := evict evictions inst]\<rparr>, stats1,
            evs @ [Published EntryMembership payload, ReconfigDecided (ih_InstanceID inst) evictions]))"

definition observe_all :: "('t, 'e) pipe_env \<Rightarrow> (u64 \<times> 'e) list \<Rightarrow> 't \<Rightarrow> 't" where
  "observe_all env metrics t = fold (\<lambda>(n, e). pv_observe env n e) metrics t"

definition scores_of :: "('t, 'e) pipe_env \<Rightarrow> 't \<Rightarrow> (u64 \<times> 'e) list \<Rightarrow> (u64, rat) fmap" where
  "scores_of env t metrics = fold (\<lambda>(n, e) m. case pv_prob env t n of None \<Rightarrow> m | Some q \<Rightarrow> fmupd n q m) metrics fmempty"

definition candidates_of :: "rat \<Rightarrow> (u64, rat) fmap \<Rightarrow> u64 list \<Rightarrow> u64 list" where
  "candidates_of threshold scores visit = filter (\<lambda>n. case fmlookup scores n of None \<Rightarrow> False | Some q \<Rightarrow> threshold \<le> q) visit"

text \<open>\<open>metrics\<close> are the metrics, and \<open>visit\<close> the keys of the scores, in the orders in which the loops see them.\<close>

definition ProcessEpoch ::
  "('t, 'e) pipe_env \<Rightarrow> u64 \<Rightarrow> (u64 \<times> 'e) list \<Rightarrow> u64 list \<Rightarrow> 't pipeline \<Rightarrow> 't pipeline \<times> epoch_stats \<times> pipe_event list" where
  "ProcessEpoch env epoch metrics visit p0 =
     (let p1 = p0\<lparr>pl_trust := observe_all env metrics (pl_trust p0)\<rparr>;
          stats1 = \<lparr> es_Epoch = epoch, es_TrustUpdates = length metrics, es_ReconfigActions = 0, es_SafetyMasked = 0 \<rparr>;
          scores = scores_of env (pl_trust p1) metrics;
          (p2, stats, evs2) = fold (process_instance env epoch (candidates_of (pc_FaultThreshold (pl_config p1)) scores visit))
            [0..<length (pl_instances p1)] (p1, stats1, []);
          (p3, evs3) = (if 0 < es_ReconfigActions stats then record_version env epoch p2 else (p2, []));
          payload = pv_json_trust env epoch scores;
          (p4, err) = publishToGBC env EntryPolicyUpdate payload p3
      in (p4\<lparr> pl_epochStats := fmupd epoch stats (pl_epochStats p4), pl_currentEpoch := epoch + 1 \<rparr>, stats,
          evs2 @ evs3 @ (if err = None then [Published EntryPolicyUpdate payload] else []) @ [TrustReported epoch scores]))"

section \<open>Rolling back\<close>

definition restore :: "instance_config list \<Rightarrow> instance_handle \<Rightarrow> instance_handle" where
  "restore configs inst = (case find (\<lambda>ic. ic_InstanceID ic = ih_InstanceID inst) (rev configs) of None \<Rightarrow> inst
     | Some ic \<Rightarrow> inst\<lparr> ih_ValidatorCount := ic_ValidatorCount ic, ih_FaultTolerance := ic_FaultBound ic \<rparr>)"

definition restoreInstancesLocked :: "config_params \<Rightarrow> 't pipeline \<Rightarrow> 't pipeline" where
  "restoreInstancesLocked params p = p\<lparr>pl_instances := map (restore (pa_Instances params)) (pl_instances p)\<rparr>"

definition EvaluateAndRollback ::
  "('t, 'e) pipe_env \<Rightarrow> u64 \<Rightarrow> observed_safety \<Rightarrow> 't pipeline \<Rightarrow> 't pipeline \<times> (publish_error + config_version option)" where
  "EvaluateAndRollback env epoch obs p0 =
     (let p = ensureVersionChainLocked p0
      in case EvaluateRollback (pl_versionChain p) obs (sf_DeltaS (pl_safety p)) of None \<Rightarrow> (p, Inr None)
      | Some target \<Rightarrow>
          (case publishToGBC env EntryConfigVersion (pv_json_version env
              (version_record epoch (Latest (chain_of p)) (cv_Params target) (cv_PhiAtCommit target) StatusRolledBack)) p of
            (p', Some err) \<Rightarrow> (p', Inl err)
          | (p', None) \<Rightarrow>
              let c = AppendRollback target (log_height p') (chain_of p)
              in (restoreInstancesLocked (cv_Params target) (p'\<lparr>pl_versionChain := Some c\<rparr>), Inr (Some (Latest c)))))"

definition VersionChainSnapshot :: "'t pipeline \<Rightarrow> config_version list option" where
  "VersionChainSnapshot p = map_option vh_versions (pl_versionChain p)"

definition Summary :: "'t pipeline \<Rightarrow> nat \<times> nat \<times> nat \<times> nat" where
  "Summary p = (let stats = map (\<lambda>k. the (fmlookup (pl_epochStats p) k)) (gm_keys (pl_epochStats p))
     in (gm_len (pl_epochStats p), sum_list (map es_ReconfigActions stats), sum_list (map es_SafetyMasked stats),
         sum_list (map es_TrustUpdates stats)))"

section \<open>Runs and their invariants\<close>

text \<open>Between two operations other members extend the log.\<close>

inductive pipe_run :: "('t, 'e) pipe_env \<Rightarrow> 't pipeline \<Rightarrow> 't pipeline \<Rightarrow> bool" for env where
  start: "pl_versionChain p = None \<Longrightarrow> pipe_run env p p"
| epoch: "pipe_run env p0 p \<Longrightarrow> ProcessEpoch env e metrics visit p = (p', stats, evs) \<Longrightarrow> pipe_run env p0 p'"
| rollback: "pipe_run env p0 p \<Longrightarrow> EvaluateAndRollback env e obs p = (p', r) \<Longrightarrow> pipe_run env p0 p'"
| others: "pipe_run env p0 p \<Longrightarrow> gl_numMembers l = gl_numMembers (pl_gbcLog p) \<Longrightarrow> pipe_run env p0 (p\<lparr>pl_gbcLog := l\<rparr>)"

definition chain_sat :: "(config_params \<Rightarrow> int \<Rightarrow> bool) \<Rightarrow> version_chain \<Rightarrow> bool" where
  "chain_sat Q c \<longleftrightarrow> (\<forall>i v. fmlookup (vh_byID c) i = Some v \<longrightarrow> Q (cv_Params v) (cv_PhiAtCommit v))"

definition law_holds :: "('t pipeline \<Rightarrow> bool) \<Rightarrow> (config_params \<Rightarrow> int \<Rightarrow> bool) \<Rightarrow> 't pipeline \<Rightarrow> bool" where
  "law_holds R Q p \<longleftrightarrow> R p \<and> (\<forall>c. pl_versionChain p = Some c \<longrightarrow> chain_sat Q c)"

lemma chain_sat_new [intro]: "Q params phi \<Longrightarrow> chain_sat Q (NewVersionChain params phi h)"
  by (simp add: chain_sat_def NewVersionChain_def genesis_version_def Let_def)

lemma chain_sat_committed [intro]: "chain_sat Q c \<Longrightarrow> Q params phi \<Longrightarrow> chain_sat Q (AppendCommitted params phi h c)"
  by (simp add: chain_sat_def AppendCommitted_def append_version_def)

lemma chain_sat_rollback [intro]:
  "chain_sat Q c \<Longrightarrow> Q (cv_Params t) (cv_PhiAtCommit t) \<Longrightarrow> chain_sat Q (AppendRollback t h c)"
  by (simp add: chain_sat_def AppendRollback_def append_version_def)

lemma safe_from_member:
  "safe_from m n d i k = Some v \<Longrightarrow> \<exists>j. fmlookup m j = Some v \<and> IsSafe d v"
proof (induction m n d i k rule: safe_from.induct)
  case (1 m n d i k)
  show ?case
  proof (cases "fmlookup m i")
    case None
    with 1(2) show ?thesis by (subst (asm) safe_from.simps) simp
  next
    case (Some a)
    have "(if cv_Status a = StatusCommitted \<and> IsSafe d a then Some a
        else if cv_VersionID a = 0 then (if IsSafe d a then Some a else None)
        else if n < k + 1 then None else safe_from m n d (cv_ParentID a) (k + 1)) = Some v"
      using 1(2) Some by (subst (asm) safe_from.simps) simp
    with 1(1) [OF Some] Some show ?thesis by (auto split: if_splits)
  qed
qed

lemma rollback_target:
  "EvaluateRollback (Some c) obs d = Some t \<Longrightarrow> \<exists>j. fmlookup (vh_byID c) j = Some t \<and> IsSafe d t"
  by (auto simp: EvaluateRollback_def SafeAncestor_def dest: safe_from_member split: if_splits)

lemma publish_frame:
  assumes "publishToGBC env ty payload p = (p', err)"
  shows "p' = p\<lparr>pl_gbcLog := pl_gbcLog p'\<rparr>"
proof -
  obtain l e where "p' = p\<lparr>pl_gbcLog := l\<rparr>"
    using assms unfolding publishToGBC_def by (simp only: split_beta prod.inject) blast
  then show ?thesis by simp
qed

lemma publish_fields:
  assumes "publishToGBC env ty payload p = (p', err)"
  shows "pl_instances p' = pl_instances p" "pl_safety p' = pl_safety p" "pl_versionChain p' = pl_versionChain p"
  by (subst publish_frame [OF assms], simp)+

lemma ensure_chain: "pl_versionChain (ensureVersionChainLocked p) = Some (chain_of p)" "chain_of (ensureVersionChainLocked p) = chain_of p"
  by (simp_all add: ensureVersionChainLocked_def chain_of_def split: option.splits)

lemma ensure_frame:
  "pl_instances (ensureVersionChainLocked p) = pl_instances p" "pl_safety (ensureVersionChainLocked p) = pl_safety p"
  "pl_gbcLog (ensureVersionChainLocked p) = pl_gbcLog p"
  by (simp_all add: ensureVersionChainLocked_def split: option.splits)

text \<open>
  What holds of the instances whenever they change (\<open>R\<close>) and what a version recorded then satisfies
  (\<open>Q\<close>) hold in every run.
\<close>

locale pipe_law =
  fixes env :: "('t, 'e) pipe_env" and R :: "'t pipeline \<Rightarrow> bool" and Q :: "config_params \<Rightarrow> int \<Rightarrow> bool"
  assumes described: "R p \<Longrightarrow> Q (currentConfigParamsLocked p) (computePhiLocked p)"
    and frame: "R p \<Longrightarrow> pl_instances p' = pl_instances p \<Longrightarrow> pl_safety p' = pl_safety p \<Longrightarrow> pl_gbcLog p' = pl_gbcLog p \<Longrightarrow> R p'"
    and published: "R p \<Longrightarrow> publishToGBC env ty payload p = (p', err) \<Longrightarrow> R p'"
    and evicted: "R p \<Longrightarrow> i < length (pl_instances p) \<Longrightarrow> evictions_of p i cs = (evs, k) \<Longrightarrow> evs \<noteq> [] \<Longrightarrow>
      R (p\<lparr>pl_instances := (pl_instances p)[i := evict evs (pl_instances p ! i)]\<rparr>)"
    and restored: "R p \<Longrightarrow> Q params phi \<Longrightarrow> R (restoreInstancesLocked params p)"
    and environment: "R p \<Longrightarrow> gl_numMembers l = gl_numMembers (pl_gbcLog p) \<Longrightarrow> R (p\<lparr>pl_gbcLog := l\<rparr>)"
begin

lemma holds_publish:
  assumes "law_holds R Q p" and "publishToGBC env ty payload p = (p', err)"
  shows "law_holds R Q p'"
  using published [of p ty payload p' err] publish_fields [OF assms(2)] assms by (auto simp: law_holds_def)

lemma holds_frame:
  assumes "law_holds R Q p" and "pl_instances p' = pl_instances p" and "pl_safety p' = pl_safety p" and "pl_gbcLog p' = pl_gbcLog p"
    and "pl_versionChain p' = pl_versionChain p"
  shows "law_holds R Q p'"
  using assms frame [of p p'] by (simp add: law_holds_def)

lemma holds_chain: "law_holds R Q p \<Longrightarrow> chain_sat Q (chain_of p)"
  using described [of p] by (auto simp: law_holds_def chain_of_def split: option.splits)

lemma holds_ensure: "law_holds R Q p \<Longrightarrow> law_holds R Q (ensureVersionChainLocked p)"
  using holds_chain [of p] frame [of p "ensureVersionChainLocked p"] by (simp add: law_holds_def ensure_chain ensure_frame)

lemma holds_with_chain: "law_holds R Q p \<Longrightarrow> chain_sat Q c \<Longrightarrow> law_holds R Q (p\<lparr>pl_versionChain := Some c\<rparr>)"
  using frame [of p "p\<lparr>pl_versionChain := Some c\<rparr>"] by (simp add: law_holds_def)

lemma holds_record:
  assumes "law_holds R Q p" and "record_version env e p = (p', evs)"
  shows "law_holds R Q p'"
proof -
  let ?p = "ensureVersionChainLocked p"
  let ?payload = "pv_json_version env (version_record e (Latest (chain_of ?p)) (currentConfigParamsLocked ?p) (computePhiLocked ?p) StatusCommitted)"
  obtain p1 err where pub: "publishToGBC env EntryConfigVersion ?payload ?p = (p1, err)" by fastforce
  have h: "law_holds R Q ?p" "law_holds R Q p1" "chain_sat Q (chain_of ?p)"
    using holds_ensure [OF assms(1)] holds_publish [OF _ pub] holds_chain by blast+
  then have "Q (currentConfigParamsLocked ?p) (computePhiLocked ?p)"
    using described by (auto simp: law_holds_def)
  with h have "law_holds R Q (p1\<lparr>pl_versionChain := Some (AppendCommitted (currentConfigParamsLocked ?p) (computePhiLocked ?p) (log_height p1) (chain_of ?p))\<rparr>)"
    by (intro holds_with_chain) auto
  with h pub assms(2) show ?thesis
    by (auto simp: record_version_def Let_def split: option.splits)
qed

lemma holds_instance:
  assumes "law_holds R Q p" and "i < length (pl_instances p)" and "process_instance env e cs i (p, stats, evs) = (p', stats', evs')"
  shows "law_holds R Q p' \<and> length (pl_instances p') = length (pl_instances p)"
proof -
  obtain ev k where ev: "evictions_of p i cs = (ev, k)" by fastforce
  let ?inst = "pl_instances p ! i"
  let ?n = "ih_ValidatorCount ?inst - int (length ev)"
  let ?payload = "pv_json_reconfig env \<lparr> rp_Epoch = e, rp_InstanceID = ih_InstanceID ?inst, rp_Evictions = ev, rp_NAfter = ?n, rp_FAfter = (?n - 1) sdiv 3 \<rparr>"
  obtain p1 err where pub: "publishToGBC env EntryMembership ?payload p = (p1, err)" by fastforce
  have p1: "law_holds R Q p1" "pl_instances p1 = pl_instances p" "evictions_of p1 i cs = (ev, k)"
    using holds_publish [OF assms(1) pub] publish_fields [OF pub] ev by (simp_all add: evictions_of_def)
  have "law_holds R Q (p1\<lparr>pl_instances := (pl_instances p)[i := evict ev ?inst]\<rparr>)" if "ev \<noteq> []"
    using evicted [OF _ _ p1(3) that] p1(1,2) assms(2) by (simp add: law_holds_def)
  with assms(1,3) p1(1,2) ev pub show ?thesis
    by (auto simp: process_instance_def Let_def split: if_splits option.splits)
qed

lemma holds_instances:
  assumes "law_holds R Q p" and "\<forall>i \<in> set is. i < length (pl_instances p)" and "fold (process_instance env e cs) is (p, stats, evs) = (p', stats', evs')"
  shows "law_holds R Q p'"
  using assms
proof (induction "is" arbitrary: p stats evs)
  case (Cons i "is")
  obtain p1 stats1 evs1 where s: "process_instance env e cs i (p, stats, evs) = (p1, stats1, evs1)"
    using prod_cases3 by blast
  with holds_instance [OF Cons.prems(1) _ s] Cons.prems Cons.IH [of p1 stats1 evs1] show ?case by simp
qed simp

lemma holds_epoch:
  assumes "law_holds R Q p" and "ProcessEpoch env e metrics visit p = (p', stats, evs)"
  shows "law_holds R Q p'"
proof -
  let ?p1 = "p\<lparr>pl_trust := observe_all env metrics (pl_trust p)\<rparr>"
  let ?cs = "candidates_of (pc_FaultThreshold (pl_config ?p1)) (scores_of env (pl_trust ?p1) metrics) visit"
  let ?s1 = "\<lparr> es_Epoch = e, es_TrustUpdates = length metrics, es_ReconfigActions = 0, es_SafetyMasked = 0 \<rparr>"
  let ?pl = "pv_json_trust env e (scores_of env (pl_trust ?p1) metrics)"
  obtain p2 s2 evs2 where f: "fold (process_instance env e ?cs) [0..<length (pl_instances ?p1)] (?p1, ?s1, []) = (p2, s2, evs2)"
    using prod_cases3 by blast
  have "law_holds R Q ?p1" by (rule holds_frame [OF assms(1)]) simp_all
  then have h2: "law_holds R Q p2" by (rule holds_instances [OF _ _ f]) simp
  obtain p3 evs3 where r: "(if 0 < es_ReconfigActions s2 then record_version env e p2 else (p2, [])) = (p3, evs3)" by fastforce
  with h2 have h3: "law_holds R Q p3" by (auto split: if_splits dest: holds_record)
  obtain p4 err where pub: "publishToGBC env EntryPolicyUpdate ?pl p3 = (p4, err)" by fastforce
  have h4: "law_holds R Q p4" by (rule holds_publish [OF h3 pub])
  have "p' = p4\<lparr> pl_epochStats := fmupd e s2 (pl_epochStats p4), pl_currentEpoch := e + 1 \<rparr>"
    using assms(2) f r pub by (auto simp: ProcessEpoch_def Let_def)
  then show ?thesis using holds_frame [OF h4, of p'] by simp
qed

lemma holds_rollback:
  assumes "law_holds R Q p" and "EvaluateAndRollback env e obs p = (p', r)"
  shows "law_holds R Q p'"
proof -
  let ?p = "ensureVersionChainLocked p"
  have h: "law_holds R Q ?p" "chain_sat Q (chain_of ?p)" using holds_ensure [OF assms(1)] holds_chain by blast+
  show ?thesis
  proof (cases "EvaluateRollback (pl_versionChain ?p) obs (sf_DeltaS (pl_safety ?p))")
    case None
    with assms(2) h show ?thesis by (simp add: EvaluateAndRollback_def Let_def)
  next
    case (Some t)
    let ?payload = "pv_json_version env (version_record e (Latest (chain_of ?p)) (cv_Params t) (cv_PhiAtCommit t) StatusRolledBack)"
    obtain p1 err where pub: "publishToGBC env EntryConfigVersion ?payload ?p = (p1, err)" by fastforce
    have p1: "law_holds R Q p1" by (rule holds_publish [OF h(1) pub])
    have q: "Q (cv_Params t) (cv_PhiAtCommit t)"
      using rollback_target [of "chain_of ?p" obs] Some h(2) by (auto simp: ensure_chain chain_sat_def)
    let ?p2 = "p1\<lparr>pl_versionChain := Some (AppendRollback t (log_height p1) (chain_of ?p))\<rparr>"
    have "law_holds R Q ?p2" using p1 h(2) q by (intro holds_with_chain) auto
    moreover have "pl_versionChain (restoreInstancesLocked (cv_Params t) ?p2) = pl_versionChain ?p2"
      by (simp add: restoreInstancesLocked_def)
    ultimately have "law_holds R Q (restoreInstancesLocked (cv_Params t) ?p2)"
      using restored [OF _ q, of ?p2] by (simp add: law_holds_def)
    with p1 assms(2) Some pub show ?thesis
      by (auto simp: EvaluateAndRollback_def Let_def split: option.splits)
  qed
qed

lemma run_holds: "pipe_run env p0 p \<Longrightarrow> R p0 \<Longrightarrow> law_holds R Q p"
proof (induction rule: pipe_run.induct)
  case (start p)
  then show ?case by (simp add: law_holds_def)
next
  case (others p0 p l)
  then have "law_holds R Q p" by blast
  with environment [of p l] others(2) show ?case by (simp add: law_holds_def)
qed (auto dest: holds_epoch holds_rollback)

end

section \<open>Instances stay large\<close>

definition lower_bound :: "int \<Rightarrow> int \<Rightarrow> 't pipeline \<Rightarrow> bool" where
  "lower_bound m d p \<longleftrightarrow> sf_DeltaS (pl_safety p) = d \<and> (\<forall>i \<in> set (pl_instances p). min m (4 + d) \<le> ih_ValidatorCount i)"

definition snapshot_bound :: "int \<Rightarrow> int \<Rightarrow> config_params \<Rightarrow> int \<Rightarrow> bool" where
  "snapshot_bound m d params phi \<longleftrightarrow> (\<forall>ic \<in> set (pa_Instances params). min m (4 + d) \<le> ic_ValidatorCount ic)"

lemma admit_evictions_bound:
  assumes "admit_evictions sf inst cs evs0 k0 = (evs, k)"
  shows "evs = evs0 \<or> 4 + sf_DeltaS sf \<le> ih_ValidatorCount inst - int (length evs)"
  using assms
proof (induction cs arbitrary: evs0 k0)
  case (Cons c cs)
  show ?case
  proof (cases "containsAgent (ih_Agents inst) c \<and> CheckQuorumInvariant sf (plain_state (int (length evs0) + 1) 0 inst)")
    case True
    then have "4 + sf_DeltaS sf \<le> ih_ValidatorCount inst - int (length (evs0 @ [c]))"
      by (simp add: CheckQuorumInvariant_def plain_state_def n_after_def faults_of_def)
    with True Cons.IH [of "evs0 @ [c]" k0] Cons.prems show ?thesis by auto
  next
    case False
    with Cons.IH [of evs0 k0] Cons.IH [of evs0 "k0 + 1"] Cons.prems show ?thesis by (auto split: if_splits)
  qed
qed simp

lemma evictions_bound:
  "evictions_of p i cs = (evs, k) \<Longrightarrow> evs \<noteq> [] \<Longrightarrow>
    4 + sf_DeltaS (pl_safety p) \<le> ih_ValidatorCount (pl_instances p ! i) - int (length evs)"
  using admit_evictions_bound [of "pl_safety p" "pl_instances p ! i" cs "[]" 0 evs]
  by (auto simp: evictions_of_def Let_def split: if_splits prod.splits)

lemma find_memberD: "find P xs = Some x \<Longrightarrow> x \<in> set xs"
  by (induction xs) (auto split: if_splits)

interpretation lower: pipe_law env "lower_bound m d" "snapshot_bound m d" for env and m d :: int
proof unfold_locales
  fix p :: "'a pipeline" and i cs evs k
  assume "lower_bound m d p" "i < length (pl_instances p)" "evictions_of p i cs = (evs, k)" "evs \<noteq> []"
  with evictions_bound [of p i cs evs k] show "lower_bound m d (p\<lparr>pl_instances := (pl_instances p)[i := evict evs (pl_instances p ! i)]\<rparr>)"
    by (auto simp: lower_bound_def evict_def Let_def dest!: set_update_subset_insert [THEN subsetD])
next
  fix p :: "'a pipeline" and params phi
  assume "lower_bound m d p" "snapshot_bound m d params phi"
  then show "lower_bound m d (restoreInstancesLocked params p)"
    by (auto simp: lower_bound_def snapshot_bound_def restoreInstancesLocked_def restore_def dest: find_memberD split: option.splits)
qed (auto simp: lower_bound_def snapshot_bound_def currentConfigParamsLocked_def publish_fields)

section \<open>The margin of the beacon chain\<close>

definition keeps_members :: "('t, 'e) pipe_env \<Rightarrow> bool" where
  "keeps_members env \<longleftrightarrow> (\<forall>node \<in> set (pv_nodes env). \<forall>ty payload l. gl_numMembers (fst (node ty payload l)) = gl_numMembers l)"

definition beacon_margin :: "int \<Rightarrow> int" where
  "beacon_margin g = g - 3 * (if 0 < g then (g - 1) sdiv 3 else 0) - 1"

definition members_fixed :: "('t, 'e) pipe_env \<Rightarrow> int \<Rightarrow> 't pipeline \<Rightarrow> bool" where
  "members_fixed env g p \<longleftrightarrow> (keeps_members env \<longrightarrow> gl_numMembers (pl_gbcLog p) = g)"

definition margin_bounded :: "('t, 'e) pipe_env \<Rightarrow> int \<Rightarrow> config_params \<Rightarrow> int \<Rightarrow> bool" where
  "margin_bounded env g params phi \<longleftrightarrow> (keeps_members env \<longrightarrow> phi \<le> beacon_margin g)"

lemma try_nodes_members:
  assumes "\<forall>node \<in> set ns. \<forall>ty payload l. gl_numMembers (fst (node ty payload l)) = gl_numMembers l"
  shows "gl_numMembers (fst (try_nodes ns ty payload l)) = gl_numMembers l"
  using assms
proof (induction ns arbitrary: l)
  case (Cons node ns)
  obtain l' r where "node ty payload l = (l', r)" by fastforce
  moreover from this Cons.prems have "gl_numMembers l' = gl_numMembers l"
    using fst_conv list.set_intros(1) by metis
  ultimately show ?case using Cons by (cases r) auto
qed simp

lemma publish_members:
  assumes "keeps_members env" and "publishToGBC env ty payload p = (p', err)"
  shows "gl_numMembers (pl_gbcLog p') = gl_numMembers (pl_gbcLog p)"
proof (cases "pv_nodes env = []")
  case True
  then show ?thesis
    using assms(2) by (auto simp: publishToGBC_def gbc_Publish_def store_entry_def split: sum.splits option.splits if_splits)
next
  case False
  then show ?thesis
    using assms(2) try_nodes_members [of "pv_nodes env" ty payload "pl_gbcLog p"] assms(1)
    by (auto simp: publishToGBC_def keeps_members_def split: prod.splits)
qed

lemma ComputePhi_le: "ComputePhi ss m f \<le> m - 3 * f - 1"
  using le_ComputePhi [of "ComputePhi ss m f" ss m f] by simp

lemma computePhi_margin: "computePhiLocked p \<le> beacon_margin (gl_numMembers (pl_gbcLog p))"
  using ComputePhi_le by (simp add: computePhiLocked_def beacon_margin_def Let_def)

interpretation members: pipe_law env "members_fixed env g" "margin_bounded env g" for env and g :: int
  by unfold_locales (use computePhi_margin publish_members in
    \<open>auto simp: members_fixed_def margin_bounded_def restoreInstancesLocked_def\<close>)

section \<open>The first reconfiguration\<close>

interpretation ids: pipe_law env "\<lambda>p. map ih_InstanceID (pl_instances p) = is" "\<lambda>_ _. True" for env and "is" :: "u64 list"
  by unfold_locales (auto simp: publish_fields evict_def Let_def map_update list_update_same_conv restoreInstancesLocked_def restore_def
    comp_def split: option.splits)

lemma instances_chain:
  assumes "fold (process_instance env e cs) is (p, stats, evs) = (p', stats', evs')"
  shows "pl_versionChain p' = pl_versionChain p"
  using assms
proof (induction "is" arbitrary: p stats evs)
  case (Cons i "is")
  obtain p1 stats1 evs1 where s: "process_instance env e cs i (p, stats, evs) = (p1, stats1, evs1)"
    using prod_cases3 by blast
  then have "pl_versionChain p1 = pl_versionChain p"
    by (auto simp: process_instance_def Let_def publish_fields split: if_splits option.splits prod.splits)
  with s Cons show ?case by simp
qed simp

definition snapshot_of :: "instance_handle list \<Rightarrow> instance_config list" where
  "snapshot_of insts = map (\<lambda>i. \<lparr> ic_InstanceID = ih_InstanceID i, ic_ValidatorCount = ih_ValidatorCount i,
     ic_FaultBound = ih_FaultTolerance i \<rparr>) insts"

lemma restore_own:
  assumes "distinct (map ih_InstanceID insts)"
  shows "map (restore (snapshot_of insts)) insts = insts"
proof (rule map_idI)
  fix i assume i: "i \<in> set insts"
  let ?own = "\<lambda>i. \<lparr> ic_InstanceID = ih_InstanceID i, ic_ValidatorCount = ih_ValidatorCount i, ic_FaultBound = ih_FaultTolerance i \<rparr>"
  have "find (\<lambda>ic. ic_InstanceID ic = ih_InstanceID i) (rev (snapshot_of insts)) = Some (?own i)"
    using assms i
  proof (induction insts rule: rev_induct)
    case (snoc j insts)
    then show ?case by (cases "i = j") (auto simp: snapshot_of_def image_iff)
  qed simp
  then show "restore (snapshot_of insts) i = i" by (simp add: restore_def)
qed

lemma record_first:
  assumes "pl_versionChain p = None" and "record_version env e p = (p', evs)"
  shows "pl_instances p' = pl_instances p \<and> (\<exists>c. pl_versionChain p' = Some c \<and> chain_sat (\<lambda>params phi. pa_Instances params = snapshot_of (pl_instances p)) c)"
proof -
  let ?Q = "\<lambda>params phi. pa_Instances params = snapshot_of (pl_instances p)"
  have q: "?Q (currentConfigParamsLocked p) phi" "?Q (currentConfigParamsLocked (ensureVersionChainLocked p)) phi" for phi
    by (simp_all add: currentConfigParamsLocked_def snapshot_of_def ensure_frame)
  then have "chain_sat ?Q (chain_of p)" using assms(1) by (auto simp: chain_of_def)
  with assms(2) q show ?thesis
    by (auto simp: record_version_def Let_def publish_fields ensure_frame ensure_chain split: option.splits prod.splits)
qed

text \<open>
  The first reconfiguration of a pipeline cannot be rolled back.  The chain of versions is only
  seeded after the evictions have been applied, so its genesis already describes the configuration without
  the evicted members, and a rollback restores exactly that, whatever is observed.
\<close>

theorem first_reconfiguration_stays:
  assumes "pl_versionChain p = None" and "ProcessEpoch env e metrics visit p = (p1, stats, evs)" and "0 < es_ReconfigActions stats"
    and "EvaluateAndRollback env e' obs p1 = (p2, r)" and "distinct (map ih_InstanceID (pl_instances p))"
  shows "pl_instances p2 = pl_instances p1"
proof -
  let ?p0 = "p\<lparr>pl_trust := observe_all env metrics (pl_trust p)\<rparr>"
  let ?cs = "candidates_of (pc_FaultThreshold (pl_config ?p0)) (scores_of env (pl_trust ?p0) metrics) visit"
  let ?s1 = "\<lparr> es_Epoch = e, es_TrustUpdates = length metrics, es_ReconfigActions = 0, es_SafetyMasked = 0 \<rparr>"
  let ?pl = "pv_json_trust env e (scores_of env (pl_trust ?p0) metrics)"
  obtain q s2 evs2 where f: "fold (process_instance env e ?cs) [0..<length (pl_instances ?p0)] (?p0, ?s1, []) = (q, s2, evs2)"
    using prod_cases3 by blast
  obtain q3 evs3 where rv: "record_version env e q = (q3, evs3)" by fastforce
  obtain q4 err where pub: "publishToGBC env EntryPolicyUpdate ?pl q3 = (q4, err)" by fastforce
  have "stats = s2" using assms(2) f by (auto simp: ProcessEpoch_def Let_def split: prod.splits)
  then have p1: "pl_instances p1 = pl_instances q3" "pl_versionChain p1 = pl_versionChain q3"
    using assms(2,3) f rv pub publish_fields [OF pub] by (auto simp: ProcessEpoch_def Let_def)
  have "pl_versionChain q = None" using instances_chain [OF f] assms(1) by simp
  with record_first [OF _ rv] obtain c where c: "pl_instances q3 = pl_instances q" "pl_versionChain q3 = Some c"
      "chain_sat (\<lambda>params phi. pa_Instances params = snapshot_of (pl_instances q)) c" by blast
  have "law_holds (\<lambda>q. map ih_InstanceID (pl_instances q) = map ih_InstanceID (pl_instances p)) (\<lambda>_ _. True) q"
    by (rule ids.holds_instances [OF _ _ f]) (simp_all add: law_holds_def chain_sat_def)
  then have "distinct (map ih_InstanceID (pl_instances q))" using assms(5) by (simp add: law_holds_def)
  then have own: "map (restore (snapshot_of (pl_instances q))) (pl_instances q) = pl_instances q" by (rule restore_own)
  have "pa_Instances (cv_Params t) = snapshot_of (pl_instances q)" if "EvaluateRollback (Some c) obs d = Some t" for d t
    using rollback_target [OF that] c(3) by (auto simp: chain_sat_def)
  with assms(4) c p1 own show ?thesis
    by (auto simp: EvaluateAndRollback_def Let_def ensureVersionChainLocked_def restoreInstancesLocked_def publish_fields
      split: option.splits prod.splits)
qed

section \<open>Properties of every run\<close>

text \<open>
  C22: in every run, whatever the trust estimator reports, no instance shrinks below
  \<open>4 + \<delta>\<close> validators, or below the size of the smallest one at the start if that is smaller.
\<close>

theorem pipeline_keeps_minimum:
  assumes "pipe_run env p0 p" and "list_all (\<lambda>i. m \<le> ih_ValidatorCount i) (pl_instances p0)"
  shows "list_all (\<lambda>i. min m (4 + sf_DeltaS (pl_safety p0)) \<le> ih_ValidatorCount i) (pl_instances p)"
proof -
  have "lower_bound m (sf_DeltaS (pl_safety p0)) p0"
    using assms(2) by (auto simp: lower_bound_def list_all_iff)
  from lower.run_holds [OF assms(1) this] show ?thesis
    by (simp add: law_holds_def lower_bound_def list_all_iff)
qed

text \<open>
  C38: a beacon chain with \<open>3 f + 1\<close> members, the usual size, disables rollback: its own margin is then zero, so no
  version ever reaches a positive \<open>\<delta>\<close>, no trigger finds a target, and the instances stay as they are.
\<close>

theorem full_beacon_never_rolls_back:
  assumes "pipe_run env p0 p" and "gl_numMembers (pl_gbcLog p0) = 3 * int f + 1" and "1 \<le> sf_DeltaS (pl_safety p)" and "keeps_members env"
  shows "snd (EvaluateAndRollback env e obs p) = Inr None \<and> pl_instances (fst (EvaluateAndRollback env e obs p)) = pl_instances p"
proof -
  have g: "beacon_margin (3 * int f + 1) = 0"
    by (cases "f = 0") (simp_all add: beacon_margin_def signed_divide_int_def sgn_mult)
  have "members_fixed env (3 * int f + 1) p0" using assms(2) by (simp add: members_fixed_def)
  then have "law_holds (members_fixed env (3 * int f + 1)) (margin_bounded env (3 * int f + 1)) p" by (rule members.run_holds [OF assms(1)])
  then have "chain_sat (\<lambda>params phi. phi \<le> 0) (chain_of p)"
    using members.holds_chain [of env "3 * int f + 1" p] assms(4) by (simp add: margin_bounded_def g chain_sat_def)
  then have "EvaluateRollback (Some (chain_of p)) obs (sf_DeltaS (pl_safety p)) = None"
    using rollback_target [of "chain_of p" obs "sf_DeltaS (pl_safety p)"] assms(3)
    by (cases "EvaluateRollback (Some (chain_of p)) obs (sf_DeltaS (pl_safety p))") (fastforce simp: chain_sat_def IsSafe_def)+
  then show ?thesis by (simp add: EvaluateAndRollback_def Let_def ensure_chain ensure_frame)
qed

section \<open>Examples\<close>

text \<open>One instance of seven; the estimator suspects who was reported.\<close>

definition ap_env :: "(u64 list, bool) pipe_env" where
  "ap_env = \<lparr> pv_observe = (\<lambda>n bad t. if bad then n # t else t), pv_prob = (\<lambda>t n. Some (if n \<in> set t then 1 else 0)),
     pv_json_reconfig = (\<lambda>r. [1]), pv_json_version = (\<lambda>v. [2]), pv_json_trust = (\<lambda>e s. [3]), pv_sha256 = (\<lambda>x. x), pv_nodes = [] \<rparr>"

definition ap_pipe :: "int \<Rightarrow> u64 list pipeline" where
  "ap_pipe members = SetInstances [\<lparr> ih_InstanceID = 0, ih_ValidatorCount = 7, ih_FaultTolerance = 2, ih_Agents = [1, 2, 3, 4, 5, 6, 7] \<rparr>]
     (NewPipeline \<lparr> pc_FaultThreshold = 1 / 2, pc_SafetyMarginDelta = 1 \<rparr> (NewLogWithMembers members) [])"

definition ap_epoch :: "u64 list \<Rightarrow> int \<Rightarrow> u64 list pipeline \<times> epoch_stats \<times> pipe_event list" where
  "ap_epoch bad members = ProcessEpoch ap_env 1 (map (\<lambda>n. (n, n \<in> set bad)) [1, 2, 3, 4, 5]) [5, 4, 3, 2, 1] (ap_pipe members)"

definition ap_stalled :: observed_safety where
  "ap_stalled = \<lparr> os_Phi = 0, os_ViewStalled = True, os_ThroughputTPS = 0, os_ThroughputFloor = 0 \<rparr>"

lemma ap_evicts:
  "map ih_ValidatorCount (pl_instances (fst (ap_epoch [2] 6))) = [6] \<and> es_ReconfigActions (fst (snd (ap_epoch [2] 6))) = 1"
  by code_simp

lemma ap_evicts4:
  "map ih_Agents (pl_instances (fst (ap_epoch [2, 3, 4] 4))) = [[1, 2, 5, 6, 7]] \<and> es_SafetyMasked (fst (snd (ap_epoch [2, 3, 4] 4))) = 1"
  by code_simp

lemma ap_rolled:
  "(case snd (EvaluateAndRollback ap_env 2 ap_stalled (fst (ap_epoch [2] 6))) of Inr (Some v) \<Rightarrow> cv_VersionID v = 2 | _ \<Rightarrow> False)"
  by code_simp

theorem first_reconfiguration_stays_witness:
  "map ih_ValidatorCount (pl_instances (fst (EvaluateAndRollback ap_env 2 ap_stalled (fst (ap_epoch [2] 6))))) = [6] \<and>
   (case snd (EvaluateAndRollback ap_env 2 ap_stalled (fst (ap_epoch [2] 6))) of Inr (Some v) \<Rightarrow> cv_VersionID v = 2 | _ \<Rightarrow> False)"
proof -
  obtain p1 stats evs where e: "ap_epoch [2] 6 = (p1, stats, evs)" using prod_cases3 by blast
  obtain p2 r where r: "EvaluateAndRollback ap_env 2 ap_stalled p1 = (p2, r)" by fastforce
  have "pl_versionChain (ap_pipe 6) = None" "distinct (map ih_InstanceID (pl_instances (ap_pipe 6)))"
    by (simp_all add: ap_pipe_def SetInstances_def NewPipeline_def)
  from first_reconfiguration_stays [OF this(1) e [unfolded ap_epoch_def] _ r this(2)] ap_evicts ap_rolled e r
  show ?thesis by simp
qed

theorem pipeline_keeps_minimum_witness:
  "map ih_Agents (pl_instances (fst (ap_epoch [2, 3, 4] 4))) = [[1, 2, 5, 6, 7]] \<and>
   list_all (\<lambda>i. 5 \<le> ih_ValidatorCount i) (pl_instances (fst (ap_epoch [2, 3, 4] 4)))"
proof -
  obtain p1 stats evs where e: "ap_epoch [2, 3, 4] 4 = (p1, stats, evs)" using prod_cases3 by blast
  have "pl_versionChain (ap_pipe 4) = None" by (simp add: ap_pipe_def SetInstances_def NewPipeline_def)
  from pipe_run.epoch [OF pipe_run.start [OF this] e [unfolded ap_epoch_def]]
  have run: "pipe_run ap_env (ap_pipe 4) p1" .
  have "list_all (\<lambda>i. 7 \<le> ih_ValidatorCount i) (pl_instances (ap_pipe 4))" "sf_DeltaS (pl_safety (ap_pipe 4)) = 1"
    by (simp_all add: ap_pipe_def SetInstances_def NewPipeline_def)
  with pipeline_keeps_minimum [OF run, of 7] e ap_evicts4 show ?thesis by simp
qed

theorem full_beacon_never_rolls_back_witness:
  "map ih_ValidatorCount (pl_instances (fst (ap_epoch [2] 4))) = [6] \<and>
   snd (EvaluateAndRollback ap_env 2 ap_stalled (fst (ap_epoch [2] 4))) = Inr None"
proof -
  obtain p1 stats evs where e: "ap_epoch [2] 4 = (p1, stats, evs)" using prod_cases3 by blast
  have s: "pl_versionChain (ap_pipe 4) = None" "gl_numMembers (pl_gbcLog (ap_pipe 4)) = 3 * int 1 + 1"
    by (simp_all add: ap_pipe_def SetInstances_def NewPipeline_def NewLogWithMembers_def)
  from pipe_run.epoch [OF pipe_run.start [OF s(1)] e [unfolded ap_epoch_def]]
  have run: "pipe_run ap_env (ap_pipe 4) p1" .
  have "map ih_ValidatorCount (pl_instances (fst (ap_epoch [2] 4))) = [6] \<and> sf_DeltaS (pl_safety (fst (ap_epoch [2] 4))) = 1" by code_simp
  moreover have "keeps_members ap_env" by (simp add: keeps_members_def ap_env_def)
  ultimately show ?thesis
    using full_beacon_never_rolls_back [OF run s(2), of 2 ap_stalled] e by simp
qed

end
