(* ===== verification/Adaptive_Gate.thy ===== *)
theory Adaptive_Gate
  imports Adaptive_Actions
begin

text \<open>
  The gate that holds actions back until an epoch starts (adaptive/epoch_gate.go): a cooldown between
  applied actions, one pending action, and a bypass for emergencies.  The clock is an argument.
\<close>

section \<open>The gate\<close>

record gate_config =
  gc_MinCooldownEpochs :: u64
  gc_AllowEmergencyBypass :: bool
  gc_MaxPendingAge :: int

definition DefaultEpochGateConfig :: gate_config where
  "DefaultEpochGateConfig = \<lparr> gc_MinCooldownEpochs = 2, gc_AllowEmergencyBypass = True, gc_MaxPendingAge = 30 * 1000000000 \<rparr>"

datatype GateResult = GateApplied | GateDeferred | GateDropped | GateEmergency

record pending_action =
  pn_Action :: action
  pn_SubmittedAt :: int
  pn_Epoch :: u64

record epoch_gate =
  eg_config :: gate_config
  eg_currentEpoch :: u64
  eg_lastAppliedEpoch :: u64
  eg_hasApplied :: bool
  eg_pending :: "pending_action option"
  eg_totalSubmitted :: nat
  eg_totalApplied :: nat
  eg_totalDeferred :: nat
  eg_totalDropped :: nat
  eg_totalEmergency :: nat
  eg_totalStale :: nat

definition NewEpochGate :: "gate_config \<Rightarrow> epoch_gate" where
  "NewEpochGate config = \<lparr> eg_config = (if gc_MinCooldownEpochs config = 0 then config\<lparr>gc_MinCooldownEpochs := 1\<rparr> else config),
     eg_currentEpoch = 0, eg_lastAppliedEpoch = 0, eg_hasApplied = False, eg_pending = None, eg_totalSubmitted = 0, eg_totalApplied = 0,
     eg_totalDeferred = 0, eg_totalDropped = 0, eg_totalEmergency = 0, eg_totalStale = 0 \<rparr>"

definition canApplyAt :: "u64 \<Rightarrow> epoch_gate \<Rightarrow> bool" where
  "canApplyAt epoch eg \<longleftrightarrow> \<not> eg_hasApplied eg \<or> eg_lastAppliedEpoch eg + gc_MinCooldownEpochs (eg_config eg) \<le> epoch"

definition eg_Submit :: "action \<Rightarrow> bool \<Rightarrow> int \<Rightarrow> epoch_gate \<Rightarrow> epoch_gate \<times> GateResult" where
  "eg_Submit a emergency now eg0 =
     (let eg = eg0\<lparr>eg_totalSubmitted := eg_totalSubmitted eg0 + 1\<rparr>
      in if emergency \<and> gc_AllowEmergencyBypass (eg_config eg)
         then (eg\<lparr> eg_totalEmergency := eg_totalEmergency eg + 1, eg_lastAppliedEpoch := eg_currentEpoch eg,
                 eg_hasApplied := True, eg_pending := None \<rparr>, GateEmergency)
         else if canApplyAt (eg_currentEpoch eg) eg
         then (eg\<lparr> eg_totalApplied := eg_totalApplied eg + 1, eg_lastAppliedEpoch := eg_currentEpoch eg,
                 eg_hasApplied := True, eg_pending := None \<rparr>, GateApplied)
         else (eg\<lparr> eg_totalDropped := (if eg_pending eg = None then eg_totalDropped eg else eg_totalDropped eg + 1),
                 eg_pending := Some \<lparr> pn_Action = a, pn_SubmittedAt = now, pn_Epoch = eg_currentEpoch eg \<rparr>,
                 eg_totalDeferred := eg_totalDeferred eg + 1 \<rparr>,
               if eg_pending eg = None then GateDeferred else GateDropped))"

definition eg_AdvanceEpoch :: "u64 \<Rightarrow> int \<Rightarrow> epoch_gate \<Rightarrow> epoch_gate \<times> action option" where
  "eg_AdvanceEpoch newEpoch now eg0 = (if newEpoch \<le> eg_currentEpoch eg0 then (eg0, None)
     else let eg = eg0\<lparr>eg_currentEpoch := newEpoch\<rparr>
       in case eg_pending eg of None \<Rightarrow> (eg, None)
       | Some p \<Rightarrow>
           if 0 < gc_MaxPendingAge (eg_config eg) \<and> gc_MaxPendingAge (eg_config eg) < now - pn_SubmittedAt p
           then (eg\<lparr> eg_totalStale := eg_totalStale eg + 1, eg_pending := None \<rparr>, None)
           else if canApplyAt newEpoch eg
           then (eg\<lparr> eg_pending := None, eg_totalApplied := eg_totalApplied eg + 1, eg_lastAppliedEpoch := newEpoch,
                   eg_hasApplied := True \<rparr>, Some (pn_Action p))
           else (eg, None))"

section \<open>Runs\<close>

text \<open>The actions let through in a run: the epoch of each and whether it was an emergency.\<close>

inductive gate_run :: "gate_config \<Rightarrow> epoch_gate \<Rightarrow> (u64 \<times> bool) list \<Rightarrow> bool" for config where
  new: "gate_run config (NewEpochGate config) []"
| submitted: "gate_run config eg evs \<Longrightarrow> eg_Submit a emergency now eg = (eg', r) \<Longrightarrow>
    gate_run config eg' (evs @ (case r of GateApplied \<Rightarrow> [(eg_currentEpoch eg, False)]
      | GateEmergency \<Rightarrow> [(eg_currentEpoch eg, True)] | _ \<Rightarrow> []))"
| advanced: "gate_run config eg evs \<Longrightarrow> eg_AdvanceEpoch e now eg = (eg', r) \<Longrightarrow>
    gate_run config eg' (evs @ (case r of Some a \<Rightarrow> [(e, False)] | None \<Rightarrow> []))"

definition gate_cooldown :: "gate_config \<Rightarrow> u64" where
  "gate_cooldown config = (if gc_MinCooldownEpochs config = 0 then 1 else gc_MinCooldownEpochs config)"

definition spaced :: "u64 \<Rightarrow> (u64 \<times> bool) \<Rightarrow> (u64 \<times> bool) \<Rightarrow> bool" where
  "spaced c x y \<longleftrightarrow> fst x \<le> fst y \<and> (snd y \<or> unat (fst x) + unat c \<le> unat (fst y))"

definition gate_inv :: "gate_config \<Rightarrow> epoch_gate \<Rightarrow> (u64 \<times> bool) list \<Rightarrow> bool" where
  "gate_inv config eg evs \<longleftrightarrow> gc_MinCooldownEpochs (eg_config eg) = gate_cooldown config \<and> (eg_hasApplied eg \<longleftrightarrow> evs \<noteq> []) \<and>
     (evs \<noteq> [] \<longrightarrow> fst (last evs) = eg_lastAppliedEpoch eg) \<and> eg_lastAppliedEpoch eg \<le> eg_currentEpoch eg \<and>
     successively (spaced (gate_cooldown config)) evs"

lemma gate_inv_append:
  assumes "gate_inv config eg evs" and "eg_currentEpoch eg \<le> e" and "em \<or> canApplyAt e eg"
    and "unat e + unat (gate_cooldown config) < 2 ^ 64"
  shows "successively (spaced (gate_cooldown config)) (evs @ [(e, em)])"
proof (cases "evs = []")
  case False
  let ?c = "gate_cooldown config" and ?l = "eg_lastAppliedEpoch eg"
  have last: "fst (last evs) = ?l" "eg_hasApplied eg" "?l \<le> e" "gc_MinCooldownEpochs (eg_config eg) = ?c"
    using assms(1,2) False by (auto simp: gate_inv_def)
  have "unat (?l + ?c) = unat ?l + unat ?c"
    using assms(4) last(3) by (simp add: unat_word_ariths word_le_nat_alt)
  then have "em \<or> unat ?l + unat ?c \<le> unat e"
    using assms(3) last(2,4) by (auto simp: canApplyAt_def word_le_nat_alt)
  with assms(1) False last(1,3) show ?thesis
    by (auto simp: gate_inv_def successively_append_iff spaced_def)
qed simp

lemma gate_run_inv:
  assumes "gate_run config eg evs" and "unat (eg_currentEpoch eg) + unat (gate_cooldown config) < 2 ^ 64"
  shows "gate_inv config eg evs"
  using assms
proof (induction rule: gate_run.induct)
  case new
  then show ?case by (simp add: gate_inv_def NewEpochGate_def gate_cooldown_def)
next
  case (submitted eg evs a emergency now eg' r)
  have same: "eg_currentEpoch eg' = eg_currentEpoch eg" "eg_config eg' = eg_config eg"
    using submitted(2) by (auto simp: eg_Submit_def Let_def split: if_splits)
  have inv: "gate_inv config eg evs" using submitted same(1) by simp
  show ?case
  proof (cases "r = GateApplied \<or> r = GateEmergency")
    case True
    have "r = GateEmergency \<or> canApplyAt (eg_currentEpoch eg) eg"
      using submitted(2) True by (auto simp: eg_Submit_def Let_def canApplyAt_def split: if_splits)
    with gate_inv_append [OF inv order.refl, of "r = GateEmergency"] submitted(4) same(1)
    have "successively (spaced (gate_cooldown config)) (evs @ [(eg_currentEpoch eg, r = GateEmergency)])" by simp
    moreover have "eg_hasApplied eg'" "eg_lastAppliedEpoch eg' = eg_currentEpoch eg"
      using submitted(2) True by (auto simp: eg_Submit_def Let_def split: if_splits)
    ultimately show ?thesis using True inv same by (auto simp: gate_inv_def)
  next
    case False
    then have "eg_hasApplied eg' = eg_hasApplied eg" "eg_lastAppliedEpoch eg' = eg_lastAppliedEpoch eg"
      using submitted(2) by (auto simp: eg_Submit_def Let_def split: if_splits)
    with False inv same show ?thesis by (cases r) (auto simp: gate_inv_def)
  qed
next
  case (advanced eg evs e now eg' r)
  have le: "eg_currentEpoch eg \<le> eg_currentEpoch eg'" and cfg: "eg_config eg' = eg_config eg"
    using advanced(2) by (auto simp: eg_AdvanceEpoch_def Let_def split: if_splits option.splits)
  then have inv: "gate_inv config eg evs"
    using advanced(3,4) by (simp add: word_le_nat_alt)
  show ?case
  proof (cases r)
    case None
    then have "eg_hasApplied eg' = eg_hasApplied eg" "eg_lastAppliedEpoch eg' = eg_lastAppliedEpoch eg"
      using advanced(2) by (auto simp: eg_AdvanceEpoch_def Let_def split: if_splits option.splits)
    with None inv le cfg show ?thesis by (auto simp: gate_inv_def)
  next
    case (Some x)
    then have r: "eg_currentEpoch eg' = e" "eg_hasApplied eg'" "eg_lastAppliedEpoch eg' = e" "canApplyAt e eg"
      using advanced(2) by (auto simp: eg_AdvanceEpoch_def Let_def canApplyAt_def split: if_splits option.splits)
    with gate_inv_append [OF inv, of e False] le advanced(4) Some inv cfg show ?thesis
      by (auto simp: gate_inv_def)
  qed
qed

text \<open>
  C23: no oscillation: in every run, actions are let through in the order of their epochs, and except
  for emergencies each one comes at least the cooldown, and at least one epoch, after the one before.
\<close>

theorem gate_respects_cooldown:
  assumes "gate_run config eg evs" and "unat (eg_currentEpoch eg) + unat (gate_cooldown config) < 2 ^ 64"
  shows "successively (spaced (gate_cooldown config)) evs \<and> 0 < gate_cooldown config"
  using gate_run_inv [OF assms] by (auto simp: gate_inv_def gate_cooldown_def word_gt_0)

text \<open>An action at once, a second one held, and released two epochs later.\<close>

theorem gate_respects_cooldown_witness:
  "\<exists>eg. gate_run DefaultEpochGateConfig eg [(0, False), (2, False)] \<and> successively (spaced 2) [(0, False), (2, False)]"
proof -
  let ?a = "noop_action []" and ?g0 = "NewEpochGate DefaultEpochGateConfig"
  let ?g1 = "fst (eg_Submit ?a False 0 ?g0)"
  let ?g2 = "fst (eg_Submit ?a False 5 ?g1)"
  let ?g3 = "fst (eg_AdvanceEpoch 2 9 ?g2)"
  have s: "eg_Submit ?a False 0 ?g0 = (?g1, GateApplied)" "eg_Submit ?a False 5 ?g1 = (?g2, GateDeferred)"
      "eg_AdvanceEpoch 2 9 ?g2 = (?g3, Some ?a)" "eg_currentEpoch ?g0 = 0" "eg_currentEpoch ?g3 = 2"
    by (simp_all add: eg_Submit_def eg_AdvanceEpoch_def canApplyAt_def NewEpochGate_def DefaultEpochGateConfig_def Let_def)
  have run: "gate_run DefaultEpochGateConfig ?g3 [(0, False), (2, False)]"
    using gate_run.advanced [OF gate_run.submitted [OF gate_run.submitted [OF gate_run.new s(1)] s(2)] s(3)] s(4) by simp
  have c: "gate_cooldown DefaultEpochGateConfig = 2"
    by (simp add: gate_cooldown_def DefaultEpochGateConfig_def)
  have "unat (eg_currentEpoch ?g3) + unat (gate_cooldown DefaultEpochGateConfig) < 2 ^ 64"
    unfolding s(5) c by simp
  from gate_respects_cooldown [OF run this] run c show ?thesis by auto
qed

end
