(* ===== verification/Adaptive_Policy.thy ===== *)
theory Adaptive_Policy
  imports Adaptive_Actions
begin

text \<open>
  Policies of the adaptive layer: the safe baseline and the fallbacks of the remote ones
  (adaptive/policy.go), the conversion of the answer of the trained policy (sfac_actions.go, sfac_policy.go), and the
  circuit breaker of the client that asks for it (resilient.go).  The HTTP exchange, and the
  floating-point rule that turns a parameter vector into parameters, are arguments.
\<close>

section \<open>The safe baseline\<close>

definition hold_action :: "observation \<Rightarrow> string \<Rightarrow> action" where
  "hold_action obs reason = (noop_action reason)\<lparr> ac_CommitteeSize := ob_CommitteeSize obs,
     ac_PacemakerTimeoutMs := ob_PacemakerTimeoutMs obs, ac_MempoolMaxBatchTxs := ob_MempoolMaxBatchTxs obs,
     ac_MempoolProposalIntervalMs := ob_MempoolProposalIntervalMs obs \<rparr>"

definition degraded :: "observation \<Rightarrow> bool" where
  "degraded obs \<longleftrightarrow> 500 \<le> ob_LatencyP95Ms obs \<or> 256 \<le> ob_BacklogPending obs \<or> 0 < ob_RejectTotal obs"

text \<open>\<open>int\<close> of an unsigned sum reads it as a signed one.\<close>

definition SafeBaseline_Decide :: "observation \<Rightarrow> action" where
  "SafeBaseline_Decide obs =
     (let hold = hold_action obs ''hold''; target = sint (max (ob_CurrentConfigID obs) (ob_HighestKnownConfigID obs) + 1)
      in if \<not> ob_CanParticipate obs then hold\<lparr> ac_HydraDiscoveryTarget := target, ac_Reason := ''membership-catch-up'' \<rparr>
         else if \<not> ob_LocalValidator obs \<and> ob_PendingJoins obs = 0
         then hold\<lparr> ac_SubmitJoin := True, ac_HydraDiscoveryTarget := target, ac_Reason := ''membership-join'' \<rparr>
         else if \<not> ob_LocalValidator obs \<and> 0 < ob_PendingJoins obs \<and> ob_HighestKnownConfigID obs \<le> ob_CurrentConfigID obs
         then hold\<lparr> ac_SubmitJoin := True, ac_HydraDiscoveryTarget := sint (ob_CurrentConfigID obs + 1), ac_Reason := ''membership-join-retry'' \<rparr>
         else if ob_LocalValidator obs \<and> 0 < ob_PendingLeaves obs
         then hold\<lparr> ac_SubmitLeave := True, ac_Reason := ''membership-leave-retry'' \<rparr>
         else if degraded obs
         then hold\<lparr> ac_PacemakerTimeoutMs := max (ob_PacemakerTimeoutMs obs + 250) 500,
                ac_MempoolMaxBatchTxs := max (ob_MempoolMaxBatchTxs obs div 2) 128,
                ac_MempoolProposalIntervalMs := min (ob_MempoolProposalIntervalMs obs + 25) 500, ac_Reason := ''degraded-path'' \<rparr>
         else if 0 < ob_ThroughputTPS obs \<and> ob_LatencyP95Ms obs < 200 \<and> ob_BacklogPending obs < 32
         then hold\<lparr> ac_PacemakerTimeoutMs := max (ob_PacemakerTimeoutMs obs - 100) 250,
                ac_MempoolMaxBatchTxs := min (ob_MempoolMaxBatchTxs obs + 256) 4096,
                ac_MempoolProposalIntervalMs := max (ob_MempoolProposalIntervalMs obs - 10) 25, ac_Reason := ''healthy-path'' \<rparr>
         else hold)"

section \<open>Remote policies\<close>

definition mergeHTTPActionFallback :: "action \<Rightarrow> action \<Rightarrow> action" where
  "mergeHTTPActionFallback a fallback = a\<lparr>
     ac_CommitteeSize := (if ac_CommitteeSize a = 0 then ac_CommitteeSize fallback else ac_CommitteeSize a),
     ac_PacemakerTimeoutMs := (if ac_PacemakerTimeoutMs a = 0 then ac_PacemakerTimeoutMs fallback else ac_PacemakerTimeoutMs a),
     ac_MempoolMaxBatchTxs := (if ac_MempoolMaxBatchTxs a = 0 then ac_MempoolMaxBatchTxs fallback else ac_MempoolMaxBatchTxs a),
     ac_MempoolProposalIntervalMs := (if ac_MempoolProposalIntervalMs a = 0 then ac_MempoolProposalIntervalMs fallback
       else ac_MempoolProposalIntervalMs a) \<rparr>"

text \<open>The answer of the exchange is an action, or the reason why there is none.\<close>

definition HTTP_Decide :: "(observation \<Rightarrow> string + action) \<Rightarrow> observation \<Rightarrow> action" where
  "HTTP_Decide exchange obs = (case exchange obs of
     Inl reason \<Rightarrow> hold_action obs reason
   | Inr a \<Rightarrow> let merged = mergeHTTPActionFallback a (hold_action obs [])
       in if ac_Reason merged = [] then merged\<lparr>ac_Reason := ''http-policy''\<rparr> else merged)"

definition Scripted_Decide :: "(unit \<Rightarrow> string + action) \<Rightarrow> observation \<Rightarrow> action" where
  "Scripted_Decide script obs = (case script () of Inl reason \<Rightarrow> hold_action obs reason
     | Inr a \<Rightarrow> if ac_Reason a = [] then a\<lparr>ac_Reason := ''scripted''\<rparr> else a)"

definition baseAgentAction :: "u64 \<Rightarrow> observation \<Rightarrow> agent_action" where
  "baseAgentAction i obs = (let blank = \<lparr> aa_InstanceID = i, aa_CommitteeSize = ob_CommitteeSize obs,
       aa_PacemakerTimeoutMs = ob_PacemakerTimeoutMs obs, aa_MempoolMaxBatchTxs = ob_MempoolMaxBatchTxs obs,
       aa_MempoolProposalIntervalMs = ob_MempoolProposalIntervalMs obs, aa_Reconfig = [], aa_ReconfigEvictNodeIDs = [],
       aa_ReconfigAdmitNodeIDs = [], aa_RotateLeader = False \<rparr>
     in case find (\<lambda>o1. ao_InstanceID o1 = i) (ob_Agents obs) of None \<Rightarrow> blank | Some o1 \<Rightarrow> tuning_of o1 blank)"

fun applySFACReconfig :: "int list \<Rightarrow> u64 list \<Rightarrow> agent_action \<Rightarrow> agent_action" where
  "applySFACReconfig (d # ds) (n # ns) a = applySFACReconfig ds ns
     (if d = 0 then a
      else if d < 0 then a\<lparr>aa_ReconfigEvictNodeIDs := aa_ReconfigEvictNodeIDs a @ [n]\<rparr>
      else a\<lparr>aa_ReconfigAdmitNodeIDs := aa_ReconfigAdmitNodeIDs a @ [n]\<rparr>)"
| "applySFACReconfig _ _ a = a"

record 'p sfac_action =
  sx_InstanceID :: u64
  sx_Reconfig :: "int list"
  sx_Rotate :: bool
  sx_Params :: 'p

definition sfacActionFromTuple :: "('p \<Rightarrow> agent_action \<Rightarrow> agent_action) \<Rightarrow> observation \<Rightarrow> 'p sfac_action \<Rightarrow> agent_action" where
  "sfacActionFromTuple applySFACParams obs s = applySFACParams (sx_Params s)
     (applySFACReconfig (sx_Reconfig s) (ob_TrustNodeIDs obs)
       ((baseAgentAction (sx_InstanceID s) obs)\<lparr> aa_Reconfig := sx_Reconfig s, aa_RotateLeader := sx_Rotate s \<rparr>))"

definition convertSFACResponse :: "('p \<Rightarrow> agent_action \<Rightarrow> agent_action) \<Rightarrow> 'p sfac_action list \<Rightarrow> observation \<Rightarrow> action" where
  "convertSFACResponse applySFACParams answers obs =
     (hold_action obs ''sfac-policy'')\<lparr>ac_AgentActions := map (sfacActionFromTuple applySFACParams obs) answers\<rparr>"

section \<open>The circuit breaker\<close>

datatype circuit_state = circuitClosed | circuitOpen | circuitHalfOpen

record resilient_client =
  rc_MaxRetries :: nat
  rc_ConsecutiveFailures :: int
  rc_OpenDuration :: int
  rc_failures :: int
  rc_circuitOpenAt :: int
  rc_circuitState :: circuit_state

definition DefaultResilientClient :: resilient_client where
  "DefaultResilientClient = \<lparr> rc_MaxRetries = 2, rc_ConsecutiveFailures = 5, rc_OpenDuration = 10 * 1000000000,
     rc_failures = 0, rc_circuitOpenAt = 0, rc_circuitState = circuitClosed \<rparr>"

text \<open>Whether a request may be sent.\<close>

definition checkCircuit :: "int \<Rightarrow> resilient_client \<Rightarrow> resilient_client \<times> bool" where
  "checkCircuit now c = (case rc_circuitState c of
     circuitOpen \<Rightarrow> if rc_OpenDuration c \<le> now - rc_circuitOpenAt c then (c\<lparr>rc_circuitState := circuitHalfOpen\<rparr>, True) else (c, False)
   | circuitHalfOpen \<Rightarrow> (c, True)
   | circuitClosed \<Rightarrow> (c, True))"

definition recordSuccess :: "resilient_client \<Rightarrow> resilient_client" where
  "recordSuccess c = c\<lparr> rc_failures := 0, rc_circuitState := circuitClosed \<rparr>"

definition recordFailure :: "int \<Rightarrow> resilient_client \<Rightarrow> resilient_client" where
  "recordFailure now c = (let f = rc_failures c + 1
     in if rc_ConsecutiveFailures c \<le> f then c\<lparr> rc_failures := f, rc_circuitState := circuitOpen, rc_circuitOpenAt := now \<rparr>
        else c\<lparr>rc_failures := f\<rparr>)"

datatype exchange = Reply nat | NetworkError

fun defaultRetryableCheck :: "exchange \<Rightarrow> bool" where
  "defaultRetryableCheck NetworkError = True"
| "defaultRetryableCheck (Reply status) = (500 \<le> status)"

text \<open>The attempts of one call: the first answer that is not retried, or the last one.\<close>

fun attempts :: "nat \<Rightarrow> exchange list \<Rightarrow> exchange option \<Rightarrow> exchange option \<times> bool" where
  "attempts 0 rs r = (r, False)"
| "attempts (Suc n) [] r = (r, False)"
| "attempts (Suc n) (r1 # rs) r = (if defaultRetryableCheck r1 then attempts n rs (Some r1) else (Some r1, True))"

definition rc_Do :: "int \<Rightarrow> int \<Rightarrow> exchange list \<Rightarrow> resilient_client \<Rightarrow> resilient_client \<times> exchange option" where
  "rc_Do now later answers c = (case checkCircuit now c of
     (c', False) \<Rightarrow> (c', None)
   | (c', True) \<Rightarrow> (case attempts (Suc (rc_MaxRetries c')) answers None of
       (r, True) \<Rightarrow> (recordSuccess c', r)
     | (r, False) \<Rightarrow> (recordFailure later c', r)))"

inductive breaker_run :: "resilient_client \<Rightarrow> resilient_client \<Rightarrow> bool" for c0 where
  fresh: "breaker_run c0 c0"
| call: "breaker_run c0 c \<Longrightarrow> rc_Do now later answers c = (c', r) \<Longrightarrow> breaker_run c0 c'"

text \<open>The circuit is closed exactly while fewer calls than the limit have failed in a row.\<close>

lemma breaker_closed_iff:
  assumes "breaker_run c0 c" and "rc_failures c0 = 0" and "rc_circuitState c0 = circuitClosed" and "0 < rc_ConsecutiveFailures c0"
  shows "rc_ConsecutiveFailures c = rc_ConsecutiveFailures c0 \<and> 0 \<le> rc_failures c \<and>
    (rc_circuitState c = circuitClosed \<longleftrightarrow> rc_failures c < rc_ConsecutiveFailures c)"
  using assms
proof (induction rule: breaker_run.induct)
  case (call c now later answers c' r)
  then show ?case
    by (auto simp: rc_Do_def checkCircuit_def recordSuccess_def recordFailure_def Let_def split: circuit_state.splits prod.splits bool.splits if_splits)
qed simp

section \<open>What governance leaves of the baseline\<close>

text \<open>
  The retries of the safe baseline never happen.  Both of its retry branches require a pending
  join or leave, and governance freezes the membership exactly then: the baseline asks to join or to leave again, and
  the governed action does neither.
\<close>

theorem baseline_retries_blocked:
  assumes "ob_CanParticipate obs" and "\<not> ob_LocalValidator obs \<and> 0 < ob_PendingJoins obs \<and> ob_HighestKnownConfigID obs \<le> ob_CurrentConfigID obs \<or>
    ob_LocalValidator obs \<and> 0 < ob_PendingLeaves obs"
  shows "(let a = SafeBaseline_Decide obs; b = fst (Governance_Sanitize obs a)
    in (ac_SubmitJoin a \<or> ac_SubmitLeave a) \<and> \<not> ac_SubmitJoin b \<and> \<not> ac_SubmitLeave b)"
proof -
  have "ac_SubmitJoin (SafeBaseline_Decide obs) \<or> ac_SubmitLeave (SafeBaseline_Decide obs)"
    using assms by (auto simp: SafeBaseline_Decide_def Let_def)
  then show ?thesis
    using assms(2) by (auto simp: Governance_Sanitize_def Evaluate_def Let_def)
qed

text \<open>
  The safe baseline is safe for the guardrails: if the parameters in force are within the default bounds, it
  proposes parameters that the guardrails leave alone, except for a timeout raised above its maximum and a
  committee of unusable size.
\<close>

theorem baseline_within_guardrails:
  assumes "250 \<le> ob_PacemakerTimeoutMs obs" and "ob_PacemakerTimeoutMs obs \<le> 4750" and "1 \<le> ob_MempoolMaxBatchTxs obs"
    and "ob_MempoolMaxBatchTxs obs \<le> 8192" and "10 \<le> ob_MempoolProposalIntervalMs obs" and "ob_MempoolProposalIntervalMs obs \<le> 2000"
  shows "(let a = SafeBaseline_Decide obs; b = Guardrails_Sanitize DefaultGuardrails obs a
    in ac_PacemakerTimeoutMs b = ac_PacemakerTimeoutMs a \<and> ac_MempoolMaxBatchTxs b = ac_MempoolMaxBatchTxs a \<and>
       ac_MempoolProposalIntervalMs b = ac_MempoolProposalIntervalMs a)"
proof -
  have div2: "ob_MempoolMaxBatchTxs obs div 2 \<le> 8192" using assms(4) by simp
  show ?thesis
    using assms div2 unfolding SafeBaseline_Decide_def Guardrails_Sanitize_def DefaultGuardrails_def hold_action_def noop_action_def Let_def clampInt_def
    by (auto simp: max_def min_def)
qed

section \<open>Examples\<close>

text \<open>A validator whose leave is pending asks to leave again.\<close>

definition po_obs :: observation where
  "po_obs = \<lparr> ob_Epoch = 1, ob_ValidatorCount = 7, ob_CurrentConfigID = 1, ob_HighestKnownConfigID = 1, ob_CommitteeSize = 4,
     ob_PacemakerTimeoutMs = 500, ob_MempoolMaxBatchTxs = 100, ob_MempoolProposalIntervalMs = 50, ob_ThroughputTPS = 0,
     ob_LatencyP95Ms = 0, ob_BacklogPending = 0, ob_BacklogMissing = 0, ob_RejectTotal = 0, ob_PendingJoins = 0,
     ob_PendingLeaves = 1, ob_CanParticipate = True, ob_LocalValidator = True, ob_ChurnRate = 0, ob_AdversaryScore = 0,
     ob_Agents = [], ob_TrustNodeIDs = [] \<rparr>"

theorem baseline_retries_blocked_witness:
  "ac_Reason (SafeBaseline_Decide po_obs) = ''membership-leave-retry'' \<and>
   \<not> ac_SubmitLeave (fst (Governance_Sanitize po_obs (SafeBaseline_Decide po_obs)))"
proof -
  have "ob_CanParticipate po_obs" "ob_LocalValidator po_obs \<and> 0 < ob_PendingLeaves po_obs" by (simp_all add: po_obs_def)
  with baseline_retries_blocked [of po_obs] have "\<not> ac_SubmitLeave (fst (Governance_Sanitize po_obs (SafeBaseline_Decide po_obs)))"
    by (simp add: Let_def)
  then show ?thesis by (simp add: SafeBaseline_Decide_def po_obs_def Let_def)
qed

end
