(* ===== verification/Adaptive_Control.thy ===== *)
theory Adaptive_Control
  imports Adaptive_Safety Adaptive_Gate Adaptive_Policy
begin

text \<open>
  The controller of the adaptive layer (adaptive/controller.go): one tick takes the policy's action through governance,
  the guardrails, the safety filter and the epoch gate to the actuator.  Rewards, statistics and
  feedback do not change what is applied, except through the policy's next decision, which is arbitrary here.  The policy,
  the observer and the actuator are arguments that may be missing; the result lists the actions
  handed to the actuator.
\<close>

section \<open>One tick\<close>

text \<open>The last decision as it is kept: without reasons, notes and agent actions.\<close>

record decision =
  dn_Candidate :: action
  dn_Governed :: action
  dn_GovernedMutated :: bool
  dn_BlockedFields :: "string list"
  dn_Masked :: action
  dn_MaskedMutated :: bool
  dn_Applied :: action
  dn_AppliedPresent :: bool

record controller =
  ct_WarmupEpochs :: u64
  ct_guardrail :: guardrails
  ct_safetyFilter :: "safety_filter option"
  ct_epochGate :: "epoch_gate option"
  ct_epochCounter :: u64
  ct_last :: "decision option"

definition NewController :: "u64 \<Rightarrow> guardrails \<Rightarrow> controller" where
  "NewController warmup guardrail = \<lparr> ct_WarmupEpochs = warmup, ct_guardrail = guardrail, ct_safetyFilter = None,
     ct_epochGate = None, ct_epochCounter = 0, ct_last = None \<rparr>"

definition SetSafetyFilter :: "safety_filter option \<Rightarrow> controller \<Rightarrow> controller" where
  "SetSafetyFilter sf c = c\<lparr>ct_safetyFilter := sf\<rparr>"

definition SetEpochGate :: "epoch_gate option \<Rightarrow> controller \<Rightarrow> controller" where
  "SetEpochGate gate c = c\<lparr>ct_epochGate := gate\<rparr>"

definition redactAction :: "action \<Rightarrow> action" where
  "redactAction a = a\<lparr> ac_Reason := [], ac_AgentActions := [] \<rparr>"

definition candidate_of :: "u64 \<Rightarrow> controller \<Rightarrow> (observation \<Rightarrow> action) \<Rightarrow> observation \<Rightarrow> action" where
  "candidate_of counter c decide obs = (if 0 < ct_WarmupEpochs c \<and> counter \<le> ct_WarmupEpochs c
     then noop_action ''cold-start-noop'' else decide obs)"

definition filtered :: "controller \<Rightarrow> observation \<Rightarrow> action \<Rightarrow> action \<times> u64 list \<times> bool" where
  "filtered c obs governed = (let masked = Guardrails_Sanitize (ct_guardrail c) obs governed
     in case ct_safetyFilter c of None \<Rightarrow> (masked, [], False) | Some sf \<Rightarrow> MaskUnsafeAction sf obs masked)"

definition gated :: "action \<Rightarrow> bool \<Rightarrow> int \<Rightarrow> controller \<Rightarrow> controller \<times> bool" where
  "gated masked emergency now c = (case ct_epochGate c of None \<Rightarrow> (c, True)
     | Some g \<Rightarrow> (case eg_Submit masked emergency now g of (g', r) \<Rightarrow>
         (c\<lparr>ct_epochGate := Some g'\<rparr>, r \<noteq> GateDeferred \<and> r \<noteq> GateDropped)))"

text \<open>
  Governance changes the agent actions in the array the candidate shares with it, so what is compared and
  reported as the candidate already has the governed agent actions.
\<close>

definition decision_of :: "action \<Rightarrow> action \<Rightarrow> governance_decision \<Rightarrow> action \<Rightarrow> decision" where
  "decision_of candidate governed gd masked =
     (let seen = candidate\<lparr>ac_AgentActions := ac_AgentActions governed\<rparr>
      in \<lparr> dn_Candidate = redactAction seen, dn_Governed = redactAction governed, dn_GovernedMutated = (seen \<noteq> governed),
           dn_BlockedFields = gd_BlockedFields gd, dn_Masked = redactAction masked, dn_MaskedMutated = (governed \<noteq> masked),
           dn_Applied = redactAction masked, dn_AppliedPresent = True \<rparr>)"

definition Tick ::
  "(observation \<Rightarrow> action) option \<Rightarrow> observation option \<Rightarrow> (action \<Rightarrow> string option) option \<Rightarrow> int \<Rightarrow> controller \<Rightarrow>
   controller \<times> action list \<times> string option" where
  "Tick policy observe actuator now c =
     (case policy of None \<Rightarrow> (c, [], None)
      | Some decide \<Rightarrow> (case (observe, actuator) of
          (Some obs, Some apply) \<Rightarrow>
            let c1 = c\<lparr>ct_epochCounter := ct_epochCounter c + 1\<rparr>;
                candidate = candidate_of (ct_epochCounter c1) c1 decide obs;
                (governed, gd) = Governance_Sanitize obs candidate;
                (masked, ids, emergency) = filtered c1 obs governed;
                (c2, applied) = gated masked emergency now c1;
                c3 = c2\<lparr>ct_last := Some (decision_of candidate governed gd masked)\<rparr>
            in if applied then (case apply masked of Some err \<Rightarrow> (c2, [masked], Some err) | None \<Rightarrow> (c3, [masked], None))
               else (c3, [], None)
        | _ \<Rightarrow> (c, [], Some ''controller missing observer or actuator'')))"

text \<open>A new epoch releases the action the gate holds.\<close>

definition ct_AdvanceEpoch :: "u64 \<Rightarrow> (action \<Rightarrow> string option) option \<Rightarrow> int \<Rightarrow> controller \<Rightarrow> controller \<times> action list \<times> string option" where
  "ct_AdvanceEpoch epoch actuator now c = (case ct_epochGate c of None \<Rightarrow> (c, [], None)
     | Some g \<Rightarrow> (case eg_AdvanceEpoch epoch now g of (g', released) \<Rightarrow>
         let c' = c\<lparr>ct_epochGate := Some g'\<rparr>
         in case (released, actuator) of (Some a, Some apply) \<Rightarrow> (c', [a], apply a) | _ \<Rightarrow> (c', [], None)))"

section \<open>Runs\<close>

text \<open>
  The observations made and the actions handed to the actuator since the start; the first controller
  has an empty gate.
\<close>

inductive control_run :: "guardrails \<Rightarrow> controller \<Rightarrow> observation set \<Rightarrow> action list \<Rightarrow> bool" for g where
  start: "ct_guardrail c = g \<Longrightarrow> (\<And>gate. ct_epochGate c = Some gate \<Longrightarrow> eg_pending gate = None) \<Longrightarrow> control_run g c {} []"
| tick: "control_run g c seen as \<Longrightarrow> Tick policy observe actuator now c = (c', new, err) \<Longrightarrow>
    control_run g c' (seen \<union> set_option observe) (as @ new)"
| advance: "control_run g c seen as \<Longrightarrow> ct_AdvanceEpoch epoch actuator now c = (c', new, err) \<Longrightarrow>
    control_run g c' seen (as @ new)"

definition agent_in_bounds :: "guardrails \<Rightarrow> observation \<Rightarrow> agent_action \<Rightarrow> bool" where
  "agent_in_bounds g obs a \<longleftrightarrow>
     committee_ok g (map_option ao_ValidatorCount (last_agent obs (aa_InstanceID a))) (aa_CommitteeSize a) \<and>
     gr_MinPacemakerTimeoutMs g \<le> aa_PacemakerTimeoutMs a \<and> aa_PacemakerTimeoutMs a \<le> gr_MaxPacemakerTimeoutMs g \<and>
     gr_MinMempoolBatchTxs g \<le> aa_MempoolMaxBatchTxs a \<and> aa_MempoolMaxBatchTxs a \<le> gr_MaxMempoolBatchTxs g \<and>
     gr_MinProposalIntervalMs g \<le> aa_MempoolProposalIntervalMs a \<and> aa_MempoolProposalIntervalMs a \<le> gr_MaxProposalIntervalMs g"

text \<open>
  An agent action within the bounds, or what the mask makes of one: it reconfigures nothing, and keeps
  the parameters that were observed of its instance if there is an observation of it.
\<close>

definition agent_well_formed :: "guardrails \<Rightarrow> observation \<Rightarrow> agent_action \<Rightarrow> bool" where
  "agent_well_formed g obs x \<longleftrightarrow> (\<exists>y. agent_in_bounds g obs y \<and> (x = y \<or> x = no_reconfig y \<or>
     (\<exists>o1 \<in> set (ob_Agents obs). ao_InstanceID o1 = aa_InstanceID y \<and> x = tuning_of o1 (no_reconfig y))))"

definition well_formed :: "guardrails \<Rightarrow> observation \<Rightarrow> action \<Rightarrow> bool" where
  "well_formed g obs a \<longleftrightarrow> in_bounds g obs a \<and> list_all (agent_well_formed g obs) (ac_AgentActions a)"

text \<open>The bounds refer to one of the observations made.\<close>

definition well_formed_in :: "guardrails \<Rightarrow> observation set \<Rightarrow> action \<Rightarrow> bool" where
  "well_formed_in g seen a \<longleftrightarrow> (\<exists>obs \<in> seen. well_formed g obs a)"

lemma well_formed_in_mono: "well_formed_in g seen a \<Longrightarrow> well_formed_in g (seen \<union> extra) a"
  by (auto simp: well_formed_in_def)

lemma sanitized_agent_in_bounds: "guardrails_ok g \<Longrightarrow> agent_in_bounds g obs (sanitize_agent g obs a)"
  using clampInt_bounds clamp_committee_ok by (simp add: agent_in_bounds_def guardrails_ok_def sanitize_agent_def)

lemma masked_well_formed:
  assumes "agent_in_bounds g obs a"
  shows "agent_well_formed g obs a" "agent_well_formed g obs (mask_agent obs ids a)"
proof -
  show "agent_well_formed g obs a"
    using assms unfolding agent_well_formed_def by blast
  let ?f = "find (\<lambda>o1. ao_InstanceID o1 = aa_InstanceID a) (ob_Agents obs)"
  consider "mask_agent obs ids a = a" | "mask_agent obs ids a = no_reconfig a"
    | o1 where "?f = Some o1" "mask_agent obs ids a = tuning_of o1 (no_reconfig a)"
    by (cases "aa_InstanceID a \<in> set ids"; cases ?f) (simp_all add: mask_agent_def)
  then show "agent_well_formed g obs (mask_agent obs ids a)"
  proof cases
    case 3
    have "o1 \<in> set (ob_Agents obs) \<and> ao_InstanceID o1 = aa_InstanceID a"
      using 3(1) unfolding find_Some_iff by (metis nth_mem)
    with assms 3(2) show ?thesis unfolding agent_well_formed_def by blast
  qed (use assms in \<open>unfold agent_well_formed_def, blast+\<close>)
qed

lemma filtered_well_formed:
  assumes "guardrails_ok (ct_guardrail c)" and "filtered c obs a = (b, ids, m)"
  shows "well_formed (ct_guardrail c) obs b"
proof -
  let ?g = "ct_guardrail c" and ?s = "Guardrails_Sanitize (ct_guardrail c) obs a"
  have s: "in_bounds ?g obs ?s" "list_all (agent_in_bounds ?g obs) (ac_AgentActions ?s)"
    using sanitized_in_bounds sanitized_agent_in_bounds assms(1)
    by (auto simp: Guardrails_Sanitize_def Let_def list_all_iff)
  have "b = ?s \<or> b = ?s\<lparr> ac_SubmitLeave := False, ac_AgentActions := map (mask_agent obs ids) (ac_AgentActions ?s) \<rparr>"
    using assms(2) by (auto simp: filtered_def MaskUnsafeAction_def Let_def split: option.splits if_splits prod.splits)
  then show ?thesis
  proof
    assume "b = ?s"
    with s show ?thesis by (auto simp: well_formed_def list_all_iff intro: masked_well_formed(1))
  next
    assume b: "b = ?s\<lparr> ac_SubmitLeave := False, ac_AgentActions := map (mask_agent obs ids) (ac_AgentActions ?s) \<rparr>"
    have "in_bounds ?g obs b" using s(1) unfolding b by (simp add: in_bounds_def)
    with s(2) show ?thesis unfolding b by (auto simp: well_formed_def list_all_iff intro: masked_well_formed(2))
  qed
qed

definition gate_well_formed :: "guardrails \<Rightarrow> observation set \<Rightarrow> controller \<Rightarrow> bool" where
  "gate_well_formed g seen c \<longleftrightarrow> ct_guardrail c = g \<and>
     (\<forall>gate p. ct_epochGate c = Some gate \<longrightarrow> eg_pending gate = Some p \<longrightarrow> well_formed_in g seen (pn_Action p))"

lemma gate_well_formed_mono: "gate_well_formed g seen c \<Longrightarrow> gate_well_formed g (seen \<union> extra) c"
  unfolding gate_well_formed_def by (blast intro: well_formed_in_mono)

lemma gated_well_formed:
  assumes "gate_well_formed g seen c" and "well_formed_in g seen a" and "gated a emergency now c = (c', ok)"
  shows "gate_well_formed g seen c'"
  using assms by (auto simp: gated_def gate_well_formed_def eg_Submit_def Let_def split: option.splits prod.splits if_splits)

lemma tick_well_formed:
  assumes "gate_well_formed g seen c" and "guardrails_ok g" and "Tick policy observe actuator now c = (c', new, err)"
  shows "gate_well_formed g (seen \<union> set_option observe) c' \<and> list_all (well_formed_in g (seen \<union> set_option observe)) new"
proof (cases "policy = None \<or> observe = None \<or> actuator = None")
  case True
  with assms(3) have "c' = c \<and> new = []" by (auto simp: Tick_def split: option.splits)
  with gate_well_formed_mono [OF assms(1)] show ?thesis by simp
next
  case False
  then obtain decide obs act where p: "policy = Some decide" "observe = Some obs" "actuator = Some act" by auto
  let ?c1 = "c\<lparr>ct_epochCounter := ct_epochCounter c + 1\<rparr>" and ?seen = "seen \<union> set_option observe"
  obtain governed gd where gov: "Governance_Sanitize obs (candidate_of (ct_epochCounter ?c1) ?c1 decide obs) = (governed, gd)" by fastforce
  obtain masked ids emergency where f: "filtered ?c1 obs governed = (masked, ids, emergency)" using prod_cases3 by blast
  obtain c2 ok where gt: "gated masked emergency now ?c1 = (c2, ok)" by fastforce
  have c1: "gate_well_formed g ?seen ?c1" "ct_guardrail ?c1 = g"
    using gate_well_formed_mono [OF assms(1)] assms(1) by (simp_all add: gate_well_formed_def)
  then have m: "well_formed_in g ?seen masked"
    using filtered_well_formed [OF _ f] assms(2) p(2) by (simp add: well_formed_in_def)
  have "gate_well_formed g ?seen c2" by (rule gated_well_formed [OF c1(1) m gt])
  then have "gate_well_formed g ?seen (c2\<lparr>ct_last := d\<rparr>)" "gate_well_formed g ?seen c2" for d by (simp_all add: gate_well_formed_def)
  then show ?thesis
    using assms(3) m p gov f gt by (auto simp: Tick_def Let_def split: if_splits option.splits)
qed

lemma advance_well_formed:
  assumes "gate_well_formed g seen c" and "ct_AdvanceEpoch epoch actuator now c = (c', new, err)"
  shows "gate_well_formed g seen c' \<and> list_all (well_formed_in g seen) new"
  using assms by (auto simp: ct_AdvanceEpoch_def gate_well_formed_def eg_AdvanceEpoch_def Let_def split: option.splits prod.splits if_splits)

lemma control_run_well_formed:
  assumes "control_run g c seen as" and "guardrails_ok g"
  shows "gate_well_formed g seen c \<and> list_all (well_formed_in g seen) as"
  using assms
proof (induction rule: control_run.induct)
  case (start c)
  then show ?case by (simp add: gate_well_formed_def)
next
  case (tick c seen acts policy observe actuator now c' new err)
  with tick_well_formed [OF _ _ tick(2)] well_formed_in_mono show ?case by (auto simp: list_all_iff)
next
  case (advance c seen acts epoch actuator now c' new err)
  with advance_well_formed [OF _ advance(2)] show ?case by simp
qed

section \<open>Properties\<close>

text \<open>
  C20: whatever the policy proposes, in every run (with each lower guardrail of timeout, batch and
  interval at most the upper one) each action that reaches the actuator, at once or released by the
  gate, is within the guardrails for an observation made in the run: timeout, batch size and interval
  between their bounds, a committee that is none or between the smallest size and the observed number
  of validators (all of them when they are fewer), no negative target, and no join together with a
  leave.  Each of its agent actions is within the bounds for its instance, or is one of these that the
  safety filter has stripped of its reconfiguration, with the parameters observed of that instance.
\<close>

theorem applied_actions_well_formed:
  assumes "control_run g c seen as" and "guardrails_ok g"
  shows "list_all (well_formed_in g seen) as"
  using control_run_well_formed [OF assms] by simp

text \<open>
  Unsafe proposals bypass the gate.  The emergency flag of the gate is not a state of the system but whether the
  safety filter masked something, so a policy that keeps asking for an unsafe eviction has the rest of its
  action applied in every tick, in whatever epoch and however recently the last one was applied.
\<close>

theorem unsafe_proposals_bypass_gate:
  assumes "ct_epochGate c = Some gate" and "gc_AllowEmergencyBypass (eg_config gate)"
    and "Tick (Some decide) (Some obs) (Some apply) now c = (c', new, err)"
    and "snd (snd (filtered c obs (fst (Governance_Sanitize obs (candidate_of (ct_epochCounter c + 1) c decide obs)))))"
  shows "new = [fst (filtered c obs (fst (Governance_Sanitize obs (candidate_of (ct_epochCounter c + 1) c decide obs))))] \<and>
    (\<exists>gate'. ct_epochGate c' = Some gate' \<and> gc_AllowEmergencyBypass (eg_config gate') \<and> eg_lastAppliedEpoch gate' = eg_currentEpoch gate)"
proof -
  let ?c1 = "c\<lparr>ct_epochCounter := ct_epochCounter c + 1\<rparr>"
  obtain governed gd where gov: "Governance_Sanitize obs (candidate_of (ct_epochCounter c + 1) c decide obs) = (governed, gd)" by fastforce
  obtain masked ids where f: "filtered c obs governed = (masked, ids, True)"
    using assms(4) gov by (cases "filtered c obs governed") auto
  have same: "candidate_of n ?c1 decide obs = candidate_of n c decide obs" "filtered ?c1 obs governed = filtered c obs governed" for n
    by (simp_all add: candidate_of_def filtered_def)
  show ?thesis
    using assms(1,2,3) gov f same
    by (auto simp: Tick_def Let_def gated_def eg_Submit_def split: option.splits)
qed

section \<open>Examples\<close>

text \<open>A policy that always wants to evict one of five members and a timeout of a thousand seconds.\<close>

definition co_greedy :: "observation \<Rightarrow> action" where
  "co_greedy obs = (as_action [as_evict 0 [3], as_evict 1 [5]])\<lparr>ac_PacemakerTimeoutMs := 1000000\<rparr>"

definition co_start :: controller where
  "co_start = SetEpochGate (Some (NewEpochGate DefaultEpochGateConfig)) (SetSafetyFilter (Some DefaultSafetyFilter) (NewController 0 DefaultGuardrails))"

definition co_tick :: "controller \<Rightarrow> controller \<times> action list \<times> string option" where
  "co_tick c = Tick (Some co_greedy) (Some as_obs) (Some (\<lambda>a. None)) 0 c"

definition co_applied :: action where
  "co_applied = (as_action [as_evict 0 [3], (as_evict 1 [])\<lparr>aa_PacemakerTimeoutMs := 500\<rparr>])\<lparr> ac_PacemakerTimeoutMs := 5000,
     ac_MempoolMaxBatchTxs := 1, ac_MempoolProposalIntervalMs := 10 \<rparr>"

lemma co_filtered:
  "filtered c as_obs (fst (Governance_Sanitize as_obs (candidate_of n c co_greedy as_obs))) = (co_applied, [1], True)"
  if "ct_WarmupEpochs c = 0" "ct_guardrail c = DefaultGuardrails" "ct_safetyFilter c = Some DefaultSafetyFilter"
proof -
  have "MaskUnsafeAction DefaultSafetyFilter as_obs (Guardrails_Sanitize DefaultGuardrails as_obs (fst (Governance_Sanitize as_obs (co_greedy as_obs)))) =
      (co_applied, [1], True)" by code_simp
  with that show ?thesis by (simp add: candidate_of_def filtered_def)
qed

theorem applied_actions_well_formed_witness:
  "\<exists>c. control_run DefaultGuardrails c {as_obs} [co_applied] \<and> list_all (well_formed_in DefaultGuardrails {as_obs}) [co_applied]"
proof -
  have f: "ct_WarmupEpochs co_start = 0" "ct_guardrail co_start = DefaultGuardrails" "ct_safetyFilter co_start = Some DefaultSafetyFilter"
      "ct_epochGate co_start = Some (NewEpochGate DefaultEpochGateConfig)" "gc_AllowEmergencyBypass (eg_config (NewEpochGate DefaultEpochGateConfig))"
      "eg_pending (NewEpochGate DefaultEpochGateConfig) = None"
    by (simp_all add: co_start_def SetEpochGate_def SetSafetyFilter_def NewController_def NewEpochGate_def DefaultEpochGateConfig_def)
  obtain c' new err where t: "co_tick co_start = (c', new, err)" using prod_cases3 by blast
  have "new = [co_applied]"
    using unsafe_proposals_bypass_gate [OF f(4,5) t [unfolded co_tick_def]] co_filtered [OF f(1,2,3)] by simp
  moreover have "control_run DefaultGuardrails co_start {} []" by (rule control_run.start) (simp_all add: f)
  ultimately have run: "control_run DefaultGuardrails c' {as_obs} [co_applied]"
    using control_run.tick [OF _ t [unfolded co_tick_def]] by fastforce
  with applied_actions_well_formed [OF run default_guardrails_ok(1)] show ?thesis by blast
qed

text \<open>A gate that has just let an action through, and may not let another one through, does so.\<close>

definition co_gate :: epoch_gate where
  "co_gate = (NewEpochGate DefaultEpochGateConfig)\<lparr>eg_hasApplied := True\<rparr>"

theorem unsafe_proposals_bypass_gate_witness:
  "\<not> canApplyAt (eg_currentEpoch co_gate) co_gate \<and> fst (snd (co_tick (SetEpochGate (Some co_gate) co_start))) = [co_applied]"
proof -
  let ?c = "SetEpochGate (Some co_gate) co_start"
  have f: "ct_WarmupEpochs ?c = 0" "ct_guardrail ?c = DefaultGuardrails" "ct_safetyFilter ?c = Some DefaultSafetyFilter"
      "ct_epochGate ?c = Some co_gate" "gc_AllowEmergencyBypass (eg_config co_gate)"
    by (simp_all add: co_start_def SetEpochGate_def SetSafetyFilter_def NewController_def co_gate_def NewEpochGate_def DefaultEpochGateConfig_def)
  obtain c' new err where t: "co_tick ?c = (c', new, err)" using prod_cases3 by blast
  have "new = [co_applied]"
    using unsafe_proposals_bypass_gate [OF f(4,5) t [unfolded co_tick_def]] co_filtered [OF f(1,2,3)] by simp
  moreover have "\<not> canApplyAt (eg_currentEpoch co_gate) co_gate"
    by (simp add: canApplyAt_def co_gate_def NewEpochGate_def DefaultEpochGateConfig_def)
  ultimately show ?thesis using t by simp
qed

end
