(* ===== verification/Adaptive_Runtime.thy ===== *)
theory Adaptive_Runtime
  imports Adaptive_Control Node_Install Mempool Toy_Cluster
begin

text \<open>
  The runtime of the adaptive layer in a node (cmd/evolvbft/adaptive_runtime.go): what is observed, how an action
  is applied to the engines, the mempools, the Hydra manager and the membership, and how ordered
  outputs release held actions.  Nil engines are skipped by the code and left out; an engine is paired with its mempool,
  which every engine of a node has.  The measurements and the fault probabilities, which are
  floating-point estimates, are arguments.
\<close>

section \<open>State\<close>

record ordered_state =
  od_Rank :: u64
  od_Height :: u64
  od_LaneID :: u64
  od_ConfigID :: u64
  od_IsNil :: bool
  od_TransitionCount :: nat
  od_ReconfigEpoch :: u64

record runtime =
  ar_nodeID :: u64
  ar_keypair :: "(bytes \<times> bytes) option"
  ar_engines :: "(engine \<times> mempool) list"
  ar_memberMgr :: "membership option"
  ar_hydraMgr :: "hydra_manager option"
  ar_ctrl :: "controller option"
  ar_lastOrdered :: ordered_state

text \<open>
  \<open>rt_json\<close> and \<open>rt_vrf\<close> may fail: the payload of a reconfiguration, and the bytes of the VRF key of an
  engine, if it has one.  The public key of the pair comes first.
\<close>

record runtime_env =
  rt_exec :: exec_env
  rt_sign :: "bytes \<Rightarrow> bytes \<Rightarrow> bytes"
  rt_json :: "reconfig_data \<Rightarrow> string + bytes"
  rt_vrf :: "(string + bytes) option"
  rt_mempool :: mempool_env
  rt_now :: int

section \<open>Observing\<close>

record measurements =
  ms_ThroughputTPS :: rat
  ms_LatencyP95Ms :: rat
  ms_BacklogPending :: u64
  ms_BacklogMissing :: u64
  ms_RejectTotal :: u64
  ms_ChurnRate :: rat
  ms_AdversaryScore :: rat
  ms_TrustNodeIDs :: "u64 list"

text \<open>The suspected validators, at most a third; without an estimator there are none.\<close>

definition estimateFaults :: "(u64 \<Rightarrow> rat option) option \<Rightarrow> validator_set \<Rightarrow> int" where
  "estimateFaults trust vs = (case trust of None \<Rightarrow> 0
     | Some prob \<Rightarrow>
         let f = int (length (filter (\<lambda>i. case prob i of None \<Rightarrow> False | Some q \<Rightarrow> 1 / 2 < q) (gm_keys (vs_Validators vs))));
             maxF = (int (gm_len (vs_Validators vs)) - 1) sdiv 3
         in if maxF < f then maxF else f)"

definition agent_of :: "(u64 \<Rightarrow> rat option) option \<Rightarrow> engine \<times> mempool \<Rightarrow> agent_observation" where
  "agent_of trust = (\<lambda>(e, mp). \<lparr> ao_InstanceID = e_instanceID e, ao_Epoch = vs_Epoch (e_valSet e),
     ao_ValidatorCount = int (gm_len (vs_Validators (e_valSet e))), ao_CommitteeSize = e_committeeSize e,
     ao_PacemakerTimeoutMs = e_timeoutMs e, ao_MempoolMaxBatchTxs = fst (mp_GetAdaptiveTuning mp),
     ao_MempoolProposalIntervalMs = snd (mp_GetAdaptiveTuning mp) sdiv 1000000, ao_FaultsEstimate = estimateFaults trust (e_valSet e) \<rparr>)"

definition Observe :: "measurements \<Rightarrow> (u64 \<Rightarrow> rat option) option \<Rightarrow> runtime \<Rightarrow> observation" where
  "Observe ms trust rt =
     (let cfg = map_option GetCurrentConfig (ar_memberMgr rt);
          epoch0 = (case cfg of None \<Rightarrow> 0 | Some c \<Rightarrow> cfg_ID c);
          count0 = (case cfg of None \<Rightarrow> 0 | Some c \<Rightarrow> int (gm_len (cfg_Validators c)));
          agents = map (agent_of trust) (ar_engines rt);
          first = (case agents of [] \<Rightarrow> None | a # _ \<Rightarrow> Some a);
          hydra = ar_hydraMgr rt;
          highest0 = (case hydra of None \<Rightarrow> 0 | Some hm \<Rightarrow> hc_ID (cd_highest (hm_cdm hm)))
      in \<lparr> ob_Epoch = (case first of Some a \<Rightarrow> if epoch0 = 0 then ao_Epoch a else epoch0 | None \<Rightarrow> epoch0),
           ob_ValidatorCount = (case first of Some a \<Rightarrow> if epoch0 = 0 then ao_ValidatorCount a else count0 | None \<Rightarrow> count0),
           ob_CurrentConfigID = epoch0, ob_HighestKnownConfigID = (if highest0 = 0 then epoch0 else highest0),
           ob_CommitteeSize = (case first of None \<Rightarrow> 0 | Some a \<Rightarrow> ao_CommitteeSize a),
           ob_PacemakerTimeoutMs = (case first of None \<Rightarrow> 0 | Some a \<Rightarrow> ao_PacemakerTimeoutMs a),
           ob_MempoolMaxBatchTxs = (case first of None \<Rightarrow> 0 | Some a \<Rightarrow> ao_MempoolMaxBatchTxs a),
           ob_MempoolProposalIntervalMs = (case first of None \<Rightarrow> 0 | Some a \<Rightarrow> ao_MempoolProposalIntervalMs a),
           ob_ThroughputTPS = ms_ThroughputTPS ms, ob_LatencyP95Ms = ms_LatencyP95Ms ms, ob_BacklogPending = ms_BacklogPending ms,
           ob_BacklogMissing = ms_BacklogMissing ms, ob_RejectTotal = ms_RejectTotal ms,
           ob_PendingJoins = (case hydra of None \<Rightarrow> 0 | Some hm \<Rightarrow> int (gm_len (tm_pendingJoins (hm_tcm hm)))),
           ob_PendingLeaves = (case hydra of None \<Rightarrow> 0 | Some hm \<Rightarrow> int (gm_len (tm_pendingLeaves (hm_tcm hm)))),
           ob_CanParticipate = True,
           ob_LocalValidator = (case cfg of None \<Rightarrow> False | Some c \<Rightarrow> ar_nodeID rt |\<in>| fmdom (cfg_Validators c)),
           ob_ChurnRate = ms_ChurnRate ms, ob_AdversaryScore = ms_AdversaryScore ms, ob_Agents = agents,
           ob_TrustNodeIDs = (if agents = [] then [] else ms_TrustNodeIDs ms) \<rparr>)"

section \<open>Intents of the node itself\<close>

definition hasPendingHydraRequest :: "hydra_manager option \<Rightarrow> u64 \<Rightarrow> bool \<Rightarrow> bool" where
  "hasPendingHydraRequest hp i join = (case hp of None \<Rightarrow> False
     | Some hm \<Rightarrow> list_ex (\<lambda>r. mr_ID r = i)
         (pending_requests (if join then tm_pendingJoins (hm_tcm hm) else tm_pendingLeaves (hm_tcm hm))))"

text \<open>Signing a request and submitting it to the mempool of the first engine.\<close>

definition submit_signed :: "runtime_env \<Rightarrow> bytes \<Rightarrow> (bytes \<Rightarrow> reconfig_data) \<Rightarrow> bool \<Rightarrow> runtime \<Rightarrow> runtime \<times> string option" where
  "submit_signed env priv mk with_vrf rt = (case ar_engines rt of [] \<Rightarrow> (rt, Some ''engine unavailable'')
     | (e, mp) # es \<Rightarrow> (case (if with_vrf then (case rt_vrf env of None \<Rightarrow> Inr [] | Some r \<Rightarrow> r) else Inr []) of
         Inl err \<Rightarrow> (rt, Some err)
       | Inr vrf \<Rightarrow>
           (let d = mk vrf; signed = d\<lparr>rd_Signature := rt_sign env priv (ReconfigSigningBytes (rt_exec env) d)\<rparr>
            in case rt_json env signed of Inl err \<Rightarrow> (rt, Some err)
             | Inr payload \<Rightarrow>
                 (case SubmitTransaction (rt_mempool env) (rt_now env) (Some \<lparr> tx_Type = TxTypeReconfig, tx_Payload = payload \<rparr>) mp of
                   (mp', err) \<Rightarrow> (rt\<lparr>ar_engines := (e, mp') # es\<rparr>, err)))))"

definition on_tcm :: "(tcm \<Rightarrow> tcm) \<Rightarrow> runtime \<Rightarrow> runtime" where
  "on_tcm f rt = rt\<lparr>ar_hydraMgr := map_option (\<lambda>hm. update_tcm (f (hm_tcm hm)) hm) (ar_hydraMgr rt)\<rparr>"

text \<open>The request is registered with Hydra first and taken back when a later step fails.\<close>

definition with_intent ::
  "(hydra_manager \<Rightarrow> hydra_manager \<times> string option) \<Rightarrow> (tcm \<Rightarrow> tcm) \<Rightarrow> (runtime \<Rightarrow> runtime \<times> string option) \<Rightarrow>
   runtime \<Rightarrow> runtime \<times> string option" where
  "with_intent register undo send rt =
     (case (case ar_hydraMgr rt of None \<Rightarrow> (rt, None) | Some hm \<Rightarrow> (case register hm of (hm', err) \<Rightarrow> (rt\<lparr>ar_hydraMgr := Some hm'\<rparr>, err))) of
       (rt1, Some err) \<Rightarrow> (rt1, Some err)
     | (rt1, None) \<Rightarrow> (case send rt1 of (rt2, None) \<Rightarrow> (rt2, None) | (rt2, Some err) \<Rightarrow> (on_tcm undo rt2, Some err)))"

definition join_data :: "runtime \<Rightarrow> configuration \<Rightarrow> bytes \<Rightarrow> bytes \<Rightarrow> reconfig_data" where
  "join_data rt cfg pub vrf = \<lparr> rd_Type = ReconfigJoin, rd_NodeID = ar_nodeID rt, rd_PublicKey = pub, rd_VRFPublicKey = vrf,
     rd_Power = 1, rd_Epoch = cfg_ID cfg, rd_TargetEpoch = cfg_ID cfg + 1, rd_Signature = [], rd_AutoLeaveProof = None \<rparr>"

definition submitLocalJoinIntent :: "runtime_env \<Rightarrow> runtime \<Rightarrow> runtime \<times> string option" where
  "submitLocalJoinIntent env rt = (case (ar_memberMgr rt, ar_keypair rt) of
     (Some mm, Some (pub, priv)) \<Rightarrow>
       (let cfg = GetCurrentConfig mm
        in if ar_nodeID rt |\<in>| fmdom (cfg_Validators cfg) then (rt, None)
           else if hasPendingHydraRequest (ar_hydraMgr rt) (ar_nodeID rt) True then (rt, None)
           else with_intent (hm_SubmitJoinRequest (ar_nodeID rt) pub 1) (RemoveJoinRequest (ar_nodeID rt))
             (submit_signed env priv (join_data rt cfg pub) True) rt)
   | _ \<Rightarrow> (rt, None))"

definition leave_data :: "runtime \<Rightarrow> configuration \<Rightarrow> bytes \<Rightarrow> reconfig_data" where
  "leave_data rt cfg pub = \<lparr> rd_Type = ReconfigLeave, rd_NodeID = ar_nodeID rt, rd_PublicKey = pub, rd_VRFPublicKey = [],
     rd_Power = 0, rd_Epoch = cfg_ID cfg, rd_TargetEpoch = cfg_ID cfg + 1, rd_Signature = [], rd_AutoLeaveProof = None \<rparr>"

definition submitLocalLeaveIntent :: "runtime_env \<Rightarrow> runtime \<Rightarrow> runtime \<times> string option" where
  "submitLocalLeaveIntent env rt = (case (ar_memberMgr rt, ar_keypair rt) of
     (Some mm, Some (pub, priv)) \<Rightarrow>
       (let cfg = GetCurrentConfig mm
        in if ar_nodeID rt |\<notin>| fmdom (cfg_Validators cfg) then (rt, None)
           else if gm_len (cfg_Validators cfg) \<le> 3 then (rt, None)
           else if hasPendingHydraRequest (ar_hydraMgr rt) (ar_nodeID rt) False then (rt, None)
           else with_intent (hm_SubmitLeaveRequest (ar_nodeID rt)) (RemoveLeaveRequest (ar_nodeID rt))
             (submit_signed env priv (\<lambda>vrf. leave_data rt cfg pub) False) rt)
   | _ \<Rightarrow> (rt, None))"

section \<open>Applying an action\<close>

definition isCurrentValidator :: "u64 \<Rightarrow> runtime \<Rightarrow> bool" where
  "isCurrentValidator i rt = (case ar_memberMgr rt of None \<Rightarrow> False | Some mm \<Rightarrow> i |\<in>| fmdom (cfg_Validators (GetCurrentConfig mm)))"

definition lookup_in :: "validators \<Rightarrow> u64 \<Rightarrow> (bytes \<times> u64) option" where
  "lookup_in vs i = (case fmlookup vs i of Some (Some v) \<Rightarrow> Some (v_PublicKey v, v_Power v) | _ \<Rightarrow> None)"

definition lookupKnownValidator :: "u64 \<Rightarrow> runtime \<Rightarrow> (bytes \<times> u64) option" where
  "lookupKnownValidator i rt =
     (case (case ar_memberMgr rt of None \<Rightarrow> None | Some mm \<Rightarrow> lookup_in (cfg_Validators (GetCurrentConfig mm)) i) of
       Some r \<Rightarrow> Some r
     | None \<Rightarrow> (case ar_hydraMgr rt of None \<Rightarrow> None
         | Some hm \<Rightarrow> (case lookup_in (hc_Validators (cd_highest (hm_cdm hm))) i of Some r \<Rightarrow> Some r
             | None \<Rightarrow> lookup_in (hc_Validators (tm_Mvalid (hm_tcm hm))) i)))"

definition on_hydra :: "(hydra_manager \<Rightarrow> hydra_manager \<times> string option) \<Rightarrow> runtime \<Rightarrow> runtime \<times> string option" where
  "on_hydra f rt = (case ar_hydraMgr rt of None \<Rightarrow> (rt, None)
     | Some hm \<Rightarrow> (case f hm of (hm', err) \<Rightarrow> (rt\<lparr>ar_hydraMgr := Some hm'\<rparr>, err)))"

definition evict_target :: "runtime_env \<Rightarrow> u64 \<Rightarrow> runtime \<Rightarrow> runtime \<times> string option" where
  "evict_target env i rt = (if i = ar_nodeID rt then submitLocalLeaveIntent env rt
     else if hasPendingHydraRequest (ar_hydraMgr rt) i False then (rt, None) else on_hydra (hm_SubmitLeaveRequest i) rt)"

definition admit_target :: "runtime_env \<Rightarrow> u64 \<Rightarrow> runtime \<Rightarrow> runtime \<times> string option" where
  "admit_target env i rt = (if i = ar_nodeID rt then submitLocalJoinIntent env rt
     else if ar_hydraMgr rt = None \<or> hasPendingHydraRequest (ar_hydraMgr rt) i True \<or> isCurrentValidator i rt then (rt, None)
     else (case lookupKnownValidator i rt of None \<Rightarrow> (rt, None) | Some (pub, pw) \<Rightarrow> on_hydra (hm_SubmitJoinRequest i pub pw) rt))"

text \<open>A sequence of steps that stops at the first error.\<close>

fun until_error :: "(runtime \<Rightarrow> runtime \<times> string option) list \<Rightarrow> runtime \<Rightarrow> runtime \<times> string option" where
  "until_error [] rt = (rt, None)"
| "until_error (f # fs) rt = (case f rt of (rt', None) \<Rightarrow> until_error fs rt' | (rt', Some err) \<Rightarrow> (rt', Some err))"

definition applyAgentReconfiguration :: "runtime_env \<Rightarrow> agent_action \<Rightarrow> runtime \<Rightarrow> runtime \<times> string option" where
  "applyAgentReconfiguration env a = until_error (map (evict_target env) (aa_ReconfigEvictNodeIDs a) @
     map (admit_target env) (aa_ReconfigAdmitNodeIDs a))"

definition agentActionHasTuning :: "agent_action \<Rightarrow> bool" where
  "agentActionHasTuning a \<longleftrightarrow> 0 < aa_CommitteeSize a \<or> 0 < aa_PacemakerTimeoutMs a \<or> 0 < aa_MempoolMaxBatchTxs a \<or> 0 < aa_MempoolProposalIntervalMs a"

definition tune :: "int \<Rightarrow> int \<Rightarrow> int \<Rightarrow> int \<Rightarrow> engine \<times> mempool \<Rightarrow> engine \<times> mempool" where
  "tune committee ms batch interval = (\<lambda>(e, mp). (SetAdaptiveTuning committee ms e, mp_SetAdaptiveTuning batch (interval * 1000000) mp))"

text \<open>Of several engines with one instance the map of the code holds the last.\<close>

definition tune_instance :: "agent_action \<Rightarrow> (engine \<times> mempool) list \<Rightarrow> (engine \<times> mempool) list" where
  "tune_instance a es = (case find (\<lambda>j. e_instanceID (fst (es ! j)) = aa_InstanceID a) (rev [0..<length es]) of None \<Rightarrow> es
     | Some j \<Rightarrow> es[j := tune (aa_CommitteeSize a) (aa_PacemakerTimeoutMs a) (aa_MempoolMaxBatchTxs a) (aa_MempoolProposalIntervalMs a) (es ! j)])"

definition apply_agent :: "runtime_env \<Rightarrow> agent_action \<Rightarrow> runtime \<Rightarrow> runtime \<times> string option" where
  "apply_agent env a rt = applyAgentReconfiguration env a
     (if agentActionHasTuning a then rt\<lparr>ar_engines := tune_instance a (ar_engines rt)\<rparr> else rt)"

definition apply_tuning :: "action \<Rightarrow> runtime \<Rightarrow> runtime" where
  "apply_tuning a rt = (if 0 < ac_CommitteeSize a \<or> 0 < ac_PacemakerTimeoutMs a \<or> 0 < ac_MempoolMaxBatchTxs a \<or> 0 < ac_MempoolProposalIntervalMs a
     then rt\<lparr>ar_engines := map (tune (ac_CommitteeSize a) (ac_PacemakerTimeoutMs a) (ac_MempoolMaxBatchTxs a) (ac_MempoolProposalIntervalMs a))
       (ar_engines rt)\<rparr> else rt)"

text \<open>Everything before the request for configurations; \<open>None\<close> is a call of \<open>Apply\<close> that does not return.\<close>

definition apply_local :: "runtime_env \<Rightarrow> action \<Rightarrow> runtime \<Rightarrow> runtime \<times> string option" where
  "apply_local env a = until_error
     ((if ac_AgentActions a \<noteq> [] then map (apply_agent env) (ac_AgentActions a) else [\<lambda>rt. (apply_tuning a rt, None)]) @
      (if ac_SubmitJoin a then [submitLocalJoinIntent env] else []) @ (if ac_SubmitLeave a then [submitLocalLeaveIntent env] else []))"

definition Apply :: "runtime_env \<Rightarrow> action \<Rightarrow> runtime \<Rightarrow> (runtime \<times> string option) option" where
  "Apply env a rt = (case apply_local env a rt of (rt1, Some err) \<Rightarrow> Some (rt1, Some err)
     | (rt1, None) \<Rightarrow>
         (case ar_hydraMgr rt1 of None \<Rightarrow> Some (rt1, None)
          | Some hm \<Rightarrow> if ac_HydraDiscoveryTarget a \<le> 0 then Some (rt1, None)
              else map_option (\<lambda>d. (rt1\<lparr>ar_hydraMgr := Some (hm\<lparr>hm_cdm := d\<rparr>)\<rparr>, None))
                (RequestDiscovery (rt_now env) (word_of_int (ac_HydraDiscoveryTarget a)) (hm_cdm hm))))"

section \<open>Ordered outputs\<close>

definition record_block :: "bool \<Rightarrow> block option \<Rightarrow> ordered_state \<Rightarrow> ordered_state" where
  "record_block isNil bp s = (case bp of None \<Rightarrow> s
     | Some b \<Rightarrow> s\<lparr> od_Height := (if od_Height s < b_Height b then b_Height b else od_Height s),
         od_LaneID := (if 0 < b_LaneID b \<or> \<not> isNil then b_LaneID b else od_LaneID s),
         od_ConfigID := (if 0 < b_ConfigID b \<or> \<not> isNil then b_ConfigID b else od_ConfigID s) \<rparr>)"

text \<open>The loop over the transitions: a new epoch releases the action that the gate holds; its error is ignored.\<close>

fun record_transitions :: "runtime_env \<Rightarrow> epoch_transition option list \<Rightarrow> ordered_state \<times> runtime \<Rightarrow> (ordered_state \<times> runtime) option" where
  "record_transitions env [] (s, rt) = Some (s, rt)"
| "record_transitions env (tp # ts) (s, rt) = (case tp of None \<Rightarrow> record_transitions env ts (s, rt)
     | Some t \<Rightarrow> if et_NewEpoch t \<le> od_ReconfigEpoch s then record_transitions env ts (s, rt)
         else (let s1 = s\<lparr>od_ReconfigEpoch := et_NewEpoch t\<rparr>
           in case ar_ctrl rt of None \<Rightarrow> record_transitions env ts (s1, rt)
            | Some c \<Rightarrow> (case ct_AdvanceEpoch (et_NewEpoch t) (Some (\<lambda>a. None)) (rt_now env) c of
                (c', released, _) \<Rightarrow> (case released of
                    [] \<Rightarrow> record_transitions env ts (s1, rt\<lparr>ar_ctrl := Some c'\<rparr>)
                  | a # _ \<Rightarrow> (case Apply env a (rt\<lparr>ar_ctrl := Some c'\<rparr>) of None \<Rightarrow> None
                      | Some (rt', _) \<Rightarrow> record_transitions env ts (s1, rt'))))))"

definition recordOrderedOutput :: "runtime_env \<Rightarrow> instance_output \<Rightarrow> runtime \<Rightarrow> runtime option" where
  "recordOrderedOutput env out rt =
     (let s = (ar_lastOrdered rt)\<lparr> od_Rank := io_Rank out, od_IsNil := io_IsNil out, od_TransitionCount := length (io_EpochTransitions out) \<rparr>
      in map_option (\<lambda>(s', rt'). rt'\<lparr>ar_lastOrdered := s'\<rparr>)
           (record_transitions env (io_EpochTransitions out) (record_block (io_IsNil out) (io_Block out) s, rt)))"

section \<open>Intents are atomic\<close>

lemma submit_signed_hydra: "ar_hydraMgr (fst (submit_signed env priv mk b rt)) = ar_hydraMgr rt"
  by (auto simp: submit_signed_def Let_def split: list.splits sum.splits prod.splits option.splits)

lemma fmdrop_fmupd_fresh: "i |\<notin>| fmdom m \<Longrightarrow> fmdrop i (fmupd i r m) = m"
  by (intro fmap_ext) (auto simp: fmdom_notD)

lemma update_tcm_tcm: "update_tcm (hm_tcm hm) hm = hm"
  by (simp add: update_tcm_def)

lemma join_undone:
  assumes "hm_SubmitJoinRequest i pub pw hm = (hm', r)"
  shows "r \<noteq> None \<Longrightarrow> hm' = hm" and "r = None \<Longrightarrow> update_tcm (RemoveJoinRequest i (hm_tcm hm')) hm' = hm"
  using assms by (auto simp: hm_SubmitJoinRequest_def AddJoinRequest_def update_tcm_def RemoveJoinRequest_def fmdrop_fmupd_fresh
    split: if_splits option.splits)

lemma leave_undone:
  assumes "hm_SubmitLeaveRequest i hm = (hm', r)"
  shows "r \<noteq> None \<Longrightarrow> hm' = hm" and "r = None \<Longrightarrow> update_tcm (RemoveLeaveRequest i (hm_tcm hm')) hm' = hm"
  using assms by (auto simp: hm_SubmitLeaveRequest_def AddLeaveRequest_def update_tcm_def RemoveLeaveRequest_def fmdrop_fmupd_fresh
    split: if_splits)

lemma with_intent_atomic:
  assumes "with_intent register undo send rt = (rt', Some err)" and "\<And>rt. ar_hydraMgr (fst (send rt)) = ar_hydraMgr rt"
    and "\<And>hm hm' r. register hm = (hm', Some r) \<Longrightarrow> hm' = hm"
    and "\<And>hm hm'. register hm = (hm', None) \<Longrightarrow> update_tcm (undo (hm_tcm hm')) hm' = hm"
  shows "ar_hydraMgr rt' = ar_hydraMgr rt"
proof (cases "ar_hydraMgr rt")
  case None
  then show ?thesis
    using assms(1) assms(2) [of rt] by (auto simp: with_intent_def on_tcm_def split: prod.splits option.splits)
next
  case (Some hm)
  obtain hm' r where reg: "register hm = (hm', r)" by fastforce
  show ?thesis
  proof (cases r)
    case None
    obtain rt2 e where s: "send (rt\<lparr>ar_hydraMgr := Some hm'\<rparr>) = (rt2, e)" by fastforce
    with assms(2) [of "rt\<lparr>ar_hydraMgr := Some hm'\<rparr>"] have "ar_hydraMgr rt2 = Some hm'" by simp
    with assms(1) s reg None Some assms(4) [of hm hm'] show ?thesis
      by (auto simp: with_intent_def on_tcm_def split: option.splits)
  next
    case (Some e)
    with assms(1) reg \<open>ar_hydraMgr rt = Some hm\<close> assms(3) [of hm hm' e] show ?thesis
      by (auto simp: with_intent_def)
  qed
qed

text \<open>
  An intent is all or nothing: if submitting a join or a leave of the node fails at any point (the
  credential, a missing engine, the key, the encoding, the mempool), the Hydra manager is exactly what it was before.
\<close>

theorem failed_intent_leaves_no_trace:
  assumes "submitLocalJoinIntent env rt = (rt', Some err) \<or> submitLocalLeaveIntent env rt = (rt', Some err)"
  shows "ar_hydraMgr rt' = ar_hydraMgr rt"
  using assms
proof
  assume a: "submitLocalJoinIntent env rt = (rt', Some err)"
  then obtain pub priv mk where "with_intent (hm_SubmitJoinRequest (ar_nodeID rt) pub 1) (RemoveJoinRequest (ar_nodeID rt))
      (submit_signed env priv mk True) rt = (rt', Some err)"
    by (auto simp: submitLocalJoinIntent_def Let_def split: option.splits if_splits)
  then show ?thesis
    by (rule with_intent_atomic) (auto simp: submit_signed_hydra dest: join_undone)
next
  assume a: "submitLocalLeaveIntent env rt = (rt', Some err)"
  then obtain priv mk where "with_intent (hm_SubmitLeaveRequest (ar_nodeID rt)) (RemoveLeaveRequest (ar_nodeID rt))
      (submit_signed env priv mk False) rt = (rt', Some err)"
    by (auto simp: submitLocalLeaveIntent_def Let_def split: option.splits if_splits)
  then show ?thesis
    by (rule with_intent_atomic) (auto simp: submit_signed_hydra dest: leave_undone)
qed

section \<open>Applying returns\<close>

text \<open>
  Applying an action always returns: whatever the policy puts into it, the search for configurations that
  it may start ends, because a Go \<open>int\<close> never reaches the identifier on which it would not.
\<close>

theorem Apply_returns:
  assumes "ac_HydraDiscoveryTarget a < 2 ^ 63"
  shows "Apply env a rt \<noteq> None"
proof -
  have fm: "findMissingConfigs (word_of_int (ac_HydraDiscoveryTarget a)) d \<noteq> None" if "0 < ac_HydraDiscoveryTarget a" for d
  proof -
    have "uint (word_of_int (ac_HydraDiscoveryTarget a) :: u64) = ac_HydraDiscoveryTarget a"
      using that assms by (simp add: uint_word_of_int)
    moreover have "uint u64_max = 2 ^ 64 - 1" by (simp add: unsigned_minus_1_eq_mask mask_eq_exp_minus_1)
    ultimately have "(word_of_int (ac_HydraDiscoveryTarget a) :: u64) \<noteq> u64_max"
      using assms by (intro notI) simp
    then show ?thesis by (simp add: findMissingConfigs_ends)
  qed
  have "RequestDiscovery now (word_of_int (ac_HydraDiscoveryTarget a)) d \<noteq> None" if "\<not> ac_HydraDiscoveryTarget a \<le> 0" for now d
    using fm [of d] that by (auto simp: RequestDiscovery_def Let_def split: option.splits)
  then show ?thesis
    by (simp add: Apply_def split: option.splits prod.splits)
qed

section \<open>The gate follows the ordered log\<close>

definition same_control :: "runtime \<Rightarrow> runtime \<Rightarrow> bool" where
  "same_control rt rt' \<longleftrightarrow> ar_ctrl rt' = ar_ctrl rt \<and> ar_lastOrdered rt' = ar_lastOrdered rt"

lemma same_control_refl [simp]: "same_control rt rt"
  by (simp add: same_control_def)

lemma same_control_trans: "same_control a b \<Longrightarrow> same_control b c \<Longrightarrow> same_control a c"
  by (simp add: same_control_def)

lemma submit_signed_control: "same_control rt (fst (submit_signed env priv mk b rt))"
  by (auto simp: same_control_def submit_signed_def Let_def split: list.splits sum.splits prod.splits option.splits)

lemma with_intent_control:
  assumes "\<And>rt. same_control rt (fst (send rt))"
  shows "same_control rt (fst (with_intent register undo send rt))"
proof -
  obtain rt1 e where r: "(case ar_hydraMgr rt of None \<Rightarrow> (rt, None) | Some hm \<Rightarrow> (case register hm of (hm', err) \<Rightarrow> (rt\<lparr>ar_hydraMgr := Some hm'\<rparr>, err))) = (rt1, e)"
    by fastforce
  then have 1: "same_control rt rt1" by (auto simp: same_control_def split: option.splits prod.splits)
  obtain rt2 e2 where s: "send rt1 = (rt2, e2)" by fastforce
  have 2: "same_control rt1 rt2" using assms [of rt1] s by simp
  from same_control_trans [OF 1 2] 1 r s show ?thesis
    by (auto simp: with_intent_def on_tcm_def same_control_def split: option.splits)
qed

lemma intent_control:
  "same_control rt (fst (submitLocalJoinIntent env rt))" "same_control rt (fst (submitLocalLeaveIntent env rt))"
  using with_intent_control [OF submit_signed_control]
  by (auto simp: submitLocalJoinIntent_def submitLocalLeaveIntent_def Let_def split: option.splits prod.splits)

lemma on_hydra_control: "same_control rt (fst (on_hydra f rt))"
  by (auto simp: on_hydra_def same_control_def split: option.splits prod.splits)

lemma target_control: "same_control rt (fst (evict_target env i rt))" "same_control rt (fst (admit_target env i rt))"
  by (auto simp: evict_target_def admit_target_def intent_control on_hydra_control split: option.splits prod.splits)

lemma until_error_control:
  "(\<And>f rt. f \<in> set fs \<Longrightarrow> same_control rt (fst (f rt))) \<Longrightarrow> same_control rt (fst (until_error fs rt))"
proof (induction fs arbitrary: rt)
  case (Cons f fs)
  obtain rt1 e where f: "f rt = (rt1, e)" by fastforce
  with Cons.prems [of f rt] have 1: "same_control rt rt1" by simp
  have "same_control rt1 (fst (until_error fs rt1))" using Cons by simp
  with same_control_trans [OF 1] 1 f show ?case by (cases e) simp_all
qed simp

lemma apply_agent_control: "same_control rt (fst (apply_agent env a rt))"
proof -
  have "same_control rt' (fst (applyAgentReconfiguration env a rt'))" for rt'
    unfolding applyAgentReconfiguration_def by (rule until_error_control) (auto simp: target_control)
  then show ?thesis by (auto simp: apply_agent_def same_control_def)
qed

lemma apply_tuning_control: "same_control rt (apply_tuning a rt)"
  by (simp add: apply_tuning_def same_control_def)

lemma Apply_control:
  assumes "Apply env a rt = Some (rt', r)"
  shows "same_control rt rt'"
proof -
  have "same_control rt (fst (apply_local env a rt))"
    unfolding apply_local_def by (rule until_error_control)
      (auto simp: apply_agent_control intent_control apply_tuning_control split: if_splits)
  with assms show ?thesis
    by (auto simp: Apply_def same_control_def split: option.splits prod.splits if_splits)
qed

definition follows :: "ordered_state \<Rightarrow> runtime \<Rightarrow> bool" where
  "follows s rt \<longleftrightarrow> (\<forall>c g. ar_ctrl rt = Some c \<longrightarrow> ct_epochGate c = Some g \<longrightarrow> eg_currentEpoch g = od_ReconfigEpoch s)"

lemma follows_control: "follows s rt \<Longrightarrow> same_control rt rt' \<Longrightarrow> follows s rt'"
  by (simp add: follows_def same_control_def)

lemma advance_epoch:
  assumes "ct_AdvanceEpoch e actuator now c = (c', released, err)" and "\<And>g. ct_epochGate c = Some g \<Longrightarrow> eg_currentEpoch g < e"
    and "ct_epochGate c' = Some g'"
  shows "eg_currentEpoch g' = e"
  using assms by (auto simp: ct_AdvanceEpoch_def eg_AdvanceEpoch_def Let_def split: option.splits prod.splits if_splits)

lemma record_transitions_follow:
  assumes "record_transitions env ts (s, rt) = Some (s', rt')" and "follows s rt"
  shows "follows s' rt' \<and> od_ReconfigEpoch s \<le> od_ReconfigEpoch s' \<and>
    (\<forall>t. Some t \<in> set ts \<longrightarrow> et_NewEpoch t \<le> od_ReconfigEpoch s')"
  using assms
proof (induction ts arbitrary: s rt)
  case (Cons tp ts)
  show ?case
  proof (cases "\<exists>t. tp = Some t \<and> od_ReconfigEpoch s < et_NewEpoch t")
    case False
    with Cons.prems Cons.IH [of s rt] show ?thesis by (cases tp) (auto simp: not_less)
  next
    case True
    then obtain t where t: "tp = Some t" "od_ReconfigEpoch s < et_NewEpoch t" by blast
    then have new: "\<not> et_NewEpoch t \<le> od_ReconfigEpoch s" by simp
    let ?s1 = "s\<lparr>od_ReconfigEpoch := et_NewEpoch t\<rparr>"
    have "\<exists>rt1. record_transitions env ts (?s1, rt1) = Some (s', rt') \<and> follows ?s1 rt1"
    proof (cases "ar_ctrl rt")
      case None
      with t new Cons.prems(1) show ?thesis by (auto simp: follows_def Let_def)
    next
      case (Some c)
      obtain c' released err where adv: "ct_AdvanceEpoch (et_NewEpoch t) (Some (\<lambda>a. None)) (rt_now env) c = (c', released, err)"
        using prod_cases3 by blast
      have "eg_currentEpoch g < et_NewEpoch t" if "ct_epochGate c = Some g" for g
        using Cons.prems(2) Some that t(2) by (simp add: follows_def)
      then have f: "follows ?s1 (rt\<lparr>ar_ctrl := Some c'\<rparr>)"
        using advance_epoch [OF adv] by (simp add: follows_def)
      show ?thesis
      proof (cases released)
        case Nil
        with f t new Cons.prems(1) Some adv show ?thesis by (auto simp: Let_def)
      next
        case (Cons a as)
        then obtain rt1 r where a: "Apply env a (rt\<lparr>ar_ctrl := Some c'\<rparr>) = Some (rt1, r)" "record_transitions env ts (?s1, rt1) = Some (s', rt')"
          using \<open>record_transitions env (tp # ts) (s, rt) = Some (s', rt')\<close> Some adv t new by (auto simp: Let_def split: option.splits)
        with follows_control [OF f Apply_control [OF a(1)]] show ?thesis by blast
      qed
    qed
    then obtain rt1 where rt1: "record_transitions env ts (?s1, rt1) = Some (s', rt')" "follows ?s1 rt1" by blast
    from Cons.IH [OF this] t show ?thesis by auto
  qed
qed simp

text \<open>Ticks of the controller, actions and ordered outputs in any order; other threads leave the controller alone.\<close>

inductive runtime_run :: "runtime_env \<Rightarrow> runtime \<Rightarrow> runtime \<Rightarrow> bool" for env rt0 where
  start: "runtime_run env rt0 rt0"
| ordered: "runtime_run env rt0 rt \<Longrightarrow> recordOrderedOutput env out rt = Some rt' \<Longrightarrow> runtime_run env rt0 rt'"
| ticked: "runtime_run env rt0 rt \<Longrightarrow> ar_ctrl rt = Some c \<Longrightarrow> Adaptive_Control.Tick policy obs actuator now c = (c', new, err) \<Longrightarrow>
    runtime_run env rt0 (rt\<lparr>ar_ctrl := Some c'\<rparr>)"
| applied: "runtime_run env rt0 rt \<Longrightarrow> Apply env a rt = Some (rt', r) \<Longrightarrow> runtime_run env rt0 rt'"
| others: "runtime_run env rt0 rt \<Longrightarrow> same_control rt rt' \<Longrightarrow> runtime_run env rt0 rt'"

lemma Tick_gate:
  assumes "Adaptive_Control.Tick policy obs actuator now c = (c', new, err)" and "ct_epochGate c' = Some g'"
  shows "\<exists>g. ct_epochGate c = Some g \<and> eg_currentEpoch g' = eg_currentEpoch g"
proof -
  have gt: "\<exists>g. ct_epochGate c = Some g \<and> eg_currentEpoch g' = eg_currentEpoch g"
    if "gated m e now (c\<lparr>ct_epochCounter := n\<rparr>) = (c2, b)" "ct_epochGate c2 = Some g'" for m e n c2 b
    using that by (auto simp: gated_def eg_Submit_def Let_def split: option.splits prod.splits if_splits)
  show ?thesis
    using assms gt by (auto simp: Adaptive_Control.Tick_def Let_def split: option.splits prod.splits if_splits)
qed

lemma ordered_epoch:
  assumes "recordOrderedOutput env out rt = Some rt'" and "follows (ar_lastOrdered rt) rt"
  shows "follows (ar_lastOrdered rt') rt' \<and> od_ReconfigEpoch (ar_lastOrdered rt) \<le> od_ReconfigEpoch (ar_lastOrdered rt') \<and>
    (\<forall>t. Some t \<in> set (io_EpochTransitions out) \<longrightarrow> et_NewEpoch t \<le> od_ReconfigEpoch (ar_lastOrdered rt'))"
proof -
  let ?s = "record_block (io_IsNil out) (io_Block out) ((ar_lastOrdered rt)\<lparr> od_Rank := io_Rank out, od_IsNil := io_IsNil out,
    od_TransitionCount := length (io_EpochTransitions out) \<rparr>)"
  obtain s1 rt1 where r: "record_transitions env (io_EpochTransitions out) (?s, rt) = Some (s1, rt1)" "rt' = rt1\<lparr>ar_lastOrdered := s1\<rparr>"
    using assms(1) by (auto simp: recordOrderedOutput_def Let_def)
  have e: "od_ReconfigEpoch ?s = od_ReconfigEpoch (ar_lastOrdered rt)"
    by (simp add: record_block_def split: option.splits)
  with assms(2) have "follows ?s rt" by (simp add: follows_def)
  from record_transitions_follow [OF r(1) this] r(2) e show ?thesis by (simp add: follows_def)
qed

text \<open>
  The gate is driven by the ordered log alone: in every run, whatever the ticks and the applied actions in
  between, its epoch is the highest epoch of the transitions in the outputs recorded so far, so actions are only
  released when an ordered reconfiguration starts a new epoch.
\<close>

theorem gate_follows_order:
  assumes "runtime_run env rt0 rt" and "follows (ar_lastOrdered rt0) rt0" and "ar_ctrl rt = Some c" and "ct_epochGate c = Some g"
  shows "eg_currentEpoch g = od_ReconfigEpoch (ar_lastOrdered rt) \<and> od_ReconfigEpoch (ar_lastOrdered rt0) \<le> od_ReconfigEpoch (ar_lastOrdered rt)"
proof -
  have "follows (ar_lastOrdered rt) rt \<and> od_ReconfigEpoch (ar_lastOrdered rt0) \<le> od_ReconfigEpoch (ar_lastOrdered rt)"
    using assms(1,2)
  proof (induction rule: runtime_run.induct)
    case start
    then show ?case by simp
  next
    case (ordered rt out rt')
    with ordered_epoch [OF ordered(2)] show ?case by auto
  next
    case (ticked rt c policy obs actuator now c' new err)
    note ih = ticked(4) [OF ticked(5)]
    have "eg_currentEpoch g' = od_ReconfigEpoch (ar_lastOrdered rt)" if gate: "ct_epochGate c' = Some g'" for g'
    proof -
      obtain g where "ct_epochGate c = Some g" "eg_currentEpoch g' = eg_currentEpoch g"
        using Tick_gate [OF ticked(3) gate] by blast
      with ticked(2) ih show ?thesis by (simp add: follows_def)
    qed
    with ih show ?case by (simp add: follows_def)
  next
    case (applied rt a rt' r)
    from applied(3) [OF applied(4)] Apply_control [OF applied(2)] show ?case by (simp add: same_control_def follows_def)
  next
    case (others rt rt')
    from others(3) [OF others(4)] others(2) show ?case by (simp add: same_control_def follows_def)
  qed
  with assms(3,4) show ?thesis by (simp add: follows_def)
qed

section \<open>An intent is made once\<close>

lemma submit_signed_frame: "ar_memberMgr (fst (submit_signed env priv mk b rt)) = ar_memberMgr rt \<and>
    ar_keypair (fst (submit_signed env priv mk b rt)) = ar_keypair rt \<and> ar_nodeID (fst (submit_signed env priv mk b rt)) = ar_nodeID rt"
  by (auto simp: submit_signed_def Let_def split: list.splits sum.splits prod.splits option.splits)

text \<open>
  A join that is submitted without an error is pending with Hydra exactly as the node's own executor
  demands: it authorizes the transaction, whatever its VRF key and signature.  And it is submitted once: a second
  attempt does nothing, also when the transaction has been lost.
\<close>

theorem join_intent_authorized_once:
  assumes "submitLocalJoinIntent env rt = (rt', None)" and "ar_memberMgr rt = Some mm" and "ar_keypair rt = Some (pub, priv)"
    and "ar_hydraMgr rt = Some hm" and "ar_nodeID rt |\<notin>| fmdom (cfg_Validators (GetCurrentConfig mm))"
    and "\<not> hasPendingHydraRequest (Some hm) (ar_nodeID rt) True"
  shows "reconfigAuthorizedByHydraPendingIntent (Some ((join_data rt (GetCurrentConfig mm) pub vrf)\<lparr>rd_Signature := sig\<rparr>)) (ar_hydraMgr rt') \<and>
    submitLocalJoinIntent env rt' = (rt', None)"
proof -
  let ?i = "ar_nodeID rt" and ?send = "submit_signed env priv (join_data rt (GetCurrentConfig mm) pub) True"
  let ?r = "\<lparr> mr_Type = RequestJoin, mr_ID = ?i, mr_PublicKey = pub, mr_Power = 1, mr_Signature = [], mr_View = 0 \<rparr>"
  have w: "with_intent (hm_SubmitJoinRequest ?i pub 1) (RemoveJoinRequest ?i) ?send rt = (rt', None)"
    using assms by (simp add: submitLocalJoinIntent_def Let_def)
  obtain hm' r where reg: "hm_SubmitJoinRequest ?i pub 1 hm = (hm', r)" by fastforce
  obtain rt2 e where s: "?send (rt\<lparr>ar_hydraMgr := Some hm'\<rparr>) = (rt2, e)" by fastforce
  have "r = None" "e = None" "rt' = rt2"
    using w reg s assms(4) by (auto simp: with_intent_def split: option.splits)
  then have rt': "ar_hydraMgr rt' = Some hm'" "ar_memberMgr rt' = Some mm" "ar_keypair rt' = Some (pub, priv)" "ar_nodeID rt' = ?i"
    using submit_signed_hydra [of env priv "join_data rt (GetCurrentConfig mm) pub" True "rt\<lparr>ar_hydraMgr := Some hm'\<rparr>"]
      submit_signed_frame [of env priv "join_data rt (GetCurrentConfig mm) pub" True "rt\<lparr>ar_hydraMgr := Some hm'\<rparr>"] s assms(2,3) by simp_all
  have joins: "tm_pendingJoins (hm_tcm hm') = fmupd ?i ?r (tm_pendingJoins (hm_tcm hm))"
    using reg \<open>r = None\<close> by (auto simp: hm_SubmitJoinRequest_def AddJoinRequest_def update_tcm_def split: if_splits)
  have r: "?r \<in> set (pending_requests (tm_pendingJoins (hm_tcm hm')))"
    unfolding set_pending_requests by (rule exI [of _ ?i]) (simp add: joins)
  have other: "mr_ID y \<noteq> ?i" if "fmlookup (tm_pendingJoins (hm_tcm hm)) j = Some y" for j y
    using that assms(6) set_pending_requests [of y "tm_pendingJoins (hm_tcm hm)"]
    by (auto simp: hasPendingHydraRequest_def list_ex_iff)
  have "find (\<lambda>r. mr_ID r = ?i) (pending_requests (tm_pendingJoins (hm_tcm hm'))) = Some ?r"
    by (rule find_unique [OF r]) (auto simp: set_pending_requests joins split: if_splits dest: other)
  then have "reconfigAuthorizedByHydraPendingIntent (Some ((join_data rt (GetCurrentConfig mm) pub vrf)\<lparr>rd_Signature := sig\<rparr>)) (Some hm')"
    by (simp add: reconfigAuthorizedByHydraPendingIntent_def join_data_def)
  moreover have "hasPendingHydraRequest (Some hm') ?i True"
    using r by (force simp: hasPendingHydraRequest_def list_ex_iff)
  ultimately show ?thesis
    using rt' assms(5) by (simp add: submitLocalJoinIntent_def Let_def)
qed

section \<open>Examples\<close>

text \<open>Node 9 is no member; its runtime with and without an engine.\<close>

definition rt_example :: "(engine \<times> mempool) list \<Rightarrow> runtime" where
  "rt_example es = \<lparr> ar_nodeID = 9, ar_keypair = Some ([9], [9]), ar_engines = es, ar_memberMgr = Some (NewMembershipManager mm_first),
     ar_hydraMgr = Some hm_new, ar_ctrl = Some co_start, ar_lastOrdered = \<lparr> od_Rank = 0, od_Height = 0, od_LaneID = 0, od_ConfigID = 0,
       od_IsNil = False, od_TransitionCount = 0, od_ReconfigEpoch = 0 \<rparr> \<rparr>"

lemma rt_example_fields:
  "ar_nodeID (rt_example es) = 9" "ar_keypair (rt_example es) = Some ([9], [9])" "ar_memberMgr (rt_example es) = Some (NewMembershipManager mm_first)"
  "ar_hydraMgr (rt_example es) = Some hm_new" "ar_engines (rt_example es) = es"
  by (simp_all add: rt_example_def)

definition rt_example_env :: runtime_env where
  "rt_example_env = \<lparr> rt_exec = plain_env, rt_sign = (\<lambda>k m. k), rt_json = (\<lambda>d. Inr [5]), rt_vrf = None,
     rt_mempool = toy_mempool_env, rt_now = 0 \<rparr>"

definition rt_joined :: "runtime \<times> string option" where
  "rt_joined = submitLocalJoinIntent rt_example_env (rt_example [(toy_engine 1, toy_mempool)])"

lemma rt_example_new:
  "9 |\<notin>| fmdom (cfg_Validators (GetCurrentConfig (NewMembershipManager mm_first)))" "\<not> hasPendingHydraRequest (Some hm_new) 9 True"
  by code_simp+

lemma toy_submitted: "snd (SubmitTransaction toy_mempool_env 0 (Some \<lparr> tx_Type = TxTypeReconfig, tx_Payload = [5] \<rparr>) toy_mempool) = None"
  by (simp add: SubmitTransaction_def submit_def toy_mempool_env_def toy_mempool_def NewMempoolWithOptions_def normalizeOptions_def or_default_def
      DefaultOptions_def pruneExpired_def evictUntilFit_def evictUntilQueueSlot_def enqueue_def Let_def)

lemma hm_new_joins: "\<exists>hm'. hm_SubmitJoinRequest 9 [9] 1 hm_new = (hm', None)"
  by (simp add: hm_SubmitJoinRequest_def AddJoinRequest_def hm_new_def NewHydraManager_def NoopCredentialVerifier_def
    NewAutoTransitionManager_def NewTemporaryConfigurationManager_def atm_SetNodeID_def Let_def)

lemma rt_joined_ok: "snd rt_joined = None"
proof -
  obtain mp where "SubmitTransaction toy_mempool_env 0 (Some \<lparr> tx_Type = TxTypeReconfig, tx_Payload = [5] \<rparr>) toy_mempool = (mp, None)"
    using toy_submitted by (metis prod.collapse)
  moreover obtain hm where "hm_SubmitJoinRequest 9 [9] 1 hm_new = (hm, None)" using hm_new_joins by blast
  ultimately show ?thesis
    using rt_example_new
    by (simp add: rt_joined_def submitLocalJoinIntent_def rt_example_fields with_intent_def submit_signed_def rt_example_env_def Let_def)
qed

theorem join_intent_authorized_once_witness:
  "reconfigAuthorizedByHydraPendingIntent (Some ((join_data (rt_example []) (GetCurrentConfig (NewMembershipManager mm_first)) [9] [])\<lparr>rd_Signature := [9]\<rparr>))
     (ar_hydraMgr (fst rt_joined)) \<and> submitLocalJoinIntent rt_example_env (fst rt_joined) = (fst rt_joined, None)"
proof -
  have j: "submitLocalJoinIntent rt_example_env (rt_example [(toy_engine 1, toy_mempool)]) = (fst rt_joined, None)"
    using rt_joined_ok by (metis rt_joined_def prod.collapse)
  have "join_data (rt_example [(toy_engine 1, toy_mempool)]) c pub vrf = join_data (rt_example []) c pub vrf" for c pub vrf
    by (simp add: join_data_def rt_example_def)
  with join_intent_authorized_once [OF j, of "NewMembershipManager mm_first" "[9]" "[9]" hm_new "[9]" "[]"] rt_example_new show ?thesis
    by (simp add: rt_example_fields)
qed

theorem failed_intent_leaves_no_trace_witness:
  "snd (submitLocalJoinIntent rt_example_env (rt_example [])) = Some ''engine unavailable'' \<and>
   ar_hydraMgr (fst (submitLocalJoinIntent rt_example_env (rt_example []))) = Some hm_new"
proof -
  obtain hm where "hm_SubmitJoinRequest 9 [9] 1 hm_new = (hm, None)" using hm_new_joins by blast
  then have e: "snd (submitLocalJoinIntent rt_example_env (rt_example [])) = Some ''engine unavailable''"
    using rt_example_new
    by (simp add: submitLocalJoinIntent_def rt_example_fields with_intent_def submit_signed_def rt_example_env_def Let_def)
  then have "submitLocalJoinIntent rt_example_env (rt_example []) =
      (fst (submitLocalJoinIntent rt_example_env (rt_example [])), Some ''engine unavailable'')"
    by (metis prod.collapse)
  with failed_intent_leaves_no_trace [of rt_example_env "rt_example []" "fst (submitLocalJoinIntent rt_example_env (rt_example []))"] e
  have "ar_hydraMgr (fst (submitLocalJoinIntent rt_example_env (rt_example []))) = ar_hydraMgr (rt_example [])" by blast
  with e show ?thesis by (simp add: rt_example_def)
qed

text \<open>A node that leads nobody asks for ten configurations.\<close>

theorem Apply_returns_witness:
  "Apply rt_example_env ((noop_action [])\<lparr>ac_HydraDiscoveryTarget := 10\<rparr>) (rt_example []) \<noteq> None"
  by (rule Apply_returns) (simp add: noop_action_def)

text \<open>An ordered output that starts epoch 5.\<close>

definition rt_output :: instance_output where
  "rt_output = \<lparr> io_InstanceID = 0, io_LocalHeight = 1, io_Rank = 1, io_BlockHash = [], io_Block = None,
     io_EpochTransitions = [Some \<lparr> et_OldEpoch = 1, et_NewEpoch = 5, et_ActivationHeight = 1, et_ActivationRank = 1, et_Added = [],
       et_Removed = [], et_QuorumSize = 3, et_ConfigHash = [] \<rparr>], io_IsNil = False \<rparr>"

theorem gate_follows_order_witness:
  "\<exists>rt c g. recordOrderedOutput rt_example_env rt_output (rt_example []) = Some rt \<and> ar_ctrl rt = Some c \<and> ct_epochGate c = Some g \<and>
    eg_currentEpoch g = 5"
proof -
  let ?g = "(NewEpochGate DefaultEpochGateConfig)\<lparr>eg_currentEpoch := 5\<rparr>"
  let ?c = "co_start\<lparr>ct_epochGate := Some ?g\<rparr>"
  have gate: "ct_epochGate co_start = Some (NewEpochGate DefaultEpochGateConfig)" "eg_currentEpoch (NewEpochGate DefaultEpochGateConfig) = 0"
      "eg_pending (NewEpochGate DefaultEpochGateConfig) = None"
    by (simp_all add: co_start_def SetEpochGate_def NewEpochGate_def DefaultEpochGateConfig_def)
  then have "ct_AdvanceEpoch 5 (Some (\<lambda>a. None)) 0 co_start = (?c, [], None)"
    by (simp add: ct_AdvanceEpoch_def eg_AdvanceEpoch_def Let_def)
  then obtain rt where rt: "recordOrderedOutput rt_example_env rt_output (rt_example []) = Some rt" "ar_ctrl rt = Some ?c"
      "od_ReconfigEpoch (ar_lastOrdered rt) = 5"
    by (simp add: recordOrderedOutput_def rt_output_def rt_example_def rt_example_env_def record_block_def Let_def)
  have "follows (ar_lastOrdered (rt_example [])) (rt_example [])"
    using gate by (simp add: follows_def rt_example_def)
  from gate_follows_order [OF runtime_run.ordered [OF runtime_run.start rt(1)] this rt(2), of ?g] rt show ?thesis by simp
qed

end
