(* ===== verification/Topic_Names.thy ===== *)
theory Topic_Names
  imports Go_Prelude
begin

text \<open>
  The names of the gossip topics (network/libp2p/host.go) and the text operations they need: Go's
  \<open>strings.TrimSpace\<close>, \<open>Trim\<close>, \<open>TrimSuffix\<close> and \<open>Split\<close> on ASCII text, and the decimal numerals of
  \<open>fmt.Sprintf\<close> and \<open>fmt.Sscanf\<close> with \<open>%d\<close>.  A validator reads the instance back from the name of the
  topic; the round trip is proved for every base name that has no part \<open>instance\<close> of its own.
\<close>

section \<open>Text\<close>

definition is_space :: "char \<Rightarrow> bool" where
  "is_space c \<longleftrightarrow> c \<in> {CHR 0x09, CHR 0x0A, CHR 0x0B, CHR 0x0C, CHR 0x0D, CHR '' ''}"

definition trim_chars :: "(char \<Rightarrow> bool) \<Rightarrow> string \<Rightarrow> string" where
  "trim_chars P s = rev (dropWhile P (rev (dropWhile P s)))"

definition TrimSpace :: "string \<Rightarrow> string" where
  "TrimSpace s = trim_chars is_space s"

definition trim_suffix :: "char \<Rightarrow> string \<Rightarrow> string" where
  "trim_suffix c s = (if s \<noteq> [] \<and> last s = c then butlast s else s)"

fun split_text :: "char \<Rightarrow> string \<Rightarrow> string list" where
  "split_text c [] = [[]]"
| "split_text c (x # xs) = (if x = c then [] # split_text c xs
     else (case split_text c xs of p # ps \<Rightarrow> (x # p) # ps | [] \<Rightarrow> [[x]]))"

fun decimal :: "nat \<Rightarrow> string" where
  "decimal n = (if n < 10 then [char_of (48 + n)] else decimal (n div 10) @ [char_of (48 + n mod 10)])"

declare decimal.simps [simp del]

definition is_digit :: "char \<Rightarrow> bool" where
  "is_digit c \<longleftrightarrow> 48 \<le> (of_char c :: nat) \<and> (of_char c :: nat) < 58"

definition digits_value :: "string \<Rightarrow> nat" where
  "digits_value s = foldl (\<lambda>a c. 10 * a + (of_char c - 48)) 0 s"

text \<open>
  \<open>Sscanf (s, "%d", &id)\<close> into a \<open>uint64\<close>: leading blanks are skipped (a line end is an error), the
  longest run of digits is read, what follows is ignored, and a value that does not fit is an error.
\<close>

definition scan_u64 :: "string \<Rightarrow> u64 option" where
  "scan_u64 s = (let d = takeWhile is_digit (dropWhile (\<lambda>c. is_space c \<and> c \<noteq> CHR 0x0A) s)
     in if d = [] \<or> 2 ^ 64 \<le> digits_value d then None else Some (of_nat (digits_value d)))"

section \<open>Topics\<close>

definition topic_root :: "string \<Rightarrow> string" where
  "topic_root base = (let root = trim_suffix (CHR ''/'') (TrimSpace base)
     in if root = [] then ''evolvbft-consensus'' else root)"

definition InstanceConsensusTopic :: "string \<Rightarrow> u64 \<Rightarrow> string" where
  "InstanceConsensusTopic base i = topic_root base @ ''/instance/'' @ decimal (unat i)"

definition GlobalTopic :: "string \<Rightarrow> string" where
  "GlobalTopic base = topic_root base @ ''/global''"

definition ReconfigTopic :: "string \<Rightarrow> string" where
  "ReconfigTopic base = topic_root base @ ''/reconfig''"

fun scan_parts :: "string list \<Rightarrow> u64 option" where
  "scan_parts (p # q # ps) = (if p \<noteq> ''instance'' then scan_parts (q # ps)
     else (case scan_u64 q of Some i \<Rightarrow> Some i | None \<Rightarrow> scan_parts (q # ps)))"
| "scan_parts ps = None"

definition instanceFromTopic :: "string \<Rightarrow> u64 option" where
  "instanceFromTopic topic = scan_parts (split_text (CHR ''/'') (trim_chars (\<lambda>c. c = CHR ''/'') topic))"

section \<open>Numerals\<close>

lemma digit_char: "n < 10 \<Longrightarrow> of_char (char_of (48 + n) :: char) = (48 + n :: nat)"
  by simp

lemma digit_is_digit: "n < 10 \<Longrightarrow> is_digit (char_of (48 + n :: nat))"
  by (simp add: is_digit_def)

lemma decimal_digits: "list_all is_digit (decimal n)"
  by (induction n rule: decimal.induct) (subst decimal.simps, simp add: digit_is_digit)

lemma decimal_not_empty [simp]: "decimal n \<noteq> []"
  by (subst decimal.simps) simp

lemma digits_value_snoc: "digits_value (xs @ [c]) = 10 * digits_value xs + (of_char c - 48)"
  by (simp add: digits_value_def)

lemma digits_value_decimal [simp]: "digits_value (decimal n) = n"
proof (induction n rule: decimal.induct)
  case (1 n)
  show ?case
  proof (cases "n < 10")
    case True
    then show ?thesis by (subst decimal.simps) (simp add: digits_value_def digit_char)
  next
    case False
    then have "digits_value (decimal n) = 10 * (n div 10) + n mod 10"
      by (subst decimal.simps) (simp add: digits_value_snoc digit_char 1)
    then show ?thesis by simp
  qed
qed

lemma digit_not_space: "is_digit c \<Longrightarrow> \<not> is_space c"
  by (auto simp: is_digit_def is_space_def)

lemma digit_not_slash: "is_digit c \<Longrightarrow> c \<noteq> CHR ''/''"
  by (auto simp: is_digit_def)

lemma scan_u64_decimal [simp]: "scan_u64 (decimal (unat i)) = Some i"
proof -
  have "unat i < 2 ^ LENGTH(64)"
    by (rule unsigned_less)
  then have "\<not> 2 ^ 64 \<le> unat i"
    by simp
  moreover have "takeWhile is_digit (decimal (unat i)) = decimal (unat i)"
    using decimal_digits by (simp add: takeWhile_eq_all_conv list_all_iff)
  moreover have "dropWhile (\<lambda>c. is_space c \<and> c \<noteq> CHR 0x0A) (decimal (unat i)) = decimal (unat i)"
    using decimal_digits [of "unat i"] digit_not_space by (cases "decimal (unat i)") auto
  ultimately show ?thesis by (simp add: scan_u64_def Let_def del: takeWhile_eq_all_conv)
qed

section \<open>Splitting\<close>

lemma split_text_not_empty [simp]: "split_text c s \<noteq> []"
  by (induction s) (auto split: list.splits)

lemma split_text_append: "split_text c (xs @ c # ys) = split_text c xs @ split_text c ys"
  by (induction xs) (auto split: list.splits simp: Cons_eq_append_conv)

lemma split_text_plain: "c \<notin> set s \<Longrightarrow> split_text c s = [s]"
  by (induction s) auto

lemma split_text_dropWhile: "set (split_text c (dropWhile (\<lambda>x. x = c) s)) \<subseteq> insert [] (set (split_text c s))"
  by (induction s) auto

lemma scan_parts_skip:
  "''instance'' \<notin> set ps \<Longrightarrow> scan_parts (ps @ [''instance'', q]) = scan_parts [''instance'', q]"
proof (induction ps)
  case (Cons p ps)
  then show ?case by (cases ps) auto
qed simp

lemma trim_instance_topic:
  assumes "root \<noteq> []" and "list_all is_digit d" and "d \<noteq> []"
  shows "trim_chars (\<lambda>c. c = CHR ''/'') (root @ ''/instance/'' @ d) =
    (let r = dropWhile (\<lambda>c. c = CHR ''/'') root in if r = [] then ''instance/'' @ d else r @ ''/instance/'' @ d)"
proof -
  have last: "last d \<noteq> CHR ''/''"
    using assms(2,3) digit_not_slash by (auto simp: list_all_iff)
  have keep: "rev (dropWhile (\<lambda>c. c = CHR ''/'') (rev (xs @ d))) = xs @ d" for xs
    using last assms(3) by (cases d rule: rev_cases) simp_all
  show ?thesis
  proof (cases "dropWhile (\<lambda>c. c = CHR ''/'') root = []")
    case True
    then have "dropWhile (\<lambda>c. c = CHR ''/'') (root @ ''/instance/'' @ d) = ''instance/'' @ d"
      by (simp add: dropWhile_append)
    with True show ?thesis
      unfolding trim_chars_def Let_def using keep [of "''instance/''"] by simp
  next
    case False
    then have "dropWhile (\<lambda>c. c = CHR ''/'') (root @ ''/instance/'' @ d) = dropWhile (\<lambda>c. c = CHR ''/'') root @ ''/instance/'' @ d"
      by (simp add: dropWhile_append)
    with False show ?thesis
      unfolding trim_chars_def Let_def using keep [of "dropWhile (\<lambda>c. c = CHR ''/'') root @ ''/instance/''"] by simp
  qed
qed

text \<open>
  A validator that is given no instance reads from the name of a topic exactly the
  instance the topic was made for, whatever its base name, as long as no part of the base name is
  \<open>instance\<close>.
\<close>

theorem topic_names_its_instance:
  assumes "''instance'' \<notin> set (split_text (CHR ''/'') (topic_root base))"
  shows "instanceFromTopic (InstanceConsensusTopic base i) = Some i"
proof -
  define r where "r = dropWhile (\<lambda>c. c = CHR ''/'') (topic_root base)"
  define d where "d = decimal (unat i)"
  have digits: "list_all is_digit d" and "d \<noteq> []"
    unfolding d_def by (rule decimal_digits decimal_not_empty)+
  then have "CHR ''/'' \<notin> set d"
    using digit_not_slash unfolding list_all_iff by blast
  then have d: "list_all is_digit d" "d \<noteq> []" "split_text (CHR ''/'') d = [d]"
    using digits \<open>d \<noteq> []\<close> by (simp_all add: split_text_plain)
  have root: "topic_root base \<noteq> []"
    by (simp add: topic_root_def Let_def)
  have free: "''instance'' \<notin> set (split_text (CHR ''/'') r)"
    using assms split_text_dropWhile [of "CHR ''/''" "topic_root base"] by (auto simp: r_def)
  have tail: "split_text (CHR ''/'') (''instance/'' @ d) = [''instance'', d]"
    using split_text_append [of "CHR ''/''" "''instance''" d] by (simp add: split_text_plain d(3))
  have "split_text (CHR ''/'') (r @ ''/instance/'' @ d) = split_text (CHR ''/'') r @ [''instance'', d]"
    using split_text_append [of "CHR ''/''" r "''instance/'' @ d"] tail by simp
  then have "scan_parts (split_text (CHR ''/'') (trim_chars (\<lambda>c. c = CHR ''/'') (topic_root base @ ''/instance/'' @ d))) =
      scan_parts [''instance'', d]"
    using trim_instance_topic [OF root d(1,2)] tail scan_parts_skip [OF free, of d]
    by (simp add: Let_def r_def)
  then show ?thesis
    by (simp add: instanceFromTopic_def InstanceConsensusTopic_def d_def)
qed

theorem topic_names_its_instance_witness:
  "instanceFromTopic (InstanceConsensusTopic '' /net/main/ '' 12) = Some 12"
  by (rule topic_names_its_instance) code_simp

text \<open>Topics of different instances are different, whatever the base name.\<close>

lemma InstanceConsensusTopic_inject:
  "InstanceConsensusTopic base i = InstanceConsensusTopic base j \<longleftrightarrow> i = j"
proof
  assume "InstanceConsensusTopic base i = InstanceConsensusTopic base j"
  then have "digits_value (decimal (unat i)) = digits_value (decimal (unat j))"
    by (simp add: InstanceConsensusTopic_def)
  then show "i = j" by (simp add: word_unat_eq_iff)
qed simp

text \<open>A base name with a part \<open>instance\<close> followed by a number hides the instance of every topic.\<close>

lemma base_name_hides_instance:
  "instanceFromTopic (InstanceConsensusTopic ''net/instance/7'' 12) = Some 7"
proof -
  have "char_of (49 :: nat) = CHR ''1''" and "char_of (50 :: nat) = CHR ''2''"
    by code_simp+
  then have "InstanceConsensusTopic ''net/instance/7'' 12 = ''net/instance/7/instance/12''"
    by (simp add: InstanceConsensusTopic_def topic_root_def trim_suffix_def TrimSpace_def trim_chars_def is_space_def decimal.simps)
  moreover have "instanceFromTopic ''net/instance/7/instance/12'' = Some 7"
    by (simp add: instanceFromTopic_def trim_chars_def scan_u64_def is_digit_def is_space_def digits_value_def)
  ultimately show ?thesis by simp
qed

end
