(* ===== verification/Topic_Validation.thy ===== *)
theory Topic_Validation
  imports Topic_Names Toy_Cluster
begin

text \<open>
  The gossip layer of a node (network/libp2p/host.go): the policies of the topics and the validator
  that every gossiped message passes before it is relayed or delivered, the subscriptions with their
  bounded inbound queues, and the address book with the direct sends.  libp2p itself (the
  gossip router, connections, streams) is not in the repository: what its calls return are arguments.
  Times are nanoseconds as integers.  A policy reads the epoch and the keys through two functions of
  the client; they are functions of the client's state \<open>'s\<close>, and the client of the consensus topic is
  the engine.  The router validates messages concurrently, and the clock is read before the lock of the
  windows is taken; the model takes the messages one after the other, in the order of their times.
\<close>

section \<open>State\<close>

record 's topic_policy =
  tp_ExpectedInstance :: "u64 option"
  tp_EpochProvider :: "('s \<Rightarrow> u64) option"
  tp_KeyProvider :: "('s \<Rightarrow> u64 \<Rightarrow> bytes option) option"
  tp_MaxMessageBytes :: int
  tp_ReplayTTL :: int
  tp_RateLimitPerWindow :: int
  tp_RateLimitWindow :: int

record sender_window =
  sw_start :: int
  sw_count :: int

record addr_info =
  ai_ID :: string
  ai_Addrs :: "string list"

text \<open>A channel is its queue and its capacity; \<open>p2_published\<close> lists what was handed to the router.\<close>

record 's p2p =
  p2_topicPolicies :: "(string, 's topic_policy) fmap"
  p2_validatorsInstalled :: "string fset"
  p2_seenDigests :: "(string, (string, int) fmap) fmap"
  p2_senderWindows :: "(string, (u64, sender_window) fmap) fmap"
  p2_validatorStats :: "(string, u64) fmap"
  p2_topics :: "string fset"
  p2_chans :: "(string, bytes list \<times> nat) fmap"
  p2_ConsensusChan :: "bytes list \<times> nat"
  p2_addressBook :: "(u64, addr_info) fmap"
  p2_peerIDMap :: "(string, u64) fmap"
  p2_totalBytesSent :: u64
  p2_totalBytesRecv :: u64
  p2_published :: "(string \<times> bytes) list"

definition NewP2PNetwork :: "'s p2p" where
  "NewP2PNetwork = \<lparr> p2_topicPolicies = fmempty, p2_validatorsInstalled = {||}, p2_seenDigests = fmempty,
     p2_senderWindows = fmempty, p2_validatorStats = fmempty, p2_topics = {||}, p2_chans = fmempty, p2_ConsensusChan = ([], 8192),
     p2_addressBook = fmempty, p2_peerIDMap = fmempty, p2_totalBytesSent = 0, p2_totalBytesRecv = 0, p2_published = [] \<rparr>"

text \<open>The decoder of messages (gob), with the digest and the signature check of the engine's environment.\<close>

record topic_env =
  tv_decode :: "bytes \<Rightarrow> message option"
  tv_engine :: engine_env

section \<open>Policies\<close>

definition if_positive :: "int \<Rightarrow> int \<Rightarrow> int" where
  "if_positive x d = (if x \<le> 0 then d else x)"

definition normalize_policy :: "'s topic_policy \<Rightarrow> 's topic_policy" where
  "normalize_policy p = p\<lparr> tp_MaxMessageBytes := if_positive (tp_MaxMessageBytes p) (2 ^ 20),
     tp_ReplayTTL := if_positive (tp_ReplayTTL p) (30 * 1000000000),
     tp_RateLimitPerWindow := if_positive (tp_RateLimitPerWindow p) 1000,
     tp_RateLimitWindow := if_positive (tp_RateLimitWindow p) 1000000000 \<rparr>"

text \<open>The first argument says whether the router accepts the validator; the result is false on an error.\<close>

definition ensureTopicValidator :: "bool \<Rightarrow> string \<Rightarrow> 's p2p \<Rightarrow> 's p2p \<times> bool" where
  "ensureTopicValidator router_ok topic n =
     (if topic |\<notin>| fmdom (p2_topicPolicies n) \<or> topic |\<in>| p2_validatorsInstalled n then (n, True)
      else if \<not> router_ok then (n, False)
      else (n\<lparr>p2_validatorsInstalled := finsert topic (p2_validatorsInstalled n)\<rparr>, True))"

definition RegisterTopicPolicy :: "bool \<Rightarrow> string \<Rightarrow> 's topic_policy \<Rightarrow> 's p2p \<Rightarrow> 's p2p \<times> bool" where
  "RegisterTopicPolicy router_ok topic policy n =
     ensureTopicValidator router_ok topic (n\<lparr>p2_topicPolicies := fmupd topic (normalize_policy policy) (p2_topicPolicies n)\<rparr>)"

text \<open>The policy with which an engine is started.\<close>

definition engine_policy :: "u64 \<Rightarrow> engine topic_policy" where
  "engine_policy i = \<lparr> tp_ExpectedInstance = Some i, tp_EpochProvider = Some e_currentEpoch,
     tp_KeyProvider = Some resolveValidatorPubKeyByID, tp_MaxMessageBytes = 0, tp_ReplayTTL = 0,
     tp_RateLimitPerWindow = 0, tp_RateLimitWindow = 0 \<rparr>"

section \<open>The validator\<close>

definition incValidatorStat :: "string \<Rightarrow> 's p2p \<Rightarrow> 's p2p" where
  "incValidatorStat reason n = n\<lparr>p2_validatorStats :=
     fmupd reason (case fmlookup (p2_validatorStats n) reason of Some c \<Rightarrow> c + 1 | None \<Rightarrow> 1) (p2_validatorStats n)\<rparr>"

definition isRateLimited :: "string \<Rightarrow> u64 \<Rightarrow> int \<Rightarrow> 's topic_policy \<Rightarrow> 's p2p \<Rightarrow> bool \<times> 's p2p" where
  "isRateLimited topic sender now policy n =
     (let wins = (case fmlookup (p2_senderWindows n) topic of Some m \<Rightarrow> m | None \<Rightarrow> fmempty);
          put = (\<lambda>w. n\<lparr>p2_senderWindows := fmupd topic (fmupd sender w wins) (p2_senderWindows n)\<rparr>);
          fresh = \<lparr> sw_start = now, sw_count = 1 \<rparr>
      in case fmlookup wins sender of
           None \<Rightarrow> (False, put fresh)
         | Some w \<Rightarrow> if now - sw_start w \<ge> tp_RateLimitWindow policy then (False, put fresh)
             else (sw_count w + 1 > tp_RateLimitPerWindow policy, put (w\<lparr>sw_count := sw_count w + 1\<rparr>)))"

definition isReplay :: "topic_env \<Rightarrow> string \<Rightarrow> bytes \<Rightarrow> int \<Rightarrow> int \<Rightarrow> 's p2p \<Rightarrow> bool \<times> 's p2p" where
  "isReplay env topic data now ttl n =
     (let digest = hex_encode (ev_sha256 (tv_engine env) data);
          seen = (case fmlookup (p2_seenDigests n) topic of Some m \<Rightarrow> m | None \<Rightarrow> fmempty);
          live = fmfilter (\<lambda>k. case fmlookup seen k of Some ts \<Rightarrow> \<not> now - ts > ttl | None \<Rightarrow> True) seen;
          put = (\<lambda>m. n\<lparr>p2_seenDigests := fmupd topic m (p2_seenDigests n)\<rparr>)
      in if digest |\<in>| fmdom live then (True, put live) else (False, put (fmupd digest now live)))"

text \<open>
  What the validator reads off the message: the reason of the rejection, or the decoded message.
  (\<open>DecodeMessage\<close> never returns a nil message without an error, so the check for one cannot fire.)
\<close>

definition check_content :: "topic_env \<Rightarrow> 's \<Rightarrow> string \<Rightarrow> 's topic_policy \<Rightarrow> bytes \<Rightarrow> string + message" where
  "check_content env s topic policy data =
     (if tp_MaxMessageBytes policy > 0 \<and> int (length data) > tp_MaxMessageBytes policy then Inl ''pubsub_reject_size''
      else case tv_decode env data of None \<Rightarrow> Inl ''pubsub_reject_decode''
      | Some m \<Rightarrow>
        let expected = (case tp_ExpectedInstance policy of Some i \<Rightarrow> Some i | None \<Rightarrow> instanceFromTopic topic)
        in if (case expected of Some i \<Rightarrow> m_Instance m \<noteq> i | None \<Rightarrow> False) then Inl ''pubsub_reject_instance''
        else if (case tp_EpochProvider policy of None \<Rightarrow> False
                 | Some epoch \<Rightarrow> m_Epoch m < epoch s \<or> m_Epoch m > epoch s + 1) then Inl ''pubsub_reject_epoch''
        else if (case tp_KeyProvider policy of None \<Rightarrow> False
                 | Some key \<Rightarrow> (case key s (m_SenderID m) of None \<Rightarrow> True
                    | Some pk \<Rightarrow> \<not> m_VerifySignature (tv_engine env) m pk)) then Inl ''pubsub_reject_signature''
        else Inr m)"

definition validatePubSubMessage :: "topic_env \<Rightarrow> 's \<Rightarrow> int \<Rightarrow> string \<Rightarrow> bytes \<Rightarrow> 's p2p \<Rightarrow> bool \<times> 's p2p" where
  "validatePubSubMessage env s now topic data n =
     (case fmlookup (p2_topicPolicies n) topic of
        None \<Rightarrow> (True, n)
      | Some policy \<Rightarrow>
        (case check_content env s topic policy data of
           Inl reason \<Rightarrow> (False, incValidatorStat reason n)
         | Inr m \<Rightarrow>
           (case isRateLimited topic (m_SenderID m) now policy n of
              (True, n1) \<Rightarrow> (False, incValidatorStat ''pubsub_rate_limited'' n1)
            | (False, n1) \<Rightarrow>
              (case isReplay env topic data now (tp_ReplayTTL policy) n1 of
                 (True, n2) \<Rightarrow> (False, incValidatorStat ''pubsub_replay'' n2)
               | (False, n2) \<Rightarrow> (True, n2)))))"

text \<open>
  The router presents messages one after the other, each with the state the client has then.
  \<open>accepted_log\<close> lists those the validator lets through, with their times.
\<close>

type_synonym 's arrival = "'s \<times> int \<times> string \<times> bytes"

fun accepted_log :: "topic_env \<Rightarrow> 's arrival list \<Rightarrow> 's p2p \<Rightarrow> (int \<times> string \<times> bytes) list" where
  "accepted_log env [] n = []"
| "accepted_log env ((s, now, topic, data) # evs) n =
     (case validatePubSubMessage env s now topic data n of
        (ok, n') \<Rightarrow> (if ok then [(now, topic, data)] else []) @ accepted_log env evs n')"

fun validate_all :: "topic_env \<Rightarrow> 's arrival list \<Rightarrow> 's p2p \<Rightarrow> 's p2p" where
  "validate_all env [] n = n"
| "validate_all env ((s, now, topic, data) # evs) n = validate_all env evs (snd (validatePubSubMessage env s now topic data n))"

section \<open>Publishing and receiving\<close>

text \<open>The booleans say whether joining the topic, subscribing to it and publishing succeed.\<close>

definition PublishTopic :: "bool \<Rightarrow> bool \<Rightarrow> bool \<Rightarrow> string \<Rightarrow> bytes \<Rightarrow> 's p2p \<Rightarrow> 's p2p \<times> bool" where
  "PublishTopic router_ok join_ok publish_ok topic data n =
     (case ensureTopicValidator router_ok topic n of
        (n1, False) \<Rightarrow> (n1, False)
      | (n1, True) \<Rightarrow>
        if topic |\<notin>| p2_topics n1 \<and> \<not> join_ok then (n1, False)
        else (n1\<lparr> p2_topics := finsert topic (p2_topics n1), p2_totalBytesSent := p2_totalBytesSent n1 + of_nat (length data),
               p2_published := p2_published n1 @ (if publish_ok then [(topic, data)] else []) \<rparr>, publish_ok))"

definition SubscribeTopic :: "bool \<Rightarrow> bool \<Rightarrow> bool \<Rightarrow> string \<Rightarrow> int \<Rightarrow> 's p2p \<Rightarrow> 's p2p \<times> bool" where
  "SubscribeTopic router_ok join_ok subscribe_ok topic buf n =
     (case ensureTopicValidator router_ok topic n of
        (n1, False) \<Rightarrow> (n1, False)
      | (n1, True) \<Rightarrow>
        if topic |\<in>| fmdom (p2_chans n1) then (n1, True)
        else if \<not> join_ok \<or> \<not> subscribe_ok then (n1, False)
        else (n1\<lparr> p2_topics := finsert topic (p2_topics n1),
               p2_chans := fmupd topic ([], if buf \<le> 0 then 256 else nat buf) (p2_chans n1) \<rparr>, True))"

definition PublishGlobal :: "bool \<Rightarrow> bool \<Rightarrow> bool \<Rightarrow> string \<Rightarrow> bytes \<Rightarrow> 's p2p \<Rightarrow> 's p2p \<times> bool" where
  "PublishGlobal router_ok join_ok publish_ok base = PublishTopic router_ok join_ok publish_ok (GlobalTopic base)"

definition PublishReconfig :: "bool \<Rightarrow> bool \<Rightarrow> bool \<Rightarrow> string \<Rightarrow> bytes \<Rightarrow> 's p2p \<Rightarrow> 's p2p \<times> bool" where
  "PublishReconfig router_ok join_ok publish_ok base = PublishTopic router_ok join_ok publish_ok (ReconfigTopic base)"

text \<open>One turn of \<open>readSubscription\<close>: a message of the node itself is skipped, a full queue drops the message.\<close>

definition readSubscription :: "string \<Rightarrow> bool \<Rightarrow> bytes \<Rightarrow> 's p2p \<Rightarrow> 's p2p" where
  "readSubscription topic own data n =
     (if own then n
      else case fmlookup (p2_chans n) topic of None \<Rightarrow> n
      | Some (q, cap) \<Rightarrow>
        let n1 = n\<lparr>p2_totalBytesRecv := p2_totalBytesRecv n + of_nat (length data)\<rparr>
        in if length q < cap then n1\<lparr>p2_chans := fmupd topic (q @ [data], cap) (p2_chans n1)\<rparr>
           else incValidatorStat ''inbound_queue_drop'' n1)"

text \<open>
  A direct stream is read up to one megabyte and goes to the queue of every instance; when none of
  them takes it, to the queue of the base topic.  Votes have a handler of their own that only
  counts its drops under another name.  The order in which the queues are visited does not matter.
\<close>

definition contains_text :: "string \<Rightarrow> string \<Rightarrow> bool" where
  "contains_text s sub = list_ex (\<lambda>i. take (length sub) (drop i s) = sub) [0..<length s + 1]"

definition isInstanceConsensusTopic :: "string \<Rightarrow> bool" where
  "isInstanceConsensusTopic topic = contains_text topic ''/instance/''"

definition take_or_drop :: "bytes \<Rightarrow> bytes list \<times> nat \<Rightarrow> bytes list \<times> nat" where
  "take_or_drop buf c = (if length (fst c) < snd c then (fst c @ [buf], snd c) else c)"

definition free_instances :: "'s p2p \<Rightarrow> (string, bytes list \<times> nat) fmap" where
  "free_instances n = fmfilter (\<lambda>t. isInstanceConsensusTopic t \<and>
     (case fmlookup (p2_chans n) t of Some c \<Rightarrow> length (fst c) < snd c | None \<Rightarrow> False)) (p2_chans n)"

definition stream_into :: "string \<Rightarrow> bytes \<Rightarrow> 's p2p \<Rightarrow> 's p2p" where
  "stream_into reason data n =
     (let buf = take (2 ^ 20) data;
          targets = fmfilter isInstanceConsensusTopic (p2_chans n);
          n1 = n\<lparr> p2_totalBytesRecv := p2_totalBytesRecv n + of_nat (length buf),
            p2_chans := fmmap_keys (\<lambda>t c. if isInstanceConsensusTopic t then take_or_drop buf c else c) (p2_chans n) \<rparr>;
          n2 = (incValidatorStat reason ^^ (gm_len targets - gm_len (free_instances n))) n1
      in if buf = [] then n
         else if free_instances n \<noteq> fmempty then n2
         else if length (fst (p2_ConsensusChan n2)) < snd (p2_ConsensusChan n2)
           then n2\<lparr>p2_ConsensusChan := take_or_drop buf (p2_ConsensusChan n2)\<rparr>
           else incValidatorStat reason n2)"

definition handleStream :: "bytes \<Rightarrow> 's p2p \<Rightarrow> 's p2p" where
  "handleStream data n = stream_into ''stream_inbound_drop'' data n"

definition handleVoteStream :: "bytes \<Rightarrow> 's p2p \<Rightarrow> 's p2p" where
  "handleVoteStream data n = stream_into ''vote_inbound_drop'' data n"

section \<open>Facts about one validation\<close>

definition window_of :: "'s p2p \<Rightarrow> string \<Rightarrow> u64 \<Rightarrow> sender_window option" where
  "window_of n topic k = (case fmlookup (p2_senderWindows n) topic of Some m \<Rightarrow> fmlookup m k | None \<Rightarrow> None)"

definition seen_at :: "'s p2p \<Rightarrow> string \<Rightarrow> string \<Rightarrow> int option" where
  "seen_at n topic d = (case fmlookup (p2_seenDigests n) topic of Some m \<Rightarrow> fmlookup m d | None \<Rightarrow> None)"

definition tick :: "int \<Rightarrow> int \<Rightarrow> sender_window option \<Rightarrow> sender_window" where
  "tick now W w = (case w of None \<Rightarrow> \<lparr> sw_start = now, sw_count = 1 \<rparr>
     | Some v \<Rightarrow> if now - sw_start v \<ge> W then \<lparr> sw_start = now, sw_count = 1 \<rparr> else v\<lparr>sw_count := sw_count v + 1\<rparr>)"

definition over_limit :: "int \<Rightarrow> int \<Rightarrow> int \<Rightarrow> sender_window option \<Rightarrow> bool" where
  "over_limit now W L w = (case w of None \<Rightarrow> False
     | Some v \<Rightarrow> \<not> now - sw_start v \<ge> W \<and> sw_count v + 1 > L)"

lemma incValidatorStat_frame [framing]:
  "p2_topicPolicies (incValidatorStat r n) = p2_topicPolicies n"
  "window_of (incValidatorStat r n) = window_of n" "seen_at (incValidatorStat r n) = seen_at n"
  by (simp_all add: incValidatorStat_def window_of_def seen_at_def fun_eq_iff)

lemma isRateLimited_window:
  "window_of (snd (isRateLimited topic sender now p n)) t k =
     (if t = topic \<and> k = sender then Some (tick now (tp_RateLimitWindow p) (window_of n topic sender)) else window_of n t k)"
  "fst (isRateLimited topic sender now p n) \<longleftrightarrow>
     over_limit now (tp_RateLimitWindow p) (tp_RateLimitPerWindow p) (window_of n topic sender)"
  by (auto simp: isRateLimited_def window_of_def tick_def over_limit_def Let_def split: option.splits)

lemma isRateLimited_frame [framing]:
  "p2_topicPolicies (snd (isRateLimited topic sender now p n)) = p2_topicPolicies n"
  "seen_at (snd (isRateLimited topic sender now p n)) = seen_at n"
  by (simp_all add: isRateLimited_def seen_at_def Let_def fun_eq_iff split: option.splits)

lemma isReplay_frame [framing]:
  "p2_topicPolicies (snd (isReplay env topic data now ttl n)) = p2_topicPolicies n"
  "window_of (snd (isReplay env topic data now ttl n)) = window_of n"
  by (simp_all add: isReplay_def window_of_def Let_def fun_eq_iff)

definition data_digest :: "topic_env \<Rightarrow> bytes \<Rightarrow> string" where
  "data_digest env data = hex_encode (ev_sha256 (tv_engine env) data)"

lemma isReplay_seen:
  "fst (isReplay env topic data now ttl n) \<longleftrightarrow>
     (case seen_at n topic (data_digest env data) of Some ts \<Rightarrow> \<not> now - ts > ttl | None \<Rightarrow> False)"
  "seen_at (snd (isReplay env topic data now ttl n)) t d =
     (if t \<noteq> topic then seen_at n t d
      else if d = data_digest env data \<and> \<not> fst (isReplay env topic data now ttl n) then Some now
      else (case seen_at n topic d of Some ts \<Rightarrow> if now - ts > ttl then None else Some ts | None \<Rightarrow> None))"
  by (auto simp: isReplay_def seen_at_def data_digest_def Let_def fmdom_lookup_None fmlookup_dom_iff split: option.splits)

lemma validate_policies [framing]:
  "p2_topicPolicies (snd (validatePubSubMessage env s now topic data n)) = p2_topicPolicies n"
  by (simp add: validatePubSubMessage_def framing split_beta split: option.splits sum.splits prod.splits bool.splits)
     (metis framing snd_conv)

definition sender_of :: "topic_env \<Rightarrow> bytes \<Rightarrow> u64 option" where
  "sender_of env data = map_option m_SenderID (tv_decode env data)"

lemma check_content_Inr: "check_content env s topic p data = Inr m \<Longrightarrow> tv_decode env data = Some m"
  by (simp add: check_content_def Let_def split: if_splits option.splits)

lemma validate_window:
  assumes "fmlookup (p2_topicPolicies n) t = Some p"
  shows "(window_of (snd (validatePubSubMessage env s now topic data n)) t k = window_of n t k \<and>
      \<not> (fst (validatePubSubMessage env s now topic data n) \<and> topic = t \<and> sender_of env data = Some k)) \<or>
    (window_of (snd (validatePubSubMessage env s now topic data n)) t k = Some (tick now (tp_RateLimitWindow p) (window_of n t k)) \<and>
      (fst (validatePubSubMessage env s now topic data n) \<longrightarrow>
         \<not> over_limit now (tp_RateLimitWindow p) (tp_RateLimitPerWindow p) (window_of n t k)))"
proof (cases "fmlookup (p2_topicPolicies n) topic")
  case None
  with assms show ?thesis by (auto simp: validatePubSubMessage_def)
next
  case (Some q)
  show ?thesis
  proof (cases "check_content env s topic q data")
    case (Inl reason)
    with Some show ?thesis by (simp add: validatePubSubMessage_def framing)
  next
    case (Inr m)
    define r where "r = isRateLimited topic (m_SenderID m) now q n"
    have sender: "sender_of env data = Some (m_SenderID m)"
      using check_content_Inr [OF Inr] by (simp add: sender_of_def)
    have after: "window_of (snd (validatePubSubMessage env s now topic data n)) = window_of (snd r)"
      using Some Inr isReplay_frame(2) [of env topic data now "tp_ReplayTTL q" "snd r"]
      by (cases r; cases "fst r"; cases "isReplay env topic data now (tp_ReplayTTL q) (snd r)"; cases "fst (isReplay env topic data now (tp_ReplayTTL q) (snd r))")
        (simp_all add: validatePubSubMessage_def framing r_def)
    have ok: "fst (validatePubSubMessage env s now topic data n) \<Longrightarrow> \<not> fst r"
      using Some Inr by (cases r) (auto simp: validatePubSubMessage_def r_def)
    show ?thesis
      using after ok sender assms Some isRateLimited_window [of topic "m_SenderID m" now q n]
      by (cases "topic = t \<and> m_SenderID m = k") (auto simp: r_def)
  qed
qed

section \<open>The rate limit\<close>

text \<open>How many messages of one sender on one topic are let through in an interval of length \<open>W\<close>.\<close>

definition let_through :: "topic_env \<Rightarrow> string \<Rightarrow> u64 \<Rightarrow> int \<Rightarrow> int \<Rightarrow> (int \<times> string \<times> bytes) list \<Rightarrow> int" where
  "let_through env t k T W lg = int (length (filter (\<lambda>(now, topic, data).
     topic = t \<and> sender_of env data = Some k \<and> T \<le> now \<and> now < T + W) lg))"

definition arrival_time :: "'s arrival \<Rightarrow> int" where
  "arrival_time ev = fst (snd ev)"

lemma let_through_step:
  assumes "fmlookup (p2_topicPolicies n) t = Some p" and "tp_RateLimitWindow p = W" and "tp_RateLimitPerWindow p = L"
  obtains n' a where "let_through env t k T W (accepted_log env (ev # evs) n) = a + let_through env t k T W (accepted_log env evs n')"
    and "fmlookup (p2_topicPolicies n') t = Some p" and "a \<in> {0, 1}"
    and "a = 1 \<Longrightarrow> T \<le> arrival_time ev \<and> arrival_time ev < T + W"
    and "(window_of n' t k = window_of n t k \<and> a = 0) \<or>
      (window_of n' t k = Some (tick (arrival_time ev) W (window_of n t k)) \<and> (a = 1 \<longrightarrow> \<not> over_limit (arrival_time ev) W L (window_of n t k)))"
proof -
  obtain s now topic data where ev: "ev = (s, now, topic, data)" by (cases ev) auto
  define v where "v = validatePubSubMessage env s now topic data n"
  define a :: int where "a = (if fst v \<and> topic = t \<and> sender_of env data = Some k \<and> T \<le> now \<and> now < T + W then 1 else 0)"
  show thesis
  proof
    show "let_through env t k T W (accepted_log env (ev # evs) n) = a + let_through env t k T W (accepted_log env evs (snd v))"
      by (simp add: let_through_def split_beta ev a_def v_def)
    show "fmlookup (p2_topicPolicies (snd v)) t = Some p"
      using assms(1) by (simp add: v_def framing)
    show "a \<in> {0, 1}" "a = 1 \<Longrightarrow> T \<le> arrival_time ev \<and> arrival_time ev < T + W"
      by (auto simp: a_def ev arrival_time_def split: if_splits)
    show "(window_of (snd v) t k = window_of n t k \<and> a = 0) \<or>
      (window_of (snd v) t k = Some (tick (arrival_time ev) W (window_of n t k)) \<and> (a = 1 \<longrightarrow> \<not> over_limit (arrival_time ev) W L (window_of n t k)))"
      using validate_window [OF assms(1), of env s now topic data k] assms(2,3)
      by (auto simp: ev arrival_time_def a_def v_def)
  qed
qed

lemma let_through_late:
  "\<forall>ev\<in>set evs. T + W \<le> arrival_time ev \<Longrightarrow> let_through env t k T W (accepted_log env evs n) = 0"
proof (induction env evs n rule: accepted_log.induct)
  case (2 env s now topic data evs n)
  then show ?case by (auto simp: let_through_def arrival_time_def split: prod.splits)
qed (simp add: let_through_def)

text \<open>A window that starts inside the interval lasts to its end.\<close>

lemma let_through_inside:
  assumes "sorted (map arrival_time evs)" and "fmlookup (p2_topicPolicies n) t = Some p" and "tp_RateLimitWindow p = W"
    and "tp_RateLimitPerWindow p = L" and "window_of n t k = Some w" and "T \<le> sw_start w"
  shows "let_through env t k T W (accepted_log env evs n) \<le> max 0 (L - sw_count w)"
  using assms
proof (induction evs arbitrary: n w)
  case Nil
  then show ?case by (simp add: let_through_def)
next
  case (Cons ev evs)
  have sorted: "sorted (map arrival_time evs)" and later: "\<forall>e\<in>set evs. arrival_time ev \<le> arrival_time e"
    using Cons.prems(1) by auto
  show ?case
  proof (cases "arrival_time ev < T + W")
    case False
    then have "\<forall>e\<in>set (ev # evs). T + W \<le> arrival_time e"
      using later by auto
    then show ?thesis
      using let_through_late [of "ev # evs" T W env t k n] by simp
  next
    case True
    then have inside: "tick (arrival_time ev) W (Some w) = w\<lparr>sw_count := sw_count w + 1\<rparr>"
      "over_limit (arrival_time ev) W L (Some w) \<longleftrightarrow> L < sw_count w + 1"
      using Cons.prems(6) by (simp_all add: tick_def over_limit_def)
    obtain n' a where split: "let_through env t k T W (accepted_log env (ev # evs) n) = a + let_through env t k T W (accepted_log env evs n')"
      and pol: "fmlookup (p2_topicPolicies n') t = Some p" and a: "a \<in> {0, 1}"
      and win: "(window_of n' t k = Some w \<and> a = 0) \<or>
        (window_of n' t k = Some (w\<lparr>sw_count := sw_count w + 1\<rparr>) \<and> (a = 1 \<longrightarrow> \<not> L < sw_count w + 1))"
      using let_through_step [OF Cons.prems(2,3,4), of env k T ev evs] unfolding Cons.prems(5) inside by metis
    from win show ?thesis
      using Cons.IH [OF sorted pol Cons.prems(3,4)] Cons.prems(6) split a by fastforce
  qed
qed

text \<open>A window that starts before the interval is replaced at most once in it.\<close>

lemma let_through_after:
  assumes "sorted (map arrival_time evs)" and "fmlookup (p2_topicPolicies n) t = Some p" and "tp_RateLimitWindow p = W"
    and "tp_RateLimitPerWindow p = L" and "window_of n t k = Some w" and "\<forall>e\<in>set evs. T \<le> arrival_time e" and "1 \<le> L"
  shows "let_through env t k T W (accepted_log env evs n) \<le> max 0 (L - sw_count w) + L"
  using assms
proof (induction evs arbitrary: n w)
  case Nil
  then show ?case by (simp add: let_through_def)
next
  case (Cons ev evs)
  have sorted: "sorted (map arrival_time evs)" and late: "T \<le> arrival_time ev" "\<forall>e\<in>set evs. T \<le> arrival_time e"
    using Cons.prems(1,6) by auto
  obtain n' a where split: "let_through env t k T W (accepted_log env (ev # evs) n) = a + let_through env t k T W (accepted_log env evs n')"
    and pol: "fmlookup (p2_topicPolicies n') t = Some p" and a: "a \<in> {0, 1}"
    and win: "(window_of n' t k = Some w \<and> a = 0) \<or>
      (window_of n' t k = Some (tick (arrival_time ev) W (Some w)) \<and> (a = 1 \<longrightarrow> \<not> over_limit (arrival_time ev) W L (Some w)))"
    using let_through_step [OF Cons.prems(2,3,4), of env k T ev evs] Cons.prems(5) by metis
  show ?case
  proof (cases "window_of n' t k = Some \<lparr> sw_start = arrival_time ev, sw_count = 1 \<rparr>")
    case True
    then have "let_through env t k T W (accepted_log env evs n') \<le> L - 1"
      using let_through_inside [OF sorted pol Cons.prems(3,4) True] late(1) Cons.prems(7) by simp
    then show ?thesis using split a by auto
  next
    case False
    with win have "(window_of n' t k = Some w \<and> a = 0) \<or>
        (window_of n' t k = Some (w\<lparr>sw_count := sw_count w + 1\<rparr>) \<and> (a = 1 \<longrightarrow> sw_count w + 1 \<le> L))"
      by (auto simp: tick_def over_limit_def split: if_splits)
    then show ?thesis
      using Cons.IH [OF sorted pol Cons.prems(3,4) _ late(2) Cons.prems(7)] split a by fastforce
  qed
qed

lemma let_through_before:
  assumes "sorted (map arrival_time evs)" and "fmlookup (p2_topicPolicies n) t = Some p" and "tp_RateLimitWindow p = W"
    and "tp_RateLimitPerWindow p = L" and "\<And>w. window_of n t k = Some w \<Longrightarrow> 1 \<le> sw_count w" and "1 \<le> L"
  shows "let_through env t k T W (accepted_log env evs n) \<le> 2 * L - 1"
  using assms
proof (induction evs arbitrary: n)
  case Nil
  then show ?case by (simp add: let_through_def)
next
  case (Cons ev evs)
  have sorted: "sorted (map arrival_time evs)" and later: "\<forall>e\<in>set evs. arrival_time ev \<le> arrival_time e"
    using Cons.prems(1) by auto
  obtain n' a where split: "let_through env t k T W (accepted_log env (ev # evs) n) = a + let_through env t k T W (accepted_log env evs n')"
    and pol: "fmlookup (p2_topicPolicies n') t = Some p" and a: "a \<in> {0, 1}" "a = 1 \<Longrightarrow> T \<le> arrival_time ev"
    and win: "(window_of n' t k = window_of n t k \<and> a = 0) \<or>
      (window_of n' t k = Some (tick (arrival_time ev) W (window_of n t k)) \<and> (a = 1 \<longrightarrow> \<not> over_limit (arrival_time ev) W L (window_of n t k)))"
    using let_through_step [OF Cons.prems(2,3,4), of env k T ev evs] by metis
  have counts: "1 \<le> sw_count w" if "window_of n' t k = Some w" for w
    using win that Cons.prems(5) by (fastforce simp: tick_def split: option.splits if_splits)
  show ?case
  proof (cases "T \<le> arrival_time ev")
    case False
    then show ?thesis
      using Cons.IH [OF sorted pol Cons.prems(3,4) counts Cons.prems(6)] split a by auto
  next
    case True
    show ?thesis
    proof (cases "window_of n t k")
      case None
      with win consider "a = 0" "window_of n' t k = None"
        | "window_of n' t k = Some \<lparr> sw_start = arrival_time ev, sw_count = 1 \<rparr>"
        by (auto simp: tick_def)
      then show ?thesis
      proof cases
        case 1
        then show ?thesis
          using Cons.IH [OF sorted pol Cons.prems(3,4) counts Cons.prems(6)] split by simp
      next
        case 2
        from let_through_inside [OF sorted pol Cons.prems(3,4) this] True Cons.prems(6)
        have "let_through env t k T W (accepted_log env evs n') \<le> L - 1" by simp
        then show ?thesis
          using split a Cons.prems(6) by auto
      qed
    next
      case (Some w)
      have "\<forall>e\<in>set (ev # evs). T \<le> arrival_time e"
        using True later by auto
      from let_through_after [OF Cons.prems(1-4) Some this Cons.prems(6)]
      have "let_through env t k T W (accepted_log env (ev # evs) n) \<le> max 0 (L - sw_count w) + L" .
      then show ?thesis
        using Cons.prems(5) [OF Some] Cons.prems(6) by linarith
    qed
  qed
qed

text \<open>
  C26: the rate limit bounds what gets through.  However the messages arrive, in every interval as
  long as the window of the policy, fewer than twice the limit of the messages of a sender pass the
  validator of a topic.  The bound is not the limit itself: the window is fixed by its first message,
  so the end of one and the start of the next can be filled together.
\<close>

theorem sender_rate_bounded:
  assumes "fmlookup (p2_topicPolicies n) t = Some p" and "p2_senderWindows n = fmempty"
    and "1 \<le> tp_RateLimitPerWindow p" and "sorted (map arrival_time evs)"
  shows "let_through env t k T (tp_RateLimitWindow p) (accepted_log env evs n) \<le> 2 * tp_RateLimitPerWindow p - 1"
  using assms by (intro let_through_before [of evs n t p]) (simp_all add: window_of_def)

text \<open>A toy decoder for the witnesses: the first byte of a message is its sender, the rest is ignored.\<close>

definition toy_message :: "u8 \<Rightarrow> message" where
  "toy_message b = \<lparr> m_Type = MsgVote, m_SenderID = ucast b, m_View = 1, m_Epoch = 0, m_ConfigID = 0, m_Lane = 0,
     m_LeaderSetHash = [], m_BarrierView = 0, m_Instance = 0, m_Height = 0, m_Data = [], m_Block = None, m_Vote = None,
     m_QC = None, m_TC = None, m_TimeoutVote = None, m_Signature = [b] \<rparr>"

definition toy_topic_env :: topic_env where
  "toy_topic_env = \<lparr> tv_decode = (\<lambda>d. case d of [] \<Rightarrow> None | b # bs \<Rightarrow> Some (toy_message b)), tv_engine = toy_env \<rparr>"

definition toy_policy :: "engine topic_policy" where
  "toy_policy = (engine_policy 0)\<lparr>tp_RateLimitPerWindow := 2, tp_RateLimitWindow := 10\<rparr>"

definition toy_p2p :: "engine p2p" where
  "toy_p2p = fst (RegisterTopicPolicy True ''t'' toy_policy NewP2PNetwork)"

definition toy_arrivals :: "engine arrival list" where
  "toy_arrivals = map (\<lambda>i. (toy_engine 1, int i, ''t'', [2, of_nat i])) [0, 9, 10, 11]"

lemma toy_p2p_policy: "fmlookup (p2_topicPolicies toy_p2p) ''t'' = Some (normalize_policy toy_policy)"
  by (simp add: toy_p2p_def RegisterTopicPolicy_def ensureTopicValidator_def NewP2PNetwork_def)

lemma toy_p2p_windows: "p2_senderWindows toy_p2p = fmempty"
  by (simp add: toy_p2p_def RegisterTopicPolicy_def ensureTopicValidator_def NewP2PNetwork_def)

lemma toy_policy_limits:
  "tp_RateLimitPerWindow (normalize_policy toy_policy) = 2" "tp_RateLimitWindow (normalize_policy toy_policy) = 10"
  by (simp_all add: normalize_policy_def toy_policy_def if_positive_def)

theorem sender_rate_bounded_witness:
  "let_through toy_topic_env ''t'' 2 9 10 (accepted_log toy_topic_env toy_arrivals toy_p2p) = 3 \<and>
   let_through toy_topic_env ''t'' 2 9 10 (accepted_log toy_topic_env toy_arrivals toy_p2p) \<le> 2 * 2 - 1"
proof
  show "let_through toy_topic_env ''t'' 2 9 10 (accepted_log toy_topic_env toy_arrivals toy_p2p) = 3" by code_simp
  have "sorted (map arrival_time toy_arrivals)"
    by (simp add: toy_arrivals_def arrival_time_def)
  from sender_rate_bounded [OF toy_p2p_policy toy_p2p_windows _ this, of toy_topic_env 2 9]
  show "let_through toy_topic_env ''t'' 2 9 10 (accepted_log toy_topic_env toy_arrivals toy_p2p) \<le> 2 * 2 - 1"
    by (simp add: toy_policy_limits)
qed

section \<open>What passes the validator\<close>

lemma validate_accepts:
  assumes "fmlookup (p2_topicPolicies n) topic = Some p" and "fst (validatePubSubMessage env s now topic data n)"
  obtains m where "check_content env s topic p data = Inr m"
    and "\<not> over_limit now (tp_RateLimitWindow p) (tp_RateLimitPerWindow p) (window_of n topic (m_SenderID m))"
    and "\<not> (\<exists>ts. seen_at n topic (data_digest env data) = Some ts \<and> \<not> now - ts > tp_ReplayTTL p)"
    and "seen_at (snd (validatePubSubMessage env s now topic data n)) topic (data_digest env data) = Some now"
proof (cases "check_content env s topic p data")
  case (Inl reason)
  with assms show thesis by (simp add: validatePubSubMessage_def)
next
  case (Inr m)
  define r where "r = isRateLimited topic (m_SenderID m) now p n"
  define q where "q = isReplay env topic data now (tp_ReplayTTL p) (snd r)"
  have "validatePubSubMessage env s now topic data n =
      (if fst r then (False, incValidatorStat ''pubsub_rate_limited'' (snd r))
       else if fst q then (False, incValidatorStat ''pubsub_replay'' (snd q)) else (True, snd q))"
    using assms(1) Inr by (cases r; cases q) (auto simp: validatePubSubMessage_def r_def q_def split: bool.splits)
  then have "\<not> fst r" "\<not> fst q" "snd (validatePubSubMessage env s now topic data n) = snd q"
    using assms(2) by (auto split: if_splits)
  then show thesis
    using that [OF Inr] isRateLimited_window(2) [of topic "m_SenderID m" now p n]
      isReplay_seen [of env topic data now "tp_ReplayTTL p" "snd r"] isRateLimited_frame(2) [of topic "m_SenderID m" now p n]
    by (auto simp: r_def q_def split: option.splits)
qed

text \<open>
  A message that passes the validator of an engine's topic is genuine.  It fits the
  size limit, decodes, is of the engine's instance and of its epoch or the next one, and carries the
  signature of the registered validator it names as its sender.
\<close>

theorem accepted_messages_genuine:
  assumes "fmlookup (p2_topicPolicies n) topic = Some (normalize_policy (engine_policy i))"
    and "fst (validatePubSubMessage env e now topic data n)"
  shows "\<exists>m pk. tv_decode env data = Some m \<and> m_Instance m = i \<and> int (length data) \<le> 2 ^ 20 \<and>
    e_currentEpoch e \<le> m_Epoch m \<and> m_Epoch m \<le> e_currentEpoch e + 1 \<and>
    resolveValidatorPubKeyByID e (m_SenderID m) = Some pk \<and> m_VerifySignature (tv_engine env) m pk"
proof -
  obtain m where "check_content env e topic (normalize_policy (engine_policy i)) data = Inr m"
    by (rule validate_accepts [OF assms])
  then show ?thesis
    by (auto simp: check_content_def normalize_policy_def if_positive_def engine_policy_def Let_def not_less split: if_splits option.splits)
qed

theorem accepted_messages_genuine_witness:
  "\<exists>m pk. tv_decode toy_topic_env [2] = Some m \<and> m_Instance m = 0 \<and> int (length [2 :: u8]) \<le> 2 ^ 20 \<and>
    e_currentEpoch (toy_engine 1) \<le> m_Epoch m \<and> m_Epoch m \<le> e_currentEpoch (toy_engine 1) + 1 \<and>
    resolveValidatorPubKeyByID (toy_engine 1) (m_SenderID m) = Some pk \<and> m_VerifySignature (tv_engine toy_topic_env) m pk"
proof (rule accepted_messages_genuine)
  let ?n = "fst (RegisterTopicPolicy True ''t'' (engine_policy 0) NewP2PNetwork)"
  show "fmlookup (p2_topicPolicies ?n) ''t'' = Some (normalize_policy (engine_policy 0))"
    by (simp add: RegisterTopicPolicy_def ensureTopicValidator_def NewP2PNetwork_def)
  show "fst (validatePubSubMessage toy_topic_env (toy_engine 1) 0 ''t'' [2] ?n)"
    by code_simp
qed

section \<open>Replays\<close>

text \<open>A digest that was seen stays recorded until its time is over.\<close>

lemma validate_keeps_seen:
  assumes "fmlookup (p2_topicPolicies n) topic = Some p" and "seen_at n topic d = Some ts" and "now \<le> ts + tp_ReplayTTL p"
  shows "seen_at (snd (validatePubSubMessage env s now t data n)) topic d = Some ts"
proof (cases "fmlookup (p2_topicPolicies n) t")
  case None
  with assms(2) show ?thesis by (simp add: validatePubSubMessage_def)
next
  case (Some q)
  show ?thesis
  proof (cases "check_content env s t q data")
    case (Inl reason)
    with Some assms(2) show ?thesis by (simp add: validatePubSubMessage_def framing)
  next
    case (Inr m)
    define r where "r = isRateLimited t (m_SenderID m) now q n"
    have r: "seen_at (snd r) = seen_at n"
      by (simp add: r_def framing)
    have "seen_at (snd (validatePubSubMessage env s now t data n)) \<in>
        {seen_at (snd r), seen_at (snd (isReplay env t data now (tp_ReplayTTL q) (snd r)))}"
      using Some Inr by (cases r; cases "isReplay env t data now (tp_ReplayTTL q) (snd r)")
        (auto simp: validatePubSubMessage_def r_def framing split: bool.splits)
    then show ?thesis
      using isReplay_seen [of env t data now "tp_ReplayTTL q" "snd r"] assms Some r
      by (auto split: if_splits)
  qed
qed

lemma accepted_times: "x \<in> set (accepted_log env evs n) \<Longrightarrow> fst x \<in> arrival_time ` set evs"
  by (induction env evs n rule: accepted_log.induct) (auto simp: arrival_time_def split: prod.splits if_splits)

lemma seen_blocks:
  assumes "sorted (map arrival_time evs)" and "fmlookup (p2_topicPolicies n) topic = Some p"
    and "seen_at n topic (data_digest env data) = Some ts" and "(t2, topic, data) \<in> set (accepted_log env evs n)"
  shows "tp_ReplayTTL p < t2 - ts"
  using assms
proof (induction evs arbitrary: n)
  case (Cons ev evs)
  obtain s now topic' data' where ev: "ev = (s, now, topic', data')" by (cases ev) auto
  define v where "v = validatePubSubMessage env s now topic' data' n"
  have now: "arrival_time ev = now"
    by (simp add: ev arrival_time_def)
  have later: "\<forall>e\<in>set evs. now \<le> arrival_time e" and sorted: "sorted (map arrival_time evs)"
    using Cons.prems(1) by (auto simp: now)
  show ?case
  proof (cases "now \<le> ts + tp_ReplayTTL p")
    case True
    have "\<not> (fst v \<and> topic' = topic \<and> data' = data)"
    proof
      assume v: "fst v \<and> topic' = topic \<and> data' = data"
      then have "\<not> (\<exists>ts. seen_at n topic (data_digest env data) = Some ts \<and> \<not> now - ts > tp_ReplayTTL p)"
        using validate_accepts [OF Cons.prems(2), of env s now data] by (auto simp: v_def)
      with Cons.prems(3) True show False by simp
    qed
    then have "(t2, topic, data) \<in> set (accepted_log env evs (snd v))"
      using Cons.prems(4) by (auto simp: ev v_def split_beta split: if_splits)
    moreover have "seen_at (snd v) topic (data_digest env data) = Some ts"
      using validate_keeps_seen [OF Cons.prems(2,3) True] by (simp add: v_def)
    moreover have "fmlookup (p2_topicPolicies (snd v)) topic = Some p"
      using Cons.prems(2) by (simp add: v_def framing)
    ultimately show ?thesis
      using Cons.IH [OF sorted] by blast
  next
    case False
    have "now \<le> t2"
      using accepted_times [OF Cons.prems(4)] later by (auto simp: now)
    with False show ?thesis by simp
  qed
qed simp

text \<open>
  No message is let through twice within the time of its policy: between two
  acceptances of the same bytes on a topic more than \<open>ReplayTTL\<close> passes.
\<close>

theorem replays_rejected:
  assumes "fmlookup (p2_topicPolicies n) topic = Some p" and "sorted (map arrival_time evs)"
    and "accepted_log env evs n = xs @ (t1, topic, data) # ys @ (t2, topic, data) # zs"
  shows "tp_ReplayTTL p < t2 - t1"
  using assms
proof (induction evs arbitrary: n xs)
  case (Cons ev evs)
  obtain s now topic' data' where ev: "ev = (s, now, topic', data')" by (cases ev) auto
  define v where "v = validatePubSubMessage env s now topic' data' n"
  have sorted: "sorted (map arrival_time evs)" and pol: "fmlookup (p2_topicPolicies (snd v)) topic = Some p"
    using Cons.prems(1,2) by (auto simp: v_def framing)
  have lg: "(if fst v then [(now, topic', data')] else []) @ accepted_log env evs (snd v) =
      xs @ (t1, topic, data) # ys @ (t2, topic, data) # zs"
    using Cons.prems(3) by (simp add: ev v_def split_beta)
  show ?case
  proof (cases "fst v \<and> xs = []")
    case True
    with lg have first: "now = t1" "topic' = topic" "data' = data"
      and rest: "accepted_log env evs (snd v) = ys @ (t2, topic, data) # zs" by auto
    have "fst (validatePubSubMessage env s t1 topic data n)"
      using True first by (simp add: v_def)
    then have "seen_at (snd v) topic (data_digest env data) = Some t1"
      using validate_accepts [OF Cons.prems(1)] first by (metis v_def)
    from seen_blocks [OF sorted pol this] rest show ?thesis by simp
  next
    case False
    with lg obtain xs' where "accepted_log env evs (snd v) = xs' @ (t1, topic, data) # ys @ (t2, topic, data) # zs"
      by (cases xs) (auto split: if_splits)
    from Cons.IH [OF pol sorted this] show ?thesis .
  qed
qed simp

theorem replays_rejected_witness:
  "tp_ReplayTTL (normalize_policy toy_policy) < (30 * 1000000000 + 1) - 0"
proof (rule replays_rejected [OF toy_p2p_policy])
  show "accepted_log toy_topic_env [(toy_engine 1, 0, ''t'', [2]), (toy_engine 1, 5, ''t'', [2]), (toy_engine 1, 30 * 1000000000 + 1, ''t'', [2])] toy_p2p =
      [] @ (0, ''t'', [2]) # [] @ (30 * 1000000000 + 1, ''t'', [2]) # []" by code_simp
qed (simp add: arrival_time_def)

lemma validate_tick:
  assumes "fmlookup (p2_topicPolicies n) topic = Some p" and "check_content env s topic p data = Inr m"
  shows "window_of (snd (validatePubSubMessage env s now topic data n)) topic (m_SenderID m) =
    Some (tick now (tp_RateLimitWindow p) (window_of n topic (m_SenderID m)))"
proof -
  define r where "r = isRateLimited topic (m_SenderID m) now p n"
  have "window_of (snd (validatePubSubMessage env s now topic data n)) = window_of (snd r)"
    using assms isReplay_frame(2) [of env topic data now "tp_ReplayTTL p" "snd r"]
    by (cases r; cases "fst r"; cases "isReplay env topic data now (tp_ReplayTTL p) (snd r)"; cases "fst (isReplay env topic data now (tp_ReplayTTL p) (snd r))")
      (simp_all add: validatePubSubMessage_def framing r_def)
  then show ?thesis by (simp add: r_def isRateLimited_window)
qed

lemma copies_tick:
  assumes "fmlookup (p2_topicPolicies n) topic = Some p" and "check_content env s topic p data = Inr m"
  shows "window_of (validate_all env (replicate c (s, now, topic, data)) n) topic (m_SenderID m) =
      ((\<lambda>w. Some (tick now (tp_RateLimitWindow p) w)) ^^ c) (window_of n topic (m_SenderID m)) \<and>
    p2_topicPolicies (validate_all env (replicate c (s, now, topic, data)) n) = p2_topicPolicies n"
  using assms(1)
proof (induction c arbitrary: n)
  case (Suc c)
  define n' where "n' = snd (validatePubSubMessage env s now topic data n)"
  have n': "fmlookup (p2_topicPolicies n') topic = Some p" "p2_topicPolicies n' = p2_topicPolicies n"
    "window_of n' topic (m_SenderID m) = Some (tick now (tp_RateLimitWindow p) (window_of n topic (m_SenderID m)))"
    using validate_tick [OF Suc.prems assms(2), of now] Suc.prems by (simp_all add: n'_def framing)
  have "validate_all env (replicate (Suc c) (s, now, topic, data)) n = validate_all env (replicate c (s, now, topic, data)) n'"
    by (simp add: n'_def)
  then show ?case
    using Suc.IH [OF n'(1)] n'(2,3) by (simp add: funpow_Suc_right del: validate_all.simps funpow.simps replicate.simps)
qed simp

lemma ticks: "0 < W \<Longrightarrow> ((\<lambda>w. Some (tick now W w)) ^^ Suc c) None = Some \<lparr> sw_start = now, sw_count = int c + 1 \<rparr>"
  by (induction c) (simp_all add: tick_def)

text \<open>
  C35: anybody can silence a validator with its own messages.  The rate limit counts a message
  before the check for replays rejects it, and under the validator that signed it, whoever sent
  it.  After as many copies of one valid message as the limit allows, every other message of that
  validator is rejected until the window ends.
\<close>

theorem replays_silence_sender:
  assumes "fmlookup (p2_topicPolicies n) topic = Some p" and "check_content env s topic p data = Inr m"
    and "window_of n topic (m_SenderID m) = None" and "0 < tp_RateLimitPerWindow p"
    and "sender_of env data2 = Some (m_SenderID m)" and "now2 < now + tp_RateLimitWindow p" and "0 < tp_RateLimitWindow p"
  shows "\<not> fst (validatePubSubMessage env s2 now2 topic data2
    (validate_all env (replicate (nat (tp_RateLimitPerWindow p)) (s, now, topic, data)) n))"
proof
  define n' where "n' = validate_all env (replicate (nat (tp_RateLimitPerWindow p)) (s, now, topic, data)) n"
  obtain c where c: "nat (tp_RateLimitPerWindow p) = Suc c"
    using assms(4) by (cases "nat (tp_RateLimitPerWindow p)") auto
  have pol: "fmlookup (p2_topicPolicies n') topic = Some p"
    and "window_of n' topic (m_SenderID m) = Some \<lparr> sw_start = now, sw_count = int c + 1 \<rparr>"
    using copies_tick [OF assms(1,2), where c = "Suc c" and now = now] ticks [OF assms(7), where c = c and now = now] assms(1,3)
    by (simp_all add: n'_def c)
  moreover have "int c + 1 = tp_RateLimitPerWindow p"
    using c assms(4) by simp
  ultimately have over: "over_limit now2 (tp_RateLimitWindow p) (tp_RateLimitPerWindow p) (window_of n' topic (m_SenderID m))"
    using assms(6) by (simp add: over_limit_def)
  assume "fst (validatePubSubMessage env s2 now2 topic data2
    (validate_all env (replicate (nat (tp_RateLimitPerWindow p)) (s, now, topic, data)) n))"
  then obtain m2 where "check_content env s2 topic p data2 = Inr m2"
    and "\<not> over_limit now2 (tp_RateLimitWindow p) (tp_RateLimitPerWindow p) (window_of n' topic (m_SenderID m2))"
    using validate_accepts [OF pol] unfolding n'_def by metis
  with over assms(5) check_content_Inr show False by (fastforce simp: sender_of_def)
qed

theorem replays_silence_sender_witness:
  "\<not> fst (validatePubSubMessage toy_topic_env (toy_engine 1) 3 ''t'' [2, 1]
    (validate_all toy_topic_env (replicate (nat (tp_RateLimitPerWindow (normalize_policy toy_policy))) (toy_engine 1, 0, ''t'', [2])) toy_p2p))"
proof (rule replays_silence_sender [OF toy_p2p_policy, where m = "toy_message 2"])
  show "check_content toy_topic_env (toy_engine 1) ''t'' (normalize_policy toy_policy) [2] = Inr (toy_message 2)"
    by code_simp
qed (simp_all add: toy_p2p_windows window_of_def toy_policy_limits sender_of_def toy_topic_env_def toy_message_def)

section \<open>The address book\<close>

text \<open>\<open>SetNodeAddressBook\<close> reads a map; the list gives its entries in the order of the iteration.\<close>

definition SetNodeAddressBook :: "(u64 \<times> addr_info) list \<Rightarrow> 's p2p \<Rightarrow> 's p2p" where
  "SetNodeAddressBook peers n = n\<lparr> p2_addressBook := fold (\<lambda>(i, info) m. fmupd i info m) peers fmempty,
     p2_peerIDMap := fold (\<lambda>(i, info) m. fmupd (ai_ID info) i m) peers fmempty \<rparr>"

definition SetNodeAddressBookLegacy :: "u64 list \<Rightarrow> 's p2p \<Rightarrow> 's p2p" where
  "SetNodeAddressBookLegacy ids n = n\<lparr> p2_addressBook := fold (\<lambda>i m. fmupd i \<lparr> ai_ID = [], ai_Addrs = [] \<rparr> m) ids fmempty \<rparr>"

definition ResolvePeer :: "u64 \<Rightarrow> 's p2p \<Rightarrow> addr_info option" where
  "ResolvePeer i n = (case fmlookup (p2_addressBook n) i of
     None \<Rightarrow> None | Some info \<Rightarrow> if ai_ID info = [] then None else Some info)"

definition ResolveNodeID :: "string \<Rightarrow> 's p2p \<Rightarrow> u64 option" where
  "ResolveNodeID peer n = fmlookup (p2_peerIDMap n) peer"

definition RegisterPeer :: "u64 \<Rightarrow> addr_info \<Rightarrow> 's p2p \<Rightarrow> 's p2p" where
  "RegisterPeer i info n = n\<lparr> p2_addressBook := fmupd i info (p2_addressBook n),
     p2_peerIDMap := (if ai_ID info \<noteq> [] then fmupd (ai_ID info) i (p2_peerIDMap n) else p2_peerIDMap n) \<rparr>"

text \<open>
  A direct send: whether the peer is connected, what connecting to an address and the search in the
  routing table return, whether a stream opens and a write succeeds are given by the transport.
\<close>

record transport =
  tr_connected :: "string \<Rightarrow> bool"
  tr_connect :: "addr_info \<Rightarrow> bool"
  tr_find :: "string \<Rightarrow> addr_info option"
  tr_stream :: "string \<Rightarrow> bool"
  tr_write :: "string \<Rightarrow> bytes \<Rightarrow> bool"

datatype send_error = UnknownNode u64 | ConnectFailed u64 | DhtConnectFailed u64 | StreamFailed u64 | WriteFailed

definition SendToNode :: "transport \<Rightarrow> u64 \<Rightarrow> bytes \<Rightarrow> 's p2p \<Rightarrow> 's p2p \<times> send_error option" where
  "SendToNode tr i data n =
     (case ResolvePeer i n of
        None \<Rightarrow> (n, Some (UnknownNode i))
      | Some info \<Rightarrow>
        let problem = (if tr_connected tr (ai_ID info) \<or> tr_connect tr info then None
              else case tr_find tr (ai_ID info) of
                None \<Rightarrow> Some (ConnectFailed i)
              | Some found \<Rightarrow> if tr_connect tr found then None else Some (DhtConnectFailed i))
        in if problem \<noteq> None then (n, problem)
           else if \<not> tr_stream tr (ai_ID info) then (n, Some (StreamFailed i))
           else if \<not> tr_write tr (ai_ID info) data then (n, Some WriteFailed)
           else (n\<lparr>p2_totalBytesSent := p2_totalBytesSent n + of_nat (length data)\<rparr>, None))"

text \<open>\<open>Send\<close> addresses a peer by its own identifier and always searches for it when it is not connected.\<close>

definition Send :: "transport \<Rightarrow> string \<Rightarrow> bytes \<Rightarrow> 's p2p \<Rightarrow> 's p2p \<times> bool" where
  "Send tr peer data n =
     (let reached = (tr_connected tr peer \<or> (case tr_find tr peer of Some found \<Rightarrow> tr_connect tr found | None \<Rightarrow> False))
      in if reached \<and> tr_stream tr peer \<and> tr_write tr peer data
         then (n\<lparr>p2_totalBytesSent := p2_totalBytesSent n + of_nat (length data)\<rparr>, True) else (n, False))"

definition SendVoteToLeader :: "transport \<Rightarrow> u64 \<Rightarrow> bytes \<Rightarrow> 's p2p \<Rightarrow> 's p2p \<times> send_error option" where
  "SendVoteToLeader tr leader data n = SendToNode tr leader data n"

text \<open>What is registered resolves both ways; the old peer of a node still resolves to it.\<close>

lemma RegisterPeer_resolves:
  assumes "ai_ID info \<noteq> []"
  shows "ResolvePeer i (RegisterPeer i info n) = Some info" and "ResolveNodeID (ai_ID info) (RegisterPeer i info n) = Some i"
  using assms by (simp_all add: ResolvePeer_def ResolveNodeID_def RegisterPeer_def)

lemma old_peer_still_resolves:
  "ai_ID info \<noteq> [] \<Longrightarrow> ai_ID info' \<noteq> ai_ID info \<Longrightarrow>
   ResolveNodeID (ai_ID info) (RegisterPeer i info' (RegisterPeer i info n)) = Some i"
  by (simp add: ResolveNodeID_def RegisterPeer_def)

text \<open>The queue of a subscription never exceeds its capacity: a full one drops what arrives.\<close>

definition queues_bounded :: "'s p2p \<Rightarrow> bool" where
  "queues_bounded n \<longleftrightarrow> (\<forall>topic q cap. fmlookup (p2_chans n) topic = Some (q, cap) \<longrightarrow> length q \<le> cap)"

lemma readSubscription_bounded: "queues_bounded n \<Longrightarrow> queues_bounded (readSubscription topic own data n)"
  by (auto simp: queues_bounded_def readSubscription_def incValidatorStat_def Let_def split: option.splits)

lemma SubscribeTopic_bounded:
  "queues_bounded n \<Longrightarrow> queues_bounded (fst (SubscribeTopic router_ok join_ok subscribe_ok topic buf n))"
  by (auto simp: queues_bounded_def SubscribeTopic_def ensureTopicValidator_def)

lemma stats_frame [framing]:
  "p2_chans (incValidatorStat r n) = p2_chans n" "p2_ConsensusChan (incValidatorStat r n) = p2_ConsensusChan n"
  "p2_chans ((incValidatorStat r ^^ c) n) = p2_chans n" "p2_ConsensusChan ((incValidatorStat r ^^ c) n) = p2_ConsensusChan n"
  by (simp_all add: incValidatorStat_def, (induction c; simp add: incValidatorStat_def)+)

lemma stream_into_bounded: "queues_bounded n \<Longrightarrow> queues_bounded (stream_into reason data n)"
proof -
  assume bounded: "queues_bounded n"
  define buf where "buf = take (2 ^ 20) data"
  have "p2_chans (stream_into reason data n) \<in> {p2_chans n,
      fmmap_keys (\<lambda>t c. if isInstanceConsensusTopic t then take_or_drop buf c else c) (p2_chans n)}"
    unfolding stream_into_def buf_def [symmetric] by (simp add: Let_def stats_frame)
  with bounded show ?thesis
    by (auto simp: queues_bounded_def take_or_drop_def split: if_splits)
qed

text \<open>
  A direct stream passes no policy: any bytes reach the queue of an instance, whoever sent them,
  however often and for whatever instance.
\<close>

lemma streams_bypass_policies:
  assumes "fmlookup (p2_chans n) topic = Some (q, cap)" and "isInstanceConsensusTopic topic" and "length q < cap"
    and "data \<noteq> []" and "length data \<le> 2 ^ 20"
  shows "fmlookup (p2_chans (handleVoteStream data n)) topic = Some (q @ [data], cap)"
proof -
  have "fmlookup (free_instances n) topic = Some (q, cap)"
    using assms by (simp add: free_instances_def)
  then have "free_instances n \<noteq> fmempty"
    by (metis fmempty_lookup option.distinct(1))
  then show ?thesis
    using assms by (simp add: handleVoteStream_def stream_into_def Let_def stats_frame take_or_drop_def)
qed

end
