(* ===== verification/Genesis_Manifest.thy ===== *)
theory Genesis_Manifest
  imports Topic_Validation Gbc_Orderer
begin

text \<open>
  The genesis manifest (bootstrap/manifest.go) and its use at the start of a node (cmd/evolvbft/main.go):
  the stable identities of the nodes, their normalisation and validation, and the key pairs,
  validator sets and peer maps built from them.  Not in the repository, and arguments of the
  definitions: the key derivation of Ed25519, the encodings of the VRF keys, and the peer
  identifiers and addresses of libp2p.  An error is a value of \<open>manifest_error\<close>; on an error
  \<open>Normalize\<close> has changed some nodes in place, and its callers drop the manifest.
\<close>

section \<open>Data\<close>

record manifest_node =
  mn_ID :: u64
  mn_Power :: u64
  mn_IsActive :: bool
  mn_PublicKeyHex :: string
  mn_PrivateKeyHex :: string
  mn_VRFPublicKeyHex :: string
  mn_VRFPrivateKeyHex :: string
  mn_PeerID :: string
  mn_P2PMultiaddr :: string

record genesis_manifest =
  gm_Version :: int
  gm_Nodes :: "manifest_node list"

datatype manifest_error = EmptyPath | ReadFailed | DecodeFailed | NoNodes | DuplicateNode u64 | NodeNotFound u64
  | NoPrivateKey u64 | NoVRFPrivateKey u64 | NoVRFPublicKey u64 | NoMultiaddr u64 | PeerMapIncomplete nat nat
  | BadHex string | WrongSize string nat | KeyMismatch | NoPublicKey u64 | VRFKeyMismatch | BadVRFPrivateKey
  | BadVRFPublicKey | MarshalFailed u64 | PeerIDFailed u64 | PeerIDMismatch u64 | BadMultiaddr u64
  | BadP2PAddr u64 | MultiaddrMismatch u64 | EphemeralRefused u64

text \<open>Scalars and points of the VRF are \<open>'s\<close> and \<open>'p\<close>; a parsed multiaddress is \<open>'a\<close>.\<close>

record ('s, 'p, 'a) codec =
  co_ed25519_public :: "bytes \<Rightarrow> bytes"
  co_scalar :: "bytes \<Rightarrow> 's option"
  co_point :: "bytes \<Rightarrow> 'p option"
  co_mul :: "'s \<Rightarrow> 'p"
  co_scalar_bytes :: "'s \<Rightarrow> bytes option"
  co_point_bytes :: "'p \<Rightarrow> bytes option"
  co_peer_id :: "bytes \<Rightarrow> string option"
  co_multiaddr :: "string \<Rightarrow> 'a option"
  co_addr_info :: "'a \<Rightarrow> addr_info option"

definition is_blank :: "string \<Rightarrow> bool" where
  "is_blank s \<longleftrightarrow> TrimSpace s = []"

section \<open>Keys\<close>

definition decodeSizedHex :: "string \<Rightarrow> nat \<Rightarrow> string \<Rightarrow> manifest_error + bytes" where
  "decodeSizedHex raw n label = (case hex_decode (TrimSpace raw) of None \<Rightarrow> Inl (BadHex label)
     | Some bs \<Rightarrow> if length bs \<noteq> n then Inl (WrongSize label (length bs)) else Inr bs)"

definition decode_private :: "string \<Rightarrow> manifest_error + bytes" where
  "decode_private raw = decodeSizedHex raw 64 ''ed25519 private key''"

definition decode_public :: "string \<Rightarrow> manifest_error + bytes" where
  "decode_public raw = decodeSizedHex raw 32 ''ed25519 public key''"

definition decodeVRFPrivateKey :: "('s, 'p, 'a) codec \<Rightarrow> string \<Rightarrow> manifest_error + 's" where
  "decodeVRFPrivateKey co raw = (case hex_decode (TrimSpace raw) of None \<Rightarrow> Inl BadVRFPrivateKey
     | Some bs \<Rightarrow> (case co_scalar co bs of None \<Rightarrow> Inl BadVRFPrivateKey | Some s \<Rightarrow> Inr s))"

definition decodeVRFPublicKey :: "('s, 'p, 'a) codec \<Rightarrow> string \<Rightarrow> manifest_error + 'p" where
  "decodeVRFPublicKey co raw = (case hex_decode (TrimSpace raw) of None \<Rightarrow> Inl BadVRFPublicKey
     | Some bs \<Rightarrow> (case co_point co bs of None \<Rightarrow> Inl BadVRFPublicKey | Some p \<Rightarrow> Inr p))"

text \<open>The public key, and the private key when the node has one.\<close>

definition normalizeEd25519Keys :: "('s, 'p, 'a) codec \<Rightarrow> manifest_node \<Rightarrow> manifest_error + bytes \<times> bytes option" where
  "normalizeEd25519Keys co nd =
     (if \<not> is_blank (mn_PrivateKeyHex nd) then
        (case decode_private (mn_PrivateKeyHex nd) of Inl err \<Rightarrow> Inl err
         | Inr priv \<Rightarrow>
           let pub = co_ed25519_public co priv
           in if is_blank (mn_PublicKeyHex nd) then Inr (pub, Some priv)
              else (case decode_public (mn_PublicKeyHex nd) of Inl err \<Rightarrow> Inl err
                | Inr expected \<Rightarrow> if expected \<noteq> pub then Inl KeyMismatch else Inr (pub, Some priv)))
      else if \<not> is_blank (mn_PublicKeyHex nd) then
        (case decode_public (mn_PublicKeyHex nd) of Inl err \<Rightarrow> Inl err | Inr pub \<Rightarrow> Inr (pub, None))
      else Inl (NoPublicKey (mn_ID nd)))"

definition normalizeVRFKeys :: "('s, 'p, 'a) codec \<Rightarrow> manifest_node \<Rightarrow> manifest_error + 'p option \<times> 's option" where
  "normalizeVRFKeys co nd =
     (if is_blank (mn_VRFPrivateKeyHex nd) \<and> is_blank (mn_VRFPublicKeyHex nd) then Inr (None, None)
      else if \<not> is_blank (mn_VRFPrivateKeyHex nd) then
        (case decodeVRFPrivateKey co (mn_VRFPrivateKeyHex nd) of Inl err \<Rightarrow> Inl err
         | Inr priv \<Rightarrow>
           let pub = co_mul co priv
           in if is_blank (mn_VRFPublicKeyHex nd) then Inr (Some pub, Some priv)
              else (case decodeVRFPublicKey co (mn_VRFPublicKeyHex nd) of Inl err \<Rightarrow> Inl err
                | Inr expected \<Rightarrow>
                  (case (co_point_bytes co pub, co_point_bytes co expected) of
                     (Some a, Some b) \<Rightarrow> if hex_encode a \<noteq> hex_encode b then Inl VRFKeyMismatch else Inr (Some pub, Some priv)
                   | _ \<Rightarrow> Inl (MarshalFailed (mn_ID nd)))))
      else (case decodeVRFPublicKey co (mn_VRFPublicKeyHex nd) of Inl err \<Rightarrow> Inl err | Inr pub \<Rightarrow> Inr (Some pub, None)))"

section \<open>Normalisation\<close>

definition vrf_hex :: "('k \<Rightarrow> bytes option) \<Rightarrow> 'k option \<Rightarrow> string \<Rightarrow> string option" where
  "vrf_hex to_bytes key old = (case key of None \<Rightarrow> Some old | Some k \<Rightarrow> map_option hex_encode (to_bytes k))"

definition check_multiaddr :: "('s, 'p, 'a) codec \<Rightarrow> string \<Rightarrow> manifest_node \<Rightarrow> manifest_error option" where
  "check_multiaddr co peer_id nd =
     (if is_blank (mn_P2PMultiaddr nd) then None
      else case co_multiaddr co (mn_P2PMultiaddr nd) of None \<Rightarrow> Some (BadMultiaddr (mn_ID nd))
      | Some a \<Rightarrow> (case co_addr_info co a of None \<Rightarrow> Some (BadP2PAddr (mn_ID nd))
         | Some info \<Rightarrow> if ai_ID info \<noteq> peer_id then Some (MultiaddrMismatch (mn_ID nd)) else None))"

definition normalize_node :: "('s, 'p, 'a) codec \<Rightarrow> manifest_node \<Rightarrow> manifest_error + manifest_node" where
  "normalize_node co nd =
     (case normalizeEd25519Keys co nd of Inl err \<Rightarrow> Inl err
      | Inr (pub, priv) \<Rightarrow>
        (case normalizeVRFKeys co nd of Inl err \<Rightarrow> Inl err
         | Inr (vpub, vpriv) \<Rightarrow>
           (case (vrf_hex (co_point_bytes co) vpub (mn_VRFPublicKeyHex nd), vrf_hex (co_scalar_bytes co) vpriv (mn_VRFPrivateKeyHex nd)) of
              (Some vpub_hex, Some vpriv_hex) \<Rightarrow>
                (case co_peer_id co pub of None \<Rightarrow> Inl (PeerIDFailed (mn_ID nd))
                 | Some pid \<Rightarrow>
                   if \<not> is_blank (mn_PeerID nd) \<and> mn_PeerID nd \<noteq> pid then Inl (PeerIDMismatch (mn_ID nd))
                   else (case check_multiaddr co pid nd of Some err \<Rightarrow> Inl err
                     | None \<Rightarrow> Inr (nd\<lparr> mn_Power := (if mn_Power nd = 0 then 1 else mn_Power nd),
                         mn_PublicKeyHex := hex_encode pub,
                         mn_PrivateKeyHex := (case priv of Some k \<Rightarrow> hex_encode k | None \<Rightarrow> mn_PrivateKeyHex nd),
                         mn_VRFPublicKeyHex := vpub_hex, mn_VRFPrivateKeyHex := vpriv_hex, mn_PeerID := pid \<rparr>)))
            | _ \<Rightarrow> Inl (MarshalFailed (mn_ID nd)))))"

fun normalize_nodes :: "('s, 'p, 'a) codec \<Rightarrow> u64 fset \<Rightarrow> manifest_node list \<Rightarrow> manifest_error + manifest_node list" where
  "normalize_nodes co seen [] = Inr []"
| "normalize_nodes co seen (nd # nds) =
     (if mn_ID nd |\<in>| seen then Inl (DuplicateNode (mn_ID nd))
      else case normalize_node co nd of Inl err \<Rightarrow> Inl err
      | Inr nd' \<Rightarrow> (case normalize_nodes co (finsert (mn_ID nd) seen) nds of Inl err \<Rightarrow> Inl err
         | Inr nds' \<Rightarrow> Inr (nd' # nds')))"

definition Normalize :: "('s, 'p, 'a) codec \<Rightarrow> genesis_manifest \<Rightarrow> manifest_error + genesis_manifest" where
  "Normalize co m = (if gm_Nodes m = [] then Inl NoNodes
     else case normalize_nodes co {||} (gm_Nodes m) of Inl err \<Rightarrow> Inl err
     | Inr nds \<Rightarrow> Inr (m\<lparr>gm_Nodes := sort_key mn_ID nds\<rparr>))"

text \<open>The file and its JSON decoder are arguments.\<close>

definition LoadGenesisManifest ::
  "('s, 'p, 'a) codec \<Rightarrow> (string \<Rightarrow> bytes option) \<Rightarrow> (bytes \<Rightarrow> genesis_manifest option) \<Rightarrow> string \<Rightarrow> manifest_error + genesis_manifest" where
  "LoadGenesisManifest co read decode path =
     (if is_blank path then Inl EmptyPath
      else case read path of None \<Rightarrow> Inl ReadFailed
      | Some data \<Rightarrow> (case decode data of None \<Rightarrow> Inl DecodeFailed | Some m \<Rightarrow> Normalize co m))"

section \<open>What is built from a manifest\<close>

definition NodeByID :: "u64 \<Rightarrow> genesis_manifest \<Rightarrow> manifest_error + manifest_node" where
  "NodeByID i m = (case find (\<lambda>nd. mn_ID nd = i) (gm_Nodes m) of None \<Rightarrow> Inl (NodeNotFound i) | Some nd \<Rightarrow> Inr nd)"

text \<open>The pair of the public and the private key.\<close>

definition LocalKeypair :: "('s, 'p, 'a) codec \<Rightarrow> u64 \<Rightarrow> genesis_manifest \<Rightarrow> manifest_error + bytes \<times> bytes" where
  "LocalKeypair co i m = (case NodeByID i m of Inl err \<Rightarrow> Inl err
     | Inr nd \<Rightarrow> if is_blank (mn_PrivateKeyHex nd) then Inl (NoPrivateKey i)
         else (case decode_private (mn_PrivateKeyHex nd) of Inl err \<Rightarrow> Inl err
           | Inr priv \<Rightarrow> Inr (co_ed25519_public co priv, priv)))"

fun build_map :: "(manifest_node \<Rightarrow> manifest_error + 'v option) \<Rightarrow> manifest_node list \<Rightarrow> (u64, 'v) fmap \<Rightarrow> manifest_error + (u64, 'v) fmap" where
  "build_map f [] acc = Inr acc"
| "build_map f (nd # nds) acc = (case f nd of Inl err \<Rightarrow> Inl err
     | Inr None \<Rightarrow> build_map f nds acc
     | Inr (Some v) \<Rightarrow> build_map f nds (fmupd (mn_ID nd) v acc))"

definition manifest_validator :: "manifest_node \<Rightarrow> manifest_error + validator option option" where
  "manifest_validator nd = (case decode_public (mn_PublicKeyHex nd) of Inl err \<Rightarrow> Inl err
     | Inr pub \<Rightarrow> Inr (Some (Some \<lparr> v_ID = mn_ID nd, v_PublicKey = pub, v_VRFPublicKey = [], v_Power = mn_Power nd,
         v_IsActive = mn_IsActive nd \<rparr>)))"

definition BuildValidators :: "genesis_manifest \<Rightarrow> manifest_error + validators" where
  "BuildValidators m = build_map manifest_validator (gm_Nodes m) fmempty"

definition manifest_peer :: "('s, 'p, 'a) codec \<Rightarrow> manifest_node \<Rightarrow> manifest_error + addr_info option" where
  "manifest_peer co nd = (if is_blank (mn_P2PMultiaddr nd) then Inr None
     else case co_multiaddr co (mn_P2PMultiaddr nd) of None \<Rightarrow> Inl (BadMultiaddr (mn_ID nd))
     | Some a \<Rightarrow> (case co_addr_info co a of None \<Rightarrow> Inl (BadP2PAddr (mn_ID nd)) | Some info \<Rightarrow> Inr (Some info)))"

definition BuildPeerMap :: "('s, 'p, 'a) codec \<Rightarrow> genesis_manifest \<Rightarrow> manifest_error + (u64, addr_info) fmap" where
  "BuildPeerMap co m = build_map (manifest_peer co) (gm_Nodes m) fmempty"

definition LocalVRFKeypair :: "('s, 'p, 'a) codec \<Rightarrow> u64 \<Rightarrow> genesis_manifest \<Rightarrow> manifest_error + 's \<times> 'p" where
  "LocalVRFKeypair co i m = (case NodeByID i m of Inl err \<Rightarrow> Inl err
     | Inr nd \<Rightarrow> if is_blank (mn_VRFPrivateKeyHex nd) then Inl (NoVRFPrivateKey i)
         else (case decodeVRFPrivateKey co (mn_VRFPrivateKeyHex nd) of Inl err \<Rightarrow> Inl err
           | Inr priv \<Rightarrow> Inr (priv, co_mul co priv)))"

definition manifest_vrf_key :: "('s, 'p, 'a) codec \<Rightarrow> manifest_node \<Rightarrow> manifest_error + 'p option" where
  "manifest_vrf_key co nd = (if is_blank (mn_VRFPublicKeyHex nd) then Inl (NoVRFPublicKey (mn_ID nd))
     else case decodeVRFPublicKey co (mn_VRFPublicKeyHex nd) of Inl err \<Rightarrow> Inl err | Inr p \<Rightarrow> Inr (Some p))"

definition BuildVRFPublicKeys :: "('s, 'p, 'a) codec \<Rightarrow> genesis_manifest \<Rightarrow> manifest_error + (u64, 'p) fmap" where
  "BuildVRFPublicKeys co m = build_map (manifest_vrf_key co) (gm_Nodes m) fmempty"

definition ValidateRuntimeBootstrap :: "('s, 'p, 'a) codec \<Rightarrow> u64 \<Rightarrow> genesis_manifest \<Rightarrow> manifest_error option" where
  "ValidateRuntimeBootstrap co i m =
     (case LocalKeypair co i m of Inl err \<Rightarrow> Some err | Inr _ \<Rightarrow>
     (case LocalVRFKeypair co i m of Inl err \<Rightarrow> Some err | Inr _ \<Rightarrow>
     (case BuildValidators m of Inl err \<Rightarrow> Some err | Inr _ \<Rightarrow>
     (case BuildVRFPublicKeys co m of Inl err \<Rightarrow> Some err | Inr _ \<Rightarrow>
        if length (gm_Nodes m) \<le> 1 then None
        else case find (\<lambda>nd. is_blank (mn_P2PMultiaddr nd)) (gm_Nodes m) of
            Some nd \<Rightarrow> Some (NoMultiaddr (mn_ID nd))
          | None \<Rightarrow> (case BuildPeerMap co m of Inl err \<Rightarrow> Some err
              | Inr peers \<Rightarrow> if gm_len peers \<noteq> length (gm_Nodes m)
                  then Some (PeerMapIncomplete (gm_len peers) (length (gm_Nodes m))) else None)))))"

section \<open>The start of a node\<close>

text \<open>The result is no manifest when the configuration names none.\<close>

definition loadManifest ::
  "('s, 'p, 'a) codec \<Rightarrow> (string \<Rightarrow> bytes option) \<Rightarrow> (bytes \<Rightarrow> genesis_manifest option) \<Rightarrow> string \<Rightarrow> u64 \<Rightarrow>
   manifest_error + genesis_manifest option" where
  "loadManifest co read decode path i =
     (if path = [] then Inr None
      else case LoadGenesisManifest co read decode path of Inl err \<Rightarrow> Inl err
      | Inr m \<Rightarrow> (case ValidateRuntimeBootstrap co i m of Some err \<Rightarrow> Inl err | None \<Rightarrow> Inr (Some m)))"

definition RequiresManifest :: "string \<Rightarrow> u64 \<Rightarrow> bool" where
  "RequiresManifest path total_nodes \<longleftrightarrow> is_blank path \<and> total_nodes > 1"

text \<open>
  Without a manifest the keys are fresh: \<open>own\<close> is the node's pair, \<open>fresh j\<close> the public key made for
  validator \<open>j\<close>, and \<open>flag_peers\<close> the peer map of the command line.
\<close>

definition loadBootstrapState ::
  "('s, 'p, 'a) codec \<Rightarrow> string \<Rightarrow> u64 \<Rightarrow> u64 \<Rightarrow> u64 \<Rightarrow> bytes \<times> bytes \<Rightarrow> (u64 \<Rightarrow> bytes) \<Rightarrow> manifest_error + (u64, addr_info) fmap \<Rightarrow>
   genesis_manifest option \<Rightarrow> manifest_error + (bytes \<times> bytes) \<times> validators \<times> (u64, addr_info) fmap" where
  "loadBootstrapState co path total_nodes initial i own fresh flag_peers manifest =
     (case manifest of
        Some m \<Rightarrow>
          (case LocalKeypair co i m of Inl err \<Rightarrow> Inl err | Inr kp \<Rightarrow>
          (case BuildValidators m of Inl err \<Rightarrow> Inl err | Inr vs \<Rightarrow>
          (case BuildPeerMap co m of Inl err \<Rightarrow> Inl err | Inr peers \<Rightarrow> Inr (kp, vs, peers))))
      | None \<Rightarrow>
          if RequiresManifest path total_nodes then Inl (EphemeralRefused total_nodes)
          else (case flag_peers of Inl err \<Rightarrow> Inl err
            | Inr peers \<Rightarrow> Inr (own, fmap_of_list (map (\<lambda>j. (of_nat j, Some \<lparr> v_ID = of_nat j,
                v_PublicKey = (if of_nat j = i then fst own else fresh (of_nat j)), v_VRFPublicKey = [], v_Power = 1, v_IsActive = True \<rparr>))
                [0..<unat initial]), peers)))"

definition loadManifestVRFState ::
  "('s, 'p, 'a) codec \<Rightarrow> u64 \<Rightarrow> genesis_manifest option \<Rightarrow> manifest_error + (('s \<times> 'p) \<times> (u64, 'p) fmap) option" where
  "loadManifestVRFState co i manifest = (case manifest of None \<Rightarrow> Inr None
     | Some m \<Rightarrow> (case LocalVRFKeypair co i m of Inl err \<Rightarrow> Inl err
       | Inr kp \<Rightarrow> (case BuildVRFPublicKeys co m of Inl err \<Rightarrow> Inl err | Inr keys \<Rightarrow> Inr (Some (kp, keys)))))"

section \<open>Hexadecimal fields\<close>

lemma dropWhile_clean: "\<forall>c\<in>set s. \<not> P c \<Longrightarrow> dropWhile P s = s"
  by (cases s) auto

lemma trim_chars_clean: "\<forall>c\<in>set s. \<not> P c \<Longrightarrow> trim_chars P s = s"
  unfolding trim_chars_def using dropWhile_clean [of s P] dropWhile_clean [of "rev s" P] by simp

lemma hex_digit_not_space: "n < 16 \<Longrightarrow> \<not> is_space (hex_digit n)"
proof -
  assume "n < 16"
  then have "n \<in> set [0..<16]" by simp
  moreover have "list_all (\<lambda>n. \<not> is_space (hex_digit n)) [0..<16]" by code_simp
  ultimately show ?thesis unfolding list_all_iff by blast
qed

lemma hex_encode_no_space: "\<forall>c\<in>set (hex_encode bs). \<not> is_space c"
proof (induction bs)
  case (Cons b bs)
  have "unat b < 2 ^ LENGTH(8)" by (rule unsigned_less)
  then have "unat b div 16 < 16" by simp
  with Cons show ?case by (simp add: hex_byte_def hex_digit_not_space)
qed simp

lemma TrimSpace_hex [simp]: "TrimSpace (hex_encode bs) = hex_encode bs"
  by (simp add: TrimSpace_def trim_chars_clean hex_encode_no_space)

lemma hex_encode_Nil [simp]: "hex_encode bs = [] \<longleftrightarrow> bs = []"
  by (cases bs) (simp_all add: hex_byte_def)

lemma is_blank_hex [simp]: "is_blank (hex_encode bs) \<longleftrightarrow> bs = []"
  by (simp add: is_blank_def)

lemma decode_public_hex: "decode_public (hex_encode bs) = (if length bs = 32 then Inr bs else Inl (WrongSize ''ed25519 public key'' (length bs)))"
  by (simp add: decode_public_def decodeSizedHex_def hex_decode_encode)

lemma decode_private_hex: "decode_private (hex_encode bs) = (if length bs = 64 then Inr bs else Inl (WrongSize ''ed25519 private key'' (length bs)))"
  by (simp add: decode_private_def decodeSizedHex_def hex_decode_encode)

lemma decode_public_length: "decode_public raw = Inr bs \<Longrightarrow> length bs = 32"
  by (auto simp: decode_public_def decodeSizedHex_def split: option.splits if_splits)

lemma decode_private_length: "decode_private raw = Inr bs \<Longrightarrow> length bs = 64"
  by (auto simp: decode_private_def decodeSizedHex_def split: option.splits if_splits)

section \<open>Normal nodes\<close>

text \<open>What the code relies on: public keys have 32 bytes, and an encoded VRF key decodes to itself.\<close>

definition codec_laws :: "('s, 'p, 'a) codec \<Rightarrow> bool" where
  "codec_laws co \<longleftrightarrow> (\<forall>priv. length priv = 64 \<longrightarrow> length (co_ed25519_public co priv) = 32) \<and>
     (\<forall>s b. co_scalar_bytes co s = Some b \<longrightarrow> b \<noteq> [] \<and> co_scalar co b = Some s) \<and>
     (\<forall>p b. co_point_bytes co p = Some b \<longrightarrow> b \<noteq> [] \<and> co_point co b = Some p)"

definition normal_keys :: "('s, 'p, 'a) codec \<Rightarrow> bytes \<Rightarrow> manifest_node \<Rightarrow> bool" where
  "normal_keys co pub nd \<longleftrightarrow> length pub = 32 \<and> mn_PublicKeyHex nd = hex_encode pub \<and>
     (is_blank (mn_PrivateKeyHex nd) \<or>
       (\<exists>priv. length priv = 64 \<and> mn_PrivateKeyHex nd = hex_encode priv \<and> pub = co_ed25519_public co priv))"

definition normal_vrf :: "('s, 'p, 'a) codec \<Rightarrow> manifest_node \<Rightarrow> bool" where
  "normal_vrf co nd \<longleftrightarrow>
     (if is_blank (mn_VRFPrivateKeyHex nd)
      then is_blank (mn_VRFPublicKeyHex nd) \<or> (\<exists>p b. co_point_bytes co p = Some b \<and> mn_VRFPublicKeyHex nd = hex_encode b)
      else (\<exists>s b c. co_scalar_bytes co s = Some b \<and> mn_VRFPrivateKeyHex nd = hex_encode b \<and>
        co_point_bytes co (co_mul co s) = Some c \<and> mn_VRFPublicKeyHex nd = hex_encode c))"

definition normal_node :: "('s, 'p, 'a) codec \<Rightarrow> manifest_node \<Rightarrow> bool" where
  "normal_node co nd \<longleftrightarrow> mn_Power nd \<noteq> 0 \<and> normal_vrf co nd \<and> check_multiaddr co (mn_PeerID nd) nd = None \<and>
     (\<exists>pub. normal_keys co pub nd \<and> co_peer_id co pub = Some (mn_PeerID nd))"

lemma normalizeEd25519Keys_normal:
  assumes "codec_laws co" and "normalizeEd25519Keys co nd = Inr (pub, priv)"
  shows "length pub = 32 \<and> (case priv of None \<Rightarrow> is_blank (mn_PrivateKeyHex nd)
    | Some k \<Rightarrow> length k = 64 \<and> pub = co_ed25519_public co k)"
  using assms decode_private_length decode_public_length
  by (auto simp: normalizeEd25519Keys_def codec_laws_def Let_def split: if_splits sum.splits)

lemma normalizeVRFKeys_shape:
  "normalizeVRFKeys co nd = Inr (vpub, vpriv) \<Longrightarrow>
   (vpriv = None \<and> is_blank (mn_VRFPrivateKeyHex nd) \<and> (vpub = None \<longrightarrow> is_blank (mn_VRFPublicKeyHex nd))) \<or>
   (\<exists>s. vpriv = Some s \<and> vpub = Some (co_mul co s))"
  by (auto simp: normalizeVRFKeys_def Let_def split: if_splits sum.splits option.splits)

lemma normalize_node_normal:
  assumes "codec_laws co" and "normalize_node co nd = Inr nd'"
  shows "normal_node co nd'" and "mn_ID nd' = mn_ID nd"
proof -
  obtain pub priv vpub vpriv vpub_hex vpriv_hex pid
    where keys: "normalizeEd25519Keys co nd = Inr (pub, priv)" and vrf: "normalizeVRFKeys co nd = Inr (vpub, vpriv)"
      and hexes: "vrf_hex (co_point_bytes co) vpub (mn_VRFPublicKeyHex nd) = Some vpub_hex"
        "vrf_hex (co_scalar_bytes co) vpriv (mn_VRFPrivateKeyHex nd) = Some vpriv_hex"
      and pid: "co_peer_id co pub = Some pid" and addr: "check_multiaddr co pid nd = None"
      and nd': "nd' = nd\<lparr> mn_Power := (if mn_Power nd = 0 then 1 else mn_Power nd), mn_PublicKeyHex := hex_encode pub,
        mn_PrivateKeyHex := (case priv of Some k \<Rightarrow> hex_encode k | None \<Rightarrow> mn_PrivateKeyHex nd),
        mn_VRFPublicKeyHex := vpub_hex, mn_VRFPrivateKeyHex := vpriv_hex, mn_PeerID := pid \<rparr>"
    using assms(2) unfolding normalize_node_def
    by (auto split: sum.splits prod.splits option.splits if_splits)
  have "normal_vrf co nd'"
    using normalizeVRFKeys_shape [OF vrf] hexes assms(1)
    by (auto simp: normal_vrf_def nd' vrf_hex_def codec_laws_def split: option.splits)
  moreover have "mn_P2PMultiaddr nd' = mn_P2PMultiaddr nd" and "mn_ID nd' = mn_ID nd"
    by (simp_all add: nd')
  then have "check_multiaddr co pid nd' = None"
    using addr by (simp only: check_multiaddr_def)
  moreover have "normal_keys co pub nd'"
    using normalizeEd25519Keys_normal [OF assms(1) keys] by (auto simp: normal_keys_def nd' split: option.splits)
  ultimately show "normal_node co nd'" and "mn_ID nd' = mn_ID nd"
    using pid by (auto simp: normal_node_def nd')
qed

lemma normal_vrf_fixed:
  assumes "codec_laws co" and "normal_vrf co nd"
  shows "\<exists>vpub vpriv. normalizeVRFKeys co nd = Inr (vpub, vpriv) \<and>
      vrf_hex (co_point_bytes co) vpub (mn_VRFPublicKeyHex nd) = Some (mn_VRFPublicKeyHex nd) \<and>
      vrf_hex (co_scalar_bytes co) vpriv (mn_VRFPrivateKeyHex nd) = Some (mn_VRFPrivateKeyHex nd)"
proof (cases "is_blank (mn_VRFPrivateKeyHex nd)")
  case True
  show ?thesis
  proof (cases "is_blank (mn_VRFPublicKeyHex nd)")
    case False
    with assms(2) True obtain p b where p: "co_point_bytes co p = Some b" "mn_VRFPublicKeyHex nd = hex_encode b"
      by (auto simp: normal_vrf_def)
    then have "normalizeVRFKeys co nd = Inr (Some p, None)"
      using True assms(1) by (simp add: normalizeVRFKeys_def decodeVRFPublicKey_def hex_decode_encode codec_laws_def)
    then show ?thesis using p by (simp add: vrf_hex_def)
  qed (use True in \<open>simp add: normalizeVRFKeys_def vrf_hex_def\<close>)
next
  case False
  with assms(2) obtain s b c where s: "co_scalar_bytes co s = Some b" "mn_VRFPrivateKeyHex nd = hex_encode b"
    "co_point_bytes co (co_mul co s) = Some c" "mn_VRFPublicKeyHex nd = hex_encode c"
    by (auto simp: normal_vrf_def)
  then have "normalizeVRFKeys co nd = Inr (Some (co_mul co s), Some s)"
    using assms(1)
    by (simp add: normalizeVRFKeys_def decodeVRFPublicKey_def decodeVRFPrivateKey_def hex_decode_encode codec_laws_def)
  then show ?thesis using s by (simp add: vrf_hex_def)
qed

lemma normal_node_fixed:
  assumes "codec_laws co" and "normal_node co nd"
  shows "normalize_node co nd = Inr nd"
proof -
  obtain pub where power: "mn_Power nd \<noteq> 0" and vrf: "normal_vrf co nd" and addr: "check_multiaddr co (mn_PeerID nd) nd = None"
    and pub: "length pub = 32" "mn_PublicKeyHex nd = hex_encode pub" "co_peer_id co pub = Some (mn_PeerID nd)"
    and priv: "is_blank (mn_PrivateKeyHex nd) \<or>
       (\<exists>priv. length priv = 64 \<and> mn_PrivateKeyHex nd = hex_encode priv \<and> pub = co_ed25519_public co priv)"
    using assms(2) by (auto simp: normal_node_def normal_keys_def)
  from pub(1) have "pub \<noteq> []" by auto
  have keys: "\<exists>k. normalizeEd25519Keys co nd = Inr (pub, k) \<and>
      (case k of Some b \<Rightarrow> hex_encode b | None \<Rightarrow> mn_PrivateKeyHex nd) = mn_PrivateKeyHex nd"
    using priv
  proof
    assume "is_blank (mn_PrivateKeyHex nd)"
    then show ?thesis
      using pub \<open>pub \<noteq> []\<close> by (simp add: normalizeEd25519Keys_def decode_public_hex)
  next
    assume "\<exists>priv. length priv = 64 \<and> mn_PrivateKeyHex nd = hex_encode priv \<and> pub = co_ed25519_public co priv"
    then obtain k where k: "length k = 64" "mn_PrivateKeyHex nd = hex_encode k" "pub = co_ed25519_public co k" by blast
    from k(1) have "k \<noteq> []" by auto
    have "normalizeEd25519Keys co nd = Inr (pub, Some k)"
      using k(1,2) \<open>k \<noteq> []\<close> \<open>pub \<noteq> []\<close> pub(1,2) k(3) [symmetric]
      by (simp add: normalizeEd25519Keys_def decode_private_hex decode_public_hex)
    then show ?thesis using k(2) by simp
  qed
  have "\<exists>vpub vpriv. normalizeVRFKeys co nd = Inr (vpub, vpriv) \<and>
      vrf_hex (co_point_bytes co) vpub (mn_VRFPublicKeyHex nd) = Some (mn_VRFPublicKeyHex nd) \<and>
      vrf_hex (co_scalar_bytes co) vpriv (mn_VRFPrivateKeyHex nd) = Some (mn_VRFPrivateKeyHex nd)"
    by (rule normal_vrf_fixed [OF assms(1) vrf])
  with keys show ?thesis
    using power pub addr by (auto simp: normalize_node_def)
qed

section \<open>Normal manifests\<close>

lemma normalize_nodes_normal:
  "codec_laws co \<Longrightarrow> normalize_nodes co seen nds = Inr nds' \<Longrightarrow>
   list_all (normal_node co) nds' \<and> map mn_ID nds' = map mn_ID nds \<and> distinct (map mn_ID nds) \<and>
   set (map mn_ID nds) \<inter> fset seen = {}"
proof (induction co seen nds arbitrary: nds' rule: normalize_nodes.induct)
  case (2 co seen nd nds)
  then obtain nd' tl' where "mn_ID nd |\<notin>| seen" and nd': "normalize_node co nd = Inr nd'"
    and tl': "normalize_nodes co (finsert (mn_ID nd) seen) nds = Inr tl'" and "nds' = nd' # tl'"
    by (auto split: if_splits sum.splits)
  with 2 show ?case
    using normalize_node_normal [OF "2.prems"(1) nd'] by auto
qed auto

lemma normal_nodes_fixed:
  "codec_laws co \<Longrightarrow> list_all (normal_node co) nds \<Longrightarrow> distinct (map mn_ID nds) \<Longrightarrow>
   set (map mn_ID nds) \<inter> fset seen = {} \<Longrightarrow> normalize_nodes co seen nds = Inr nds"
proof (induction nds arbitrary: seen)
  case (Cons nd nds)
  then have "normalize_nodes co (finsert (mn_ID nd) seen) nds = Inr nds" by auto
  with Cons.prems show ?case by (auto simp: normal_node_fixed)
qed simp

definition normal_manifest :: "('s, 'p, 'a) codec \<Rightarrow> genesis_manifest \<Rightarrow> bool" where
  "normal_manifest co m \<longleftrightarrow> gm_Nodes m \<noteq> [] \<and> list_all (normal_node co) (gm_Nodes m) \<and>
     sorted (map mn_ID (gm_Nodes m)) \<and> distinct (map mn_ID (gm_Nodes m))"

lemma Normalize_normal:
  assumes "codec_laws co" and "Normalize co m = Inr m'"
  shows "normal_manifest co m'" and "set (map mn_ID (gm_Nodes m')) = set (map mn_ID (gm_Nodes m))"
proof -
  obtain nds where nds: "normalize_nodes co {||} (gm_Nodes m) = Inr nds" and m': "m' = m\<lparr>gm_Nodes := sort_key mn_ID nds\<rparr>"
    and ne: "gm_Nodes m \<noteq> []"
    using assms(2) by (auto simp: Normalize_def split: if_splits sum.splits)
  note props = normalize_nodes_normal [OF assms(1) nds]
  have "mset (map mn_ID (sort_key mn_ID nds)) = mset (map mn_ID nds)"
    by simp
  then have "distinct (map mn_ID (sort_key mn_ID nds))" and ids: "set (map mn_ID (sort_key mn_ID nds)) = set (map mn_ID nds)"
    using props by (metis mset_eq_imp_distinct_iff, metis mset_eq_setD)
  moreover have "nds \<noteq> []"
    using props ne by (metis map_is_Nil_conv)
  then have "sort_key mn_ID nds \<noteq> []"
    by (metis length_0_conv length_sort)
  ultimately show "normal_manifest co m'"
    using props by (simp add: normal_manifest_def m' list_all_iff)
  show "set (map mn_ID (gm_Nodes m')) = set (map mn_ID (gm_Nodes m))"
    using ids props by (simp add: m')
qed

lemma normal_manifest_fixed: "codec_laws co \<Longrightarrow> normal_manifest co m \<Longrightarrow> Normalize co m = Inr m"
  by (simp add: normal_manifest_def Normalize_def normal_nodes_fixed sorted_sort_id [symmetric] sort_key_id_if_sorted)

lemma build_map_total:
  "(\<And>nd. nd \<in> set nds \<Longrightarrow> \<exists>r. f nd = Inr r) \<Longrightarrow> \<exists>m. build_map f nds acc = Inr m"
proof (induction nds arbitrary: acc)
  case (Cons nd nds)
  then obtain r where "f nd = Inr r" by (meson list.set_intros(1))
  with Cons show ?case by (cases r) simp_all
qed simp

lemma build_map_lookup:
  "distinct (map mn_ID nds) \<Longrightarrow> build_map f nds acc = Inr m \<Longrightarrow>
   fmlookup m i = (case find (\<lambda>nd. mn_ID nd = i) nds of None \<Rightarrow> fmlookup acc i
     | Some nd \<Rightarrow> (case f nd of Inr (Some v) \<Rightarrow> Some v | _ \<Rightarrow> fmlookup acc i))"
proof (induction nds arbitrary: acc)
  case (Cons nd nds)
  have fresh: "find (\<lambda>x. mn_ID x = mn_ID nd) nds = None"
    unfolding find_None_iff using Cons.prems(1) by (metis distinct.simps(2) image_eqI list.map(2) set_map)
  show ?case
    using Cons fresh by (auto split: sum.splits option.splits)
qed simp

lemma find_by_id: "distinct (map mn_ID nds) \<Longrightarrow> nd \<in> set nds \<Longrightarrow> find (\<lambda>x. mn_ID x = mn_ID nd) nds = Some nd"
  by (induction nds) auto

lemma normal_validator:
  assumes "normal_node co nd"
  shows "\<exists>pub. normal_keys co pub nd \<and> co_peer_id co pub = Some (mn_PeerID nd) \<and>
    manifest_validator nd = Inr (Some (Some \<lparr> v_ID = mn_ID nd, v_PublicKey = pub, v_VRFPublicKey = [],
      v_Power = mn_Power nd, v_IsActive = mn_IsActive nd \<rparr>))"
  using assms by (auto simp: normal_node_def normal_keys_def manifest_validator_def decode_public_hex)

lemma normal_peer:
  assumes "normal_node co nd"
  shows "\<exists>r. manifest_peer co nd = Inr r \<and> (\<forall>info. r = Some info \<longrightarrow> ai_ID info = mn_PeerID nd) \<and>
    (r = None \<longleftrightarrow> is_blank (mn_P2PMultiaddr nd))"
  using assms by (auto simp: normal_node_def check_multiaddr_def manifest_peer_def split: option.splits if_splits)

lemma find_node: "find (\<lambda>nd. mn_ID nd = i) nds = Some nd \<Longrightarrow> nd \<in> set nds \<and> mn_ID nd = i"
  by (induction nds) (auto split: if_splits)

lemma find_node_none: "find (\<lambda>nd. mn_ID nd = i) nds = None \<longleftrightarrow> i \<notin> mn_ID ` set nds"
  by (auto simp: find_None_iff)

lemma normal_validators:
  assumes "normal_manifest co m" and "BuildValidators m = Inr vs" and "nd \<in> set (gm_Nodes m)"
  shows "\<exists>v. fmlookup vs (mn_ID nd) = Some (Some v) \<and> normal_keys co (v_PublicKey v) nd \<and>
    co_peer_id co (v_PublicKey v) = Some (mn_PeerID nd) \<and> v_Power v \<noteq> 0 \<and> v_ID v = mn_ID nd"
proof -
  have nd: "normal_node co nd" and distinct: "distinct (map mn_ID (gm_Nodes m))"
    using assms(1,3) by (auto simp: normal_manifest_def list_all_iff)
  have "mn_Power nd \<noteq> 0"
    using nd by (simp add: normal_node_def)
  with normal_validator [OF nd] show ?thesis
    using build_map_lookup [OF distinct assms(2) [unfolded BuildValidators_def], of "mn_ID nd"] find_by_id [OF distinct assms(3)]
    by auto
qed

lemma normal_validators_exist:
  assumes "normal_manifest co m"
  shows "\<exists>vs. BuildValidators m = Inr vs \<and> fset (fmdom vs) = mn_ID ` set (gm_Nodes m)"
proof -
  have distinct: "distinct (map mn_ID (gm_Nodes m))"
    using assms by (simp add: normal_manifest_def)
  obtain vs where vs: "BuildValidators m = Inr vs"
    using build_map_total [of "gm_Nodes m" manifest_validator] normal_validator assms
    unfolding BuildValidators_def normal_manifest_def list_all_iff by metis
  have "i \<in> fset (fmdom vs) \<longleftrightarrow> i \<in> mn_ID ` set (gm_Nodes m)" for i
  proof (cases "find (\<lambda>nd. mn_ID nd = i) (gm_Nodes m)")
    case None
    then show ?thesis
      using build_map_lookup [OF distinct vs [unfolded BuildValidators_def], of i] find_node_none [of i "gm_Nodes m"]
      by (simp add: fmlookup_dom_iff)
  next
    case (Some nd)
    then show ?thesis
      using normal_validators [OF assms vs, of nd] find_node [OF Some] by (auto simp: fmlookup_dom_iff)
  qed
  with vs show ?thesis by blast
qed

lemma normal_peers:
  assumes "normal_manifest co m"
  shows "\<exists>peers. BuildPeerMap co m = Inr peers \<and>
    (\<forall>i. fmlookup peers i \<noteq> None \<longleftrightarrow> (\<exists>nd\<in>set (gm_Nodes m). mn_ID nd = i \<and> \<not> is_blank (mn_P2PMultiaddr nd))) \<and>
    (\<forall>i info. fmlookup peers i = Some info \<longrightarrow> (\<exists>nd\<in>set (gm_Nodes m). mn_ID nd = i \<and> ai_ID info = mn_PeerID nd))"
proof -
  have distinct: "distinct (map mn_ID (gm_Nodes m))"
    using assms by (simp add: normal_manifest_def)
  have nodes: "normal_node co nd" if "nd \<in> set (gm_Nodes m)" for nd
    using assms that by (simp add: normal_manifest_def list_all_iff)
  obtain peers where peers: "BuildPeerMap co m = Inr peers"
    using build_map_total [of "gm_Nodes m" "manifest_peer co"] normal_peer nodes unfolding BuildPeerMap_def by metis
  have "(fmlookup peers i \<noteq> None \<longleftrightarrow> (\<exists>nd\<in>set (gm_Nodes m). mn_ID nd = i \<and> \<not> is_blank (mn_P2PMultiaddr nd))) \<and>
      (\<forall>info. fmlookup peers i = Some info \<longrightarrow> (\<exists>nd\<in>set (gm_Nodes m). mn_ID nd = i \<and> ai_ID info = mn_PeerID nd))" for i
  proof (cases "find (\<lambda>nd. mn_ID nd = i) (gm_Nodes m)")
    case None
    then have "fmlookup peers i = None"
      using build_map_lookup [OF distinct peers [unfolded BuildPeerMap_def], of i] by simp
    moreover have "i \<notin> mn_ID ` set (gm_Nodes m)"
      using None find_node_none by metis
    ultimately show ?thesis by auto
  next
    case (Some nd)
    from find_node [OF this] have nd: "nd \<in> set (gm_Nodes m)" "mn_ID nd = i" by blast+
    have only: "nd' = nd" if "nd' \<in> set (gm_Nodes m)" "mn_ID nd' = i" for nd'
      using distinct nd that unfolding distinct_map inj_on_def by metis
    obtain r where r: "manifest_peer co nd = Inr r" "\<forall>info. r = Some info \<longrightarrow> ai_ID info = mn_PeerID nd"
      "r = None \<longleftrightarrow> is_blank (mn_P2PMultiaddr nd)"
      using normal_peer [OF nodes [OF nd(1)]] by blast
    have "fmlookup peers i = r"
      using build_map_lookup [OF distinct peers [unfolded BuildPeerMap_def], of i] Some r(1) by (simp split: option.splits)
    then show ?thesis
      using r(2,3) nd only by metis
  qed
  with peers show ?thesis by blast
qed

section \<open>The identities of a manifest\<close>

text \<open>
  C28: the identities of a node agree in everything a normalised manifest yields.  Normalising
  again changes nothing, the identifiers are those of the file, in increasing order and without
  repetition, validators and peers can always be built, the key pair a node starts with is the one
  it is registered with, and the address its peers dial leads to the holder of that key.
\<close>

theorem manifest_identities_agree:
  assumes "codec_laws co" and "Normalize co m = Inr m'"
  shows "Normalize co m' = Inr m' \<and> sorted (map mn_ID (gm_Nodes m')) \<and> distinct (map mn_ID (gm_Nodes m')) \<and>
    (\<exists>vs peers. BuildValidators m' = Inr vs \<and> BuildPeerMap co m' = Inr peers \<and>
      fset (fmdom vs) = mn_ID ` set (gm_Nodes m) \<and>
      (\<forall>i pub priv. LocalKeypair co i m' = Inr (pub, priv) \<longrightarrow> (\<exists>v. fmlookup vs i = Some (Some v) \<and> v_PublicKey v = pub)) \<and>
      (\<forall>i info. fmlookup peers i = Some info \<longrightarrow>
         (\<exists>v. fmlookup vs i = Some (Some v) \<and> co_peer_id co (v_PublicKey v) = Some (ai_ID info))))"
proof -
  note normal = Normalize_normal [OF assms]
  obtain vs where vs: "BuildValidators m' = Inr vs" "fset (fmdom vs) = mn_ID ` set (gm_Nodes m')"
    using normal_validators_exist [OF normal(1)] by blast
  obtain peers where peers: "BuildPeerMap co m' = Inr peers"
    "\<And>i info. fmlookup peers i = Some info \<Longrightarrow> \<exists>nd\<in>set (gm_Nodes m'). mn_ID nd = i \<and> ai_ID info = mn_PeerID nd"
    using normal_peers [OF normal(1)] by blast
  have "\<exists>v. fmlookup vs i = Some (Some v) \<and> v_PublicKey v = pub" if pair: "LocalKeypair co i m' = Inr (pub, priv)" for i pub priv
  proof -
    obtain nd where nd: "find (\<lambda>nd. mn_ID nd = i) (gm_Nodes m') = Some nd" and key: "\<not> is_blank (mn_PrivateKeyHex nd)"
      "decode_private (mn_PrivateKeyHex nd) = Inr priv" "pub = co_ed25519_public co priv"
      using pair by (auto simp: LocalKeypair_def NodeByID_def split: option.splits sum.splits if_splits)
    from normal_validators [OF normal(1) vs(1)] find_node [OF nd]
    obtain v where "fmlookup vs i = Some (Some v)" "normal_keys co (v_PublicKey v) nd" by blast
    then show ?thesis
      using key by (auto simp: normal_keys_def decode_private_hex)
  qed
  moreover have "\<exists>v. fmlookup vs i = Some (Some v) \<and> co_peer_id co (v_PublicKey v) = Some (ai_ID info)"
    if "fmlookup peers i = Some info" for i info
    using peers(2) [OF that] normal_validators [OF normal(1) vs(1)] by metis
  moreover have "fset (fmdom vs) = mn_ID ` set (gm_Nodes m)"
    using normal(2) vs(2) by simp
  moreover have "sorted (map mn_ID (gm_Nodes m'))" "distinct (map mn_ID (gm_Nodes m'))"
    using normal(1) by (simp_all add: normal_manifest_def)
  ultimately show ?thesis
    using normal_manifest_fixed [OF assms(1) normal(1)] vs(1) peers(1) by blast
qed

text \<open>
  A manifest whose nodes are given in any order, with a power left out and a key in capitals.
\<close>

definition toy_codec :: "(bytes, bytes, string) codec" where
  "toy_codec = \<lparr> co_ed25519_public = take 32, co_scalar = (\<lambda>b. if b = [] then None else Some b), co_point = (\<lambda>b. if b = [] then None else Some b),
     co_mul = (\<lambda>s. s), co_scalar_bytes = (\<lambda>s. if s = [] then None else Some s), co_point_bytes = (\<lambda>p. if p = [] then None else Some p),
     co_peer_id = (\<lambda>b. Some (hex_encode (take 1 b))), co_multiaddr = Some, co_addr_info = (\<lambda>a. Some \<lparr> ai_ID = a, ai_Addrs = [] \<rparr>) \<rparr>"

definition toy_node :: "u64 \<Rightarrow> u64 \<Rightarrow> bytes \<Rightarrow> string \<Rightarrow> manifest_node" where
  "toy_node i pw priv addr = \<lparr> mn_ID = i, mn_Power = pw, mn_IsActive = True, mn_PublicKeyHex = [], mn_PrivateKeyHex = hex_encode priv,
     mn_VRFPublicKeyHex = [], mn_VRFPrivateKeyHex = ''0A'', mn_PeerID = [], mn_P2PMultiaddr = addr \<rparr>"

definition toy_manifest :: genesis_manifest where
  "toy_manifest = \<lparr> gm_Version = 1, gm_Nodes = [toy_node 2 5 (replicate 64 2) ''02'', toy_node 1 0 (replicate 64 1) ''01''] \<rparr>"

definition toy_normal :: genesis_manifest where
  "toy_normal = \<lparr> gm_Version = 1, gm_Nodes =
     [\<lparr> mn_ID = 1, mn_Power = 1, mn_IsActive = True, mn_PublicKeyHex = hex_encode (replicate 32 1), mn_PrivateKeyHex = hex_encode (replicate 64 1),
        mn_VRFPublicKeyHex = ''0a'', mn_VRFPrivateKeyHex = ''0a'', mn_PeerID = ''01'', mn_P2PMultiaddr = ''01'' \<rparr>,
      \<lparr> mn_ID = 2, mn_Power = 5, mn_IsActive = True, mn_PublicKeyHex = hex_encode (replicate 32 2), mn_PrivateKeyHex = hex_encode (replicate 64 2),
        mn_VRFPublicKeyHex = ''0a'', mn_VRFPrivateKeyHex = ''0a'', mn_PeerID = ''02'', mn_P2PMultiaddr = ''02'' \<rparr>] \<rparr>"

lemma toy_codec_laws: "codec_laws toy_codec"
  by (simp add: codec_laws_def toy_codec_def)

lemma toy_normalizes: "Normalize toy_codec toy_manifest = Inr toy_normal"
  by code_simp

theorem manifest_identities_agree_witness:
  "Normalize toy_codec toy_normal = Inr toy_normal \<and> (\<exists>vs. BuildValidators toy_normal = Inr vs \<and> fset (fmdom vs) = {1, 2} \<and>
     (\<exists>v. fmlookup vs 2 = Some (Some v) \<and> v_PublicKey v = replicate 32 2))"
proof -
  have "LocalKeypair toy_codec 2 toy_normal = Inr (replicate 32 2, replicate 64 2)" by code_simp
  then show ?thesis
    using manifest_identities_agree [OF toy_codec_laws toy_normalizes]
    by (auto simp: toy_manifest_def toy_node_def)
qed

lemma build_map_error: "build_map f nds acc = Inl err \<Longrightarrow> \<exists>nd. f nd = Inl err"
  by (induction f nds acc rule: build_map.induct) (auto split: sum.splits option.splits)

lemma ValidateRuntimeBootstrap_errors:
  assumes "ValidateRuntimeBootstrap co i m = Some (PeerMapIncomplete a b)"
  shows "find (\<lambda>nd. is_blank (mn_P2PMultiaddr nd)) (gm_Nodes m) = None \<and>
    (\<forall>peers. BuildPeerMap co m = Inr peers \<longrightarrow> gm_len peers \<noteq> length (gm_Nodes m))"
proof -
  have "LocalKeypair co i m \<noteq> Inl (PeerMapIncomplete a b)" "LocalVRFKeypair co i m \<noteq> Inl (PeerMapIncomplete a b)"
    by (auto simp: LocalKeypair_def LocalVRFKeypair_def NodeByID_def decode_private_def decodeSizedHex_def decodeVRFPrivateKey_def
        split: option.splits sum.splits if_splits)
  moreover have "BuildValidators m \<noteq> Inl (PeerMapIncomplete a b)"
    by (auto simp: BuildValidators_def manifest_validator_def decode_public_def decodeSizedHex_def
        split: option.splits sum.splits if_splits dest!: build_map_error)
  moreover have "BuildVRFPublicKeys co m \<noteq> Inl (PeerMapIncomplete a b)"
    by (auto simp: BuildVRFPublicKeys_def manifest_vrf_key_def decodeVRFPublicKey_def
        split: option.splits sum.splits if_splits dest!: build_map_error)
  ultimately show ?thesis
    using assms by (auto simp: ValidateRuntimeBootstrap_def split: sum.splits if_splits option.splits)
qed

text \<open>After a normalisation the peer map that \<open>ValidateRuntimeBootstrap\<close> counts is never incomplete.\<close>

lemma peer_map_never_incomplete:
  assumes "codec_laws co" and "Normalize co m = Inr m'"
  shows "ValidateRuntimeBootstrap co i m' \<noteq> Some (PeerMapIncomplete a b)"
proof
  assume fails: "ValidateRuntimeBootstrap co i m' = Some (PeerMapIncomplete a b)"
  note normal = Normalize_normal(1) [OF assms]
  obtain peers where peers: "BuildPeerMap co m' = Inr peers"
    and domain: "\<forall>i. fmlookup peers i \<noteq> None \<longleftrightarrow> (\<exists>nd\<in>set (gm_Nodes m'). mn_ID nd = i \<and> \<not> is_blank (mn_P2PMultiaddr nd))"
    using normal_peers [OF normal] by blast
  have "find (\<lambda>nd. is_blank (mn_P2PMultiaddr nd)) (gm_Nodes m') = None" and incomplete: "gm_len peers \<noteq> length (gm_Nodes m')"
    using fails peers ValidateRuntimeBootstrap_errors [OF fails] by auto
  then have "\<forall>nd\<in>set (gm_Nodes m'). \<not> is_blank (mn_P2PMultiaddr nd)"
    by (auto simp: find_None_iff)
  then have "fset (fmdom peers) = set (map mn_ID (gm_Nodes m'))"
    using domain by (auto simp: fmlookup_dom_iff)
  moreover have "distinct (map mn_ID (gm_Nodes m'))"
    using normal by (simp add: normal_manifest_def)
  ultimately have "gm_len peers = length (gm_Nodes m')"
    by (metis distinct_card gm_len_card length_map)
  with incomplete show False ..
qed

end
