(* ===== verification/Gbc_Transport.thy ===== *)
theory Gbc_Transport
  imports Gbc_Node Consensus_Types
begin

text \<open>
  The transport of the Global Beacon Chain over gossip (consensus/gbc/p2p_transport.go) and the
  adapter the node installs it with (cmd/evolvbft/gbc_runtime.go).  Every message is put into a wire
  message with its sender and its addressee and published on one topic; the receiver drops what is
  its own or is addressed to another node.  JSON is the pair \<open>encode\<close> and \<open>decode\<close>; that what the
  network carries arrives is a step of the environment.
\<close>

section \<open>Wire messages\<close>

text \<open>A wire entry has the fields of an entry.\<close>

record wire_message =
  wm_Type :: GbcMsgType
  wm_SenderID :: u64
  wm_TargetID :: u64
  wm_Entry :: "gbc_entry option"
  wm_Attestation :: "gbc_attestation option"
  wm_SyncFrom :: u64
  wm_SyncEntries :: "gbc_entry list"

definition fillWire :: "wire_message \<Rightarrow> gbc_message \<Rightarrow> wire_message" where
  "fillWire wire msg = (case gm_Type msg of
     GMsgPropose \<Rightarrow> wire\<lparr>wm_Entry := Some (gm_Entry msg)\<rparr>
   | GMsgCommitted \<Rightarrow> wire\<lparr>wm_Entry := Some (gm_Entry msg)\<rparr>
   | GMsgAttest \<Rightarrow> wire\<lparr>wm_Attestation := Some (gm_Attestation msg), wm_Entry := Some (blank_gbc_entry (ge_Height (gm_Entry msg)))\<rparr>
   | GMsgSyncReq \<Rightarrow> wire\<lparr>wm_SyncFrom := gm_SyncFrom msg\<rparr>
   | GMsgSyncResp \<Rightarrow> wire\<lparr>wm_SyncEntries := gm_SyncEntries msg\<rparr>)"

definition wire_to :: "u64 \<Rightarrow> u64 \<Rightarrow> gbc_message \<Rightarrow> wire_message" where
  "wire_to sender target msg = fillWire \<lparr> wm_Type = gm_Type msg, wm_SenderID = sender, wm_TargetID = target, wm_Entry = None,
     wm_Attestation = None, wm_SyncFrom = 0, wm_SyncEntries = [] \<rparr> msg"

definition wireToMessage :: "wire_message \<Rightarrow> gbc_message" where
  "wireToMessage wire = \<lparr> gm_Type = wm_Type wire, gm_SenderID = wm_SenderID wire,
     gm_Entry = (case wm_Entry wire of Some e \<Rightarrow> e | None \<Rightarrow> blank_gbc_entry 0),
     gm_Attestation = (case wm_Attestation wire of Some a \<Rightarrow> a | None \<Rightarrow> no_attestation),
     gm_SyncFrom = wm_SyncFrom wire, gm_SyncEntries = wm_SyncEntries wire \<rparr>"

section \<open>The transport\<close>

text \<open>\<open>pt_published\<close> lists what was published on the topic, \<open>pt_direct\<close> what was sent to a peer directly.\<close>

record p2p_transport =
  pt_nodeID :: u64
  pt_peers :: "u64 fset"
  pt_topic :: string
  pt_inbox :: "gbc_message list"
  pt_capacity :: nat
  pt_closed :: bool
  pt_published :: "bytes list"
  pt_direct :: "(u64 \<times> bytes) list"

text \<open>The result is nothing when there is no network or the subscription fails.\<close>

definition NewP2PTransport :: "bool \<Rightarrow> bool \<Rightarrow> u64 \<Rightarrow> u64 list \<Rightarrow> string \<Rightarrow> int \<Rightarrow> p2p_transport option" where
  "NewP2PTransport has_network subscribe_ok i peer_ids topic buffer =
     (if \<not> has_network \<or> \<not> subscribe_ok then None
      else Some \<lparr> pt_nodeID = i, pt_peers = fset_of_list peer_ids |-| {|i|}, pt_topic = (if topic = [] then ''gbc-protocol'' else topic),
        pt_inbox = [], pt_capacity = (if buffer \<le> 0 then 1024 else nat buffer), pt_closed = False, pt_published = [], pt_direct = [] \<rparr>)"

text \<open>
  One turn of \<open>receiveLoop\<close>.  When the transport is closed and data is waiting, each of the two selects
  picks one of its ready cases at random; the booleans say whether it picks the closed channel.
\<close>

definition receive_turn :: "(bytes \<Rightarrow> wire_message option) \<Rightarrow> bool \<Rightarrow> bool \<Rightarrow> bytes \<Rightarrow> p2p_transport \<Rightarrow> p2p_transport" where
  "receive_turn decode stop quit data t =
     (if pt_closed t \<and> stop then t
      else case decode data of None \<Rightarrow> t
      | Some wire \<Rightarrow>
        if wm_SenderID wire = pt_nodeID t then t
        else if wm_TargetID wire \<noteq> 0 \<and> wm_TargetID wire \<noteq> pt_nodeID t then t
        else if pt_closed t \<and> quit then t
        else if length (pt_inbox t) < pt_capacity t then t\<lparr>pt_inbox := pt_inbox t @ [wireToMessage wire]\<rparr> else t)"

definition pt_publish :: "bool \<Rightarrow> bytes \<Rightarrow> p2p_transport \<Rightarrow> p2p_transport \<times> bool" where
  "pt_publish publish_ok data t = (if publish_ok then (t\<lparr>pt_published := pt_published t @ [data]\<rparr>, True) else (t, False))"

text \<open>The booleans say whether the direct send and the publication succeed; the result is false on an error.\<close>

definition pt_Send :: "(wire_message \<Rightarrow> bytes) \<Rightarrow> bool \<Rightarrow> bool \<Rightarrow> u64 \<Rightarrow> gbc_message \<Rightarrow> p2p_transport \<Rightarrow> p2p_transport \<times> bool" where
  "pt_Send encode direct_ok publish_ok to msg t =
     (if pt_closed t then (t, False)
      else let data = encode (wire_to (pt_nodeID t) to msg)
        in if direct_ok then (t\<lparr>pt_direct := pt_direct t @ [(to, data)]\<rparr>, True) else pt_publish publish_ok data t)"

definition pt_Broadcast :: "(wire_message \<Rightarrow> bytes) \<Rightarrow> bool \<Rightarrow> gbc_message \<Rightarrow> p2p_transport \<Rightarrow> p2p_transport \<times> bool" where
  "pt_Broadcast encode publish_ok msg t =
     (if pt_closed t then (t, False) else pt_publish publish_ok (encode (wire_to (pt_nodeID t) 0 msg)) t)"

text \<open>
  \<open>Receive\<close> hands out the next message, or fails once the transport is closed; when neither is the
  case it waits, and \<open>ReceiveTimeout\<close> fails after its time: no message then.
\<close>

definition pt_Receive :: "p2p_transport \<Rightarrow> p2p_transport \<times> gbc_message option" where
  "pt_Receive t = (case pt_inbox t of m # ms \<Rightarrow> (t\<lparr>pt_inbox := ms\<rparr>, Some m) | [] \<Rightarrow> (t, None))"

definition pt_Close :: "p2p_transport \<Rightarrow> p2p_transport" where
  "pt_Close t = t\<lparr>pt_closed := True\<rparr>"

definition PeerCount :: "p2p_transport \<Rightarrow> nat" where
  "PeerCount t = fcard (pt_peers t)"

definition AddPeer :: "u64 \<Rightarrow> p2p_transport \<Rightarrow> p2p_transport" where
  "AddPeer i t = (if i \<noteq> pt_nodeID t then t\<lparr>pt_peers := finsert i (pt_peers t)\<rparr> else t)"

definition RemovePeer :: "u64 \<Rightarrow> p2p_transport \<Rightarrow> p2p_transport" where
  "RemovePeer i t = t\<lparr>pt_peers := pt_peers t |-| {|i|}\<rparr>"

section \<open>Installation\<close>

datatype install_error = NoNetwork | NotGbcMember u64 | InvalidKey u64 | TransportFailed

text \<open>
  \<open>newRuntimeGBCNode\<close>: the members are the identifiers of the given validators in increasing order.
  The adapter has no direct sends, so every message is published on the topic.
\<close>

definition newRuntimeGBCNode ::
  "(bytes \<Rightarrow> bytes) \<Rightarrow> (bytes \<Rightarrow> bytes \<Rightarrow> bytes) \<Rightarrow> (bytes \<Rightarrow> bytes \<Rightarrow> bytes \<Rightarrow> bool) \<Rightarrow> bool \<Rightarrow> bool \<Rightarrow> u64 \<Rightarrow> bytes \<Rightarrow> validators \<Rightarrow>
   string \<Rightarrow> int \<Rightarrow> install_error + p2p_transport \<times> gbc_node" where
  "newRuntimeGBCNode sha256 ed_sign ed_verify has_network subscribe_ok i key vals base_topic buffer =
     (if \<not> has_network then Inl NoNetwork
      else if i |\<notin>| fmdom vals then Inl (NotGbcMember i)
      else case find (\<lambda>j. case fmlookup vals j of Some (Some v) \<Rightarrow> length (v_PublicKey v) \<noteq> 32 | _ \<Rightarrow> True) (gm_keys vals) of
          Some j \<Rightarrow> Inl (InvalidKey j)
        | None \<Rightarrow>
          let ids = gm_keys vals;
              keys = fmap_of_list (map (\<lambda>j. (j, case fmlookup vals j of Some (Some v) \<Rightarrow> v_PublicKey v | _ \<Rightarrow> [])) ids)
          in case NewP2PTransport True subscribe_ok i ids (base_topic @ ''.gbc'') buffer of
               None \<Rightarrow> Inl TransportFailed
             | Some t \<Rightarrow> Inr (t, NewNode i ids (int (length ids)) (node_signer sha256 ed_sign i key None)
                 (node_verifier sha256 ed_verify keys None)))"

text \<open>The primaries are the validators that lead a lane when the node starts; \<open>None\<close> is a nil engine.\<close>

definition currentGBCPrimaries :: "u64 option list \<Rightarrow> validators \<Rightarrow> validators" where
  "currentGBCPrimaries leaders vals = fold (\<lambda>l acc. case l of None \<Rightarrow> acc
     | Some i \<Rightarrow> (case fmlookup vals i of Some (Some v) \<Rightarrow> fmupd i (Some v) acc | _ \<Rightarrow> acc)) leaders fmempty"

section \<open>What a receiver can tell\<close>

text \<open>
  The wire drops the fields that a kind of message does not use; the handlers do not read
  them, so a node treats what arrives as what was sent.
\<close>

lemma wire_fields [simp]:
  "wm_SenderID (wire_to s to msg) = s" "wm_TargetID (wire_to s to msg) = to" "wm_Type (wire_to s to msg) = gm_Type msg"
  by (simp_all add: wire_to_def fillWire_def split: GbcMsgType.splits)

lemma handler_reads:
  "gm_SenderID m = gm_SenderID m' \<Longrightarrow> gm_Entry m = gm_Entry m' \<Longrightarrow> handlePropose sha256 m n = handlePropose sha256 m' n"
  "gm_SenderID m = gm_SenderID m' \<Longrightarrow> gm_Entry m = gm_Entry m' \<Longrightarrow> handleCommitted sha256 m n = handleCommitted sha256 m' n"
  "ge_Height (gm_Entry m) = ge_Height (gm_Entry m') \<Longrightarrow> gm_Attestation m = gm_Attestation m' \<Longrightarrow> handleAttest sha256 m n = handleAttest sha256 m' n"
  "gm_SenderID m = gm_SenderID m' \<Longrightarrow> gm_SyncFrom m = gm_SyncFrom m' \<Longrightarrow> handleSyncReq m n = handleSyncReq m' n"
  "gm_SyncEntries m = gm_SyncEntries m' \<Longrightarrow> handleSyncResp sha256 m n = handleSyncResp sha256 m' n"
  unfolding handlePropose_def handleCommitted_def handleAttest_def handleSyncReq_def handleSyncResp_def Let_def
  by (simp_all cong: if_cong sum.case_cong option.case_cong)

lemma receive_wire:
  "gbc_receive sha256 (wireToMessage (wire_to s to msg)) n = gbc_receive sha256 (msg\<lparr>gm_SenderID := s\<rparr>) n"
proof -
  let ?m = "wireToMessage (wire_to s to msg)" and ?m' = "msg\<lparr>gm_SenderID := s\<rparr>"
  show ?thesis
    unfolding gbc_receive_def
    by (cases "gm_Type msg"; simp add: wireToMessage_def)
      (auto intro!: handler_reads simp: wire_to_def fillWire_def blank_gbc_entry_def)
qed

lemma receive_turn_wire:
  assumes "decode (encode (wire_to s to msg)) = Some (wire_to s to msg)"
  shows "pt_inbox (receive_turn decode stop quit (encode (wire_to s to msg)) t) =
    (if pt_closed t \<and> (stop \<or> quit) \<or> s = pt_nodeID t \<or> (to \<noteq> 0 \<and> to \<noteq> pt_nodeID t) \<or> pt_capacity t \<le> length (pt_inbox t)
     then pt_inbox t else pt_inbox t @ [wireToMessage (wire_to s to msg)])"
  using assms by (auto simp: receive_turn_def)

text \<open>
  C30: a directed message reaches its addressee and nobody else.  When the encoding is inverted by the
  decoder and neither direct sending is used nor the publication fails, what a node sends to another
  through the transport is published; once it has been carried to the nodes, the addressee has one
  more message in its inbox, which it treats as the message that was sent, and the inbox of every
  other node is as it was, provided the addressee is not node 0 and has room in its inbox.
\<close>

theorem directed_messages_delivered:
  assumes "decode (encode (wire_to (pt_nodeID sender) to msg)) = Some (wire_to (pt_nodeID sender) to msg)"
    and "pt_Send encode False True to msg sender = (sender', ok)"
    and "\<not> pt_closed sender" and "to \<noteq> 0" and "to \<noteq> pt_nodeID sender"
  shows "ok \<and> (\<exists>data. pt_published sender' = pt_published sender @ [data] \<and>
    (\<forall>t stop quit. pt_nodeID t \<noteq> to \<longrightarrow> receive_turn decode stop quit data t = t) \<and>
    (\<forall>t stop quit. pt_nodeID t = to \<and> \<not> pt_closed t \<and> length (pt_inbox t) < pt_capacity t \<longrightarrow>
      (\<exists>m. pt_inbox (receive_turn decode stop quit data t) = pt_inbox t @ [m] \<and>
        (\<forall>sha256 n. gbc_receive sha256 m n = gbc_receive sha256 (msg\<lparr>gm_SenderID := pt_nodeID sender\<rparr>) n))))"
proof -
  let ?w = "wire_to (pt_nodeID sender) to msg"
  have sent: "sender' = sender\<lparr>pt_published := pt_published sender @ [encode ?w]\<rparr>" and ok
    using assms(2,3) by (auto simp: pt_Send_def pt_publish_def Let_def)
  have "receive_turn decode stop quit (encode ?w) t = t" if "pt_nodeID t \<noteq> to" for t stop quit
    using assms(1,4) that by (simp add: receive_turn_def)
  moreover have "pt_inbox (receive_turn decode stop quit (encode ?w) t) = pt_inbox t @ [wireToMessage ?w]"
    if "pt_nodeID t = to" "\<not> pt_closed t" "length (pt_inbox t) < pt_capacity t" for t stop quit
    using receive_turn_wire [of decode encode, OF assms(1)] assms(4,5) that by simp
  ultimately show ?thesis
    using sent \<open>ok\<close> receive_wire by auto
qed

text \<open>
  Node 0 has no address: the target 0 of a wire message stands for everyone, so what is
  sent to node 0 is put into the inbox of every other node.
\<close>

theorem messages_to_zero_reach_all:
  assumes "decode (encode (wire_to (pt_nodeID sender) 0 msg)) = Some (wire_to (pt_nodeID sender) 0 msg)"
    and "pt_Send encode False True 0 msg sender = (sender', ok)"
    and "\<not> pt_closed sender" and "pt_nodeID t \<noteq> pt_nodeID sender" and "\<not> pt_closed t" and "length (pt_inbox t) < pt_capacity t"
  shows "\<exists>data m. pt_published sender' = pt_published sender @ [data] \<and>
    pt_inbox (receive_turn decode stop quit data t) = pt_inbox t @ [m] \<and>
    (\<forall>sha256 n. gbc_receive sha256 m n = gbc_receive sha256 (msg\<lparr>gm_SenderID := pt_nodeID sender\<rparr>) n)"
proof -
  let ?w = "wire_to (pt_nodeID sender) 0 msg"
  have "sender' = sender\<lparr>pt_published := pt_published sender @ [encode ?w]\<rparr>"
    using assms(2,3) by (auto simp: pt_Send_def pt_publish_def Let_def)
  moreover have "pt_inbox (receive_turn decode stop quit (encode ?w) t) = pt_inbox t @ [wireToMessage ?w]"
    using receive_turn_wire [of decode encode, OF assms(1)] assms(4-6) by simp
  ultimately show ?thesis
    using receive_wire by auto
qed

definition toy_transport :: "u64 \<Rightarrow> p2p_transport" where
  "toy_transport i = the (NewP2PTransport True True i [0, 1, 2] [] 0)"

definition toy_attest :: gbc_message where
  "toy_attest = \<lparr> gm_Type = GMsgAttest, gm_SenderID = 1, gm_Entry = blank_gbc_entry 5,
     gm_Attestation = \<lparr> ga_SignerID = 1, ga_Signature = [7] \<rparr>, gm_SyncFrom = 0, gm_SyncEntries = [] \<rparr>"

theorem directed_messages_delivered_witness:
  "\<exists>data. pt_published (fst (pt_Send (\<lambda>w. [1]) False True 2 toy_attest (toy_transport 1))) = [] @ [data] \<and>
    receive_turn (\<lambda>d. Some (wire_to 1 2 toy_attest)) True False data (toy_transport 0) = toy_transport 0"
proof -
  have fields: "pt_nodeID (toy_transport i) = i" "\<not> pt_closed (toy_transport i)" "pt_published (toy_transport i) = []" for i
    by (simp_all add: toy_transport_def NewP2PTransport_def)
  obtain s' ok where "pt_Send (\<lambda>w. [1]) False True 2 toy_attest (toy_transport 1) = (s', ok)"
    by fastforce
  from directed_messages_delivered [of "\<lambda>d. Some (wire_to 1 2 toy_attest)", OF _ this] this show ?thesis
    by (auto simp: fields)
qed

theorem messages_to_zero_reach_all_witness:
  "\<exists>data m. pt_published (fst (pt_Send (\<lambda>w. [1]) False True 0 toy_attest (toy_transport 1))) = [] @ [data] \<and>
    pt_inbox (receive_turn (\<lambda>d. Some (wire_to 1 0 toy_attest)) True False data (toy_transport 2)) = [] @ [m]"
proof -
  have fields: "pt_nodeID (toy_transport i) = i" "\<not> pt_closed (toy_transport i)" "pt_published (toy_transport i) = []"
    "pt_inbox (toy_transport i) = []" "pt_capacity (toy_transport i) = 1024" for i
    by (simp_all add: toy_transport_def NewP2PTransport_def)
  obtain s' ok where "pt_Send (\<lambda>w. [1]) False True 0 toy_attest (toy_transport 1) = (s', ok)"
    by fastforce
  from messages_to_zero_reach_all [of "\<lambda>d. Some (wire_to 1 0 toy_attest)", OF _ this, where t = "toy_transport 2" and stop = True and quit = False] this show ?thesis
    by (auto simp: fields)
qed

end
