(* ===== verification/Merkle.thy ===== *)
theory Merkle
  imports Go_Prelude
begin

text \<open>
  Merkle trees over data shards (crypto/merkle.go): building the layers, the proof of a leaf and its
  verification, with SHA-256 as an argument.  Indices are Go \<open>int\<close>s, so they may be negative or too
  large; an index out of the range of a slice is a panic, the value \<open>None\<close>.
\<close>

section \<open>The tree\<close>

record merkle_tree =
  mt_Root :: bytes
  mt_Leaves :: "bytes list"
  mt_Layers :: "bytes list list"

fun next_layer :: "(bytes \<Rightarrow> bytes) \<Rightarrow> bytes list \<Rightarrow> bytes list" where
  "next_layer sha [] = []"
| "next_layer sha [x] = [sha (x @ x)]"
| "next_layer sha (x # y # zs) = sha (x @ y) # next_layer sha zs"

lemma length_next_layer [simp]: "length (next_layer sha xs) = (length xs + 1) div 2"
  by (induction sha xs rule: next_layer.induct) auto

function layers_from :: "(bytes \<Rightarrow> bytes) \<Rightarrow> bytes list \<Rightarrow> bytes list list" where
  "layers_from sha layer = (if 1 < length layer then layer # layers_from sha (next_layer sha layer) else [layer])"
  by pat_completeness auto
termination by (relation "measure (length \<circ> snd)") auto

declare layers_from.simps [simp del]

definition BuildMerkleTree :: "(bytes \<Rightarrow> bytes) \<Rightarrow> bytes list \<Rightarrow> merkle_tree option" where
  "BuildMerkleTree sha shards =
     (let leaves = map sha shards; layers = layers_from sha leaves
      in case last layers of [] \<Rightarrow> None
      | root # rest \<Rightarrow> Some \<lparr> mt_Root = root, mt_Leaves = leaves, mt_Layers = layers \<rparr>)"

section \<open>Proofs\<close>

definition at_index :: "bytes list \<Rightarrow> int \<Rightarrow> bytes option" where
  "at_index layer i = (if 0 \<le> i \<and> i < int (length layer) then Some (layer ! nat i) else None)"

text \<open>Go's division truncates towards zero.\<close>

definition half :: "int \<Rightarrow> int" where
  "half i = (if 0 \<le> i then i div 2 else - ((- i) div 2))"

fun proof_from :: "bytes list list \<Rightarrow> int \<Rightarrow> bytes list option" where
  "proof_from (layer # l # ls) i =
     (let sibling = (if i mod 2 = 0 then i + 1 else i - 1)
      in case at_index layer (if sibling < int (length layer) then sibling else i) of
           None \<Rightarrow> None
         | Some h \<Rightarrow> map_option (Cons h) (proof_from (l # ls) (half i)))"
| "proof_from layers i = Some []"

definition GetProof :: "merkle_tree \<Rightarrow> int \<Rightarrow> bytes list option" where
  "GetProof t i = proof_from (mt_Layers t) i"

fun climb :: "(bytes \<Rightarrow> bytes) \<Rightarrow> bytes \<Rightarrow> bytes list \<Rightarrow> int \<Rightarrow> bytes" where
  "climb sha h [] i = h"
| "climb sha h (s # ss) i = climb sha (sha (if i mod 2 = 0 then h @ s else s @ h)) ss (half i)"

definition VerifyProof :: "(bytes \<Rightarrow> bytes) \<Rightarrow> bytes \<Rightarrow> bytes \<Rightarrow> bytes list \<Rightarrow> int \<Rightarrow> bool" where
  "VerifyProof sha root shard path i \<longleftrightarrow> climb sha (sha shard) path i = root"

section \<open>Layers\<close>

lemma next_layer_even:
  "2 * k + 1 < length xs \<Longrightarrow> next_layer sha xs ! k = sha (xs ! (2 * k) @ xs ! (2 * k + 1))"
proof (induction sha xs arbitrary: k rule: next_layer.induct)
  case (3 sha x y zs)
  then show ?case by (cases k) auto
qed auto

lemma next_layer_last:
  "length xs = 2 * k + 1 \<Longrightarrow> next_layer sha xs ! k = sha (xs ! (2 * k) @ xs ! (2 * k))"
proof (induction sha xs arbitrary: k rule: next_layer.induct)
  case (3 sha x y zs)
  then show ?case by (cases k) auto
qed auto

text \<open>The hash above a position is the hash of the two below, where the last one may stand for both.\<close>

definition sibling_of :: "bytes list \<Rightarrow> nat \<Rightarrow> bytes" where
  "sibling_of layer i = (if even i then (if i + 1 < length layer then layer ! (i + 1) else layer ! i) else layer ! (i - 1))"

lemma parent_hash:
  assumes "i < length layer" and "1 < length layer"
  shows "next_layer sha layer ! (i div 2) =
    sha (if even i then layer ! i @ sibling_of layer i else sibling_of layer i @ layer ! i)"
proof (cases "even i")
  case True
  then obtain k where k: "i = 2 * k" by blast
  show ?thesis
  proof (cases "i + 1 < length layer")
    case True
    then show ?thesis
      using next_layer_even [of k layer sha] by (simp add: k sibling_of_def)
  next
    case False
    then have "length layer = 2 * k + 1"
      using assms(1) k by simp
    then show ?thesis
      using next_layer_last [of layer k sha] by (simp add: k sibling_of_def)
  qed
next
  case False
  then obtain k where "i = 2 * k + 1" by (auto elim: oddE)
  then show ?thesis
    using next_layer_even [of k layer sha] assms(1) by (simp add: sibling_of_def)
qed

lemma half_nat [simp]: "half (int i) = int (i div 2)"
  by (simp add: half_def zdiv_int)

lemma even_int: "int i mod 2 = 0 \<longleftrightarrow> even i"
  by presburger

lemma layers_from_ne [simp]: "layers_from sha layer \<noteq> []"
  by (subst layers_from.simps) simp

lemma proof_step:
  assumes "i < length layer" and "ls \<noteq> []"
  shows "proof_from (layer # ls) (int i) = map_option (Cons (sibling_of layer i)) (proof_from ls (int (i div 2)))"
proof -
  have "at_index layer (let s = (if int i mod 2 = 0 then int i + 1 else int i - 1) in if s < int (length layer) then s else int i) =
      Some (sibling_of layer i)"
    using assms(1) by (cases "even i") (auto simp: at_index_def sibling_of_def even_int Let_def nat_add_distrib nat_diff_distrib elim!: oddE)
  then show ?thesis
    using assms(2) by (cases ls) (simp_all add: Let_def)
qed

lemma proof_climbs:
  assumes "i < length layer"
  shows "\<exists>path. proof_from (layers_from sha layer) (int i) = Some path \<and>
    climb sha (layer ! i) path (int i) = hd (last (layers_from sha layer)) \<and> length path + 1 = length (layers_from sha layer)"
  using assms
proof (induction sha layer arbitrary: i rule: layers_from.induct)
  case (1 sha layer)
  show ?case
  proof (cases "1 < length layer")
    case True
    have unfold: "layers_from sha layer = layer # layers_from sha (next_layer sha layer)"
      using True by (subst layers_from.simps) simp
    have "i div 2 < length (next_layer sha layer)"
      using "1.prems" by simp
    from "1.IH" [OF True this] obtain path where path: "proof_from (layers_from sha (next_layer sha layer)) (int (i div 2)) = Some path"
      "climb sha (next_layer sha layer ! (i div 2)) path (int (i div 2)) = hd (last (layers_from sha (next_layer sha layer)))"
      "length path + 1 = length (layers_from sha (next_layer sha layer))" by blast
    have "proof_from (layers_from sha layer) (int i) = Some (sibling_of layer i # path)"
      unfolding unfold using proof_step [OF "1.prems" layers_from_ne] path(1) by simp
    moreover have "climb sha (layer ! i) (sibling_of layer i # path) (int i) = hd (last (layers_from sha layer))"
      using parent_hash [OF "1.prems" True, of sha] path(2) by (simp add: unfold even_int)
    ultimately show ?thesis
      using path(3) by (simp add: unfold)
  next
    case False
    then have "layers_from sha layer = [layer]" and "i = 0" and "layer \<noteq> []"
      using "1.prems" by (auto simp: layers_from.simps)
    then show ?thesis by (simp add: hd_conv_nth)
  qed
qed

lemma layers_from_root: "layer \<noteq> [] \<Longrightarrow> last (layers_from sha layer) \<noteq> []"
proof (induction sha layer rule: layers_from.induct)
  case (1 sha layer)
  show ?case
  proof (cases "1 < length layer")
    case True
    then have "0 < length (next_layer sha layer)" by simp
    then have "next_layer sha layer \<noteq> []" by blast
    with True "1.IH" show ?thesis
      by (subst layers_from.simps) simp
  next
    case False
    with "1.prems" show ?thesis
      by (subst layers_from.simps) simp
  qed
qed

lemma BuildMerkleTree_Some:
  "BuildMerkleTree sha shards = Some t \<Longrightarrow> shards \<noteq> [] \<and> mt_Leaves t = map sha shards \<and>
   mt_Layers t = layers_from sha (map sha shards) \<and> mt_Root t = hd (last (layers_from sha (map sha shards)))"
  by (auto simp: BuildMerkleTree_def Let_def layers_from.simps [of sha "[]"] split: list.splits)

text \<open>A tree of no shards is a panic, any other list of shards has a tree.\<close>

lemma BuildMerkleTree_defined: "BuildMerkleTree sha shards = None \<longleftrightarrow> shards = []"
proof
  show "shards = [] \<Longrightarrow> BuildMerkleTree sha shards = None"
    by (simp add: BuildMerkleTree_def layers_from.simps)
  show "BuildMerkleTree sha shards = None \<Longrightarrow> shards = []"
    using layers_from_root [of "map sha shards" sha] by (auto simp: BuildMerkleTree_def Let_def split: list.splits)
qed

text \<open>
  every proof of a tree verifies.  A list of shards that is not empty has a tree, each
  index of the list has a proof in it, and that proof verifies the shard at the index against the root.
\<close>

theorem merkle_proofs_verify:
  assumes "i < length shards"
  shows "\<exists>t path. BuildMerkleTree sha shards = Some t \<and> GetProof t (int i) = Some path \<and>
    length path + 1 = length (mt_Layers t) \<and> VerifyProof sha (mt_Root t) (shards ! i) path (int i)"
proof -
  have "shards \<noteq> []" using assms by auto
  then obtain t where t: "BuildMerkleTree sha shards = Some t"
    using BuildMerkleTree_defined [of sha shards] by auto
  note fields = BuildMerkleTree_Some [OF t]
  from assms have "i < length (map sha shards)" by simp
  from proof_climbs [OF this, of sha] show ?thesis
    using t fields assms by (auto simp: GetProof_def VerifyProof_def)
qed

theorem merkle_proofs_verify_witness:
  "\<exists>t path. BuildMerkleTree (\<lambda>x. x @ [9]) [[1], [2], [3]] = Some t \<and> GetProof t (int 2) = Some path \<and>
    length path + 1 = length (mt_Layers t) \<and> VerifyProof (\<lambda>x. x @ [9]) (mt_Root t) ([[1], [2], [3]] ! 2) path (int 2)"
  by (rule merkle_proofs_verify) simp

section \<open>Soundness\<close>

text \<open>What is hashed above the leaves of a tree, and on the way of a verification.\<close>

fun layer_inputs :: "bytes list \<Rightarrow> bytes set" where
  "layer_inputs [] = {}"
| "layer_inputs [x] = {x @ x}"
| "layer_inputs (x # y # zs) = insert (x @ y) (layer_inputs zs)"

definition tree_inputs :: "bytes list list \<Rightarrow> bytes set" where
  "tree_inputs layers = (\<Union>layer\<in>set layers. layer_inputs layer)"

fun climb_inputs :: "(bytes \<Rightarrow> bytes) \<Rightarrow> bytes \<Rightarrow> bytes list \<Rightarrow> int \<Rightarrow> bytes set" where
  "climb_inputs sha h [] i = {}"
| "climb_inputs sha h (s # ss) i = (let x = (if i mod 2 = 0 then h @ s else s @ h) in insert x (climb_inputs sha (sha x) ss (half i)))"

lemma layer_input_even: "2 * k + 1 < length xs \<Longrightarrow> xs ! (2 * k) @ xs ! (2 * k + 1) \<in> layer_inputs xs"
proof (induction xs arbitrary: k rule: layer_inputs.induct)
  case (3 x y zs)
  then show ?case by (cases k) auto
qed auto

lemma layer_input_last: "length xs = 2 * k + 1 \<Longrightarrow> xs ! (2 * k) @ xs ! (2 * k) \<in> layer_inputs xs"
proof (induction xs arbitrary: k rule: layer_inputs.induct)
  case (3 x y zs)
  then show ?case by (cases k) auto
qed auto

lemma parent_input:
  assumes "i < length layer" and "1 < length layer"
  shows "(if even i then layer ! i @ sibling_of layer i else sibling_of layer i @ layer ! i) \<in> layer_inputs layer"
proof (cases "even i")
  case True
  then obtain k where k: "i = 2 * k" by blast
  show ?thesis
    using assms(1) layer_input_even [of k layer] layer_input_last [of layer k]
    by (cases "i + 1 < length layer") (auto simp: k sibling_of_def)
next
  case False
  then obtain k where "i = 2 * k + 1" by (auto elim: oddE)
  then show ?thesis
    using layer_input_even [of k layer] assms(1) by (simp add: sibling_of_def)
qed

lemma sibling_in: "i < length layer \<Longrightarrow> sibling_of layer i \<in> set layer"
  by (auto simp: sibling_of_def)

lemma next_layer_hashes: "h \<in> set (next_layer sha xs) \<Longrightarrow> \<exists>x. h = sha x"
  by (induction sha xs rule: next_layer.induct) auto

lemma climb_sound:
  assumes "inj_on sha (tree_inputs (layers_from sha layer) \<union> climb_inputs sha h path (int i))" and "\<And>x. length (sha x) = 32"
    and "i < length layer" and "\<forall>x\<in>set layer. length x = 32" and "length h = 32"
    and "length path + 1 = length (layers_from sha layer)"
    and "climb sha h path (int i) = hd (last (layers_from sha layer))"
  shows "h = layer ! i"
  using assms
proof (induction sha layer arbitrary: h path i rule: layers_from.induct)
  case (1 sha layer)
  show ?case
  proof (cases "1 < length layer")
    case True
    have unfold: "layers_from sha layer = layer # layers_from sha (next_layer sha layer)"
      using True by (subst layers_from.simps) simp
    obtain s ss where path: "path = s # ss"
      using "1.prems"(6) by (cases path) (simp_all add: unfold)
    define x where "x = (if even i then h @ s else s @ h)"
    define y where "y = (if even i then layer ! i @ sibling_of layer i else sibling_of layer i @ layer ! i)"
    have inputs: "climb_inputs sha h path (int i) = insert x (climb_inputs sha (sha x) ss (int (i div 2)))"
      "tree_inputs (layers_from sha layer) = layer_inputs layer \<union> tree_inputs (layers_from sha (next_layer sha layer))"
      by (simp_all add: path x_def even_int Let_def unfold tree_inputs_def)
    have "sha x = next_layer sha layer ! (i div 2)"
    proof (rule "1.IH" [OF True])
      show "inj_on sha (tree_inputs (layers_from sha (next_layer sha layer)) \<union> climb_inputs sha (sha x) ss (int (i div 2)))"
        using "1.prems"(1) inputs by (auto elim: inj_on_subset)
      show "\<forall>x\<in>set (next_layer sha layer). length x = 32"
        using next_layer_hashes "1.prems"(2) by metis
      show "climb sha (sha x) ss (int (i div 2)) = hd (last (layers_from sha (next_layer sha layer)))"
        using "1.prems"(7) by (simp add: path x_def even_int unfold)
    qed (use "1.prems" in \<open>simp_all add: path unfold\<close>)
    then have "sha x = sha y"
      using parent_hash [OF "1.prems"(3) True, of sha] by (simp add: y_def)
    moreover have "x \<in> tree_inputs (layers_from sha layer) \<union> climb_inputs sha h path (int i)"
      "y \<in> tree_inputs (layers_from sha layer) \<union> climb_inputs sha h path (int i)"
      using parent_input [OF "1.prems"(3) True] by (simp_all add: inputs y_def)
    ultimately have "x = y"
      using "1.prems"(1) by (simp add: inj_on_def)
    moreover have "length (layer ! i) = 32"
      using "1.prems"(3,4) by simp
    moreover have "length (sibling_of layer i) = 32"
      using "1.prems"(3,4) sibling_in by blast
    ultimately show ?thesis
      using "1.prems"(5) by (auto simp: x_def y_def split: if_splits)
  next
    case False
    then have "layers_from sha layer = [layer]" and "i = 0" and "layer \<noteq> []"
      using "1.prems"(3) by (auto simp: layers_from.simps)
    then show ?thesis
      using "1.prems"(6,7) by (simp add: hd_conv_nth)
  qed
qed

text \<open>
  A proof of the length of the tree binds the index: where no two of the inputs hashed
  by the tree and by the verification collide, the shard that verifies at an index is the shard
  of the tree there.
\<close>

theorem merkle_proofs_sound:
  assumes "BuildMerkleTree sha shards = Some t" and "VerifyProof sha (mt_Root t) shard path (int i)"
    and "length path + 1 = length (mt_Layers t)" and "i < length shards" and "\<And>x. length (sha x) = 32"
    and "inj_on sha (insert shard (set shards) \<union> tree_inputs (mt_Layers t) \<union> climb_inputs sha (sha shard) path (int i))"
  shows "shard = shards ! i"
proof -
  note fields = BuildMerkleTree_Some [OF assms(1)]
  have "sha shard = map sha shards ! i"
  proof (rule climb_sound)
    show "inj_on sha (tree_inputs (layers_from sha (map sha shards)) \<union> climb_inputs sha (sha shard) path (int i))"
      using assms(6) fields by (auto elim: inj_on_subset)
  qed (use assms fields in \<open>auto simp: VerifyProof_def\<close>)
  then show ?thesis
    using assms(4,6) by (auto simp: inj_on_def)
qed

definition toy_sha :: "bytes \<Rightarrow> bytes" where
  "toy_sha x = take 32 (of_nat (length x) # x @ replicate 32 7)"

theorem merkle_proofs_sound_witness:
  "[1] = [[1], [2 :: u8]] ! 0"
proof (rule merkle_proofs_sound)
  show "BuildMerkleTree toy_sha [[1], [2]] = Some \<lparr> mt_Root = toy_sha (toy_sha [1] @ toy_sha [2]),
      mt_Leaves = [toy_sha [1], toy_sha [2]], mt_Layers = [[toy_sha [1], toy_sha [2]], [toy_sha (toy_sha [1] @ toy_sha [2])]] \<rparr>"
    by (simp add: BuildMerkleTree_def layers_from.simps Let_def)
  show "inj_on toy_sha (insert [1] (set [[1], [2]]) \<union>
      tree_inputs (mt_Layers \<lparr> mt_Root = toy_sha (toy_sha [1] @ toy_sha [2]), mt_Leaves = [toy_sha [1], toy_sha [2]],
        mt_Layers = [[toy_sha [1], toy_sha [2]], [toy_sha (toy_sha [1] @ toy_sha [2])]] \<rparr>) \<union>
      climb_inputs toy_sha (toy_sha [1]) [toy_sha [2]] (int 0))"
    unfolding inj_on_def tree_inputs_def by code_simp
qed (simp_all add: VerifyProof_def toy_sha_def)

section \<open>What a root does not bind\<close>

text \<open>
  The root does not determine the shards: repeating the last of an odd number of shards leaves
  it as it is.
\<close>

lemma next_layer_repeat: "odd (length xs) \<Longrightarrow> next_layer sha (xs @ [last xs]) = next_layer sha xs"
  by (induction sha xs rule: next_layer.induct) auto

theorem repeated_shard_same_root:
  assumes "odd (length shards)" and "1 < length shards"
  shows "map_option mt_Root (BuildMerkleTree sha (shards @ [last shards])) = map_option mt_Root (BuildMerkleTree sha shards)"
proof -
  define leaves where "leaves = map sha shards"
  have leaves: "odd (length leaves)" "1 < length leaves" and ne: "shards \<noteq> []"
    using assms by (auto simp: leaves_def)
  have more: "map sha (shards @ [last shards]) = leaves @ [last leaves]"
    using ne by (simp add: leaves_def last_map)
  have "layers_from sha leaves = leaves # layers_from sha (next_layer sha leaves)"
    using leaves by (subst layers_from.simps) simp
  moreover have "layers_from sha (leaves @ [last leaves]) = (leaves @ [last leaves]) # layers_from sha (next_layer sha leaves)"
    using leaves by (subst layers_from.simps) (auto simp: next_layer_repeat)
  ultimately show ?thesis
    unfolding BuildMerkleTree_def Let_def more leaves_def [symmetric] by (simp split: list.split)
qed

theorem repeated_shard_same_root_witness:
  "map_option mt_Root (BuildMerkleTree toy_sha ([[1], [2], [3]] @ [last [[1], [2], [3]]])) =
   map_option mt_Root (BuildMerkleTree toy_sha [[1], [2], [3]])"
  by (rule repeated_shard_same_root) simp_all

text \<open>
  The length of a proof is not checked and leaves are not marked: two leaves of a tree, taken
  together as one shard, verify against its root with an empty proof.
\<close>

lemma inner_node_verifies:
  "BuildMerkleTree sha [a, b] = Some t \<Longrightarrow> VerifyProof sha (mt_Root t) (sha a @ sha b) [] i"
  by (auto simp: BuildMerkleTree_def layers_from.simps VerifyProof_def Let_def)

end
