(* ===== verification/Node_Inbox.thy ===== *)
theory Node_Inbox
  imports Topic_Validation Engine_Properties
begin

text \<open>
  An engine behind its topic: the start of an engine and its run loop (consensus/hotstuff/engine.go) put
  together with the gossip layer.  Gossiped messages pass the validator and enter the bounded queue of
  the topic, direct streams enter it unchecked, and the loop takes messages out of it, one and then a
  batch of up to 64 more.  A step of the node is a step of the gossip layer, a turn of the loop, or a
  step of the engine on its own (a timer, a proposal of the mempool, an installed validator set).
\<close>

section \<open>The loop\<close>

definition pop_queue :: "string \<Rightarrow> 's p2p \<Rightarrow> (bytes \<times> 's p2p) option" where
  "pop_queue topic n = (case fmlookup (p2_chans n) topic of
     Some (data # q, cap) \<Rightarrow> Some (data, n\<lparr>p2_chans := fmupd topic (q, cap) (p2_chans n)\<rparr>)
   | _ \<Rightarrow> None)"

text \<open>A message that does not decode is dropped.\<close>

definition handle_bytes :: "topic_env \<Rightarrow> bytes \<Rightarrow> engine \<Rightarrow> engine option" where
  "handle_bytes env data e = (case tv_decode env data of None \<Rightarrow> Some e
     | Some m \<Rightarrow> handleMessage (tv_engine env) (Some m) e)"

fun drainConsensusBatch :: "topic_env \<Rightarrow> string \<Rightarrow> nat \<Rightarrow> engine p2p \<times> engine \<Rightarrow> (engine p2p \<times> engine) option" where
  "drainConsensusBatch env topic 0 s = Some s"
| "drainConsensusBatch env topic (Suc maxBatch) s =
     (case pop_queue topic (fst s) of None \<Rightarrow> Some s
      | Some (data, n) \<Rightarrow> (case handle_bytes env data (snd s) of None \<Rightarrow> None
         | Some e \<Rightarrow> drainConsensusBatch env topic maxBatch (n, e)))"

text \<open>The branch of the loop that received a message; a first message that does not decode ends the turn.\<close>

definition loop_turn :: "topic_env \<Rightarrow> string \<Rightarrow> engine p2p \<times> engine \<Rightarrow> (engine p2p \<times> engine) option" where
  "loop_turn env topic s =
     (case pop_queue topic (fst s) of None \<Rightarrow> Some s
      | Some (data, n) \<Rightarrow>
        if tv_decode env data = None then Some (n, snd s)
        else (case handle_bytes env data (snd s) of None \<Rightarrow> None
          | Some e \<Rightarrow> drainConsensusBatch env topic 64 (n, e)))"

text \<open>
  \<open>Start\<close> registers the policy, ignoring an error, and the loop subscribes; the result is nothing
  when that fails, and the engine then handles no message.
\<close>

definition start_engine :: "bool \<Rightarrow> bool \<Rightarrow> bool \<Rightarrow> string \<Rightarrow> int \<Rightarrow> u64 \<Rightarrow> engine p2p \<Rightarrow> engine p2p option" where
  "start_engine router_ok join_ok subscribe_ok topic buf i n =
     (case SubscribeTopic router_ok join_ok subscribe_ok topic buf (fst (RegisterTopicPolicy router_ok topic (engine_policy i) n)) of
        (n', True) \<Rightarrow> Some n' | (n', False) \<Rightarrow> None)"

section \<open>Steps of a node\<close>

inductive node_step :: "verifier \<Rightarrow> string \<Rightarrow> engine p2p \<times> engine \<Rightarrow> engine p2p \<times> engine \<Rightarrow> bool" for ver topic where
  gossip: "validatePubSubMessage env e now t data n = (True, n') \<Longrightarrow> node_step ver topic (n, e) (readSubscription t own data n', e)"
| rejected: "validatePubSubMessage env e now t data n = (False, n') \<Longrightarrow> node_step ver topic (n, e) (n', e)"
| stream: "node_step ver topic (n, e) (handleStream data n, e)"
| vote_stream: "node_step ver topic (n, e) (handleVoteStream data n, e)"
| turn: "ev_verify (tv_engine env) = ver \<Longrightarrow> loop_turn env topic s = Some s' \<Longrightarrow> node_step ver topic s s'"
| certs: "ev_verify env = ver \<Longrightarrow> handleMempoolProposal env cs e = Some e' \<Longrightarrow> node_step ver topic (n, e) (n, e')"
| timer: "ev_verify env = ver \<Longrightarrow> on_timer env view e = Some e' \<Longrightarrow> node_step ver topic (n, e) (n, e')"
| epoch: "ev_verify env = ver \<Longrightarrow> onEpochChangeWithVRFKeys env vs ks e = Some e' \<Longrightarrow> node_step ver topic (n, e) (n, e')"

section \<open>The loop handles the queue in order\<close>

definition queue_of :: "string \<Rightarrow> 's p2p \<Rightarrow> bytes list" where
  "queue_of topic n = (case fmlookup (p2_chans n) topic of Some (q, cap) \<Rightarrow> q | None \<Rightarrow> [])"

fun handle_all :: "topic_env \<Rightarrow> bytes list \<Rightarrow> engine \<Rightarrow> engine option" where
  "handle_all env [] e = Some e"
| "handle_all env (data # q) e = (case handle_bytes env data e of None \<Rightarrow> None | Some e' \<Rightarrow> handle_all env q e')"

lemma pop_queue_queue:
  "pop_queue topic n = None \<longleftrightarrow> queue_of topic n = []"
  "pop_queue topic n = Some (data, n') \<Longrightarrow> queue_of topic n = data # queue_of topic n'"
  by (auto simp: pop_queue_def queue_of_def split: option.splits list.splits)

lemma pop_queue_bounded: "queues_bounded n \<Longrightarrow> pop_queue topic n = Some (data, n') \<Longrightarrow> queues_bounded n'"
  by (fastforce simp: queues_bounded_def pop_queue_def split: option.splits list.splits if_splits)

lemma drain_handles_all:
  "(case drainConsensusBatch env topic k s of None \<Rightarrow> handle_all env (take k (queue_of topic (fst s))) (snd s) = None
    | Some s' \<Rightarrow> handle_all env (take k (queue_of topic (fst s))) (snd s) = Some (snd s') \<and>
        queue_of topic (fst s') = drop k (queue_of topic (fst s)))"
proof (induction env topic k s rule: drainConsensusBatch.induct)
  case (2 env topic k s)
  show ?case
  proof (cases "pop_queue topic (fst s)")
    case None
    then have "queue_of topic (fst s) = []"
      using pop_queue_queue(1) by metis
    with None show ?thesis by simp
  next
    case (Some p)
    obtain data n where p: "p = (data, n)" by (cases p)
    have queue: "queue_of topic (fst s) = data # queue_of topic n"
      using pop_queue_queue(2) Some p by metis
    show ?thesis
    proof (cases "handle_bytes env data (snd s)")
      case None
      with Some p queue show ?thesis by simp
    next
      case (Some e)
      with \<open>pop_queue topic (fst s) = Some p\<close> p queue "2.IH" [OF \<open>pop_queue topic (fst s) = Some p\<close> p [symmetric] Some] show ?thesis
        by (auto split: option.splits)
    qed
  qed
qed simp

text \<open>
  C40: batches change nothing.  A turn of the loop that starts with a message that decodes leaves the
  engine as if the first 65 messages of the queue, as it is when the turn starts, had been handled one by one in
  their order, with a panic in exactly the same cases, and leaves exactly the others in the queue.
\<close>

theorem turn_handles_in_order:
  assumes "queue_of topic n = data # q" and "tv_decode env data \<noteq> None"
  shows "map_option snd (loop_turn env topic (n, e)) = handle_all env (take 65 (data # q)) e \<and>
    (\<forall>n' e'. loop_turn env topic (n, e) = Some (n', e') \<longrightarrow> queue_of topic n' = drop 65 (data # q))"
proof -
  obtain n1 where pop: "pop_queue topic n = Some (data, n1)" and q: "queue_of topic n1 = q"
  proof (cases "pop_queue topic n")
    case None
    with pop_queue_queue(1) assms(1) show thesis by (metis list.distinct(1))
  next
    case (Some p)
    obtain d n1 where p: "p = (d, n1)" by (cases p)
    have "data # q = d # queue_of topic n1"
      using pop_queue_queue(2) Some p assms(1) by metis
    with Some p that show thesis by simp
  qed
  have turn: "loop_turn env topic (n, e) = (case handle_bytes env data e of None \<Rightarrow> None
      | Some e1 \<Rightarrow> drainConsensusBatch env topic 64 (n1, e1))"
    using pop assms(2) by (auto simp: loop_turn_def)
  have split: "take 65 (data # q) = data # take 64 q" "drop 65 (data # q) = drop 64 q"
    by (simp_all add: numeral_eq_Suc)
  have drained: "map_option snd (drainConsensusBatch env topic 64 (n1, e1)) = handle_all env (take 64 q) e1 \<and>
      (\<forall>s'. drainConsensusBatch env topic 64 (n1, e1) = Some s' \<longrightarrow> queue_of topic (fst s') = drop 64 q)" for e1
    using drain_handles_all [where k = 64 and s = "(n1, e1)" and env = env and topic = topic] q
    by (cases "drainConsensusBatch env topic 64 (n1, e1)") simp_all
  have "map_option snd (loop_turn env topic (n, e)) = handle_all env (take 65 (data # q)) e"
    unfolding turn split using drained by (cases "handle_bytes env data e") simp_all
  moreover have "queue_of topic n' = drop 65 (data # q)" if "loop_turn env topic (n, e) = Some (n', e')" for n' e'
    using that drained unfolding turn split by (cases "handle_bytes env data e") fastforce+
  ultimately show ?thesis by blast
qed

section \<open>Runs of a node\<close>

lemma handle_bytes_run:
  "ev_verify (tv_engine env) = ver \<Longrightarrow> handle_bytes env data e = Some e' \<Longrightarrow> (engine_step ver)\<^sup>*\<^sup>* e e'"
  by (auto simp: handle_bytes_def intro: engine_step.message split: option.splits)

lemma drain_run:
  "ev_verify (tv_engine env) = ver \<Longrightarrow> drainConsensusBatch env topic k s = Some s' \<Longrightarrow>
   (engine_step ver)\<^sup>*\<^sup>* (snd s) (snd s') \<and> (queues_bounded (fst s) \<longrightarrow> queues_bounded (fst s'))"
proof (induction env topic k s rule: drainConsensusBatch.induct)
  case (2 env topic k s)
  show ?case
  proof (cases "pop_queue topic (fst s)")
    case None
    with 2 show ?thesis by simp
  next
    case (Some p)
    obtain data n where p: "p = (data, n)" by (cases p)
    obtain e where e: "handle_bytes env data (snd s) = Some e" and rest: "drainConsensusBatch env topic k (n, e) = Some s'"
      using "2.prems"(2) Some p by (auto split: option.splits)
    from "2.IH" [OF Some p [symmetric] e "2.prems"(1) rest] handle_bytes_run [OF "2.prems"(1) e] pop_queue_bounded Some p
    show ?thesis by (metis fst_conv rtranclp_trans snd_conv)
  qed
qed auto

lemma turn_run:
  assumes "ev_verify (tv_engine env) = ver" and "loop_turn env topic s = Some s'"
  shows "(engine_step ver)\<^sup>*\<^sup>* (snd s) (snd s') \<and> (queues_bounded (fst s) \<longrightarrow> queues_bounded (fst s'))"
proof (cases "pop_queue topic (fst s)")
  case None
  with assms(2) show ?thesis by (simp add: loop_turn_def)
next
  case (Some p)
  obtain data n where p: "p = (data, n)" by (cases p)
  have bounded: "queues_bounded (fst s) \<longrightarrow> queues_bounded n"
    using pop_queue_bounded Some p by blast
  show ?thesis
  proof (cases "tv_decode env data")
    case None
    with assms(2) Some p bounded show ?thesis by (auto simp: loop_turn_def)
  next
    case (Some m)
    obtain e where e: "handle_bytes env data (snd s) = Some e" and rest: "drainConsensusBatch env topic 64 (n, e) = Some s'"
      using assms(2) \<open>pop_queue topic (fst s) = Some p\<close> p Some by (auto simp: loop_turn_def split: option.splits)
    from drain_run [OF assms(1) rest] handle_bytes_run [OF assms(1) e] bounded show ?thesis
      by (auto intro: rtranclp_trans)
  qed
qed

lemma validate_chans: "p2_chans (snd (validatePubSubMessage env s now t data n)) = p2_chans n"
  by (simp add: validatePubSubMessage_def incValidatorStat_def isRateLimited_def isReplay_def Let_def split_beta
      split: option.splits sum.splits prod.splits bool.splits)

lemma validate_bounded: "validatePubSubMessage env s now t data n = (ok, n') \<Longrightarrow> queues_bounded n \<Longrightarrow> queues_bounded n'"
  using validate_chans [of env s now t data n] by (simp add: queues_bounded_def)

text \<open>
  Behind its topic a node runs the engine and nothing else.  Whatever is gossiped or sent to it,
  in every run of a node the engine has made a run of its own, so everything that holds in every run
  of the engine holds in the node, and no queue ever holds more than its capacity.
\<close>

theorem node_runs_are_engine_runs:
  assumes "(node_step ver topic)\<^sup>*\<^sup>* (n, e) (n', e')"
  shows "(engine_step ver)\<^sup>*\<^sup>* e e' \<and> (queues_bounded n \<longrightarrow> queues_bounded n')"
  using assms
proof (induction "(n', e')" arbitrary: n' e' rule: rtranclp_induct)
  case base
  then show ?case by simp
next
  case (step s)
  obtain n1 e1 where s: "s = (n1, e1)" by (cases s)
  have "(engine_step ver)\<^sup>*\<^sup>* e1 e' \<and> (queues_bounded n1 \<longrightarrow> queues_bounded n')"
    using step(2) unfolding s
  proof (cases rule: node_step.cases)
    case (gossip env now t data n2 own)
    then show ?thesis using validate_bounded [OF gossip(3)] readSubscription_bounded by auto
  next
    case (rejected env now t data)
    then show ?thesis using validate_bounded [OF rejected(2)] by auto
  next
    case (turn env)
    then show ?thesis using turn_run by fastforce
  qed (auto simp: handleStream_def handleVoteStream_def stream_into_bounded intro: engine_step.intros)
  with step(3) [OF s] show ?case by (meson rtranclp_trans)
qed

text \<open>A vote that arrives on a stream is queued and handled in the next turn of the loop.\<close>

definition toy_lane :: string where
  "toy_lane = ''net/instance/0''"

definition toy_started :: "engine p2p" where
  "toy_started = the (start_engine True True True toy_lane 8 0 NewP2PNetwork)"

definition toy_turned :: "engine p2p \<times> engine" where
  "toy_turned = the (loop_turn toy_topic_env toy_lane (handleVoteStream [2] toy_started, toy_engine 1))"

lemma toy_channel:
  assumes "fmlookup (p2_chans n) toy_lane = Some (q, 8)" and "length q < 8"
    and "data \<noteq> []" and "length data \<le> 1048576"
  shows "fmlookup (p2_chans (handleVoteStream data n)) toy_lane = Some (q @ [data], 8)"
proof -
  have "isInstanceConsensusTopic toy_lane" by code_simp
  with assms show ?thesis by (intro streams_bypass_policies) simp_all
qed

lemma toy_started_channel: "fmlookup (p2_chans toy_started) toy_lane = Some ([], 8)"
  by (simp add: toy_started_def start_engine_def SubscribeTopic_def RegisterTopicPolicy_def ensureTopicValidator_def NewP2PNetwork_def)

theorem turn_handles_in_order_witness:
  "map_option snd (loop_turn toy_topic_env toy_lane (handleVoteStream [3] (handleVoteStream [2] toy_started), toy_engine 1)) =
     handle_all toy_topic_env [[2], [3]] (toy_engine 1)"
proof -
  have "queue_of toy_lane (handleVoteStream [3] (handleVoteStream [2] toy_started)) = [2] # [[3]]"
    using toy_channel [OF toy_channel [OF toy_started_channel, of "[2]"], of "[3]"] by (simp add: queue_of_def)
  moreover have "tv_decode toy_topic_env [2] \<noteq> None"
    by (simp add: toy_topic_env_def)
  ultimately show ?thesis
    using turn_handles_in_order [of toy_lane "handleVoteStream [3] (handleVoteStream [2] toy_started)" "[2]" "[[3]]" toy_topic_env "toy_engine 1"]
    by simp
qed

theorem node_runs_are_engine_runs_witness:
  "(engine_step (ev_verify toy_env))\<^sup>*\<^sup>* (toy_engine 1) (snd toy_turned) \<and> (queues_bounded toy_started \<longrightarrow> queues_bounded (fst toy_turned)) \<and>
   queue_of toy_lane (handleVoteStream [2] toy_started) = [[2]]"
proof -
  have channel: "fmlookup (p2_chans (handleVoteStream [2] toy_started)) toy_lane = Some ([[2]], 8)"
    using toy_channel [OF toy_started_channel, of "[2]"] by simp
  have env: "tv_decode toy_topic_env [2] = Some (toy_message 2)" "tv_engine toy_topic_env = toy_env"
    by (simp_all add: toy_topic_env_def)
  have "handleMessage toy_env (Some (toy_message 2)) (toy_engine 1) \<noteq> None" by code_simp
  moreover have "drainConsensusBatch env topic k (n, e) \<noteq> None" if "pop_queue topic n = None" for env topic k n e
    using that by (cases k) simp_all
  ultimately have "loop_turn toy_topic_env toy_lane (handleVoteStream [2] toy_started, toy_engine 1) \<noteq> None"
    by (auto simp: loop_turn_def pop_queue_def channel env handle_bytes_def split: option.split)
  then have turned: "loop_turn toy_topic_env toy_lane (handleVoteStream [2] toy_started, toy_engine 1) = Some toy_turned"
    by (simp add: toy_turned_def)
  have "ev_verify (tv_engine toy_topic_env) = ev_verify toy_env"
    by (simp add: toy_topic_env_def)
  then have "node_step (ev_verify toy_env) toy_lane (handleVoteStream [2] toy_started, toy_engine 1) toy_turned"
    using turned by (rule node_step.turn)
  then have "(node_step (ev_verify toy_env) toy_lane)\<^sup>*\<^sup>* (toy_started, toy_engine 1) (fst toy_turned, snd toy_turned)"
    using node_step.vote_stream [of "ev_verify toy_env" toy_lane toy_started "toy_engine 1" "[2]"]
    by (metis converse_rtranclp_into_rtranclp prod.collapse r_into_rtranclp)
  moreover have "queue_of toy_lane (handleVoteStream [2] toy_started) = [[2]]"
    by (simp add: queue_of_def channel)
  ultimately show ?thesis
    using node_runs_are_engine_runs by blast
qed

end
