(* ===== verification/Node_Config.thy ===== *)
theory Node_Config
  imports Genesis_Manifest
begin

text \<open>
  The configuration of a node (bootstrap/config.go): the checks of the parsed flags, and the peer maps
  read from the flag \<open>--peers\<close>.  The parser of the flags is Go's library; the record holds the values it
  delivers, before and after the checks.  Errors are texts, without the values that are formatted into them.
\<close>

section \<open>Flags\<close>

record engine_config =
  ec_NodeID :: u64
  ec_Port :: int
  ec_HTTPPort :: int
  ec_HTTPListenAddr :: string
  ec_BasePort :: int
  ec_TotalNodes :: u64
  ec_InitialValidators :: u64
  ec_Peers :: string
  ec_Manifest :: string
  ec_Instances :: u64
  ec_BatchTxs :: int
  ec_TimeoutMs :: int
  ec_InboundMsgQueue :: int
  ec_InboundTxQueue :: int
  ec_OrdererPendingCap :: int
  ec_ConsensusTopic :: string
  ec_AdaptiveEnabled :: bool
  ec_AdaptivePolicy :: string
  ec_AdaptiveIntervalMs :: int
  ec_AdaptiveScript :: string
  ec_AdaptivePolicyURL :: string
  ec_AdaptiveTracePath :: string
  ec_AdminPprofEnabled :: bool

definition allowedAdaptivePolicies :: "string list" where
  "allowedAdaptivePolicies = [''off'', ''safe-baseline'', ''scripted'', ''http'', ''facmac-http'', ''sfac'']"

definition trimmed_policy :: "engine_config \<Rightarrow> string" where
  "trimmed_policy c = (if is_blank (ec_AdaptivePolicy c) then ''off'' else TrimSpace (ec_AdaptivePolicy c))"

text \<open>The checks in the order of the code; the first that fails is the error.\<close>

definition config_checks :: "engine_config \<Rightarrow> (bool \<times> string) list" where
  "config_checks c =
     [(ec_TotalNodes c = 0, ''total-nodes must be greater than 0''),
      (ec_InitialValidators c = 0, ''initial-validators must be greater than 0''),
      (ec_InitialValidators c > ec_TotalNodes c, ''initial-validators cannot exceed total-nodes''),
      (ec_Instances c = 0, ''instances must be greater than 0''),
      (ec_BatchTxs c \<le> 0, ''batch-txs must be greater than 0''),
      (ec_TimeoutMs c \<le> 0, ''timeout-ms must be greater than 0''),
      (ec_InboundMsgQueue c \<le> 0, ''inbound-msg-queue must be greater than 0''),
      (ec_InboundTxQueue c \<le> 0, ''inbound-tx-queue must be greater than 0''),
      (ec_OrdererPendingCap c \<le> 0, ''orderer-pending-cap must be greater than 0''),
      (is_blank (ec_HTTPListenAddr c), ''http-listen-addr must not be empty''),
      (is_blank (ec_ConsensusTopic c), ''consensus-topic must not be empty''),
      (ec_AdaptiveIntervalMs c \<le> 0, ''adaptive-interval-ms must be greater than 0''),
      (trimmed_policy c \<notin> set allowedAdaptivePolicies, ''unsupported adaptive-policy''),
      (ec_AdaptiveEnabled c \<and> trimmed_policy c = ''scripted'' \<and> is_blank (ec_AdaptiveScript c), ''adaptive-script must not be empty''),
      (ec_AdaptiveEnabled c \<and> trimmed_policy c \<in> {''http'', ''facmac-http''} \<and> is_blank (ec_AdaptivePolicyURL c),
         ''adaptive-policy-url must not be empty'')]"

definition ParseEngineConfig :: "engine_config \<Rightarrow> string + engine_config" where
  "ParseEngineConfig c = (case find fst (config_checks c) of Some (b, err) \<Rightarrow> Inl err
     | None \<Rightarrow> Inr (c\<lparr>ec_AdaptivePolicy := trimmed_policy c\<rparr>))"

section \<open>Peers\<close>

text \<open>\<open>SplitN (part, "=", 2)\<close>: nothing when there is no equality sign.\<close>

definition split_pair :: "string \<Rightarrow> (string \<times> string) option" where
  "split_pair s = (let k = takeWhile (\<lambda>c. c \<noteq> CHR ''='') s
     in if k = s then None else Some (k, drop (length k + 1) s))"

definition parse_u64 :: "string \<Rightarrow> u64 option" where
  "parse_u64 s = (if s = [] \<or> \<not> list_all is_digit s \<or> 2 ^ 64 \<le> digits_value s then None else Some (of_nat (digits_value s)))"

text \<open>Both parsers read the entries in order; \<open>f\<close> turns the address of an entry into its value.\<close>

fun parse_entries :: "(u64 \<Rightarrow> string \<Rightarrow> string + 'v) \<Rightarrow> string list \<Rightarrow> (u64, 'v) fmap \<Rightarrow> string + (u64, 'v) fmap" where
  "parse_entries f [] acc = Inr acc"
| "parse_entries f (item # items) acc =
     (if is_blank item then parse_entries f items acc
      else case split_pair (TrimSpace item) of None \<Rightarrow> Inl ''invalid peer entry''
      | Some (k, v) \<Rightarrow>
        (case parse_u64 (TrimSpace k) of None \<Rightarrow> Inl ''invalid peer id''
         | Some i \<Rightarrow> if is_blank v then Inl ''empty address''
             else (case f i (TrimSpace v) of Inl err \<Rightarrow> Inl err | Inr x \<Rightarrow> parse_entries f items (fmupd i x acc))))"

definition parsePeersMultiaddr :: "('s, 'p, 'a) codec \<Rightarrow> string \<Rightarrow> string + (u64, addr_info) fmap" where
  "parsePeersMultiaddr co peers = parse_entries (\<lambda>i addr. case co_multiaddr co addr of None \<Rightarrow> Inl ''invalid multiaddr''
     | Some a \<Rightarrow> (case co_addr_info co a of None \<Rightarrow> Inl ''invalid p2p address'' | Some info \<Rightarrow> Inr info))
     (split_text (CHR '','') peers) fmempty"

text \<open>Only the legacy parser refuses an empty map.\<close>

definition parsePeersLegacy :: "string \<Rightarrow> string + (u64, string) fmap" where
  "parsePeersLegacy peers = (case parse_entries (\<lambda>i addr. Inr addr) (split_text (CHR '','') peers) fmempty of
     Inl err \<Rightarrow> Inl err | Inr m \<Rightarrow> if m = fmempty then Inl ''peer map is empty'' else Inr m)"

definition config_peer_map :: "('s, 'p, 'a) codec \<Rightarrow> engine_config \<Rightarrow> string + (u64, addr_info) fmap" where
  "config_peer_map co c = (if is_blank (ec_Peers c) then Inr fmempty else parsePeersMultiaddr co (ec_Peers c))"

definition int_text :: "int \<Rightarrow> string" where
  "int_text k = (if k < 0 then ''-'' @ decimal (nat (- k)) else decimal (nat k))"

text \<open>Without the flag the legacy map gives every node a port above the base port; ports are Go \<open>int\<close>s.\<close>

definition BuildPeerMapLegacy :: "engine_config \<Rightarrow> string + (u64, string) fmap" where
  "BuildPeerMapLegacy c = (if is_blank (ec_Peers c)
     then Inr (fmap_of_list (map (\<lambda>i. (of_nat i, ''127.0.0.1:'' @ int_text (ec_BasePort c + int i))) [0..<unat (ec_TotalNodes c)]))
     else parsePeersLegacy (ec_Peers c))"

section \<open>What the checks ensure\<close>

lemma find_none_all: "find P xs = None \<Longrightarrow> x \<in> set xs \<Longrightarrow> \<not> P x"
  by (auto simp: find_None_iff)

lemma accepted_config:
  assumes "ParseEngineConfig c = Inr c'"
  shows "c' = c\<lparr>ec_AdaptivePolicy := trimmed_policy c\<rparr>" and "\<forall>x\<in>set (config_checks c). \<not> fst x"
  using assms find_none_all [of fst "config_checks c"] by (auto simp: ParseEngineConfig_def split: option.splits)

text \<open>
  Without a manifest a node starts alone: a configuration that passes the checks and names no
  manifest yields a set of validators only when the cluster has one node, and then validator 0 is the
  only one, with the node's own key just if it is node 0.
\<close>

theorem ephemeral_start_is_alone:
  assumes "ParseEngineConfig c = Inr c'" and "loadManifest co read decode (ec_Manifest c') (ec_NodeID c') = Inr None"
    and "loadBootstrapState co (ec_Manifest c') (ec_TotalNodes c') (ec_InitialValidators c') (ec_NodeID c') own fresh peers None = Inr (kp, vs, pm)"
  shows "ec_TotalNodes c = 1 \<and> kp = own \<and> fset (fmdom vs) = {0} \<and>
    (\<exists>v. fmlookup vs 0 = Some (Some v) \<and> v_PublicKey v = (if ec_NodeID c = 0 then fst own else fresh 0))"
proof -
  note c' = accepted_config(1) [OF assms(1)]
  have checks: "ec_TotalNodes c \<noteq> 0" "ec_InitialValidators c \<noteq> 0" "\<not> ec_InitialValidators c > ec_TotalNodes c"
    using accepted_config(2) [OF assms(1)] by (auto simp: config_checks_def)
  have "ec_Manifest c = []"
    using assms(2) by (auto simp: loadManifest_def c' split: if_splits sum.splits option.splits)
  then have "is_blank (ec_Manifest c')"
    by (simp add: c' is_blank_def TrimSpace_def trim_chars_def)
  then have "\<not> ec_TotalNodes c > 1"
    using assms(3) by (auto simp: loadBootstrapState_def RequiresManifest_def c' split: if_splits)
  then have "unat (ec_TotalNodes c) \<le> 1"
    by (simp add: word_less_nat_alt)
  moreover have "unat (ec_TotalNodes c) \<noteq> 0" "unat (ec_InitialValidators c) \<noteq> 0"
    "unat (ec_InitialValidators c) \<le> unat (ec_TotalNodes c)"
    using checks by (simp_all add: unat_eq_0 word_le_nat_alt not_less)
  ultimately have one: "unat (ec_TotalNodes c) = 1" "unat (ec_InitialValidators c) = 1" by linarith+
  then have "ec_TotalNodes c = 1"
    by (metis unat_1 word_unat_eq_iff)
  then show ?thesis
    using assms(3) one by (auto simp: loadBootstrapState_def c' split: if_splits sum.splits)
qed

definition toy_config :: engine_config where
  "toy_config = \<lparr> ec_NodeID = 0, ec_Port = 8080, ec_HTTPPort = 9000, ec_HTTPListenAddr = ''127.0.0.1'', ec_BasePort = 8080, ec_TotalNodes = 1, ec_InitialValidators = 1,
     ec_Peers = [], ec_Manifest = [], ec_Instances = 10, ec_BatchTxs = 4096, ec_TimeoutMs = 500, ec_InboundMsgQueue = 8192,
     ec_InboundTxQueue = 65536, ec_OrdererPendingCap = 65536, ec_ConsensusTopic = ''evolvbft-consensus'', ec_AdaptiveEnabled = False,
     ec_AdaptivePolicy = '' sfac '', ec_AdaptiveIntervalMs = 1000, ec_AdaptiveScript = [], ec_AdaptivePolicyURL = [],
     ec_AdaptiveTracePath = [], ec_AdminPprofEnabled = False \<rparr>"

theorem ephemeral_start_is_alone_witness:
  "\<exists>v. fmlookup (fmap_of_list [(0, Some \<lparr> v_ID = 0, v_PublicKey = [1], v_VRFPublicKey = [], v_Power = 1, v_IsActive = True \<rparr>)]) (0 :: u64) =
    Some (Some v) \<and> v_PublicKey v = (if ec_NodeID toy_config = 0 then fst ([1 :: u8], [2 :: u8]) else [3])"
proof -
  have "ParseEngineConfig toy_config = Inr (toy_config\<lparr>ec_AdaptivePolicy := ''sfac''\<rparr>)"
    by (simp add: ParseEngineConfig_def config_checks_def toy_config_def trimmed_policy_def is_blank_def TrimSpace_def trim_chars_def
        is_space_def allowedAdaptivePolicies_def)
  from ephemeral_start_is_alone [OF this, of toy_codec "\<lambda>p. None" "\<lambda>d. None" "([1], [2])" "\<lambda>i. [3]" "Inr fmempty"] show ?thesis
    by (simp add: toy_config_def loadManifest_def loadBootstrapState_def RequiresManifest_def is_blank_def TrimSpace_def trim_chars_def)
qed

end
