(* ===== verification/Hydra_Runs.thy ===== *)
theory Hydra_Runs
  imports Hydra_Properties Hydra_Manager
begin

text \<open>
  Every step of the Hydra manager (hydra/manager.go) is a step of its transition manager, the
  installation of a committed configuration included, so what holds of the runs of a transition manager
  (\<open>hydra_transition_backed\<close>, \<open>hydra_transitions_ordered\<close>) holds of the node.
\<close>

lemma hydra_step_configured:
  assumes "tm_reservedConfigID (at_tcm a) \<le> tm_reservedConfigID t"
    and "tm_Mvalid t = tm_Mvalid (at_tcm a) \<or> hc_ID (tm_Mvalid t) \<le> tm_reservedConfigID t"
    and "b = a\<lparr>at_tcm := t, at_lset := lm\<rparr>"
  shows "hydra_step env a b"
  unfolding assms(3) by (rule hydra_step.configure [OF assms(1,2)])

lemma manager_message:
  assumes "HandleMessage env now msg hm = Some (hm', r)" and "tm_reservedConfigID (hm_tcm hm) < u64_max"
  shows "hm_atm hm' = hm_atm hm \<or> hydra_step env (hm_atm hm) (hm_atm hm')"
proof (cases msg)
  case (HmAuto m)
  then obtain a where "HandleAutoTransitionMessage env now (Some m) (hm_atm hm) = Some (a, r)" "hm_atm hm' = a"
    using assms(1) by (auto simp: HandleMessage_def)
  with assms(2) show ?thesis by (blast intro: hydra_step.own atm_step.message)
qed (use assms(1) in \<open>auto simp: HandleMessage_def\<close>)

lemma manager_install:
  assumes "InstallCommittedConfiguration cp hm = (hm', r)"
  shows "hm_atm hm' = hm_atm hm \<or> hydra_step env (hm_atm hm) (hm_atm hm')"
proof (cases "hm_atm hm' = hm_atm hm")
  case False
  then obtain config where cp: "cp = Some config"
    using assms by (cases cp) (simp_all add: InstallCommittedConfiguration_def)
  let ?c = "configFromTypes config"
  have new: "hc_ID (tm_Mvalid (hm_tcm hm)) \<noteq> hc_ID ?c" and old: "\<not> hc_ID ?c < hc_ID (tm_Mvalid (hm_tcm hm))"
    using False assms by (auto simp: cp InstallCommittedConfiguration_def Let_def split: if_splits)
  then obtain t where t: "InstallCommittedConfig (Some ?c) (hm_tcm hm) = Inr t"
    by (simp add: InstallCommittedConfig_def)
  have hm': "hm_atm hm' = (hm_atm hm)\<lparr> at_tcm := t, at_lset := InstallConfiguration (Some ?c) (hm_lset hm) \<rparr>"
    using assms new old t by (simp add: cp InstallCommittedConfiguration_def update_tcm_def Let_def) (auto simp: prod_eq_iff)
  have "tm_reservedConfigID (hm_tcm hm) \<le> tm_reservedConfigID t" "hc_ID (tm_Mvalid t) \<le> tm_reservedConfigID t"
    using t new by (auto simp: InstallCommittedConfig_def split: if_splits)
  then show ?thesis
    by (simp add: hydra_step_configured [OF _ _ hm'])
qed simp

lemma manager_request:
  assumes "hm_SubmitJoinRequest i key pw hm = (hm', r) \<or> hm_SubmitLeaveRequest i hm = (hm', r)"
  shows "hydra_step env (hm_atm hm) (hm_atm hm')"
proof -
  have "tm_reservedConfigID (hm_tcm hm') = tm_reservedConfigID (hm_tcm hm) \<and> tm_Mvalid (hm_tcm hm') = tm_Mvalid (hm_tcm hm) \<and>
      hm_atm hm' = (hm_atm hm)\<lparr> at_tcm := hm_tcm hm', at_lset := hm_lset hm \<rparr>"
    using assms by (auto simp: hm_SubmitJoinRequest_def hm_SubmitLeaveRequest_def AddJoinRequest_def AddLeaveRequest_def
        update_tcm_def split: if_splits option.splits sum.splits)
  then have t: "tm_reservedConfigID (hm_tcm hm) \<le> tm_reservedConfigID (hm_tcm hm')"
      "tm_Mvalid (hm_tcm hm') = tm_Mvalid (hm_tcm hm) \<or> hc_ID (tm_Mvalid (hm_tcm hm')) \<le> tm_reservedConfigID (hm_tcm hm')"
    and hm': "hm_atm hm' = (hm_atm hm)\<lparr> at_tcm := hm_tcm hm', at_lset := hm_lset hm \<rparr>"
    by (auto simp only: order_refl)
  show ?thesis
    by (rule hydra_step_configured [OF t hm'])
qed

text \<open>Membership requests that are applied change only the candidate.\<close>

lemma applied_requests_step: "hydra_step env a (a\<lparr>at_tcm := fst (ApplyMemberRequests (at_tcm a))\<rparr>)"
  by (rule hydra_step_configured [where lm = "at_lset a"]) (simp_all add: ApplyMemberRequests_def Let_def)

theorem manager_runs:
  assumes "hm_step env hm hm'" and "tm_reservedConfigID (hm_tcm hm) < u64_max"
  shows "(hydra_step env)\<^sup>*\<^sup>* (hm_atm hm) (hm_atm hm')"
proof -
  have "hm_atm hm' = hm_atm hm \<or> hydra_step env (hm_atm hm) (hm_atm hm')"
    using assms(1)
  proof (cases rule: hm_step.cases)
    case (message now msg r)
    from manager_message [OF this assms(2)] show ?thesis .
  next
    case (join i key pw r)
    then show ?thesis by (blast intro: manager_request)
  next
    case (leave i r)
    then show ?thesis by (blast intro: manager_request)
  next
    case (install cp r)
    then show ?thesis by (rule manager_install)
  next
    case (trigger view a r)
    then show ?thesis by (auto intro: hydra_step.own atm_step.trigger)
  qed (auto simp: TrackResponsibility_def Let_def split: option.splits
      intro: hydra_step.own atm_step.collect atm_step.mark atm_step.clear)
  then show ?thesis by auto
qed

end
