(* ===== verification/Spec2Isabelle.thy ===== *)
theory Spec2Isabelle
  imports Executor Beacon Engine_Properties Engine_Limits Gbc_Agreement Gbc_Orderer Hydra_Execution
    Node_Install Ordered_Output Adaptive_Pipeline Adaptive_Runtime Genesis_Manifest
    Gbc_Transport Merkle Node_Inbox Node_Config Hydra_Runs
begin

text \<open>
  A model of Evolv-BFT, a multi-leader Byzantine-fault-tolerant replication system written in Go.
  Paths below are relative to src/src/evolvbft/, except cmd/evolvbft/, which is src/src/cmd/evolvbft/.

  \<^bold>\<open>The program.\<close>  A node runs several \<^emph>\<open>lanes\<close>, each a HotStuff-like engine that orders blocks by
  certificates, and merges the lanes by rank into one global log.  The executor applies the blocks of the
  global log; transactions of a special type reconfigure the set of validators, which is then installed in
  the membership manager, the Hydra manager and every engine.  Hydra removes misbehaving members by votes
  of its own, the global beacon chain (GBC) keeps an attested log of certificates and checkpoints, and the
  mempool of an engine turns submitted transactions into vertices that proposals refer to.  The adaptive layer
  observes a node, asks a policy for new parameters and members, and bounds what the policy may change.

  \<^bold>\<open>Theories and sources, in the order in which they build on each other.\<close>
  \<^item> \<open>Go_Prelude\<close>: Go maps as finite maps with nil values, unsigned words, big-endian bytes, hexadecimal
    text; the collections \<open>gomap_simps\<close> and \<open>framing\<close>.
  \<^item> \<open>Quorum_System\<close>, \<open>Append_Log\<close>: the interfaces as locales: weighted quorums that meet in an honest
    member, collectors of signatures, logs that only grow.  Each is interpreted on the program's own
    definitions: validator sets (\<open>Qc_Verification\<close>), members of the GBC (\<open>Gbc_Log\<close>), members of a Hydra
    configuration (\<open>Hydra_Agreement\<close>), certificates (\<open>Certificates\<close>), timeout collectors (\<open>View_Change\<close>),
    the global log (\<open>Orderer\<close>) and the attested log (\<open>Gbc_Log\<close>).
  \<^item> \<open>Consensus_Types\<close>, \<open>Config_Hash\<close>, \<open>Certificates\<close>: types/types.go, types/dag.go, types/vote.go: the
    data, validator sets and their powers, configuration hashes, signing bytes, block hashes.
  \<^item> \<open>Qc_Verification\<close>: crypto/crypto.go and \<open>verifyQC\<close> of consensus/hotstuff/engine.go.
  \<^item> \<open>Storage\<close>: storage/store.go.  \<open>Block_Tree\<close>: consensus/hotstuff/blocktree.go, the commit and voting rules.
  \<^item> \<open>Pacemaker\<close>, \<open>View_Change\<close>: consensus/pacemaker/pacemaker.go, consensus/viewchange/viewchange.go.
  \<^item> \<open>Orderer\<close>: consensus/hotstuff/orderer.go and rank_state.go.  \<open>Beacon\<close>: consensus/beacon.
    \<open>Reputation\<close>: consensus/hotstuff/reputation.go.
  \<^item> \<open>Engine_State\<close>, \<open>Engine_Steps\<close>, \<open>Engine\<close>: consensus/hotstuff/engine.go: the state, proposing and voting,
    and the handlers of messages; \<open>Toy_Cluster\<close> a small run of it, \<open>Engine_Properties\<close> and
    \<open>Engine_Limits\<close> what holds in every run and where it fails.  \<open>Node_Inbox\<close>: the start of an engine and its run loop
    behind the topic that feeds it.
  \<^item> \<open>Executor\<close>: consensus/hotstuff/executor.go.
  \<^item> \<open>Gbc_Log\<close>, \<open>Gbc_Node\<close>, \<open>Gbc_Agreement\<close>, \<open>Gbc_Orderer\<close>: consensus/gbc; \<open>Gbc_Transport\<close>: its transport
    over gossip and cmd/evolvbft/gbc_runtime.go.
  \<^item> \<open>Hydra_Config\<close>, \<open>Hydra_Transition\<close>, \<open>Hydra_Safety\<close>, \<open>Hydra_Agreement\<close>, \<open>Hydra_Properties\<close>: hydra/lset.go and
    hydra/autotransition.go; \<open>Hydra_Discovery\<close>: hydra/discovery.go; \<open>Hydra_Manager\<close>: hydra/manager.go and the
    dispatch of network bytes in cmd/evolvbft/main.go; \<open>Hydra_Runs\<close>: every run of the manager, installations
    included, is one of the runs about which the transitions are proved; \<open>Hydra_Execution\<close>: the transaction injected for an
    automatic transition, and whether the executor accepts it.
  \<^item> \<open>Membership\<close>: membership/membership.go.  \<open>Node_Install\<close>: the callback of cmd/evolvbft/main.go that
    installs a committed validator set in all parts of a node, and the authorization of requests.
  \<^item> \<open>Mempool\<close>: consensus/mempool/mempool.go.  \<open>Ordered_Output\<close>: the loop of cmd/evolvbft/main.go that
    applies the global log and publishes checkpoints.
  \<^item> \<open>Adaptive_Actions\<close>, \<open>Adaptive_Safety\<close>, \<open>Adaptive_Gate\<close>, \<open>Adaptive_Versions\<close>, \<open>Adaptive_Policy\<close>,
    \<open>Adaptive_Control\<close>: types.go, safety.go, epoch_gate.go, version.go, policy.go with sfac_actions.go, sfac_policy.go
    and resilient.go, and controller.go of adaptive/; \<open>Adaptive_Pipeline\<close>: integration/pipeline.go;
    \<open>Adaptive_Runtime\<close>: cmd/evolvbft/adaptive_runtime.go.
  \<^item> \<open>Topic_Names\<close>, \<open>Topic_Validation\<close>: network/libp2p/host.go: topics, the validator of gossiped messages,
    subscriptions, the address book.  \<open>Genesis_Manifest\<close>: bootstrap/manifest.go and the loading of the
    bootstrap state in cmd/evolvbft/main.go.  \<open>Node_Config\<close>: bootstrap/config.go, the checks of the flags and the
    peer maps.  \<open>Merkle\<close>: crypto/merkle.go.

  \<^bold>\<open>How code is represented.\<close>  A struct is a record, an operation a function from the state to the new
  state.  A section under a lock is one step; goroutines are interleavings of such steps, collected in
  an inductive relation per component, and run by its reflexive transitive closure.  A panic is \<open>None\<close>,
  a returned error a value.  Messages and calls of callbacks are events appended to an output list.  Integers of 64
  bits are words that wrap around where the code computes with them; lengths and counters that cannot
  reach their bound are \<open>int\<close> or \<open>nat\<close>, as each theory says.  Maps that Go iterates over in random order
  are iterated by key, or the theorem quantifies over every order.  The clock, Ed25519, SHA-256, the
  JSON and gob codecs, BLS and VRF are parameters, held in a record of the component's environment.

  \<^bold>\<open>What the lemmas show.\<close>
  \<^item> Agreement: quorums of validators meet in an honest one, so certificates of one view, attested entries of
    one height and Hydra transitions of one view agree.
  \<^item> Invariants of every run: what was verified before it is used, votes counted once, one proposal per
    view, growing certificates, the order and the bounds of the logs and of the mempool, epochs that form a
    chain, configurations that only move forward; actions within the guardrails, instances that stay large enough.
  \<^item> Equivalences and refinements: the parallel verifier and the sequential one, the voting rule and the
    ancestor relation, the global order and sorting, the injected transaction and the executor's checks,
    installation in the node and the executor's transition.
  \<^item> The edge of a node: what the topic validator lets through and how much of it, manifests whose
    identities agree, Merkle proofs that verify and bind.
  \<^item> Termination: the walk to the locked block ends on every store; the search for missing
    configurations and the retry loop end exactly under the conditions stated.
  \<^item> Limits: theorems of kind \<open>error\<close> prove where the code does not do what it means to.

  \<^bold>\<open>Loops and fuel.\<close>  No definition uses fuel.  Loops over lists are structural; the walk to the locked
  block ends because its set of visited hashes grows within the store; two loops that may not end
  (\<open>missing_from\<close>, \<open>apply_until\<close>) are partial functions whose value is \<open>None\<close> exactly then.  A premise
  such as \<open>e < u64_max\<close> excludes the wrap-around of a counter that no run reaches.

  \<^bold>\<open>Not modelled.\<close>
  \<^item> Transport: libp2p, the in-memory channels of the GBC and hydra's network adapter; what they deliver
    is arbitrary here, which is what the safety theorems assume.  The connection monitor and the connection
    statistics of host.go only call libp2p.
  \<^item> Cryptography proper (Ed25519, BLS and threshold signatures, VRF), gob and JSON: libraries outside the
    repository, kept as parameters with the law a theorem needs as a named premise.
  \<^item> Floating-point scoring: trust/, the rewards, statistics and parameter vectors of adaptive/ and most of
    reputation.go are real-valued estimates; the model takes their results as arguments, so the
    theorems hold for every estimate.
  \<^item> Start-up, HTTP endpoints and metrics of cmd/, the parsing of flags by Go's library, the simulators and the benchmarks.
\<close>

end
